(* ===== verification/Prelude.thy ===== *)
theory Prelude
  imports Main "HOL-Library.Word"
begin

unbundle bit_operations_syntax

text \<open>
  The vocabulary every component shares: the machine integers of the C++ sources as words of
  their width, byte strings as lists of 8-bit words, big-endian composition of 16- and 32-bit
  fields, and the simplification bundles that turn the masks of the sources into
  \<open>take_bit\<close> and split a fact about a byte into its eight bits.
\<close>

type_synonym u8 = "8 word"
type_synonym u16 = "16 word"
type_synonym u32 = "32 word"
type_synonym u64 = "64 word"
type_synonym bytes = "u8 list"

named_theorems masks \<open>masks of the sources as take_bit\<close>
named_theorems wire \<open>decoding of encoded fields\<close>

declare push_bit_Suc [simp del] take_bit_Suc_0 [simp del]

subsection \<open>Masks\<close>

lemma mask_AND [masks]:
  "(x :: 'a::len word) AND 0x01 = take_bit 1 x"
  "(x :: 'a::len word) AND 0x03 = take_bit 2 x"
  "(x :: 'a::len word) AND 0x07 = take_bit 3 x"
  "(x :: 'a::len word) AND 0x0F = take_bit 4 x"
  "(x :: 'a::len word) AND 0x1F = take_bit 5 x"
  "(x :: 'a::len word) AND 0x3F = take_bit 6 x"
  "(x :: 'a::len word) AND 0x7F = take_bit 7 x"
  "(x :: 'a::len word) AND 0xFF = take_bit 8 x"
  "(x :: 'a::len word) AND 0xFFFF = take_bit 16 x"
  "(x :: 'a::len word) AND 0x1FFFFFFFF = take_bit 33 x"
  by (simp_all add: take_bit_eq_mask mask_eq_exp_minus_1)

lemma AND_bit_iff [masks]:
  "(x :: 'a::len word) AND 0x80 = 0 \<longleftrightarrow> \<not> bit x 7"
  "(x :: 'a::len word) AND 0x40 = 0 \<longleftrightarrow> \<not> bit x 6"
  "(x :: 'a::len word) AND 0x20 = 0 \<longleftrightarrow> \<not> bit x 5"
  "(x :: 'a::len word) AND 0x10 = 0 \<longleftrightarrow> \<not> bit x 4"
  "(x :: 'a::len word) AND 0x02 = 0 \<longleftrightarrow> \<not> bit x 1"
  using and_exp_eq_0_iff_not_bit [of x 7] and_exp_eq_0_iff_not_bit [of x 6]
    and_exp_eq_0_iff_not_bit [of x 5] and_exp_eq_0_iff_not_bit [of x 4]
    and_exp_eq_0_iff_not_bit [of x 1]
  by simp_all

lemma AND_hi5 [masks]: "(x :: u8) AND 0xE0 = push_bit 5 (drop_bit 5 x)"
  and AND_hi4 [masks]: "(x :: u8) AND 0xF0 = push_bit 4 (drop_bit 4 x)"
proof -
  have e: "(0xE0 :: u8) = NOT (mask 5)" "(0xF0 :: u8) = NOT (mask 4)"
    by (simp_all add: mask_eq_exp_minus_1)
  show "x AND 0xE0 = push_bit 5 (drop_bit 5 x)"
    unfolding e by (rule bit_word_eqI) (auto simp: bit_simps)
  show "x AND 0xF0 = push_bit 4 (drop_bit 4 x)"
    unfolding e by (rule bit_word_eqI) (auto simp: bit_simps)
qed

lemma XOR_XOR_self [simp]: "((x :: 'a::len word) XOR k) XOR k = x"
  by (rule bit_word_eqI) (auto simp: bit_simps)

lemma XOR_cancel_right [simp]: "(x :: 'a::len word) XOR k = y XOR k \<longleftrightarrow> x = y"
  by (metis XOR_XOR_self)

lemma XOR_cancel_left [simp]: "k XOR (x :: 'a::len word) = k XOR y \<longleftrightarrow> x = y"
  by (simp add: xor.commute [of k])

lemma XOR_eq_0_iff [simp]: "(x :: 'a::len word) XOR y = 0 \<longleftrightarrow> x = y"
  using XOR_cancel_right [of x y y] by simp

lemma byte_eqI:
  fixes a b :: u8
  assumes "bit a 0 = bit b 0" "bit a 1 = bit b 1" "bit a 2 = bit b 2" "bit a 3 = bit b 3"
    "bit a 4 = bit b 4" "bit a 5 = bit b 5" "bit a 6 = bit b 6" "bit a 7 = bit b 7"
  shows "a = b"
proof (rule bit_word_eqI)
  fix n assume "n < LENGTH(8)"
  then have "n = 0 \<or> n = 1 \<or> n = 2 \<or> n = 3 \<or> n = 4 \<or> n = 5 \<or> n = 6 \<or> n = 7" by auto
  with assms show "bit a n = bit b n" by (elim disjE) simp_all
qed

lemma unat_ucast_up: "LENGTH('a::len) \<le> LENGTH('b::len) \<Longrightarrow> unat (ucast (w :: 'a word) :: 'b word) = unat w"
proof -
  assume "LENGTH('a) \<le> LENGTH('b)"
  then have "(2::nat) ^ LENGTH('a) \<le> 2 ^ LENGTH('b)" by simp
  moreover have "unat w < 2 ^ LENGTH('a)" by (rule unsigned_less)
  ultimately have "unat w < 2 ^ LENGTH('b)" by linarith
  then show ?thesis by (simp add: unsigned_ucast_eq take_bit_nat_eq_self)
qed

lemma unat_u8_le: "unat (b :: u8) \<le> 255"
proof -
  have "unat b < 2 ^ LENGTH(8)" by (rule unsigned_less)
  then show ?thesis by simp
qed

lemma unat_of_nat_small: "n < 2 ^ LENGTH('a::len) \<Longrightarrow> unat (of_nat n :: 'a word) = n"
  by (simp add: unsigned_of_nat take_bit_nat_eq_self)

subsection \<open>Big-endian fields\<close>

definition be16 :: "u8 \<Rightarrow> u8 \<Rightarrow> u16" where
  "be16 h l = push_bit 8 (ucast h) OR ucast l"

definition be32 :: "u8 \<Rightarrow> u8 \<Rightarrow> u8 \<Rightarrow> u8 \<Rightarrow> u32" where
  "be32 a b c d = push_bit 24 (ucast a) OR push_bit 16 (ucast b) OR push_bit 8 (ucast c) OR ucast d"

definition hi8 :: "u16 \<Rightarrow> u8" where "hi8 w = ucast (drop_bit 8 w)"
definition lo8 :: "u16 \<Rightarrow> u8" where "lo8 w = ucast w"

definition bytes16 :: "u16 \<Rightarrow> bytes" where "bytes16 w = [hi8 w, lo8 w]"

definition bytes32 :: "u32 \<Rightarrow> bytes" where
  "bytes32 w = [ucast (drop_bit 24 w), ucast (drop_bit 16 w), ucast (drop_bit 8 w), ucast w]"

lemma bit_u8_ge [simp]: "8 \<le> n \<Longrightarrow> \<not> bit (w :: u8) n"
  using bit_imp_le_length [of w n] by auto

lemma be16_hi8_lo8 [simp, wire]: "be16 (hi8 w) (lo8 w) = w"
  by (rule bit_word_eqI) (auto simp: be16_def hi8_def lo8_def bit_simps)

lemma hi8_be16 [simp, wire]: "hi8 (be16 h l) = h"
  by (rule bit_word_eqI) (auto simp: be16_def hi8_def bit_simps)

lemma lo8_be16 [simp, wire]: "lo8 (be16 h l) = l"
  by (rule bit_word_eqI) (auto simp: be16_def lo8_def bit_simps)

lemma be16_inject [simp]: "be16 a b = be16 c d \<longleftrightarrow> a = c \<and> b = d"
  by (metis hi8_be16 lo8_be16)

lemma be32_bytes32 [simp, wire]:
  "be32 (ucast (drop_bit 24 w)) (ucast (drop_bit 16 w)) (ucast (drop_bit 8 w)) (ucast w) = w"
proof (rule bit_word_eqI)
  fix n assume "n < LENGTH(32)"
  then consider "n < 8" | "8 \<le> n" "n < 16" | "16 \<le> n" "n < 24" | "24 \<le> n" "n < 32" by force
  then show "bit (be32 (ucast (drop_bit 24 w)) (ucast (drop_bit 16 w)) (ucast (drop_bit 8 w)) (ucast w)) n
    = bit w n"
    by cases (auto simp: be32_def bit_simps)
qed

lemma length_bytes32 [simp]: "length (bytes32 w) = 4" by (simp add: bytes32_def)
lemma length_bytes16 [simp]: "length (bytes16 w) = 2" by (simp add: bytes16_def)

lemma bytes32_be32: "bytes32 (be32 a b c d) = [a, b, c, d]"
  unfolding bytes32_def be32_def by (simp; intro conjI; rule bit_word_eqI) (auto simp: bit_simps)

text \<open>Looking a row up after an update that leaves what is looked for alone.\<close>

lemma find_map_same: "(\<And>x. P (g x) = P x) \<Longrightarrow> find P (map g xs) = map_option g (find P xs)"
  by (induction xs) simp_all

end
