(* ===== verification/Crc32.thy ===== *)
theory Crc32
  imports Prelude
begin

text \<open>
  The MPEG-2 Systems CRC of \<^verbatim>\<open>src/gateway/ts/Crc32.cpp\<close>: the 256-entry table built
  at compile time (\<open>buildTable\<close>), the table-driven byte loop (\<open>crc32Mpeg2\<close>), and
  what the PSI code relies on: the loop is the bit-serial division by the polynomial
  (\<open>crc_serial\<close>), a message followed by its own CRC has remainder 0, and a
  corruption confined to four consecutive bytes always changes the remainder.
\<close>

subsection \<open>The code\<close>

text \<open>One step of the inner loop of \<open>buildTable\<close>.\<close>

definition crc_bit :: "u32 \<Rightarrow> u32" where
  "crc_bit c = (if c AND 0x80000000 \<noteq> 0 then push_bit 1 c XOR 0x04C11DB7 else push_bit 1 c)"

definition table_entry :: "nat \<Rightarrow> u32" where
  "table_entry i = (crc_bit ^^ 8) (push_bit 24 (of_nat i))"

definition buildTable :: "u32 list" where
  "buildTable = map table_entry [0..<256]"

definition kTable :: "u32 list" where
  "kTable = buildTable"

definition crc_step :: "u32 \<Rightarrow> u8 \<Rightarrow> u32" where
  "crc_step crc b = push_bit 8 crc XOR (kTable ! unat ((drop_bit 24 crc XOR ucast b) AND 0xFF))"

definition crc32Mpeg2 :: "bytes \<Rightarrow> u32 \<Rightarrow> u32" where
  "crc32Mpeg2 data init = foldl crc_step init data"

text \<open>The default argument of the declaration in \<^verbatim>\<open>Crc32.h\<close>.\<close>

abbreviation crc :: "bytes \<Rightarrow> u32" where
  "crc data \<equiv> crc32Mpeg2 data 0xFFFFFFFF"

lemma crc32Mpeg2_append: "crc32Mpeg2 (xs @ ys) i = crc32Mpeg2 ys (crc32Mpeg2 xs i)"
  by (simp add: crc32Mpeg2_def)

lemma crc32Mpeg2_Nil [simp]: "crc32Mpeg2 [] i = i"
  and crc32Mpeg2_Cons: "crc32Mpeg2 (b # xs) i = crc32Mpeg2 xs (crc_step i b)"
  by (simp_all add: crc32Mpeg2_def)

subsection \<open>One bit of the division\<close>

lemma AND_msb32: "(c :: u32) AND 0x80000000 \<noteq> 0 \<longleftrightarrow> bit c 31"
proof -
  have e: "(0x80000000 :: u32) = 2 ^ 31" by simp
  show ?thesis unfolding e and_exp_eq_0_iff_not_bit by simp
qed

lemma crc_bit_alt: "crc_bit c = (if bit c 31 then push_bit 1 c XOR 0x04C11DB7 else push_bit 1 c)"
  by (simp add: crc_bit_def AND_msb32)

lemma XOR_swap4: "((a :: 'a::len word) XOR b) XOR (c XOR d) = (a XOR c) XOR (b XOR d)"
  by (simp add: ac_simps)

lemma crc_bit_XOR: "crc_bit (a XOR b) = crc_bit a XOR crc_bit b"
proof -
  have p: "push_bit 1 (a XOR b) = push_bit 1 a XOR push_bit 1 b"
    by (rule push_bit_xor)
  have c: "x XOR k XOR (y XOR k) = x XOR y" for x y k :: u32
    by (rule bit_word_eqI) (auto simp: bit_simps)
  show ?thesis
    by (cases "bit a 31"; cases "bit b 31")
      (simp_all add: crc_bit_alt p bit_xor_iff c, simp_all add: ac_simps)
qed

lemma crc_bits_XOR: "(crc_bit ^^ n) (a XOR b) = (crc_bit ^^ n) a XOR (crc_bit ^^ n) b"
  by (induction n) (simp_all add: crc_bit_XOR)

lemma crc_bit_low: "\<not> bit c 31 \<Longrightarrow> crc_bit c = push_bit 1 c"
  by (simp add: crc_bit_alt)

lemma crc_bits_low:
  assumes "n \<le> 32" and "\<And>k. 32 - n \<le> k \<Longrightarrow> \<not> bit c k"
  shows "(crc_bit ^^ n) c = push_bit n c"
  using assms
proof (induction n)
  case 0
  then show ?case by simp
next
  case (Suc n)
  then have IH: "(crc_bit ^^ n) c = push_bit n c" by (auto simp: Suc_diff_le)
  have "\<not> bit c (31 - n)" using Suc.prems by auto
  then have "\<not> bit (push_bit n c) 31" by (simp add: bit_simps)
  with IH show ?case by (simp add: crc_bit_low)
qed

lemma crc_bit_inj: "inj crc_bit"
proof (rule injI)
  fix a b :: u32
  assume eq: "crc_bit a = crc_bit b"
  have lsb: "bit (crc_bit c) 0 = bit c 31" for c
    by (simp add: crc_bit_alt bit_0 even_xor_iff)
  from eq have "bit a 31 = bit b 31" using lsb by metis
  with eq have s: "push_bit 1 a = push_bit 1 b" by (auto simp: crc_bit_alt split: if_splits)
  show "a = b"
  proof (rule bit_word_eqI)
    fix n assume "n < LENGTH(32)"
    show "bit a n = bit b n"
    proof (cases "n = 31")
      case True
      with \<open>bit a 31 = bit b 31\<close> show ?thesis by simp
    next
      case False
      with \<open>n < LENGTH(32)\<close> have "bit (push_bit 1 a) (Suc n) = bit a n"
        "bit (push_bit 1 b) (Suc n) = bit b n"
        by (simp_all only: bit_push_bit_iff possible_bit_word) auto
      with s show ?thesis by simp
    qed
  qed
qed

lemma crc_bits_inj: "(crc_bit ^^ n) a = (crc_bit ^^ n) b \<Longrightarrow> a = b"
  using inj_fn [OF crc_bit_inj, of n] by (simp add: inj_eq)

subsection \<open>One byte of the table loop\<close>

lemma kTable_nth: "i < 256 \<Longrightarrow> kTable ! i = table_entry i"
  by (simp add: kTable_def buildTable_def)

lemma crc_step_bits: "crc_step c b = (crc_bit ^^ 8) (c XOR push_bit 24 (ucast b))"
proof -
  define t where "t = (drop_bit 24 c XOR ucast b) AND 0xFF"
  have "unat t < 2 ^ 8"
    unfolding t_def mask_AND unsigned_take_bit_eq by (rule take_bit_nat_less_exp)
  then have entry: "kTable ! unat t = (crc_bit ^^ 8) (push_bit 24 t)"
    by (simp add: kTable_nth table_entry_def)
  have split: "c XOR push_bit 24 (ucast b) = push_bit 24 t XOR take_bit 24 c"
    unfolding t_def mask_AND by (rule bit_word_eqI) (auto simp: bit_simps)
  have low: "(crc_bit ^^ 8) (take_bit 24 c) = push_bit 8 (take_bit 24 c)"
    by (rule crc_bits_low) (auto simp: bit_simps)
  have "push_bit 8 (take_bit 24 c) = push_bit 8 c"
    by (rule bit_word_eqI) (auto simp: bit_simps)
  with low entry split show ?thesis
    unfolding crc_step_def t_def [symmetric] by (simp only: crc_bits_XOR xor.commute)
qed

lemma crc_step_XOR: "crc_step (a XOR b) (x XOR y) = crc_step a x XOR crc_step b y"
proof -
  have "(a XOR b) XOR push_bit 24 (ucast (x XOR y))
      = (a XOR push_bit 24 (ucast x)) XOR (b XOR push_bit 24 (ucast y))"
    by (rule bit_word_eqI) (auto simp: bit_simps)
  then show ?thesis by (simp only: crc_step_bits crc_bits_XOR)
qed

lemma crc_step_inj: "crc_step a x = crc_step b x \<longleftrightarrow> a = b"
  using crc_bits_inj [of 8 "a XOR push_bit 24 (ucast x)" "b XOR push_bit 24 (ucast x)"]
  by (auto simp: crc_step_bits)

lemma crc32Mpeg2_inj: "crc32Mpeg2 xs a = crc32Mpeg2 xs b \<longleftrightarrow> a = b"
  by (induction xs arbitrary: a b) (simp_all add: crc32Mpeg2_Cons crc_step_inj)

lemma crc32Mpeg2_XOR:
  "length xs = length ys \<Longrightarrow>
    crc32Mpeg2 (map2 (XOR) xs ys) (a XOR b) = crc32Mpeg2 xs a XOR crc32Mpeg2 ys b"
  by (induction xs ys arbitrary: a b rule: list_induct2)
    (simp_all add: crc32Mpeg2_Cons crc_step_XOR)

text \<open>Feeding the register its own top byte shifts it left by eight.\<close>

lemma crc_step_top: "crc_step c (ucast (drop_bit 24 c)) = push_bit 8 c"
proof -
  have "c XOR push_bit 24 (ucast (ucast (drop_bit 24 c) :: u8)) = take_bit 24 c"
    by (rule bit_word_eqI) (auto simp: bit_simps)
  moreover have "(crc_bit ^^ 8) (take_bit 24 c) = push_bit 8 (take_bit 24 c)"
    by (rule crc_bits_low) (auto simp: bit_simps)
  moreover have "push_bit 8 (take_bit 24 c) = push_bit 8 c"
    by (rule bit_word_eqI) (auto simp: bit_simps)
  ultimately show ?thesis by (simp add: crc_step_bits)
qed

lemma crc32Mpeg2_own: "crc32Mpeg2 (bytes32 c) c = 0"
proof -
  have t: "(ucast (drop_bit (24 - k) c) :: u8) = ucast (drop_bit 24 (push_bit k c))" if "k \<le> 24" for k
    using that by (intro bit_word_eqI) (auto simp: bit_simps)
  have "bytes32 c = [ucast (drop_bit 24 c), ucast (drop_bit 24 (push_bit 8 c)),
      ucast (drop_bit 24 (push_bit 16 c)), ucast (drop_bit 24 (push_bit 24 c))]"
    using t [of 8] t [of 16] t [of 24] by (simp add: bytes32_def)
  moreover have "push_bit 32 c = 0" by (rule bit_word_eqI) (auto simp: bit_simps)
  ultimately show ?thesis
    by (simp add: crc32Mpeg2_Cons crc_step_top)
qed

subsection \<open>The bit-serial specification\<close>

text \<open>
  The shift register of ISO/IEC 13818-1 Annex A: message bits enter most significant bit
  first, and the bit shifted out is added to the incoming one to decide whether the
  polynomial is subtracted.
\<close>

fun crc_serial :: "bool list \<Rightarrow> u32 \<Rightarrow> u32" where
  "crc_serial [] c = c"
| "crc_serial (m # ms) c =
     crc_serial ms (if bit c 31 \<noteq> m then push_bit 1 c XOR 0x04C11DB7 else push_bit 1 c)"

definition byte_bits :: "u8 \<Rightarrow> bool list" where
  "byte_bits b = map (bit b) [7, 6, 5, 4, 3, 2, 1, 0]"

definition msb_of :: "bool \<Rightarrow> nat \<Rightarrow> u32" where
  "msb_of m k = push_bit k (of_bool m)"

lemma crc_bit_msb_of: "crc_bit (c XOR msb_of m 31) =
    (if bit c 31 \<noteq> m then push_bit 1 c XOR 0x04C11DB7 else push_bit 1 c)"
proof -
  have "push_bit 1 (c XOR msb_of m 31) = push_bit 1 c"
    by (rule bit_word_eqI) (auto simp: msb_of_def bit_simps)
  moreover have "bit (c XOR msb_of m 31) 31 \<longleftrightarrow> bit c 31 \<noteq> m"
    by (auto simp: msb_of_def bit_simps)
  ultimately show ?thesis by (simp add: crc_bit_alt)
qed

lemma crc_bits_msb_of: "k \<le> 31 \<Longrightarrow> (crc_bit ^^ k) (msb_of m (31 - k)) = msb_of m 31"
  by (subst crc_bits_low) (auto simp: msb_of_def bit_simps)

fun bits_word :: "bool list \<Rightarrow> nat \<Rightarrow> u32" where
  "bits_word [] k = 0"
| "bits_word (m # ms) k = msb_of m k XOR bits_word ms (k - 1)"

lemma crc_bit_bits_word: "length ms \<le> Suc k \<Longrightarrow> k \<le> 30 \<Longrightarrow>
    crc_bit (bits_word ms k) = bits_word ms (Suc k)"
proof (induction ms arbitrary: k)
  case Nil
  then show ?case by (simp add: crc_bit_alt)
next
  case (Cons m ms)
  have hd: "crc_bit (msb_of m k) = msb_of m (Suc k)"
    using Cons.prems by (subst crc_bit_low) (auto simp: msb_of_def bit_simps)
  have tl: "crc_bit (bits_word ms (k - 1)) = bits_word ms k"
  proof (cases k)
    case 0
    with Cons.prems have "ms = []" by simp
    with 0 show ?thesis by (simp add: crc_bit_alt)
  next
    case (Suc j)
    with Cons.prems have "length ms \<le> Suc j" "j \<le> 30" by simp_all
    from Cons.IH [OF this] show ?thesis unfolding Suc by simp
  qed
  show ?case by (simp add: crc_bit_XOR hd tl [simplified])
qed

lemma crc_serial_bits: "length ms \<le> 32 \<Longrightarrow>
    crc_serial ms c = (crc_bit ^^ length ms) (c XOR bits_word ms 31)"
proof (induction ms arbitrary: c)
  case Nil
  then show ?case by simp
next
  case (Cons m ms)
  have "crc_bit (bits_word ms 30) = bits_word ms 31"
    using Cons.prems crc_bit_bits_word [of ms 30] by simp
  then have step: "crc_bit (c XOR msb_of m 31) XOR bits_word ms 31
      = crc_bit (c XOR (msb_of m 31 XOR bits_word ms 30))"
    by (simp add: crc_bit_XOR ac_simps)
  have "crc_serial (m # ms) c = crc_serial ms (crc_bit (c XOR msb_of m 31))"
    by (simp add: crc_bit_msb_of)
  also have "\<dots> = (crc_bit ^^ length ms) (crc_bit (c XOR (msb_of m 31 XOR bits_word ms 30)))"
    using Cons by (simp add: step)
  finally show ?case by (simp add: funpow_swap1)
qed

lemma bit_bits_word: "length ms \<le> Suc k \<Longrightarrow> k \<le> 31 \<Longrightarrow>
    bit (bits_word ms k) n \<longleftrightarrow> n \<le> k \<and> k - n < length ms \<and> ms ! (k - n)"
proof (induction ms arbitrary: k)
  case Nil
  then show ?case by simp
next
  case (Cons m ms)
  have top: "bit (msb_of m k) n \<longleftrightarrow> n = k \<and> m"
    using Cons.prems by (auto simp: msb_of_def bit_simps)
  show ?case
  proof (cases k)
    case 0
    with Cons.prems top show ?thesis by (auto simp: bit_simps)
  next
    case (Suc j)
    with Cons.prems Cons.IH [of j] top show ?thesis
      by (auto simp: bit_simps nth_Cons' Suc_diff_le le_Suc_eq)
  qed
qed

lemma bits_word_byte_bits: "bits_word (byte_bits b) 31 = push_bit 24 (ucast b)"
proof (rule bit_word_eqI)
  fix n assume n: "n < LENGTH(32)"
  have map: "byte_bits b = map (\<lambda>i. bit b (7 - i)) [0..<8]"
    by (simp add: byte_bits_def upt_conv_Cons)
  have "n - 24 < 8" using n by simp
  with n show "bit (bits_word (byte_bits b) 31) n = bit (push_bit 24 (ucast b) :: u32) n"
    by (auto simp: map bit_bits_word bit_simps)
qed

lemma crc_serial_append: "crc_serial (xs @ ys) c = crc_serial ys (crc_serial xs c)"
  by (induction xs arbitrary: c) simp_all

lemma crc_serial_byte: "crc_serial (byte_bits b) c = crc_step c b"
proof -
  have "length (byte_bits b) = 8" by (simp add: byte_bits_def)
  then show ?thesis
    using crc_serial_bits [of "byte_bits b" c] by (simp only: bits_word_byte_bits crc_step_bits)
qed

lemma crc32Mpeg2_serial:
  "crc32Mpeg2 data init = crc_serial (concat (map byte_bits data)) init"
  by (induction data arbitrary: init)
    (simp_all add: crc32Mpeg2_Cons crc_serial_append crc_serial_byte)

subsection \<open>Detection of burst errors\<close>

lemma crc_step_0_0: "crc_step 0 0 = 0"
proof -
  have "(crc_bit ^^ n) 0 = 0" for n by (induction n) (simp_all add: crc_bit_alt)
  then show ?thesis by (simp add: crc_step_bits)
qed

lemma crc32Mpeg2_zeros: "crc32Mpeg2 (replicate n 0) 0 = 0"
  by (induction n) (simp_all add: crc32Mpeg2_Cons crc_step_0_0)

lemma crc32Mpeg2_four_zero: "crc32Mpeg2 [a, b, c, d] 0 = 0 \<longleftrightarrow> [a, b, c, d] = [0, 0, 0, 0]"
proof
  assume z: "crc32Mpeg2 [a, b, c, d] 0 = 0"
  define w where "w = be32 a b c d"
  have w: "bytes32 w = [a, b, c, d]" by (simp add: w_def bytes32_be32)
  have "crc32Mpeg2 (bytes32 w) w = crc32Mpeg2 (bytes32 w) 0"
    using z crc32Mpeg2_own [of w] w by simp
  then have "w = 0" by (simp add: crc32Mpeg2_inj)
  with w show "[a, b, c, d] = [0, 0, 0, 0]" by (simp add: bytes32_def)
next
  assume "[a, b, c, d] = [0, 0, 0, 0]"
  then show "crc32Mpeg2 [a, b, c, d] 0 = 0"
    using crc32Mpeg2_zeros [of 4] by (simp add: numeral_eq_Suc)
qed

lemma length_4: "length xs = 4 \<Longrightarrow> \<exists>a b c d. xs = [a, b, c, d]"
  by (auto simp: numeral_eq_Suc length_Suc_conv)

lemma crc32Mpeg2_short_zero:
  assumes "length ds \<le> 4" and "crc32Mpeg2 ds 0 = 0"
  shows "ds = replicate (length ds) 0"
proof -
  let ?zs = "replicate (4 - length ds) 0 @ ds"
  have z: "crc32Mpeg2 ?zs 0 = 0"
    using assms(2) by (simp add: crc32Mpeg2_append crc32Mpeg2_zeros)
  have "length ?zs = 4" using assms(1) by simp
  then obtain a b c d where abcd: "?zs = [a, b, c, d]" using length_4 by blast
  from z have "set ?zs = {0}" unfolding abcd crc32Mpeg2_four_zero by simp
  then show ?thesis by (intro replicate_length_same [symmetric]) auto
qed

lemma map2_XOR_zero:
  "length xs = length ys \<Longrightarrow> map2 (XOR) xs ys = replicate (length xs) (0 :: u8) \<Longrightarrow> xs = ys"
  by (induction xs ys rule: list_induct2) auto

lemma crc32Mpeg2_burst:
  assumes "length mid = length mid'" "length mid \<le> 4" "mid \<noteq> mid'"
  shows "crc32Mpeg2 (pre @ mid @ suf) i \<noteq> crc32Mpeg2 (pre @ mid' @ suf) i"
proof
  assume "crc32Mpeg2 (pre @ mid @ suf) i = crc32Mpeg2 (pre @ mid' @ suf) i"
  then have "crc32Mpeg2 mid (crc32Mpeg2 pre i) = crc32Mpeg2 mid' (crc32Mpeg2 pre i)"
    by (simp add: crc32Mpeg2_append crc32Mpeg2_inj)
  then have "crc32Mpeg2 (map2 (XOR) mid mid') 0 = 0"
    using crc32Mpeg2_XOR [OF assms(1), of "crc32Mpeg2 pre i" "crc32Mpeg2 pre i"] by simp
  with assms have "map2 (XOR) mid mid' = replicate (length mid) 0"
    using crc32Mpeg2_short_zero [of "map2 (XOR) mid mid'"] by simp
  with assms show False using map2_XOR_zero by blast
qed

section \<open>Properties\<close>

text \<open>The table-driven CRC is the bit-serial shift register over the message bits, most significant
  first, and a message followed by its own CRC has remainder 0.\<close>

lemma crc_table_matches_shift_register:
  shows "crc32Mpeg2 data init = crc_serial (concat (map byte_bits data)) init \<and>
    crc32Mpeg2 (data @ bytes32 (crc32Mpeg2 data init)) init = 0"
  unfolding crc32Mpeg2_append crc32Mpeg2_own by (rule conjI [OF crc32Mpeg2_serial refl])

end
