(* ===== verification/TsPacket.thy ===== *)
theory TsPacket
  imports Prelude
begin

text \<open>
  The 188-byte transport stream packet of \<^verbatim>\<open>src/gateway/ts/TsPacket.h\<close>: the
  accessors of \<open>TsPacketView\<close>, the rewriting operations of \<open>TsPacketMut\<close> (PID remap,
  continuity counter, PCR restamp) and \<open>makeNullPacket\<close>. A packet is the list of its
  bytes; \<open>ts_packet\<close> says that it has the static extent 188 of the span. The lemmas show
  that each rewriting operation is read back by its accessor and leaves every other field and
  the payload alone.
\<close>

definition kTsPacketSize :: nat where "kTsPacketSize = 188"
definition kTsSyncByte :: u8 where "kTsSyncByte = 0x47"
definition kPidNull :: u16 where "kPidNull = 0x1FFF"

definition ts_packet :: "bytes \<Rightarrow> bool" where
  "ts_packet p \<longleftrightarrow> length p = kTsPacketSize"

datatype AdaptationFieldControl = AfcReserved | PayloadOnly | AfOnly | AfThenPayload

subsection \<open>The view\<close>

definition syncByte :: "bytes \<Rightarrow> u8" where "syncByte p = p ! 0"
definition isValidSync :: "bytes \<Rightarrow> bool" where "isValidSync p \<longleftrightarrow> syncByte p = kTsSyncByte"
definition tei :: "bytes \<Rightarrow> bool" where "tei p \<longleftrightarrow> p ! 1 AND 0x80 \<noteq> 0"
definition pusi :: "bytes \<Rightarrow> bool" where "pusi p \<longleftrightarrow> p ! 1 AND 0x40 \<noteq> 0"
definition priority :: "bytes \<Rightarrow> bool" where "priority p \<longleftrightarrow> p ! 1 AND 0x20 \<noteq> 0"

definition pid :: "bytes \<Rightarrow> u16" where
  "pid p = push_bit 8 (ucast (p ! 1 AND 0x1F)) OR ucast (p ! 2)"

definition scrambling :: "bytes \<Rightarrow> u8" where
  "scrambling p = drop_bit 6 (p ! 3) AND 0x03"

definition afControl :: "bytes \<Rightarrow> AdaptationFieldControl" where
  "afControl p = (let a = drop_bit 4 (p ! 3) AND 0x03 in
     if a = 0 then AfcReserved else if a = 1 then PayloadOnly
     else if a = 2 then AfOnly else AfThenPayload)"

definition hasAdaptationField :: "bytes \<Rightarrow> bool" where
  "hasAdaptationField p \<longleftrightarrow> afControl p = AfOnly \<or> afControl p = AfThenPayload"

definition hasPayload :: "bytes \<Rightarrow> bool" where
  "hasPayload p \<longleftrightarrow> afControl p = PayloadOnly \<or> afControl p = AfThenPayload"

definition continuityCounter :: "bytes \<Rightarrow> u8" where
  "continuityCounter p = p ! 3 AND 0x0F"

definition adaptationFieldLength :: "bytes \<Rightarrow> u8" where
  "adaptationFieldLength p = (if hasAdaptationField p then p ! 4 else 0)"

definition payloadOffset :: "bytes \<Rightarrow> nat" where
  "payloadOffset p =
     (if \<not> hasPayload p then kTsPacketSize
      else if \<not> hasAdaptationField p then 4
      else let off = 5 + unat (adaptationFieldLength p)
           in if off > kTsPacketSize then kTsPacketSize else off)"

definition payload :: "bytes \<Rightarrow> bytes" where
  "payload p = (let off = payloadOffset p in
     if off \<ge> kTsPacketSize then [] else take (kTsPacketSize - off) (drop off p))"

definition kPcrNone :: u64 where "kPcrNone = NOT 0"

definition pcr27Mhz :: "bytes \<Rightarrow> u64" where
  "pcr27Mhz p =
     (if \<not> hasAdaptationField p then kPcrNone
      else if adaptationFieldLength p < 7 then kPcrNone
      else if p ! 5 AND 0x10 = 0 then kPcrNone
      else let base = push_bit 25 (ucast (p ! 6)) OR push_bit 17 (ucast (p ! 7))
                      OR push_bit 9 (ucast (p ! 8)) OR push_bit 1 (ucast (p ! 9))
                      OR drop_bit 7 (ucast (p ! 10) :: u64);
               ext = push_bit 8 (ucast (p ! 10 AND 0x01)) OR ucast (p ! 11) :: u16
           in base * 300 + ucast ext)"

definition discontinuityIndicator :: "bytes \<Rightarrow> bool" where
  "discontinuityIndicator p \<longleftrightarrow>
     hasAdaptationField p \<and> \<not> adaptationFieldLength p < 1 \<and> p ! 5 AND 0x80 \<noteq> 0"

subsection \<open>Rewriting\<close>

definition setPid :: "u16 \<Rightarrow> bytes \<Rightarrow> bytes" where
  "setPid v p = p[1 := (p ! 1 AND 0xE0) OR ucast (drop_bit 8 v AND 0x1F), 2 := ucast (v AND 0xFF)]"

definition setContinuityCounter :: "u8 \<Rightarrow> bytes \<Rightarrow> bytes" where
  "setContinuityCounter cc p = p[3 := (p ! 3 AND 0xF0) OR (cc AND 0x0F)]"

definition setPcr27Mhz :: "u64 \<Rightarrow> bytes \<Rightarrow> bool \<times> bytes" where
  "setPcr27Mhz v p =
     (if \<not> hasAdaptationField p then (False, p)
      else if adaptationFieldLength p < 7 then (False, p)
      else if p ! 5 AND 0x10 = 0 then (False, p)
      else let base = v div 300; ext = ucast (v mod 300) :: u16 in
        (True, p[6 := ucast (drop_bit 25 base AND 0xFF),
                 7 := ucast (drop_bit 17 base AND 0xFF),
                 8 := ucast (drop_bit 9 base AND 0xFF),
                 9 := ucast (drop_bit 1 base AND 0xFF),
                 10 := ucast (push_bit 7 (base AND 0x01) OR 0x7E OR (ucast (drop_bit 8 ext) AND 0x01)),
                 11 := ucast (ext AND 0xFF)]))"

definition makeNullPacket :: bytes where
  "makeNullPacket = [kTsSyncByte, 0x1F, 0xFF, 0x20, 183, 0x00] @ replicate (kTsPacketSize - 6) 0xFF"

definition carries_pcr :: "bytes \<Rightarrow> bool" where
  "carries_pcr p \<longleftrightarrow> hasAdaptationField p \<and> \<not> adaptationFieldLength p < 7 \<and> p ! 5 AND 0x10 \<noteq> 0"

lemmas header_defs = syncByte_def isValidSync_def tei_def pusi_def priority_def pid_def
  scrambling_def afControl_def continuityCounter_def hasAdaptationField_def hasPayload_def

lemmas view_defs = header_defs adaptationFieldLength_def payloadOffset_def payload_def
  pcr27Mhz_def discontinuityIndicator_def

subsection \<open>Payload bounds\<close>

lemma payloadOffset_bounds: "4 \<le> payloadOffset p" "payloadOffset p \<le> kTsPacketSize"
  by (auto simp: payloadOffset_def kTsPacketSize_def Let_def)

lemma length_payload: "ts_packet p \<Longrightarrow> length (payload p) = kTsPacketSize - payloadOffset p"
  by (auto simp: payload_def ts_packet_def Let_def)

lemma payload_drop: "ts_packet p \<Longrightarrow> payload p = drop (payloadOffset p) p"
  by (auto simp: payload_def ts_packet_def Let_def)

lemma payload_suffix: "ts_packet p \<Longrightarrow> \<exists>hdr. p = hdr @ payload p \<and> 4 \<le> length hdr"
  using payloadOffset_bounds [of p]
  by (intro exI [of _ "take (payloadOffset p) p"]) (auto simp: payload_drop ts_packet_def)

lemma payload_only_drop: "ts_packet p \<Longrightarrow> afControl p = PayloadOnly \<Longrightarrow> payload p = drop 4 p"
  by (simp add: payload_drop payloadOffset_def hasPayload_def hasAdaptationField_def)

lemma no_payload_empty: "\<not> hasPayload p \<Longrightarrow> payload p = []"
  by (simp add: payload_def payloadOffset_def)

subsection \<open>PID and continuity counter rewriting\<close>

lemma ts_packet_length [simp]: "ts_packet p \<Longrightarrow> length p = 188"
  by (simp add: ts_packet_def kTsPacketSize_def)

lemma setPid_ts_packet [simp]: "ts_packet (setPid v p) = ts_packet p"
  and setCc_ts_packet [simp]: "ts_packet (setContinuityCounter c p) = ts_packet p"
  by (simp_all add: ts_packet_def setPid_def setContinuityCounter_def)

lemma setPid_nth1:
  assumes "ts_packet p"
  shows "setPid v p ! 1 = (p ! 1 AND 0xE0) OR ucast (drop_bit 8 v AND 0x1F)"
    and "setPid v p ! 2 = ucast (v AND 0xFF)"
    and "k \<noteq> 1 \<Longrightarrow> k \<noteq> 2 \<Longrightarrow> setPid v p ! k = p ! k"
  using assms by (simp_all add: setPid_def)

lemma pid_setPid:
  assumes "ts_packet p"
  shows "pid (setPid v p) = v AND 0x1FFF"
proof -
  have m: "v AND 0x1FFF = take_bit 13 v" by (simp add: take_bit_eq_mask mask_eq_exp_minus_1)
  show ?thesis unfolding pid_def setPid_nth1 [OF assms] masks m
    by (rule bit_word_eqI) (auto simp: bit_simps)
qed

lemma setPid_keeps:
  assumes "ts_packet p"
  shows "tei (setPid v p) = tei p" "pusi (setPid v p) = pusi p" "priority (setPid v p) = priority p"
    "syncByte (setPid v p) = syncByte p"
    "scrambling (setPid v p) = scrambling p" "afControl (setPid v p) = afControl p"
    "continuityCounter (setPid v p) = continuityCounter p"
    "payload (setPid v p) = payload p" "pcr27Mhz (setPid v p) = pcr27Mhz p"
    "discontinuityIndicator (setPid v p) = discontinuityIndicator p"
proof -
  have af: "afControl (setPid v p) = afControl p"
    using assms by (simp add: afControl_def setPid_nth1)
  then show "afControl (setPid v p) = afControl p" .
  from af assms have off: "payloadOffset (setPid v p) = payloadOffset p"
    by (simp add: payloadOffset_def hasPayload_def hasAdaptationField_def adaptationFieldLength_def
        setPid_nth1)
  then show "payload (setPid v p) = payload p"
    using assms payloadOffset_bounds(1) [of p] by (simp add: payload_drop) (simp add: setPid_def)
  show "tei (setPid v p) = tei p" "pusi (setPid v p) = pusi p" "priority (setPid v p) = priority p"
    unfolding tei_def pusi_def priority_def setPid_nth1 [OF assms] masks
    by (simp_all add: bit_simps)
  show "syncByte (setPid v p) = syncByte p" "scrambling (setPid v p) = scrambling p"
    "continuityCounter (setPid v p) = continuityCounter p"
    "pcr27Mhz (setPid v p) = pcr27Mhz p"
    "discontinuityIndicator (setPid v p) = discontinuityIndicator p"
    using assms af by (simp_all add: syncByte_def scrambling_def continuityCounter_def pcr27Mhz_def
        discontinuityIndicator_def hasAdaptationField_def adaptationFieldLength_def setPid_nth1)
qed

lemma setCc_nth3:
  assumes "ts_packet p"
  shows "setContinuityCounter c p ! 3 = (p ! 3 AND 0xF0) OR (c AND 0x0F)"
    and "k \<noteq> 3 \<Longrightarrow> setContinuityCounter c p ! k = p ! k"
  using assms by (simp_all add: setContinuityCounter_def)

lemma cc_setCc: "ts_packet p \<Longrightarrow> continuityCounter (setContinuityCounter c p) = c AND 0x0F"
  unfolding continuityCounter_def by (simp add: setCc_nth3 masks)
    (rule bit_word_eqI, auto simp: bit_simps dest: bit_imp_le_length)

lemma setCc_keeps:
  assumes "ts_packet p"
  shows "pid (setContinuityCounter c p) = pid p" "pusi (setContinuityCounter c p) = pusi p"
    "tei (setContinuityCounter c p) = tei p" "syncByte (setContinuityCounter c p) = syncByte p"
    "scrambling (setContinuityCounter c p) = scrambling p"
    "afControl (setContinuityCounter c p) = afControl p"
    "payload (setContinuityCounter c p) = payload p"
proof -
  have b: "drop_bit 4 (setContinuityCounter c p ! 3) = drop_bit 4 (p ! 3)"
    using assms by (simp add: setCc_nth3 masks)
      (rule bit_word_eqI, auto simp: bit_simps dest: bit_imp_le_length)
  then have af: "afControl (setContinuityCounter c p) = afControl p"
    by (simp add: afControl_def)
  then show "afControl (setContinuityCounter c p) = afControl p" .
  have "drop_bit 6 (setContinuityCounter c p ! 3) = drop_bit 6 (p ! 3)"
    using assms by (simp add: setCc_nth3 masks)
      (rule bit_word_eqI, auto simp: bit_simps dest: bit_imp_le_length)
  then show "scrambling (setContinuityCounter c p) = scrambling p" by (simp add: scrambling_def)
  have "payloadOffset (setContinuityCounter c p) = payloadOffset p"
    using assms af by (simp add: payloadOffset_def hasPayload_def hasAdaptationField_def
        adaptationFieldLength_def setCc_nth3)
  then show "payload (setContinuityCounter c p) = payload p"
    using assms payloadOffset_bounds(1) [of p] by (simp add: payload_drop) (simp add: setContinuityCounter_def)
  show "pid (setContinuityCounter c p) = pid p" "pusi (setContinuityCounter c p) = pusi p"
    "tei (setContinuityCounter c p) = tei p" "syncByte (setContinuityCounter c p) = syncByte p"
    using assms by (simp_all add: pid_def pusi_def tei_def syncByte_def setCc_nth3)
qed

subsection \<open>PCR rewriting\<close>

lemma setPcr_not_carried: "\<not> carries_pcr p \<Longrightarrow> setPcr27Mhz v p = (False, p)"
  by (auto simp: setPcr27Mhz_def carries_pcr_def)

lemma pcr_none: "\<not> carries_pcr p \<Longrightarrow> pcr27Mhz p = kPcrNone"
  by (auto simp: pcr27Mhz_def carries_pcr_def)

lemma setPcr_fst: "fst (setPcr27Mhz v p) \<longleftrightarrow> carries_pcr p"
  by (auto simp: setPcr27Mhz_def carries_pcr_def Let_def)

lemma setPcr_nth_low: "k < 6 \<Longrightarrow> snd (setPcr27Mhz v p) ! k = p ! k"
  by (auto simp: setPcr27Mhz_def Let_def)

lemma setPcr_length [simp]: "length (snd (setPcr27Mhz v p)) = length p"
  by (auto simp: setPcr27Mhz_def Let_def)

lemma setPcr_ts_packet [simp]: "ts_packet (snd (setPcr27Mhz v p)) = ts_packet p"
  by (simp add: ts_packet_def)

lemma header_cong:
  assumes "\<And>k. k < 6 \<Longrightarrow> q ! k = p ! k"
  shows "pid q = pid p" "pusi q = pusi p" "tei q = tei p" "syncByte q = syncByte p"
    "scrambling q = scrambling p" "continuityCounter q = continuityCounter p"
    "afControl q = afControl p" "payloadOffset q = payloadOffset p"
    "carries_pcr q = carries_pcr p" "discontinuityIndicator q = discontinuityIndicator p"
  using assms by (simp_all add: view_defs carries_pcr_def)

lemmas setPcr_header = header_cong [of "snd (setPcr27Mhz v p)" p for v p, OF setPcr_nth_low]

lemma pcr_base_join:
  "push_bit 25 (ucast (ucast (take_bit 8 (drop_bit 25 base)) :: u8)) OR
    push_bit 17 (ucast (ucast (take_bit 8 (drop_bit 17 base)) :: u8)) OR
    push_bit 9 (ucast (ucast (take_bit 8 (drop_bit 9 base)) :: u8)) OR
    push_bit 1 (ucast (ucast (take_bit 8 (drop_bit 1 base)) :: u8)) OR take_bit 1 base
    = take_bit 33 (base :: u64)"
proof (rule bit_word_eqI)
  fix n assume "n < LENGTH(64)"
  consider "n < 1" | "1 \<le> n" "n < 9" | "9 \<le> n" "n < 17" | "17 \<le> n" "n < 25" | "25 \<le> n" "n < 33"
    | "33 \<le> n" by force
  then show "bit (push_bit 25 (ucast (ucast (take_bit 8 (drop_bit 25 base)) :: u8)) OR
      push_bit 17 (ucast (ucast (take_bit 8 (drop_bit 17 base)) :: u8)) OR
      push_bit 9 (ucast (ucast (take_bit 8 (drop_bit 9 base)) :: u8)) OR
      push_bit 1 (ucast (ucast (take_bit 8 (drop_bit 1 base)) :: u8)) OR take_bit 1 base) n
    = bit (take_bit 33 base) n"
    by cases (auto simp: bit_simps)
qed

lemma pcr_base_bits:
  fixes base :: u64
  assumes that: "\<And>k. 7 \<le> k \<Longrightarrow> \<not> bit e k"
  shows "push_bit 25 (ucast (ucast (drop_bit 25 base AND 0xFF) :: u8))
      OR push_bit 17 (ucast (ucast (drop_bit 17 base AND 0xFF) :: u8))
      OR push_bit 9 (ucast (ucast (drop_bit 9 base AND 0xFF) :: u8))
      OR push_bit 1 (ucast (ucast (drop_bit 1 base AND 0xFF) :: u8))
      OR (drop_bit 7 (ucast (ucast (push_bit 7 (base AND 0x01) OR 0x7E OR e) :: u8)) :: u64)
    = take_bit 33 base"
proof -
  have low: "drop_bit 7 (ucast (ucast (push_bit 7 (base AND 0x01) OR 0x7E OR e) :: u8)) = take_bit 1 base"
  proof (rule bit_word_eqI)
    fix n assume "n < LENGTH(64)"
    show "bit (drop_bit 7 (ucast (ucast (push_bit 7 (base AND 0x01) OR 0x7E OR e) :: u8)) :: u64) n
      = bit (take_bit 1 base) n"
      using that [of 7] by (cases n) (auto simp: masks bit_simps)
  qed
  show ?thesis unfolding low unfolding masks by (rule pcr_base_join)
qed

lemma pcr_ext_join:
  "push_bit 8 (ucast (ucast (take_bit 1 (drop_bit 8 ext)) :: u8)) OR ucast (ucast (take_bit 8 ext) :: u8)
    = take_bit 9 (ext :: u16)"
proof (rule bit_word_eqI)
  fix n assume "n < LENGTH(16)"
  consider "n < 8" | "n = 8" | "9 \<le> n" by force
  then show "bit (push_bit 8 (ucast (ucast (take_bit 1 (drop_bit 8 ext)) :: u8)) OR
      ucast (ucast (take_bit 8 ext) :: u8) :: u16) n = bit (take_bit 9 ext) n"
    by cases (auto simp: bit_simps)
qed

lemma pcr_ext_bits:
  fixes ext :: u16
  assumes "unat ext < 512" and e: "\<not> bit e 0"
  shows "push_bit 8 (ucast ((ucast (e OR 0x7E OR (ucast (drop_bit 8 ext) AND 0x01) :: u64) :: u8) AND 0x01))
      OR ucast (ucast (ext AND 0xFF) :: u8) = ext"
proof -
  have small: "take_bit 9 ext = ext"
    using assms(1) by (intro word_unat_eq_iff [THEN iffD2])
      (simp add: unsigned_take_bit_eq take_bit_nat_eq_self)
  have "(ucast (e OR 0x7E OR (ucast (drop_bit 8 ext) AND 0x01) :: u64) :: u8) AND 0x01
      = ucast (take_bit 1 (drop_bit 8 ext))"
    unfolding masks
  proof (rule bit_word_eqI)
    fix n assume "n < LENGTH(8)"
    show "bit (take_bit 1 (ucast (e OR 0x7E OR take_bit 1 (ucast (drop_bit 8 ext)) :: u64)) :: u8) n
      = bit (ucast (take_bit 1 (drop_bit 8 ext)) :: u8) n"
      using e by (cases n) (auto simp: bit_simps)
  qed
  then have "push_bit 8 (ucast ((ucast (e OR 0x7E OR (ucast (drop_bit 8 ext) AND 0x01) :: u64) :: u8) AND 0x01))
      OR ucast (ucast (ext AND 0xFF) :: u8) = take_bit 9 ext"
    by (simp only: masks pcr_ext_join)
  then show ?thesis by (simp add: small)
qed

lemma pcr_setPcr:
  assumes "ts_packet p" "carries_pcr p"
  shows "pcr27Mhz (snd (setPcr27Mhz v p)) = take_bit 33 (v div 300) * 300 + v mod 300"
proof -
  define base where "base = v div 300"
  define ext where "ext = (ucast (v mod 300) :: u16)"
  define q where "q = snd (setPcr27Mhz v p)"
  have "carries_pcr q" using assms by (simp add: q_def setPcr_header)
  have small: "unat (v mod 300) < 300" by (simp add: unat_mod)
  then have "unat ext = unat (v mod 300)"
    by (simp add: ext_def unsigned_ucast_eq take_bit_nat_eq_self)
  then have e: "unat ext < 512" "ucast ext = v mod 300"
    using small by (simp_all add: word_unat_eq_iff unsigned_ucast_eq take_bit_nat_eq_self)
  have q: "q ! 6 = ucast (drop_bit 25 base AND 0xFF)" "q ! 7 = ucast (drop_bit 17 base AND 0xFF)"
    "q ! 8 = ucast (drop_bit 9 base AND 0xFF)" "q ! 9 = ucast (drop_bit 1 base AND 0xFF)"
    "q ! 10 = ucast (push_bit 7 (base AND 0x01) OR 0x7E OR (ucast (drop_bit 8 ext) AND 0x01))"
    "q ! 11 = ucast (ext AND 0xFF)"
    using assms by (simp_all add: q_def setPcr27Mhz_def carries_pcr_def Let_def base_def ext_def)
  have hi: "\<not> bit (ucast (drop_bit 8 ext) AND 0x01 :: u64) k" if "7 \<le> k" for k
    using that by (simp add: masks bit_simps)
  have lo: "\<not> bit (push_bit 7 (base AND 0x01)) 0" by (simp add: bit_simps)
  have "pcr27Mhz q = take_bit 33 base * 300 + ucast ext"
    using \<open>carries_pcr q\<close> unfolding pcr27Mhz_def carries_pcr_def q Let_def
    by (simp only: pcr_base_bits [OF hi] pcr_ext_bits [OF e(1) lo] if_False simp_thms)
  then show ?thesis by (simp add: q_def base_def e)
qed

lemma pcr_setPcr_exact:
  assumes "ts_packet p" "carries_pcr p" "unat v < 2 ^ 33 * 300"
  shows "pcr27Mhz (snd (setPcr27Mhz v p)) = v"
proof -
  have "unat (v div 300) < 2 ^ 33" using assms(3) by (simp add: unat_div)
  then have "take_bit 33 (v div 300) = v div 300"
    by (intro word_unat_eq_iff [THEN iffD2]) (simp add: unsigned_take_bit_eq take_bit_nat_eq_self)
  then show ?thesis by (simp add: pcr_setPcr [OF assms(1,2)] div_mult_mod_eq)
qed

subsection \<open>The stuffing packet\<close>

lemma makeNullPacket_header:
  "ts_packet makeNullPacket" "isValidSync makeNullPacket" "pid makeNullPacket = kPidNull"
  "afControl makeNullPacket = AfOnly" "\<not> tei makeNullPacket" "\<not> pusi makeNullPacket"
  "\<not> carries_pcr makeNullPacket" "payload makeNullPacket = []"
  by (simp_all add: makeNullPacket_def ts_packet_def view_defs carries_pcr_def kTsPacketSize_def
      kTsSyncByte_def kPidNull_def)

subsection \<open>Headers written by the packetizers\<close>

lemma AND_1FFF: "(x :: 'a::len word) AND 0x1FFF = take_bit 13 x"
  by (simp add: take_bit_eq_mask mask_eq_exp_minus_1)

lemma written_header:
  fixes v :: u16 and cc af :: u8
  assumes "p ! 0 = kTsSyncByte"
    "p ! 1 = (if first then 0x40 else 0x00) OR (ucast (drop_bit 8 v) AND 0x1F)"
    "p ! 2 = ucast (v AND 0xFF)" "p ! 3 = af OR (cc AND 0x0F)" "af = 0x10 \<or> af = 0x30"
  shows "isValidSync p" "\<not> tei p" "pusi p \<longleftrightarrow> first" "pid p = v AND 0x1FFF" "scrambling p = 0"
    "afControl p = (if af = 0x10 then PayloadOnly else AfThenPayload)" "hasPayload p"
    "continuityCounter p = cc AND 0x0F"
proof -
  note n = assms(1-4)
  show "isValidSync p" by (simp add: isValidSync_def syncByte_def n)
  show "\<not> tei p" unfolding tei_def n AND_bit_iff masks by (simp add: bit_simps bit_numeral_rec)
  show "pusi p \<longleftrightarrow> first" unfolding pusi_def n AND_bit_iff masks by (simp add: bit_simps bit_numeral_rec)
  have hi: "((if first then 0x40 else 0x00) OR (b AND 0x1F)) AND 0x1F = b AND 0x1F" for b :: u8
    unfolding masks by (rule byte_eqI) (simp_all add: bit_simps bit_numeral_rec)
  show "pid p = v AND 0x1FFF"
    unfolding pid_def n hi unfolding AND_1FFF masks
    by (rule bit_word_eqI) (auto simp: bit_simps)
  show "scrambling p = 0"
    using assms(5) unfolding scrambling_def n masks
    by (elim disjE; simp only:; intro byte_eqI) (simp_all add: bit_simps bit_numeral_rec)
  have "drop_bit 4 (p ! 3) AND 0x03 = (if af = 0x10 then 1 else 3)"
    using assms(5) unfolding n masks
    by (elim disjE; simp only:; intro byte_eqI) (simp_all add: bit_simps bit_numeral_rec)
  then show af: "afControl p = (if af = 0x10 then PayloadOnly else AfThenPayload)"
    by (simp add: afControl_def Let_def)
  show "hasPayload p" by (simp add: hasPayload_def af)
  show "continuityCounter p = cc AND 0x0F"
    using assms(5) unfolding continuityCounter_def n masks
    by (elim disjE; simp only:; intro byte_eqI) (simp_all add: bit_simps bit_numeral_rec)
qed

text \<open>The next counter value, from the counter or from its low four bits.\<close>

lemma cc_next: "((cc AND 0x0F) + 1) AND 0x0F = (cc + 1) AND (0x0F :: u8)"
  unfolding masks
  by (rule word_unat_eq_iff [THEN iffD2])
    (simp add: unsigned_take_bit_eq unat_word_ariths take_bit_eq_mod mod_simps mod_mod_cancel)

section \<open>Properties\<close>

text \<open>A PCR written into a packet that carries one is read back exactly, for every value the 33-bit base
  and 9-bit extension can hold, and the packet's header fields and payload position stay.\<close>

lemma pcr_rewrite_exact:
  assumes "ts_packet p" "carries_pcr p" "unat v < 2 ^ 33 * 300"
  shows "pcr27Mhz (snd (setPcr27Mhz v p)) = v \<and> pid (snd (setPcr27Mhz v p)) = pid p \<and>
    continuityCounter (snd (setPcr27Mhz v p)) = continuityCounter p \<and>
    payloadOffset (snd (setPcr27Mhz v p)) = payloadOffset p"
  using pcr_setPcr_exact [OF assms] by (simp add: setPcr_header)

text \<open>Rewriting the PID or the continuity counter of a packet sets that field and no other: the flags, the
  scrambling bits, the PCR and the payload stay.\<close>

lemma header_rewrites_local:
  assumes "ts_packet p"
  shows "pid (setPid v p) = v AND 0x1FFF \<and> continuityCounter (setContinuityCounter c p) = c AND 0x0F \<and>
    continuityCounter (setPid v p) = continuityCounter p \<and> pid (setContinuityCounter c p) = pid p \<and>
    pusi (setPid v p) = pusi p \<and> pusi (setContinuityCounter c p) = pusi p \<and>
    tei (setPid v p) = tei p \<and> tei (setContinuityCounter c p) = tei p \<and>
    scrambling (setPid v p) = scrambling p \<and> scrambling (setContinuityCounter c p) = scrambling p \<and>
    payload (setPid v p) = payload p \<and> payload (setContinuityCounter c p) = payload p \<and>
    pcr27Mhz (setPid v p) = pcr27Mhz p"
  using pid_setPid [OF assms] setPid_keeps [OF assms] cc_setCc [OF assms] setCc_keeps [OF assms] by simp

end
