(* ===== verification/RingCore.thy ===== *)
theory RingCore
  imports Prelude
begin

text \<open>
  The slot array with a head and a tail cursor that
  \<^verbatim>\<open>src/utils/SpscQueue.h\<close> and \<^verbatim>\<open>src/gateway/ts/TsRingBuffer.h\<close> share,
  the list of elements it stands for (\<open>contents\<close>), and the interface of a bounded FIFO that both
  classes implement. One slot always stays free: head = tail means empty.
\<close>

record 'a ring =
  slots :: "'a list"
  head :: nat
  tail :: nat

text \<open>The sources mask with \<open>Capacity - 1\<close>; the static assertion makes the capacity a power of two.\<close>

definition wrap :: "nat \<Rightarrow> nat \<Rightarrow> nat" where
  "wrap n i = and i (n - 1)"

definition ring_ok :: "('a, 'b) ring_scheme \<Rightarrow> bool" where
  "ring_ok r \<longleftrightarrow> (\<exists>k. length (slots r) = 2 ^ k) \<and>
     head r < length (slots r) \<and> tail r < length (slots r)"

definition ring_size :: "('a, 'b) ring_scheme \<Rightarrow> nat" where
  "ring_size r = (if tail r \<le> head r then head r - tail r else head r + length (slots r) - tail r)"

definition slot_at :: "('a, 'b) ring_scheme \<Rightarrow> nat \<Rightarrow> nat" where
  "slot_at r i = (if tail r + i < length (slots r) then tail r + i else tail r + i - length (slots r))"

definition contents :: "('a, 'b) ring_scheme \<Rightarrow> 'a list" where
  "contents r = map (\<lambda>i. slots r ! slot_at r i) [0..<ring_size r]"

lemma wrap_mod: "wrap (2 ^ k) i = i mod 2 ^ k"
  by (simp add: wrap_def take_bit_eq_mod [symmetric] take_bit_eq_mask mask_eq_exp_minus_1)

lemma wrap_Suc: "ring_ok r \<Longrightarrow> i < length (slots r) \<Longrightarrow>
    wrap (length (slots r)) (Suc i) = (if Suc i = length (slots r) then 0 else Suc i)"
  by (auto simp: ring_ok_def wrap_mod)

lemma wrap_Suc_inj: "ring_ok r \<Longrightarrow> i < length (slots r) \<Longrightarrow> j < length (slots r) \<Longrightarrow>
    wrap (length (slots r)) (Suc i) = wrap (length (slots r)) (Suc j) \<longleftrightarrow> i = j"
  by (auto simp: wrap_Suc)

lemma ring_size_less: "ring_ok r \<Longrightarrow> ring_size r < length (slots r)"
  by (auto simp: ring_ok_def ring_size_def)

lemma length_contents [simp]: "length (contents r) = ring_size r"
  by (simp add: contents_def)

lemma full_iff: "ring_ok r \<Longrightarrow>
    wrap (length (slots r)) (Suc (head r)) = tail r \<longleftrightarrow> ring_size r = length (slots r) - 1"
  by (subst wrap_Suc) (auto simp: ring_ok_def ring_size_def)

lemma empty_iff: "ring_ok r \<Longrightarrow> tail r = head r \<longleftrightarrow> contents r = []"
  by (auto simp: ring_ok_def ring_size_def contents_def)

lemma slot_at_not_head: "ring_ok r \<Longrightarrow> i < ring_size r \<Longrightarrow> slot_at r i \<noteq> head r"
  by (auto simp: ring_ok_def ring_size_def slot_at_def split: if_splits)

lemma slot_at_size: "ring_ok r \<Longrightarrow> slot_at r (ring_size r) = head r"
  by (auto simp: ring_ok_def ring_size_def slot_at_def)

lemma slot_at_less: "ring_ok r \<Longrightarrow> i < ring_size r \<Longrightarrow> slot_at r i < length (slots r)"
  by (auto simp: ring_ok_def ring_size_def slot_at_def split: if_splits)

lemma contents_write: "ring_ok r \<Longrightarrow> contents (r\<lparr>slots := (slots r)[head r := x]\<rparr>) = contents r"
  using slot_at_not_head [of r]
  by (auto simp: contents_def ring_size_def slot_at_def intro!: nth_list_update_neq)

lemma ring_ok_write: "ring_ok r \<Longrightarrow> ring_ok (r\<lparr>slots := (slots r)[i := x]\<rparr>)"
  by (auto simp: ring_ok_def)

lemma contents_publish:
  assumes ok: "ring_ok r" and room: "wrap (length (slots r)) (Suc (head r)) \<noteq> tail r"
  shows "contents (r\<lparr>head := wrap (length (slots r)) (Suc (head r))\<rparr>) = contents r @ [slots r ! head r]"
    and "ring_ok (r\<lparr>head := wrap (length (slots r)) (Suc (head r))\<rparr>)"
proof -
  let ?r = "r\<lparr>head := wrap (length (slots r)) (Suc (head r))\<rparr>"
  have h: "head r < length (slots r)" "tail r < length (slots r)" using ok by (simp_all add: ring_ok_def)
  have "ring_size ?r = Suc (ring_size r)"
    using room h wrap_Suc [OF ok h(1)] by (auto simp: ring_size_def split: if_splits)
  moreover have "slot_at ?r i = slot_at r i" for i by (simp add: slot_at_def)
  ultimately show "contents ?r = contents r @ [slots r ! head r]"
    using slot_at_size [OF ok] by (simp add: contents_def)
  show "ring_ok ?r" using ok h wrap_Suc [OF ok h(1)] by (auto simp: ring_ok_def)
qed

lemma contents_consume:
  assumes ok: "ring_ok r" and ne: "tail r \<noteq> head r"
  shows "contents r = slots r ! tail r # contents (r\<lparr>tail := wrap (length (slots r)) (Suc (tail r))\<rparr>)"
    and "ring_ok (r\<lparr>tail := wrap (length (slots r)) (Suc (tail r))\<rparr>)"
proof -
  let ?r = "r\<lparr>tail := wrap (length (slots r)) (Suc (tail r))\<rparr>"
  have h: "head r < length (slots r)" "tail r < length (slots r)" using ok by (simp_all add: ring_ok_def)
  have size: "ring_size r = Suc (ring_size ?r)"
    using ne h wrap_Suc [OF ok h(2)] by (auto simp: ring_size_def split: if_splits)
  have shift: "slot_at r (Suc i) = slot_at ?r i" if "i < ring_size ?r" for i
    using that h wrap_Suc [OF ok h(2)] by (auto simp: slot_at_def ring_size_def split: if_splits)
  have "contents r = slots r ! slot_at r 0 # map (\<lambda>i. slots r ! slot_at r (Suc i)) [0..<ring_size ?r]"
    unfolding contents_def size upt_conv_Cons [OF zero_less_Suc] map_Suc_upt [symmetric] by simp
  with shift h(2) show "contents r = slots r ! tail r # contents ?r"
    by (simp add: contents_def) (simp add: slot_at_def)
  show "ring_ok ?r" using ok h wrap_Suc [OF ok h(2)] by (auto simp: ring_ok_def)
qed

subsection \<open>The interface of a bounded FIFO\<close>

text \<open>
  What the clients of a queue rely on: \<open>enq\<close> refuses exactly when \<open>cap\<close> elements are
  waiting and otherwise appends, \<open>deq\<close> returns the oldest element. An operation sequence
  is a list of \<open>Some x\<close> (enqueue \<open>x\<close>) and \<open>None\<close> (dequeue).
\<close>

fun fifo_run :: "('a \<Rightarrow> 'q \<Rightarrow> bool \<times> 'q) \<Rightarrow> ('q \<Rightarrow> 'a option \<times> 'q) \<Rightarrow> 'a option list \<Rightarrow> 'q
    \<Rightarrow> 'a list \<times> 'a list \<times> 'q" where
  "fifo_run enq deq [] q = ([], [], q)"
| "fifo_run enq deq (Some x # ops) q =
     (case enq x q of (ok, q') \<Rightarrow> case fifo_run enq deq ops q' of
        (ins, outs, q'') \<Rightarrow> (if ok then x # ins else ins, outs, q''))"
| "fifo_run enq deq (None # ops) q =
     (case deq q of (r, q') \<Rightarrow> case fifo_run enq deq ops q' of
        (ins, outs, q'') \<Rightarrow> (ins, (case r of None \<Rightarrow> outs | Some x \<Rightarrow> x # outs), q''))"

locale bounded_fifo =
  fixes inv :: "'q \<Rightarrow> bool" and abs :: "'q \<Rightarrow> 'a list" and cap :: "'q \<Rightarrow> nat"
    and enq :: "'a \<Rightarrow> 'q \<Rightarrow> bool \<times> 'q" and deq :: "'q \<Rightarrow> 'a option \<times> 'q"
  assumes bounded: "inv q \<Longrightarrow> length (abs q) \<le> cap q"
    and enq_full: "inv q \<Longrightarrow> length (abs q) = cap q \<Longrightarrow> enq x q = (False, q)"
    and enq_room: "inv q \<Longrightarrow> length (abs q) < cap q \<Longrightarrow>
      fst (enq x q) \<and> abs (snd (enq x q)) = abs q @ [x] \<and> inv (snd (enq x q)) \<and> cap (snd (enq x q)) = cap q"
    and deq_empty: "inv q \<Longrightarrow> abs q = [] \<Longrightarrow> deq q = (None, q)"
    and deq_Cons: "inv q \<Longrightarrow> abs q = y # ys \<Longrightarrow>
      fst (deq q) = Some y \<and> abs (snd (deq q)) = ys \<and> inv (snd (deq q)) \<and> cap (snd (deq q)) = cap q"
begin

lemma enq_cases:
  assumes "inv q"
  obtains "length (abs q) = cap q" "enq x q = (False, q)"
  | q' where "length (abs q) < cap q" "enq x q = (True, q')" "abs q' = abs q @ [x]" "inv q'" "cap q' = cap q"
  using bounded [OF assms] enq_full [OF assms, of x] enq_room [OF assms, of x]
  by (cases "enq x q") (auto simp: le_less)

lemma deq_cases:
  assumes "inv q"
  obtains "abs q = []" "deq q = (None, q)"
  | y q' where "deq q = (Some y, q')" "abs q = y # abs q'" "inv q'" "cap q' = cap q"
  using deq_empty [OF assms] deq_Cons [OF assms] by (cases "abs q"; cases "deq q") auto

text \<open>No element is lost, duplicated or reordered, and the bound holds, whatever the operations.\<close>

lemma run_fifo:
  "inv q \<Longrightarrow> fifo_run enq deq ops q = (ins, outs, q') \<Longrightarrow>
    abs q @ ins = outs @ abs q' \<and> inv q' \<and> cap q' = cap q \<and> length (abs q') \<le> cap q"
proof (induction ops arbitrary: q ins outs q')
  case Nil
  then show ?case using bounded by auto
next
  case (Cons op ops)
  show ?case
  proof (cases op)
    case None
    from Cons.prems(1) show ?thesis
    proof (cases rule: deq_cases)
      case 1
      with Cons.prems None have "fifo_run enq deq ops q = (ins, outs, q')" by (auto split: prod.splits)
      with Cons.IH [OF Cons.prems(1)] show ?thesis by simp
    next
      case (2 y r)
      with Cons.prems(2) None obtain outs' where
        "fifo_run enq deq ops r = (ins, outs', q')" "outs = y # outs'"
        by (auto split: prod.splits)
      with Cons.IH [of r] 2 show ?thesis by auto
    qed
  next
    case (Some x)
    from Cons.prems(1) show ?thesis
    proof (cases rule: enq_cases [where x = x])
      case 1
      with Cons.prems Some have "fifo_run enq deq ops q = (ins, outs, q')" by (auto split: prod.splits)
      with Cons.IH [OF Cons.prems(1)] show ?thesis by simp
    next
      case (2 r)
      with Cons.prems(2) Some obtain ins' where
        "fifo_run enq deq ops r = (ins', outs, q')" "ins = x # ins'"
        by (auto split: prod.splits)
      with Cons.IH [of r] 2 show ?thesis by auto
    qed
  qed
qed

end

end
