(* ===== verification/SpscQueue.thy ===== *)
theory SpscQueue
  imports RingCore
begin

text \<open>
  \<^verbatim>\<open>src/utils/SpscQueue.h\<close>: \<open>push\<close>, \<open>pop\<close> and \<open>empty\<close> as operations
  on the ring, an interpretation of the FIFO interface on them, and the two threads as an
  interleaving of the atomic steps of one producer and one consumer.
\<close>

subsection \<open>Operations\<close>

definition push :: "'a \<Rightarrow> 'a ring \<Rightarrow> bool \<times> 'a ring" where
  "push item q =
     (let h = head q; next = wrap (length (slots q)) (h + 1)
      in if next = tail q then (False, q)
         else (True, q\<lparr>slots := (slots q)[h := item], head := next\<rparr>))"

definition pop :: "'a ring \<Rightarrow> 'a option \<times> 'a ring" where
  "pop q =
     (let t = tail q
      in if t = head q then (None, q)
         else (Some (slots q ! t), q\<lparr>tail := wrap (length (slots q)) (t + 1)\<rparr>))"

definition empty :: "'a ring \<Rightarrow> bool" where
  "empty q \<longleftrightarrow> tail q = head q"

definition new_queue :: "nat \<Rightarrow> 'a \<Rightarrow> 'a ring" where
  "new_queue k d = \<lparr>slots = replicate (2 ^ k) d, head = 0, tail = 0\<rparr>"

lemma ring_ok_new_queue: "ring_ok (new_queue k d)"
  by (auto simp: ring_ok_def new_queue_def)

lemma contents_new_queue [simp]: "contents (new_queue k d) = []"
  by (simp add: contents_def ring_size_def new_queue_def)

lemma push_full:
  "ring_ok q \<Longrightarrow> ring_size q = length (slots q) - 1 \<Longrightarrow> push x q = (False, q)"
  by (simp add: push_def Let_def full_iff)

lemma push_room:
  assumes ok: "ring_ok q" and lt: "ring_size q < length (slots q) - 1"
  shows "fst (push x q)" "contents (snd (push x q)) = contents q @ [x]" "ring_ok (snd (push x q))"
    "length (slots (snd (push x q))) = length (slots q)"
proof -
  let ?w = "q\<lparr>slots := (slots q)[head q := x]\<rparr>"
  have room: "wrap (length (slots q)) (Suc (head q)) \<noteq> tail q"
    using lt by (simp add: full_iff [OF ok])
  have eq: "push x q = (True, ?w\<lparr>head := wrap (length (slots ?w)) (Suc (head ?w))\<rparr>)"
    using room by (simp add: push_def Let_def)
  have "slots ?w ! head ?w = x" using ok by (simp add: ring_ok_def)
  with contents_publish [of ?w] room ok show "fst (push x q)"
    "contents (snd (push x q)) = contents q @ [x]" "ring_ok (snd (push x q))"
    "length (slots (snd (push x q))) = length (slots q)"
    unfolding eq by (simp_all add: ring_ok_write contents_write)
qed

lemma pop_empty: "ring_ok q \<Longrightarrow> contents q = [] \<Longrightarrow> pop q = (None, q)"
  by (simp add: pop_def Let_def empty_iff)

lemma pop_Cons:
  assumes "ring_ok q" "contents q = y # ys"
  shows "fst (pop q) = Some y" "contents (snd (pop q)) = ys" "ring_ok (snd (pop q))"
    "length (slots (snd (pop q))) = length (slots q)"
proof -
  have ne: "tail q \<noteq> head q" using assms by (simp add: empty_iff)
  from contents_consume [OF assms(1) ne] assms(2) ne show "fst (pop q) = Some y"
    "contents (snd (pop q)) = ys" "ring_ok (snd (pop q))"
    "length (slots (snd (pop q))) = length (slots q)"
    by (simp_all add: pop_def Let_def)
qed

interpretation spsc: bounded_fifo ring_ok contents "\<lambda>q. length (slots q) - 1" push pop
proof
  fix q :: "'a ring" assume ok: "ring_ok q"
  show "length (contents q) \<le> length (slots q) - 1" using ring_size_less [OF ok] by simp
next
  fix q :: "'a ring" and x assume "ring_ok q" "length (contents q) = length (slots q) - 1"
  then show "push x q = (False, q)" by (simp add: push_full)
next
  fix q :: "'a ring" and x assume "ring_ok q" "length (contents q) < length (slots q) - 1"
  then show "fst (push x q) \<and> contents (snd (push x q)) = contents q @ [x] \<and>
    ring_ok (snd (push x q)) \<and> length (slots (snd (push x q))) - 1 = length (slots q) - 1"
    using push_room [of q x] by simp
next
  fix q :: "'a ring" assume "ring_ok q" "contents q = []"
  then show "pop q = (None, q)" by (rule pop_empty)
next
  fix q :: "'a ring" and y ys assume "ring_ok q" "contents q = y # ys"
  then show "fst (pop q) = Some y \<and> contents (snd (pop q)) = ys \<and> ring_ok (snd (pop q)) \<and>
    length (slots (snd (pop q))) - 1 = length (slots q) - 1"
    using pop_Cons [of q y ys] by simp
qed

subsection \<open>One producer thread, one consumer thread\<close>

text \<open>
  The steps between two atomic accesses: the producer checks the tail cursor
  (\<open>p_check\<close>, or \<open>p_reject\<close> when the ring is full), writes the slot and publishes
  the head; the consumer checks the head, moves the item out of its slot and publishes the tail.
  \<open>pushed\<close> and \<open>popped\<close> are histories of what the calls accepted and returned.
\<close>

datatype 'a ppc = PIdle | PWrite 'a | PPublish 'a
datatype 'a cpc = CIdle | CRead | CAdvance 'a

record 'a spsc_sys =
  queue :: "'a ring"
  producer :: "'a ppc"
  consumer :: "'a cpc"
  pushed :: "'a list"
  popped :: "'a list"

abbreviation next_head :: "'a spsc_sys \<Rightarrow> nat" where
  "next_head s \<equiv> wrap (length (slots (queue s))) (Suc (head (queue s)))"

abbreviation next_tail :: "'a spsc_sys \<Rightarrow> nat" where
  "next_tail s \<equiv> wrap (length (slots (queue s))) (Suc (tail (queue s)))"

inductive spsc_step :: "'a spsc_sys \<Rightarrow> 'a spsc_sys \<Rightarrow> bool" where
  p_reject: "producer s = PIdle \<Longrightarrow> next_head s = tail (queue s) \<Longrightarrow> spsc_step s s"
| p_check: "producer s = PIdle \<Longrightarrow> next_head s \<noteq> tail (queue s) \<Longrightarrow>
    spsc_step s (s\<lparr>producer := PWrite x\<rparr>)"
| p_write: "producer s = PWrite x \<Longrightarrow>
    spsc_step s (s\<lparr>queue := (queue s)\<lparr>slots := (slots (queue s))[head (queue s) := x]\<rparr>,
      producer := PPublish x\<rparr>)"
| p_publish: "producer s = PPublish x \<Longrightarrow>
    spsc_step s (s\<lparr>queue := (queue s)\<lparr>head := next_head s\<rparr>, producer := PIdle,
      pushed := pushed s @ [x]\<rparr>)"
| c_none: "consumer s = CIdle \<Longrightarrow> tail (queue s) = head (queue s) \<Longrightarrow> spsc_step s s"
| c_check: "consumer s = CIdle \<Longrightarrow> tail (queue s) \<noteq> head (queue s) \<Longrightarrow>
    spsc_step s (s\<lparr>consumer := CRead\<rparr>)"
| c_read: "consumer s = CRead \<Longrightarrow>
    spsc_step s (s\<lparr>consumer := CAdvance (slots (queue s) ! tail (queue s))\<rparr>)"
| c_advance: "consumer s = CAdvance y \<Longrightarrow>
    spsc_step s (s\<lparr>queue := (queue s)\<lparr>tail := next_tail s\<rparr>, consumer := CIdle,
      popped := popped s @ [y]\<rparr>)"

definition spsc_init :: "nat \<Rightarrow> 'a \<Rightarrow> 'a spsc_sys" where
  "spsc_init k d = \<lparr>queue = new_queue k d, producer = PIdle, consumer = CIdle, pushed = [], popped = []\<rparr>"

inductive spsc_reachable :: "nat \<Rightarrow> 'a \<Rightarrow> 'a spsc_sys \<Rightarrow> bool" for k d where
  start: "spsc_reachable k d (spsc_init k d)"
| step: "spsc_reachable k d s \<Longrightarrow> spsc_step s t \<Longrightarrow> spsc_reachable k d t"

definition spsc_inv :: "'a spsc_sys \<Rightarrow> bool" where
  "spsc_inv s \<longleftrightarrow> ring_ok (queue s) \<and> popped s @ contents (queue s) = pushed s \<and>
     (producer s \<noteq> PIdle \<longrightarrow> next_head s \<noteq> tail (queue s)) \<and>
     (\<forall>x. producer s = PPublish x \<longrightarrow> slots (queue s) ! head (queue s) = x) \<and>
     (consumer s \<noteq> CIdle \<longrightarrow> tail (queue s) \<noteq> head (queue s)) \<and>
     (\<forall>y. consumer s = CAdvance y \<longrightarrow> slots (queue s) ! tail (queue s) = y)"

lemma spsc_inv_init: "spsc_inv (spsc_init k d)"
  by (simp add: spsc_inv_def spsc_init_def ring_ok_new_queue)

lemma spsc_step_inv: "spsc_step s t \<Longrightarrow> spsc_inv s \<Longrightarrow> spsc_inv t"
proof (induction rule: spsc_step.induct)
  case (p_write s x)
  then have ok: "ring_ok (queue s)" and h: "head (queue s) < length (slots (queue s))"
    by (simp_all add: spsc_inv_def ring_ok_def)
  from p_write show ?case
    by (auto simp: spsc_inv_def ring_ok_write [OF ok] contents_write [OF ok] h)
next
  case (p_publish s x)
  then have "ring_ok (queue s)" "next_head s \<noteq> tail (queue s)" by (auto simp: spsc_inv_def)
  from contents_publish [OF this] p_publish show ?case by (auto simp: spsc_inv_def)
next
  case (c_advance s y)
  then have ok: "ring_ok (queue s)" and ne: "tail (queue s) \<noteq> head (queue s)"
    by (auto simp: spsc_inv_def)
  then have "tail (queue s) < length (slots (queue s))" "head (queue s) < length (slots (queue s))"
    by (auto simp: ring_ok_def)
  with wrap_Suc_inj [OF ok] ne have "next_head s \<noteq> next_tail s" by metis
  with contents_consume [OF ok ne] c_advance show ?case by (auto simp: spsc_inv_def)
qed (auto simp: spsc_inv_def)

lemma spsc_reachable_inv: "spsc_reachable k d s \<Longrightarrow> spsc_inv s"
  by (induction rule: spsc_reachable.induct) (auto intro: spsc_inv_init spsc_step_inv)

section \<open>Properties\<close>

text \<open>C40: in every interleaving of one producer thread and one consumer thread the items come out exactly
  once and in the order they went in, and a read in progress is never of the slot being written.\<close>

theorem spsc_threads_fifo:
  assumes "spsc_reachable k d s"
  shows "popped s @ contents (queue s) = pushed s \<and> ring_ok (queue s) \<and>
    (producer s \<noteq> PIdle \<and> consumer s \<noteq> CIdle \<longrightarrow> head (queue s) \<noteq> tail (queue s)) \<and>
    (\<forall>y. consumer s = CAdvance y \<longrightarrow> slots (queue s) ! tail (queue s) = y)"
  using spsc_reachable_inv [OF assms] by (auto simp: spsc_inv_def)

theorem spsc_threads_fifo_witness:
  "\<exists>s. spsc_reachable 1 (0 :: nat) s \<and> producer s = PWrite 5 \<and> popped s @ contents (queue s) = pushed s"
proof -
  have "spsc_step (spsc_init 1 (0 :: nat)) ((spsc_init 1 0)\<lparr>producer := PWrite 5\<rparr>)"
    by (rule p_check) (simp_all add: spsc_init_def new_queue_def wrap_def)
  then have "spsc_reachable 1 0 ((spsc_init 1 (0 :: nat))\<lparr>producer := PWrite 5\<rparr>)"
    by (rule spsc_reachable.step [OF spsc_reachable.start])
  with spsc_threads_fifo [OF this] show ?thesis by (intro exI conjI) auto
qed

end
