(* ===== verification/TsRing.thy ===== *)
theory TsRing
  imports RingCore TsPacket
begin

text \<open>
  \<^verbatim>\<open>src/gateway/ts/TsRingBuffer.h\<close>: the ring of TS packet slots between the receiving
  thread and the parser. Sequentially it refines a bounded queue that drops its oldest element; the
  last part shows what the overwriting \<open>push\<close> does when the consumer is in the middle of
  \<open>pop\<close>.
\<close>

record 'a ts_ring = "'a ring" +
  dropped_oldest :: u64

definition ts_push :: "'a \<Rightarrow> 'a ts_ring \<Rightarrow> bool \<times> 'a ts_ring" where
  "ts_push packet q =
     (let h = head q; next = wrap (length (slots q)) (h + 1); ok = (next \<noteq> tail q);
          q1 = (if next = tail q
                then q\<lparr>tail := wrap (length (slots q)) (tail q + 1), dropped_oldest := dropped_oldest q + 1\<rparr>
                else q)
      in (ok, q1\<lparr>slots := (slots q1)[h := packet], head := next\<rparr>))"

definition tryPush :: "'a \<Rightarrow> 'a ts_ring \<Rightarrow> bool \<times> 'a ts_ring" where
  "tryPush packet q =
     (let h = head q; next = wrap (length (slots q)) (h + 1)
      in if next = tail q then (False, q)
         else (True, q\<lparr>slots := (slots q)[h := packet], head := next\<rparr>))"

definition ts_pop :: "'a ts_ring \<Rightarrow> 'a option \<times> 'a ts_ring" where
  "ts_pop q =
     (let t = tail q
      in if t = head q then (None, q)
         else (Some (slots q ! t), q\<lparr>tail := wrap (length (slots q)) (t + 1)\<rparr>))"

definition peek :: "'a ts_ring \<Rightarrow> 'a option" where
  "peek q = (if tail q = head q then None else Some (slots q ! tail q))"

definition peekAdvance :: "'a ts_ring \<Rightarrow> 'a ts_ring" where
  "peekAdvance q = q\<lparr>tail := wrap (length (slots q)) (tail q + 1)\<rparr>"

text \<open>\<open>(h - t) & (Capacity - 1)\<close> in \<open>size_t\<close> arithmetic.\<close>

definition sizeApprox :: "'a ts_ring \<Rightarrow> nat" where
  "sizeApprox q = wrap (length (slots q)) ((head q + 2 ^ 64 - tail q) mod 2 ^ 64)"

definition ts_empty :: "'a ts_ring \<Rightarrow> bool" where
  "ts_empty q \<longleftrightarrow> tail q = head q"

definition droppedOldest :: "'a ts_ring \<Rightarrow> u64" where
  "droppedOldest q = dropped_oldest q"

definition resetDroppedCounter :: "'a ts_ring \<Rightarrow> 'a ts_ring" where
  "resetDroppedCounter q = q\<lparr>dropped_oldest := 0\<rparr>"

definition new_ring :: "nat \<Rightarrow> 'a \<Rightarrow> 'a ts_ring" where
  "new_ring k d = \<lparr>slots = replicate (2 ^ k) d, head = 0, tail = 0, dropped_oldest = 0\<rparr>"

subsection \<open>The sequential contract\<close>

lemma ring_ok_new_ring: "ring_ok (new_ring k d)" and contents_new_ring: "contents (new_ring k d) = []"
  by (auto simp: ring_ok_def new_ring_def contents_def ring_size_def)

lemma tryPush_full: "ring_ok q \<Longrightarrow> ring_size q = length (slots q) - 1 \<Longrightarrow> tryPush x q = (False, q)"
  by (simp add: tryPush_def Let_def full_iff)

lemma tryPush_room:
  assumes ok: "ring_ok q" and lt: "ring_size q < length (slots q) - 1"
  shows "fst (tryPush x q)" "contents (snd (tryPush x q)) = contents q @ [x]"
    "ring_ok (snd (tryPush x q))" "length (slots (snd (tryPush x q))) = length (slots q)"
    "dropped_oldest (snd (tryPush x q)) = dropped_oldest q"
proof -
  let ?w = "q\<lparr>slots := (slots q)[head q := x]\<rparr>"
  have room: "wrap (length (slots q)) (Suc (head q)) \<noteq> tail q"
    using lt by (simp add: full_iff [OF ok])
  have eq: "tryPush x q = (True, ?w\<lparr>head := wrap (length (slots ?w)) (Suc (head ?w))\<rparr>)"
    using room by (simp add: tryPush_def Let_def)
  have "slots ?w ! head ?w = x" using ok by (simp add: ring_ok_def)
  with contents_publish [of ?w] room ok show "fst (tryPush x q)"
    "contents (snd (tryPush x q)) = contents q @ [x]" "ring_ok (snd (tryPush x q))"
    "length (slots (snd (tryPush x q))) = length (slots q)"
    "dropped_oldest (snd (tryPush x q)) = dropped_oldest q"
    unfolding eq by (simp_all add: ring_ok_write contents_write)
qed

lemma peekAdvance_Cons:
  assumes "ring_ok q" "contents q \<noteq> []"
  shows "contents (peekAdvance q) = tl (contents q)" "ring_ok (peekAdvance q)"
    "length (slots (peekAdvance q)) = length (slots q)"
    "dropped_oldest (peekAdvance q) = dropped_oldest q" "slots q ! tail q = hd (contents q)"
proof -
  have ne: "tail q \<noteq> head q" using assms by (simp add: empty_iff)
  from contents_consume [OF assms(1) ne] show "contents (peekAdvance q) = tl (contents q)"
    "ring_ok (peekAdvance q)" "length (slots (peekAdvance q)) = length (slots q)"
    "dropped_oldest (peekAdvance q) = dropped_oldest q" "slots q ! tail q = hd (contents q)"
    by (simp_all add: peekAdvance_def)
qed

lemma ts_push_full:
  assumes ok: "ring_ok q" and len: "2 \<le> length (slots q)" and full: "ring_size q = length (slots q) - 1"
  shows "fst (ts_push x q) = False" "contents (snd (ts_push x q)) = tl (contents q) @ [x]"
    "ring_ok (snd (ts_push x q))" "length (slots (snd (ts_push x q))) = length (slots q)"
    "dropped_oldest (snd (ts_push x q)) = dropped_oldest q + 1"
proof -
  let ?d = "q\<lparr>tail := wrap (length (slots q)) (Suc (tail q)), dropped_oldest := dropped_oldest q + 1\<rparr>"
  have ne: "tail q \<noteq> head q" using full len ok by (auto simp: ring_size_def)
  have d: "ring_ok ?d" "contents ?d = tl (contents q)"
    using contents_consume [OF ok ne] by (simp_all add: ring_ok_def contents_def ring_size_def slot_at_def)
  have "ring_size ?d = ring_size q - 1"
    using d(2) by (metis length_contents length_tl)
  then have lt: "ring_size ?d < length (slots ?d) - 1" using full len by simp
  have "wrap (length (slots q)) (Suc (head q)) = tail q" using full ok by (simp add: full_iff)
  then have "ts_push x q = (False, snd (tryPush x ?d))"
    using lt full_iff [OF d(1)] by (simp add: ts_push_def tryPush_def Let_def)
  with tryPush_room [OF d(1) lt, of x] d show "fst (ts_push x q) = False"
    "contents (snd (ts_push x q)) = tl (contents q) @ [x]"
    "ring_ok (snd (ts_push x q))" "length (slots (snd (ts_push x q))) = length (slots q)"
    "dropped_oldest (snd (ts_push x q)) = dropped_oldest q + 1" by simp_all
qed

lemma ts_push_room:
  assumes "ring_ok q" "ring_size q < length (slots q) - 1"
  shows "ts_push x q = tryPush x q"
  using assms full_iff [OF assms(1)] by (simp add: ts_push_def tryPush_def Let_def)

lemma ts_pop_empty: "ring_ok q \<Longrightarrow> contents q = [] \<Longrightarrow> ts_pop q = (None, q)"
  by (simp add: ts_pop_def Let_def empty_iff)

lemma ts_pop_Cons: "ring_ok q \<Longrightarrow> contents q \<noteq> [] \<Longrightarrow>
    ts_pop q = (Some (hd (contents q)), peekAdvance q)"
  using peekAdvance_Cons (5) [of q] by (auto simp: ts_pop_def Let_def empty_iff peekAdvance_def)

interpretation strict: bounded_fifo ring_ok contents "\<lambda>q. length (slots q) - 1" tryPush ts_pop
proof
  fix q :: "'a ts_ring" assume ok: "ring_ok q"
  show "length (contents q) \<le> length (slots q) - 1" using ring_size_less [OF ok] by simp
next
  fix q :: "'a ts_ring" and x assume "ring_ok q" "length (contents q) = length (slots q) - 1"
  then show "tryPush x q = (False, q)" by (simp add: tryPush_full)
next
  fix q :: "'a ts_ring" and x assume "ring_ok q" "length (contents q) < length (slots q) - 1"
  then show "fst (tryPush x q) \<and> contents (snd (tryPush x q)) = contents q @ [x] \<and>
    ring_ok (snd (tryPush x q)) \<and> length (slots (snd (tryPush x q))) - 1 = length (slots q) - 1"
    using tryPush_room [of q x] by simp
next
  fix q :: "'a ts_ring" assume "ring_ok q" "contents q = []"
  then show "ts_pop q = (None, q)" by (rule ts_pop_empty)
next
  fix q :: "'a ts_ring" and y ys assume "ring_ok q" "contents q = y # ys"
  then show "fst (ts_pop q) = Some y \<and> contents (snd (ts_pop q)) = ys \<and> ring_ok (snd (ts_pop q)) \<and>
    length (slots (snd (ts_pop q))) - 1 = length (slots q) - 1"
    using ts_pop_Cons [of q] peekAdvance_Cons [of q] by simp
qed

subsection \<open>Pushing a burst\<close>

fun push_all :: "'a list \<Rightarrow> 'a ts_ring \<Rightarrow> 'a ts_ring" where
  "push_all [] q = q"
| "push_all (x # xs) q = push_all xs (snd (ts_push x q))"

definition keep_last :: "nat \<Rightarrow> 'a list \<Rightarrow> 'a list" where
  "keep_last n xs = drop (length xs - n) xs"

lemma ts_push_keep_last:
  assumes ok: "ring_ok q" and len: "2 \<le> length (slots q)"
  shows "contents (snd (ts_push x q)) = keep_last (length (slots q) - 1) (contents q @ [x])"
    "ring_ok (snd (ts_push x q))" "length (slots (snd (ts_push x q))) = length (slots q)"
proof -
  have "ring_size q < length (slots q)" by (rule ring_size_less [OF ok])
  then consider "ring_size q = length (slots q) - 1" | "ring_size q < length (slots q) - 1" by force
  then have "contents (snd (ts_push x q)) = keep_last (length (slots q) - 1) (contents q @ [x]) \<and>
    ring_ok (snd (ts_push x q)) \<and> length (slots (snd (ts_push x q))) = length (slots q)"
  proof cases
    case 1
    from len obtain n where "length (slots q) = Suc (Suc n)"
      by (metis add_2_eq_Suc le_Suc_ex)
    with 1 ts_push_full [OF ok len] show ?thesis
      by (cases "contents q") (auto simp: keep_last_def simp flip: length_contents)
  next
    case 2
    with ts_push_room [OF ok] tryPush_room [OF ok] show ?thesis by (simp add: keep_last_def)
  qed
  then show "contents (snd (ts_push x q)) = keep_last (length (slots q) - 1) (contents q @ [x])"
    "ring_ok (snd (ts_push x q))" "length (slots (snd (ts_push x q))) = length (slots q)" by simp_all
qed

lemma keep_last_append: "keep_last n (keep_last n xs @ ys) = keep_last n (xs @ ys)"
  by (cases "length xs \<le> n") (auto simp: keep_last_def add.commute)

lemma push_all_keep_last:
  assumes "ring_ok q" "2 \<le> length (slots q)"
  shows "contents (push_all xs q) = keep_last (length (slots q) - 1) (contents q @ xs) \<and>
    ring_ok (push_all xs q)"
  using assms
proof (induction xs arbitrary: q)
  case Nil
  then show ?case using ring_size_less [of q] by (simp add: keep_last_def)
next
  case (Cons x xs)
  with Cons.IH [of "snd (ts_push x q)"] ts_push_keep_last [of q x] show ?case
    by (simp add: keep_last_append)
qed

lemma sizeApprox_exact:
  assumes ok: "ring_ok q" and len: "length (slots q) \<le> 2 ^ 64"
  shows "sizeApprox q = length (contents q)"
proof -
  obtain k where k: "length (slots q) = 2 ^ k" using ok by (auto simp: ring_ok_def)
  with len have "(2::nat) ^ k \<le> 2 ^ 64" by simp
  then have "k \<le> 64" by (rule power_le_imp_le_exp [rotated]) simp
  then have dvd: "(2::nat) ^ k dvd 2 ^ 64" by (rule le_imp_power_dvd)
  then obtain j where j: "(2::nat) ^ 64 = 2 ^ k * j" by (rule dvdE)
  then obtain m where "j = Suc m" by (cases j) simp_all
  with j have m: "(2::nat) ^ 64 = 2 ^ k + 2 ^ k * m" by simp
  have ht: "head q < 2 ^ k" "tail q < 2 ^ k" using ok k by (simp_all add: ring_ok_def)
  have "(head q + 2 ^ 64 - tail q) mod 2 ^ k = (head q + 2 ^ k - tail q) mod 2 ^ k"
  proof -
    have "head q + 2 ^ 64 - tail q = (head q + 2 ^ k - tail q) + 2 ^ k * m"
      unfolding m using ht by linarith
    then show ?thesis by (simp only: mod_mult_self2)
  qed
  moreover have "(head q + 2 ^ k - tail q) mod 2 ^ k = ring_size q"
  proof (cases "tail q \<le> head q")
    case True
    then have "head q + 2 ^ k - tail q = (head q - tail q) + 2 ^ k" by simp
    then have "(head q + 2 ^ k - tail q) mod 2 ^ k = (head q - tail q) mod 2 ^ k"
      by (simp only: mod_add_self2)
    also have "\<dots> = head q - tail q" using ht by simp
    finally show ?thesis using True by (simp add: ring_size_def)
  next
    case False
    with ht k show ?thesis by (simp add: ring_size_def)
  qed
  ultimately show ?thesis
    using mod_mod_cancel [OF dvd, of "head q + 2 ^ 64 - tail q"]
    by (simp only: sizeApprox_def k wrap_mod length_contents)
qed

subsection \<open>The overwriting push against a consumer in the middle of pop\<close>

text \<open>
  The two threads as interleaved atomic accesses: unlike the strict push, the producer also stores
  the tail cursor, which the consumer has already read.
\<close>

datatype 'a race_ppc = RIdle | RDrop 'a | RDropStore 'a nat | RCount 'a | RWrite 'a | RPublish
datatype 'a race_cpc = RcIdle | RcRead nat | RcAdvance nat 'a

record 'a race_sys =
  rq :: "'a ts_ring"
  rprod :: "'a race_ppc"
  rcons :: "'a race_cpc"
  accepted :: "'a list"
  delivered :: "'a list"

abbreviation rnext :: "'a race_sys \<Rightarrow> nat \<Rightarrow> nat" where
  "rnext s i \<equiv> wrap (length (slots (rq s))) (Suc i)"

inductive race_step :: "'a race_sys \<Rightarrow> 'a race_sys \<Rightarrow> bool" where
  push_room: "rprod s = RIdle \<Longrightarrow> rnext s (head (rq s)) \<noteq> tail (rq s) \<Longrightarrow>
    race_step s (s\<lparr>rprod := RWrite x, accepted := accepted s @ [x]\<rparr>)"
| push_full: "rprod s = RIdle \<Longrightarrow> rnext s (head (rq s)) = tail (rq s) \<Longrightarrow>
    race_step s (s\<lparr>rprod := RDrop x, accepted := accepted s @ [x]\<rparr>)"
| drop_load: "rprod s = RDrop x \<Longrightarrow> race_step s (s\<lparr>rprod := RDropStore x (tail (rq s))\<rparr>)"
| drop_store: "rprod s = RDropStore x t \<Longrightarrow>
    race_step s (s\<lparr>rq := (rq s)\<lparr>tail := rnext s t\<rparr>, rprod := RCount x\<rparr>)"
| drop_count: "rprod s = RCount x \<Longrightarrow>
    race_step s (s\<lparr>rq := (rq s)\<lparr>dropped_oldest := dropped_oldest (rq s) + 1\<rparr>, rprod := RWrite x\<rparr>)"
| push_write: "rprod s = RWrite x \<Longrightarrow>
    race_step s (s\<lparr>rq := (rq s)\<lparr>slots := (slots (rq s))[head (rq s) := x]\<rparr>, rprod := RPublish\<rparr>)"
| push_publish: "rprod s = RPublish \<Longrightarrow>
    race_step s (s\<lparr>rq := (rq s)\<lparr>head := rnext s (head (rq s))\<rparr>, rprod := RIdle\<rparr>)"
| pop_check: "rcons s = RcIdle \<Longrightarrow> tail (rq s) \<noteq> head (rq s) \<Longrightarrow>
    race_step s (s\<lparr>rcons := RcRead (tail (rq s))\<rparr>)"
| pop_read: "rcons s = RcRead t \<Longrightarrow> race_step s (s\<lparr>rcons := RcAdvance t (slots (rq s) ! t)\<rparr>)"
| pop_advance: "rcons s = RcAdvance t y \<Longrightarrow>
    race_step s (s\<lparr>rq := (rq s)\<lparr>tail := rnext s t\<rparr>, rcons := RcIdle, delivered := delivered s @ [y]\<rparr>)"

definition race_init :: "nat \<Rightarrow> 'a \<Rightarrow> 'a race_sys" where
  "race_init k d = \<lparr>rq = new_ring k d, rprod = RIdle, rcons = RcIdle, accepted = [], delivered = []\<rparr>"

text \<open>A scheduler that picks the step to take, for closed executions.\<close>

datatype 'a pick = Produce 'a | Continue | Consume

fun race_exec :: "'a pick \<Rightarrow> 'a race_sys \<Rightarrow> 'a race_sys option" where
  "race_exec (Produce x) s =
     (if rprod s = RIdle
      then Some (s\<lparr>rprod := (if rnext s (head (rq s)) \<noteq> tail (rq s) then RWrite x else RDrop x),
                  accepted := accepted s @ [x]\<rparr>)
      else None)"
| "race_exec Continue s =
     (case rprod s of
        RIdle \<Rightarrow> None
      | RDrop x \<Rightarrow> Some (s\<lparr>rprod := RDropStore x (tail (rq s))\<rparr>)
      | RDropStore x t \<Rightarrow> Some (s\<lparr>rq := (rq s)\<lparr>tail := rnext s t\<rparr>, rprod := RCount x\<rparr>)
      | RCount x \<Rightarrow> Some (s\<lparr>rq := (rq s)\<lparr>dropped_oldest := dropped_oldest (rq s) + 1\<rparr>, rprod := RWrite x\<rparr>)
      | RWrite x \<Rightarrow> Some (s\<lparr>rq := (rq s)\<lparr>slots := (slots (rq s))[head (rq s) := x]\<rparr>, rprod := RPublish\<rparr>)
      | RPublish \<Rightarrow> Some (s\<lparr>rq := (rq s)\<lparr>head := rnext s (head (rq s))\<rparr>, rprod := RIdle\<rparr>))"
| "race_exec Consume s =
     (case rcons s of
        RcIdle \<Rightarrow> (if tail (rq s) \<noteq> head (rq s) then Some (s\<lparr>rcons := RcRead (tail (rq s))\<rparr>) else None)
      | RcRead t \<Rightarrow> Some (s\<lparr>rcons := RcAdvance t (slots (rq s) ! t)\<rparr>)
      | RcAdvance t y \<Rightarrow> Some (s\<lparr>rq := (rq s)\<lparr>tail := rnext s t\<rparr>, rcons := RcIdle,
          delivered := delivered s @ [y]\<rparr>))"

lemma race_exec_step: "race_exec l s = Some t \<Longrightarrow> race_step s t"
proof (cases l)
  case (Produce x)
  assume "race_exec l s = Some t"
  with Produce show ?thesis
    by (auto split: if_splits intro: race_step.push_room race_step.push_full)
next
  case Continue
  assume "race_exec l s = Some t"
  with Continue show ?thesis
    by (auto split: race_ppc.splits intro: race_step.intros)
next
  case Consume
  assume "race_exec l s = Some t"
  with Consume show ?thesis
    by (auto split: race_cpc.splits if_splits intro: race_step.intros)
qed

fun race_run :: "'a pick list \<Rightarrow> 'a race_sys \<Rightarrow> 'a race_sys option" where
  "race_run [] s = Some s"
| "race_run (l # ls) s = (case race_exec l s of None \<Rightarrow> None | Some t \<Rightarrow> race_run ls t)"

lemma race_run_steps: "race_run ls s = Some t \<Longrightarrow> race_step\<^sup>*\<^sup>* s t"
  by (induction ls arbitrary: s)
    (auto split: option.splits dest!: race_exec_step intro: converse_rtranclp_into_rtranclp)

definition race_schedule :: "'a \<Rightarrow> 'a \<Rightarrow> 'a \<Rightarrow> 'a \<Rightarrow> 'a \<Rightarrow> 'a pick list" where
  "race_schedule a b c d e =
     [Produce a, Continue, Continue, Produce b, Continue, Continue, Produce c, Continue, Continue,
      Consume, Consume,
      Produce d, Continue, Continue, Continue, Continue, Continue,
      Produce e, Continue, Continue, Continue, Continue, Continue,
      Consume]"

lemma wrap_4:
  "wrap (Suc (Suc (Suc (Suc 0)))) (Suc 0) = Suc 0"
  "wrap (Suc (Suc (Suc (Suc 0)))) (Suc (Suc 0)) = Suc (Suc 0)"
  "wrap (Suc (Suc (Suc (Suc 0)))) (Suc (Suc (Suc 0))) = Suc (Suc (Suc 0))"
  "wrap (Suc (Suc (Suc (Suc 0)))) (Suc (Suc (Suc (Suc 0)))) = 0"
proof -
  have "Suc (Suc (Suc (Suc 0))) = 2 ^ 2" by simp
  then have "wrap (Suc (Suc (Suc (Suc 0)))) i = i mod 2 ^ 2" for i
    by (simp only: wrap_mod)
  then show "wrap (Suc (Suc (Suc (Suc 0)))) (Suc 0) = Suc 0"
    "wrap (Suc (Suc (Suc (Suc 0)))) (Suc (Suc 0)) = Suc (Suc 0)"
    "wrap (Suc (Suc (Suc (Suc 0)))) (Suc (Suc (Suc 0))) = Suc (Suc (Suc 0))"
    "wrap (Suc (Suc (Suc (Suc 0)))) (Suc (Suc (Suc (Suc 0)))) = 0" by simp_all
qed

lemma race_init_4: "race_init 2 z = \<lparr>rq = \<lparr>slots = [z, z, z, z], head = 0, tail = 0, dropped_oldest = 0\<rparr>,
    rprod = RIdle, rcons = RcIdle, accepted = [], delivered = []\<rparr>"
  by (simp add: race_init_def new_ring_def numeral_eq_Suc)

lemma race_run_append: "race_run (xs @ ys) s = Option.bind (race_run xs s) (race_run ys)"
  by (induction xs arbitrary: s) (simp_all split: option.splits)

lemma race_fill: "race_run [Produce a, Continue, Continue, Produce b, Continue, Continue,
      Produce c, Continue, Continue] (race_init 2 z) =
    Some \<lparr>rq = \<lparr>slots = [a, b, c, z], head = 3, tail = 0, dropped_oldest = 0\<rparr>, rprod = RIdle,
      rcons = RcIdle, accepted = [a, b, c], delivered = []\<rparr>"
  unfolding race_init_4 by (simp add: wrap_4 numeral_eq_Suc)

lemma race_overrun: "race_run [Consume, Consume,
      Produce d, Continue, Continue, Continue, Continue, Continue]
      \<lparr>rq = \<lparr>slots = [a, b, c, z], head = 3, tail = 0, dropped_oldest = 0\<rparr>, rprod = RIdle,
        rcons = RcIdle, accepted = [a, b, c], delivered = []\<rparr> =
    Some \<lparr>rq = \<lparr>slots = [a, b, c, d], head = 0, tail = 1, dropped_oldest = 1\<rparr>, rprod = RIdle,
      rcons = RcAdvance 0 a, accepted = [a, b, c, d], delivered = []\<rparr>"
  by (simp add: wrap_4 numeral_eq_Suc)

lemma race_overrun_again: "race_run [Produce e, Continue, Continue, Continue, Continue, Continue, Consume]
      \<lparr>rq = \<lparr>slots = [a, b, c, d], head = 0, tail = 1, dropped_oldest = 1\<rparr>, rprod = RIdle,
        rcons = RcAdvance 0 a, accepted = [a, b, c, d], delivered = []\<rparr> =
    Some \<lparr>rq = \<lparr>slots = [e, b, c, d], head = 1, tail = 1, dropped_oldest = 2\<rparr>, rprod = RIdle,
      rcons = RcIdle, accepted = [a, b, c, d, e], delivered = [a]\<rparr>"
  by (simp add: wrap_4 numeral_eq_Suc)

lemma race_schedule_final: "race_run (race_schedule a b c d e) (race_init 2 z) =
    Some \<lparr>rq = \<lparr>slots = [e, b, c, d], head = 1, tail = 1, dropped_oldest = 2\<rparr>, rprod = RIdle,
      rcons = RcIdle, accepted = [a, b, c, d, e], delivered = [a]\<rparr>"
proof -
  have "race_schedule a b c d e =
      [Produce a, Continue, Continue, Produce b, Continue, Continue, Produce c, Continue, Continue] @
      [Consume, Consume, Produce d, Continue, Continue, Continue, Continue, Continue] @
      [Produce e, Continue, Continue, Continue, Continue, Continue, Consume]"
    by (simp add: race_schedule_def)
  then show ?thesis
    by (simp only: race_run_append race_fill race_overrun race_overrun_again Option.bind.simps)
qed

section \<open>Properties\<close>

text \<open>After a burst of pushes the ring holds exactly the last \<open>slots - 1\<close> of the items that were waiting
  and pushed, in order: only the oldest are dropped.\<close>

lemma drop_oldest_keeps_last:
  assumes "ring_ok q" "2 \<le> length (slots q)"
  shows "contents (push_all xs q) = keep_last (length (slots q) - 1) (contents q @ xs) \<and> ring_ok (push_all xs q)"
  by (rule push_all_keep_last [OF assms])

text \<open>The drop-oldest push races with a pop in progress: some interleaving accepts five items, delivers
  the first, counts two as dropped and leaves the ring empty, so two items are lost without a trace.\<close>

lemma drop_oldest_race:
  shows "\<exists>s. race_step\<^sup>*\<^sup>* (race_init 2 (0 :: nat)) s \<and> rprod s = RIdle \<and> rcons s = RcIdle \<and>
    accepted s = [1, 2, 3, 4, 5] \<and> delivered s = [1] \<and> contents (rq s) = [] \<and> dropped_oldest (rq s) = 2"
  using race_run_steps [OF race_schedule_final [of 1 2 3 4 "5 :: nat" 0]]
  by (intro exI conjI) (assumption, simp_all add: contents_def ring_size_def)

text \<open>With \<open>tryPush\<close> and \<open>pop\<close> the ring is a bounded FIFO queue for every sequence of operations, and
  \<open>sizeApprox\<close> is the number of waiting items.\<close>

lemma ring_fifo:
  assumes "ring_ok q" "length (slots q) \<le> 2 ^ 64" "fifo_run tryPush ts_pop ops q = (ins, outs, q')"
  shows "contents q @ ins = outs @ contents q' \<and> ring_ok q' \<and> length (contents q') \<le> length (slots q) - 1 \<and>
    sizeApprox q = length (contents q)"
  using strict.run_fifo [OF assms(1,3)] sizeApprox_exact [OF assms(1,2)] by auto

end
