(* ===== verification/PcrRestamper.thy ===== *)
theory PcrRestamper
  imports TsPacket
begin

text \<open>
  \<^verbatim>\<open>src/gateway/ts/PcrRestamper.{h,cpp}\<close>: the clock that rewrites the PCR of outgoing
  packets so that they are spaced at the output bitrate. The 64-bit arithmetic keeps its width: the
  exactness theorem states how many bytes after the anchor it stays exact.
\<close>

record PidState =
  anchor_set :: bool
  output_pcr_at_anchor :: u64
  bytes_at_anchor :: u64

definition new_PidState :: PidState where
  "new_PidState = \<lparr>anchor_set = False, output_pcr_at_anchor = 0, bytes_at_anchor = 0\<rparr>"

record Restamper =
  bitrate_bps :: u32
  bytes_emitted :: u64
  per_pid :: "u16 \<rightharpoonup> PidState"

definition new_Restamper :: "u32 \<Rightarrow> Restamper" where
  "new_Restamper bps = \<lparr>bitrate_bps = bps, bytes_emitted = 0, per_pid = Map.empty\<rparr>"

definition bytesToPcrTicks :: "u64 \<Rightarrow> u32 \<Rightarrow> u64" where
  "bytesToPcrTicks bytes bps = (if bps = 0 then 0 else (bytes * 8 * 27000000) div ucast bps)"

definition restamper_reset :: "Restamper \<Rightarrow> Restamper" where
  "restamper_reset r = r\<lparr>bytes_emitted := 0, per_pid := Map.empty\<rparr>"

definition setBitrate :: "u32 \<Rightarrow> Restamper \<Rightarrow> Restamper" where
  "setBitrate bps r = r\<lparr>bitrate_bps := bps\<rparr>"

definition registerPid :: "u16 \<Rightarrow> Restamper \<Rightarrow> Restamper" where
  "registerPid p r = (case per_pid r p of Some _ \<Rightarrow> r
     | None \<Rightarrow> r\<lparr>per_pid := (per_pid r)(p \<mapsto> new_PidState)\<rparr>)"

definition unregisterPid :: "u16 \<Rightarrow> Restamper \<Rightarrow> Restamper" where
  "unregisterPid p r = r\<lparr>per_pid := (per_pid r)(p := None)\<rparr>"

definition isTracked :: "Restamper \<Rightarrow> u16 \<Rightarrow> bool" where
  "isTracked r p \<longleftrightarrow> per_pid r p \<noteq> None"

definition currentPcr :: "Restamper \<Rightarrow> u16 \<Rightarrow> u64" where
  "currentPcr r p =
     (case per_pid r p of
        None \<Rightarrow> 0
      | Some st \<Rightarrow>
          if \<not> anchor_set st then 0
          else if bitrate_bps r = 0 then output_pcr_at_anchor st
          else output_pcr_at_anchor st
                 + bytesToPcrTicks (bytes_emitted r - bytes_at_anchor st) (bitrate_bps r))"

definition count_packet :: "Restamper \<Rightarrow> Restamper" where
  "count_packet r = r\<lparr>bytes_emitted := bytes_emitted r + of_nat kTsPacketSize\<rparr>"

text \<open>Result: whether a PCR was stamped, the packet as sent, the new state.\<close>

definition onPacketOut :: "bytes \<Rightarrow> u16 \<Rightarrow> Restamper \<Rightarrow> bool \<times> bytes \<times> Restamper" where
  "onPacketOut pkt p r =
     (case per_pid r p of
        None \<Rightarrow> (False, pkt, count_packet r)
      | Some st \<Rightarrow>
          let in_pcr = pcr27Mhz pkt
          in if in_pcr = kPcrNone then (False, pkt, count_packet r)
             else if \<not> anchor_set st \<or> discontinuityIndicator pkt
             then (True, pkt, count_packet (r\<lparr>per_pid := (per_pid r)(p \<mapsto>
                     \<lparr>anchor_set = True, output_pcr_at_anchor = in_pcr,
                      bytes_at_anchor = bytes_emitted r\<rparr>)\<rparr>))
             else if bitrate_bps r \<noteq> 0
             then (True,
                   snd (setPcr27Mhz (output_pcr_at_anchor st
                      + bytesToPcrTicks (bytes_emitted r - bytes_at_anchor st) (bitrate_bps r)) pkt),
                   count_packet r)
             else (False, pkt, count_packet r))"

text \<open>Sending a sequence of packets, each on its PID.\<close>

fun send_all :: "(bytes \<times> u16) list \<Rightarrow> Restamper \<Rightarrow> bytes list \<times> Restamper" where
  "send_all [] r = ([], r)"
| "send_all ((pkt, p) # ps) r =
     (let (_, out, r1) = onPacketOut pkt p r; (outs, r2) = send_all ps r1 in (out # outs, r2))"

lemma send_all_append: "send_all (xs @ ys) r =
    (let (a, r1) = send_all xs r; (b, r2) = send_all ys r1 in (a @ b, r2))"
  by (induction xs arbitrary: r rule: list.induct) (auto split: prod.splits)

lemma length_send_all: "length (fst (send_all ps r)) = length ps"
  by (induction ps arbitrary: r) (auto split: prod.splits simp: Let_def, metis fst_conv)

subsection \<open>One packet\<close>

text \<open>Whatever the packet, the byte counter advances by one packet and the bitrate stays.\<close>

lemma onPacketOut_count:
  assumes "onPacketOut pkt p r = (b, out, r')"
  shows "bytes_emitted r' = bytes_emitted r + 188" "bitrate_bps r' = bitrate_bps r"
    "dom (per_pid r') = dom (per_pid r)" "length out = length pkt"
  using assms
  by (auto simp: onPacketOut_def count_packet_def kTsPacketSize_def Let_def split: option.splits if_splits)

lemma onPacketOut_header:
  assumes "onPacketOut pkt p r = (b, out, r')"
  shows "pid out = pid pkt" "continuityCounter out = continuityCounter pkt"
    "afControl out = afControl pkt" "payloadOffset out = payloadOffset pkt"
    "discontinuityIndicator out = discontinuityIndicator pkt" "pusi out = pusi pkt"
  using assms
  by (auto simp: onPacketOut_def Let_def setPcr_header split: option.splits if_splits)

lemma onPacketOut_other:
  assumes "onPacketOut pkt p r = (b, out, r')" "q \<noteq> p"
  shows "per_pid r' q = per_pid r q"
  using assms by (auto simp: onPacketOut_def count_packet_def Let_def split: option.splits if_splits)

lemma onPacketOut_keeps_anchor:
  assumes "onPacketOut pkt p r = (b, out, r')" "per_pid r q = Some st" "anchor_set st"
    "p = q \<Longrightarrow> carries_pcr pkt \<Longrightarrow> \<not> discontinuityIndicator pkt"
  shows "per_pid r' q = Some st"
  using assms pcr_none [of pkt]
  by (cases "p = q"; cases "carries_pcr pkt")
    (auto simp: onPacketOut_def count_packet_def Let_def split: option.splits if_splits)

subsection \<open>The clock at the output rate\<close>

lemma bytesToPcrTicks_exact:
  assumes "bps \<noteq> 0" "n * 216000000 < 2 ^ 64"
  shows "unat (bytesToPcrTicks (of_nat n) bps) = n * 216000000 div unat bps"
proof -
  have "of_nat n * 8 * 27000000 = (of_nat (n * 216000000) :: u64)" by simp
  moreover have "unat (of_nat (n * 216000000) :: u64) = n * 216000000"
    by (rule unat_of_nat_small) (use assms(2) in simp)
  moreover have "unat (ucast bps :: u64) = unat bps" by (rule unat_ucast_up) simp
  ultimately show ?thesis using assms(1) by (simp only: bytesToPcrTicks_def if_False unat_div)
qed

lemma send_all_keeps:
  assumes "per_pid r p = Some st" "anchor_set st"
    "\<forall>(x, q) \<in> set ps. q = p \<longrightarrow> carries_pcr x \<longrightarrow> \<not> discontinuityIndicator x"
  shows "per_pid (snd (send_all ps r)) p = Some st \<and>
    bytes_emitted (snd (send_all ps r)) = bytes_emitted r + of_nat (188 * length ps) \<and>
    bitrate_bps (snd (send_all ps r)) = bitrate_bps r"
  using assms
proof (induction ps arbitrary: r)
  case (Cons x ps)
  obtain pkt q where x: "x = (pkt, q)" by (cases x)
  obtain b out r1 where one: "onPacketOut pkt q r = (b, out, r1)" by (cases "onPacketOut pkt q r") auto
  have "per_pid r1 p = Some st"
    using onPacketOut_keeps_anchor [OF one Cons.prems(1,2)] Cons.prems(3) x by auto
  from Cons.IH [OF this Cons.prems(2)] Cons.prems(3) onPacketOut_count [OF one]
  show ?case by (auto simp: x one Let_def algebra_simps split: prod.splits)
qed simp

lemma anchor_packet:
  assumes "per_pid r p = Some st" "\<not> anchor_set st \<or> discontinuityIndicator pkt" "pcr27Mhz pkt \<noteq> kPcrNone"
  shows "onPacketOut pkt p r = (True, pkt, count_packet (r\<lparr>per_pid := (per_pid r)(p \<mapsto>
     \<lparr>anchor_set = True, output_pcr_at_anchor = pcr27Mhz pkt, bytes_at_anchor = bytes_emitted r\<rparr>)\<rparr>))"
  using assms by (auto simp: onPacketOut_def Let_def)

lemma stamped_packet:
  assumes "per_pid r p = Some st" "anchor_set st" "\<not> discontinuityIndicator pkt"
    "pcr27Mhz pkt \<noteq> kPcrNone" "bitrate_bps r \<noteq> 0"
  shows "onPacketOut pkt p r = (True, snd (setPcr27Mhz (currentPcr r p) pkt), count_packet r)"
  using assms by (auto simp: onPacketOut_def Let_def currentPcr_def)

text \<open>The PCR stamped \<open>n\<close> packets after the anchor, while the 64-bit product is exact.\<close>

lemma spacing_after_anchor:
  assumes trk: "isTracked r p" and bps: "bitrate_bps r \<noteq> 0"
    and anchor: "pcr27Mhz a \<noteq> kPcrNone" "\<not> (\<exists>st. per_pid r p = Some st \<and> anchor_set st)"
    and mid: "\<forall>(x, q) \<in> set ps. q = p \<longrightarrow> carries_pcr x \<longrightarrow> \<not> discontinuityIndicator x"
    and last: "ts_packet pkt" "carries_pcr pkt" "pcr27Mhz pkt \<noteq> kPcrNone" "\<not> discontinuityIndicator pkt"
    and n: "n = 188 * (length ps + 1)" and exact: "n * 216000000 < 2 ^ 64"
    and range: "unat (pcr27Mhz a) + n * 216000000 div unat (bitrate_bps r) < 2 ^ 33 * 300"
  shows "unat (pcr27Mhz (List.last (fst (send_all ((a, p) # ps @ [(pkt, p)]) r)))) =
    unat (pcr27Mhz a) + n * 216000000 div unat (bitrate_bps r)"
proof -
  obtain st where st: "per_pid r p = Some st" "\<not> anchor_set st"
    using trk anchor(2) by (auto simp: isTracked_def)
  define s where "s = \<lparr>anchor_set = True, output_pcr_at_anchor = pcr27Mhz a, bytes_at_anchor = bytes_emitted r\<rparr>"
  define r1 where "r1 = count_packet (r\<lparr>per_pid := (per_pid r)(p \<mapsto> s)\<rparr>)"
  have one: "onPacketOut a p r = (True, a, r1)"
    using anchor_packet [OF st(1)] st(2) anchor(1) by (simp add: r1_def s_def)
  define r2 where "r2 = snd (send_all ps r1)"
  have r1: "per_pid r1 p = Some s" "anchor_set s" "bytes_emitted r1 = bytes_emitted r + 188"
    "bitrate_bps r1 = bitrate_bps r"
    by (simp_all add: r1_def s_def count_packet_def kTsPacketSize_def)
  from send_all_keeps [OF r1(1,2) mid] r1 have r2: "per_pid r2 p = Some s" "bitrate_bps r2 = bitrate_bps r"
    "bytes_emitted r2 = bytes_emitted r + of_nat n"
    by (simp_all add: r2_def n algebra_simps)
  let ?t = "bytesToPcrTicks (of_nat n) (bitrate_bps r)"
  have cur: "currentPcr r2 p = pcr27Mhz a + ?t"
    using r2 bps r1(2) by (simp add: currentPcr_def s_def)
  have t: "unat ?t = n * 216000000 div unat (bitrate_bps r)"
    by (rule bytesToPcrTicks_exact [OF bps exact])
  have "unat (pcr27Mhz a + ?t) = (unat (pcr27Mhz a) + unat ?t) mod 2 ^ 64"
    by (simp add: unat_word_ariths)
  also have "\<dots> = unat (pcr27Mhz a) + unat ?t" using range t by simp
  finally have sum: "unat (currentPcr r2 p) = unat (pcr27Mhz a) + n * 216000000 div unat (bitrate_bps r)"
    using cur t by simp
  have two: "onPacketOut pkt p r2 = (True, snd (setPcr27Mhz (currentPcr r2 p) pkt), count_packet r2)"
    by (rule stamped_packet) (use r2 r1(2) last bps in auto)
  have "List.last (fst (send_all ((a, p) # ps @ [(pkt, p)]) r)) = snd (setPcr27Mhz (currentPcr r2 p) pkt)"
    using two by (cases "send_all ps r1") (simp add: one send_all_append r2_def)
  moreover have "pcr27Mhz (snd (setPcr27Mhz (currentPcr r2 p) pkt)) = currentPcr r2 p"
    by (rule pcr_setPcr_exact) (use last sum range in \<open>auto simp: word_less_nat_alt\<close>)
  ultimately show ?thesis using sum by simp
qed

subsection \<open>Where the product wraps\<close>

lemma count_packets: "(count_packet ^^ m) r = r\<lparr>bytes_emitted := bytes_emitted r + of_nat (188 * m)\<rparr>"
  by (induction m) (simp_all add: count_packet_def kTsPacketSize_def algebra_simps)

definition anchored :: "u16 \<Rightarrow> u64 \<Rightarrow> u32 \<Rightarrow> Restamper" where
  "anchored p v bps = \<lparr>bitrate_bps = bps, bytes_emitted = 0,
     per_pid = [p \<mapsto> \<lparr>anchor_set = True, output_pcr_at_anchor = v, bytes_at_anchor = 0\<rparr>]\<rparr>"

lemma currentPcr_anchored: "bps \<noteq> 0 \<Longrightarrow>
    currentPcr ((count_packet ^^ m) (anchored p v bps)) p = v + bytesToPcrTicks (of_nat (188 * m)) bps"
  by (simp add: count_packets anchored_def currentPcr_def)

text \<open>At 100 Mbit/s the product passes \<open>2 ^ 64\<close> after 454263793 packets, in under two hours.\<close>

lemma ticks_wrap:
  "bytesToPcrTicks (of_nat (188 * 454263792)) 100000000 = 184467440655"
  "bytesToPcrTicks (of_nat (188 * 454263793)) 100000000 = 324"
  by (simp_all add: bytesToPcrTicks_def)

section \<open>Properties\<close>

text \<open>A PCR stamped \<open>n\<close> bytes after the anchor is the anchor plus the 27 MHz ticks those bytes take at
  the output bitrate, whatever is sent in between, as long as the 64-bit product does not wrap.\<close>

lemma pcr_spacing:
  assumes "isTracked r p" "bitrate_bps r \<noteq> 0" "pcr27Mhz a \<noteq> kPcrNone"
    "\<not> (\<exists>st. per_pid r p = Some st \<and> anchor_set st)"
    "\<forall>(x, q) \<in> set ps. q = p \<longrightarrow> carries_pcr x \<longrightarrow> \<not> discontinuityIndicator x"
    "ts_packet pkt" "carries_pcr pkt" "pcr27Mhz pkt \<noteq> kPcrNone" "\<not> discontinuityIndicator pkt"
    "n = 188 * (length ps + 1)" "n * 216000000 < 2 ^ 64"
    "unat (pcr27Mhz a) + n * 216000000 div unat (bitrate_bps r) < 2 ^ 33 * 300"
  shows "unat (pcr27Mhz (List.last (fst (send_all ((a, p) # ps @ [(pkt, p)]) r)))) =
    unat (pcr27Mhz a) + n * 216000000 div unat (bitrate_bps r)"
  by (rule spacing_after_anchor [OF assms])

text \<open>At 100 Mbit/s the tick product wraps after 454263793 packets, which take less than two hours: the
  next PCR is 324 ticks after the anchor.\<close>

lemma pcr_product_wraps:
  shows "currentPcr ((count_packet ^^ 454263792) (anchored p 0 100000000)) p = 184467440655 \<and>
    currentPcr ((count_packet ^^ 454263793) (anchored p 0 100000000)) p = 324 \<and>
    188 * 8 * 454263793 < 7200 * 10 ^ (8 :: nat) * (1 :: nat)"
  using currentPcr_anchored [of 100000000 454263792 p 0] currentPcr_anchored [of 100000000 454263793 p 0] ticks_wrap
  by (simp del: funpow.simps)

end
