(* ===== verification/Descriptors.thy ===== *)
theory Descriptors
  imports Prelude
begin

text \<open>
  \<^verbatim>\<open>src/gateway/ts/Descriptors.{h,cpp}\<close> and the descriptor writer of
  \<^verbatim>\<open>src/gateway/ts/PsiBuilder.cpp\<close>: the tag/length/body loop shared by every PSI table,
  the typed views of the subtitling, teletext and AC-3 descriptors, and their losslessness.
\<close>

record RawDescriptor =
  tag :: u8
  body :: bytes

definition kDescIso639Language :: u8 where "kDescIso639Language = 0x0A"
definition kDescTeletext :: u8 where "kDescTeletext = 0x56"
definition kDescSubtitling :: u8 where "kDescSubtitling = 0x59"
definition kDescAc3 :: u8 where "kDescAc3 = 0x6A"

text \<open>An index \<open>i\<close> into the span is the list of the bytes from \<open>i\<close> on.\<close>

function parseDescriptorLoop :: "bytes \<Rightarrow> RawDescriptor list" where
  "parseDescriptorLoop (t # len # rest) =
     (if length rest < unat len then []
      else \<lparr>tag = t, body = take (unat len) rest\<rparr> # parseDescriptorLoop (drop (unat len) rest))"
| "parseDescriptorLoop [] = []"
| "parseDescriptorLoop [t] = []"
  by pat_completeness auto
termination by (relation "measure length") auto

definition writeDescriptor :: "RawDescriptor \<Rightarrow> bytes" where
  "writeDescriptor d = (let blen = min (length (body d)) 255
     in tag d # of_nat blen # take blen (body d))"

text \<open>The bytes appended to the section; the returned count is their number.\<close>

fun writeDescriptorLoop :: "RawDescriptor list \<Rightarrow> bytes" where
  "writeDescriptorLoop [] = []"
| "writeDescriptorLoop (d # ds) = writeDescriptor d @ writeDescriptorLoop ds"

definition descriptor_fits :: "RawDescriptor \<Rightarrow> bool" where
  "descriptor_fits d \<longleftrightarrow> length (body d) \<le> 255"

definition clip :: "RawDescriptor \<Rightarrow> RawDescriptor" where
  "clip d = d\<lparr>body := take 255 (body d)\<rparr>"

lemma clip_fits [simp]: "descriptor_fits d \<Longrightarrow> clip d = d"
  by (simp add: clip_def descriptor_fits_def)

lemma map_clip_fits [simp]: "list_all descriptor_fits ds \<Longrightarrow> map clip ds = ds"
  by (induction ds) auto

lemma length_writeDescriptor: "length (writeDescriptor d) = 2 + min (length (body d)) 255"
  by (simp add: writeDescriptor_def Let_def)

text \<open>Parsing what was written gives the descriptors, with bodies over 255 bytes cut.\<close>

lemma parse_write_append:
  "parseDescriptorLoop (writeDescriptorLoop ds @ rest) = map clip ds @ parseDescriptorLoop rest"
proof (induction ds)
  case (Cons d ds)
  have "unat (of_nat (min (length (body d)) 255) :: u8) = min (length (body d)) 255"
    by (rule unat_of_nat_small) simp
  moreover have "take (min (length (body d)) 255) (body d) = take 255 (body d)"
    by (simp add: min_def)
  ultimately show ?case
    using Cons by (simp add: writeDescriptor_def clip_def Let_def)
qed simp

lemma parse_write: "parseDescriptorLoop (writeDescriptorLoop ds) = map clip ds"
  using parse_write_append [of ds "[]"] by simp

text \<open>Every parsed descriptor fits its length byte, and writing the list back gives a prefix of the
  loop: what is left over is the truncated tail the parser gave up on.\<close>

lemma parsed_fits: "list_all descriptor_fits (parseDescriptorLoop data)"
proof (induction data rule: parseDescriptorLoop.induct)
  case (1 t len rest)
  have "unat len \<le> 255" by (rule unat_u8_le)
  with 1 show ?case by (auto simp: descriptor_fits_def)
qed simp_all

lemma write_parse_prefix:
  "\<exists>tail. data = writeDescriptorLoop (parseDescriptorLoop data) @ tail \<and> parseDescriptorLoop tail = []"
proof (induction data rule: parseDescriptorLoop.induct)
  case (1 t len rest)
  show ?case
  proof (cases "length rest < unat len")
    case True
    then show ?thesis by simp
  next
    case False
    with 1 obtain tl where tl: "drop (unat len) rest =
        writeDescriptorLoop (parseDescriptorLoop (drop (unat len) rest)) @ tl" "parseDescriptorLoop tl = []"
      by blast
    have "unat len \<le> 255" by (rule unat_u8_le)
    with False have "writeDescriptor \<lparr>tag = t, body = take (unat len) rest\<rparr> = t # len # take (unat len) rest"
      by (simp add: writeDescriptor_def Let_def min_def)
    moreover have "rest = take (unat len) rest @ drop (unat len) rest" by simp
    ultimately show ?thesis using False tl by (metis Cons_eq_appendI append.assoc
        parseDescriptorLoop.simps(1) writeDescriptorLoop.simps(2))
  qed
qed auto

lemma length_writeDescriptorLoop_append:
  "writeDescriptorLoop (ds @ es) = writeDescriptorLoop ds @ writeDescriptorLoop es"
  by (induction ds) simp_all

subsection \<open>Language codes\<close>

text \<open>\<open>std::tolower\<close> in the C locale.\<close>

definition tolower :: "u8 \<Rightarrow> u8" where
  "tolower b = (if 0x41 \<le> b \<and> b \<le> 0x5A then b + 0x20 else b)"

definition readLang :: "bytes \<Rightarrow> bytes" where
  "readLang p = map tolower (take 3 p)"

fun findIso639Language :: "RawDescriptor list \<Rightarrow> bytes option" where
  "findIso639Language [] = None"
| "findIso639Language (d # ds) =
     (if tag d = kDescIso639Language \<and> 3 \<le> length (body d) then Some (readLang (body d))
      else findIso639Language ds)"

lemma tolower_idem [simp]: "tolower (tolower b) = tolower b"
proof -
  have "b \<le> 0x5A \<Longrightarrow> unat (b + 0x20) = unat b + 32" for b :: u8
    by (simp add: unat_plus_simple [THEN iffD1] word_le_nat_alt unat_word_ariths)
  then show ?thesis
    by (auto simp: tolower_def word_le_nat_alt)
qed

lemma readLang_readLang: "readLang (readLang p) = readLang p"
  by (simp add: readLang_def)

lemma findIso639Language_lower:
  "findIso639Language ds = Some l \<Longrightarrow> length l = 3 \<and> map tolower l = l"
  by (induction ds) (auto simp: readLang_def split: if_splits)

subsection \<open>Typed views\<close>

record SubtitlingEntry =
  sub_language :: bytes
  subtitling_type :: u8
  composition_page_id :: u16
  ancillary_page_id :: u16

record TeletextEntry =
  ttx_language :: bytes
  teletext_type :: u8
  magazine_number :: u8
  page_number :: u8

function parseSubtitlingDescriptor :: "bytes \<Rightarrow> SubtitlingEntry list" where
  "parseSubtitlingDescriptor bs =
     (if length bs < 8 then []
      else \<lparr>sub_language = readLang bs, subtitling_type = bs ! 3,
             composition_page_id = be16 (bs ! 4) (bs ! 5),
             ancillary_page_id = be16 (bs ! 6) (bs ! 7)\<rparr>
           # parseSubtitlingDescriptor (drop 8 bs))"
  by pat_completeness auto
termination by (relation "measure length") auto

function parseTeletextDescriptor :: "bytes \<Rightarrow> TeletextEntry list" where
  "parseTeletextDescriptor bs =
     (if length bs < 5 then []
      else \<lparr>ttx_language = readLang bs, teletext_type = drop_bit 3 (bs ! 3) AND 0x1F,
             magazine_number = bs ! 3 AND 0x07, page_number = bs ! 4\<rparr>
           # parseTeletextDescriptor (drop 5 bs))"
  by pat_completeness auto
termination by (relation "measure length") auto

declare parseSubtitlingDescriptor.simps [simp del] parseTeletextDescriptor.simps [simp del]

text \<open>The number of entries and where each one starts.\<close>

lemma length_parseSubtitling: "length (parseSubtitlingDescriptor bs) = length bs div 8"
  by (induction bs rule: parseSubtitlingDescriptor.induct)
    (subst parseSubtitlingDescriptor.simps, simp add: le_div_geq)

lemma length_parseTeletext: "length (parseTeletextDescriptor bs) = length bs div 5"
  by (induction bs rule: parseTeletextDescriptor.induct)
    (subst parseTeletextDescriptor.simps, simp add: le_div_geq)

lemma nth_parseSubtitling:
  "k < length bs div 8 \<Longrightarrow> parseSubtitlingDescriptor bs ! k =
     \<lparr>sub_language = readLang (drop (8 * k) bs), subtitling_type = bs ! (8 * k + 3),
      composition_page_id = be16 (bs ! (8 * k + 4)) (bs ! (8 * k + 5)),
      ancillary_page_id = be16 (bs ! (8 * k + 6)) (bs ! (8 * k + 7))\<rparr>"
proof (induction bs arbitrary: k rule: parseSubtitlingDescriptor.induct)
  case (1 bs)
  then have ge: "8 \<le> length bs" by (cases "8 \<le> length bs") auto
  show ?case
  proof (cases k)
    case 0
    with ge show ?thesis by (subst parseSubtitlingDescriptor.simps) simp
  next
    case (Suc j)
    with 1(2) ge have "j < length (drop 8 bs) div 8" by (simp add: le_div_geq)
    with 1(1) [of j] ge Suc show ?thesis
      by (subst parseSubtitlingDescriptor.simps) (simp add: add.commute add.left_commute)
  qed
qed

record Ac3Descriptor =
  component_type :: "u8 option"
  bsid :: "u8 option"
  mainid :: "u8 option"
  asvc :: "u8 option"
  additional_info :: bytes

text \<open>The flag bits of the source's struct are \<open>is_some\<close> of the four options. \<open>take_flag\<close> is the
  lambda \<open>take\<close>: None when the flag announces a byte the body does not have.\<close>

definition take_flag :: "bool \<Rightarrow> bytes \<Rightarrow> (u8 option \<times> bytes) option" where
  "take_flag flag bs = (if \<not> flag then Some (None, bs)
     else (case bs of [] \<Rightarrow> None | b # rest \<Rightarrow> Some (Some b, rest)))"

fun parseAc3Descriptor :: "bytes \<Rightarrow> Ac3Descriptor option" where
  "parseAc3Descriptor [] = None"
| "parseAc3Descriptor (flags # b0) =
     (case take_flag (flags AND 0x80 \<noteq> 0) b0 of None \<Rightarrow> None | Some (ct, b1) \<Rightarrow>
      (case take_flag (flags AND 0x40 \<noteq> 0) b1 of None \<Rightarrow> None | Some (bi, b2) \<Rightarrow>
      (case take_flag (flags AND 0x20 \<noteq> 0) b2 of None \<Rightarrow> None | Some (mi, b3) \<Rightarrow>
      (case take_flag (flags AND 0x10 \<noteq> 0) b3 of None \<Rightarrow> None | Some (av, b4) \<Rightarrow>
       Some \<lparr>component_type = ct, bsid = bi, mainid = mi, asvc = av, additional_info = b4\<rparr>))))"

lemma take_flag_Some: "take_flag f bs = Some (r, rest) \<longleftrightarrow>
    bs = (case r of None \<Rightarrow> rest | Some b \<Rightarrow> b # rest) \<and> (f \<longleftrightarrow> r \<noteq> None)"
  by (cases bs; cases r) (auto simp: take_flag_def)

lemma take_flag_None: "take_flag f bs = None \<longleftrightarrow> f \<and> bs = []"
  by (cases bs) (auto simp: take_flag_def)

text \<open>The flags byte, the announced bytes in order and the rest are the descriptor body.\<close>

definition opt_byte :: "u8 option \<Rightarrow> bytes" where
  "opt_byte r = (case r of None \<Rightarrow> [] | Some b \<Rightarrow> [b])"

lemma parseAc3_lossless:
  assumes "parseAc3Descriptor (flags # b) = Some d"
  shows "b = opt_byte (component_type d) @ opt_byte (bsid d) @ opt_byte (mainid d) @ opt_byte (asvc d)
           @ additional_info d"
    "component_type d \<noteq> None \<longleftrightarrow> bit flags 7" "bsid d \<noteq> None \<longleftrightarrow> bit flags 6"
    "mainid d \<noteq> None \<longleftrightarrow> bit flags 5" "asvc d \<noteq> None \<longleftrightarrow> bit flags 4"
proof -
  have opt: "opt_byte r @ rest = (case r of None \<Rightarrow> rest | Some c \<Rightarrow> c # rest)" for r rest
    by (cases r) (simp_all add: opt_byte_def)
  obtain ct b1 bi b2 mi b3 av b4 where t:
    "take_flag (flags AND 0x80 \<noteq> 0) b = Some (ct, b1)" "take_flag (flags AND 0x40 \<noteq> 0) b1 = Some (bi, b2)"
    "take_flag (flags AND 0x20 \<noteq> 0) b2 = Some (mi, b3)" "take_flag (flags AND 0x10 \<noteq> 0) b3 = Some (av, b4)"
    and d: "d = \<lparr>component_type = ct, bsid = bi, mainid = mi, asvc = av, additional_info = b4\<rparr>"
    using assms by (simp split: option.splits prod.splits)
  note t = t [unfolded take_flag_Some AND_bit_iff not_not]
  from t have "b = opt_byte ct @ b1" "b1 = opt_byte bi @ b2" "b2 = opt_byte mi @ b3" "b3 = opt_byte av @ b4"
    unfolding opt by blast+
  then show "b = opt_byte (component_type d) @ opt_byte (bsid d) @ opt_byte (mainid d) @ opt_byte (asvc d)
           @ additional_info d"
    by (simp add: d)
  from t show "component_type d \<noteq> None \<longleftrightarrow> bit flags 7" "bsid d \<noteq> None \<longleftrightarrow> bit flags 6"
    "mainid d \<noteq> None \<longleftrightarrow> bit flags 5" "asvc d \<noteq> None \<longleftrightarrow> bit flags 4"
    by (simp_all add: d)
qed

lemma take_flag_length: "take_flag f bs = Some (r, rest) \<Longrightarrow> length bs = of_bool f + length rest"
  by (cases bs) (auto simp: take_flag_def split: if_splits)

lemma take_flag_None_length: "take_flag f bs = None \<longleftrightarrow> length bs < of_bool f"
  by (cases bs) (auto simp: take_flag_def)

lemma parseAc3_None_iff:
  "parseAc3Descriptor (flags # b) = None \<longleftrightarrow>
     length b < of_bool (bit flags 7) + of_bool (bit flags 6) + of_bool (bit flags 5) + of_bool (bit flags 4)"
  (is "_ \<longleftrightarrow> length b < ?f7 + ?f6 + ?f5 + ?f4")
proof (cases "take_flag (bit flags 7) b")
  case None
  moreover from this have "length b < ?f7" by (simp add: take_flag_None_length)
  ultimately show ?thesis by (simp add: AND_bit_iff)
next
  case (Some x)
  then obtain r1 b1 where 1: "take_flag (bit flags 7) b = Some (r1, b1)" by (cases x) simp
  then have l1: "length b = ?f7 + length b1" by (rule take_flag_length)
  show ?thesis
  proof (cases "take_flag (bit flags 6) b1")
    case None
    moreover from this have "length b1 < ?f6" by (simp add: take_flag_None_length)
    ultimately show ?thesis using 1 l1 by (simp add: AND_bit_iff)
  next
    case (Some x)
    then obtain r2 b2 where 2: "take_flag (bit flags 6) b1 = Some (r2, b2)" by (cases x) simp
    then have l2: "length b1 = ?f6 + length b2" by (rule take_flag_length)
    show ?thesis
    proof (cases "take_flag (bit flags 5) b2")
      case None
      moreover from this have "length b2 < ?f5" by (simp add: take_flag_None_length)
      ultimately show ?thesis using 1 2 l1 l2 by (simp add: AND_bit_iff)
    next
      case (Some x)
      then obtain r3 b3 where 3: "take_flag (bit flags 5) b2 = Some (r3, b3)" by (cases x) simp
      then have l3: "length b2 = ?f5 + length b3" by (rule take_flag_length)
      have "length b < ?f7 + ?f6 + ?f5 + ?f4 \<longleftrightarrow> length b3 < ?f4" using l1 l2 l3 by linarith
      with 1 2 3 show ?thesis
        by (simp add: AND_bit_iff take_flag_None_length [symmetric] split: option.splits)
    qed
  qed
qed

section \<open>Properties\<close>

text \<open>Descriptor loops are lossless both ways: parsing what was written gives the descriptors (bodies cut
  at 255 bytes), and any parsed bytes are the rewritten descriptors followed by a tail that holds none.\<close>

lemma descriptor_loop_lossless:
  shows "parseDescriptorLoop (writeDescriptorLoop ds) = map clip ds \<and>
    (\<exists>tail. data = writeDescriptorLoop (parseDescriptorLoop data) @ tail \<and> parseDescriptorLoop tail = [])"
  using parse_write [of ds] write_parse_prefix [of data] by blast

text \<open>An AC-3 descriptor is refused exactly when its flags announce more bytes than follow, and otherwise
  the announced fields and the rest are the body, each field present as its flag says.\<close>

lemma ac3_descriptor_lossless:
  shows "case parseAc3Descriptor (flags # b) of
     None \<Rightarrow> length b < of_bool (bit flags 7) + of_bool (bit flags 6) + of_bool (bit flags 5) + of_bool (bit flags 4)
   | Some d \<Rightarrow> b = opt_byte (component_type d) @ opt_byte (bsid d) @ opt_byte (mainid d) @ opt_byte (asvc d)
        @ additional_info d \<and> (component_type d \<noteq> None) = bit flags 7 \<and> (bsid d \<noteq> None) = bit flags 6 \<and>
        (mainid d \<noteq> None) = bit flags 5 \<and> (asvc d \<noteq> None) = bit flags 4"
proof (cases "parseAc3Descriptor (flags # b)")
  case None
  with parseAc3_None_iff [of flags b] show ?thesis by simp
next
  case (Some d)
  with parseAc3_lossless [OF Some] show ?thesis by simp
qed

end
