(* ===== verification/DvbTime.thy ===== *)
theory DvbTime
  imports Prelude
begin

text \<open>
  The EIT time fields: \<open>decodeMjdUtc\<close> and \<open>decodeBcdDuration\<close> of
  \<^verbatim>\<open>src/gateway/ts/PsiParser.cpp\<close>, \<open>civilToMjd\<close>, \<open>daysToCivil\<close>, \<open>encodeMjdUtc\<close> and
  \<open>encodeBcdDuration\<close> of \<^verbatim>\<open>src/gateway/ts/PsiBuilder.cpp\<close>. The decoder's double
  expressions are quotients of integers with at most two decimals in the numerator and four in the
  divisor, cut towards zero; they are written here as those integer quotients. The C++ \<open>int\<close> and
  \<open>unsigned\<close> values are \<open>int\<close>; the bounds proved below keep every one of them in range.
\<close>

text \<open>Division of C++: truncation towards zero, for a positive divisor.\<close>

definition tdiv :: "int \<Rightarrow> int \<Rightarrow> int" where
  "tdiv a b = (if a < 0 then - ((- a) div b) else a div b)"

lemma tdiv_nonneg [simp]: "0 \<le> a \<Longrightarrow> tdiv a b = a div b"
  by (simp add: tdiv_def)

subsection \<open>Civil dates\<close>

definition doy_of :: "int \<Rightarrow> int \<Rightarrow> int" where
  "doy_of month day = (153 * (month + (if 2 < month then - 3 else 9)) + 2) div 5 + day - 1"

definition days_from_civil :: "int \<Rightarrow> int \<Rightarrow> int \<Rightarrow> int" where
  "days_from_civil year month day =
     (let y = year - of_bool (month \<le> 2);
          era = tdiv (if 0 \<le> y then y else y - 399) 400;
          yoe = y - era * 400;
          doy = doy_of month day;
          doe = yoe * 365 + yoe div 4 - yoe div 100 + doy
      in era * 146097 + doe - 719468)"

definition civilToMjd :: "int \<Rightarrow> int \<Rightarrow> int \<Rightarrow> int" where
  "civilToMjd year month day = days_from_civil year month day + 40587"

definition daysToCivil :: "int \<Rightarrow> int \<times> int \<times> int" where
  "daysToCivil days =
     (let z = days + 719468;
          era = tdiv (if 0 \<le> z then z else z - 146096) 146097;
          doe = z - era * 146097;
          yoe = (doe - doe div 1460 + doe div 36524 - doe div 146096) div 365;
          y = yoe + era * 400;
          doy = doe - (365 * yoe + yoe div 4 - yoe div 100);
          mp = (5 * doy + 2) div 153;
          day = doy - (153 * mp + 2) div 5 + 1;
          month = (if mp < 10 then mp + 3 else mp - 9)
      in (y + of_bool (month \<le> 2), month, day))"

subsection \<open>BCD\<close>

definition toBcd :: "int \<Rightarrow> u8" where
  "toBcd v = push_bit 4 (word_of_int (v div 10)) OR word_of_int (v mod 10)"

definition bcd :: "u8 \<Rightarrow> int" where
  "bcd b = uint (drop_bit 4 b) * 10 + uint (b AND 0x0F)"

definition encodeBcdDuration :: "u32 \<Rightarrow> bytes" where
  "encodeBcdDuration duration_sec =
     (let d = (if duration_sec > 86399 then 86399 else uint duration_sec)
      in [toBcd (d div 3600), toBcd (d div 60 mod 60), toBcd (d mod 60)])"

definition decodeBcdDuration :: "bytes \<Rightarrow> u32" where
  "decodeBcdDuration raw =
     (let h = bcd (raw ! 0); m = bcd (raw ! 1); s = bcd (raw ! 2)
      in if h > 99 \<or> m > 59 \<or> s > 60 then 0 else word_of_int (h * 3600 + m * 60 + s))"

lemma bcd_toBcd_all: "list_all (\<lambda>v. bcd (toBcd v) = v) [0..99]"
  by code_simp

lemma bcd_toBcd: "0 \<le> v \<Longrightarrow> v \<le> 99 \<Longrightarrow> bcd (toBcd v) = v"
  using bcd_toBcd_all by (simp only: list_all_iff set_upto) simp

lemma hms_split: "0 \<le> (t::int) \<Longrightarrow> t div 3600 * 3600 + t div 60 mod 60 * 60 + t mod 60 = t"
proof -
  have "t div 3600 = t div 60 div 60" using zdiv_zmult2_eq [of 60 t 60] by simp
  moreover have "t div 60 div 60 * 60 + t div 60 mod 60 = t div 60" by (rule div_mult_mod_eq)
  moreover have "t div 60 * 60 + t mod 60 = t" by (rule div_mult_mod_eq)
  ultimately show ?thesis by linarith
qed

lemma BcdDuration_roundtrip:
  "decodeBcdDuration (encodeBcdDuration d) = min d 86399"
proof -
  define t where "t = min (uint d) 86399"
  have enc: "encodeBcdDuration d = [toBcd (t div 3600), toBcd (t div 60 mod 60), toBcd (t mod 60)]"
    by (simp add: encodeBcdDuration_def t_def word_less_alt min_def Let_def)
  have t: "0 \<le> t" "t \<le> 86399" by (simp_all add: t_def)
  then have h: "0 \<le> t div 3600" "t div 3600 \<le> 23" by simp_all
  have m: "t div 60 mod 60 \<le> 59" "t mod 60 \<le> 59"
    using pos_mod_bound [of 60 "t div 60"] pos_mod_bound [of 60 t] by linarith+
  have "decodeBcdDuration (encodeBcdDuration d) = word_of_int t"
    using h m t hms_split [OF t(1)] by (simp add: enc decodeBcdDuration_def Let_def bcd_toBcd)
  also have "\<dots> = min d 86399"
    by (cases "d \<le> 86399") (simp_all add: t_def min_def word_le_def)
  finally show ?thesis .
qed

subsection \<open>The civil calendar round trip\<close>

text \<open>Day number of the first of March of year \<open>Y\<close> of a 400-year era, and the year recovered from a
  day number: the leap days are first taken out.\<close>

definition year_start :: "int \<Rightarrow> int" where
  "year_start Y = 365 * Y + Y div 4 - Y div 100"

definition less_leap :: "int \<Rightarrow> int" where
  "less_leap doe = doe - doe div 1460 + doe div 36524 - doe div 146096"

lemma year_marks: "list_all (\<lambda>Y. 365 * Y \<le> less_leap (year_start Y) \<and>
    less_leap (year_start (Y + 1) - 1) \<le> 365 * Y + 364 \<and> year_start Y < year_start (Y + 1)) [0..398]"
  by code_simp

lemma year_mark_399: "less_leap (year_start 399) = 365 * 399" "less_leap 146096 = 365 * 399 + 364"
  "year_start 399 = 145731"
  by code_simp+

lemma less_leap_mono:
  assumes "0 \<le> a" "a \<le> b" "b \<le> 146096"
  shows "less_leap a \<le> less_leap b"
proof -
  have step: "less_leap d \<le> less_leap (d + 1)" if "0 \<le> d" "d < 146096" for d
  proof -
    have "(d + 1) div 1460 \<le> (d + 1460) div 1460" by (rule zdiv_mono1) simp_all
    also have "\<dots> = d div 1460 + 1" by simp
    finally have q: "(d + 1) div 1460 \<le> d div 1460 + 1" .
    have c: "d div 36524 \<le> (d + 1) div 36524" by (rule zdiv_mono1) simp_all
    show ?thesis
    proof (cases "d < 146095")
      case True
      then have "(d + 1) div 146096 = 0" "d div 146096 = 0" using that by (auto intro: div_pos_pos_trivial)
      with q c show ?thesis unfolding less_leap_def by linarith
    next
      case False
      with that have "d = 146095" by simp
      then show ?thesis by (simp add: less_leap_def)
    qed
  qed
  from assms(2,1,3) show ?thesis
  proof (induction b rule: int_ge_induct)
    case (step b)
    with \<open>\<And>d. _ \<Longrightarrow> _ \<Longrightarrow> less_leap d \<le> less_leap (d + 1)\<close> [of b] show ?case by simp
  qed simp
qed

text \<open>Every day of an era falls in exactly one year.\<close>

lemma year_exists:
  assumes "0 \<le> doe" "doe \<le> 146096"
  obtains Y where "0 \<le> Y" "Y \<le> 399" "year_start Y \<le> doe"
    "Y < 399 \<Longrightarrow> doe \<le> year_start (Y + 1) - 1"
proof -
  have ex: "\<exists>Y. 0 \<le> Y \<and> Y \<le> int n \<and> year_start Y \<le> doe \<and> (Y < int n \<longrightarrow> doe \<le> year_start (Y + 1) - 1)"
    if "n \<le> 399" for n
    using that
  proof (induction n)
    case 0
    show ?case using assms by (intro exI [of _ 0]) (simp add: year_start_def)
  next
    case (Suc n)
    then obtain Y where Y: "0 \<le> Y" "Y \<le> int n" "year_start Y \<le> doe"
      "Y < int n \<longrightarrow> doe \<le> year_start (Y + 1) - 1" by auto
    show ?case
    proof (cases "Y = int n \<and> year_start (int n + 1) \<le> doe")
      case True
      then show ?thesis by (intro exI [of _ "int n + 1"]) simp
    next
      case False
      with Y show ?thesis by (intro exI [of _ Y]) auto
    qed
  qed
  from ex [of 399] that show ?thesis by auto
qed

lemma year_recovered:
  assumes "0 \<le> doe" "doe \<le> 146096"
  defines "Y \<equiv> less_leap doe div 365"
  shows "0 \<le> Y" "Y \<le> 399" "year_start Y \<le> doe" "doe - year_start Y \<le> 365"
proof -
  obtain Z where Z: "0 \<le> Z" "Z \<le> 399" "year_start Z \<le> doe"
    "Z < 399 \<Longrightarrow> doe \<le> year_start (Z + 1) - 1"
    using year_exists [OF assms(1,2)] by blast
  have z0: "0 \<le> year_start Z" using Z(1,2) by (simp add: year_start_def)
  have marks: "365 * Z \<le> less_leap (year_start Z)" "Z < 399 \<Longrightarrow> less_leap (year_start (Z + 1) - 1) \<le> 365 * Z + 364"
    using Z(1,2) year_marks year_mark_399 by (cases "Z = 399"; auto simp: list_all_iff)+
  have lo: "365 * Z \<le> less_leap doe"
    using marks(1) less_leap_mono [OF z0 Z(3) assms(2)] by linarith
  have hi: "less_leap doe \<le> 365 * Z + 364"
  proof (cases "Z = 399")
    case True
    then show ?thesis using less_leap_mono [OF assms(1,2)] year_mark_399 by simp
  next
    case False
    with Z have lt: "Z < 399" "doe \<le> year_start (Z + 1) - 1" by simp_all
    have "year_start (Z + 1) - 1 \<le> 146096" using lt(1) Z(1) by (simp add: year_start_def)
    with less_leap_mono [OF assms(1) lt(2)] marks(2) [OF lt(1)] show ?thesis by linarith
  qed
  from lo hi have Y: "Y = Z" unfolding Y_def
    by (intro int_div_pos_eq [where r = "less_leap doe - 365 * Z"]) auto
  have len: "year_start (Z + 1) - year_start Z \<le> 366"
  proof -
    have "(Z + 1) div 4 \<le> (Z + 4) div 4" "Z div 100 \<le> (Z + 1) div 100"
      by (rule zdiv_mono1; simp)+
    then show ?thesis by (simp add: year_start_def)
  qed
  show "0 \<le> Y" "Y \<le> 399" "year_start Y \<le> doe" using Y Z by simp_all
  show "doe - year_start Y \<le> 365"
  proof (cases "Z = 399")
    case True
    then show ?thesis using assms(2) year_mark_399 Y by simp
  next
    case False
    then show ?thesis using Z(2,4) len Y by simp
  qed
qed

lemma tdiv_era: "0 < k \<Longrightarrow> c = k - 1 \<Longrightarrow> tdiv (if 0 \<le> z then z else z - c) k = z div k"
proof (cases "0 \<le> z")
  case False
  assume "0 < k" and c: "c = k - 1"
  have "- ((- (z - (k - 1))) div k) = z div k"
  proof -
    have "- (z - (k - 1)) = (- z - 1) + k" by simp
    moreover have "((- z - 1) + k) div k = (- z - 1) div k + 1" using \<open>0 < k\<close> by (simp only: div_add_self2)
    ultimately have "(- (z - (k - 1))) div k = (- z - 1) div k + 1" by (simp only:)
    also have "(- z - 1) div k = - (z div k) - 1"
    proof -
      define q where "q = z div k"
      define r where "r = z mod k"
      have z: "z = k * q + r" by (simp add: q_def r_def)
      have "0 \<le> r" "r < k" using \<open>0 < k\<close> by (simp_all add: r_def)
      then have "(- z - 1) div k = - q - 1"
        by (intro int_div_pos_eq [where r = "k - 1 - r"]) (simp_all add: z algebra_simps)
      then show ?thesis by (simp add: q_def)
    qed
    finally show ?thesis by simp
  qed
  with False show ?thesis using \<open>0 < k\<close> by (simp add: tdiv_def c)
qed simp

lemma daysToCivil_parts:
  assumes "daysToCivil days = (year, month, day)"
  obtains era yoe doy where
    "days + 719468 = era * 146097 + (year_start yoe + doy)" "0 \<le> yoe" "yoe \<le> 399" "0 \<le> doy" "doy \<le> 365"
    "year - of_bool (month \<le> 2) = yoe + era * 400" "doy_of month day = doy"
    "1 \<le> month" "month \<le> 12" "1 \<le> day" "day \<le> 31"
proof -
  define z where "z = days + 719468"
  define era where "era = z div 146097"
  define doe where "doe = z - era * 146097"
  have doe: "doe = z mod 146097" by (simp add: doe_def era_def minus_div_mult_eq_mod)
  have bnd: "0 \<le> doe" "doe \<le> 146096" using pos_mod_bound [of 146097 z] by (simp_all add: doe)
  define yoe where "yoe = less_leap doe div 365"
  note Y = year_recovered [OF bnd, folded yoe_def]
  define doy where "doy = doe - year_start yoe"
  define mp where "mp = (5 * doy + 2) div 153"
  have d: "0 \<le> doy" "doy \<le> 365" using Y by (simp_all add: doy_def)
  then have mp: "0 \<le> mp" "mp \<le> 11"
    using zdiv_mono1 [of "5 * doy + 2" 1827 153] by (simp_all add: mp_def)
  have era: "tdiv (if 0 \<le> z then z else z - 146096) 146097 = era"
    unfolding era_def by (rule tdiv_era) simp_all
  have res: "month = (if mp < 10 then mp + 3 else mp - 9)" "day = doy - (153 * mp + 2) div 5 + 1"
    "year = yoe + era * 400 + of_bool (month \<le> 2)"
    using assms unfolding daysToCivil_def z_def [symmetric] Let_def era doe_def [symmetric]
      less_leap_def [symmetric] yoe_def [symmetric] year_start_def [symmetric]
      doy_def [symmetric] mp_def [symmetric] by auto
  have "doy_of month day = doy"
    using mp res by (simp add: doy_of_def algebra_simps)
  moreover have "1 \<le> month" "month \<le> 12" using mp res by auto
  moreover have "1 \<le> day" "day \<le> 31"
  proof -
    have lo: "153 * mp \<le> 5 * doy + 2" by (simp add: mp_def)
    have hi: "5 * doy + 2 < 153 * mp + 153"
      using pos_mod_bound [of 153 "5 * doy + 2"] div_mult_mod_eq [of "5 * doy + 2" 153]
      by (simp add: mp_def)
    have "5 * ((153 * mp + 2) div 5) \<le> 153 * mp + 2" "153 * mp + 2 < 5 * ((153 * mp + 2) div 5) + 5"
      using pos_mod_bound [of 5 "153 * mp + 2"] div_mult_mod_eq [of "153 * mp + 2" 5] by simp_all
    with lo hi res(2) show "1 \<le> day" "day \<le> 31" by linarith+
  qed
  moreover have "days + 719468 = era * 146097 + (year_start yoe + doy)"
    by (simp add: doy_def doe_def z_def)
  ultimately show ?thesis using that [of era yoe doy] Y d res(3) by simp
qed

text \<open>The decoder's and the encoder's date arithmetic invert each other on every day.\<close>

lemma days_from_daysToCivil:
  assumes "daysToCivil days = (year, month, day)"
  shows "days_from_civil year month day = days"
proof -
  obtain era yoe doy where p:
    "days + 719468 = era * 146097 + (year_start yoe + doy)" "0 \<le> yoe" "yoe \<le> 399"
    "year - of_bool (month \<le> 2) = yoe + era * 400" "doy_of month day = doy"
    using daysToCivil_parts [OF assms] by metis
  have "tdiv (if 0 \<le> yoe + era * 400 then yoe + era * 400 else yoe + era * 400 - 399) 400 =
      (yoe + era * 400) div 400"
    by (rule tdiv_era) simp_all
  also have "\<dots> = era" using p(2,3) by simp
  finally have era: "tdiv (if 0 \<le> yoe + era * 400 then yoe + era * 400 else yoe + era * 400 - 399) 400 = era" .
  show ?thesis
    unfolding days_from_civil_def p(4) Let_def era p(5) using p(1) by (simp add: year_start_def)
qed

subsection \<open>The MJD field\<close>

text \<open>EN 300 468 Annex C as the decoder computes it: year, month, day.\<close>

definition annexC :: "int \<Rightarrow> int \<times> int \<times> int" where
  "annexC mjd =
     (let yp = tdiv (100 * mjd - 1507820) 36525;
          yd = tdiv (1461 * yp) 4;
          mp = tdiv (10000 * mjd - 149561000 - 10000 * yd) 306001;
          day = mjd - 14956 - yd - tdiv (306001 * mp) 10000;
          k = of_bool (mp = 14 \<or> mp = 15)
      in (1900 + yp + k, mp - 1 - k * 12, day))"

definition decodeMjdUtc :: "bytes \<Rightarrow> u64" where
  "decodeMjdUtc raw =
     (let mjd = be16 (raw ! 0) (raw ! 1) in
      if mjd = 0xFFFF then 0
      else
        let (year, month, day) = annexC (uint mjd) in
        if month < 1 \<or> month > 12 \<or> day < 1 \<or> day > 31 then 0
        else
          let hour = bcd (raw ! 2); min = bcd (raw ! 3); sec = bcd (raw ! 4) in
          if hour > 23 \<or> min > 59 \<or> sec > 60 then 0
          else word_of_int (days_from_civil year month day * 86400 + hour * 3600 + min * 60 + sec))"

definition encodeMjdUtc :: "u64 \<Rightarrow> bytes" where
  "encodeMjdUtc unix_time =
     (if unix_time = 0 then [0, 0, 0, 0, 0]
      else
        let days = uint unix_time div 86400;
            tod = uint unix_time mod 86400;
            (year, month, day) = daysToCivil days;
            mjd = (word_of_int (civilToMjd year month day) :: u32)
        in [ucast (drop_bit 8 mjd AND 0xFF), ucast (mjd AND 0xFF),
            toBcd (tod div 3600), toBcd (tod div 60 mod 60), toBcd (tod mod 60)])"

lemma length_encodeMjdUtc [simp]: "length (encodeMjdUtc t) = 5"
  by (simp add: encodeMjdUtc_def Let_def split: prod.splits)

lemma length_encodeBcdDuration [simp]: "length (encodeBcdDuration d) = 3"
  by (simp add: encodeBcdDuration_def Let_def)

lemma month_offsets: "list_all (\<lambda>mp. (306001 * mp) div 10000 = 122 + (153 * (mp - 4) + 2) div 5) [4..15]"
  by code_simp

lemma month_offset: "4 \<le> (mp :: int) \<Longrightarrow> mp \<le> 15 \<Longrightarrow>
    (306001 * mp) div 10000 = 122 + (153 * (mp - 4) + 2) div 5"
  using month_offsets unfolding list_all_iff set_upto by (simp only: atLeastAtMost_iff)

lemma div_bounds: "0 < k \<Longrightarrow> k * (a div k) \<le> a \<and> a < k * (a div k) + (k :: int)"
  using pos_mod_bound [of k a] pos_mod_sign [of k a] mult_div_mod_eq [of k a] by linarith

lemma annexC_days:
  assumes n: "0 \<le> n" "n \<le> 50455"
  shows "\<exists>year month day. annexC (n + 15079) = (year, month, day) \<and> 1 \<le> month \<and> month \<le> 12 \<and>
    1 \<le> day \<and> day \<le> 31 \<and> days_from_civil year month day = n - 25508"
proof -
  define yp where "yp = (100 * n + 80) div 36525"
  define yd where "yd = (1461 * yp) div 4"
  define doy where "doy = n - yd"
  define mp where "mp = (10000 * doy + 1229000) div 306001"
  define mo where "mo = (306001 * mp) div 10000"
  note yb = div_bounds [of 36525 "100 * n + 80", folded yp_def]
  note db = div_bounds [of 4 "1461 * yp", folded yd_def]
  note mb = div_bounds [of 306001 "10000 * doy + 1229000", folded mp_def]
  note ob = div_bounds [of 10000 "306001 * mp", folded mo_def]
  have yp: "0 \<le> yp" "yp \<le> 138" using yb n by linarith+
  have doy: "0 \<le> doy" "doy \<le> 365" unfolding doy_def using yb db by linarith+
  have mp: "4 \<le> mp" "mp \<le> 15" using mb doy by linarith+
  have mo: "mo = 122 + (153 * (mp - 4) + 2) div 5"
    unfolding mo_def by (rule month_offset [OF mp])
  have num: "100 * (n + 15079) - 1507820 = 100 * n + 80" "10000 * (n + 15079) - 149561000 - 10000 * yd = 10000 * doy + 1229000"
    by (simp_all add: doy_def)
  have "annexC (n + 15079) = (1900 + yp + of_bool (mp = 14 \<or> mp = 15), mp - 1 - of_bool (mp = 14 \<or> mp = 15) * 12,
      doy + 123 - mo)" (is "_ = (?year, ?month, ?day)")
  proof -
    have a: "tdiv (100 * (n + 15079) - 1507820) 36525 = yp" using n by (simp add: num yp_def)
    have b: "tdiv (1461 * yp) 4 = yd" using yp by (simp add: yd_def)
    have c: "tdiv (10000 * (n + 15079) - 149561000 - 10000 * yd) 306001 = mp"
      unfolding num using doy by (simp add: mp_def)
    have d: "tdiv (306001 * mp) 10000 = mo" using mp by (simp add: mo_def)
    show ?thesis unfolding annexC_def Let_def a b c d by (simp add: doy_def)
  qed
  moreover have "1 \<le> ?month" "?month \<le> 12" using mp by auto
  moreover have "1 \<le> ?day" "?day \<le> 31" using mb ob by linarith+
  moreover have "days_from_civil ?year ?month ?day = n - 25508"
  proof -
    have y: "?year - of_bool (?month \<le> 2) = 1900 + yp" using mp by auto
    have "doy_of ?month ?day = doy"
      using mp mo by (auto simp: doy_of_def of_bool_def algebra_simps)
    then have d: "days_from_civil ?year ?month ?day =
        (let e = (1900 + yp) div 400; yoe = 1900 + yp - e * 400
         in e * 146097 + (yoe * 365 + yoe div 4 - yoe div 100 + doy) - 719468)"
      unfolding days_from_civil_def y Let_def using yp by simp
    define a where "a = yp div 4"
    define r where "r = yp mod 4"
    have q: "yp = 4 * a + r" "0 \<le> r" "r < 4" by (simp_all add: a_def r_def)
    have yd: "yd = 365 * yp + a"
      unfolding yd_def using q by (intro int_div_pos_eq [where r = "r"]; simp)
    show ?thesis
    proof (cases "yp < 100")
      case True
      have e: "(1900 + yp) div 400 = 4"
        using yp True by (intro int_div_pos_eq [where r = "300 + yp"]; simp)
      have f: "(300 + yp) div 4 = 75 + a"
        using q by (intro int_div_pos_eq [where r = "r"]; simp)
      have g: "(300 + yp) div 100 = 3"
        using yp True by (intro int_div_pos_eq [where r = yp]; simp)
      have h: "1900 + yp - 4 * 400 = 300 + yp" by simp
      show ?thesis unfolding d unfolding Let_def e h f g unfolding doy_def yd by simp
    next
      case False
      have e: "(1900 + yp) div 400 = 5"
        using yp False by (intro int_div_pos_eq [where r = "yp - 100"]; simp)
      have f: "(yp - 100) div 4 = a - 25"
        using q by (intro int_div_pos_eq [where r = "r"]; simp)
      have g: "(yp - 100) div 100 = 0"
        using yp False by (intro int_div_pos_eq [where r = "yp - 100"]; simp)
      have h: "1900 + yp - 5 * 400 = yp - 100" by simp
      show ?thesis unfolding d unfolding Let_def e h f g unfolding doy_def yd by simp
    qed
  qed
  ultimately show ?thesis by blast
qed

lemma be16_low_half: "be16 (ucast (drop_bit 8 (w :: u32) AND 0xFF)) (ucast (w AND 0xFF)) = ucast w"
  unfolding masks by (rule bit_word_eqI) (auto simp: be16_def bit_simps)

lemma ucast_word_of_int_u16: "(ucast (word_of_int x :: u32) :: u16) = word_of_int x"
  by (rule bit_word_eqI) (auto simp: bit_simps)

lemma MjdUtc_day:
  assumes "0 \<le> days" "days \<le> 24947" "daysToCivil days = (year, month, day)"
  shows "\<exists>y m d. annexC (civilToMjd year month day) = (y, m, d) \<and> 1 \<le> m \<and> m \<le> 12 \<and> 1 \<le> d \<and> d \<le> 31 \<and>
    days_from_civil y m d = days" "civilToMjd year month day = days + 40587"
proof -
  show mjd: "civilToMjd year month day = days + 40587"
    unfolding civilToMjd_def days_from_daysToCivil [OF assms(3)] ..
  have "0 \<le> days + 25508" "days + 25508 \<le> 50455" using assms by simp_all
  from annexC_days [OF this] show "\<exists>y m d. annexC (civilToMjd year month day) = (y, m, d) \<and> 1 \<le> m \<and>
    m \<le> 12 \<and> 1 \<le> d \<and> d \<le> 31 \<and> days_from_civil y m d = days"
    unfolding mjd by (simp add: add.commute)
qed

lemma decode_encode_Mjd:
  assumes "uint t div 86400 \<le> 24947"
  shows "decodeMjdUtc (encodeMjdUtc t) = t"
proof (cases "t = 0")
  case True
  then show ?thesis by (simp add: encodeMjdUtc_def) code_simp
next
  case False
  define days where "days = uint t div 86400"
  define tod where "tod = uint t mod 86400"
  obtain year month day where civ: "daysToCivil days = (year, month, day)" by (metis prod_cases3)
  have days: "0 \<le> days" "days \<le> 24947" using assms by (simp_all add: days_def pos_imp_zdiv_nonneg_iff)
  obtain y m d where ymd: "annexC (days + 40587) = (y, m, d)" "1 \<le> m" "m \<le> 12" "1 \<le> d" "d \<le> 31"
    "days_from_civil y m d = days"
    using MjdUtc_day [OF days civ] by auto
  have tod: "0 \<le> tod" "tod \<le> 86399"
    using pos_mod_bound [of 86400 "uint t"] by (simp_all add: tod_def)
  have h: "0 \<le> tod div 3600" "tod div 3600 \<le> 23" using tod by simp_all
  have ms: "tod div 60 mod 60 \<le> 59" "tod mod 60 \<le> 59"
    using pos_mod_bound [of 60 "tod div 60"] pos_mod_bound [of 60 tod] by linarith+
  let ?w = "word_of_int (days + 40587) :: u32"
  have enc: "encodeMjdUtc t = [ucast (drop_bit 8 ?w AND 0xFF), ucast (?w AND 0xFF),
      toBcd (tod div 3600), toBcd (tod div 60 mod 60), toBcd (tod mod 60)]"
    using False civ MjdUtc_day(2) [OF days civ]
    by (simp add: encodeMjdUtc_def Let_def days_def [symmetric] tod_def [symmetric])
  have mjd: "be16 (encodeMjdUtc t ! 0) (encodeMjdUtc t ! 1) = word_of_int (days + 40587)"
    by (simp only: enc nth_Cons_0 nth_Cons_Suc One_nat_def be16_low_half ucast_word_of_int_u16)
  have uint_mjd: "uint (word_of_int (days + 40587) :: u16) = days + 40587"
    by (simp only: uint_word_of_int_eq) (use days in \<open>simp add: take_bit_int_eq_self\<close>)
  have ne: "(word_of_int (days + 40587) :: u16) \<noteq> 0xFFFF"
  proof
    assume "(word_of_int (days + 40587) :: u16) = 0xFFFF"
    then have "days + 40587 = uint (0xFFFF :: u16)" using uint_mjd by simp
    then show False using days by simp
  qed
  have b: "bcd (encodeMjdUtc t ! 2) = tod div 3600" "bcd (encodeMjdUtc t ! 3) = tod div 60 mod 60"
    "bcd (encodeMjdUtc t ! 4) = tod mod 60"
    using h ms tod by (simp_all add: enc bcd_toBcd)
  have "decodeMjdUtc (encodeMjdUtc t) =
      word_of_int (days * 86400 + (tod div 3600 * 3600 + tod div 60 mod 60 * 60 + tod mod 60))"
    unfolding decodeMjdUtc_def mjd Let_def uint_mjd ymd(1) b
    using ne ymd h ms by (simp add: algebra_simps)
  also have "\<dots> = word_of_int (days * 86400 + tod)" by (simp only: hms_split [OF tod(1)])
  also have "\<dots> = t" by (simp add: days_def tod_def)
  finally show ?thesis .
qed

section \<open>Properties\<close>

text \<open>Decoding an encoded start time gives it back, for every second from 1970 to the end of
  2038-04-21.\<close>

lemma mjd_time_roundtrip:
  assumes "uint t div 86400 \<le> 24947"
  shows "decodeMjdUtc (encodeMjdUtc t) = t"
  by (rule decode_encode_Mjd [OF assms])

end
