(* ===== verification/DvbText.thy ===== *)
theory DvbText
  imports Descriptors
begin

text \<open>
  DVB strings: \<open>utf8FromIso8859\<close> and \<open>decodeDvbText\<close> of
  \<^verbatim>\<open>src/gateway/ts/PsiParser.cpp\<close>, the walk over a service's descriptors in \<open>parseSdt\<close>, and
  \<open>makeServiceDescriptor\<close> of \<^verbatim>\<open>src/gateway/ts/PsiBuilder.cpp\<close>. A \<open>std::string\<close> is its
  list of bytes.
\<close>

definition utf8_encode :: "u32 \<Rightarrow> bytes" where
  "utf8_encode cp =
     (if cp < 0x80 then [ucast cp]
      else if cp < 0x800 then [ucast (0xC0 OR drop_bit 6 cp), ucast (0x80 OR (cp AND 0x3F))]
      else [ucast (0xE0 OR drop_bit 12 cp), ucast (0x80 OR (drop_bit 6 cp AND 0x3F)),
            ucast (0x80 OR (cp AND 0x3F))])"

definition iso8859_cp :: "nat \<Rightarrow> u8 \<Rightarrow> u32" where
  "iso8859_cp part b =
     (if part = 5 then
        if 0xA1 \<le> b \<and> b \<le> 0xAC then 0x0400 + (ucast b - 0xA0)
        else if b = 0xAD then 0x00AD
        else if 0xAE \<le> b \<and> b \<le> 0xEF then 0x0400 + (ucast b - 0xA0)
        else if 0xF0 \<le> b \<and> b \<le> 0xFC then 0x0450 + (ucast b - 0xF0)
        else ucast b
      else ucast b)"

fun utf8FromIso8859 :: "bytes \<Rightarrow> nat \<Rightarrow> bytes" where
  "utf8FromIso8859 [] part = []"
| "utf8FromIso8859 (b # bs) part =
     (if b = 0x86 \<or> b = 0x87 then utf8FromIso8859 bs part
      else if b < 0x80 then
        (if 0x20 \<le> b \<or> b = 0x0A then [b] else []) @ utf8FromIso8859 bs part
      else utf8_encode (iso8859_cp part b) @ utf8FromIso8859 bs part)"

fun utf8FromUtf16 :: "bytes \<Rightarrow> bytes" where
  "utf8FromUtf16 (h # l # rest) =
     (let cp = push_bit 8 (ucast h) OR ucast l :: u32 in
      if cp = 0x0086 \<or> cp = 0x0087 then utf8FromUtf16 rest
      else utf8_encode cp @ utf8FromUtf16 rest)"
| "utf8FromUtf16 _ = []"

definition decodeDvbText :: "bytes \<Rightarrow> bytes" where
  "decodeDvbText raw =
     (if raw = [] then []
      else let first = raw ! 0 in
        if 0x20 \<le> first \<and> first \<noteq> 0x86 \<and> first \<noteq> 0x87 then utf8FromIso8859 raw 1
        else if 0x01 \<le> first \<and> first \<le> 0x0F then utf8FromIso8859 (drop 1 raw) (unat first)
        else if first = 0x10 \<and> 3 \<le> length raw \<and> raw ! 1 = 0x00
          then utf8FromIso8859 (drop 3 raw) (unat (raw ! 2))
        else if first = 0x11 then utf8FromUtf16 (drop 1 raw)
        else if first = 0x15 then drop 1 raw
        else utf8FromIso8859 (drop 1 raw) 1)"

subsection \<open>The output is UTF-8\<close>

definition utf8_tail :: "u8 \<Rightarrow> bool" where
  "utf8_tail b \<longleftrightarrow> 0x80 \<le> b \<and> b \<le> 0xBF"

text \<open>Well-formed UTF-8 over the Basic Multilingual Plane without its surrogates.\<close>

fun utf8_ok :: "bytes \<Rightarrow> bool" where
  "utf8_ok [] = True"
| "utf8_ok [b] = (b < 0x80)"
| "utf8_ok (b # c # rest) =
     (if b < 0x80 then utf8_ok (c # rest)
      else if b < 0xC2 then False
      else if b < 0xE0 then utf8_tail c \<and> utf8_ok rest
      else if b < 0xF0 then
        (case rest of [] \<Rightarrow> False
         | d # rest2 \<Rightarrow> utf8_tail c \<and> utf8_tail d \<and> (b = 0xE0 \<longrightarrow> 0xA0 \<le> c) \<and> (b = 0xED \<longrightarrow> c \<le> 0x9F) \<and>
             utf8_ok rest2)
      else False)"

definition surrogate :: "u32 \<Rightarrow> bool" where
  "surrogate cp \<longleftrightarrow> 0xD800 \<le> cp \<and> cp \<le> 0xDFFF"

lemma utf8_ok_ascii: "b < 0x80 \<Longrightarrow> utf8_ok (b # bs) = utf8_ok bs"
  by (cases bs) simp_all

lemma utf8_encode_ascii: "cp < 0x80 \<Longrightarrow> utf8_ok (utf8_encode cp @ bs) = utf8_ok bs"
proof -
  assume "cp < 0x80"
  then have "unat (ucast cp :: u8) < 0x80"
    by (simp add: unsigned_ucast_eq word_less_nat_alt take_bit_nat_eq_self)
  with \<open>cp < 0x80\<close> show ?thesis by (simp add: utf8_encode_def utf8_ok_ascii word_less_nat_alt)
qed

lemma take_bit_small: "unat (w :: 'a::len word) < 2 ^ n \<Longrightarrow> take_bit n w = w"
  by (rule word_unat_eq_iff [THEN iffD2]) (simp add: unsigned_take_bit_eq take_bit_nat_eq_self)

lemma OR_plus_low:
  fixes k w :: u32
  assumes "unat w < 2 ^ n" "take_bit n k = 0"
  shows "k OR w = k + w"
proof -
  have "k AND w = k AND take_bit n w" by (simp only: take_bit_small [OF assms(1)])
  also have "\<dots> = take_bit n k AND w" by (rule bit_word_eqI) (auto simp: bit_simps)
  finally have "k AND w = 0" using assms(2) by simp
  then show ?thesis using word_plus_and_or [of k w] by simp
qed

text \<open>A byte of the encoder: a marker over a field of \<open>n\<close> bits.\<close>

lemma unat_marked:
  fixes w k :: u32
  assumes "unat w < 2 ^ n" "take_bit n k = 0" "unat k + 2 ^ n \<le> 256"
  shows "unat (ucast (k OR w) :: u8) = unat k + unat w"
proof -
  have "unat (k + w) = unat k + unat w"
    using assms(1,3) by (simp add: unat_word_ariths)
  then show ?thesis
    unfolding OR_plus_low [OF assms(1,2)] using assms(1,3)
    by (simp add: unsigned_ucast_eq take_bit_nat_eq_self)
qed

lemma unat_low6: "unat (cp AND 0x3F :: u32) = unat cp mod 64"
  unfolding masks unsigned_take_bit_eq by (simp add: take_bit_eq_mod)

lemma unat_field6: "unat (ucast (0x80 OR (cp AND 0x3F :: u32)) :: u8) = 0x80 + unat cp mod 64"
  using unat_marked [of "cp AND 0x3F" 6 "0x80"] by (simp add: unat_low6)

lemma unat_drop: "unat (drop_bit n cp :: u32) = unat cp div 2 ^ n"
  unfolding unat_drop_bit_eq by (simp add: drop_bit_eq_div)

lemma utf8_encode_two: "0x80 \<le> cp \<Longrightarrow> cp < 0x800 \<Longrightarrow> utf8_ok (utf8_encode cp @ bs) = utf8_ok bs"
proof -
  assume r: "0x80 \<le> cp" "cp < 0x800"
  then have n: "0x80 \<le> unat cp" "unat cp < 0x800" by (simp_all add: word_le_nat_alt word_less_nat_alt)
  have "unat (ucast (0xC0 OR drop_bit 6 cp) :: u8) = 0xC0 + unat cp div 64"
    using unat_marked [of "drop_bit 6 cp" 5 "0xC0"] n by (simp add: unat_drop)
  moreover have "2 \<le> unat cp div 64" "unat cp div 64 < 32" using n by simp_all
  moreover have "unat cp mod 64 \<le> 63" using mod_less_divisor [of 64 "unat cp"] by linarith
  ultimately show ?thesis using r
    by (simp add: utf8_encode_def utf8_tail_def word_le_nat_alt word_less_nat_alt unat_field6)
qed

lemma utf8_encode_three:
  assumes "0x800 \<le> cp" "cp < 0x10000" "\<not> surrogate cp"
  shows "utf8_ok (utf8_encode cp @ bs) = utf8_ok bs"
proof -
  have n: "0x800 \<le> unat cp" "unat cp < 0x10000" "\<not> (0xD800 \<le> unat cp \<and> unat cp \<le> 0xDFFF)"
    using assms by (simp_all add: word_le_nat_alt word_less_nat_alt surrogate_def)
  define h where "h = unat cp div 4096"
  define m where "m = unat cp div 64 mod 64"
  have split: "unat cp = 4096 * h + 64 * m + unat cp mod 64" and m: "m \<le> 63" and l: "unat cp mod 64 \<le> 63"
  proof -
    have "unat cp div 64 div 64 = h" by (simp add: h_def div_mult2_eq [symmetric])
    moreover have "unat cp div 64 = 64 * (unat cp div 64 div 64) + m"
      unfolding m_def by (rule mult_div_mod_eq [symmetric])
    moreover have "unat cp = 64 * (unat cp div 64) + unat cp mod 64"
      by (rule mult_div_mod_eq [symmetric])
    ultimately show "unat cp = 4096 * h + 64 * m + unat cp mod 64" by linarith
    show "m \<le> 63" using mod_less_divisor [of 64 "unat cp div 64"] unfolding m_def by linarith
    show "unat cp mod 64 \<le> 63" using mod_less_divisor [of 64 "unat cp"] by linarith
  qed
  have h: "h < 16" using n by (simp add: h_def)
  have b0: "unat (ucast (0xE0 OR drop_bit 12 cp) :: u8) = 0xE0 + h"
    using unat_marked [of "drop_bit 12 cp" 4 "0xE0"] h by (simp add: unat_drop h_def)
  have "unat (drop_bit 6 cp AND 0x3F) = m" by (simp add: unat_low6 unat_drop m_def)
  then have b1: "unat (ucast (0x80 OR (drop_bit 6 cp AND 0x3F)) :: u8) = 0x80 + m"
    using unat_marked [of "drop_bit 6 cp AND 0x3F" 6 "0x80"] m by simp
  have first: "0xE0 + h = 0xE0 \<longrightarrow> 0xA0 \<le> 0x80 + m" "0xE0 + h = 0xED \<longrightarrow> 0x80 + m \<le> 0x9F"
  proof -
    show "0xE0 + h = 0xE0 \<longrightarrow> 0xA0 \<le> 0x80 + m" using split n(1) l by auto
    show "0xE0 + h = 0xED \<longrightarrow> 0x80 + m \<le> 0x9F"
    proof (intro impI, rule ccontr)
      assume "0xE0 + h = 0xED" "\<not> 0x80 + m \<le> 0x9F"
      then have "h = 13" "32 \<le> m" by simp_all
      with split m l have "0xD800 \<le> unat cp" "unat cp \<le> 0xDFFF" by linarith+
      with n(3) show False by blast
    qed
  qed
  have md: "unat (drop_bit 6 cp) mod 64 = m" by (simp add: unat_drop m_def)
  have ge: "\<not> cp < 0x80" "\<not> cp < 0x800" using n by (simp_all add: word_less_nat_alt)
  show ?thesis
    using first h m l ge
    by (simp add: utf8_encode_def utf8_tail_def word_le_nat_alt word_less_nat_alt unat_field6 b0 b1
        md word_unat_eq_iff)
qed

lemma utf8_encode_ok:
  assumes "cp < 0x10000" "\<not> surrogate cp"
  shows "utf8_ok (utf8_encode cp @ bs) = utf8_ok bs"
proof -
  consider "cp < 0x80" | "0x80 \<le> cp" "cp < 0x800" | "0x800 \<le> cp" by force
  then show ?thesis
    by cases (simp_all add: utf8_encode_ascii utf8_encode_two utf8_encode_three assms)
qed

lemma iso8859_cp_bounds:
  assumes "0x80 \<le> b"
  shows "iso8859_cp part b < 0x10000" "\<not> surrogate (iso8859_cp part b)"
proof -
  have u: "unat (ucast b :: u32) = unat b" by (rule unat_ucast_up) simp
  have "unat b \<le> 255" by (rule unat_u8_le)
  then have "unat (iso8859_cp part b) < 0x800"
    by (auto simp: iso8859_cp_def u unat_word_ariths unat_sub_if' word_le_nat_alt)
  then show "iso8859_cp part b < 0x10000" "\<not> surrogate (iso8859_cp part b)"
    by (simp_all add: word_less_nat_alt word_le_nat_alt surrogate_def)
qed

lemma utf8FromIso8859_ok: "utf8_ok (utf8FromIso8859 bs part)"
proof (induction bs)
  case (Cons b bs)
  then show ?case
    using utf8_encode_ok [OF iso8859_cp_bounds [of b part]]
    by (auto simp: utf8_ok_ascii not_less)
qed simp

fun utf16_units :: "bytes \<Rightarrow> u32 list" where
  "utf16_units (h # l # rest) = (push_bit 8 (ucast h) OR ucast l) # utf16_units rest"
| "utf16_units _ = []"

lemma utf16_unit_bound: "(push_bit 8 (ucast (h :: u8)) OR ucast (l :: u8) :: u32) < 0x10000"
proof -
  let ?w = "push_bit 8 (ucast h) OR ucast l :: u32"
  have "?w = take_bit 16 ?w"
    by (rule bit_word_eqI) (auto simp: bit_simps dest: bit_imp_le_length)
  then have "unat ?w = unat (take_bit 16 ?w)" by (rule arg_cong)
  also have "\<dots> = take_bit 16 (unat ?w)" by (rule unsigned_take_bit_eq)
  also have "\<dots> < 2 ^ 16" by (rule take_bit_nat_less_exp)
  finally show ?thesis by (simp add: word_less_nat_alt)
qed

lemma utf8FromUtf16_ok: "\<forall>cp \<in> set (utf16_units bs). \<not> surrogate cp \<Longrightarrow> utf8_ok (utf8FromUtf16 bs)"
  by (induction bs rule: utf8FromUtf16.induct) (auto simp: Let_def utf8_encode_ok utf16_unit_bound)

text \<open>Only the pass-through UTF-8 selector and unpaired UTF-16 units can leave invalid output.\<close>

lemma decodeDvbText_ok:
  assumes "raw \<noteq> [] \<Longrightarrow> raw ! 0 = 0x15 \<Longrightarrow> utf8_ok (drop 1 raw)"
    and "raw \<noteq> [] \<Longrightarrow> raw ! 0 = 0x11 \<Longrightarrow> \<forall>cp \<in> set (utf16_units (drop 1 raw)). \<not> surrogate cp"
  shows "utf8_ok (decodeDvbText raw)"
  using assms by (simp add: decodeDvbText_def Let_def utf8FromIso8859_ok utf8FromUtf16_ok)

subsection \<open>The service descriptor\<close>

definition needsSelector :: "bytes \<Rightarrow> bool" where
  "needsSelector s \<longleftrightarrow> list_ex (\<lambda>c. 0x80 \<le> c) s"

definition pushDvbString :: "bytes \<Rightarrow> bytes" where
  "pushDvbString s =
     (let sel = needsSelector s;
          len = min (length s + (if sel then 1 else 0)) 255;
          avail = min (len - (if sel then 1 else 0)) (length s)
      in of_nat len # (if sel then [0x15] else []) @ take avail s)"

definition makeServiceDescriptor :: "u8 \<Rightarrow> bytes \<Rightarrow> bytes \<Rightarrow> RawDescriptor" where
  "makeServiceDescriptor service_type provider_name service_name =
     \<lparr>tag = 0x48, body = service_type # pushDvbString provider_name @ pushDvbString service_name\<rparr>"

text \<open>The loop of \<open>parseSdt\<close> over a service's descriptors, with its \<open>continue\<close> and \<open>break\<close>:
  the provider name stays set when the name length that follows it does not fit.\<close>

fun service_names :: "RawDescriptor list \<Rightarrow> bytes \<times> bytes \<Rightarrow> bytes \<times> bytes" where
  "service_names [] names = names"
| "service_names (d # ds) (provider, service) =
     (if tag d = 0x48 \<and> 2 \<le> length (body d) then
        (let prov_len = unat (body d ! 1) in
         if 2 + prov_len + 1 > length (body d) then service_names ds (provider, service)
         else
           let provider' = decodeDvbText (take prov_len (drop 2 (body d)));
               name_len = unat (body d ! (2 + prov_len))
           in if 3 + prov_len + name_len > length (body d) then service_names ds (provider', service)
              else (provider', decodeDvbText (take name_len (drop (3 + prov_len) (body d)))))
      else service_names ds (provider, service))"

text \<open>The strings the builder can carry: printable ASCII, or any string over 0x7F with the UTF-8
  selector in front.\<close>

definition dvb_string :: "bytes \<Rightarrow> bool" where
  "dvb_string s \<longleftrightarrow> (if needsSelector s then length s \<le> 254
     else length s \<le> 255 \<and> list_all (\<lambda>c. 0x20 \<le> c) s)"

lemma iso8859_ascii: "list_all (\<lambda>c. 0x20 \<le> c \<and> c < 0x80) s \<Longrightarrow> utf8FromIso8859 s part = s"
  by (induction s) (auto simp: word_less_nat_alt)

definition dvb_field :: "bytes \<Rightarrow> bytes" where
  "dvb_field s = (if needsSelector s then [0x15] else []) @ s"

lemma pushDvbString_field:
  assumes "dvb_string s"
  shows "pushDvbString s = of_nat (length (dvb_field s)) # dvb_field s"
    "unat (of_nat (length (dvb_field s)) :: u8) = length (dvb_field s)"
proof -
  show "pushDvbString s = of_nat (length (dvb_field s)) # dvb_field s"
    using assms by (auto simp: pushDvbString_def dvb_string_def dvb_field_def Let_def split: if_splits)
  show "unat (of_nat (length (dvb_field s)) :: u8) = length (dvb_field s)"
    by (rule unat_of_nat_small) (use assms in \<open>auto simp: dvb_string_def dvb_field_def split: if_splits\<close>)
qed

lemma decode_dvb_field: "dvb_string s \<Longrightarrow> decodeDvbText (dvb_field s) = s"
proof (cases "needsSelector s")
  case True
  then show ?thesis by (simp add: dvb_field_def decodeDvbText_def)
next
  case False
  assume "dvb_string s"
  with False have "list_all (\<lambda>c. 0x20 \<le> c) s" by (simp add: dvb_string_def)
  with False have a: "list_all (\<lambda>c. 0x20 \<le> c \<and> c < 0x80) s"
    by (auto simp: needsSelector_def list_ex_iff list_all_iff not_le)
  show ?thesis
  proof (cases s)
    case Nil
    with False show ?thesis by (simp add: dvb_field_def decodeDvbText_def)
  next
    case (Cons c cs)
    with a have "0x20 \<le> c" "c \<noteq> 0x86" "c \<noteq> 0x87" by (auto simp: word_less_nat_alt)
    with Cons a False iso8859_ascii [OF a, of 1] show ?thesis
      by (simp add: dvb_field_def decodeDvbText_def)
  qed
qed

lemma service_names_make:
  assumes "dvb_string prov" "dvb_string name"
  shows "service_names (makeServiceDescriptor t prov name # ds) old = (prov, name)"
proof -
  obtain p0 n0 where old: "old = (p0, n0)" by (cases old)
  note p = pushDvbString_field [OF assms(1)] and n = pushDvbString_field [OF assms(2)]
  have skip: "drop (3 + length a) (x # y # a @ z # b) = b" for a b :: bytes and x y z
    by (simp add: numeral_3_eq_3)
  then show ?thesis
    by (simp only: old makeServiceDescriptor_def p n) (simp add: p n skip nth_append Let_def decode_dvb_field assms)
qed

section \<open>Properties\<close>

text \<open>Decoding a DVB string gives well-formed UTF-8, except that bytes declared to be UTF-8 are passed
  through unchecked and that UTF-16 surrogates are encoded as they stand.\<close>

lemma dvb_text_is_utf8:
  assumes "raw \<noteq> [] \<Longrightarrow> raw ! 0 = 0x15 \<Longrightarrow> utf8_ok (drop 1 raw)"
    "raw \<noteq> [] \<Longrightarrow> raw ! 0 = 0x11 \<Longrightarrow> \<forall>cp \<in> set (utf16_units (drop 1 raw)). \<not> surrogate cp"
  shows "utf8_ok (decodeDvbText raw)"
  by (rule decodeDvbText_ok) (use assms in auto)

text \<open>The provider and service names put into a service descriptor are the names read back from it,
  non-ASCII text included.\<close>

lemma service_descriptor_names:
  assumes "dvb_string prov" "dvb_string name"
  shows "service_names (makeServiceDescriptor t prov name # ds) old = (prov, name)"
  by (rule service_names_make [OF assms])

end
