(* ===== verification/PsiSection.thy ===== *)
theory PsiSection
  imports Crc32 Descriptors TsPacket
begin

text \<open>
  The section frame shared by every PSI table: \<open>sectionLooksValid\<close> and
  \<open>sectionLengthFromHeader\<close> of \<^verbatim>\<open>src/gateway/ts/PsiParser.cpp\<close>,
  \<open>writeShortSyntaxHeader\<close>, \<open>patchSectionLength\<close> and \<open>appendCrc32\<close> of
  \<^verbatim>\<open>src/gateway/ts/PsiBuilder.cpp\<close>. A finished section is accepted, and its bytes are the
  builder's buffer around the patched length.
\<close>

text \<open>The 12-bit and 13-bit fields under four and three reserved bits.\<close>

definition be12 :: "u8 \<Rightarrow> u8 \<Rightarrow> nat" where
  "be12 h l = unat (be16 (h AND 0x0F) l)"

definition be13 :: "u8 \<Rightarrow> u8 \<Rightarrow> u16" where
  "be13 h l = be16 (h AND 0x1F) l"

definition len_hi :: "nat \<Rightarrow> u8" where "len_hi n = of_nat (n div 256) AND 0x0F"
definition len_lo :: "nat \<Rightarrow> u8" where "len_lo n = of_nat n"
definition pid_hi :: "u16 \<Rightarrow> u8" where "pid_hi p = 0xE0 OR (hi8 p AND 0x1F)"

definition kSectionMinSize :: nat where "kSectionMinSize = 4 + 4"

definition sectionLooksValid :: "bytes \<Rightarrow> bool" where
  "sectionLooksValid sec \<longleftrightarrow>
     kSectionMinSize \<le> length sec \<and> be12 (sec ! 1) (sec ! 2) + 3 = length sec \<and> crc sec = 0"

definition sectionLengthFromHeader :: "bytes \<Rightarrow> nat option" where
  "sectionLengthFromHeader hdr =
     (if length hdr < 3 then None
      else let section_length = be12 (hdr ! 1) (hdr ! 2)
        in if section_length > 4093 then None else Some (section_length + 3))"

definition writeShortSyntaxHeader :: "u8 \<Rightarrow> u16 \<Rightarrow> u8 \<Rightarrow> bool \<Rightarrow> bytes" where
  "writeShortSyntaxHeader table_id table_id_extension version_number current_next_indicator =
     [table_id, 0xB0, 0x00, hi8 table_id_extension, lo8 table_id_extension,
      0xC0 OR push_bit 1 (version_number AND 0x1F) OR (if current_next_indicator then 1 else 0),
      0x00, 0x00]"

definition patchSectionLength :: "bytes \<Rightarrow> bytes" where
  "patchSectionLength buf =
     (let n = length buf - 3 + 4 in buf[1 := (buf ! 1 AND 0xF0) OR len_hi n, 2 := len_lo n])"

definition appendCrc32 :: "bytes \<Rightarrow> bytes" where
  "appendCrc32 buf = buf @ bytes32 (crc buf)"

definition finishSection :: "bytes \<Rightarrow> bytes" where
  "finishSection buf = appendCrc32 (patchSectionLength buf)"

text \<open>The bytes between index \<open>i\<close> and the CRC, which the table parsers walk.\<close>

definition body_from :: "nat \<Rightarrow> bytes \<Rightarrow> bytes" where
  "body_from i sec = take (length sec - 4 - i) (drop i sec)"

subsection \<open>Field round trips\<close>

lemma be13_pid [simp, wire]: "be13 (pid_hi p) (lo8 p) = p AND 0x1FFF"
  unfolding be13_def pid_hi_def hi8_def lo8_def be16_def masks AND_1FFF
  by (rule bit_word_eqI) (auto simp: bit_simps masks)

lemma be12_len:
  assumes "n < 4096" "x AND 0x0F = 0"
  shows "be12 (x OR len_hi n) (len_lo n) = n"
proof -
  have "be16 ((x OR len_hi n) AND 0x0F) (len_lo n) = of_nat n"
  proof (rule bit_word_eqI)
    fix i assume "i < LENGTH(16)"
    have n: "n = take_bit 12 n" using assms(1) by (simp add: take_bit_nat_eq_self)
    have hi: "bit n i \<Longrightarrow> i < 12" by (subst (asm) n) (simp add: bit_simps)
    have x: "bit x j \<Longrightarrow> 4 \<le> j" for j
      using arg_cong [OF assms(2), of "\<lambda>w. bit w j"] unfolding masks by (auto simp: bit_simps)
    have d: "n div 256 = drop_bit 8 n" by (simp add: drop_bit_eq_div)
    show "bit (be16 ((x OR len_hi n) AND 0x0F) (len_lo n)) i = bit (of_nat n :: u16) i"
      unfolding be16_def len_hi_def len_lo_def d masks
      using hi x \<open>i < LENGTH(16)\<close> by (auto simp: bit_simps dest: x)
  qed
  moreover have "unat (of_nat n :: u16) = n" by (rule unat_of_nat_small) (use assms(1) in simp)
  ultimately show ?thesis by (simp add: be12_def)
qed

lemma be12_bound: "be12 h l < 4096"
proof -
  have "be16 (h AND 0x0F) l = take_bit 12 (be16 (h AND 0x0F) l)"
    unfolding be16_def masks by (rule bit_word_eqI) (auto simp: bit_simps dest: bit_imp_le_length)
  then have "unat (be16 (h AND 0x0F) l) = unat (take_bit 12 (be16 (h AND 0x0F) l))" by (rule arg_cong)
  also have "\<dots> = take_bit 12 (unat (be16 (h AND 0x0F) l))" by (rule unsigned_take_bit_eq)
  also have "\<dots> < 2 ^ 12" by (rule take_bit_nat_less_exp)
  finally show ?thesis by (simp add: be12_def)
qed

subsection \<open>A finished section is valid\<close>

lemma patched:
  assumes "buf = t # 0xB0 # z # rest" "length rest + 4 < 4096"
  shows "patchSectionLength buf = t # (0xB0 OR len_hi (length rest + 4)) # len_lo (length rest + 4) # rest"
proof -
  have "(0xB0 :: u8) AND 0xF0 = 0xB0" by simp
  then show ?thesis using assms(1) by (simp add: patchSectionLength_def Let_def numeral_2_eq_2 add.commute)
qed

lemma syntax_bit: "bit ((0xB0 :: u8) OR w) 7"
  by (simp add: bit_or_iff)

text \<open>The facts the table round trips rest on.\<close>

lemma finished:
  assumes buf: "buf = t # 0xB0 # z # rest" and len: "length rest + 4 < 4096" "1 \<le> length rest"
  defines "sec \<equiv> finishSection buf"
  shows "sectionLooksValid sec" "sec ! 0 = t" "sec ! 1 AND 0x80 \<noteq> 0"
    "length sec = length rest + 7" "\<And>i. i < length rest \<Longrightarrow> sec ! (i + 3) = rest ! i"
    "\<And>k. body_from (k + 3) sec = drop k rest"
proof -
  note p = patched [OF buf len(1)]
  define c where "c = crc (patchSectionLength buf)"
  have sec: "sec = t # (0xB0 OR len_hi (length rest + 4)) # len_lo (length rest + 4) # rest @ bytes32 c"
    by (simp add: sec_def finishSection_def appendCrc32_def p c_def)
  have "crc sec = 0"
    by (simp add: sec_def finishSection_def appendCrc32_def crc32Mpeg2_append crc32Mpeg2_own)
  moreover have "be12 (0xB0 OR len_hi (length rest + 4)) (len_lo (length rest + 4)) = length rest + 4"
    by (rule be12_len) (use len in simp_all)
  ultimately show "sectionLooksValid sec"
    using len by (simp add: sectionLooksValid_def kSectionMinSize_def sec)
  show "sec ! 0 = t" "length sec = length rest + 7" by (simp_all add: sec)
  show "sec ! 1 AND 0x80 \<noteq> 0" using syntax_bit by (simp add: sec AND_bit_iff)
  show "sec ! (i + 3) = rest ! i" if "i < length rest" for i
    using that by (simp add: sec nth_append numeral_3_eq_3)
  show "body_from (k + 3) sec = drop k rest" for k
  proof -
    have "drop (k + 3) sec = drop k (rest @ bytes32 c)" by (simp add: sec numeral_3_eq_3)
    then show ?thesis by (simp add: body_from_def \<open>length sec = _\<close> drop_take [symmetric])
  qed
qed

lemma valid_length: "sectionLooksValid sec \<Longrightarrow> 8 \<le> length sec"
  by (simp add: sectionLooksValid_def kSectionMinSize_def)

lemma header_length_finished:
  assumes "buf = t # 0xB0 # z # rest" "length rest + 4 \<le> 4093"
  shows "sectionLengthFromHeader (take 3 (finishSection buf)) = Some (length (finishSection buf))"
proof -
  have "length rest + 4 < 4096" using assms by simp
  note p = patched [OF assms(1) this]
  have "be12 (0xB0 OR len_hi (length rest + 4)) (len_lo (length rest + 4)) = length rest + 4"
    by (rule be12_len) (use assms in simp_all)
  then show ?thesis using assms(2)
    by (simp add: finishSection_def appendCrc32_def p sectionLengthFromHeader_def Let_def numeral_3_eq_3)
qed

text \<open>A section damaged by a burst of at most four bytes is rejected.\<close>

lemma damaged_rejected:
  assumes "sectionLooksValid (pre @ mid @ suf)" "length mid = length mid'" "length mid \<le> 4" "mid \<noteq> mid'"
  shows "\<not> sectionLooksValid (pre @ mid' @ suf)"
  using crc32Mpeg2_burst [OF assms(2-4), of pre suf "0xFFFFFFFF"] assms(1)
  by (auto simp: sectionLooksValid_def)

section \<open>Properties\<close>

text \<open>A valid section that is changed in at most four consecutive bytes is rejected.\<close>

lemma burst_damage_rejected:
  assumes "sectionLooksValid (pre @ mid @ suf)" "length mid = length mid'" "length mid \<le> 4" "mid \<noteq> mid'"
  shows "\<not> sectionLooksValid (pre @ mid' @ suf)"
  by (rule damaged_rejected [OF assms])

end
