(* ===== verification/PsiTables.thy ===== *)
theory PsiTables
  imports PsiSection
begin

text \<open>
  The PAT and PMT parsers of \<^verbatim>\<open>src/gateway/ts/PsiParser.cpp\<close> and their builders in
  \<^verbatim>\<open>src/gateway/ts/PsiBuilder.cpp\<close>. A parser's \<open>std::nullopt\<close> is \<open>Inl Malformed\<close>;
  an index past the end of the section, which the unchecked \<open>std::span\<close> does not report, is
  \<open>Inl ReadPastEnd\<close>. A loop over the body is a recursion on the bytes that are left.
\<close>

datatype psi_error = Malformed | ReadPastEnd

subsection \<open>PAT\<close>

record PatEntry =
  program_number :: u16
  pmt_pid :: u16

record ParsedPat =
  pat_transport_stream_id :: u16
  pat_version_number :: u8
  pat_current_next_indicator :: bool
  pat_network_pid :: u16
  pat_programs :: "PatEntry list"

fun pat_loop :: "bytes \<Rightarrow> ParsedPat \<Rightarrow> ParsedPat" where
  "pat_loop (n1 # n0 # p1 # p0 # rest) out =
     (let pn = be16 n1 n0; ppid = be13 p1 p0
      in pat_loop rest
          (if pn = 0 then out\<lparr>pat_network_pid := ppid\<rparr>
           else out\<lparr>pat_programs := pat_programs out @ [\<lparr>program_number = pn, pmt_pid = ppid\<rparr>]\<rparr>))"
| "pat_loop _ out = out"

definition parsePat :: "bytes \<Rightarrow> psi_error + ParsedPat" where
  "parsePat section =
     (if \<not> sectionLooksValid section then Inl Malformed
      else if section ! 0 \<noteq> 0x00 then Inl Malformed
      else if section ! 1 AND 0x80 = 0 then Inl Malformed
      else Inr (pat_loop (body_from 8 section)
        \<lparr>pat_transport_stream_id = be16 (section ! 3) (section ! 4),
         pat_version_number = drop_bit 1 (section ! 5) AND 0x1F,
         pat_current_next_indicator = (section ! 5 AND 0x01 \<noteq> 0),
         pat_network_pid = 0, pat_programs = []\<rparr>))"

text \<open>The builders take the parsed record as their input record.\<close>

definition pat_entry_bytes :: "u16 \<Rightarrow> u16 \<Rightarrow> bytes" where
  "pat_entry_bytes pn ppid = [hi8 pn, lo8 pn, pid_hi ppid, lo8 ppid]"

definition buildPatSection :: "ParsedPat \<Rightarrow> bytes" where
  "buildPatSection inp = finishSection
     (writeShortSyntaxHeader 0x00 (pat_transport_stream_id inp) (pat_version_number inp)
        (pat_current_next_indicator inp)
      @ (if pat_network_pid inp \<noteq> 0 then pat_entry_bytes 0 (pat_network_pid inp) else [])
      @ concat (map (\<lambda>p. pat_entry_bytes (program_number p) (pmt_pid p)) (pat_programs inp)))"

subsection \<open>PMT\<close>

record PmtStream =
  stream_type :: u8
  elementary_pid :: u16
  es_descriptors :: "RawDescriptor list"

record ParsedPmt =
  pmt_program_number :: u16
  pmt_version_number :: u8
  pmt_current_next_indicator :: bool
  pcr_pid :: u16
  program_descriptors :: "RawDescriptor list"
  streams :: "PmtStream list"

function pmt_loop :: "bytes \<Rightarrow> PmtStream list \<Rightarrow> psi_error + PmtStream list" where
  "pmt_loop (t # p1 # p0 # l1 # l0 # rest) out =
     (let es_info_length = be12 l1 l0 in
      if es_info_length > length rest then Inl Malformed
      else pmt_loop (drop es_info_length rest)
        (out @ [\<lparr>stream_type = t, elementary_pid = be13 p1 p0,
                 es_descriptors = parseDescriptorLoop (take es_info_length rest)\<rparr>]))"
| "pmt_loop [] out = Inr out"
| "pmt_loop [a] out = Inr out"
| "pmt_loop [a, b] out = Inr out"
| "pmt_loop [a, b, c] out = Inr out"
| "pmt_loop [a, b, c, d] out = Inr out"
  by pat_completeness auto
termination by (relation "measure (\<lambda>(bs, out). length bs)") auto

definition parsePmt :: "bytes \<Rightarrow> psi_error + ParsedPmt" where
  "parsePmt section =
     (if \<not> sectionLooksValid section then Inl Malformed
      else if section ! 0 \<noteq> 0x02 then Inl Malformed
      else if section ! 1 AND 0x80 = 0 then Inl Malformed
      else if length section < 12 then Inl ReadPastEnd
      else
        let prog_info_length = be12 (section ! 10) (section ! 11);
            pi_end = 12 + prog_info_length
        in if pi_end > length section - 4 then Inl Malformed
           else case pmt_loop (body_from pi_end section) [] of
             Inl e \<Rightarrow> Inl e
           | Inr ss \<Rightarrow> Inr
              \<lparr>pmt_program_number = be16 (section ! 3) (section ! 4),
               pmt_version_number = drop_bit 1 (section ! 5) AND 0x1F,
               pmt_current_next_indicator = (section ! 5 AND 0x01 \<noteq> 0),
               pcr_pid = be13 (section ! 8) (section ! 9),
               program_descriptors = parseDescriptorLoop (take prog_info_length (drop 12 section)),
               streams = ss\<rparr>)"

definition stream_bytes :: "PmtStream \<Rightarrow> bytes" where
  "stream_bytes s =
     (let es = writeDescriptorLoop (es_descriptors s); es_written = length es
      in [stream_type s, pid_hi (elementary_pid s), lo8 (elementary_pid s),
          0xF0 OR len_hi es_written, len_lo es_written] @ es)"

definition buildPmtSection :: "ParsedPmt \<Rightarrow> bytes" where
  "buildPmtSection inp =
     (let pi = writeDescriptorLoop (program_descriptors inp); pi_written = length pi
      in finishSection
        (writeShortSyntaxHeader 0x02 (pmt_program_number inp) (pmt_version_number inp)
           (pmt_current_next_indicator inp)
         @ [pid_hi (pcr_pid inp), lo8 (pcr_pid inp), 0xF0 OR len_hi pi_written, len_lo pi_written]
         @ pi @ concat (map stream_bytes (streams inp))))"

subsection \<open>The builder output as a buffer\<close>

lemma header_buffer:
  "writeShortSyntaxHeader t ext ver cn @ rest =
     t # 0xB0 # 0 # ([hi8 ext, lo8 ext, 0xC0 OR push_bit 1 (ver AND 0x1F) OR (if cn then 1 else 0), 0, 0] @ rest)"
  by (simp add: writeShortSyntaxHeader_def)

lemma version_field:
  "drop_bit 1 ((0xC0 :: u8) OR push_bit 1 (v AND 0x1F) OR (if c then 1 else 0)) AND 0x1F = v AND 0x1F"
  unfolding masks by (rule byte_eqI) (auto simp: bit_simps bit_numeral_rec numeral_2_eq_2)

lemma current_next_field:
  "((0xC0 :: u8) OR push_bit 1 (v AND 0x1F) OR (if c then 1 else 0)) AND 0x01 \<noteq> 0 \<longleftrightarrow> c"
proof -
  let ?w = "(0xC0 :: u8) OR push_bit 1 (v AND 0x1F) OR (if c then 1 else 0)"
  have "?w AND 0x01 = of_bool (bit ?w 0)" by (simp add: and_one_eq mod2_eq_if bit_0 )
  moreover have "bit ?w 0 = c" by (auto simp: bit_simps)
  ultimately show ?thesis by simp
qed

text \<open>What a table parser reads from a finished header and body.\<close>

lemma finished_table:
  fixes t :: u8 and ext :: u16 and ver :: u8 and cn :: bool
  assumes len: "length bd + 9 < 4096"
  defines "sec \<equiv> finishSection (writeShortSyntaxHeader t ext ver cn @ bd)"
  shows "sectionLooksValid sec" "sec ! 0 = t" "sec ! 1 AND 0x80 \<noteq> 0" "length sec = length bd + 12"
    "be16 (sec ! 3) (sec ! 4) = ext" "drop_bit 1 (sec ! 5) AND 0x1F = ver AND 0x1F"
    "sec ! 5 AND 0x01 \<noteq> 0 \<longleftrightarrow> cn" "\<And>i. i < length bd \<Longrightarrow> sec ! (i + 8) = bd ! i"
    "\<And>k. body_from (k + 8) sec = drop k bd"
proof -
  let ?h = "[hi8 ext, lo8 ext, 0xC0 OR push_bit 1 (ver AND 0x1F) OR (if cn then 1 else 0), 0, 0]"
  note f = finished [OF header_buffer [of t ext ver cn bd], folded sec_def]
  have b: "length (?h @ bd) + 4 < 4096" "1 \<le> length (?h @ bd)" using len by simp_all
  note f = f [OF b]
  show "sectionLooksValid sec" "sec ! 0 = t" "sec ! 1 AND 0x80 \<noteq> 0" "length sec = length bd + 12"
    using f(1-4) by simp_all
  have n: "sec ! 3 = hi8 ext" "sec ! 4 = lo8 ext"
    "sec ! 5 = 0xC0 OR push_bit 1 (ver AND 0x1F) OR (if cn then 1 else 0)"
    using f(5) [of 0] f(5) [of 1] f(5) [of 2] by simp_all
  show "be16 (sec ! 3) (sec ! 4) = ext" by (simp add: n)
  show "drop_bit 1 (sec ! 5) AND 0x1F = ver AND 0x1F" unfolding n by (rule version_field)
  show "sec ! 5 AND 0x01 \<noteq> 0 \<longleftrightarrow> cn" unfolding n by (rule current_next_field)
  show "sec ! (i + 8) = bd ! i" if "i < length bd" for i
    using f(5) [of "i + 5"] that by (simp add: nth_append add.commute)
  show "body_from (k + 8) sec = drop k bd" for k
  proof -
    have "body_from (k + 5 + 3) sec = drop (k + 5) (?h @ bd)" by (rule f(6))
    moreover have "k + 5 + 3 = k + 8" by simp
    moreover have "drop (k + 5) (?h @ bd) = drop k bd" by (subst drop_append) simp
    ultimately show ?thesis by (simp only:)
  qed
qed

subsection \<open>PAT and PMT round trips\<close>

definition mask_pat :: "ParsedPat \<Rightarrow> ParsedPat" where
  "mask_pat t = t\<lparr>pat_version_number := pat_version_number t AND 0x1F,
     pat_network_pid := pat_network_pid t AND 0x1FFF,
     pat_programs := map (\<lambda>p. p\<lparr>pmt_pid := pmt_pid p AND 0x1FFF\<rparr>) (pat_programs t)\<rparr>"

lemma be16_zero [simp]: "be16 0 0 = 0" by (simp add: be16_def)

lemma pat_loop_entries:
  "list_all (\<lambda>p. program_number p \<noteq> 0) ps \<Longrightarrow>
   pat_loop (concat (map (\<lambda>p. pat_entry_bytes (program_number p) (pmt_pid p)) ps)) out =
     out\<lparr>pat_programs := pat_programs out @ map (\<lambda>p. p\<lparr>pmt_pid := pmt_pid p AND 0x1FFF\<rparr>) ps\<rparr>"
  by (induction ps arbitrary: out) (simp_all add: pat_entry_bytes_def Let_def)

lemma length_pat_entries: "length (concat (map (\<lambda>p. pat_entry_bytes (program_number p) (pmt_pid p)) ps)) = 4 * length ps"
  by (induction ps) (simp_all add: pat_entry_bytes_def)

lemma parse_build_pat:
  assumes "length (pat_programs t) \<le> 1020" "list_all (\<lambda>p. program_number p \<noteq> 0) (pat_programs t)"
  shows "parsePat (buildPatSection t) = Inr (mask_pat t)"
proof -
  let ?net = "if pat_network_pid t \<noteq> 0 then pat_entry_bytes 0 (pat_network_pid t) else []"
  let ?ps = "concat (map (\<lambda>p. pat_entry_bytes (program_number p) (pmt_pid p)) (pat_programs t))"
  have "length (?net @ ?ps) + 9 < 4096"
  proof -
    have "length ?net \<le> 4" by (simp add: pat_entry_bytes_def)
    then show ?thesis using assms(1) length_pat_entries [of "pat_programs t"]
      unfolding length_append by linarith
  qed
  note f = finished_table [OF this, where t = 0 and ext = "pat_transport_stream_id t"
      and ver = "pat_version_number t" and cn = "pat_current_next_indicator t"]
  have hi0: "hi8 0 = 0" "lo8 0 = 0" by (simp_all add: hi8_def lo8_def)
  have net: "pat_loop (?net @ ?ps) out = pat_loop ?ps (out\<lparr>pat_network_pid := pat_network_pid t AND 0x1FFF\<rparr>)"
    if "pat_network_pid out = 0" for out
  proof (cases "pat_network_pid t = 0")
    case True
    moreover have "out\<lparr>pat_network_pid := 0\<rparr> = out" using that by (cases out) simp
    ultimately show ?thesis by simp
  next
    case False
    then show ?thesis by (simp add: pat_entry_bytes_def hi0)
  qed
  show ?thesis
    unfolding parsePat_def buildPatSection_def
    using f(1-3) f(5-7) f(9) [of 0]
    by (simp add: net pat_loop_entries [OF assms(2)] mask_pat_def)
qed

text \<open>What survives a PMT: 13-bit PIDs, 5-bit version, descriptor bodies of at most 255 bytes.\<close>

definition mask_stream :: "PmtStream \<Rightarrow> PmtStream" where
  "mask_stream s = s\<lparr>elementary_pid := elementary_pid s AND 0x1FFF,
     es_descriptors := map clip (es_descriptors s)\<rparr>"

definition mask_pmt :: "ParsedPmt \<Rightarrow> ParsedPmt" where
  "mask_pmt t = t\<lparr>pmt_version_number := pmt_version_number t AND 0x1F, pcr_pid := pcr_pid t AND 0x1FFF,
     program_descriptors := map clip (program_descriptors t), streams := map mask_stream (streams t)\<rparr>"

lemma pmt_loop_stream:
  assumes "length (stream_bytes s) < 4096"
  shows "pmt_loop (stream_bytes s @ rest) out = pmt_loop rest (out @ [mask_stream s])"
proof -
  let ?es = "writeDescriptorLoop (es_descriptors s)"
  have "be12 (0xF0 OR len_hi (length ?es)) (len_lo (length ?es)) = length ?es"
    by (rule be12_len) (use assms in \<open>simp_all add: stream_bytes_def Let_def\<close>)
  then show ?thesis by (cases s) (simp add: stream_bytes_def Let_def parse_write mask_stream_def)
qed

lemma pmt_loop_streams:
  "length (concat (map stream_bytes ss)) < 4096 \<Longrightarrow>
   pmt_loop (concat (map stream_bytes ss)) out = Inr (out @ map mask_stream ss)"
  by (induction ss arbitrary: out) (simp_all add: pmt_loop_stream)

lemma drop_four: "drop (n + 4) (a # b # c # d # xs) = drop n xs"
  by (simp add: numeral_eq_Suc)

definition pmt_body :: "ParsedPmt \<Rightarrow> bytes" where
  "pmt_body t = writeDescriptorLoop (program_descriptors t) @ concat (map stream_bytes (streams t))"

lemma parse_build_pmt:
  assumes len: "length (pmt_body t) \<le> 4082"
  shows "parsePmt (buildPmtSection t) = Inr (mask_pmt t)"
proof -
  let ?pi = "writeDescriptorLoop (program_descriptors t)"
  let ?ss = "concat (map stream_bytes (streams t))"
  let ?bd = "[pid_hi (pcr_pid t), lo8 (pcr_pid t), 0xF0 OR len_hi (length ?pi), len_lo (length ?pi)] @ ?pi @ ?ss"
  have "length ?bd + 9 < 4096" using len by (simp add: pmt_body_def)
  note f = finished_table [OF this, where t = 2 and ext = "pmt_program_number t"
      and ver = "pmt_version_number t" and cn = "pmt_current_next_indicator t"]
  let ?sec = "finishSection (writeShortSyntaxHeader 2 (pmt_program_number t) (pmt_version_number t)
      (pmt_current_next_indicator t) @ ?bd)"
  have sec: "buildPmtSection t = ?sec" by (simp only: buildPmtSection_def Let_def)
  have n: "?sec ! 8 = pid_hi (pcr_pid t)" "?sec ! 9 = lo8 (pcr_pid t)"
    "?sec ! 10 = 0xF0 OR len_hi (length ?pi)" "?sec ! 11 = len_lo (length ?pi)"
    using f(8) [of 0] f(8) [of 1] f(8) [of 2] f(8) [of 3] by simp_all
  have pil: "be12 (0xF0 OR len_hi (length ?pi)) (len_lo (length ?pi)) = length ?pi"
    by (rule be12_len) (use len in \<open>simp_all add: pmt_body_def\<close>)
  have b: "body_from (12 + length ?pi) ?sec = ?ss"
  proof -
    have "body_from (length ?pi + 4 + 8) ?sec = drop (length ?pi + 4) ?bd" by (rule f(9))
    also have "\<dots> = ?ss" by (simp add: drop_four)
    finally show ?thesis by (simp add: add.commute)
  qed
  have d: "take (length ?pi) (drop 12 ?sec) = ?pi"
  proof -
    have "take (length ?pi) (drop 12 ?sec) = take (length ?pi) (body_from (4 + 8) ?sec)"
      unfolding body_from_def using f(4) by (simp add: min_def)
    also have "\<dots> = ?pi" unfolding f(9) [of 4] by simp
    finally show ?thesis .
  qed
  have "pmt_loop ?ss [] = Inr (map mask_stream (streams t))"
    using pmt_loop_streams [of "streams t" "[]"] len by (simp add: pmt_body_def)
  then show ?thesis
    unfolding parsePmt_def sec using f(1-7) len
    by (simp only: n pil b d parse_write Let_def) (simp add: mask_pmt_def pmt_body_def)
qed

section \<open>Properties\<close>

text \<open>C31: parsing a built PMT gives back the table: streams, PIDs, descriptors and flags, each cut to its
  width on the wire, for every table that fits a section.\<close>

theorem pmt_section_roundtrip:
  assumes "length (pmt_body t) \<le> 4082"
  shows "parsePmt (buildPmtSection t) = Inr (mask_pmt t) \<and> sectionLooksValid (buildPmtSection t)"
  using parse_build_pmt [OF assms] by (auto simp: parsePmt_def split: if_splits)

theorem pmt_section_roundtrip_witness:
  "parsePmt (buildPmtSection \<lparr>pmt_program_number = 1, pmt_version_number = 33, pmt_current_next_indicator = True,
      pcr_pid = 0x2101, program_descriptors = [],
      streams = [\<lparr>stream_type = 0x1B, elementary_pid = 0x101, es_descriptors = [\<lparr>tag = 0x52, body = [9]\<rparr>]\<rparr>]\<rparr>) =
    Inr \<lparr>pmt_program_number = 1, pmt_version_number = 1, pmt_current_next_indicator = True,
      pcr_pid = 0x101, program_descriptors = [],
      streams = [\<lparr>stream_type = 0x1B, elementary_pid = 0x101, es_descriptors = [\<lparr>tag = 0x52, body = [9]\<rparr>]\<rparr>]\<rparr>"
  using pmt_section_roundtrip [of "\<lparr>pmt_program_number = 1, pmt_version_number = 33, pmt_current_next_indicator = True,
      pcr_pid = 0x2101, program_descriptors = [],
      streams = [\<lparr>stream_type = 0x1B, elementary_pid = 0x101, es_descriptors = [\<lparr>tag = 0x52, body = [9]\<rparr>]\<rparr>]\<rparr>"]
  by (simp add: pmt_body_def stream_bytes_def writeDescriptor_def mask_pmt_def mask_stream_def clip_def)

text \<open>Parsing a built PAT gives back the network PID and the programs in their order, for up to 1020
  programs with a program number other than 0.\<close>

lemma pat_section_roundtrip:
  assumes "length (pat_programs t) \<le> 1020" "list_all (\<lambda>p. program_number p \<noteq> 0) (pat_programs t)"
  shows "parsePat (buildPatSection t) = Inr (mask_pat t)"
  by (rule parse_build_pat [OF assms])

end
