(* ===== verification/ServiceTables.thy ===== *)
theory ServiceTables
  imports PsiTables DvbText DvbTime
begin

text \<open>
  The SDT and EIT parsers of \<^verbatim>\<open>src/gateway/ts/PsiParser.cpp\<close> and their builders in
  \<^verbatim>\<open>src/gateway/ts/PsiBuilder.cpp\<close>. Both share the flag byte that carries the running
  status, the CA mode and the high nibble of the descriptor length.
\<close>

subsection \<open>SDT\<close>

record SdtService =
  service_id :: u16
  eit_schedule_flag :: bool
  eit_present_following_flag :: bool
  sdt_running_status :: u8
  sdt_free_ca_mode :: bool
  service_name :: bytes
  provider_name :: bytes
  sdt_descriptors :: "RawDescriptor list"

record ParsedSdt =
  sdt_transport_stream_id :: u16
  sdt_original_network_id :: u16
  sdt_version_number :: u8
  sdt_current_next_indicator :: bool
  services :: "SdtService list"

function sdt_loop :: "bytes \<Rightarrow> SdtService list \<Rightarrow> psi_error + SdtService list" where
  "sdt_loop (i1 # i0 # f # l1 # l0 # rest) out =
     (let descs_len = be12 l1 l0 in
      if descs_len > length rest then Inl Malformed
      else
        let descs = parseDescriptorLoop (take descs_len rest);
            (prov, name) = service_names descs ([], [])
        in sdt_loop (drop descs_len rest)
            (out @ [\<lparr>service_id = be16 i1 i0, eit_schedule_flag = (f AND 0x02 \<noteq> 0),
                     eit_present_following_flag = (f AND 0x01 \<noteq> 0),
                     sdt_running_status = drop_bit 5 l1 AND 0x07, sdt_free_ca_mode = (l1 AND 0x10 \<noteq> 0),
                     service_name = name, provider_name = prov, sdt_descriptors = descs\<rparr>]))"
| "sdt_loop [] out = Inr out"
| "sdt_loop [a] out = Inr out"
| "sdt_loop [a, b] out = Inr out"
| "sdt_loop [a, b, c] out = Inr out"
| "sdt_loop [a, b, c, d] out = Inr out"
  by pat_completeness auto
termination by (relation "measure (\<lambda>(bs, out). length bs)") auto

definition parseSdt :: "bytes \<Rightarrow> psi_error + ParsedSdt" where
  "parseSdt section =
     (if \<not> sectionLooksValid section then Inl Malformed
      else if section ! 0 \<noteq> 0x42 \<and> section ! 0 \<noteq> 0x46 then Inl Malformed
      else if section ! 1 AND 0x80 = 0 then Inl Malformed
      else if length section < 10 then Inl ReadPastEnd
      else case sdt_loop (body_from 11 section) [] of
        Inl e \<Rightarrow> Inl e
      | Inr ss \<Rightarrow> Inr
         \<lparr>sdt_transport_stream_id = be16 (section ! 3) (section ! 4),
          sdt_original_network_id = be16 (section ! 8) (section ! 9),
          sdt_version_number = drop_bit 1 (section ! 5) AND 0x1F,
          sdt_current_next_indicator = (section ! 5 AND 0x01 \<noteq> 0),
          services = ss\<rparr>)"

definition status_byte :: "u8 \<Rightarrow> bool \<Rightarrow> u8" where
  "status_byte running free_ca = push_bit 5 (running AND 0x07) OR (if free_ca then 0x10 else 0x00)"

definition service_bytes :: "SdtService \<Rightarrow> bytes" where
  "service_bytes svc =
     (let ds = writeDescriptorLoop (sdt_descriptors svc); dwritten = length ds
      in [hi8 (service_id svc), lo8 (service_id svc),
          0xFC OR (if eit_schedule_flag svc then 0x02 else 0)
               OR (if eit_present_following_flag svc then 0x01 else 0),
          (status_byte (sdt_running_status svc) (sdt_free_ca_mode svc) AND 0xF0) OR len_hi dwritten,
          len_lo dwritten] @ ds)"

definition buildSdtSection :: "bool \<Rightarrow> ParsedSdt \<Rightarrow> bytes" where
  "buildSdtSection actual inp = finishSection
     (writeShortSyntaxHeader (if actual then 0x42 else 0x46) (sdt_transport_stream_id inp)
        (sdt_version_number inp) (sdt_current_next_indicator inp)
      @ [hi8 (sdt_original_network_id inp), lo8 (sdt_original_network_id inp), 0xFF]
      @ concat (map service_bytes (services inp)))"

subsection \<open>EIT\<close>

record EitEvent =
  event_id :: u16
  start_time_utc :: u64
  duration_sec :: u32
  eit_running_status :: u8
  eit_free_ca_mode :: bool
  eit_descriptors :: "RawDescriptor list"

record ParsedEit =
  eit_service_id :: u16
  table_id :: u8
  eit_transport_stream_id :: u16
  eit_original_network_id :: u16
  eit_version_number :: u8
  actual :: bool
  present_following :: bool
  eit_events :: "EitEvent list"

function eit_loop :: "bytes \<Rightarrow> EitEvent list \<Rightarrow> psi_error + EitEvent list" where
  "eit_loop bs out =
     (if length bs < 12 then Inr out
      else
        let descs_len = be12 (bs ! 10) (bs ! 11) in
        if 12 + descs_len > length bs then Inl Malformed
        else eit_loop (drop (12 + descs_len) bs)
          (out @ [\<lparr>event_id = be16 (bs ! 0) (bs ! 1),
                   start_time_utc = decodeMjdUtc (take 5 (drop 2 bs)),
                   duration_sec = decodeBcdDuration (take 3 (drop 7 bs)),
                   eit_running_status = drop_bit 5 (bs ! 10) AND 0x07,
                   eit_free_ca_mode = (bs ! 10 AND 0x10 \<noteq> 0),
                   eit_descriptors = parseDescriptorLoop (take descs_len (drop 12 bs))\<rparr>]))"
  by pat_completeness auto
termination by (relation "measure (\<lambda>(bs, out). length bs)") auto

declare eit_loop.simps [simp del]

definition parseEit :: "bytes \<Rightarrow> psi_error + ParsedEit" where
  "parseEit section =
     (if \<not> sectionLooksValid section then Inl Malformed
      else let tid = section ! 0 in
        if tid < 0x4E \<or> tid > 0x6F then Inl Malformed
        else if section ! 1 AND 0x80 = 0 then Inl Malformed
        else if length section < 12 then Inl ReadPastEnd
        else case eit_loop (body_from 14 section) [] of
          Inl e \<Rightarrow> Inl e
        | Inr evs \<Rightarrow> Inr
           \<lparr>eit_service_id = be16 (section ! 3) (section ! 4), table_id = tid,
            eit_transport_stream_id = be16 (section ! 8) (section ! 9),
            eit_original_network_id = be16 (section ! 10) (section ! 11),
            eit_version_number = drop_bit 1 (section ! 5) AND 0x1F,
            actual = (tid = 0x4E \<or> 0x50 \<le> tid \<and> tid \<le> 0x5F),
            present_following = (tid = 0x4E \<or> tid = 0x4F),
            eit_events = evs\<rparr>)"

definition event_bytes :: "EitEvent \<Rightarrow> bytes" where
  "event_bytes ev =
     (let ds = writeDescriptorLoop (eit_descriptors ev); dwritten = length ds
      in [hi8 (event_id ev), lo8 (event_id ev)]
         @ encodeMjdUtc (start_time_utc ev) @ encodeBcdDuration (duration_sec ev)
         @ [(status_byte (eit_running_status ev) (eit_free_ca_mode ev) AND 0xF0) OR len_hi dwritten,
            len_lo dwritten] @ ds)"

definition buildEitSection :: "ParsedEit \<Rightarrow> bool \<Rightarrow> bytes" where
  "buildEitSection inp current_next_indicator = finishSection
     (writeShortSyntaxHeader (table_id inp) (eit_service_id inp) (eit_version_number inp)
        current_next_indicator
      @ [hi8 (eit_transport_stream_id inp), lo8 (eit_transport_stream_id inp),
         hi8 (eit_original_network_id inp), lo8 (eit_original_network_id inp), 0x00, table_id inp]
      @ concat (map event_bytes (eit_events inp)))"

subsection \<open>The status byte\<close>

lemma status_byte_fields:
  fixes r :: u8
  defines "w n c \<equiv> (status_byte r c AND 0xF0) OR len_hi n"
  shows "drop_bit 5 (w n c) AND 0x07 = r AND 0x07" "w n c AND 0x10 \<noteq> 0 \<longleftrightarrow> c"
    "n < 4096 \<Longrightarrow> be12 (w n c) (len_lo n) = n"
proof -
  have b: "bit (w n c) k \<longleftrightarrow> (if k < 4 then bit (len_hi n) k else if k = 4 then c else k < 8 \<and> bit r (k - 5))" for k
  proof -
    have "bit (0x10 :: u8) k \<longleftrightarrow> k = 4" using bit_exp_iff [of 4 k, where 'a = u8] by auto
    moreover have "k < 8 \<Longrightarrow> 5 \<le> k \<Longrightarrow> k - 5 < 3" by simp
    moreover have "k < 4 \<or> 8 \<le> k \<or> k = 4 \<or> k = 5 \<or> k = 6 \<or> k = 7" by auto
    ultimately show ?thesis
      unfolding w_def status_byte_def AND_hi4 len_hi_def masks
      by (auto simp: bit_simps)
  qed
  show "drop_bit 5 (w n c) AND 0x07 = r AND 0x07"
    unfolding masks by (rule bit_word_eqI) (auto simp: bit_simps b)
  show "w n c AND 0x10 \<noteq> 0 \<longleftrightarrow> c" by (simp add: AND_bit_iff b)
  show "be12 (w n c) (len_lo n) = n" if "n < 4096"
    unfolding w_def by (rule be12_len [OF that]) (rule byte_eqI; simp add: bit_and_iff bit_numeral_rec)
qed

lemma flag_byte:
  "((0xFC :: u8) OR (if s then 0x02 else 0) OR (if p then 0x01 else 0)) AND 0x02 \<noteq> 0 \<longleftrightarrow> s"
  "((0xFC :: u8) OR (if s then 0x02 else 0) OR (if p then 0x01 else 0)) AND 0x01 \<noteq> 0 \<longleftrightarrow> p"
  by (cases s; cases p; simp)+

subsection \<open>SDT round trip\<close>

text \<open>The service and provider names are not written: they are read back from the descriptors.\<close>

definition mask_service :: "SdtService \<Rightarrow> SdtService" where
  "mask_service s = (let ds = map clip (sdt_descriptors s); names = service_names ds ([], []) in
     s\<lparr>sdt_running_status := sdt_running_status s AND 0x07, sdt_descriptors := ds,
       service_name := snd names, provider_name := fst names\<rparr>)"

definition mask_sdt :: "ParsedSdt \<Rightarrow> ParsedSdt" where
  "mask_sdt t = t\<lparr>sdt_version_number := sdt_version_number t AND 0x1F,
     services := map mask_service (services t)\<rparr>"

lemma sdt_loop_service:
  assumes "length (service_bytes s) < 4096"
  shows "sdt_loop (service_bytes s @ rest) out = sdt_loop rest (out @ [mask_service s])"
proof -
  let ?ds = "writeDescriptorLoop (sdt_descriptors s)"
  have n: "length ?ds < 4096" using assms by (simp add: service_bytes_def Let_def)
  define w where "w = (status_byte (sdt_running_status s) (sdt_free_ca_mode s) AND 0xF0) OR len_hi (length ?ds)"
  define f where "f = (0xFC :: u8) OR (if eit_schedule_flag s then 0x02 else 0)
      OR (if eit_present_following_flag s then 0x01 else 0)"
  have w: "drop_bit 5 w AND 0x07 = sdt_running_status s AND 0x07" "w AND 0x10 \<noteq> 0 \<longleftrightarrow> sdt_free_ca_mode s"
    "be12 w (len_lo (length ?ds)) = length ?ds"
    unfolding w_def using status_byte_fields n by blast+
  have f: "f AND 0x02 \<noteq> 0 \<longleftrightarrow> eit_schedule_flag s" "f AND 0x01 \<noteq> 0 \<longleftrightarrow> eit_present_following_flag s"
    unfolding f_def by (rule flag_byte)+
  have "service_bytes s = [hi8 (service_id s), lo8 (service_id s), f, w, len_lo (length ?ds)] @ ?ds"
    by (simp only: service_bytes_def Let_def w_def f_def)
  then show ?thesis
    using w f by (cases s) (simp add: parse_write mask_service_def Let_def split: prod.split)
qed

lemma sdt_loop_services:
  "length (concat (map service_bytes ss)) < 4096 \<Longrightarrow>
   sdt_loop (concat (map service_bytes ss)) out = Inr (out @ map mask_service ss)"
  by (induction ss arbitrary: out) (simp_all add: sdt_loop_service)

lemma parse_build_sdt:
  assumes len: "length (concat (map service_bytes (services t))) \<le> 4083"
  shows "parseSdt (buildSdtSection act t) = Inr (mask_sdt t)"
proof -
  let ?ss = "concat (map service_bytes (services t))"
  let ?bd = "[hi8 (sdt_original_network_id t), lo8 (sdt_original_network_id t), 0xFF] @ ?ss"
  have "length ?bd + 9 < 4096" using len by simp
  note f = finished_table [OF this, where t = "if act then 0x42 else 0x46" and ext = "sdt_transport_stream_id t"
      and ver = "sdt_version_number t" and cn = "sdt_current_next_indicator t"]
  let ?sec = "finishSection (writeShortSyntaxHeader (if act then 0x42 else 0x46) (sdt_transport_stream_id t)
      (sdt_version_number t) (sdt_current_next_indicator t) @ ?bd)"
  have sec: "buildSdtSection act t = ?sec" by (simp only: buildSdtSection_def)
  have n: "?sec ! 8 = hi8 (sdt_original_network_id t)" "?sec ! 9 = lo8 (sdt_original_network_id t)"
    using f(8) [of 0] f(8) [of 1] by simp_all
  have b: "body_from 11 ?sec = ?ss" using f(9) [of 3] by simp
  have "sdt_loop ?ss [] = Inr (map mask_service (services t))"
    using sdt_loop_services [of "services t" "[]"] len by simp
  then show ?thesis
    unfolding parseSdt_def sec using f(1-7)
    by (simp only: n b) (simp add: mask_sdt_def)
qed

subsection \<open>EIT round trip\<close>

definition mask_event :: "EitEvent \<Rightarrow> EitEvent" where
  "mask_event e = e\<lparr>duration_sec := min (duration_sec e) 86399,
     eit_running_status := eit_running_status e AND 0x07, eit_descriptors := map clip (eit_descriptors e)\<rparr>"

definition event_encodable :: "EitEvent \<Rightarrow> bool" where
  "event_encodable e \<longleftrightarrow> uint (start_time_utc e) div 86400 \<le> 24947"

lemma length_5: "length xs = 5 \<Longrightarrow> \<exists>a b c d e. xs = [a, b, c, d, e]"
  by (auto simp: numeral_eq_Suc length_Suc_conv)

lemma length_3: "length xs = 3 \<Longrightarrow> \<exists>a b c. xs = [a, b, c]"
  by (auto simp: numeral_eq_Suc length_Suc_conv)

lemma eit_loop_event:
  assumes len: "length (event_bytes e) < 4096" and enc: "event_encodable e"
  shows "eit_loop (event_bytes e @ rest) out = eit_loop rest (out @ [mask_event e])"
proof -
  let ?ds = "writeDescriptorLoop (eit_descriptors e)"
  have n: "length ?ds < 4096" using len by (simp add: event_bytes_def Let_def)
  obtain m0 m1 m2 m3 m4 where m: "encodeMjdUtc (start_time_utc e) = [m0, m1, m2, m3, m4]"
    using length_5 [OF length_encodeMjdUtc] by blast
  obtain d0 d1 d2 where d: "encodeBcdDuration (duration_sec e) = [d0, d1, d2]"
    using length_3 [OF length_encodeBcdDuration] by blast
  let ?bs = "event_bytes e @ rest"
  define w where "w = (status_byte (eit_running_status e) (eit_free_ca_mode e) AND 0xF0) OR len_hi (length ?ds)"
  have w: "drop_bit 5 w AND 0x07 = eit_running_status e AND 0x07" "w AND 0x10 \<noteq> 0 \<longleftrightarrow> eit_free_ca_mode e"
    "be12 w (len_lo (length ?ds)) = length ?ds"
    unfolding w_def using status_byte_fields n by blast+
  have bs: "?bs = [hi8 (event_id e), lo8 (event_id e), m0, m1, m2, m3, m4, d0, d1, d2, w,
      len_lo (length ?ds)] @ ?ds @ rest"
    by (simp add: event_bytes_def Let_def m d w_def)
  have t: "decodeMjdUtc [m0, m1, m2, m3, m4] = start_time_utc e"
    using decode_encode_Mjd [of "start_time_utc e"] enc by (simp add: m event_encodable_def)
  have u: "decodeBcdDuration [d0, d1, d2] = min (duration_sec e) 86399"
    using BcdDuration_roundtrip [of "duration_sec e"] by (simp add: d)
  have nth: "?bs ! 0 = hi8 (event_id e)" "?bs ! 1 = lo8 (event_id e)" "?bs ! 10 = w"
    "?bs ! 11 = len_lo (length ?ds)" "take 5 (drop 2 ?bs) = [m0, m1, m2, m3, m4]"
    "take 3 (drop 7 ?bs) = [d0, d1, d2]" "drop 12 ?bs = ?ds @ rest" "length ?bs = 12 + length ?ds + length rest"
    by (simp_all only: bs) (simp_all add: numeral_eq_Suc)
  have skip: "drop (12 + length ?ds) ?bs = rest"
    using nth(7) by (metis add.commute append_eq_conv_conj drop_drop)
  show ?thesis
    by (subst eit_loop.simps, simp only: nth skip w Let_def, cases e)
      (use w in \<open>simp add: t u parse_write mask_event_def\<close>)
qed

lemma eit_loop_events:
  "length (concat (map event_bytes es)) < 4096 \<Longrightarrow> list_all event_encodable es \<Longrightarrow>
   eit_loop (concat (map event_bytes es)) out = Inr (out @ map mask_event es)"
proof (induction es arbitrary: out)
  case Nil
  show ?case by (simp add: eit_loop.simps)
next
  case (Cons e es)
  then show ?case by (simp add: eit_loop_event)
qed

definition eit_kind :: "u8 \<Rightarrow> bool \<times> bool" where
  "eit_kind tid = (tid = 0x4E \<or> 0x50 \<le> tid \<and> tid \<le> 0x5F, tid = 0x4E \<or> tid = 0x4F)"

definition mask_eit :: "ParsedEit \<Rightarrow> ParsedEit" where
  "mask_eit t = t\<lparr>eit_version_number := eit_version_number t AND 0x1F, actual := fst (eit_kind (table_id t)),
     present_following := snd (eit_kind (table_id t)), eit_events := map mask_event (eit_events t)\<rparr>"

lemma parse_build_eit:
  assumes len: "length (concat (map event_bytes (eit_events t))) \<le> 4080"
    and tid: "0x4E \<le> table_id t" "table_id t \<le> 0x6F" and enc: "list_all event_encodable (eit_events t)"
  shows "parseEit (buildEitSection t cn) = Inr (mask_eit t)"
proof -
  let ?es = "concat (map event_bytes (eit_events t))"
  let ?bd = "[hi8 (eit_transport_stream_id t), lo8 (eit_transport_stream_id t),
     hi8 (eit_original_network_id t), lo8 (eit_original_network_id t), 0x00, table_id t] @ ?es"
  have "length ?bd + 9 < 4096" using len by simp
  note f = finished_table [OF this, where t = "table_id t" and ext = "eit_service_id t"
      and ver = "eit_version_number t" and cn = cn]
  let ?sec = "finishSection (writeShortSyntaxHeader (table_id t) (eit_service_id t)
      (eit_version_number t) cn @ ?bd)"
  have sec: "buildEitSection t cn = ?sec" by (simp only: buildEitSection_def)
  have n: "?sec ! 8 = hi8 (eit_transport_stream_id t)" "?sec ! 9 = lo8 (eit_transport_stream_id t)"
    "?sec ! 10 = hi8 (eit_original_network_id t)" "?sec ! 11 = lo8 (eit_original_network_id t)"
    using f(8) [of 0] f(8) [of 1] f(8) [of 2] f(8) [of 3] by simp_all
  have b: "body_from 14 ?sec = ?es" using f(9) [of 6] by simp
  have "eit_loop ?es [] = Inr (map mask_event (eit_events t))"
    using eit_loop_events [of "eit_events t" "[]"] len enc by simp
  moreover have "\<not> table_id t < 0x4E" "\<not> table_id t > 0x6F" using tid by (simp_all add: not_less)
  ultimately show ?thesis
    unfolding parseEit_def sec using f(1-7)
    by (simp only: n b Let_def) (simp add: mask_eit_def eit_kind_def)
qed

subsection \<open>Sections that are too short for their table\<close>

text \<open>A section of eight bytes passes the length and CRC checks.\<close>

lemma short_section:
  "sectionLooksValid (finishSection [t, 0xB0, 0, x])" "finishSection [t, 0xB0, 0, x] ! 0 = t"
  "finishSection [t, 0xB0, 0, x] ! 1 AND 0x80 \<noteq> 0" "length (finishSection [t, 0xB0, 0, x]) = 8"
  using finished [of "[t, 0xB0, 0, x]" t 0 "[x]"] by simp_all

lemma short_tables_read_past_end:
  "parsePmt (finishSection [0x02, 0xB0, 0, x]) = Inl ReadPastEnd"
  "parseSdt (finishSection [0x42, 0xB0, 0, x]) = Inl ReadPastEnd"
  "parseEit (finishSection [0x4E, 0xB0, 0, x]) = Inl ReadPastEnd"
  using short_section by (simp_all add: parsePmt_def parseSdt_def parseEit_def Let_def)

lemma pmt_loop_error: "pmt_loop bs out = Inl e \<Longrightarrow> e = Malformed"
  by (induction bs out rule: pmt_loop.induct) (auto simp: Let_def split: if_splits)

lemma sdt_loop_error: "sdt_loop bs out = Inl e \<Longrightarrow> e = Malformed"
  by (induction bs out rule: sdt_loop.induct) (auto simp: Let_def split: if_splits prod.splits)

lemma eit_loop_error: "eit_loop bs out = Inl e \<Longrightarrow> e = Malformed"
proof (induction bs out rule: eit_loop.induct)
  case (1 bs out)
  from 1(2) show ?case
    by (subst (asm) eit_loop.simps) (auto simp: Let_def split: if_splits intro: 1(1) [OF _ refl])
qed

text \<open>With twelve bytes no parser indexes past the end.\<close>

lemma long_tables_in_bounds:
  assumes "12 \<le> length sec"
  shows "parsePmt sec \<noteq> Inl ReadPastEnd" "parseSdt sec \<noteq> Inl ReadPastEnd" "parseEit sec \<noteq> Inl ReadPastEnd"
  using assms
  by (auto simp: parsePmt_def parseSdt_def parseEit_def Let_def split: sum.splits
      dest: pmt_loop_error sdt_loop_error eit_loop_error)

lemma parsePat_in_bounds: "parsePat sec \<noteq> Inl ReadPastEnd"
  by (simp add: parsePat_def)

section \<open>Properties\<close>

text \<open>Parsing a built EIT gives back its events: start times, durations (capped at 23:59:59), running
  status and descriptors, and the actual and present/following flags of the table id.\<close>

lemma eit_section_roundtrip:
  assumes "length (concat (map event_bytes (eit_events t))) \<le> 4080"
    "0x4E \<le> table_id t" "table_id t \<le> 0x6F" "list_all event_encodable (eit_events t)"
  shows "parseEit (buildEitSection t cn) = Inr (mask_eit t)"
  by (rule parse_build_eit [OF assms])

text \<open>Parsing a built SDT gives back its services; their names are those of their service descriptors.\<close>

lemma sdt_section_roundtrip:
  assumes "length (concat (map service_bytes (services t))) \<le> 4083"
  shows "parseSdt (buildSdtSection act t) = Inr (mask_sdt t)"
  by (rule parse_build_sdt [OF assms])

text \<open>The PMT, SDT and EIT parsers index past the end of the section exactly when a valid section of their
  table is shorter than their fixed fields, and valid sections of eight bytes exist; the PAT parser
  never does.\<close>

lemma section_bounds:
  shows "(parsePmt sec = Inl ReadPastEnd \<longleftrightarrow>
      sectionLooksValid sec \<and> sec ! 0 = 0x02 \<and> sec ! 1 AND 0x80 \<noteq> 0 \<and> length sec < 12) \<and>
    (parseSdt sec = Inl ReadPastEnd \<longleftrightarrow>
      sectionLooksValid sec \<and> (sec ! 0 = 0x42 \<or> sec ! 0 = 0x46) \<and> sec ! 1 AND 0x80 \<noteq> 0 \<and> length sec < 10) \<and>
    (parseEit sec = Inl ReadPastEnd \<longleftrightarrow>
      sectionLooksValid sec \<and> 0x4E \<le> sec ! 0 \<and> sec ! 0 \<le> 0x6F \<and> sec ! 1 AND 0x80 \<noteq> 0 \<and> length sec < 12) \<and>
    parsePat sec \<noteq> Inl ReadPastEnd \<and>
    parsePmt (finishSection [0x02, 0xB0, 0, x]) = Inl ReadPastEnd \<and>
    parseSdt (finishSection [0x42, 0xB0, 0, x]) = Inl ReadPastEnd \<and>
    parseEit (finishSection [0x4E, 0xB0, 0, x]) = Inl ReadPastEnd"
proof (intro conjI)
  show "parsePmt sec = Inl ReadPastEnd \<longleftrightarrow>
      sectionLooksValid sec \<and> sec ! 0 = 0x02 \<and> sec ! 1 AND 0x80 \<noteq> 0 \<and> length sec < 12"
    by (auto simp: parsePmt_def Let_def split: sum.splits if_splits dest: pmt_loop_error)
  show "parseSdt sec = Inl ReadPastEnd \<longleftrightarrow>
      sectionLooksValid sec \<and> (sec ! 0 = 0x42 \<or> sec ! 0 = 0x46) \<and> sec ! 1 AND 0x80 \<noteq> 0 \<and> length sec < 10"
    by (auto simp: parseSdt_def split: sum.splits if_splits dest: sdt_loop_error)
  show "parseEit sec = Inl ReadPastEnd \<longleftrightarrow>
      sectionLooksValid sec \<and> 0x4E \<le> sec ! 0 \<and> sec ! 0 \<le> 0x6F \<and> sec ! 1 AND 0x80 \<noteq> 0 \<and> length sec < 12"
    by (auto simp: parseEit_def Let_def not_less not_le split: sum.splits if_splits dest: eit_loop_error)
qed (rule parsePat_in_bounds short_tables_read_past_end)+

end
