(* ===== verification/PsiAssembler.thy ===== *)
theory PsiAssembler
  imports PsiSection TsPacket
begin

text \<open>
  \<open>PsiSectionAssembler\<close> of \<^verbatim>\<open>src/gateway/ts/PsiParser.{h,cpp}\<close>, which gathers sections
  from TS payloads per PID, and \<open>packetizeSection\<close> of \<^verbatim>\<open>src/gateway/ts/PsiBuilder.cpp\<close>,
  which cuts a section into TS packets. The callback is the list of sections delivered.
\<close>

record PerPidState =
  buffer :: bytes
  expected :: nat
  last_cc :: u8
  in_progress :: bool

type_synonym assembler = "u16 \<rightharpoonup> PerPidState"

definition new_PerPidState :: PerPidState where
  "new_PerPidState = \<lparr>buffer = [], expected = 0, last_cc = 0xFF, in_progress = False\<rparr>"

definition asm_state :: "assembler \<Rightarrow> u16 \<Rightarrow> PerPidState" where
  "asm_state a p = (case a p of None \<Rightarrow> new_PerPidState | Some st \<Rightarrow> st)"

definition asm_reset :: "u16 \<Rightarrow> assembler \<Rightarrow> assembler" where
  "asm_reset p a = (case a p of None \<Rightarrow> a
     | Some st \<Rightarrow> a(p \<mapsto> \<lparr>buffer = [], expected = 0, last_cc = 0xFF, in_progress = False\<rparr>))"

definition clearAll :: "assembler \<Rightarrow> assembler" where
  "clearAll a = Map.empty"

definition drop_section :: "PerPidState \<Rightarrow> PerPidState" where
  "drop_section st = st\<lparr>buffer := [], expected := 0, in_progress := False\<rparr>"

text \<open>The loop over the payload from \<open>cursor\<close> on.\<close>

function consume :: "bytes \<Rightarrow> PerPidState \<Rightarrow> bytes list \<Rightarrow> bytes list \<times> PerPidState" where
  "consume rest st out =
     (if rest = [] then (out, st)
      else if expected st = 0 then
        let buf = buffer st @ rest in
        if length buf < 3 then (out, st\<lparr>buffer := buf\<rparr>)
        else (case sectionLengthFromHeader (take 3 buf) of
            None \<Rightarrow> (out, drop_section st)
          | Some len \<Rightarrow>
              if len \<le> length buf then (out @ [take len buf], st\<lparr>buffer := [], expected := 0\<rparr>)
              else (out, st\<lparr>buffer := buf, expected := len\<rparr>))
      else
        let need = expected st - length (buffer st);
            n = min need (length rest);
            buf = buffer st @ take n rest;
            rest' = drop n rest
        in if expected st \<le> length buf
           then consume (dropWhile (\<lambda>b. b = 0xFF) rest') (st\<lparr>buffer := [], expected := 0\<rparr>)
                  (out @ [take (expected st) buf])
           else consume rest' (st\<lparr>buffer := buf\<rparr>) out)"
  by pat_completeness auto
termination
proof (relation "measure (\<lambda>(rest, st, out). 2 * length rest + (if expected st = 0 then 0 else 1))", goal_cases)
  case (2 rest st out need n buf rest')
  have "length (dropWhile (\<lambda>b. b = 0xFF) rest') \<le> length rest'" by (rule length_dropWhile_le)
  with 2 show ?case by auto
qed auto

declare consume.simps [simp del]

definition start_section :: "bytes \<Rightarrow> PerPidState \<Rightarrow> bytes list \<times> PerPidState" where
  "start_section pl st =
     (let pointer = unat (pl ! 0);
          out = (if in_progress st \<and> 0 < pointer then
                   (let buf = buffer st @ take pointer (drop 1 pl)
                    in if expected st \<le> length buf then [take (expected st) buf] else [])
                 else [])
      in consume (drop (1 + pointer) pl) (st\<lparr>buffer := [], expected := 0, in_progress := True\<rparr>) out)"

definition feed_state :: "bytes \<Rightarrow> PerPidState \<Rightarrow> bytes list \<times> PerPidState" where
  "feed_state pkt st0 =
     (let cc_gap = in_progress st0 \<and> continuityCounter pkt \<noteq> (last_cc st0 + 1) AND 0x0F;
          st1 = (if cc_gap then drop_section st0 else st0);
          st = st1\<lparr>last_cc := continuityCounter pkt\<rparr>;
          pl = payload pkt
      in if pl = [] then ([], st)
         else if pusi pkt then
           (if length pl \<le> unat (pl ! 0) then ([], drop_section st) else start_section pl st)
         else if \<not> in_progress st then ([], st)
         else consume pl st [])"

definition feed :: "bytes \<Rightarrow> assembler \<Rightarrow> (u16 \<times> bytes) list \<times> assembler" where
  "feed pkt a =
     (if \<not> isValidSync pkt \<or> tei pkt \<or> \<not> hasPayload pkt then ([], a)
      else if scrambling pkt \<noteq> 0 then ([], a)
      else let p = pid pkt; (secs, st) = feed_state pkt (asm_state a p)
        in (map (Pair p) secs, a(p \<mapsto> st)))"

fun feed_all :: "bytes list \<Rightarrow> assembler \<Rightarrow> (u16 \<times> bytes) list \<times> assembler" where
  "feed_all [] a = ([], a)"
| "feed_all (p # ps) a = (let (o1, a1) = feed p a; (o2, a2) = feed_all ps a1 in (o1 @ o2, a2))"

subsection \<open>The assembler invariant\<close>

definition pid_ok :: "PerPidState \<Rightarrow> bool" where
  "pid_ok st \<longleftrightarrow>
     (if expected st = 0 then length (buffer st) < 3
      else length (buffer st) < expected st \<and> expected st \<le> 4096 \<and> 3 \<le> length (buffer st) \<and>
        sectionLengthFromHeader (take 3 (buffer st)) = Some (expected st)) \<and>
     (\<not> in_progress st \<longrightarrow> buffer st = [] \<and> expected st = 0)"

definition asm_ok :: "assembler \<Rightarrow> bool" where
  "asm_ok a \<longleftrightarrow> (\<forall>p st. a p = Some st \<longrightarrow> pid_ok st)"

lemma pid_ok_simps [simp]: "pid_ok (drop_section st)" "pid_ok (st\<lparr>last_cc := c\<rparr>) = pid_ok st"
  "pid_ok new_PerPidState" "pid_ok \<lparr>buffer = [], expected = 0, last_cc = c, in_progress = b\<rparr>"
  by (simp_all add: pid_ok_def drop_section_def new_PerPidState_def)

text \<open>A delivered section is as long as its header announces.\<close>

definition framed :: "bytes \<Rightarrow> bool" where
  "framed s \<longleftrightarrow> sectionLengthFromHeader (take 3 s) = Some (length s)"

lemma sectionLength_bounds: "sectionLengthFromHeader h = Some n \<Longrightarrow> 3 \<le> n \<and> n \<le> 4096"
  by (auto simp: sectionLengthFromHeader_def Let_def split: if_splits)

lemma framed_take: "sectionLengthFromHeader (take 3 buf) = Some len \<Longrightarrow> len \<le> length buf \<Longrightarrow> framed (take len buf)"
  using sectionLength_bounds [of "take 3 buf" len] by (simp add: framed_def min_def)

lemma consume_ok:
  assumes "pid_ok st" "in_progress st" "list_all P out" and P: "\<And>s. framed s \<Longrightarrow> P s"
  shows "pid_ok (snd (consume rest st out)) \<and> list_all P (fst (consume rest st out))"
  using assms(1-3)
proof (induction rest st out rule: consume.induct)
  case (1 rest st out)
  note IH = 1(1,2) and ok = 1(3) and prog = 1(4) and fr = 1(5)
  consider "rest = []" | "rest \<noteq> []" "expected st = 0" | "rest \<noteq> []" "expected st \<noteq> 0" by auto
  then show ?case
  proof cases
    case 1
    with ok fr show ?thesis by (simp add: consume.simps)
  next
    case 2
    let ?buf = "buffer st @ rest"
    have "P (take len ?buf)" if "sectionLengthFromHeader (take 3 ?buf) = Some len" "len \<le> length ?buf" for len
      using that by (intro P framed_take)
    moreover have "consume rest st out =
        (if length ?buf < 3 then (out, st\<lparr>buffer := ?buf\<rparr>)
         else case sectionLengthFromHeader (take 3 ?buf) of
            None \<Rightarrow> (out, drop_section st)
          | Some len \<Rightarrow>
              if len \<le> length ?buf then (out @ [take len ?buf], st\<lparr>buffer := [], expected := 0\<rparr>)
              else (out, st\<lparr>buffer := ?buf, expected := len\<rparr>))"
      using 2 by (subst consume.simps) (simp add: Let_def)
    ultimately show ?thesis
      using 2 prog fr by (auto simp: pid_ok_def drop_section_def split: option.splits dest: sectionLength_bounds)
  next
    case 3
    define n where "n = min (expected st - length (buffer st)) (length rest)"
    define buf where "buf = buffer st @ take n rest"
    have st: "length (buffer st) < expected st" "expected st \<le> 4096" "3 \<le> length (buffer st)"
      "sectionLengthFromHeader (take 3 (buffer st)) = Some (expected st)"
      using ok 3 by (simp_all add: pid_ok_def)
    have eq: "consume rest st out =
        (if expected st \<le> length buf
         then consume (dropWhile (\<lambda>b. b = 0xFF) (drop n rest)) (st\<lparr>buffer := [], expected := 0\<rparr>)
                (out @ [take (expected st) buf])
         else consume (drop n rest) (st\<lparr>buffer := buf\<rparr>) out)"
      by (subst consume.simps) (simp only: 3 if_False Let_def n_def buf_def)
    have hd: "take 3 buf = take 3 (buffer st)" using st(3) by (simp add: buf_def)
    show ?thesis
    proof (cases "expected st \<le> length buf")
      case True
      have "framed (take (expected st) buf)"
        by (rule framed_take) (use True st hd in simp_all)
      moreover have "pid_ok (st\<lparr>buffer := [], expected := 0\<rparr>)" using prog by (simp add: pid_ok_def)
      moreover have "consume rest st out = consume (dropWhile (\<lambda>b. b = 0xFF) (drop n rest))
          (st\<lparr>buffer := [], expected := 0\<rparr>) (out @ [take (expected st) buf])"
        using True by (simp only: eq if_True)
      ultimately show ?thesis
        using prog fr by (simp only:, intro IH(1) [OF 3 refl n_def buf_def refl True]) (simp_all add: P)
    next
      case False
      have "pid_ok (st\<lparr>buffer := buf\<rparr>)"
        using False st hd prog 3 by (simp add: pid_ok_def buf_def)
      moreover have "consume rest st out = consume (drop n rest) (st\<lparr>buffer := buf\<rparr>) out"
        using False by (simp only: eq if_False)
      ultimately show ?thesis
        using IH(2) [OF 3 refl n_def buf_def refl False] prog fr by simp
    qed
  qed
qed

lemma feed_state_ok:
  assumes ok: "pid_ok st0" and P: "\<And>s. framed s \<Longrightarrow> P s" "P []"
  shows "pid_ok (snd (feed_state pkt st0)) \<and> list_all P (fst (feed_state pkt st0))"
proof -
  define st1 where "st1 = (if in_progress st0 \<and> continuityCounter pkt \<noteq> (last_cc st0 + 1) AND 0x0F
    then drop_section st0 else st0)"
  define st where "st = st1\<lparr>last_cc := continuityCounter pkt\<rparr>"
  define pl where "pl = payload pkt"
  have st: "pid_ok st" using ok by (simp add: st_def st1_def)
  have fresh: "pid_ok (st\<lparr>buffer := [], expected := 0, in_progress := True\<rparr>)" by (simp add: pid_ok_def)
  have drp: "pid_ok (drop_section st)" by simp
  have start: "pid_ok (snd (start_section pl st)) \<and> list_all P (fst (start_section pl st))"
  proof -
    let ?buf = "buffer st @ take (unat (pl ! 0)) (drop 1 pl)"
    have "P (take (expected st) ?buf)" if "expected st \<le> length ?buf"
    proof (cases "expected st = 0")
      case False
      with st have b: "3 \<le> length (buffer st)" and
        h: "sectionLengthFromHeader (take 3 (buffer st)) = Some (expected st)"
        by (simp_all add: pid_ok_def)
      have "take 3 ?buf = take 3 (buffer st)" using b by simp
      then have "sectionLengthFromHeader (take 3 ?buf) = Some (expected st)" using h by (simp only:)
      then show ?thesis by (rule P(1) [OF framed_take [OF _ that]])
    qed (simp add: P)
    then show ?thesis
      unfolding start_section_def Let_def
      by (intro consume_ok [OF fresh]) (simp_all add: P)
  qed
  have cont: "pid_ok (snd (consume pl st [])) \<and> list_all P (fst (consume pl st []))" if "in_progress st"
    by (rule consume_ok [OF st that]) (simp_all add: P)
  have eq: "feed_state pkt st0 =
      (if pl = [] then ([], st)
       else if pusi pkt then (if length pl \<le> unat (pl ! 0) then ([], drop_section st) else start_section pl st)
       else if \<not> in_progress st then ([], st) else consume pl st [])"
    by (simp only: feed_state_def Let_def pl_def st_def st1_def)
  show ?thesis unfolding eq using st drp start cont by simp
qed

lemma asm_state_ok: "asm_ok a \<Longrightarrow> pid_ok (asm_state a p)"
  by (auto simp: asm_ok_def asm_state_def split: option.splits)

lemma feed_ok:
  assumes "asm_ok a" and P: "\<And>s. framed s \<Longrightarrow> P s" "P []"
  shows "asm_ok (snd (feed pkt a)) \<and> (\<forall>(p, s) \<in> set (fst (feed pkt a)). p = pid pkt \<and> P s)"
proof -
  obtain secs st where fs: "feed_state pkt (asm_state a (pid pkt)) = (secs, st)" by fastforce
  have "pid_ok st \<and> list_all P secs"
    using feed_state_ok [OF asm_state_ok [OF assms(1), of "pid pkt"], where P = P and pkt = pkt] P fs by simp
  then show ?thesis
    using assms(1) by (auto simp: feed_def fs asm_ok_def list_all_iff Let_def)
qed

lemma feed_all_ok:
  assumes "asm_ok a"
  shows "asm_ok (snd (feed_all ps a)) \<and> (\<forall>(p, s) \<in> set (fst (feed_all ps a)). s = [] \<or> framed s)"
  using assms
proof (induction ps arbitrary: a)
  case (Cons p ps)
  obtain o1 a1 where 1: "feed p a = (o1, a1)" by fastforce
  obtain o2 a2 where 2: "feed_all ps a1 = (o2, a2)" by fastforce
  have "asm_ok a1" "\<forall>(p, s) \<in> set o1. s = [] \<or> framed s"
    using feed_ok [OF Cons.prems, of "\<lambda>s. s = [] \<or> framed s" p] 1 by auto
  with Cons.IH [of a1] show ?case by (auto simp: 1 2)
qed simp

lemma asm_ok_empty: "asm_ok Map.empty" "asm_ok (clearAll a)"
  by (simp_all add: asm_ok_def clearAll_def)

lemma asm_reset_ok: "asm_ok a \<Longrightarrow> asm_ok (asm_reset p a)"
  by (auto simp: asm_ok_def asm_reset_def split: option.splits)

subsection \<open>PIDs do not interfere\<close>

lemma feed_other: "pid pkt \<noteq> p \<Longrightarrow> snd (feed pkt a) p = a p \<and> (\<forall>(q, s) \<in> set (fst (feed pkt a)). q \<noteq> p)"
  by (auto simp: feed_def Let_def split: prod.splits)

lemma feed_same:
  assumes "a p = b p" "pid pkt = p"
  shows "fst (feed pkt a) = fst (feed pkt b) \<and> snd (feed pkt a) p = snd (feed pkt b) p \<and>
    (\<forall>(q, s) \<in> set (fst (feed pkt a)). q = p)"
  using assms by (auto simp: feed_def asm_state_def Let_def split: prod.splits)

text \<open>What a PID delivers depends on the packets of that PID only, whatever is interleaved with them.\<close>

lemma feed_all_pid:
  assumes "a p = b p"
  shows "filter (\<lambda>(q, s). q = p) (fst (feed_all ps a)) = fst (feed_all (filter (\<lambda>x. pid x = p) ps) b) \<and>
    snd (feed_all ps a) p = snd (feed_all (filter (\<lambda>x. pid x = p) ps) b) p"
  using assms
proof (induction ps arbitrary: a b)
  case (Cons x ps)
  obtain o1 a1 where 1: "feed x a = (o1, a1)" by fastforce
  obtain o2 b1 where 2: "feed x b = (o2, b1)" by fastforce
  show ?case
  proof (cases "pid x = p")
    case True
    with feed_same [of a p b x] Cons.prems True 1 2 have "o1 = o2" "a1 p = b1 p" "\<forall>(q, s) \<in> set o1. q = p" by auto
    with Cons.IH [of a1 b1] True 1 2 show ?thesis by (simp add: Let_def split_beta)
  next
    case False
    with feed_other [OF False, of a] 1 have "a1 p = a p" "\<forall>(q, s) \<in> set o1. q \<noteq> p" by auto
    with Cons.IH [of a1 b] Cons.prems False 1 show ?thesis by (simp add: Let_def split_beta)
  qed
qed simp

section \<open>Properties\<close>

text \<open>Whatever is fed, the assembler stays well formed (no buffer reaches its announced length, none
  exceeds 4096 bytes), and a delivered section is empty or exactly as long as its header announces;
  resetting a PID keeps this.\<close>

lemma assembler_delivers_framed:
  assumes "asm_ok a"
  shows "asm_ok (snd (feed_all ps a)) \<and> (\<forall>(p, s) \<in> set (fst (feed_all ps a)). s = [] \<or> framed s) \<and>
    asm_ok (asm_reset q a) \<and> asm_ok (clearAll a)"
  using feed_all_ok [OF assms, of ps] asm_reset_ok [OF assms] asm_ok_empty by blast

end
