(* ===== verification/PsiPackets.thy ===== *)
theory PsiPackets
  imports PsiAssembler
begin

text \<open>
  \<open>packetizeSection\<close> of \<^verbatim>\<open>src/gateway/ts/PsiBuilder.cpp\<close> and its composition with the
  assembler: what the builder cuts into packets the assembler delivers whole, from any state.
\<close>

definition psi_packet :: "u16 \<Rightarrow> bool \<Rightarrow> u8 \<Rightarrow> bytes \<Rightarrow> bytes" where
  "psi_packet p first cc chunk =
     (let h = [kTsSyncByte, (if first then 0x40 else 0x00) OR (ucast (drop_bit 8 p) AND 0x1F),
               ucast (p AND 0xFF), 0x10 OR (cc AND 0x0F)] @ (if first then [0x00] else [])
      in h @ chunk @ replicate (kTsPacketSize - length h - length chunk) 0xFF)"

function packetize_loop :: "u16 \<Rightarrow> bool \<Rightarrow> bytes \<Rightarrow> u8 \<Rightarrow> bytes list \<times> u8" where
  "packetize_loop p first section cc =
     (if section = [] then ([], cc)
      else
        let off = (if first then 5 else 4);
            n = min (kTsPacketSize - off) (length section);
            (ps, cc') = packetize_loop p False (drop n section) ((cc + 1) AND 0x0F)
        in (psi_packet p first cc (take n section) # ps, cc'))"
  by pat_completeness auto
termination by (relation "measure (\<lambda>(p, first, section, cc). length section)")
  (auto simp: kTsPacketSize_def min_def split: if_splits)

declare packetize_loop.simps [simp del]

definition packetizeSection :: "u16 \<Rightarrow> bytes \<Rightarrow> u8 \<Rightarrow> bytes list \<times> u8" where
  "packetizeSection p section cc = (if section = [] then ([], cc) else packetize_loop p True section cc)"

subsection \<open>One packet\<close>

lemma psi_packet_views:
  fixes p :: u16 and cc :: u8
  assumes "length chunk \<le> (if first then 183 else 184)"
  defines "pkt \<equiv> psi_packet p first cc chunk"
  shows "ts_packet pkt" "isValidSync pkt" "\<not> tei pkt" "pusi pkt \<longleftrightarrow> first" "pid pkt = p AND 0x1FFF"
    "scrambling pkt = 0" "afControl pkt = PayloadOnly" "hasPayload pkt" "continuityCounter pkt = cc AND 0x0F"
    "payload pkt = (if first then [0x00] else []) @ chunk
       @ replicate ((if first then 183 else 184) - length chunk) 0xFF"
proof -
  let ?pl = "(if first then [0x00] else []) @ chunk @ replicate ((if first then 183 else 184) - length chunk) 0xFF"
  have pkt: "pkt = [kTsSyncByte, (if first then 0x40 else 0x00) OR (ucast (drop_bit 8 p) AND 0x1F),
      ucast (p AND 0xFF), 0x10 OR (cc AND 0x0F)] @ ?pl"
    by (simp add: pkt_def psi_packet_def Let_def kTsPacketSize_def)
  have pl: "length ?pl = 184" using assms(1) by auto
  show ts: "ts_packet pkt" using pl by (simp only: ts_packet_def pkt length_append kTsPacketSize_def) simp
  have n: "pkt ! 0 = kTsSyncByte" "pkt ! 1 = (if first then 0x40 else 0x00) OR (ucast (drop_bit 8 p) AND 0x1F)"
    "pkt ! 2 = ucast (p AND 0xFF)" "pkt ! 3 = 0x10 OR (cc AND 0x0F)"
    by (simp_all add: pkt)
  note w = written_header [OF n, simplified]
  show "isValidSync pkt" "\<not> tei pkt" "pusi pkt \<longleftrightarrow> first" "pid pkt = p AND 0x1FFF" "scrambling pkt = 0"
    "hasPayload pkt" "continuityCounter pkt = cc AND 0x0F" and af: "afControl pkt = PayloadOnly"
    by (simp_all add: w)
  show "payload pkt = ?pl" using payload_only_drop [OF ts af] by (simp add: pkt)
qed

subsection \<open>Feeding the packets back\<close>

text \<open>The state the assembler is in after some packets of a section.\<close>

definition mid_state :: "bytes \<Rightarrow> bytes \<Rightarrow> u8 \<Rightarrow> PerPidState" where
  "mid_state section got cc = \<lparr>buffer = got, expected = length section, last_cc = cc, in_progress = True\<rparr>"

definition done_state :: "u8 \<Rightarrow> PerPidState" where
  "done_state cc = \<lparr>buffer = [], expected = 0, last_cc = cc, in_progress = True\<rparr>"

lemma dropWhile_stuffing: "dropWhile (\<lambda>b. b = 0xFF) (replicate n (0xFF :: u8)) = []"
  by (induction n) simp_all

text \<open>The continuation packet: the next chunk of the section, then stuffing once it is complete.\<close>

lemma consume_more:
  assumes "got @ chunk @ left = section" "chunk \<noteq> []" "left \<noteq> []"
  shows "consume chunk (mid_state section got cc) [] = ([], mid_state section (got @ chunk) cc)"
  using assms
  by (subst consume.simps) (auto simp: mid_state_def Let_def consume.simps [of "[]"])

lemma consume_last:
  assumes "got @ chunk = section" "chunk \<noteq> []"
  shows "consume (chunk @ replicate n 0xFF) (mid_state section got cc) [] = ([section], done_state cc)"
  using assms
  by (subst consume.simps) (auto simp: mid_state_def done_state_def Let_def dropWhile_stuffing consume.simps [of "[]"])

lemma consume_first:
  assumes fr: "framed section" and n: "3 \<le> length chunk" and sec: "chunk @ left = section"
    and st: "expected st = 0" "buffer st = []" "in_progress st"
  shows "left \<noteq> [] \<Longrightarrow> consume chunk st [] = ([], mid_state section chunk (last_cc st))"
    and "left = [] \<Longrightarrow> consume (chunk @ replicate m 0xFF) st [] = ([section], done_state (last_cc st))"
proof -
  have h: "take 3 section = take 3 chunk" using n sec by auto
  then have l: "sectionLengthFromHeader (take 3 chunk) = Some (length section)"
    using fr by (simp add: framed_def)
  have c: "st\<lparr>buffer := b, expected := e\<rparr> = \<lparr>buffer = b, expected = e, last_cc = last_cc st, in_progress = True\<rparr>" for b e
    using st(3) by (cases st) simp
  from n have ne: "chunk \<noteq> []" by auto
  show "consume chunk st [] = ([], mid_state section chunk (last_cc st))" if "left \<noteq> []"
    using that sec n l st ne by (subst consume.simps) (auto simp: Let_def c mid_state_def)
  show "consume (chunk @ replicate m 0xFF) st [] = ([section], done_state (last_cc st))" if "left = []"
    using that sec n l st ne by (subst consume.simps) (auto simp: Let_def c done_state_def)
qed

lemma feed_valid:
  assumes "isValidSync pkt" "\<not> tei pkt" "hasPayload pkt" "scrambling pkt = 0"
    "feed_state pkt (asm_state a (pid pkt)) = (secs, st)"
  shows "feed pkt a = (map (Pair (pid pkt)) secs, a(pid pkt \<mapsto> st))"
  using assms by (simp add: feed_def Let_def)

lemma feed_more:
  assumes st: "a (p AND 0x1FFF) = Some (mid_state section got lc)" and cc: "cc AND 0x0F = (lc + 1) AND 0x0F"
    and sec: "got @ chunk @ left = section" and ne: "chunk \<noteq> []" and len: "length chunk \<le> 184"
  shows "left \<noteq> [] \<Longrightarrow> length chunk = 184 \<Longrightarrow> feed (psi_packet p False cc chunk) a =
      ([], a(p AND 0x1FFF \<mapsto> mid_state section (got @ chunk) (cc AND 0x0F)))"
    and "left = [] \<Longrightarrow> feed (psi_packet p False cc chunk) a =
      ([(p AND 0x1FFF, section)], a(p AND 0x1FFF \<mapsto> done_state (cc AND 0x0F)))"
proof -
  let ?pkt = "psi_packet p False cc chunk"
  have l: "length chunk \<le> (if False then 183 else 184)" using len by simp
  note v = psi_packet_views [OF l, of p cc]
  have ast: "asm_state a (pid ?pkt) = mid_state section got lc" using st v(5) by (simp add: asm_state_def)
  have upd: "mid_state section got lc\<lparr>last_cc := c\<rparr> = mid_state section got c" for c
    by (simp add: mid_state_def)
  have fs: "feed_state ?pkt (mid_state section got lc) =
      consume (chunk @ replicate (184 - length chunk) 0xFF) (mid_state section got (cc AND 0x0F)) []"
  proof -
    have "in_progress (mid_state section got lc)" "last_cc (mid_state section got lc) = lc"
      by (simp_all add: mid_state_def)
    then show ?thesis
      using v(4,9,10) cc ne upd [of "cc AND 0x0F"]
      by (simp add: feed_state_def Let_def mid_state_def)
  qed
  note fv = feed_valid [OF v(2,3,8,6), of a, unfolded ast fs, simplified v(5)]
  show "feed ?pkt a = ([], a(p AND 0x1FFF \<mapsto> mid_state section (got @ chunk) (cc AND 0x0F)))"
    if "left \<noteq> []" "length chunk = 184"
    using fv consume_more [OF sec ne that(1)] that(2) by simp
  show "feed ?pkt a = ([(p AND 0x1FFF, section)], a(p AND 0x1FFF \<mapsto> done_state (cc AND 0x0F)))"
    if "left = []"
    using fv consume_last [of got chunk "section"] sec ne that by simp
qed

lemma feed_first:
  assumes fr: "framed section" and sec: "chunk @ left = section" and n: "3 \<le> length chunk"
    and len: "length chunk \<le> 183"
  shows "left \<noteq> [] \<Longrightarrow> length chunk = 183 \<Longrightarrow> feed (psi_packet p True cc chunk) a =
      ([], a(p AND 0x1FFF \<mapsto> mid_state section chunk (cc AND 0x0F)))"
    and "left = [] \<Longrightarrow> feed (psi_packet p True cc chunk) a =
      ([(p AND 0x1FFF, section)], a(p AND 0x1FFF \<mapsto> done_state (cc AND 0x0F)))"
proof -
  let ?pkt = "psi_packet p True cc chunk"
  have l: "length chunk \<le> (if True then 183 else 184)" using len by simp
  note v = psi_packet_views [OF l, of p cc]
  let ?fresh = "\<lambda>st. st\<lparr>last_cc := cc AND 0x0F, buffer := [], expected := 0, in_progress := True\<rparr>"
  have "\<exists>st. feed_state ?pkt st0 = consume (chunk @ replicate (183 - length chunk) 0xFF) (?fresh st) []" for st0
    using v(4,9,10) by (auto simp: feed_state_def start_section_def Let_def)
  then obtain st where fs: "feed_state ?pkt (asm_state a (pid ?pkt)) =
      consume (chunk @ replicate (183 - length chunk) 0xFF) (?fresh st) []" by blast
  have f: "expected (?fresh st) = 0" "buffer (?fresh st) = []" "in_progress (?fresh st)"
    "last_cc (?fresh st) = cc AND 0x0F" by simp_all
  note c = consume_first [OF fr n sec f(1-3), unfolded f(4)]
  note fv = feed_valid [OF v(2,3,8,6), of a, unfolded fs, simplified v(5)]
  show "feed ?pkt a = ([], a(p AND 0x1FFF \<mapsto> mid_state section chunk (cc AND 0x0F)))"
    if "left \<noteq> []" "length chunk = 183"
    using fv c(1) [OF that(1)] that(2) by simp
  show "feed ?pkt a = ([(p AND 0x1FFF, section)], a(p AND 0x1FFF \<mapsto> done_state (cc AND 0x0F)))"
    if "left = []"
    using fv c(2) [OF that] by simp
qed

lemma packetize_rest:
  assumes "a (p AND 0x1FFF) = Some (mid_state sec got lc)" "cc AND 0x0F = (lc + 1) AND 0x0F"
    "got @ rest = sec" "rest \<noteq> []"
  shows "\<exists>c. feed_all (fst (packetize_loop p False rest cc)) a =
    ([(p AND 0x1FFF, sec)], a(p AND 0x1FFF \<mapsto> done_state c))"
  using assms
proof (induction "length rest" arbitrary: a got lc cc rest rule: less_induct)
  case less
  define n where "n = min 184 (length rest)"
  have chunk: "take n rest \<noteq> []" "length (take n rest) \<le> 184" using less.prems(4) by (simp_all add: n_def)
  have split: "got @ take n rest @ drop n rest = sec" using less.prems(3) by simp
  obtain ps c1 where ps: "packetize_loop p False (drop n rest) ((cc + 1) AND 0x0F) = (ps, c1)" by fastforce
  have loop: "fst (packetize_loop p False rest cc) = psi_packet p False cc (take n rest) # ps"
    using less.prems(4) ps by (subst packetize_loop.simps) (simp add: n_def kTsPacketSize_def Let_def)
  note more = feed_more [where a = a and p = p and got = got and chunk = "take n rest" and left = "drop n rest", OF less.prems(1,2) split chunk]
  show ?case
  proof (cases "drop n rest = []")
    case True
    then have "ps = []" using ps by (simp add: packetize_loop.simps)
    then show ?thesis using more(2) [OF True] loop by auto
  next
    case False
    then have len: "length (take n rest) = 184" by (simp add: n_def)
    let ?a = "a(p AND 0x1FFF \<mapsto> mid_state sec (got @ take n rest) (cc AND 0x0F))"
    have "length (drop n rest) < length rest" using less.prems(4) by (simp add: n_def)
    from less.hyps [OF this, of ?a "got @ take n rest" "cc AND 0x0F" "(cc + 1) AND 0x0F"] False split
    obtain c where "feed_all (fst (packetize_loop p False (drop n rest) ((cc + 1) AND 0x0F))) ?a =
        ([(p AND 0x1FFF, sec)], ?a(p AND 0x1FFF \<mapsto> done_state c))"
      by (auto simp: cc_next)
    then show ?thesis using more(1) [OF False len] loop ps by (auto simp: Let_def)
  qed
qed

lemma packetize_feed:
  assumes fr: "framed sec"
  shows "\<exists>c. feed_all (fst (packetizeSection p sec cc)) a =
    ([(p AND 0x1FFF, sec)], a(p AND 0x1FFF \<mapsto> done_state c))"
proof -
  have sec3: "3 \<le> length sec" using fr sectionLength_bounds by (auto simp: framed_def)
  then have ne: "sec \<noteq> []" by auto
  define n where "n = min 183 (length sec)"
  have chunk: "3 \<le> length (take n sec)" "length (take n sec) \<le> 183" using sec3 by (simp_all add: n_def)
  obtain ps c1 where ps: "packetize_loop p False (drop n sec) ((cc + 1) AND 0x0F) = (ps, c1)" by fastforce
  have loop: "fst (packetizeSection p sec cc) = psi_packet p True cc (take n sec) # ps"
    using ne ps unfolding packetizeSection_def
    by (subst packetize_loop.simps) (simp add: n_def kTsPacketSize_def Let_def)
  note first = feed_first [OF fr append_take_drop_id chunk]
  show ?thesis
  proof (cases "drop n sec = []")
    case True
    then have "ps = []" using ps by (simp add: packetize_loop.simps)
    then show ?thesis using first(2) [OF True] loop by auto
  next
    case False
    then have len: "length (take n sec) = 183" by (simp add: n_def)
    let ?a = "a(p AND 0x1FFF \<mapsto> mid_state sec (take n sec) (cc AND 0x0F))"
    have "\<exists>c. feed_all (fst (packetize_loop p False (drop n sec) ((cc + 1) AND 0x0F))) ?a =
        ([(p AND 0x1FFF, sec)], ?a(p AND 0x1FFF \<mapsto> done_state c))"
      by (rule packetize_rest [where lc = "cc AND 0x0F"]) (use False in \<open>auto simp: cc_next\<close>)
    then show ?thesis using first(1) [OF False len] loop ps by (auto simp: Let_def)
  qed
qed

text \<open>The continuity counter advances once per packet.\<close>

lemma packetize_count:
  "snd (packetize_loop p f sec cc) AND 0x0F =
     (cc + of_nat (length (fst (packetize_loop p f sec cc)))) AND 0x0F"
proof (induction "length sec" arbitrary: f sec cc rule: less_induct)
  case less
  show ?case
  proof (cases "sec = []")
    case True
    then show ?thesis by (simp add: packetize_loop.simps)
  next
    case False
    define n where "n = min (kTsPacketSize - (if f then 5 else 4)) (length sec)"
    obtain ps c1 where ps: "packetize_loop p False (drop n sec) ((cc + 1) AND 0x0F) = (ps, c1)" by fastforce
    have loop: "packetize_loop p f sec cc = (psi_packet p f cc (take n sec) # ps, c1)"
      using False ps by (subst packetize_loop.simps) (simp add: n_def Let_def)
    have "length (drop n sec) < length sec" using False by (auto simp: n_def kTsPacketSize_def)
    from less.hyps [OF this, of False "(cc + 1) AND 0x0F"] ps
    have "c1 AND 0x0F = (((cc + 1) AND 0x0F) + of_nat (length ps)) AND 0x0F" by simp
    also have "\<dots> = (cc + 1 + of_nat (length ps)) AND 0x0F"
      unfolding masks
      by (rule word_unat_eq_iff [THEN iffD2])
        (simp add: unsigned_take_bit_eq unat_word_ariths take_bit_eq_mod mod_simps mod_mod_cancel)
    finally show ?thesis by (simp add: loop algebra_simps)
  qed
qed

subsection \<open>Two sections in one payload\<close>

text \<open>What is left of the payload after a section that completes in the packet that starts it is
  discarded with the buffer, whatever it holds.\<close>

lemma second_section_lost:
  assumes "framed s1" "length s1 + length s2 \<le> 183"
  shows "fst (feed (psi_packet p True cc (s1 @ s2)) a) = [(p AND 0x1FFF, s1)]"
proof -
  let ?pkt = "psi_packet p True cc (s1 @ s2)"
  have l: "length (s1 @ s2) \<le> (if True then 183 else 184)" using assms by simp
  note v = psi_packet_views [OF l, of p cc]
  have s3: "3 \<le> length s1" using assms(1) sectionLength_bounds by (auto simp: framed_def)
  then have ne: "s1 \<noteq> []" by auto
  have len: "sectionLengthFromHeader (take 3 s1) = Some (length s1)" using assms(1) by (simp add: framed_def)
  have c: "fst (consume (s1 @ xs) st []) = [s1]" if "expected st = 0" "buffer st = []" for xs st
    using that s3 ne len by (subst consume.simps) (simp add: Let_def)
  have "fst (feed_state ?pkt st0) = [s1]" for st0
    using v(4,9,10) c by (simp add: feed_state_def start_section_def Let_def)
  then obtain st where "feed_state ?pkt (asm_state a (pid ?pkt)) = ([s1], st)" by (metis prod.collapse)
  from feed_valid [OF v(2,3,8,6) this] show ?thesis by (simp add: v(5))
qed

subsection \<open>Among the packets of other PIDs\<close>

text \<open>The packets of a section may be interleaved with any packets of other PIDs.\<close>

lemma packetize_interleaved:
  assumes "framed sec" "filter (\<lambda>x. pid x = p AND 0x1FFF) ps = fst (packetizeSection p sec cc)"
  shows "filter (\<lambda>(q, s). q = p AND 0x1FFF) (fst (feed_all ps a)) = [(p AND 0x1FFF, sec)]"
  using feed_all_pid [of a "p AND 0x1FFF" a ps] packetize_feed [OF assms(1), of p cc a] assms(2) by auto

section \<open>Properties\<close>

text \<open>C23: the packets of a section may be interleaved with any packets of other PIDs and the assembler may
  be in any state: the PID delivers exactly the section, once.\<close>

theorem section_survives_interleaving:
  assumes "framed sec" "filter (\<lambda>x. pid x = p AND 0x1FFF) ps = fst (packetizeSection p sec cc)"
  shows "filter (\<lambda>(q, s). q = p AND 0x1FFF) (fst (feed_all ps a)) = [(p AND 0x1FFF, sec)]"
  by (rule packetize_interleaved [OF assms])

theorem section_survives_interleaving_witness:
  "filter (\<lambda>(q, s). q = 0x20 AND 0x1FFF) (fst (feed_all (makeNullPacket # fst (packetizeSection 0x20 [2, 0xB0, 1, 7] 3))
      Map.empty)) = [(0x20 AND 0x1FFF, [2, 0xB0, 1, 7])]"
proof (rule section_survives_interleaving)
  show "framed [2, 0xB0, 1, 7]" by (simp add: framed_def sectionLengthFromHeader_def be12_def be16_def)
  have "packetizeSection 0x20 [2, 0xB0, 1, 7] 3 = ([psi_packet 0x20 True 3 [2, 0xB0, 1, 7]], 4)"
    unfolding packetizeSection_def
    by (subst packetize_loop.simps, subst packetize_loop.simps) (simp add: kTsPacketSize_def)
  then show "filter (\<lambda>x. pid x = 0x20 AND 0x1FFF) (makeNullPacket # fst (packetizeSection 0x20 [2, 0xB0, 1, 7] 3)) =
      fst (packetizeSection 0x20 [2, 0xB0, 1, 7] 3)"
    using psi_packet_views(5) [of "[2, 0xB0, 1, 7]" True "0x20" 3] makeNullPacket_header(3)
    by (simp add: kPidNull_def)
qed

text \<open>A second section in the same payload as a complete first one is discarded, although a payload may
  carry several.\<close>

lemma second_section_discarded:
  assumes "framed s1" "length s1 + length s2 \<le> 183"
  shows "fst (feed (psi_packet p True cc (s1 @ s2)) a) = [(p AND 0x1FFF, s1)]"
  by (rule second_section_lost [OF assms])

end
