(* ===== verification/Pes.thy ===== *)
theory Pes
  imports TsPacket
begin

text \<open>
  \<^verbatim>\<open>src/gateway/ts/PesAssembler.{h,cpp}\<close>: the 33-bit timestamp codec, the PES assembler
  with its counters, and the packetizer. The sink is the list of packets delivered. A signed
  timestamp is its 64-bit pattern; decoded values are below \<open>2 ^ 33\<close>, so both readings agree.
\<close>

record PesPacket =
  stream_id :: u8
  pts_90khz :: "u64 option"
  dts_90khz :: "u64 option"
  es :: bytes

record PesAssembler =
  pes_buffer :: bytes
  collecting :: bool
  pes_last_cc :: "u8 option"
  pes_assembled :: u64
  cc_discontinuities :: u64
  malformed_pes :: u64

definition new_PesAssembler :: PesAssembler where
  "new_PesAssembler = \<lparr>pes_buffer = [], collecting = False, pes_last_cc = None,
     pes_assembled = 0, cc_discontinuities = 0, malformed_pes = 0\<rparr>"

definition streamIdHasOptionalHeader :: "u8 \<Rightarrow> bool" where
  "streamIdHasOptionalHeader sid \<longleftrightarrow>
     \<not> (sid = 0xBC \<or> sid = 0xBE \<or> sid = 0xBF \<or> sid = 0xF0 \<or> sid = 0xF1 \<or> sid = 0xFF \<or> sid = 0xF2 \<or> sid = 0xF8)"

subsection \<open>Timestamps\<close>

definition decodePts33 :: "bytes \<Rightarrow> u64" where
  "decodePts33 p =
     push_bit 30 (drop_bit 1 (ucast (p ! 0)) AND 0x07) OR push_bit 22 (ucast (p ! 1))
     OR push_bit 15 (drop_bit 1 (ucast (p ! 2)) AND 0x7F) OR push_bit 7 (ucast (p ! 3))
     OR (drop_bit 1 (ucast (p ! 4)) AND 0x7F)"

definition encodePts33 :: "u64 \<Rightarrow> u8 \<Rightarrow> bytes" where
  "encodePts33 pts prefix = (let v = pts AND 0x1FFFFFFFF in
     [push_bit 4 (prefix AND 0x0F) OR push_bit 1 (ucast (drop_bit 30 v AND 0x07)) OR 0x01,
      ucast (drop_bit 22 v AND 0xFF),
      ucast (push_bit 1 (drop_bit 15 v AND 0x7F) OR 0x01),
      ucast (drop_bit 7 v AND 0xFF),
      ucast (push_bit 1 (v AND 0x7F) OR 0x01)])"

lemma bit_1_iff_word [simp]: "bit (1 :: 'a::len word) n \<longleftrightarrow> n = 0"
  by (simp add: bit_1_iff)

lemma decode_encode_Pts33: "decodePts33 (encodePts33 v prefix) = v AND 0x1FFFFFFFF"
proof -
  have low: "take_bit 33 v = push_bit 30 (take_bit 3 (drop_bit 30 v)) OR push_bit 22 (take_bit 8 (drop_bit 22 v))
      OR push_bit 15 (take_bit 7 (drop_bit 15 v)) OR push_bit 7 (take_bit 8 (drop_bit 7 v)) OR take_bit 7 v"
  proof (rule bit_word_eqI)
    fix n assume "n < LENGTH(64)"
    consider "n < 7" | "7 \<le> n" "n < 15" | "15 \<le> n" "n < 22" | "22 \<le> n" "n < 30" | "30 \<le> n" "n < 33" | "33 \<le> n"
      by force
    then show "bit (take_bit 33 v) n = bit (push_bit 30 (take_bit 3 (drop_bit 30 v))
        OR push_bit 22 (take_bit 8 (drop_bit 22 v)) OR push_bit 15 (take_bit 7 (drop_bit 15 v))
        OR push_bit 7 (take_bit 8 (drop_bit 7 v)) OR take_bit 7 v) n"
      using \<open>n < LENGTH(64)\<close> by cases (auto simp: bit_simps)
  qed
  have f: "drop_bit 1 (ucast (push_bit 4 (take_bit 4 prefix) OR push_bit 1 (ucast (take_bit 3 w)) OR 1 :: u8)) AND 0x07
      = (take_bit 3 w :: u64)" for w
    unfolding masks by (rule bit_word_eqI) (auto simp: bit_simps)
  have g: "drop_bit 1 (ucast (ucast (push_bit 1 (take_bit 7 w) OR 1 :: u64) :: u8)) AND 0x7F = (take_bit 7 w :: u64)" for w
    unfolding masks by (rule bit_word_eqI) (auto simp: bit_simps)
  have h: "ucast (ucast (take_bit 8 w :: u64) :: u8) = take_bit 8 w" for w
    by (rule bit_word_eqI) (auto simp: bit_simps)
  have t: "take_bit 3 (drop_bit 30 (take_bit 33 v)) = take_bit 3 (drop_bit 30 v)"
    "take_bit 8 (drop_bit 22 (take_bit 33 v)) = take_bit 8 (drop_bit 22 v)"
    "take_bit 7 (drop_bit 15 (take_bit 33 v)) = take_bit 7 (drop_bit 15 v)"
    "take_bit 8 (drop_bit 7 (take_bit 33 v)) = take_bit 8 (drop_bit 7 v)"
    "take_bit 7 (take_bit 33 v) = take_bit 7 v"
    by (rule bit_word_eqI; auto simp: bit_simps)+
  let ?e = "encodePts33 v prefix"
  let ?w = "take_bit 33 v"
  have n: "?e ! 0 = push_bit 4 (take_bit 4 prefix) OR push_bit 1 (ucast (take_bit 3 (drop_bit 30 ?w))) OR 1"
    "?e ! 1 = ucast (take_bit 8 (drop_bit 22 ?w))"
    "?e ! 2 = ucast (push_bit 1 (take_bit 7 (drop_bit 15 ?w)) OR 1)"
    "?e ! 3 = ucast (take_bit 8 (drop_bit 7 ?w))"
    "?e ! 4 = ucast (push_bit 1 (take_bit 7 ?w) OR 1)"
    unfolding encodePts33_def Let_def masks by simp_all
  have "decodePts33 ?e = push_bit 30 (take_bit 3 (drop_bit 30 ?w)) OR push_bit 22 (take_bit 8 (drop_bit 22 ?w))
      OR push_bit 15 (take_bit 7 (drop_bit 15 ?w)) OR push_bit 7 (take_bit 8 (drop_bit 7 ?w)) OR take_bit 7 ?w"
    unfolding decodePts33_def n f g h ..
  also have "\<dots> = take_bit 33 v" unfolding t by (rule low [symmetric])
  finally show ?thesis unfolding masks .
qed

lemma length_encodePts33 [simp]: "length (encodePts33 v prefix) = 5"
  by (simp add: encodePts33_def Let_def)

subsection \<open>The assembler\<close>

text \<open>The PES packet in a buffer, or None where \<open>finalize\<close> counts it as malformed.\<close>

definition parse_pes :: "bytes \<Rightarrow> PesPacket option" where
  "parse_pes b =
     (if length b < 6 then None
      else if b ! 0 \<noteq> 0x00 \<or> b ! 1 \<noteq> 0x00 \<or> b ! 2 \<noteq> 0x01 then None
      else
        let sid = b ! 3;
            pkt_length = unat (be16 (b ! 4) (b ! 5));
            opt = streamIdHasOptionalHeader sid;
            hdr_len = unat (b ! 8);
            pts_dts = drop_bit 6 (b ! 7) AND 0x03;
            pts = (if opt \<and> (pts_dts = 2 \<and> 5 \<le> hdr_len \<or> pts_dts = 3 \<and> 10 \<le> hdr_len)
                   then Some (decodePts33 (drop 9 b)) else None);
            dts = (if opt \<and> pts_dts = 3 \<and> 10 \<le> hdr_len then Some (decodePts33 (drop 14 b)) else None);
            es_offset = (if opt then 9 + hdr_len else 6);
            es_end = (if 0 < pkt_length \<and> 6 + pkt_length \<le> length b then 6 + pkt_length else length b)
        in if opt \<and> length b < 9 then None
           else if opt \<and> es_offset > length b then None
           else if es_offset > es_end then None
           else Some \<lparr>stream_id = sid, pts_90khz = pts, dts_90khz = dts,
                      es = take (es_end - es_offset) (drop es_offset b)\<rparr>)"

definition pes_clear :: "PesAssembler \<Rightarrow> PesAssembler" where
  "pes_clear a = a\<lparr>pes_buffer := [], collecting := False\<rparr>"

definition finalize :: "PesAssembler \<Rightarrow> PesPacket list \<times> PesAssembler" where
  "finalize a =
     (if \<not> collecting a then ([], pes_clear a)
      else case parse_pes (pes_buffer a) of
        None \<Rightarrow> ([], pes_clear (a\<lparr>malformed_pes := malformed_pes a + 1\<rparr>))
      | Some p \<Rightarrow> ([p], pes_clear (a\<lparr>pes_assembled := pes_assembled a + 1\<rparr>)))"

definition pes_reset :: "PesAssembler \<Rightarrow> PesAssembler" where
  "pes_reset a = (pes_clear a)\<lparr>pes_last_cc := None\<rparr>"

definition pes_flush :: "PesAssembler \<Rightarrow> PesPacket list \<times> PesAssembler" where
  "pes_flush a = (let (out, a1) = finalize a in (out, a1\<lparr>pes_last_cc := None\<rparr>))"

text \<open>The payload part of \<open>feed\<close>, after the continuity check.\<close>

definition pes_take :: "bytes \<Rightarrow> PesAssembler \<Rightarrow> PesPacket list \<times> PesAssembler" where
  "pes_take pkt a =
     (if \<not> hasPayload pkt then ([], a)
      else if payload pkt = [] then ([], a)
      else if pusi pkt then
        (let (out, a1) = finalize a in (out, a1\<lparr>pes_buffer := payload pkt, collecting := True\<rparr>))
      else if collecting a then ([], a\<lparr>pes_buffer := pes_buffer a @ payload pkt\<rparr>)
      else ([], a))"

definition pes_feed :: "bytes \<Rightarrow> PesAssembler \<Rightarrow> PesPacket list \<times> PesAssembler" where
  "pes_feed pkt a =
     (if \<not> isValidSync pkt \<or> tei pkt
      then ([], pes_reset (if collecting a then a\<lparr>malformed_pes := malformed_pes a + 1\<rparr> else a))
      else if scrambling pkt \<noteq> 0 then ([], pes_reset a)
      else if hasPayload pkt then
        let cc = continuityCounter pkt in
        case pes_last_cc a of
          None \<Rightarrow> pes_take pkt (a\<lparr>pes_last_cc := Some cc\<rparr>)
        | Some lc \<Rightarrow>
            if cc \<noteq> (lc + 1) AND 0x0F then
              let a1 = (pes_reset (a\<lparr>cc_discontinuities := cc_discontinuities a + 1\<rparr>))\<lparr>pes_last_cc := Some cc\<rparr>
              in if \<not> pusi pkt then ([], a1) else pes_take pkt a1
            else pes_take pkt (a\<lparr>pes_last_cc := Some cc\<rparr>)
      else ([], a))"

fun pes_feed_all :: "bytes list \<Rightarrow> PesAssembler \<Rightarrow> PesPacket list \<times> PesAssembler" where
  "pes_feed_all [] a = ([], a)"
| "pes_feed_all (p # ps) a =
     (let (o1, a1) = pes_feed p a; (o2, a2) = pes_feed_all ps a1 in (o1 @ o2, a2))"

subsection \<open>The packetizer\<close>

definition pes_header :: "PesPacket \<Rightarrow> bytes" where
  "pes_header p =
     (let flags = (if pts_90khz p \<noteq> None \<and> dts_90khz p \<noteq> None then 3
                   else if pts_90khz p \<noteq> None then 2 else 0 :: u8);
          stamps = (if flags = 2 then encodePts33 (the (pts_90khz p)) 0x2
                    else if flags = 3 then encodePts33 (the (pts_90khz p)) 0x3
                                           @ encodePts33 (the (dts_90khz p)) 0x1
                    else []);
          total_after_fixed = 3 + length stamps + length (es p);
          length_field = (if total_after_fixed \<le> 0xFFFF \<and> (stream_id p < 0xE0 \<or> stream_id p > 0xEF)
                          then of_nat total_after_fixed else 0 :: u16)
      in [0x00, 0x00, 0x01, stream_id p, hi8 length_field, lo8 length_field,
          0x80, push_bit 6 flags, of_nat (length stamps)] @ stamps)"

definition emit_packet :: "u16 \<Rightarrow> u8 \<Rightarrow> bytes \<Rightarrow> bool \<Rightarrow> bytes" where
  "emit_packet p cc pl first =
     [kTsSyncByte, (if first then 0x40 else 0x00) OR (ucast (drop_bit 8 p) AND 0x1F), ucast (p AND 0xFF)]
     @ (if length pl < 184 then
          (let af_len = 184 - length pl - 1
           in [0x30 OR (cc AND 0x0F), of_nat af_len]
              @ (if 1 \<le> af_len then 0x00 # replicate (af_len - 1) 0xFF else []))
        else [0x10 OR (cc AND 0x0F)])
     @ pl"

function emit_chunks :: "u16 \<Rightarrow> u8 \<Rightarrow> bytes \<Rightarrow> bool \<Rightarrow> bytes list \<times> u8" where
  "emit_chunks p cc linear first =
     (if linear = [] then ([], cc)
      else
        let chunk = min (length linear) 184;
            (ps, cc') = emit_chunks p ((cc + 1) AND 0x0F) (drop chunk linear) False
        in (emit_packet p cc (take chunk linear) first # ps, cc'))"
  by pat_completeness auto
termination by (relation "measure (\<lambda>(p, cc, linear, first). length linear)") (auto simp: min_def)

declare emit_chunks.simps [simp del]

definition emit :: "u16 \<Rightarrow> u8 \<Rightarrow> PesPacket \<Rightarrow> bytes list \<times> u8" where
  "emit p cc pes = emit_chunks p cc (pes_header pes @ es pes) True"

lemma emit_packet_views:
  fixes p :: u16 and cc :: u8 and first :: bool
  assumes "length pl \<le> 184"
  defines "pkt \<equiv> emit_packet p cc pl first"
  shows "ts_packet pkt" "isValidSync pkt" "\<not> tei pkt" "pusi pkt \<longleftrightarrow> first" "pid pkt = p AND 0x1FFF"
    "scrambling pkt = 0" "hasPayload pkt" "continuityCounter pkt = cc AND 0x0F" "payload pkt = pl"
proof -
  let ?af = "(if length pl < 184 then 0x30 else 0x10) :: u8"
  have n: "pkt ! 0 = kTsSyncByte" "pkt ! 1 = (if first then 0x40 else 0x00) OR (ucast (drop_bit 8 p) AND 0x1F)"
    "pkt ! 2 = ucast (p AND 0xFF)" "pkt ! 3 = ?af OR (cc AND 0x0F)"
    by (simp_all add: pkt_def emit_packet_def Let_def)
  have af: "?af = 0x10 \<or> ?af = 0x30" by simp
  note w = written_header [OF n af]
  show "isValidSync pkt" "\<not> tei pkt" "pusi pkt \<longleftrightarrow> first" "pid pkt = p AND 0x1FFF" "scrambling pkt = 0"
    "hasPayload pkt" "continuityCounter pkt = cc AND 0x0F" by (rule w)+
  show ts: "ts_packet pkt"
  proof (cases "length pl < 184")
    case False
    then show ?thesis using assms(1) by (simp add: pkt_def emit_packet_def ts_packet_def kTsPacketSize_def)
  next
    case True
    define k where "k = 184 - length pl - 1"
    have k: "k + length pl = 183" using True by (simp add: k_def)
    then have "length pkt = 188"
      using True by (cases k) (simp_all add: pkt_def emit_packet_def Let_def k_def [symmetric])
    then show ?thesis by (simp add: ts_packet_def kTsPacketSize_def)
  qed
  show "payload pkt = pl"
  proof (cases "length pl < 184")
    case False
    then have "afControl pkt = PayloadOnly" using w(6) by simp
    from payload_only_drop [OF ts this] False show ?thesis
      by (simp add: pkt_def emit_packet_def)
  next
    case True
    define k where "k = 184 - length pl - 1"
    have k: "k \<le> 183" "k + length pl = 183" using True by (simp_all add: k_def)
    have n4: "pkt ! 4 = of_nat k" using True by (simp add: pkt_def emit_packet_def Let_def k_def)
    have u: "unat (of_nat k :: u8) = k" by (rule unat_of_nat_small) (use k in simp)
    have off: "payloadOffset pkt = 5 + k"
      using w(6,7) True k by (simp add: payloadOffset_def hasAdaptationField_def adaptationFieldLength_def
          n4 u kTsPacketSize_def)
    have pkt: "pkt = (take 4 pkt @ [of_nat k] @ (if 1 \<le> k then 0x00 # replicate (k - 1) 0xFF else [])) @ pl"
      using True by (simp add: pkt_def emit_packet_def Let_def k_def)
    have len: "length (take 4 pkt @ [of_nat k :: u8] @ (if 1 \<le> k then 0x00 # replicate (k - 1) 0xFF else [])) = 5 + k"
      using ts by (simp add: ts_packet_def kTsPacketSize_def)
    show ?thesis
      unfolding payload_drop [OF ts] off by (subst pkt, subst len [symmetric]) simp
  qed
qed

subsection \<open>Round trip\<close>

text \<open>What a PES header carries: 33-bit timestamps, and a DTS only beside a PTS.\<close>

definition mask_pes :: "PesPacket \<Rightarrow> PesPacket" where
  "mask_pes p = p\<lparr>pts_90khz := map_option (\<lambda>v. v AND 0x1FFFFFFFF) (pts_90khz p),
     dts_90khz := (if pts_90khz p = None then None else map_option (\<lambda>v. v AND 0x1FFFFFFFF) (dts_90khz p))\<rparr>"

lemma decodePts33_append: "decodePts33 (encodePts33 v k @ rest) = v AND 0x1FFFFFFFF"
proof -
  have "decodePts33 (encodePts33 v k @ rest) = decodePts33 (encodePts33 v k)"
    by (simp add: decodePts33_def nth_append)
  then show ?thesis by (simp add: decode_encode_Pts33)
qed

text \<open>A buffer with the header fields the packetizer writes.\<close>

lemma parse_pes_header:
  assumes opt: "streamIdHasOptionalHeader sid"
    and b: "b = [0, 0, 1, sid, hi8 len, lo8 len, 0x80, push_bit 6 fl, of_nat (length st)] @ st @ e"
    and len: "len = 0 \<or> unat len = 3 + length st + length e" and st: "length st < 256" and fl: "fl < 4"
  shows "parse_pes b = Some \<lparr>stream_id = sid,
     pts_90khz = (if fl = 2 \<and> 5 \<le> length st \<or> fl = 3 \<and> 10 \<le> length st then Some (decodePts33 (st @ e)) else None),
     dts_90khz = (if fl = 3 \<and> 10 \<le> length st then Some (decodePts33 (drop 5 (st @ e))) else None), es = e\<rparr>"
proof -
  have n: "b ! 0 = 0" "b ! 1 = 0" "b ! 2 = 1" "b ! 3 = sid" "b ! 4 = hi8 len" "b ! 5 = lo8 len"
    "b ! 7 = push_bit 6 fl" "b ! 8 = of_nat (length st)" "drop 9 b = st @ e" "drop 14 b = drop 5 (st @ e)"
    "length b = 9 + length st + length e"
    by (simp_all add: b numeral_eq_Suc)
  have u: "unat (of_nat (length st) :: u8) = length st" by (rule unat_of_nat_small) (use st in simp)
  have f: "drop_bit 6 (push_bit 6 fl) AND 0x03 = fl"
  proof -
    have "take_bit 2 fl = fl"
      by (rule word_unat_eq_iff [THEN iffD2])
        (use fl in \<open>simp add: unsigned_take_bit_eq take_bit_nat_eq_self word_less_nat_alt\<close>)
    moreover have "drop_bit 6 (push_bit 6 fl) AND 0x03 = take_bit 2 fl"
      unfolding masks by (rule bit_word_eqI) (auto simp: bit_simps)
    ultimately show ?thesis by simp
  qed
  define e_end where "e_end = (if 0 < unat len \<and> 6 + unat len \<le> length b then 6 + unat len else length b)"
  have ee: "e_end = length b" using len n(11) by (auto simp: e_end_def)
  have d: "drop (9 + length st) b = e" by (simp add: b numeral_eq_Suc)
  show ?thesis
    unfolding parse_pes_def Let_def n(1-10) f u be16_hi8_lo8 e_end_def [symmetric] ee
    using opt n(11) d by simp
qed

lemma parse_emitted:
  assumes "streamIdHasOptionalHeader (stream_id p)"
  shows "parse_pes (pes_header p @ es p) = Some (mask_pes p)"
proof -
  define n where "n = (if pts_90khz p = None then 0 else if dts_90khz p = None then 5 else 10 :: nat)"
  define len where "len = (if 3 + n + length (es p) \<le> 0xFFFF \<and> (stream_id p < 0xE0 \<or> stream_id p > 0xEF)
    then of_nat (3 + n + length (es p)) else 0 :: u16)"
  have len: "len = 0 \<or> unat len = 3 + n + length (es p)"
    by (auto simp: len_def unat_of_nat_small simp del: of_nat_add)
  consider (none) "pts_90khz p = None" | (pts) v where "pts_90khz p = Some v" "dts_90khz p = None"
    | (both) v w where "pts_90khz p = Some v" "dts_90khz p = Some w" by force
  then show ?thesis
  proof cases
    case none
    then have n0: "n = 0" by (simp add: n_def)
    have "pes_header p @ es p = [0, 0, 1, stream_id p, hi8 len, lo8 len, 0x80, push_bit 6 0, of_nat (length [])] @ [] @ es p"
      using none by (auto simp: pes_header_def Let_def len_def n0)
    from parse_pes_header [OF assms this] len n0 none show ?thesis by (cases p) (simp add: mask_pes_def)
  next
    case (pts v)
    then have n5: "n = 5" by (simp add: n_def)
    let ?st = "encodePts33 v 0x2"
    have "pes_header p @ es p = [0, 0, 1, stream_id p, hi8 len, lo8 len, 0x80, push_bit 6 2, of_nat (length ?st)] @ ?st @ es p"
      using pts by (auto simp: pes_header_def Let_def len_def n5)
    from parse_pes_header [OF assms this] len n5 pts show ?thesis
      by (cases p) (simp add: mask_pes_def decodePts33_append)
  next
    case (both v w)
    then have n10: "n = 10" by (simp add: n_def)
    let ?st = "encodePts33 v 0x3 @ encodePts33 w 0x1"
    have "pes_header p @ es p = [0, 0, 1, stream_id p, hi8 len, lo8 len, 0x80, push_bit 6 3, of_nat (length ?st)] @ ?st @ es p"
      using both by (auto simp: pes_header_def Let_def len_def n10)
    from parse_pes_header [OF assms this] len n10 both show ?thesis
      by (cases p) (simp add: mask_pes_def decodePts33_append)
  qed
qed

text \<open>
  For the eight stream ids without the optional header the packetizer writes it all the same, and the
  assembler takes it for the start of the elementary stream.
\<close>

definition received :: "PesPacket \<Rightarrow> PesPacket" where
  "received p = (if streamIdHasOptionalHeader (stream_id p) then mask_pes p
     else p\<lparr>pts_90khz := None, dts_90khz := None, es := drop 6 (pes_header p) @ es p\<rparr>)"

lemma parse_pes_plain:
  assumes "\<not> streamIdHasOptionalHeader sid"
    and b: "b = [0, 0, 1, sid, hi8 len, lo8 len] @ e" and len: "len = 0 \<or> unat len = length e"
  shows "parse_pes b = Some \<lparr>stream_id = sid, pts_90khz = None, dts_90khz = None, es = e\<rparr>"
proof -
  have n: "b ! 0 = 0" "b ! 1 = 0" "b ! 2 = 1" "b ! 3 = sid" "b ! 4 = hi8 len" "b ! 5 = lo8 len"
    "drop 6 b = e" "length b = 6 + length e"
    by (simp_all add: b numeral_eq_Suc)
  define e_end where "e_end = (if 0 < unat len \<and> 6 + unat len \<le> length b then 6 + unat len else length b)"
  have ee: "e_end = length b" using len n(8) by (auto simp: e_end_def)
  show ?thesis
    unfolding parse_pes_def Let_def n(1-6) be16_hi8_lo8 e_end_def [symmetric] ee
    using assms(1) n(7,8) by simp
qed

lemma pes_header_length_field:
  "\<exists>len. pes_header p @ es p = [0, 0, 1, stream_id p, hi8 len, lo8 len] @ drop 6 (pes_header p) @ es p
    \<and> (len = 0 \<or> unat len = length (drop 6 (pes_header p) @ es p))"
proof -
  define flags where "flags = (if pts_90khz p \<noteq> None \<and> dts_90khz p \<noteq> None then 3
    else if pts_90khz p \<noteq> None then 2 else 0 :: u8)"
  define stamps where "stamps = (if flags = 2 then encodePts33 (the (pts_90khz p)) 0x2
    else if flags = 3 then encodePts33 (the (pts_90khz p)) 0x3 @ encodePts33 (the (dts_90khz p)) 0x1 else [])"
  define n where "n = 3 + length stamps + length (es p)"
  define len where "len = (if n \<le> 0xFFFF \<and> (stream_id p < 0xE0 \<or> stream_id p > 0xEF) then of_nat n else 0 :: u16)"
  define rest where "rest = [0x80, push_bit 6 flags, of_nat (length stamps)] @ stamps"
  have h: "pes_header p = [0, 0, 1, stream_id p, hi8 len, lo8 len] @ rest"
    unfolding pes_header_def flags_def [symmetric] Let_def stamps_def [symmetric] n_def [symmetric]
      len_def [symmetric] rest_def append_Cons append_Nil ..
  have d: "drop 6 (pes_header p) = rest" unfolding h by simp
  have len: "len = 0 \<or> unat len = n"
  proof (cases "n \<le> 0xFFFF")
    case True
    then have "unat (of_nat n :: u16) = n" by (intro unat_of_nat_small) simp
    then show ?thesis by (simp only: len_def split: if_split) blast
  qed (simp add: len_def)
  have n: "length (rest @ es p) = n" by (simp only: rest_def n_def length_append list.size)
  show ?thesis unfolding d
  proof (intro exI conjI)
    show "pes_header p @ es p = [0, 0, 1, stream_id p, hi8 len, lo8 len] @ rest @ es p"
      unfolding h append_assoc ..
    show "len = 0 \<or> unat len = length (rest @ es p)" unfolding n by (rule len)
  qed
qed

lemma parse_received: "parse_pes (pes_header p @ es p) = Some (received p)"
proof (cases "streamIdHasOptionalHeader (stream_id p)")
  case False
  obtain len where b: "pes_header p @ es p = [0, 0, 1, stream_id p, hi8 len, lo8 len] @ drop 6 (pes_header p) @ es p"
    and len: "len = 0 \<or> unat len = length (drop 6 (pes_header p) @ es p)"
    using pes_header_length_field by blast
  show ?thesis using parse_pes_plain [OF False b len] False by (cases p) (simp add: received_def)
qed (simp add: received_def parse_emitted)

lemma no_optional_header_spoils:
  "received \<lparr>stream_id = 0xBF, pts_90khz = None, dts_90khz = None, es = [7]\<rparr>
    = \<lparr>stream_id = 0xBF, pts_90khz = None, dts_90khz = None, es = [0x80, 0, 0, 7]\<rparr>"
  by (simp add: received_def streamIdHasOptionalHeader_def pes_header_def)

lemma feed_continue:
  assumes col: "collecting a" "pes_last_cc a = Some lc" and cc: "cc AND 0x0F = (lc + 1) AND 0x0F"
    and pl: "pl \<noteq> []" "length pl \<le> 184"
  shows "pes_feed (emit_packet p cc pl False) a =
    ([], a\<lparr>pes_buffer := pes_buffer a @ pl, pes_last_cc := Some (cc AND 0x0F)\<rparr>)"
  using emit_packet_views [OF pl(2), of p cc False] col cc pl(1)
  by (simp add: pes_feed_def pes_take_def Let_def)

lemma feed_continue_all:
  assumes "collecting a" "pes_last_cc a = Some lc" "cc AND 0x0F = (lc + 1) AND 0x0F"
  shows "\<exists>c. pes_feed_all (fst (emit_chunks p cc rest False)) a =
    ([], a\<lparr>pes_buffer := pes_buffer a @ rest, pes_last_cc := Some c\<rparr>)"
  using assms
proof (induction "length rest" arbitrary: rest a lc cc rule: less_induct)
  case less
  show ?case
  proof (cases "rest = []")
    case True
    then show ?thesis using less.prems by (intro exI [of _ lc]) (cases a; simp add: emit_chunks.simps)
  next
    case False
    define n where "n = min (length rest) 184"
    obtain ps c1 where ps: "emit_chunks p ((cc + 1) AND 0x0F) (drop n rest) False = (ps, c1)" by fastforce
    have loop: "fst (emit_chunks p cc rest False) = emit_packet p cc (take n rest) False # ps"
      using False ps by (subst emit_chunks.simps) (simp add: n_def Let_def)
    have ch: "take n rest \<noteq> []" "length (take n rest) \<le> 184" using False by (simp_all add: n_def)
    let ?a = "a\<lparr>pes_buffer := pes_buffer a @ take n rest, pes_last_cc := Some (cc AND 0x0F)\<rparr>"
    have "length (drop n rest) < length rest" using False by (simp add: n_def)
    moreover have "collecting ?a" "pes_last_cc ?a = Some (cc AND 0x0F)" using less.prems(1) by simp_all
    moreover have "((cc + 1) AND 0x0F) AND 0x0F = ((cc AND 0x0F) + 1) AND 0x0F" by (simp add: cc_next)
    ultimately have "\<exists>c. pes_feed_all (fst (emit_chunks p ((cc + 1) AND 0x0F) (drop n rest) False)) ?a =
        ([], ?a\<lparr>pes_buffer := pes_buffer ?a @ drop n rest, pes_last_cc := Some c\<rparr>)"
      by (rule less.hyps)
    then show ?thesis
      unfolding loop using feed_continue [OF less.prems ch, of p] ps by (auto simp: Let_def)
  qed
qed

lemma feed_start:
  assumes "pl \<noteq> []" "length pl \<le> 184"
  shows "\<exists>out a'. pes_feed (emit_packet p cc pl True) a = (out, a') \<and> collecting a' \<and> pes_buffer a' = pl \<and>
    pes_last_cc a' = Some (cc AND 0x0F) \<and> length out \<le> 1 \<and> (\<not> collecting a \<longrightarrow> out = [])"
  using emit_packet_views [OF assms(2), of p cc True] assms(1)
  by (auto simp: pes_feed_def pes_take_def finalize_def pes_clear_def pes_reset_def Let_def
      split: option.splits)

text \<open>Whatever the assembler was doing, it delivers the emitted packet at the flush, after at most
  one packet it still had to deliver.\<close>

lemma emit_feed_flush:
  "\<exists>out a' b. pes_feed_all (fst (emit pid' cc p)) a = (out, a') \<and> length out \<le> 1 \<and>
  (\<not> collecting a \<longrightarrow> out = []) \<and> pes_flush a' = ([received p], b) \<and> \<not> collecting b"
proof -
  define lin where "lin = pes_header p @ es p"
  have ne: "lin \<noteq> []" by (simp add: lin_def pes_header_def Let_def)
  define n where "n = min (length lin) 184"
  obtain ps c1 where ps: "emit_chunks pid' ((cc + 1) AND 0x0F) (drop n lin) False = (ps, c1)" by fastforce
  have loop: "fst (emit pid' cc p) = emit_packet pid' cc (take n lin) True # ps"
    using ne ps unfolding emit_def lin_def [symmetric]
    by (subst emit_chunks.simps) (simp add: n_def Let_def)
  have ch: "take n lin \<noteq> []" "length (take n lin) \<le> 184" using ne by (simp_all add: n_def)
  obtain out a1 where a1: "pes_feed (emit_packet pid' cc (take n lin) True) a = (out, a1)" "collecting a1"
    "pes_buffer a1 = take n lin" "pes_last_cc a1 = Some (cc AND 0x0F)" "length out \<le> 1" "\<not> collecting a \<longrightarrow> out = []"
    using feed_start [OF ch] by blast
  from feed_continue_all [OF a1(2,4), of "(cc + 1) AND 0x0F" pid' "drop n lin"] ps a1(3)
  obtain c where "pes_feed_all ps a1 = ([], a1\<lparr>pes_buffer := lin, pes_last_cc := Some c\<rparr>)"
    by (auto simp: cc_next)
  then have "pes_feed_all (fst (emit pid' cc p)) a = (out, a1\<lparr>pes_buffer := lin, pes_last_cc := Some c\<rparr>)"
    unfolding loop by (simp add: a1(1))
  moreover have "\<exists>b. pes_flush (a1\<lparr>pes_buffer := lin, pes_last_cc := Some c\<rparr>) = ([received p], b) \<and> \<not> collecting b"
    using a1(2) parse_received by (simp add: pes_flush_def finalize_def lin_def pes_clear_def)
  ultimately show ?thesis using a1(5,6) by blast
qed

section \<open>Properties\<close>

text \<open>C32: the transport packets emitted for a PES packet make the assembler, whatever it was doing, deliver one
  packet at the flush, after at most one packet it still had to deliver. Where the stream id carries the optional
  header that is exactly the packet sent, with its timestamps modulo \<open>2 ^ 33\<close> and a DTS only beside a PTS. For the
  eight stream ids that do not, the packetizer writes the optional header all the same and the assembler delivers its
  three bytes and the encoded timestamps in front of the elementary stream, and no timestamps.\<close>

theorem pes_roundtrip:
"\<exists>out a' b. pes_feed_all (fst (emit pid' cc p)) a = (out, a') \<and> length out \<le> 1 \<and>
    (\<not> collecting a \<longrightarrow> out = []) \<and>
    pes_flush a' = ([if streamIdHasOptionalHeader (stream_id p) then mask_pes p
      else p\<lparr>pts_90khz := None, dts_90khz := None, es := drop 6 (pes_header p) @ es p\<rparr>], b) \<and> \<not> collecting b"
  using emit_feed_flush [of pid' cc p a] by (simp only: received_def)

theorem pes_roundtrip_witness:
  "\<exists>out a' b. pes_feed_all (fst (emit 0x100 7 \<lparr>stream_id = 0xE0, pts_90khz = Some 900000, dts_90khz = None, es = [1, 2, 3]\<rparr>))
      new_PesAssembler = (out, a') \<and> out = [] \<and>
    pes_flush a' = ([\<lparr>stream_id = 0xE0, pts_90khz = Some 900000, dts_90khz = None, es = [1, 2, 3]\<rparr>], b) \<and> \<not> collecting b"
  using pes_roundtrip [where p = "\<lparr>stream_id = 0xE0, pts_90khz = Some 900000, dts_90khz = None, es = [1, 2, 3]\<rparr>"
      and pid' = "0x100" and cc = 7 and a = new_PesAssembler]
  by (simp add: streamIdHasOptionalHeader_def new_PesAssembler_def mask_pes_def)

end
