(* ===== verification/ProgramTable.thy ===== *)
theory ProgramTable
  imports ServiceTables "HOL-Library.Product_Lexorder" "HOL-Library.Multiset"
begin

text \<open>
  \<^verbatim>\<open>src/gateway/ts/ProgramTable.{h,cpp}\<close>: the routing view of a transport stream built from
  its PAT, PMT and SDT. The published snapshot is the state; \<open>republish\<close> keeps the old one when
  nothing it compares has changed.
\<close>

record Stream =
  s_stream_type :: u8
  s_elementary_pid :: u16
  language :: bytes
  has_subtitling :: bool
  has_teletext :: bool
  codec_name :: string

record ProgramInfo =
  pi_service_id :: u16
  pi_pmt_pid :: u16
  pi_pcr_pid :: u16
  pi_pmt_version :: u8
  pi_service_name :: bytes
  pi_provider_name :: bytes
  pi_running_status :: u8
  eit_present :: bool
  pi_streams :: "Stream list"
  discovered :: bool

definition new_ProgramInfo :: ProgramInfo where
  "new_ProgramInfo = \<lparr>pi_service_id = 0, pi_pmt_pid = 0, pi_pcr_pid = 0x1FFF, pi_pmt_version = 0,
     pi_service_name = [], pi_provider_name = [], pi_running_status = 0, eit_present = False,
     pi_streams = [], discovered = False\<rparr>"

record ProgramTableSnapshot =
  transport_stream_id :: u16
  original_network_id :: u16
  pat_version :: u8
  programs :: "ProgramInfo list"

definition new_Snapshot :: ProgramTableSnapshot where
  "new_Snapshot = \<lparr>transport_stream_id = 0, original_network_id = 0, pat_version = 0, programs = []\<rparr>"

text \<open>\<open>std::to_string\<close> of an unsigned number.\<close>

fun to_string :: "nat \<Rightarrow> string" where
  "to_string n = (if n < 10 then [char_of (48 + n)] else to_string (n div 10) @ [char_of (48 + n mod 10)])"

declare to_string.simps [simp del]

definition codecNameFor :: "u8 \<Rightarrow> string" where
  "codecNameFor st =
     (if st = 0x01 \<or> st = 0x02 then ''MPEG-2 Video''
      else if st = 0x03 \<or> st = 0x04 then ''MPEG-1/2 Audio''
      else if st = 0x0F then ''AAC''
      else if st = 0x11 then ''AAC LATM''
      else if st = 0x1B then ''H.264''
      else if st = 0x24 then ''HEVC''
      else if st = 0x81 then ''AC-3''
      else if st = 0x87 then ''E-AC-3''
      else if st = 0x06 then ''PES private''
      else ''stream_type 0x'' @ to_string (unat st))"

text \<open>The fields the comparison looks at; the codec name is not among them.\<close>

definition stream_eq :: "Stream \<Rightarrow> Stream \<Rightarrow> bool" where
  "stream_eq x y \<longleftrightarrow> s_stream_type x = s_stream_type y \<and> s_elementary_pid x = s_elementary_pid y \<and>
     language x = language y \<and> has_subtitling x = has_subtitling y \<and> has_teletext x = has_teletext y"

definition program_eq :: "ProgramInfo \<Rightarrow> ProgramInfo \<Rightarrow> bool" where
  "program_eq x y \<longleftrightarrow> pi_service_id x = pi_service_id y \<and> pi_pmt_pid x = pi_pmt_pid y \<and>
     pi_pcr_pid x = pi_pcr_pid y \<and> pi_pmt_version x = pi_pmt_version y \<and>
     pi_service_name x = pi_service_name y \<and> pi_provider_name x = pi_provider_name y \<and>
     pi_running_status x = pi_running_status y \<and> eit_present x = eit_present y \<and>
     discovered x = discovered y \<and> list_all2 stream_eq (pi_streams x) (pi_streams y)"

definition snapshotEqual :: "ProgramTableSnapshot \<Rightarrow> ProgramTableSnapshot \<Rightarrow> bool" where
  "snapshotEqual a b \<longleftrightarrow> transport_stream_id a = transport_stream_id b \<and>
     original_network_id a = original_network_id b \<and> pat_version a = pat_version b \<and>
     list_all2 program_eq (programs a) (programs b)"

definition republish :: "ProgramTableSnapshot \<Rightarrow> ProgramTableSnapshot \<Rightarrow> ProgramTableSnapshot" where
  "republish prev nxt = (if snapshotEqual prev nxt then prev else nxt)"

definition table_clear :: "ProgramTableSnapshot \<Rightarrow> ProgramTableSnapshot" where
  "table_clear t = republish t new_Snapshot"

fun find_program :: "u16 \<Rightarrow> ProgramInfo list \<Rightarrow> ProgramInfo option" where
  "find_program sid [] = None"
| "find_program sid (p # ps) = (if pi_service_id p = sid then Some p else find_program sid ps)"

definition reconcile :: "ProgramInfo list \<Rightarrow> PatEntry \<Rightarrow> ProgramInfo" where
  "reconcile cur e =
     (case find_program (program_number e) cur of
        Some x \<Rightarrow> if pi_pmt_pid x = pmt_pid e then x\<lparr>pi_pmt_pid := pmt_pid e\<rparr>
                  else new_ProgramInfo\<lparr>pi_service_id := program_number e, pi_pmt_pid := pmt_pid e\<rparr>
      | None \<Rightarrow> new_ProgramInfo\<lparr>pi_service_id := program_number e, pi_pmt_pid := pmt_pid e\<rparr>)"

definition ingestPat :: "ParsedPat \<Rightarrow> ProgramTableSnapshot \<Rightarrow> ProgramTableSnapshot" where
  "ingestPat pat t = republish t (t\<lparr>transport_stream_id := pat_transport_stream_id pat,
     pat_version := pat_version_number pat,
     programs := map (reconcile (programs t)) (pat_programs pat)\<rparr>)"

definition stream_of :: "PmtStream \<Rightarrow> Stream" where
  "stream_of s = \<lparr>s_stream_type = stream_type s, s_elementary_pid = elementary_pid s,
     language = (case findIso639Language (es_descriptors s) of None \<Rightarrow> [] | Some l \<Rightarrow> l),
     has_subtitling = list_ex (\<lambda>d. tag d = kDescSubtitling) (es_descriptors s),
     has_teletext = list_ex (\<lambda>d. tag d = kDescTeletext) (es_descriptors s),
     codec_name = codecNameFor (stream_type s)\<rparr>"

definition apply_pmt :: "ParsedPmt \<Rightarrow> ProgramInfo \<Rightarrow> ProgramInfo" where
  "apply_pmt pmt p = p\<lparr>pi_pmt_version := pmt_version_number pmt, pi_pcr_pid := pcr_pid pmt,
     discovered := True, pi_streams := map stream_of (streams pmt)\<rparr>"

text \<open>Update the first entry of a service; the flag tells whether there was one.\<close>

fun update_program :: "u16 \<Rightarrow> (ProgramInfo \<Rightarrow> ProgramInfo) \<Rightarrow> ProgramInfo list \<Rightarrow> ProgramInfo list \<times> bool" where
  "update_program sid f [] = ([], False)"
| "update_program sid f (p # ps) =
     (if pi_service_id p = sid then (f p # ps, True)
      else let (qs, b) = update_program sid f ps in (p # qs, b))"

definition ingestPmt :: "ParsedPmt \<Rightarrow> ProgramTableSnapshot \<Rightarrow> ProgramTableSnapshot" where
  "ingestPmt pmt t =
     (let (ps, hit) = update_program (pmt_program_number pmt) (apply_pmt pmt) (programs t);
          ps' = (if hit then ps
                 else ps @ [apply_pmt pmt (new_ProgramInfo\<lparr>pi_service_id := pmt_program_number pmt\<rparr>)])
      in republish t (t\<lparr>programs := ps'\<rparr>))"

definition apply_service :: "SdtService \<Rightarrow> ProgramInfo \<Rightarrow> ProgramInfo" where
  "apply_service svc p = p\<lparr>pi_service_name := service_name svc, pi_provider_name := provider_name svc,
     pi_running_status := sdt_running_status svc, eit_present := eit_present_following_flag svc\<rparr>"

definition ingestSdt :: "ParsedSdt \<Rightarrow> ProgramTableSnapshot \<Rightarrow> ProgramTableSnapshot" where
  "ingestSdt sdt t = republish t
     (t\<lparr>transport_stream_id := (if transport_stream_id t = 0 then sdt_transport_stream_id sdt
                                 else transport_stream_id t),
        original_network_id := sdt_original_network_id sdt,
        programs := foldl (\<lambda>ps svc. fst (update_program (service_id svc) (apply_service svc) ps))
                      (programs t) (services sdt)\<rparr>)"

definition fnvMix :: "u64 \<Rightarrow> u64 \<Rightarrow> u64" where
  "fnvMix h v = (h XOR v) * 1099511628211"

definition signature :: "ProgramTableSnapshot \<Rightarrow> u64" where
  "signature t =
     (let h0 = fnvMix (fnvMix 1469598103934665603 (ucast (transport_stream_id t))) (of_nat (length (programs t)));
          ids = sort (map (\<lambda>p. (pi_service_id p, pi_pmt_pid p)) (programs t))
      in foldl (\<lambda>h (sid, ppid). fnvMix (fnvMix h (ucast sid)) (ucast ppid)) h0 ids)"

subsection \<open>The published snapshot\<close>

text \<open>Every stream's codec name is the one its type determines, so the comparison misses nothing.\<close>

definition codec_ok :: "Stream \<Rightarrow> bool" where
  "codec_ok s \<longleftrightarrow> codec_name s = codecNameFor (s_stream_type s)"

definition table_ok :: "ProgramTableSnapshot \<Rightarrow> bool" where
  "table_ok t \<longleftrightarrow> list_all (\<lambda>p. list_all codec_ok (pi_streams p)) (programs t)"

lemma stream_eq_iff: "codec_ok x \<Longrightarrow> codec_ok y \<Longrightarrow> stream_eq x y \<longleftrightarrow> x = y"
  by (cases x; cases y) (auto simp: codec_ok_def stream_eq_def)

lemma list_all2_eq_on:
  assumes "\<And>x y. P x \<Longrightarrow> P y \<Longrightarrow> R x y \<longleftrightarrow> x = y" "list_all P xs" "list_all P ys"
  shows "list_all2 R xs ys \<longleftrightarrow> xs = ys"
  using assms(2,3)
proof (induction xs arbitrary: ys)
  case (Cons x xs)
  then show ?case using assms(1) by (cases ys) auto
qed auto

lemma program_eq_iff:
  assumes "list_all codec_ok (pi_streams x)" "list_all codec_ok (pi_streams y)"
  shows "program_eq x y \<longleftrightarrow> x = y"
  using list_all2_eq_on [OF stream_eq_iff assms] by (cases x; cases y) (auto simp: program_eq_def)

lemma snapshotEqual_iff: "table_ok a \<Longrightarrow> table_ok b \<Longrightarrow> snapshotEqual a b \<longleftrightarrow> a = b"
  using list_all2_eq_on [of "\<lambda>p. list_all codec_ok (pi_streams p)" program_eq, OF program_eq_iff]
  by (cases a; cases b) (auto simp: snapshotEqual_def table_ok_def)

lemma republish_next: "table_ok prev \<Longrightarrow> table_ok nxt \<Longrightarrow> republish prev nxt = nxt"
  by (simp add: republish_def snapshotEqual_iff)

lemma codec_ok_stream_of [simp]: "codec_ok (stream_of s)"
  by (simp add: codec_ok_def stream_of_def)

lemma find_program_Some: "find_program sid ps = Some p \<Longrightarrow> p \<in> set ps \<and> pi_service_id p = sid"
  by (induction ps) (auto split: if_splits)

lemma update_program_all:
  "list_all P ps \<Longrightarrow> (\<And>p. P p \<Longrightarrow> P (f p)) \<Longrightarrow> list_all P (fst (update_program sid f ps))"
  by (induction ps) (auto split: prod.splits)

lemma update_program_ids:
  "(\<And>p. g (f p) = g p) \<Longrightarrow> map g (fst (update_program sid f ps)) = map g ps"
  by (induction ps) (auto split: prod.splits)

lemma foldl_invariant: "P s \<Longrightarrow> (\<And>s x. P s \<Longrightarrow> P (f s x)) \<Longrightarrow> P (foldl f s xs)"
  by (induction xs arbitrary: s) auto

text \<open>What each operation would publish, before the comparison.\<close>

lemma reconcile_ids: "pi_service_id (reconcile cur e) = program_number e" "pi_pmt_pid (reconcile cur e) = pmt_pid e"
  by (auto simp: reconcile_def split: option.splits dest: find_program_Some)

lemma reconcile_codec:
  "list_all (\<lambda>p. list_all codec_ok (pi_streams p)) cur \<Longrightarrow> list_all codec_ok (pi_streams (reconcile cur e))"
  by (auto simp: reconcile_def new_ProgramInfo_def list_all_iff split: option.splits dest: find_program_Some)

lemma ingestPat_eq:
  assumes "table_ok t"
  shows "ingestPat pat t = t\<lparr>transport_stream_id := pat_transport_stream_id pat,
     pat_version := pat_version_number pat, programs := map (reconcile (programs t)) (pat_programs pat)\<rparr>"
  unfolding ingestPat_def
  by (rule republish_next [OF assms])
    (use assms reconcile_codec in \<open>auto simp: table_ok_def list_all_iff\<close>)

lemma ingestPmt_eq:
  assumes "table_ok t"
  shows "ingestPmt pmt t =
     (let (ps, hit) = update_program (pmt_program_number pmt) (apply_pmt pmt) (programs t)
      in t\<lparr>programs := (if hit then ps
        else ps @ [apply_pmt pmt (new_ProgramInfo\<lparr>pi_service_id := pmt_program_number pmt\<rparr>)])\<rparr>)"
proof -
  let ?P = "\<lambda>p. list_all codec_ok (pi_streams p)"
  have a: "?P (apply_pmt pmt p)" for p by (simp add: apply_pmt_def list_all_iff)
  have "list_all ?P (fst (update_program (pmt_program_number pmt) (apply_pmt pmt) (programs t)))"
    by (rule update_program_all) (use assms a in \<open>simp_all add: table_ok_def\<close>)
  then show ?thesis
    unfolding ingestPmt_def using a
    by (auto simp: Let_def table_ok_def split: prod.splits intro!: republish_next [OF assms])
qed

lemma apply_service_keeps:
  "pi_streams (apply_service svc p) = pi_streams p" "pi_service_id (apply_service svc p) = pi_service_id p"
  "pi_pmt_pid (apply_service svc p) = pi_pmt_pid p" "discovered (apply_service svc p) = discovered p"
  "pi_pcr_pid (apply_service svc p) = pi_pcr_pid p"
  by (simp_all add: apply_service_def)

lemma ingestSdt_eq:
  assumes "table_ok t"
  shows "ingestSdt sdt t =
     t\<lparr>transport_stream_id := (if transport_stream_id t = 0 then sdt_transport_stream_id sdt
                                 else transport_stream_id t),
        original_network_id := sdt_original_network_id sdt,
        programs := foldl (\<lambda>ps svc. fst (update_program (service_id svc) (apply_service svc) ps))
                      (programs t) (services sdt)\<rparr>"
  unfolding ingestSdt_def
proof (rule republish_next [OF assms])
  let ?P = "\<lambda>p. list_all codec_ok (pi_streams p)"
  have "list_all ?P (foldl (\<lambda>ps svc. fst (update_program (service_id svc) (apply_service svc) ps))
                      (programs t) (services sdt))"
    by (rule foldl_invariant)
      (use assms in \<open>auto simp: table_ok_def apply_service_keeps intro: update_program_all\<close>)
  then show "table_ok (t\<lparr>transport_stream_id := (if transport_stream_id t = 0 then sdt_transport_stream_id sdt
      else transport_stream_id t), original_network_id := sdt_original_network_id sdt,
      programs := foldl (\<lambda>ps svc. fst (update_program (service_id svc) (apply_service svc) ps))
        (programs t) (services sdt)\<rparr>)"
    by (simp add: table_ok_def)
qed

lemma table_ok_ops:
  assumes "table_ok t"
  shows "table_ok (ingestPat pat t)" "table_ok (ingestPmt pmt t)" "table_ok (ingestSdt sdt t)" "table_ok (table_clear t)"
proof -
  let ?P = "\<lambda>p. list_all codec_ok (pi_streams p)"
  have a: "?P (apply_pmt pmt p)" for p by (simp add: apply_pmt_def list_all_iff)
  show "table_ok (ingestPat pat t)"
    unfolding ingestPat_eq [OF assms] using assms reconcile_codec by (auto simp: table_ok_def list_all_iff)
  have "list_all ?P (fst (update_program (pmt_program_number pmt) (apply_pmt pmt) (programs t)))"
    by (rule update_program_all) (use assms a in \<open>simp_all add: table_ok_def\<close>)
  then show "table_ok (ingestPmt pmt t)"
    unfolding ingestPmt_eq [OF assms] using a by (auto simp: Let_def table_ok_def split: prod.splits)
  have "list_all ?P (foldl (\<lambda>ps svc. fst (update_program (service_id svc) (apply_service svc) ps))
                      (programs t) (services sdt))"
    by (rule foldl_invariant)
      (use assms in \<open>auto simp: table_ok_def apply_service_keeps intro: update_program_all\<close>)
  then show "table_ok (ingestSdt sdt t)" unfolding ingestSdt_eq [OF assms] by (simp add: table_ok_def)
  show "table_ok (table_clear t)"
    using assms by (simp add: table_clear_def republish_def) (simp add: table_ok_def new_Snapshot_def)
qed

definition route_ids :: "ProgramTableSnapshot \<Rightarrow> (u16 \<times> u16) list" where
  "route_ids t = map (\<lambda>p. (pi_service_id p, pi_pmt_pid p)) (programs t)"

text \<open>After a PAT the table lists exactly the PAT's programs, in its order.\<close>

lemma route_ids_ingestPat:
  "table_ok t \<Longrightarrow> route_ids (ingestPat pat t) = map (\<lambda>e. (program_number e, pmt_pid e)) (pat_programs pat)"
  by (simp add: ingestPat_eq route_ids_def reconcile_ids comp_def)

lemma route_ids_ingestSdt: "table_ok t \<Longrightarrow> route_ids (ingestSdt sdt t) = route_ids t"
proof -
  assume ok: "table_ok t"
  have "map (\<lambda>p. (pi_service_id p, pi_pmt_pid p))
      (foldl (\<lambda>ps svc. fst (update_program (service_id svc) (apply_service svc) ps)) (programs t) (services sdt))
    = map (\<lambda>p. (pi_service_id p, pi_pmt_pid p)) (programs t)"
    by (rule foldl_invariant) (simp_all add: update_program_ids apply_service_keeps)
  then show ?thesis by (simp add: ingestSdt_eq [OF ok] route_ids_def)
qed

lemma signature_routes:
  "signature t = (let h0 = fnvMix (fnvMix 1469598103934665603 (ucast (transport_stream_id t))) (of_nat (length (route_ids t)))
     in foldl (\<lambda>h (sid, ppid). fnvMix (fnvMix h (ucast sid)) (ucast ppid)) h0 (sort (route_ids t)))"
  by (simp add: signature_def route_ids_def)

text \<open>The signature depends on the transport stream id and the set of routes, not on their order.\<close>

lemma signature_order:
  assumes "transport_stream_id a = transport_stream_id b" "mset (route_ids a) = mset (route_ids b)"
  shows "signature a = signature b"
proof -
  have "length (route_ids a) = length (route_ids b)" using assms(2) by (rule mset_eq_length)
  moreover have "sort (route_ids a) = sort (route_ids b)"
    using assms(2) by (intro properties_for_sort) simp_all
  ultimately show ?thesis using assms(1) by (simp add: signature_routes)
qed

text \<open>A program of the table that the PAT keeps at its PMT PID keeps everything known about it; a
  program it moves to another PID starts over.\<close>

lemma reconcile_keeps:
  "find_program (program_number e) cur = Some x \<Longrightarrow> pi_pmt_pid x = pmt_pid e \<Longrightarrow> reconcile cur e = x"
  by (cases x) (simp add: reconcile_def)

lemma reconcile_fresh:
  "(\<And>x. find_program (program_number e) cur = Some x \<Longrightarrow> pi_pmt_pid x \<noteq> pmt_pid e) \<Longrightarrow>
   reconcile cur e = new_ProgramInfo\<lparr>pi_service_id := program_number e, pi_pmt_pid := pmt_pid e\<rparr>"
  by (auto simp: reconcile_def split: option.splits)

lemma find_map_reconcile:
  "distinct (map program_number es) \<Longrightarrow> e \<in> set es \<Longrightarrow>
   find_program (program_number e) (map (reconcile cur) es) = Some (reconcile cur e)"
  by (induction es) (auto simp: reconcile_ids)

lemma ingestPat_idem:
  assumes ok: "table_ok t" and d: "distinct (map program_number (pat_programs pat))"
  shows "ingestPat pat (ingestPat pat t) = ingestPat pat t"
proof -
  have "map (reconcile (map (reconcile (programs t)) (pat_programs pat))) (pat_programs pat) =
      map (reconcile (programs t)) (pat_programs pat)"
    by (rule map_cong [OF refl]) (simp add: reconcile_keeps find_map_reconcile d reconcile_ids)
  then show ?thesis
    unfolding ingestPat_eq [OF table_ok_ops(1) [OF ok]] unfolding ingestPat_eq [OF ok] by simp
qed

subsection \<open>What a PMT leaves in the table\<close>

lemma find_update_program:
  "find_program sid ps = Some x \<Longrightarrow> (\<And>q. pi_service_id (f q) = pi_service_id q) \<Longrightarrow>
   find_program s (fst (update_program sid f ps)) = (if s = sid then Some (f x) else find_program s ps) \<and>
   snd (update_program sid f ps)"
  by (induction ps) (auto simp: Let_def split: if_splits prod.splits)

lemma update_program_missing:
  "find_program sid ps = None \<Longrightarrow> update_program sid f ps = (ps, False)"
  by (induction ps) (auto split: if_splits)

lemma apply_pmt_id [simp]: "pi_service_id (apply_pmt pmt p) = pi_service_id p"
  "pi_pmt_pid (apply_pmt pmt p) = pi_pmt_pid p"
  by (simp_all add: apply_pmt_def)

text \<open>A PMT of a listed program replaces that program's PMT part and touches no other program.\<close>

lemma ingestPmt_find:
  assumes ok: "table_ok t" and f: "find_program (pmt_program_number pmt) (programs t) = Some x"
  shows "find_program s (programs (ingestPmt pmt t)) =
      (if s = pmt_program_number pmt then Some (apply_pmt pmt x) else find_program s (programs t))"
    "route_ids (ingestPmt pmt t) = route_ids t"
proof -
  let ?u = "update_program (pmt_program_number pmt) (apply_pmt pmt) (programs t)"
  have u: "find_program s (fst ?u) =
      (if s = pmt_program_number pmt then Some (apply_pmt pmt x) else find_program s (programs t))" "snd ?u"
    using find_update_program [OF f, of "apply_pmt pmt"] by simp_all
  have r: "map (\<lambda>p. (pi_service_id p, pi_pmt_pid p)) (fst ?u) = map (\<lambda>p. (pi_service_id p, pi_pmt_pid p)) (programs t)"
    by (rule update_program_ids) simp
  from u show "find_program s (programs (ingestPmt pmt t)) =
      (if s = pmt_program_number pmt then Some (apply_pmt pmt x) else find_program s (programs t))"
    unfolding ingestPmt_eq [OF ok] by (simp add: Let_def split_beta)
  from u(2) r show "route_ids (ingestPmt pmt t) = route_ids t"
    unfolding ingestPmt_eq [OF ok] by (simp add: Let_def split_beta route_ids_def)
qed

text \<open>A PMT that arrives before the PAT lists its program is kept with PMT PID 0, and the PAT drops it.\<close>

lemma early_pmt_forgotten:
  assumes ok: "table_ok t" and none: "find_program (program_number e) (programs t) = None"
    and e: "pmt_program_number pmt = program_number e" "pmt_pid e \<noteq> 0"
  shows "reconcile (programs (ingestPmt pmt t)) e =
    new_ProgramInfo\<lparr>pi_service_id := program_number e, pi_pmt_pid := pmt_pid e\<rparr>"
proof (rule reconcile_fresh)
  fix x assume x: "find_program (program_number e) (programs (ingestPmt pmt t)) = Some x"
  have last: "find_program sid (ps @ [q]) = (case find_program sid ps of None \<Rightarrow> find_program sid [q] | Some y \<Rightarrow> Some y)"
    for sid ps q by (induction ps) simp_all
  have "programs (ingestPmt pmt t) =
      programs t @ [apply_pmt pmt (new_ProgramInfo\<lparr>pi_service_id := pmt_program_number pmt\<rparr>)]"
    unfolding ingestPmt_eq [OF ok] using update_program_missing [of "pmt_program_number pmt"] none e(1) by simp
  with x none e(1) have "x = apply_pmt pmt (new_ProgramInfo\<lparr>pi_service_id := pmt_program_number pmt\<rparr>)"
    by (simp add: last)
  then show "pi_pmt_pid x \<noteq> pmt_pid e" using e(2) by (simp add: new_ProgramInfo_def)
qed

section \<open>Properties\<close>

text \<open>After a PAT and the PMT of one of its programs the table still lists exactly the PAT's programs, that
  program has the PMT's version, PCR PID and streams, and the other programs are untouched.\<close>

lemma pmt_fills_program:
  assumes "table_ok t" "e \<in> set (pat_programs pat)" "distinct (map program_number (pat_programs pat))"
    "pmt_program_number pmt = program_number e" "u = ingestPmt pmt (ingestPat pat t)"
  shows "table_ok u \<and> route_ids u = map (\<lambda>x. (program_number x, pmt_pid x)) (pat_programs pat) \<and>
    find_program (program_number e) (programs u) = Some (apply_pmt pmt (reconcile (programs t) e)) \<and>
    (\<forall>s. s \<noteq> program_number e \<longrightarrow> find_program s (programs u) = find_program s (programs (ingestPat pat t)))"
proof -
  let ?t = "ingestPat pat t"
  have ok: "table_ok ?t" by (rule table_ok_ops(1) [OF assms(1)])
  have f: "find_program (pmt_program_number pmt) (programs ?t) = Some (reconcile (programs t) e)"
    unfolding ingestPat_eq [OF assms(1)] using find_map_reconcile [OF assms(3,2)] assms(4) by simp
  show ?thesis
    using table_ok_ops(2) [OF ok] ingestPmt_find [OF ok f] route_ids_ingestPat [OF assms(1)] assms(4,5) by simp
qed

text \<open>A PMT that arrives before the PAT that lists its program is forgotten when the PAT arrives: the
  program starts over, undiscovered and without streams.\<close>

lemma early_pmt_lost:
  assumes "table_ok t" "find_program (program_number e) (programs t) = None"
    "pmt_program_number pmt = program_number e" "pmt_pid e \<noteq> 0" "pat_programs pat = [e]"
  shows "programs (ingestPat pat (ingestPmt pmt t)) =
    [new_ProgramInfo\<lparr>pi_service_id := program_number e, pi_pmt_pid := pmt_pid e\<rparr>]"
  unfolding ingestPat_eq [OF table_ok_ops(2) [OF assms(1)]]
  using early_pmt_forgotten [OF assms(1-4)] assms(5) by simp

text \<open>A PAT makes the routes exactly its programs, applying it twice is applying it once, an SDT never
  changes a route, and equal sets of routes have equal signatures.\<close>

lemma routes_follow_pat:
  assumes "table_ok t" "distinct (map program_number (pat_programs pat))"
  shows "route_ids (ingestPat pat t) = map (\<lambda>e. (program_number e, pmt_pid e)) (pat_programs pat) \<and>
    ingestPat pat (ingestPat pat t) = ingestPat pat t \<and> route_ids (ingestSdt sdt t) = route_ids t \<and>
    (transport_stream_id a = transport_stream_id b \<and> mset (route_ids a) = mset (route_ids b) \<longrightarrow> signature a = signature b)"
  using route_ids_ingestPat [OF assms(1)] ingestPat_idem [OF assms] route_ids_ingestSdt [OF assms(1)] signature_order
  by blast

end
