(* ===== verification/Rtp.thy ===== *)
theory Rtp
  imports TsPacket
begin

text \<open>
  \<^verbatim>\<open>src/gateway/fec/RtpPacket.h\<close>, \<^verbatim>\<open>FecHeader.h\<close> and
  \<^verbatim>\<open>RtpEncapsulator.{h,cpp}\<close>: the two wire headers and the batching of TS packets into RTP
  datagrams. A header reader returns None where the code returns false.
\<close>

definition kRtpHeaderSize :: nat where "kRtpHeaderSize = 12"
definition kFecHeaderSize :: nat where "kFecHeaderSize = 16"
definition kRtpVersion :: u8 where "kRtpVersion = 2"

record RtpHeaderFields =
  version :: u8
  padding :: bool
  extension :: bool
  csrc_count :: u8
  marker :: bool
  payload_type :: u8
  sequence :: u16
  timestamp :: u32
  ssrc :: u32

definition writeRtpHeader :: "RtpHeaderFields \<Rightarrow> bytes" where
  "writeRtpHeader f =
     [push_bit 6 (version f AND 0x03) OR push_bit 5 (if padding f then 1 else 0)
        OR push_bit 4 (if extension f then 1 else 0) OR (csrc_count f AND 0x0F),
      push_bit 7 (if marker f then 1 else 0) OR (payload_type f AND 0x7F)]
     @ bytes16 (sequence f) @ bytes32 (timestamp f) @ bytes32 (ssrc f)"

definition readRtpHeader :: "bytes \<Rightarrow> RtpHeaderFields option" where
  "readRtpHeader b =
     (if length b < kRtpHeaderSize then None
      else
        let f = \<lparr>version = drop_bit 6 (b ! 0) AND 0x03, padding = (b ! 0 AND 0x20 \<noteq> 0),
                 extension = (b ! 0 AND 0x10 \<noteq> 0), csrc_count = b ! 0 AND 0x0F,
                 marker = (b ! 1 AND 0x80 \<noteq> 0), payload_type = b ! 1 AND 0x7F,
                 sequence = be16 (b ! 2) (b ! 3), timestamp = be32 (b ! 4) (b ! 5) (b ! 6) (b ! 7),
                 ssrc = be32 (b ! 8) (b ! 9) (b ! 10) (b ! 11)\<rparr>
        in if version f = kRtpVersion \<and> csrc_count f = 0 then Some f else None)"

lemma length_writeRtpHeader [simp]: "length (writeRtpHeader f) = 12"
  by (simp add: writeRtpHeader_def)

lemma bytes16_be16: "be16 (bytes16 w ! 0) (bytes16 w ! Suc 0) = w"
  by (simp add: bytes16_def)

definition mask_rtp :: "RtpHeaderFields \<Rightarrow> RtpHeaderFields" where
  "mask_rtp f = f\<lparr>version := version f AND 0x03, csrc_count := csrc_count f AND 0x0F,
     payload_type := payload_type f AND 0x7F\<rparr>"

lemma first_byte_fields:
  fixes v c :: u8 and p e :: bool
  defines "b \<equiv> push_bit 6 (v AND 0x03) OR push_bit 5 (if p then 1 else 0)
        OR push_bit 4 (if e then 1 else 0) OR (c AND 0x0F)"
  shows "drop_bit 6 b AND 0x03 = v AND 0x03" "b AND 0x20 \<noteq> 0 \<longleftrightarrow> p" "b AND 0x10 \<noteq> 0 \<longleftrightarrow> e"
    "b AND 0x0F = c AND 0x0F"
  unfolding b_def AND_bit_iff not_not masks
     apply (rule byte_eqI; cases p; cases e; simp add: bit_simps bit_numeral_rec)
    apply (cases p; cases e; simp add: bit_simps bit_numeral_rec)
   apply (cases p; cases e; simp add: bit_simps bit_numeral_rec)
  apply (rule byte_eqI; cases p; cases e; simp add: bit_simps bit_numeral_rec)
  done

lemma flag7_byte_fields:
  fixes t :: u8 and m :: bool
  defines "b \<equiv> push_bit 7 (if m then 1 else 0) OR (t AND 0x7F)"
  shows "b AND 0x80 \<noteq> 0 \<longleftrightarrow> m" "b AND 0x7F = t AND 0x7F"
  unfolding b_def AND_bit_iff not_not masks
   apply (cases m; simp add: bit_simps bit_numeral_rec)
  apply (rule byte_eqI; cases m; simp add: bit_simps bit_numeral_rec)
  done

lemma read_write_rtp:
  "readRtpHeader (writeRtpHeader f @ rest) =
     (if version f AND 0x03 = 2 \<and> csrc_count f AND 0x0F = 0 then Some (mask_rtp f) else None)"
proof -
  define b0 where "b0 = push_bit 6 (version f AND 0x03) OR push_bit 5 (if padding f then 1 else 0)
        OR push_bit 4 (if extension f then 1 else 0) OR (csrc_count f AND 0x0F)"
  define b1 where "b1 = push_bit 7 (if marker f then 1 else 0) OR (payload_type f AND 0x7F)"
  have w: "writeRtpHeader f @ rest = [b0, b1, hi8 (sequence f), lo8 (sequence f),
      ucast (drop_bit 24 (timestamp f)), ucast (drop_bit 16 (timestamp f)), ucast (drop_bit 8 (timestamp f)), ucast (timestamp f),
      ucast (drop_bit 24 (ssrc f)), ucast (drop_bit 16 (ssrc f)), ucast (drop_bit 8 (ssrc f)), ucast (ssrc f)] @ rest"
    by (simp add: writeRtpHeader_def b0_def b1_def bytes16_def bytes32_def)
  have h: "drop_bit 6 b0 AND 0x03 = version f AND 0x03" "b0 AND 0x20 \<noteq> 0 \<longleftrightarrow> padding f"
    "b0 AND 0x10 \<noteq> 0 \<longleftrightarrow> extension f" "b0 AND 0x0F = csrc_count f AND 0x0F"
    unfolding b0_def by (rule first_byte_fields)+
  have k: "b1 AND 0x80 \<noteq> 0 \<longleftrightarrow> marker f" "b1 AND 0x7F = payload_type f AND 0x7F"
    unfolding b1_def by (rule flag7_byte_fields)+
  have n: "(writeRtpHeader f @ rest) ! 0 = b0" "(writeRtpHeader f @ rest) ! 1 = b1"
    "be16 ((writeRtpHeader f @ rest) ! 2) ((writeRtpHeader f @ rest) ! 3) = sequence f"
    "be32 ((writeRtpHeader f @ rest) ! 4) ((writeRtpHeader f @ rest) ! 5)
       ((writeRtpHeader f @ rest) ! 6) ((writeRtpHeader f @ rest) ! 7) = timestamp f"
    "be32 ((writeRtpHeader f @ rest) ! 8) ((writeRtpHeader f @ rest) ! 9)
       ((writeRtpHeader f @ rest) ! 10) ((writeRtpHeader f @ rest) ! 11) = ssrc f"
    unfolding w by simp_all
  have eq: "\<lparr>version = version f AND 0x03, padding = padding f, extension = extension f,
      csrc_count = csrc_count f AND 0x0F, marker = marker f, payload_type = payload_type f AND 0x7F,
      sequence = sequence f, timestamp = timestamp f, ssrc = ssrc f\<rparr> = mask_rtp f"
    by (cases f) (simp add: mask_rtp_def)
  show ?thesis
    unfolding readRtpHeader_def n h k Let_def eq
    by (simp add: kRtpHeaderSize_def kRtpVersion_def mask_rtp_def)
qed

subsection \<open>The FEC header\<close>

record FecHeaderFields =
  snbase :: u32
  length_recovery :: u16
  e_bit :: bool
  pt_recovery :: u8
  mask24 :: u32
  ts_recovery :: u32
  x_bit :: bool
  d_row :: bool
  fec_type :: u8
  fec_index :: u8
  offset :: u8
  na :: u8

definition be24 :: "u8 \<Rightarrow> u8 \<Rightarrow> u8 \<Rightarrow> u32" where
  "be24 a b c = push_bit 16 (ucast a) OR push_bit 8 (ucast b) OR ucast c"

definition writeFecHeader :: "FecHeaderFields \<Rightarrow> bytes" where
  "writeFecHeader f =
     (let snbase_low = ucast (snbase f AND 0xFFFF) :: u16
      in [hi8 snbase_low, lo8 snbase_low, hi8 (length_recovery f), lo8 (length_recovery f),
          push_bit 7 (if e_bit f then 1 else 0) OR (pt_recovery f AND 0x7F),
          ucast (drop_bit 16 (mask24 f)), ucast (drop_bit 8 (mask24 f)), ucast (mask24 f)]
         @ bytes32 (ts_recovery f)
         @ [push_bit 7 (if x_bit f then 1 else 0) OR push_bit 6 (if d_row f then 1 else 0)
              OR push_bit 3 (fec_type f AND 0x07) OR (fec_index f AND 0x07),
            offset f, na f, ucast (drop_bit 16 (snbase f) AND 0xFF)])"

definition readFecHeader :: "bytes \<Rightarrow> FecHeaderFields option" where
  "readFecHeader b =
     (if length b < kFecHeaderSize then None
      else Some \<lparr>snbase = push_bit 16 (ucast (b ! 15)) OR ucast (be16 (b ! 0) (b ! 1)),
        length_recovery = be16 (b ! 2) (b ! 3), e_bit = (b ! 4 AND 0x80 \<noteq> 0),
        pt_recovery = b ! 4 AND 0x7F, mask24 = be24 (b ! 5) (b ! 6) (b ! 7),
        ts_recovery = be32 (b ! 8) (b ! 9) (b ! 10) (b ! 11),
        x_bit = (b ! 12 AND 0x80 \<noteq> 0), d_row = (b ! 12 AND 0x40 \<noteq> 0),
        fec_type = drop_bit 3 (b ! 12) AND 0x07, fec_index = b ! 12 AND 0x07,
        offset = b ! 13, na = b ! 14\<rparr>)"

definition mask_fec :: "FecHeaderFields \<Rightarrow> FecHeaderFields" where
  "mask_fec f = f\<lparr>snbase := take_bit 24 (snbase f), pt_recovery := pt_recovery f AND 0x7F,
     mask24 := take_bit 24 (mask24 f), fec_type := fec_type f AND 0x07, fec_index := fec_index f AND 0x07\<rparr>"

lemma length_writeFecHeader [simp]: "length (writeFecHeader f) = 16"
  by (simp add: writeFecHeader_def Let_def)

lemma be24_bytes: "be24 (ucast (drop_bit 16 w)) (ucast (drop_bit 8 w)) (ucast w) = take_bit 24 w"
proof (rule bit_word_eqI)
  fix n assume "n < LENGTH(32)"
  then consider "n < 8" | "8 \<le> n" "n < 16" | "16 \<le> n" "n < 24" | "24 \<le> n" "n < 32" by force
  then show "bit (be24 (ucast (drop_bit 16 w)) (ucast (drop_bit 8 w)) (ucast w)) n = bit (take_bit 24 w) n"
    by cases (auto simp: be24_def bit_simps)
qed

lemma snbase_join:
  "push_bit 16 (ucast (ucast (drop_bit 16 w AND 0xFF) :: u8)) OR ucast (ucast (w AND 0xFFFF) :: u16)
   = take_bit 24 (w :: u32)"
  unfolding masks
proof (rule bit_word_eqI)
  fix n assume "n < LENGTH(32)"
  then consider "n < 16" | "16 \<le> n" "n < 24" | "24 \<le> n" "n < 32" by force
  then show "bit (push_bit 16 (ucast (ucast (take_bit 8 (drop_bit 16 w)) :: u8))
      OR ucast (ucast (take_bit 16 w) :: u16) :: u32) n = bit (take_bit 24 w) n"
    by cases (auto simp: bit_simps)
qed

lemma fec_flag_byte_fields:
  fixes t i :: u8 and x d :: bool
  defines "b \<equiv> push_bit 7 (if x then 1 else 0) OR push_bit 6 (if d then 1 else 0)
              OR push_bit 3 (t AND 0x07) OR (i AND 0x07)"
  shows "b AND 0x80 \<noteq> 0 \<longleftrightarrow> x" "b AND 0x40 \<noteq> 0 \<longleftrightarrow> d" "drop_bit 3 b AND 0x07 = t AND 0x07"
    "b AND 0x07 = i AND 0x07"
  unfolding b_def AND_bit_iff not_not masks
     apply (cases x; cases d; simp add: bit_simps bit_numeral_rec)
    apply (cases x; cases d; simp add: bit_simps bit_numeral_rec)
   apply (rule byte_eqI; cases x; cases d; simp add: bit_simps bit_numeral_rec numeral_2_eq_2)
  apply (rule byte_eqI; cases x; cases d; simp add: bit_simps bit_numeral_rec numeral_2_eq_2)
  done

lemma read_write_fec: "readFecHeader (writeFecHeader f @ rest) = Some (mask_fec f)"
proof -
  define b4 where "b4 = push_bit 7 (if e_bit f then 1 else 0) OR (pt_recovery f AND 0x7F)"
  define b12 where "b12 = push_bit 7 (if x_bit f then 1 else 0) OR push_bit 6 (if d_row f then 1 else 0)
              OR push_bit 3 (fec_type f AND 0x07) OR (fec_index f AND 0x07)"
  let ?low = "ucast (snbase f AND 0xFFFF) :: u16"
  have w: "writeFecHeader f @ rest = [hi8 ?low, lo8 ?low, hi8 (length_recovery f), lo8 (length_recovery f), b4,
      ucast (drop_bit 16 (mask24 f)), ucast (drop_bit 8 (mask24 f)), ucast (mask24 f),
      ucast (drop_bit 24 (ts_recovery f)), ucast (drop_bit 16 (ts_recovery f)), ucast (drop_bit 8 (ts_recovery f)),
      ucast (ts_recovery f), b12, offset f, na f, ucast (drop_bit 16 (snbase f) AND 0xFF)] @ rest"
    by (simp add: writeFecHeader_def Let_def b4_def b12_def bytes32_def)
  have k: "b4 AND 0x80 \<noteq> 0 \<longleftrightarrow> e_bit f" "b4 AND 0x7F = pt_recovery f AND 0x7F"
    unfolding b4_def by (rule flag7_byte_fields)+
  have h: "b12 AND 0x80 \<noteq> 0 \<longleftrightarrow> x_bit f" "b12 AND 0x40 \<noteq> 0 \<longleftrightarrow> d_row f"
    "drop_bit 3 b12 AND 0x07 = fec_type f AND 0x07" "b12 AND 0x07 = fec_index f AND 0x07"
    unfolding b12_def by (rule fec_flag_byte_fields)+
  let ?b = "writeFecHeader f @ rest"
  have n: "be16 (?b ! 0) (?b ! 1) = ?low" "be16 (?b ! 2) (?b ! 3) = length_recovery f" "?b ! 4 = b4"
    "be24 (?b ! 5) (?b ! 6) (?b ! 7) = take_bit 24 (mask24 f)"
    "be32 (?b ! 8) (?b ! 9) (?b ! 10) (?b ! 11) = ts_recovery f" "?b ! 12 = b12" "?b ! 13 = offset f"
    "?b ! 14 = na f" "?b ! 15 = ucast (drop_bit 16 (snbase f) AND 0xFF)"
    unfolding w by (simp_all add: be24_bytes)
  have len: "\<not> length ?b < kFecHeaderSize" by (simp add: kFecHeaderSize_def)
  show ?thesis
    unfolding readFecHeader_def n h k snbase_join using len by (cases f) (simp add: mask_fec_def)
qed

subsection \<open>The encapsulator\<close>

record RtpEncapsulator =
  enc_ssrc :: u32
  enc_payload_type :: u8
  ts_per_rtp :: u8
  enc_sequence :: u16
  enc_timestamp :: u32
  packets_emitted :: u64
  pending :: "bytes list"

datatype encap_error = InvalidTsPerRtp

text \<open>The constructor throws \<open>std::invalid_argument\<close> above seven packets per datagram.\<close>

definition new_encapsulator :: "u32 \<Rightarrow> u8 \<Rightarrow> u8 \<Rightarrow> encap_error + RtpEncapsulator" where
  "new_encapsulator ss pt n =
     (let k = (if n = 0 then 1 else n)
      in if k > 7 then Inl InvalidTsPerRtp
         else Inr \<lparr>enc_ssrc = ss, enc_payload_type = pt AND 0x7F, ts_per_rtp = k, enc_sequence = 0,
                   enc_timestamp = 0, packets_emitted = 0, pending = []\<rparr>)"

definition emitDatagram :: "RtpEncapsulator \<Rightarrow> bytes list \<times> RtpEncapsulator" where
  "emitDatagram e =
     ([writeRtpHeader \<lparr>version = kRtpVersion, padding = False, extension = False, csrc_count = 0,
         marker = False, payload_type = enc_payload_type e, sequence = enc_sequence e,
         timestamp = enc_timestamp e, ssrc = enc_ssrc e\<rparr> @ concat (pending e)],
      e\<lparr>enc_timestamp := enc_timestamp e + 3600, enc_sequence := enc_sequence e + 1,
        packets_emitted := packets_emitted e + 1, pending := []\<rparr>)"

definition enc_feed :: "bytes \<Rightarrow> RtpEncapsulator \<Rightarrow> bytes list \<times> RtpEncapsulator" where
  "enc_feed p e =
     (if length p \<noteq> kTsPacketSize then ([], e)
      else let e1 = e\<lparr>pending := pending e @ [p]\<rparr>
        in if length (pending e1) = unat (ts_per_rtp e1) then emitDatagram e1 else ([], e1))"

definition enc_flush :: "RtpEncapsulator \<Rightarrow> bytes list \<times> RtpEncapsulator" where
  "enc_flush e = (if 0 < length (pending e) then emitDatagram e else ([], e))"

definition seedTimestamp :: "u32 \<Rightarrow> RtpEncapsulator \<Rightarrow> RtpEncapsulator" where
  "seedTimestamp ts e = e\<lparr>enc_timestamp := ts\<rparr>"

definition setSsrc :: "u32 \<Rightarrow> RtpEncapsulator \<Rightarrow> RtpEncapsulator" where
  "setSsrc s e = e\<lparr>enc_ssrc := s\<rparr>"

fun enc_feed_all :: "bytes list \<Rightarrow> RtpEncapsulator \<Rightarrow> bytes list \<times> RtpEncapsulator" where
  "enc_feed_all [] e = ([], e)"
| "enc_feed_all (p # ps) e =
     (let (o1, e1) = enc_feed p e; (o2, e2) = enc_feed_all ps e1 in (o1 @ o2, e2))"

text \<open>Nothing is buffered beyond one datagram, and nothing is lost or reordered.\<close>

definition enc_ok :: "RtpEncapsulator \<Rightarrow> bool" where
  "enc_ok e \<longleftrightarrow> 1 \<le> ts_per_rtp e \<and> ts_per_rtp e \<le> 7 \<and> length (pending e) < unat (ts_per_rtp e) \<and>
     list_all (\<lambda>p. length p = 188) (pending e)"

lemma new_encapsulator_ok: "new_encapsulator ss pt n = Inr e \<Longrightarrow> enc_ok e"
proof -
  assume "new_encapsulator ss pt n = Inr e"
  then have e: "ts_per_rtp e = (if n = 0 then 1 else n)" "\<not> (if n = 0 then 1 else n) > 7" "pending e = []"
    by (auto simp: new_encapsulator_def Let_def split: if_splits)
  have "1 \<le> ts_per_rtp e"
    unfolding e(1) using word_le_nat_alt [of 1 n] unat_gt_0 [of n] by (cases "n = 0") auto
  then show ?thesis using e by (auto simp: enc_ok_def word_le_nat_alt not_less)
qed

text \<open>The datagram that holds some packets, for given counters.\<close>

definition datagram :: "RtpEncapsulator \<Rightarrow> nat \<Rightarrow> bytes list \<Rightarrow> bytes" where
  "datagram e k ps = writeRtpHeader \<lparr>version = kRtpVersion, padding = False, extension = False, csrc_count = 0,
     marker = False, payload_type = enc_payload_type e, sequence = enc_sequence e + of_nat k,
     timestamp = enc_timestamp e + 3600 * of_nat k, ssrc = enc_ssrc e\<rparr> @ concat ps"

text \<open>Splitting a list of packets into datagrams of \<open>n\<close>, the last one possibly shorter.\<close>

function chunks :: "nat \<Rightarrow> 'a list \<Rightarrow> 'a list list" where
  "chunks n xs = (if xs = [] \<or> n = 0 then [] else take n xs # chunks n (drop n xs))"
  by pat_completeness auto
termination by (relation "measure (\<lambda>(n, xs). length xs)") auto

declare chunks.simps [simp del]

lemma concat_chunks: "n \<noteq> 0 \<Longrightarrow> concat (chunks n xs) = xs"
proof (induction n xs rule: chunks.induct)
  case (1 n xs)
  then show ?case by (subst chunks.simps) auto
qed

lemma chunks_length: "c \<in> set (chunks n xs) \<Longrightarrow> 0 < length c \<and> length c \<le> n"
proof (induction n xs rule: chunks.induct)
  case (1 n xs)
  from 1(2) have ne: "\<not> (xs = [] \<or> n = 0)" by (auto simp: chunks.simps split: if_splits)
  with 1(2) have "c = take n xs \<or> c \<in> set (chunks n (drop n xs))" by (subst (asm) chunks.simps) simp
  with ne 1(1) [OF ne] show ?case by auto
qed

definition valid_ts :: "bytes list \<Rightarrow> bytes list" where
  "valid_ts ps = filter (\<lambda>p. length p = 188) ps"

lemma enc_feed_cases:
  assumes "enc_ok e" "length p = 188"
  shows "length (pending e) + 1 = unat (ts_per_rtp e) \<Longrightarrow>
      enc_feed p e = ([datagram e 0 (pending e @ [p])], snd (emitDatagram (e\<lparr>pending := pending e @ [p]\<rparr>)))"
    and "length (pending e) + 1 \<noteq> unat (ts_per_rtp e) \<Longrightarrow>
      enc_feed p e = ([], e\<lparr>pending := pending e @ [p]\<rparr>)"
  using assms by (simp_all add: enc_feed_def kTsPacketSize_def emitDatagram_def datagram_def)

lemma emitDatagram_ok: "enc_ok e \<Longrightarrow> enc_ok (snd (emitDatagram e))"
  by (auto simp: enc_ok_def emitDatagram_def word_le_nat_alt)

lemma enc_feed_ok: "enc_ok e \<Longrightarrow> enc_ok (snd (enc_feed p e))"
  by (auto simp: enc_ok_def enc_feed_def emitDatagram_def Let_def kTsPacketSize_def word_le_nat_alt)

text \<open>Feeding packets and flushing: the datagrams are the chunks of what was pending and fed, with
  consecutive sequence numbers and timestamps 3600 ticks apart.\<close>

lemma map2_shift: "length xs = n \<Longrightarrow> map2 f [k..<k + n] xs = map2 (\<lambda>i. f (i + k)) [0..<n] xs"
  by (rule nth_equalityI) (simp_all add: add.commute)

lemma datagram_shift:
  "enc_payload_type e' = enc_payload_type e \<Longrightarrow> enc_ssrc e' = enc_ssrc e \<Longrightarrow>
   enc_sequence e' = enc_sequence e + 1 \<Longrightarrow> enc_timestamp e' = enc_timestamp e + 3600 \<Longrightarrow>
   datagram e' k c = datagram e (Suc k) c"
  by (simp add: datagram_def algebra_simps)

lemma enc_all_chunks:
  assumes "enc_ok e"
  shows "fst (enc_feed_all ps e) @ fst (enc_flush (snd (enc_feed_all ps e))) =
    (let cs = chunks (unat (ts_per_rtp e)) (pending e @ valid_ts ps) in map2 (datagram e) [0..<length cs] cs)"
  using assms
proof (induction ps arbitrary: e)
  case Nil
  let ?n = "unat (ts_per_rtp e)"
  have n: "length (pending e) < ?n" using Nil by (simp add: enc_ok_def)
  show ?case
  proof (cases "pending e = []")
    case True
    then show ?thesis by (simp add: enc_flush_def valid_ts_def chunks.simps)
  next
    case False
    with n have "chunks ?n (pending e) = [pending e]" by (subst chunks.simps, subst chunks.simps) auto
    with False show ?thesis by (simp add: enc_flush_def valid_ts_def emitDatagram_def datagram_def)
  qed
next
  case (Cons p ps)
  let ?n = "unat (ts_per_rtp e)"
  show ?case
  proof (cases "length p = 188")
    case False
    then have "enc_feed p e = ([], e)" by (simp add: enc_feed_def kTsPacketSize_def)
    with False Cons show ?thesis by (simp add: valid_ts_def Let_def split: prod.split)
  next
    case True
    obtain o1 e1 where 1: "enc_feed p e = (o1, e1)" by fastforce
    have ok1: "enc_ok e1" using enc_feed_ok [OF Cons.prems, of p] 1 by simp
    note IH = Cons.IH [OF ok1]
    have vp: "valid_ts (p # ps) = p # valid_ts ps" using True by (simp add: valid_ts_def)
    have split: "fst (enc_feed_all (p # ps) e) @ fst (enc_flush (snd (enc_feed_all (p # ps) e))) =
        o1 @ fst (enc_feed_all ps e1) @ fst (enc_flush (snd (enc_feed_all ps e1)))"
      by (simp add: 1 Let_def split: prod.split)
    show ?thesis
    proof (cases "length (pending e) + 1 = ?n")
      case False
      then have "o1 = []" "e1 = e\<lparr>pending := pending e @ [p]\<rparr>"
        using enc_feed_cases(2) [OF Cons.prems True False] 1 by simp_all
      moreover have "datagram (e\<lparr>pending := q\<rparr>) = datagram e" for q
        by (simp add: datagram_def fun_eq_iff)
      ultimately show ?thesis unfolding split vp using IH by simp
    next
      case full: True
      have o1: "o1 = [datagram e 0 (pending e @ [p])]" and e1: "e1 = snd (emitDatagram (e\<lparr>pending := pending e @ [p]\<rparr>))"
        using enc_feed_cases(1) [OF Cons.prems True full] 1 by simp_all
      have f: "pending e1 = []" "ts_per_rtp e1 = ts_per_rtp e" "enc_sequence e1 = enc_sequence e + 1"
        "enc_timestamp e1 = enc_timestamp e + 3600" "enc_payload_type e1 = enc_payload_type e" "enc_ssrc e1 = enc_ssrc e"
        by (simp_all add: e1 emitDatagram_def)
      have cs: "chunks ?n (pending e @ p # valid_ts ps) = (pending e @ [p]) # chunks ?n (valid_ts ps)"
      proof -
        have "?n - length (pending e) = 1" "0 < ?n" using full by simp_all
        then show ?thesis by (subst chunks.simps) simp
      qed
      let ?r = "chunks ?n (valid_ts ps)"
      have "map2 (datagram e) [0..<length ((pending e @ [p]) # ?r)] ((pending e @ [p]) # ?r) =
          datagram e 0 (pending e @ [p]) # map2 (datagram e1) [0..<length ?r] ?r"
      proof -
        have "[0..<Suc (length ?r)] = 0 # [1..<1 + length ?r]" by (simp add: upt_rec)
        moreover have "datagram e1 = (\<lambda>i. datagram e (i + 1))"
          using datagram_shift [OF f(5,6,3,4)] by (simp add: fun_eq_iff)
        ultimately show ?thesis
          using map2_shift [of ?r "length ?r" "datagram e" 1] by simp
      qed
      then show ?thesis unfolding split vp cs o1 Let_def using IH by (simp add: f Let_def)
    qed
  qed
qed

section \<open>Properties\<close>

text \<open>Feeding packets and flushing sends every packet of 188 bytes exactly once and in order, in
  datagrams of \<open>ts_per_rtp\<close> packets (the last one may be shorter) with consecutive sequence numbers
  and timestamps 3600 ticks apart.\<close>

lemma encapsulation_complete:
  assumes "enc_ok e"
  shows "(let cs = chunks (unat (ts_per_rtp e)) (pending e @ valid_ts ps)
      in fst (enc_feed_all ps e) @ fst (enc_flush (snd (enc_feed_all ps e))) = map2 (datagram e) [0..<length cs] cs \<and>
         concat cs = pending e @ valid_ts ps \<and> (\<forall>c \<in> set cs. 0 < length c \<and> length c \<le> unat (ts_per_rtp e)))"
proof -
  have "unat (ts_per_rtp e) \<noteq> 0" using assms by (auto simp: enc_ok_def)
  then show ?thesis using enc_all_chunks [OF assms, of ps] by (auto simp: Let_def concat_chunks dest: chunks_length)
qed

text \<open>Both header readers give back what the writers wrote, every field cut to its width; the RTP reader
  refuses a version other than 2 and a header with CSRCs.\<close>

lemma fec_and_rtp_headers_roundtrip:
  shows "readRtpHeader (writeRtpHeader h @ rest) =
      (if version h AND 0x03 = 2 \<and> csrc_count h AND 0x0F = 0 then Some (mask_rtp h) else None) \<and>
    readFecHeader (writeFecHeader f @ rest) = Some (mask_fec f)"
  by (simp only: read_write_rtp read_write_fec simp_thms)

end
