(* ===== verification/Fec.thy ===== *)
theory Fec
  imports Rtp
begin

text \<open>
  \<^verbatim>\<open>src/gateway/fec/FecMatrix.{h,cpp}\<close> and \<^verbatim>\<open>FecEncoder.{h,cpp}\<close>: the matrix that
  collects media datagrams and emits XOR parity per column and, in 2D mode, per row. A sink is the
  list of datagrams written to it. The recovery theorem states what the emitted parity is for.
\<close>

subsection \<open>Parity\<close>

text \<open>An operation that cancels itself on a carrier: XOR of words, XOR of byte blocks of one length.\<close>

locale parity =
  fixes carrier :: "'a \<Rightarrow> bool"
    and plus :: "'a \<Rightarrow> 'a \<Rightarrow> 'a"
    and zero :: 'a
  assumes closed: "carrier x \<Longrightarrow> carrier y \<Longrightarrow> carrier (plus x y)"
    and zero_closed: "carrier zero"
    and assoc: "carrier x \<Longrightarrow> carrier y \<Longrightarrow> carrier z \<Longrightarrow> plus (plus x y) z = plus x (plus y z)"
    and comm: "carrier x \<Longrightarrow> carrier y \<Longrightarrow> plus x y = plus y x"
    and neutral: "carrier x \<Longrightarrow> plus zero x = x"
    and cancel: "carrier x \<Longrightarrow> plus x x = zero"
begin

definition total :: "'a list \<Rightarrow> 'a" where
  "total xs = foldl plus zero xs"

lemma foldl_closed: "carrier a \<Longrightarrow> list_all carrier xs \<Longrightarrow> carrier (foldl plus a xs)"
  by (induction xs arbitrary: a) (simp_all add: closed)

lemma foldl_out: "carrier a \<Longrightarrow> list_all carrier xs \<Longrightarrow> foldl plus a xs = plus a (foldl plus zero xs)"
proof (induction xs arbitrary: a)
  case Nil
  then show ?case using neutral comm zero_closed by simp
next
  case (Cons x xs)
  have c: "carrier x" "list_all carrier xs" using Cons.prems by simp_all
  have "foldl plus a (x # xs) = plus (plus a x) (foldl plus zero xs)"
    using Cons.IH [of "plus a x"] Cons.prems closed by simp
  also have "\<dots> = plus a (plus x (foldl plus zero xs))"
    using Cons.prems c by (simp add: assoc foldl_closed zero_closed)
  also have "plus x (foldl plus zero xs) = foldl plus zero (x # xs)"
    using Cons.IH [of x] c by (simp add: neutral)
  finally show ?case .
qed

text \<open>One member is the total of the group and the other members.\<close>

lemma recover:
  assumes "list_all carrier xs" "carrier y" "list_all carrier ys"
  shows "foldl plus (foldl plus zero (xs @ y # ys)) (xs @ ys) = y"
proof -
  let ?x = "foldl plus zero xs"
  let ?y = "foldl plus zero ys"
  have c: "carrier ?x" "carrier ?y" using assms by (simp_all add: foldl_closed zero_closed)
  have "foldl plus zero (xs @ y # ys) = plus (plus ?x y) ?y"
    using foldl_out [of "plus ?x y" ys] assms c by (simp add: closed)
  moreover have "foldl plus a (xs @ ys) = plus a (plus ?x ?y)" if "carrier a" for a
    using that foldl_out [of a xs] foldl_out [of "plus a ?x" ys] assms c by (simp add: closed assoc)
  moreover have "plus (plus (plus ?x y) ?y) (plus ?x ?y) = y"
  proof -
    have "plus (plus ?x y) ?y = plus y (plus ?x ?y)"
      using c assms(2) by (metis assoc comm closed)
    then show ?thesis
      using c assms(2) by (metis assoc cancel closed comm neutral)
  qed
  ultimately show ?thesis using c assms(2) by (simp add: closed)
qed

end

interpretation xor16: parity "\<lambda>_ :: u16. True" "(XOR)" 0
  by unfold_locales (simp_all add: xor.assoc xor.commute xor.left_commute)

interpretation xor8: parity "\<lambda>_ :: u8. True" "(XOR)" 0
  by unfold_locales (simp_all add: xor.assoc xor.commute xor.left_commute)

interpretation xor32: parity "\<lambda>_ :: u32. True" "(XOR)" 0
  by unfold_locales (simp_all add: xor.assoc xor.commute xor.left_commute)

text \<open>Byte blocks of length \<open>n\<close>.\<close>

definition xor_blocks :: "bytes \<Rightarrow> bytes \<Rightarrow> bytes" where
  "xor_blocks xs ys = map2 (XOR) xs ys"

lemma xor_blocks_parity: "parity (\<lambda>xs :: bytes. length xs = n) xor_blocks (replicate n 0)"
  by unfold_locales (auto simp: xor_blocks_def xor.assoc xor.commute xor.left_commute intro!: nth_equalityI)

text \<open>The byte loop of \<open>emitFec\<close>: the accumulator keeps its length, a shorter payload leaves the
  rest of it alone.\<close>

fun xor_into :: "bytes \<Rightarrow> bytes \<Rightarrow> bytes" where
  "xor_into (a # as) (b # bs) = (a XOR b) # xor_into as bs"
| "xor_into as [] = as"
| "xor_into [] bs = []"

definition pad :: "nat \<Rightarrow> bytes \<Rightarrow> bytes" where
  "pad n p = p @ replicate (n - length p) 0"

lemma xor_into_pad: "length p \<le> length acc \<Longrightarrow> xor_into acc p = xor_blocks acc (pad (length acc) p)"
proof (induction acc p rule: xor_into.induct)
  case (2 as)
  show ?case by (rule nth_equalityI) (simp_all add: xor_blocks_def pad_def)
qed (simp_all add: xor_blocks_def pad_def)

lemma length_pad: "length p \<le> n \<Longrightarrow> length (pad n p) = n"
  by (simp add: pad_def)

lemma foldl_xor_into:
  "length acc = n \<Longrightarrow> list_all (\<lambda>p. length p \<le> n) ps \<Longrightarrow>
   foldl xor_into acc ps = foldl xor_blocks acc (map (pad n) ps)"
  by (induction ps arbitrary: acc) (simp_all add: xor_into_pad xor_blocks_def length_pad)

subsection \<open>The matrix\<close>

datatype Mode = OneD | TwoD

record Slot =
  slot_seq :: u16
  slot_ts :: u32
  slot_pt :: u8
  payload_len :: u16
  slot_payload :: bytes
  filled :: bool

definition empty_slot :: Slot where
  "empty_slot = \<lparr>slot_seq = 0, slot_ts = 0, slot_pt = 0, payload_len = 0, slot_payload = [], filled = False\<rparr>"

record FecMatrix =
  cols :: u8
  rows :: u8
  mode :: Mode
  fec_pt :: u8
  col_ssrc :: u32
  row_ssrc :: u32
  fill :: nat
  mslots :: "Slot list"
  col_seq :: u16
  row_seq :: u16
  column_emitted :: u64
  row_emitted :: u64

definition capacity :: "FecMatrix \<Rightarrow> nat" where
  "capacity m = unat (cols m) * unat (rows m)"

definition new_FecMatrix :: "u8 \<Rightarrow> u8 \<Rightarrow> Mode \<Rightarrow> u8 \<Rightarrow> u32 \<Rightarrow> u32 \<Rightarrow> FecMatrix" where
  "new_FecMatrix L D md pt cs rs =
     \<lparr>cols = L, rows = D, mode = md, fec_pt = pt, col_ssrc = cs, row_ssrc = rs, fill = 0,
      mslots = replicate (unat L * unat D) empty_slot, col_seq = 0, row_seq = 0,
      column_emitted = 0, row_emitted = 0\<rparr>"

definition resetMatrix :: "FecMatrix \<Rightarrow> FecMatrix" where
  "resetMatrix m = m\<lparr>fill := 0, mslots := map (\<lambda>_. empty_slot) (mslots m)\<rparr>"

text \<open>\<open>emitFec\<close>: the datagram for the slots of one recovery group.\<close>

definition emitFec :: "bool \<Rightarrow> u16 \<Rightarrow> u8 \<Rightarrow> u8 \<Rightarrow> u8 \<Rightarrow> Slot list \<Rightarrow> u8 \<Rightarrow> u16 \<Rightarrow> u32 \<Rightarrow> bytes" where
  "emitFec is_row snbase_low snbase_ext off nna grp pt seq ss =
     (let max_payload = foldl max 0 (map (\<lambda>s. length (slot_payload s)) grp);
          len_rec = foldl (XOR) 0 (map payload_len grp);
          pt_rec = foldl (XOR) 0 (map (\<lambda>s. slot_pt s AND 0x7F) grp);
          ts_rec = foldl (XOR) 0 (map slot_ts grp);
          xor_payload = foldl xor_into (replicate max_payload 0) (map slot_payload grp)
      in writeRtpHeader \<lparr>version = kRtpVersion, padding = False, extension = False, csrc_count = 0,
           marker = False, payload_type = pt, sequence = seq, timestamp = slot_ts (hd grp), ssrc = ss\<rparr>
         @ writeFecHeader \<lparr>snbase = push_bit 16 (ucast snbase_ext) OR ucast snbase_low,
             length_recovery = len_rec, e_bit = True, pt_recovery = pt_rec, mask24 = 0,
             ts_recovery = ts_rec, x_bit = False, d_row = is_row, fec_type = 0, fec_index = 0,
             offset = off, na = nna\<rparr>
         @ xor_payload)"

definition row_group :: "FecMatrix \<Rightarrow> nat \<Rightarrow> Slot list" where
  "row_group m r = map (\<lambda>c. mslots m ! (r * unat (cols m) + c)) [0..<unat (cols m)]"

definition column_group :: "FecMatrix \<Rightarrow> nat \<Rightarrow> Slot list" where
  "column_group m c = map (\<lambda>r. mslots m ! (r * unat (cols m) + c)) [0..<unat (rows m)]"

text \<open>A datagram written to a sink: on the column port or on the row port.\<close>

datatype FecOut = ColumnFec bytes | RowFec bytes

definition emitRow :: "nat \<Rightarrow> FecMatrix \<Rightarrow> FecOut list \<times> FecMatrix" where
  "emitRow r m =
     (let g = row_group m r
      in ([RowFec (emitFec True (slot_seq (hd g)) 0 1 (cols m) g (fec_pt m) (row_seq m) (row_ssrc m))],
          m\<lparr>row_seq := row_seq m + 1, row_emitted := row_emitted m + 1\<rparr>))"

definition emitColumn :: "nat \<Rightarrow> FecMatrix \<Rightarrow> FecOut list \<times> FecMatrix" where
  "emitColumn c m =
     (let g = column_group m c
      in ([ColumnFec (emitFec False (slot_seq (hd g)) 0 (cols m) (rows m) g (fec_pt m) (col_seq m) (col_ssrc m))],
          m\<lparr>col_seq := col_seq m + 1, column_emitted := column_emitted m + 1\<rparr>))"

fun emitColumns :: "nat list \<Rightarrow> FecMatrix \<Rightarrow> FecOut list \<times> FecMatrix" where
  "emitColumns [] m = ([], m)"
| "emitColumns (c # cs) m =
     (let (o1, m1) = emitColumn c m; (o2, m2) = emitColumns cs m1 in (o1 @ o2, m2))"

definition slot_of :: "RtpHeaderFields \<Rightarrow> bytes \<Rightarrow> Slot" where
  "slot_of h pl = \<lparr>slot_seq = sequence h, slot_ts = timestamp h, slot_pt = payload_type h,
     payload_len = of_nat (length pl), slot_payload = pl, filled = True\<rparr>"

definition feedRtp :: "bytes \<Rightarrow> FecMatrix \<Rightarrow> FecOut list \<times> FecMatrix" where
  "feedRtp b m =
     (if length b < kRtpHeaderSize then ([], m)
      else case readRtpHeader b of
        None \<Rightarrow> ([], m)
      | Some h \<Rightarrow>
          let old_fill = fill m;
              m1 = m\<lparr>mslots := (mslots m)[old_fill := slot_of h (drop kRtpHeaderSize b)], fill := old_fill + 1\<rparr>;
              (out_row, m2) = (if mode m = TwoD \<and> old_fill mod unat (cols m) = unat (cols m) - 1
                               then emitRow (old_fill div unat (cols m)) m1 else ([], m1))
          in if fill m2 = capacity m2
             then let (out_col, m3) = emitColumns [0..<unat (cols m2)] m2
               in (out_row @ out_col, resetMatrix m3)
             else (out_row, m2))"

text \<open>The matrix dimensions the configuration allows start at one.\<close>

definition matrix_ok :: "FecMatrix \<Rightarrow> bool" where
  "matrix_ok m \<longleftrightarrow> 0 < capacity m \<and> length (mslots m) = capacity m \<and> fill m < capacity m"

lemma new_FecMatrix_ok: "L \<noteq> 0 \<Longrightarrow> D \<noteq> 0 \<Longrightarrow> matrix_ok (new_FecMatrix L D md pt cs rs)"
  by (simp add: matrix_ok_def new_FecMatrix_def capacity_def unat_gt_0)

subsection \<open>Emission counts\<close>

lemma emitColumns_state:
  "snd (emitColumns cs m) = m\<lparr>col_seq := col_seq m + of_nat (length cs),
     column_emitted := column_emitted m + of_nat (length cs)\<rparr>"
proof (induction cs arbitrary: m)
  case (Cons c cs)
  obtain o1 m1 where 1: "emitColumn c m = (o1, m1)" by fastforce
  then have m1: "m1 = m\<lparr>col_seq := col_seq m + 1, column_emitted := column_emitted m + 1\<rparr>"
    by (auto simp: emitColumn_def Let_def)
  have "snd (emitColumns (c # cs) m) = snd (emitColumns cs m1)" by (simp add: 1 split: prod.split)
  then show ?case by (simp add: Cons.IH m1 algebra_simps)
qed simp

definition valid_rtp :: "bytes \<Rightarrow> bool" where
  "valid_rtp b \<longleftrightarrow> readRtpHeader b \<noteq> None"

definition slot_bytes :: "bytes \<Rightarrow> Slot" where
  "slot_bytes b = slot_of (the (readRtpHeader b)) (drop kRtpHeaderSize b)"

lemma feed_invalid: "\<not> valid_rtp b \<Longrightarrow> feedRtp b m = ([], m)"
  by (simp add: feedRtp_def valid_rtp_def)

lemma valid_rtp_length: "valid_rtp b \<Longrightarrow> \<not> length b < kRtpHeaderSize"
  by (auto simp: valid_rtp_def readRtpHeader_def)

definition place :: "bytes \<Rightarrow> FecMatrix \<Rightarrow> FecMatrix" where
  "place b m = m\<lparr>mslots := (mslots m)[fill m := slot_bytes b], fill := fill m + 1\<rparr>"

definition row_done :: "FecMatrix \<Rightarrow> bool" where
  "row_done m \<longleftrightarrow> mode m = TwoD \<and> fill m mod unat (cols m) = unat (cols m) - 1"

lemma feed_valid_rtp:
  assumes "valid_rtp b"
  shows "feedRtp b m =
     (let (out_row, m2) = (if row_done m then emitRow (fill m div unat (cols m)) (place b m) else ([], place b m))
      in if fill m2 = capacity m2
         then let (out_col, m3) = emitColumns [0..<unat (cols m2)] m2 in (out_row @ out_col, resetMatrix m3)
         else (out_row, m2))"
proof -
  obtain h where "readRtpHeader b = Some h" using assms by (auto simp: valid_rtp_def)
  then show ?thesis
    using valid_rtp_length [OF assms]
    by (simp add: feedRtp_def place_def slot_bytes_def row_done_def Let_def)
qed

text \<open>The state after one media packet.\<close>

lemma emitRow_state: "snd (emitRow r m) = m\<lparr>row_seq := row_seq m + 1, row_emitted := row_emitted m + 1\<rparr>"
  by (simp add: emitRow_def Let_def)

lemma feed_state_valid:
  assumes "valid_rtp b"
  shows "snd (feedRtp b m) =
    (let m2 = (if row_done m then snd (emitRow (fill m div unat (cols m)) (place b m)) else place b m)
     in if fill m + 1 = capacity m
        then resetMatrix (snd (emitColumns [0..<unat (cols m)] m2)) else m2)"
  unfolding feed_valid_rtp [OF assms] Let_def
  by (auto simp: emitRow_def Let_def place_def capacity_def split: prod.splits)

lemma feed_counts:
  assumes ok: "matrix_ok m" and v: "valid_rtp b"
  defines "m' \<equiv> snd (feedRtp b m)"
  shows "matrix_ok m'" "cols m' = cols m" "rows m' = rows m" "mode m' = mode m" "capacity m' = capacity m"
    "fill m' = Suc (fill m) mod capacity m"
    "column_emitted m' = column_emitted m + of_nat (if Suc (fill m) = capacity m then unat (cols m) else 0)"
    "row_emitted m' = row_emitted m + of_bool (row_done m)"
  using ok unfolding m'_def feed_state_valid [OF v] Let_def emitColumns_state emitRow_state
  by (auto simp: matrix_ok_def place_def resetMatrix_def capacity_def)

fun feed_rtp_all :: "bytes list \<Rightarrow> FecMatrix \<Rightarrow> FecOut list \<times> FecMatrix" where
  "feed_rtp_all [] m = ([], m)"
| "feed_rtp_all (b # bs) m =
     (let (o1, m1) = feedRtp b m; (o2, m2) = feed_rtp_all bs m1 in (o1 @ o2, m2))"

lemma feed_rtp_all_append:
  "feed_rtp_all (xs @ ys) m =
     (let (o1, m1) = feed_rtp_all xs m; (o2, m2) = feed_rtp_all ys m1 in (o1 @ o2, m2))"
  by (induction xs arbitrary: m) (auto simp: Let_def split: prod.splits)

lemma feed_rtp_snoc:
  "fst (feed_rtp_all (xs @ [b]) m) = fst (feed_rtp_all xs m) @ fst (feedRtp b (snd (feed_rtp_all xs m)))"
  "snd (feed_rtp_all (xs @ [b]) m) = snd (feedRtp b (snd (feed_rtp_all xs m)))"
  by (simp_all add: feed_rtp_all_append Let_def split_beta)

lemma matrix_counts:
  fixes L D pt :: u8 and cs rs :: u32 and md :: Mode
  assumes "L \<noteq> 0" "D \<noteq> 0" "list_all valid_rtp bs"
  defines "m \<equiv> snd (feed_rtp_all bs (new_FecMatrix L D md pt cs rs))"
  shows "matrix_ok m \<and> cols m = L \<and> rows m = D \<and> mode m = md \<and> capacity m = unat L * unat D \<and>
    fill m = length bs mod (unat L * unat D) \<and>
    column_emitted m = of_nat (unat L * (length bs div (unat L * unat D))) \<and>
    row_emitted m = (if md = TwoD then of_nat (length bs div unat L) else 0)"
  using assms(3) unfolding m_def
proof (induction bs rule: rev_induct)
  case Nil
  show ?case using new_FecMatrix_ok [OF assms(1,2)] by (simp add: new_FecMatrix_def capacity_def)
next
  case (snoc b bs)
  define m0 where "m0 = snd (feed_rtp_all bs (new_FecMatrix L D md pt cs rs))"
  let ?C = "unat L * unat D"
  let ?n = "length bs"
  have IH: "matrix_ok m0" "cols m0 = L" "rows m0 = D" "mode m0 = md" "capacity m0 = ?C" "fill m0 = ?n mod ?C"
    "column_emitted m0 = of_nat (unat L * (?n div ?C))"
    "row_emitted m0 = (if md = TwoD then of_nat (?n div unat L) else 0)"
    using snoc by (simp_all add: m0_def)
  have vb: "valid_rtp b" using snoc.prems by simp
  have m1: "snd (feed_rtp_all (bs @ [b]) (new_FecMatrix L D md pt cs rs)) = snd (feedRtp b m0)"
    by (simp add: feed_rtp_snoc m0_def)
  note c = feed_counts [OF IH(1) vb]
  have L: "0 < unat L" using assms(1) by (simp add: unat_gt_0)
  have col: "(of_nat (unat L * (?n div ?C)) :: u64) + of_nat (if Suc (?n mod ?C) = ?C then unat L else 0) =
      of_nat (unat L * (Suc ?n div ?C))"
    by (simp add: div_Suc mod_Suc algebra_simps)
  have row: "row_done m0 \<longleftrightarrow> md = TwoD \<and> Suc (?n mod unat L) = unat L"
    using L by (auto simp: row_done_def IH mod_mult2_eq)
  show ?case
    unfolding m1 using c IH col row by (auto simp: mod_Suc div_Suc)
qed

subsection \<open>What each parity datagram covers\<close>

text \<open>Below the capacity the slots hold the packets in order.\<close>

lemma fill_slots:
  assumes "matrix_ok m" "fill m = 0" "length bs < capacity m" "list_all valid_rtp bs"
  defines "m' \<equiv> snd (feed_rtp_all bs m)"
  shows "matrix_ok m' \<and> fill m' = length bs \<and> cols m' = cols m \<and> rows m' = rows m \<and> mode m' = mode m \<and>
    capacity m' = capacity m \<and> fec_pt m' = fec_pt m \<and> col_ssrc m' = col_ssrc m \<and> col_seq m' = col_seq m \<and>
    (\<forall>j < length bs. mslots m' ! j = slot_bytes (bs ! j))"
  using assms(3,4) unfolding m'_def
proof (induction bs rule: rev_induct)
  case Nil
  then show ?case using assms(1,2) by simp
next
  case (snoc b bs)
  define m0 where "m0 = snd (feed_rtp_all bs m)"
  have IH: "matrix_ok m0" "fill m0 = length bs" "cols m0 = cols m" "rows m0 = rows m" "mode m0 = mode m"
    "capacity m0 = capacity m" "fec_pt m0 = fec_pt m" "col_ssrc m0 = col_ssrc m" "col_seq m0 = col_seq m"
    "\<forall>j < length bs. mslots m0 ! j = slot_bytes (bs ! j)"
    using snoc by (simp_all add: m0_def)
  have vb: "valid_rtp b" and lt: "Suc (length bs) < capacity m" using snoc.prems by simp_all
  have m1: "snd (feed_rtp_all (bs @ [b]) m) = snd (feedRtp b m0)"
    by (simp add: feed_rtp_snoc m0_def)
  have st: "snd (feedRtp b m0) = (if row_done m0 then (place b m0)\<lparr>row_seq := row_seq m0 + 1, row_emitted := row_emitted m0 + 1\<rparr>
      else place b m0)"
    using lt IH by (simp add: feed_state_valid [OF vb] Let_def emitRow_state place_def)
  have len: "length (mslots m0) = capacity m" using IH by (simp add: matrix_ok_def)
  show ?case
    unfolding m1 using feed_counts [OF IH(1) vb] IH lt len
    by (auto simp: st place_def nth_append less_Suc_eq)
qed

text \<open>The group of column \<open>c\<close> in a batch of \<open>L * D\<close> datagrams.\<close>

definition column_batch :: "FecMatrix \<Rightarrow> bytes list \<Rightarrow> nat \<Rightarrow> Slot list" where
  "column_batch m bs c = map (\<lambda>r. slot_bytes (bs ! (r * unat (cols m) + c))) [0..<unat (rows m)]"

lemma emitColumns_out:
  "fst (emitColumns cs m) = map (\<lambda>i. ColumnFec (emitFec False (slot_seq (hd (column_group m (cs ! i)))) 0
      (cols m) (rows m) (column_group m (cs ! i)) (fec_pt m) (col_seq m + of_nat i) (col_ssrc m))) [0..<length cs]"
proof (induction cs arbitrary: m)
  case (Cons c cs)
  define m1 where "m1 = m\<lparr>col_seq := col_seq m + 1, column_emitted := column_emitted m + 1\<rparr>"
  have g: "column_group m1 = column_group m" by (simp add: m1_def column_group_def fun_eq_iff)
  have f: "cols m1 = cols m" "rows m1 = rows m" "fec_pt m1 = fec_pt m" "col_ssrc m1 = col_ssrc m"
    "col_seq m1 = col_seq m + 1" by (simp_all add: m1_def)
  have one: "emitColumn c m = ([ColumnFec (emitFec False (slot_seq (hd (column_group m c))) 0 (cols m) (rows m)
      (column_group m c) (fec_pt m) (col_seq m) (col_ssrc m))], m1)"
    by (simp add: emitColumn_def Let_def m1_def)
  have "[0..<length (c # cs)] = 0 # map Suc [0..<length cs]"
    by (simp add: map_Suc_upt upt_conv_Cons del: upt_Suc)
  then show ?case
    using Cons.IH [of m1] by (simp add: one Let_def g f comp_def algebra_simps split_beta)
qed simp

lemma column_parity:
  assumes ok: "matrix_ok m" and f0: "fill m = 0" and one_d: "mode m = OneD"
    and len: "length bs = capacity m" and v: "list_all valid_rtp bs"
  shows "feed_rtp_all bs m = (map (\<lambda>c. ColumnFec (emitFec False (slot_seq (hd (column_batch m bs c))) 0
      (cols m) (rows m) (column_batch m bs c) (fec_pt m) (col_seq m + of_nat c) (col_ssrc m))) [0..<unat (cols m)],
     snd (feed_rtp_all bs m)) \<and> fill (snd (feed_rtp_all bs m)) = 0"
proof -
  have "bs \<noteq> []" using len ok by (auto simp: matrix_ok_def)
  then obtain xs b where bs: "bs = xs @ [b]" by (metis rev_exhaust)
  have vx: "list_all valid_rtp xs" "valid_rtp b" using v bs by simp_all
  have lx: "length xs < capacity m" "Suc (length xs) = capacity m" using len bs by simp_all
  note no_out = feed_valid_rtp
  define m0 where "m0 = snd (feed_rtp_all xs m)"
  have m0: "matrix_ok m0" "fill m0 = length xs" "cols m0 = cols m" "rows m0 = rows m" "mode m0 = mode m"
    "capacity m0 = capacity m" "fec_pt m0 = fec_pt m" "col_ssrc m0 = col_ssrc m" "col_seq m0 = col_seq m"
    "\<forall>j < length xs. mslots m0 ! j = slot_bytes (xs ! j)"
    using fill_slots [OF ok f0 lx(1) vx(1)] by (simp_all add: m0_def)
  have quiet: "fst (feed_rtp_all ys m) = []" if "length ys < capacity m" "list_all valid_rtp ys" for ys
    using that
  proof (induction ys rule: rev_induct)
    case (snoc y ys)
    define k where "k = snd (feed_rtp_all ys m)"
    have k: "fill k = length ys" "mode k = OneD" "capacity k = capacity m"
      using fill_slots [OF ok f0, of ys] snoc.prems one_d by (simp_all add: k_def)
    have "fst (feedRtp y k) = []"
      using feed_valid_rtp [of y k] snoc.prems k by (simp add: row_done_def Let_def place_def capacity_def)
    then show ?case using snoc by (simp add: feed_rtp_snoc k_def)
  qed simp
  have out: "fst (feed_rtp_all bs m) = fst (feedRtp b m0)"
    using quiet [OF lx(1) vx(1)] by (simp add: bs feed_rtp_snoc m0_def)
  let ?p = "place b m0"
  have p: "cols ?p = cols m" "rows ?p = rows m" "fec_pt ?p = fec_pt m" "col_seq ?p = col_seq m"
    "col_ssrc ?p = col_ssrc m" "fill ?p = capacity ?p"
    using m0 lx by (simp_all add: place_def capacity_def)
  have slots: "mslots ?p ! j = slot_bytes (bs ! j)" if "j < capacity m" for j
  proof (cases "j = length xs")
    case True
    then show ?thesis using m0(1,2,6) lx(1) by (simp add: place_def bs matrix_ok_def)
  next
    case False
    then have "j < length xs" using that lx by simp
    then show ?thesis using m0(2,10) by (simp add: place_def bs nth_append)
  qed
  have grp: "column_group ?p c = column_batch m bs c" if "c < unat (cols m)" for c
    unfolding column_group_def column_batch_def p
  proof (rule map_cong [OF refl])
    fix r assume "r \<in> set [0..<unat (rows m)]"
    then have "r < unat (rows m)" by simp
    then have "Suc r * unat (cols m) \<le> unat (rows m) * unat (cols m)" by (intro mult_le_mono1) simp
    then have "r * unat (cols m) + c < unat (rows m) * unat (cols m)" using that by simp
    then show "mslots ?p ! (r * unat (cols m) + c) = slot_bytes (bs ! (r * unat (cols m) + c))"
      by (intro slots) (simp add: capacity_def mult.commute)
  qed
  have "fst (feedRtp b m0) = fst (emitColumns [0..<unat (cols m)] ?p)"
    using feed_valid_rtp [OF vx(2), of m0] m0(5) one_d p(1,6)
    by (simp add: row_done_def Let_def split: prod.splits)
  also have "\<dots> = map (\<lambda>c. ColumnFec (emitFec False (slot_seq (hd (column_batch m bs c))) 0
      (cols m) (rows m) (column_batch m bs c) (fec_pt m) (col_seq m + of_nat c) (col_ssrc m))) [0..<unat (cols m)]"
    unfolding emitColumns_out p by (simp add: grp)
  finally have res: "fst (feed_rtp_all bs m) = \<dots>" using out by simp
  have "fill (snd (feed_rtp_all bs m)) = fill (snd (feedRtp b m0))"
    by (simp add: bs feed_rtp_snoc m0_def)
  also have "\<dots> = 0" using feed_counts(6) [OF m0(1) vx(2)] m0(2,6) lx by simp
  finally show ?thesis using res by (simp add: prod_eq_iff)
qed

subsection \<open>Recovery\<close>

text \<open>What a receiver does with a parity datagram and the other members of the group.\<close>

definition recover_payload :: "u16 \<Rightarrow> bytes \<Rightarrow> Slot list \<Rightarrow> bytes" where
  "recover_payload len_rec block others =
     take (unat (foldl (XOR) len_rec (map payload_len others)))
       (foldl xor_into block (map slot_payload others))"

definition slot_wf :: "Slot \<Rightarrow> bool" where
  "slot_wf s \<longleftrightarrow> payload_len s = of_nat (length (slot_payload s)) \<and> length (slot_payload s) < 2 ^ 16"

lemma foldl_max_ge: "x \<in> set xs \<or> x \<le> a \<Longrightarrow> (x :: nat) \<le> foldl max a xs"
proof (induction xs arbitrary: a)
  case (Cons y ys)
  from Cons.prems have "x \<in> set ys \<or> x \<le> max a y" by auto
  from Cons.IH [OF this] show ?case by simp
qed simp

lemma foldl_XOR_AND: "foldl (XOR) a xs AND k = foldl (XOR) (a AND k) (map (\<lambda>x. x AND k) (xs :: 'a::len word list))"
proof (induction xs arbitrary: a)
  case (Cons x xs)
  have "(a XOR x) AND k = (a AND k) XOR (x AND k)" by (rule bit_word_eqI) (auto simp: bit_simps)
  with Cons.IH [of "a XOR x"] show ?case by simp
qed simp

lemma payload_recover:
  assumes "list_all (\<lambda>p. length p \<le> n) (xs @ y # ys)"
  shows "take (length y) (foldl xor_into (foldl xor_into (replicate n 0) (xs @ y # ys)) (xs @ ys)) = y"
proof -
  let ?p = "pad n"
  have len: "length (foldl xor_blocks a zs) = n" if "length a = n" "list_all (\<lambda>p. length p = n) zs" for a zs
    using that by (induction zs arbitrary: a) (simp_all add: xor_blocks_def)
  have pads: "list_all (\<lambda>p. length p = n) (map ?p zs)" if "list_all (\<lambda>p. length p \<le> n) zs" for zs
    using that by (simp add: list_all_iff length_pad)
  have f1: "foldl xor_into (replicate n 0) (xs @ y # ys) = foldl xor_blocks (replicate n 0) (map ?p (xs @ y # ys))"
    by (rule foldl_xor_into) (use assms in simp_all)
  have l1: "length (foldl xor_blocks (replicate n 0) (map ?p (xs @ y # ys))) = n"
    by (rule len) (use assms pads in \<open>simp_all add: length_pad\<close>)
  have "foldl xor_into (foldl xor_into (replicate n 0) (xs @ y # ys)) (xs @ ys) =
      foldl xor_blocks (foldl xor_blocks (replicate n 0) (map ?p (xs @ y # ys))) (map ?p (xs @ ys))"
    unfolding f1 by (rule foldl_xor_into [OF l1]) (use assms in simp)
  also have "\<dots> = ?p y"
    using parity.recover [OF xor_blocks_parity [of n], of "map ?p xs" "?p y" "map ?p ys"] assms pads
    by (simp add: length_pad)
  finally show ?thesis by (simp add: pad_def)
qed

lemma emitFec_parts:
  fixes g :: "Slot list" and is_row :: bool and lo seq :: u16 and ext off nna pt :: u8 and ss :: u32
  defines "d \<equiv> emitFec is_row lo ext off nna g pt seq ss"
  shows "drop 28 d = foldl xor_into (replicate (foldl max 0 (map (\<lambda>s. length (slot_payload s)) g)) 0) (map slot_payload g)"
    "\<exists>f. readFecHeader (drop 12 d) = Some f \<and> length_recovery f = foldl (XOR) 0 (map payload_len g) \<and>
      ts_recovery f = foldl (XOR) 0 (map slot_ts g) \<and>
      pt_recovery f = foldl (XOR) 0 (map (\<lambda>s. slot_pt s AND 0x7F) g) \<and> d_row f = is_row \<and> offset f = off \<and> na f = nna"
proof -
  show "drop 28 d = foldl xor_into (replicate (foldl max 0 (map (\<lambda>s. length (slot_payload s)) g)) 0) (map slot_payload g)"
    by (simp add: d_def emitFec_def Let_def)
  have "(foldl (XOR) 0 (map (\<lambda>s. slot_pt s AND 0x7F) g)) AND 0x7F = foldl (XOR) 0 (map (\<lambda>s. slot_pt s AND 0x7F) g)"
    unfolding foldl_XOR_AND by (simp add: comp_def and.assoc)
  then show "\<exists>f. readFecHeader (drop 12 d) = Some f \<and> length_recovery f = foldl (XOR) 0 (map payload_len g) \<and>
      ts_recovery f = foldl (XOR) 0 (map slot_ts g) \<and>
      pt_recovery f = foldl (XOR) 0 (map (\<lambda>s. slot_pt s AND 0x7F) g) \<and> d_row f = is_row \<and> offset f = off \<and> na f = nna"
    by (simp add: d_def emitFec_def Let_def read_write_fec mask_fec_def)
qed

text \<open>Any one lost member of a recovery group comes back: payload, timestamp and payload type.\<close>

lemma fec_recovers:
  assumes g: "g = xs @ s # ys" and wf: "list_all slot_wf g"
    and d: "d = emitFec is_row lo ext off nna g pt seq ss" and f: "readFecHeader (drop 12 d) = Some f"
  shows "recover_payload (length_recovery f) (drop 28 d) (xs @ ys) = slot_payload s"
    "foldl (XOR) (ts_recovery f) (map slot_ts (xs @ ys)) = slot_ts s"
    "foldl (XOR) (pt_recovery f) (map (\<lambda>s. slot_pt s AND 0x7F) (xs @ ys)) = slot_pt s AND 0x7F"
proof -
  note p = emitFec_parts [of is_row lo ext off nna g pt seq ss, folded d]
  have r: "length_recovery f = foldl (XOR) 0 (map payload_len g)" "ts_recovery f = foldl (XOR) 0 (map slot_ts g)"
    "pt_recovery f = foldl (XOR) 0 (map (\<lambda>s. slot_pt s AND 0x7F) g)"
    using p(2) f by auto
  show "foldl (XOR) (ts_recovery f) (map slot_ts (xs @ ys)) = slot_ts s"
    using xor32.recover [where xs = "map slot_ts xs" and y = "slot_ts s" and ys = "map slot_ts ys"] by (simp add: r g list_all_iff)
  show "foldl (XOR) (pt_recovery f) (map (\<lambda>s. slot_pt s AND 0x7F) (xs @ ys)) = slot_pt s AND 0x7F"
    using xor8.recover [where xs = "map (\<lambda>s. slot_pt s AND 0x7F) xs" and y = "slot_pt s AND 0x7F" and ys = "map (\<lambda>s. slot_pt s AND 0x7F) ys"]
    by (simp add: r g list_all_iff)
  have "foldl (XOR) (length_recovery f) (map payload_len (xs @ ys)) = payload_len s"
    using xor16.recover [where xs = "map payload_len xs" and y = "payload_len s" and ys = "map payload_len ys"] by (simp add: r g list_all_iff)
  moreover have "unat (payload_len s) = length (slot_payload s)"
    using wf by (simp add: g slot_wf_def unat_of_nat_small)
  moreover have "list_all (\<lambda>q. length q \<le> foldl max 0 (map (\<lambda>s. length (slot_payload s)) g))
      (map slot_payload xs @ slot_payload s # map slot_payload ys)"
  proof -
    have "length (slot_payload q) \<le> foldl max 0 (map (\<lambda>s. length (slot_payload s)) g)" if "q \<in> set g" for q
      by (rule foldl_max_ge) (use that in simp)
    then show ?thesis unfolding list_all_iff using g by auto
  qed
  ultimately show "recover_payload (length_recovery f) (drop 28 d) (xs @ ys) = slot_payload s"
    using payload_recover [of _ "map slot_payload xs" "slot_payload s" "map slot_payload ys"]
    by (simp add: recover_payload_def p(1) g)
qed

section \<open>Properties\<close>

text \<open>C24: any one lost member of a recovery group is restored from the group's FEC datagram and the other
  members: its payload and length, its timestamp and its payload type.\<close>

theorem lost_packet_recovered:
  assumes "g = xs @ s # ys" "list_all slot_wf g" "d = emitFec is_row lo ext off nna g pt seq ss"
    "readFecHeader (drop 12 d) = Some f"
  shows "recover_payload (length_recovery f) (drop 28 d) (xs @ ys) = slot_payload s \<and>
    foldl (XOR) (ts_recovery f) (map slot_ts (xs @ ys)) = slot_ts s \<and>
    foldl (XOR) (pt_recovery f) (map (\<lambda>s. slot_pt s AND 0x7F) (xs @ ys)) = slot_pt s AND 0x7F"
  using fec_recovers [OF assms] by simp

theorem lost_packet_recovered_witness:
  "\<exists>f :: FecHeaderFields. recover_payload (length_recovery f) (drop 28 (emitFec False 0 0 1 2
        [\<lparr>slot_seq = 1, slot_ts = 10, slot_pt = 33, payload_len = 2, slot_payload = [5, 6], filled = True\<rparr>,
         \<lparr>slot_seq = 2, slot_ts = 20, slot_pt = 33, payload_len = 3, slot_payload = [7, 8, 9], filled = True\<rparr>] 96 0 0))
      [\<lparr>slot_seq = 1, slot_ts = 10, slot_pt = 33, payload_len = 2, slot_payload = [5, 6], filled = True\<rparr>] = [7, 8, 9]"
proof -
  let ?g = "[\<lparr>slot_seq = 1, slot_ts = 10, slot_pt = 33, payload_len = 2, slot_payload = [5, 6], filled = True\<rparr>] @
      \<lparr>slot_seq = 2, slot_ts = 20, slot_pt = 33, payload_len = 3, slot_payload = [7, 8, 9], filled = True\<rparr> # []"
  obtain f where "readFecHeader (drop 12 (emitFec False 0 0 1 2 ?g 96 0 0)) = Some f"
    using emitFec_parts(2) by blast
  from lost_packet_recovered [OF refl _ refl this] show ?thesis by (auto simp: slot_wf_def)
qed

text \<open>A full batch of media packets yields one column datagram per column, over the packets of that
  column in arrival order and with consecutive sequence numbers, and an empty matrix.\<close>

lemma column_datagrams:
  assumes "matrix_ok m" "fill m = 0" "mode m = OneD" "length bs = capacity m" "list_all valid_rtp bs"
  shows "feed_rtp_all bs m = (map (\<lambda>c. ColumnFec (emitFec False (slot_seq (hd (column_batch m bs c))) 0
      (cols m) (rows m) (column_batch m bs c) (fec_pt m) (col_seq m + of_nat c) (col_ssrc m))) [0..<unat (cols m)],
     snd (feed_rtp_all bs m)) \<and> fill (snd (feed_rtp_all bs m)) = 0"
  by (rule column_parity [OF assms])

text \<open>After \<open>n\<close> media packets the matrix holds \<open>n mod (L * D)\<close> of them and has sent \<open>L\<close> column
  datagrams per full batch and, in 2D mode, one row datagram per \<open>L\<close> packets.\<close>

lemma matrix_cadence:
  fixes L D pt :: u8 and cs rs :: u32 and md :: Mode
  assumes "L \<noteq> 0" "D \<noteq> 0" "list_all valid_rtp bs" "m = snd (feed_rtp_all bs (new_FecMatrix L D md pt cs rs))"
  shows "matrix_ok m \<and> cols m = L \<and> rows m = D \<and> fill m = length bs mod (unat L * unat D) \<and>
    column_emitted m = of_nat (unat L * (length bs div (unat L * unat D))) \<and>
    row_emitted m = (if md = TwoD then of_nat (length bs div unat L) else 0)"
  using matrix_counts [OF assms(1-3), of md pt cs rs] unfolding assms(4) by blast

end
