(* ===== verification/FecEncoder.thy ===== *)
theory FecEncoder
  imports Fec
begin

text \<open>
  \<^verbatim>\<open>src/gateway/fec/FecEncoder.{h,cpp}\<close>: the encapsulator and the matrix wired together. The
  three sinks are one list of tagged datagrams, in the order they are written.
\<close>

datatype wire = MediaRtp bytes | FecRtp FecOut

record FecEncoder =
  enabled :: bool
  encap :: RtpEncapsulator
  matrix :: FecMatrix
  media_emitted :: u64

definition onMediaRtp :: "bytes \<Rightarrow> FecEncoder \<Rightarrow> wire list \<times> FecEncoder" where
  "onMediaRtp rtp e =
     (let e1 = e\<lparr>media_emitted := media_emitted e + 1\<rparr>
      in if enabled e then
           let (out, m) = feedRtp rtp (matrix e1) in (MediaRtp rtp # map FecRtp out, e1\<lparr>matrix := m\<rparr>)
         else ([MediaRtp rtp], e1))"

text \<open>The encapsulator's sink is \<open>onMediaRtp\<close>, called for each datagram it emits.\<close>

fun deliver :: "bytes list \<Rightarrow> FecEncoder \<Rightarrow> wire list \<times> FecEncoder" where
  "deliver [] e = ([], e)"
| "deliver (d # ds) e = (let (o1, e1) = onMediaRtp d e; (o2, e2) = deliver ds e1 in (o1 @ o2, e2))"

definition feedTsPacket :: "bytes \<Rightarrow> FecEncoder \<Rightarrow> wire list \<times> FecEncoder" where
  "feedTsPacket p e = (let (ds, en) = enc_feed p (encap e) in deliver ds (e\<lparr>encap := en\<rparr>))"

definition fec_flush :: "FecEncoder \<Rightarrow> wire list \<times> FecEncoder" where
  "fec_flush e = (let (ds, en) = enc_flush (encap e) in deliver ds (e\<lparr>encap := en\<rparr>))"

definition columnFecEmitted :: "FecEncoder \<Rightarrow> u64" where
  "columnFecEmitted e = column_emitted (matrix e)"

definition rowFecEmitted :: "FecEncoder \<Rightarrow> u64" where
  "rowFecEmitted e = row_emitted (matrix e)"

definition enc_resetMatrix :: "FecEncoder \<Rightarrow> FecEncoder" where
  "enc_resetMatrix e = e\<lparr>matrix := resetMatrix (matrix e)\<rparr>"

fun feed_ts_all :: "bytes list \<Rightarrow> FecEncoder \<Rightarrow> wire list \<times> FecEncoder" where
  "feed_ts_all [] e = ([], e)"
| "feed_ts_all (p # ps) e =
     (let (o1, e1) = feedTsPacket p e; (o2, e2) = feed_ts_all ps e1 in (o1 @ o2, e2))"

fun media_of :: "wire list \<Rightarrow> bytes list" where
  "media_of [] = []"
| "media_of (MediaRtp d # ws) = d # media_of ws"
| "media_of (FecRtp f # ws) = media_of ws"

fun fec_of :: "wire list \<Rightarrow> FecOut list" where
  "fec_of [] = []"
| "fec_of (MediaRtp d # ws) = fec_of ws"
| "fec_of (FecRtp f # ws) = f # fec_of ws"

lemma media_of_append [simp]: "media_of (xs @ ys) = media_of xs @ media_of ys"
  by (induction xs rule: media_of.induct) simp_all

lemma fec_of_append [simp]: "fec_of (xs @ ys) = fec_of xs @ fec_of ys"
  by (induction xs rule: fec_of.induct) simp_all

lemma media_of_FecRtp [simp]: "media_of (map FecRtp fs) = []"
  by (induction fs) simp_all

lemma fec_of_FecRtp [simp]: "fec_of (map FecRtp fs) = fs"
  by (induction fs) simp_all

subsection \<open>The encoder is the encapsulator followed by the matrix\<close>

lemma deliver_split:
  "deliver ds e = (fst (deliver ds e),
     e\<lparr>media_emitted := media_emitted e + of_nat (length ds),
       matrix := (if enabled e then snd (feed_rtp_all ds (matrix e)) else matrix e)\<rparr>) \<and>
   media_of (fst (deliver ds e)) = ds \<and>
   fec_of (fst (deliver ds e)) = (if enabled e then fst (feed_rtp_all ds (matrix e)) else [])"
proof (induction ds arbitrary: e)
  case (Cons d ds)
  obtain o1 e1 where 1: "onMediaRtp d e = (o1, e1)" by fastforce
  obtain fo m1 where f: "feedRtp d (matrix e) = (fo, m1)" by fastforce
  have s: "e1 = e\<lparr>media_emitted := media_emitted e + 1, matrix := (if enabled e then m1 else matrix e)\<rparr>"
    "media_of o1 = [d]" "fec_of o1 = (if enabled e then fo else [])"
    using 1 by (auto simp: onMediaRtp_def Let_def f split: if_splits)
  have d: "deliver (d # ds) e = (o1 @ fst (deliver ds e1), snd (deliver ds e1))"
    by (simp add: 1 Let_def split_beta)
  have fr: "feed_rtp_all (d # ds) (matrix e) = (fo @ fst (feed_rtp_all ds m1), snd (feed_rtp_all ds m1))"
    by (simp add: f Let_def split_beta)
  note IH = Cons.IH [of e1]
  have "snd (deliver ds e1) = e1\<lparr>media_emitted := media_emitted e1 + of_nat (length ds),
       matrix := (if enabled e1 then snd (feed_rtp_all ds (matrix e1)) else matrix e1)\<rparr>"
    using IH by (metis snd_conv)
  then show ?case
    unfolding d fr using IH s by (simp add: algebra_simps)
qed simp

lemma deliver_append:
  "deliver (xs @ ys) e = (let (o1, e1) = deliver xs e; (o2, e2) = deliver ys e1 in (o1 @ o2, e2))"
  by (induction xs arbitrary: e) (auto simp: Let_def split: prod.splits)

lemma onMediaRtp_encap: "onMediaRtp d (e\<lparr>encap := en\<rparr>) = map_prod id (\<lambda>x. x\<lparr>encap := en\<rparr>) (onMediaRtp d e)"
  by (simp add: onMediaRtp_def Let_def split_beta)

lemma deliver_encap: "deliver ds (e\<lparr>encap := en\<rparr>) = map_prod id (\<lambda>x. x\<lparr>encap := en\<rparr>) (deliver ds e)"
  by (induction ds arbitrary: e) (simp_all add: onMediaRtp_encap Let_def split_beta)

lemma encap_deliver: "encap (snd (deliver ds e)) = encap e"
  using deliver_split [of ds e] by (metis (no_types, lifting) FecEncoder.select_convs(2)
      FecEncoder.surjective FecEncoder.update_convs(3,4) snd_conv)

lemma feed_ts_all_deliver:
  "feed_ts_all ps e =
     (let (ds, en) = enc_feed_all ps (encap e) in map_prod id (\<lambda>x. x\<lparr>encap := en\<rparr>) (deliver ds e))"
proof (induction ps arbitrary: e)
  case Nil
  show ?case by simp
next
  case (Cons p ps)
  obtain d1 en1 where 1: "enc_feed p (encap e) = (d1, en1)" by fastforce
  obtain d2 en2 where 2: "enc_feed_all ps en1 = (d2, en2)" by fastforce
  obtain o1 e1 where o1: "deliver d1 e = (o1, e1)" by fastforce
  have "feedTsPacket p e = (o1, e1\<lparr>encap := en1\<rparr>)"
    by (simp add: feedTsPacket_def 1 deliver_encap o1)
  then show ?case
    using Cons.IH [of "e1\<lparr>encap := en1\<rparr>"]
    by (simp add: 1 2 o1 deliver_encap deliver_append Let_def split_beta comp_def)
qed

section \<open>Properties\<close>

text \<open>C39: the encoder implements the composition of its two parts: the media datagrams it sends are those of
  the encapsulator alone, the FEC datagrams those of the matrix fed with them (none when FEC is
  disabled), and its state is that of the two parts.\<close>

theorem encoder_composes:
  shows "media_of (fst (feed_ts_all ps e)) = fst (enc_feed_all ps (encap e)) \<and>
    fec_of (fst (feed_ts_all ps e)) =
      (if enabled e then fst (feed_rtp_all (fst (enc_feed_all ps (encap e))) (matrix e)) else []) \<and>
    encap (snd (feed_ts_all ps e)) = snd (enc_feed_all ps (encap e)) \<and>
    matrix (snd (feed_ts_all ps e)) =
      (if enabled e then snd (feed_rtp_all (fst (enc_feed_all ps (encap e))) (matrix e)) else matrix e) \<and>
    media_emitted (snd (feed_ts_all ps e)) = media_emitted e + of_nat (length (fst (enc_feed_all ps (encap e))))"
proof -
  obtain ds en where r: "enc_feed_all ps (encap e) = (ds, en)" by fastforce
  obtain ws e' where d: "deliver ds e = (ws, e')" by fastforce
  show ?thesis using deliver_split [of ds e] by (simp add: feed_ts_all_deliver r d)
qed

end
