(* ===== verification/Timeline.thy ===== *)
theory Timeline
  imports Complex_Main Prelude
begin

text \<open>
  The playlist scheduler: \<open>core/Timeline.cpp\<close> and \<open>core/Timeline.h\<close>, with the transition
  configuration of \<open>transitions/ITransition.h\<close> and the three queries of \<open>clips/IClip.h\<close> the
  scheduler calls. A clip is the identity of its shared pointer; what its virtual queries return
  at the time of a call is a parameter (\<open>clip \<Rightarrow> IClip\<close>). Durations and positions, C++ doubles, are
  rationals: the results below are about the scheduling arithmetic, not about its rounding, and a
  NaN or an infinity appears only as the argument of \<open>restoreCursor\<close>, which tests for it. The
  entries of a playlist are non-null, as every caller builds them. Indexing a vector past its end
  is undefined in the code and \<open>None\<close> here.

  The second half proves the mutators' frame conditions (the cursor never moves, the four vectors
  stay parallel), and that the stateful cursor is the stateless \<open>fmod\<close> scheduler in disguise.
\<close>

subsection \<open>Transitions\<close>

datatype TransitionType = CrossFade | WipeLeft | WipeRight | WipeUp | WipeDown
  | PushLeft | PushRight | PushUp | PushDown | Dissolve | FadeToBlack | TypeHardCut

datatype TransitionMode = ModeHardCut | FreezeFade | LiveMix

datatype Easing = Linear | EaseIn | EaseOut | EaseInOut

fun applyEasing :: "Easing \<Rightarrow> rat \<Rightarrow> rat" where
  "applyEasing e t =
    (if t \<le> 0 then 0 else if t \<ge> 1 then 1
     else (case e of
         Linear \<Rightarrow> t
       | EaseIn \<Rightarrow> t * t
       | EaseOut \<Rightarrow> (let u = 1 - t in 1 - u * u)
       | EaseInOut \<Rightarrow> t * t * (3 - 2 * t)))"

record TransitionConfig =
  tr_type :: TransitionType
  tr_mode :: TransitionMode
  tr_duration :: rat
  tr_easing :: Easing

definition kHardCut :: TransitionConfig where
  "kHardCut = \<lparr>tr_type = TypeHardCut, tr_mode = ModeHardCut, tr_duration = 0, tr_easing = Linear\<rparr>"

subsection \<open>Clips, playlists and the state of a timeline\<close>

type_synonym clip = nat

record IClip =
  getDuration :: rat
  isPrepared :: bool
  warmUpSec :: rat

record PlaylistSnapshot =
  clips :: "clip list"
  transitions :: "TransitionConfig list"
  cache_paths :: "string list"
  pending_remove :: "bool list"

record TimelineState =
  clipA :: "clip option"
  clipB :: "clip option"
  in_transition :: bool
  clipA_in_tail :: bool
  clipB_in_tail :: bool
  transition_progress :: rat
  transition_type :: TransitionType
  transition_easing :: Easing

definition default_state :: TimelineState where
  "default_state = \<lparr>clipA = None, clipB = None, in_transition = False, clipA_in_tail = False,
     clipB_in_tail = False, transition_progress = 0, transition_type = CrossFade,
     transition_easing = Linear\<rparr>"

datatype BoundaryStatus = Completed | SkippedUser | Removed

datatype RemoveResult = RemovedNow | MarkedActive | NotFound

record timeline =
  tl_current :: PlaylistSnapshot
  tl_fallback :: "clip option"
  active_clip :: "clip option"
  slot_pos_sec :: rat
  auto_reaped_paths :: "string list"
  pending_boundary_status :: BoundaryStatus
  last_prepared :: "clip option"
  prepare_cb_set :: bool

definition new_Timeline :: timeline where
  "new_Timeline = \<lparr>tl_current = \<lparr>clips = [], transitions = [], cache_paths = [], pending_remove = []\<rparr>,
     tl_fallback = None, active_clip = None, slot_pos_sec = 0, auto_reaped_paths = [],
     pending_boundary_status = Completed, last_prepared = None, prepare_cb_set = False\<rparr>"

subsection \<open>Slot arithmetic\<close>

definition transitionFor :: "TransitionConfig list \<Rightarrow> nat \<Rightarrow> TransitionConfig" where
  "transitionFor trs i =
    (if length trs \<le> i then kHardCut
     else let tr = trs ! i in
       if tr_type tr = TypeHardCut \<or> tr_duration tr \<le> 0
       then tr\<lparr>tr_mode := ModeHardCut, tr_duration := 0\<rparr>
       else tr)"

definition outgoingTailLen :: "TransitionConfig \<Rightarrow> rat" where
  "outgoingTailLen tr = (if tr_mode tr = ModeHardCut then 0 else tr_duration tr)"

definition prevConsumed :: "TransitionConfig \<Rightarrow> rat" where
  "prevConsumed prev_tr = (if tr_mode prev_tr = LiveMix then tr_duration prev_tr else 0)"

definition slotLength :: "IClip \<Rightarrow> TransitionConfig \<Rightarrow> TransitionConfig \<Rightarrow> rat" where
  "slotLength clip prev_tr own_tr =
    (let content = getDuration clip - prevConsumed prev_tr
     in max 0 content + outgoingTailLen own_tr)"

definition prevTransition :: "TransitionConfig list \<Rightarrow> nat \<Rightarrow> nat \<Rightarrow> TransitionConfig" where
  "prevTransition trs i n = (if n = 0 then kHardCut else transitionFor trs ((i + n - 1) mod n))"

text \<open>The three lines each loop over the slots starts with.\<close>

definition slot_len :: "(clip \<Rightarrow> IClip) \<Rightarrow> PlaylistSnapshot \<Rightarrow> nat \<Rightarrow> rat" where
  "slot_len env snap i =
    (let own = transitionFor (transitions snap) i;
         prev = prevTransition (transitions snap) i (length (clips snap))
     in slotLength (env (clips snap ! i)) prev own)"

definition timelineTotal :: "(clip \<Rightarrow> IClip) \<Rightarrow> PlaylistSnapshot \<Rightarrow> rat" where
  "timelineTotal env snap =
    foldl (\<lambda>acc i. acc + slot_len env snap i) 0 [0..<length (clips snap)]"

text \<open>The slot, its start and its length; the loop stops at the last slot whatever \<open>t\<close> is.\<close>

fun findSlot_loop :: "(clip \<Rightarrow> IClip) \<Rightarrow> PlaylistSnapshot \<Rightarrow> rat \<Rightarrow> rat \<Rightarrow> nat list \<Rightarrow> nat \<times> rat \<times> rat" where
  "findSlot_loop env snap t run [] = (length (clips snap) - 1, 0, 0)"
| "findSlot_loop env snap t run (i # is) =
    (let slen = slot_len env snap i in
     if t < run + slen \<or> i = length (clips snap) - 1 then (i, run, slen)
     else findSlot_loop env snap t (run + slen) is)"

definition findSlotIndex :: "(clip \<Rightarrow> IClip) \<Rightarrow> PlaylistSnapshot \<Rightarrow> rat \<Rightarrow> nat \<times> rat \<times> rat" where
  "findSlotIndex env snap t = findSlot_loop env snap t 0 [0..<length (clips snap)]"

definition pending_at :: "PlaylistSnapshot \<Rightarrow> nat \<Rightarrow> bool" where
  "pending_at snap i = (i < length (pending_remove snap) \<and> pending_remove snap ! i)"

definition buildState ::
  "(clip \<Rightarrow> IClip) \<Rightarrow> PlaylistSnapshot \<Rightarrow> nat \<Rightarrow> rat \<Rightarrow> clip option \<Rightarrow> TimelineState" where
  "buildState env snap idx pos_in_slot fallback =
    (let n = length (clips snap);
         own_tr = transitionFor (transitions snap) idx;
         prev_tr = prevTransition (transitions snap) idx n;
         content_len = max 0 (getDuration (env (clips snap ! idx)) - prevConsumed prev_tr);
         tail_len = outgoingTailLen own_tr;
         a = (if \<not> isPrepared (env (clips snap ! idx)) \<and> fallback \<noteq> None then fallback
              else Some (clips snap ! idx));
         state = default_state\<lparr>clipA := a\<rparr>
     in if tail_len > 0 \<and> pos_in_slot \<ge> content_len then
          let active_pending = pending_at snap idx;
              next_idx = (idx + 1) mod n;
              next_clip = clips snap ! next_idx;
              next_pending = pending_at snap next_idx;
              next_is_self = (Some next_clip = a);
              no_live_next = (next_is_self \<or> next_pending \<or> \<not> isPrepared (env next_clip));
              to_fallback = (active_pending \<and> fallback \<noteq> None \<and> no_live_next);
              b = (if to_fallback then fallback else Some next_clip);
              self_loop = (b = a)
          in if \<not> to_fallback \<and> \<not> isPrepared (env next_clip) then state
             else state\<lparr>in_transition := True, clipA_in_tail := True,
                    clipB_in_tail := (if self_loop \<or> to_fallback then False
                                      else tr_mode own_tr = FreezeFade),
                    clipB := b, transition_type := tr_type own_tr,
                    transition_easing := tr_easing own_tr,
                    transition_progress := (pos_in_slot - content_len) / tail_len\<rparr>
        else state)"

fun find_index :: "'a \<Rightarrow> 'a list \<Rightarrow> nat option" where
  "find_index x [] = None"
| "find_index x (y # ys) = (if y = x then Some 0 else map_option Suc (find_index x ys))"

text \<open>The \<open>-1\<close> of the code is \<open>None\<close>.\<close>

definition findActiveIdx :: "PlaylistSnapshot \<Rightarrow> clip option \<Rightarrow> nat option" where
  "findActiveIdx snap active = (case active of None \<Rightarrow> None | Some c \<Rightarrow> find_index c (clips snap))"

subsection \<open>Mutators\<close>

definition setPlaylist ::
  "clip list \<Rightarrow> TransitionConfig list \<Rightarrow> string list \<Rightarrow> timeline \<Rightarrow> timeline" where
  "setPlaylist cs trs paths s =
    (let snap = \<lparr>clips = cs, transitions = trs,
                 cache_paths = (if length paths < length cs
                   then paths @ replicate (length cs - length paths) '''' else paths),
                 pending_remove = replicate (length cs) False\<rparr>
     in s\<lparr>active_clip := (if cs = [] then None else Some (hd cs)), slot_pos_sec := 0,
          last_prepared := None, tl_current := snap\<rparr>)"

definition setPlaylist_default :: "clip list \<Rightarrow> TransitionConfig list \<Rightarrow> timeline \<Rightarrow> timeline" where
  "setPlaylist_default cs trs s = setPlaylist cs trs (replicate (length cs) '''') s"

definition setFallback :: "clip option \<Rightarrow> timeline \<Rightarrow> timeline" where
  "setFallback c s = s\<lparr>tl_fallback := c\<rparr>"

definition appendClip :: "clip \<Rightarrow> TransitionConfig \<Rightarrow> string \<Rightarrow> timeline \<Rightarrow> timeline" where
  "appendClip c tr path s =
    (let cur = tl_current s in
     s\<lparr>tl_current := \<lparr>clips = clips cur @ [c], transitions = transitions cur @ [tr],
          cache_paths = cache_paths cur @ [path], pending_remove = pending_remove cur @ [False]\<rparr>\<rparr>)"

definition markForRemoval :: "string \<Rightarrow> timeline \<Rightarrow> bool \<times> timeline" where
  "markForRemoval path s =
    (if path = '''' then (False, s)
     else let cur = tl_current s;
              hit = (\<lambda>i. \<not> pending_remove cur ! i \<and> cache_paths cur ! i = path);
              idxs = [0..<length (clips cur)]
          in if \<not> list_ex hit idxs then (False, s)
             else (True, s\<lparr>tl_current := cur\<lparr>pending_remove :=
                     map (\<lambda>i. hit i \<or> pending_remove cur ! i) idxs\<rparr>\<rparr>))"

text \<open>Copying one entry of the four vectors; the index into each has to be in range.\<close>

definition copy_entry :: "PlaylistSnapshot \<Rightarrow> nat \<Rightarrow> PlaylistSnapshot \<Rightarrow> PlaylistSnapshot option" where
  "copy_entry cur i next =
    (if i < length (clips cur) \<and> i < length (transitions cur) \<and> i < length (cache_paths cur)
        \<and> i < length (pending_remove cur)
     then Some \<lparr>clips = clips next @ [clips cur ! i],
                transitions = transitions next @ [transitions cur ! i],
                cache_paths = cache_paths next @ [cache_paths cur ! i],
                pending_remove = pending_remove next @ [pending_remove cur ! i]\<rparr>
     else None)"

definition empty_snapshot :: PlaylistSnapshot where
  "empty_snapshot = \<lparr>clips = [], transitions = [], cache_paths = [], pending_remove = []\<rparr>"

fun reap_loop :: "string \<Rightarrow> PlaylistSnapshot \<Rightarrow> nat list \<Rightarrow> PlaylistSnapshot \<Rightarrow> string list
    \<Rightarrow> (PlaylistSnapshot \<times> string list) option" where
  "reap_loop path cur [] next evicted = Some (next, evicted)"
| "reap_loop path cur (i # is) next evicted =
    (let pending = pending_remove cur ! i;
         is_active = (path \<noteq> '''' \<and> cache_paths cur ! i = path)
     in if pending \<and> \<not> is_active
        then reap_loop path cur is next (evicted @ [cache_paths cur ! i])
        else (case copy_entry cur i next of
                None \<Rightarrow> None
              | Some next' \<Rightarrow> reap_loop path cur is next' evicted))"

definition reapRemovable :: "string \<Rightarrow> timeline \<Rightarrow> (string list \<times> timeline) option" where
  "reapRemovable path s =
    (let cur = tl_current s in
     case reap_loop path cur [0..<length (clips cur)] empty_snapshot [] of
       None \<Rightarrow> None
     | Some (next, evicted) \<Rightarrow>
         let changed = (evicted \<noteq> [])
         in Some (evicted @ auto_reaped_paths s,
                  s\<lparr>auto_reaped_paths := [], tl_current := (if changed then next else cur)\<rparr>))"

fun copy_except :: "nat \<Rightarrow> PlaylistSnapshot \<Rightarrow> nat list \<Rightarrow> PlaylistSnapshot \<Rightarrow> PlaylistSnapshot option" where
  "copy_except idx cur [] next = Some next"
| "copy_except idx cur (i # is) next =
    (if i = idx then copy_except idx cur is next
     else (case copy_entry cur i next of
             None \<Rightarrow> None
           | Some next' \<Rightarrow> copy_except idx cur is next'))"

definition removeAt :: "nat \<Rightarrow> timeline \<Rightarrow> (RemoveResult \<times> timeline) option" where
  "removeAt idx s =
    (let cur = tl_current s in
     if length (clips cur) \<le> idx then Some (NotFound, s)
     else if active_clip s = Some (clips cur ! idx) then
       (if pending_remove cur ! idx then Some (MarkedActive, s)
        else Some (MarkedActive,
               s\<lparr>tl_current := cur\<lparr>pending_remove := (pending_remove cur)[idx := True]\<rparr>\<rparr>))
     else (case copy_except idx cur [0..<length (clips cur)] empty_snapshot of
             None \<Rightarrow> None
           | Some next \<Rightarrow> Some (RemovedNow, s\<lparr>tl_current := next\<rparr>)))"

definition reapPendingActive :: "timeline \<Rightarrow> (bool \<times> timeline) option" where
  "reapPendingActive s =
    (let cur = tl_current s in
     case findActiveIdx cur (active_clip s) of
       None \<Rightarrow> Some (False, s)
     | Some idx \<Rightarrow>
         if \<not> pending_remove cur ! idx then Some (False, s)
         else (case copy_except idx cur [0..<length (clips cur)] empty_snapshot of
                 None \<Rightarrow> None
               | Some next \<Rightarrow> Some (True,
                   s\<lparr>auto_reaped_paths := auto_reaped_paths s @ [cache_paths cur ! idx],
                     tl_current := next, pending_boundary_status := Removed\<rparr>)))"

subsection \<open>The cursor\<close>

text \<open>
  The roll across slot boundaries: \<open>guard\<close> counts the iterations left of the code's
  \<open>for (guard = 0; guard <= n; ++guard)\<close>.
\<close>

fun roll :: "(clip \<Rightarrow> IClip) \<Rightarrow> PlaylistSnapshot \<Rightarrow> nat \<Rightarrow> nat \<Rightarrow> rat \<Rightarrow> nat \<times> rat" where
  "roll env snap 0 idx pos = (idx, pos)"
| "roll env snap (Suc guard) idx pos =
    (let slen = slot_len env snap idx in
     if slen \<le> 0 \<or> pos < slen then (idx, pos)
     else roll env snap guard ((idx + 1) mod length (clips snap)) (pos - slen))"

text \<open>
  One tick: the new state and the prepare callback's call, if there is one. The cursor's clip is
  the one at the rolled index, which is the clip found at the start when nothing rolled.
\<close>

definition advance :: "(clip \<Rightarrow> IClip) \<Rightarrow> rat \<Rightarrow> timeline \<Rightarrow> timeline \<times> (clip \<times> rat) option" where
  "advance env dt s =
    (let snap = tl_current s; n = length (clips snap) in
     if clips snap = [] then (s\<lparr>active_clip := None, slot_pos_sec := 0\<rparr>, None)
     else
       let found = findActiveIdx snap (active_clip s);
           idx_before = (case found of None \<Rightarrow> 0 | Some i \<Rightarrow> i);
           pos0 = (case found of None \<Rightarrow> 0 | Some _ \<Rightarrow> slot_pos_sec s);
           (idx, pos) = roll env snap (n + 1) idx_before (pos0 + dt);
           slot_rolled = (idx \<noteq> idx_before);
           remaining = max 0 (slot_len env snap idx - pos);
           next_clip = clips snap ! ((idx + 1) mod n);
           warm_up = warmUpSec (env next_clip);
           fire = (warm_up > 0 \<and> remaining \<le> warm_up);
           prepared = (if slot_rolled then None else last_prepared s);
           s1 = s\<lparr>active_clip := Some (clips snap ! idx), slot_pos_sec := pos,
                  last_prepared := prepared\<rparr>
       in if fire \<and> Some next_clip \<noteq> prepared
          then (s1\<lparr>last_prepared := Some next_clip\<rparr>,
                if prepare_cb_set s then Some (next_clip, remaining) else None)
          else (s1, None))"

definition setPrepareCallback :: "bool \<Rightarrow> timeline \<Rightarrow> timeline" where
  "setPrepareCallback cb s = s\<lparr>prepare_cb_set := cb\<rparr>"

text \<open>The index a query works with: the head of the list when the active clip is gone.\<close>

definition healed_idx :: "timeline \<Rightarrow> nat" where
  "healed_idx s = (case findActiveIdx (tl_current s) (active_clip s) of None \<Rightarrow> 0 | Some i \<Rightarrow> i)"

definition tl_peek :: "(clip \<Rightarrow> IClip) \<Rightarrow> timeline \<Rightarrow> TimelineState" where
  "tl_peek env s =
    (if clips (tl_current s) = [] then default_state\<lparr>clipA := tl_fallback s\<rparr>
     else buildState env (tl_current s) (healed_idx s) (slot_pos_sec s) (tl_fallback s))"

definition getActiveIndex :: "timeline \<Rightarrow> int" where
  "getActiveIndex s = (if clips (tl_current s) = [] then - 1 else int (healed_idx s))"

definition getCursorSnapshot :: "timeline \<Rightarrow> int \<times> rat \<times> clip option" where
  "getCursorSnapshot s =
    ((if clips (tl_current s) = [] then - 1 else int (healed_idx s)), slot_pos_sec s, active_clip s)"

definition snapCursorToActiveStart :: "timeline \<Rightarrow> timeline" where
  "snapCursorToActiveStart s = s\<lparr>slot_pos_sec := 0\<rparr>"

definition skipToNext :: "timeline \<Rightarrow> timeline" where
  "skipToNext s =
    (if clips (tl_current s) = [] then s
     else let cs = clips (tl_current s); idx = (healed_idx s + 1) mod length cs
          in s\<lparr>active_clip := Some (cs ! idx), slot_pos_sec := 0,
               pending_boundary_status := SkippedUser\<rparr>)"

text \<open>A position that is not finite is \<open>None\<close>.\<close>

definition restoreCursor :: "(clip \<Rightarrow> IClip) \<Rightarrow> int \<Rightarrow> rat option \<Rightarrow> timeline \<Rightarrow> bool \<times> timeline" where
  "restoreCursor env idx slot_pos s =
    (let cs = clips (tl_current s) in
     if cs = [] then (False, s)
     else if idx < 0 \<or> int (length cs) \<le> idx then (False, s)
     else let c = cs ! nat idx;
              dur = getDuration (env c);
              pos = (case slot_pos of None \<Rightarrow> 0 | Some p \<Rightarrow> if p < 0 then 0 else p);
              pos' = (if dur > 0 \<and> pos \<ge> dur then 0 else pos)
          in (True, s\<lparr>active_clip := Some c, slot_pos_sec := pos'\<rparr>))"

fun boundaryStatusName :: "BoundaryStatus \<Rightarrow> string" where
  "boundaryStatusName Completed = ''completed''"
| "boundaryStatusName SkippedUser = ''skipped_user''"
| "boundaryStatusName Removed = ''removed''"

definition consumeBoundaryStatus :: "timeline \<Rightarrow> BoundaryStatus \<times> timeline" where
  "consumeBoundaryStatus s = (pending_boundary_status s, s\<lparr>pending_boundary_status := Completed\<rparr>)"

definition getRemainingTime :: "(clip \<Rightarrow> IClip) \<Rightarrow> timeline \<Rightarrow> rat" where
  "getRemainingTime env s =
    (if clips (tl_current s) = [] then 0
     else max 0 (slot_len env (tl_current s) (healed_idx s) - slot_pos_sec s))"

subsection \<open>The stateless scheduler\<close>

text \<open>\<open>std::fmod\<close>: the remainder of the division truncated towards zero.\<close>

definition rat_fmod :: "rat \<Rightarrow> rat \<Rightarrow> rat" where
  "rat_fmod x y = x - y * of_int (if 0 \<le> x / y then \<lfloor>x / y\<rfloor> else \<lceil>x / y\<rceil>)"

definition wrap_time :: "rat \<Rightarrow> rat \<Rightarrow> rat" where
  "wrap_time elapsed tot =
    (let t = rat_fmod elapsed tot in if t < 0 then t + tot else t)"

definition getState_at :: "(clip \<Rightarrow> IClip) \<Rightarrow> rat \<Rightarrow> timeline \<Rightarrow> TimelineState" where
  "getState_at env elapsed s =
    (let snap = tl_current s; tot = timelineTotal env snap in
     if clips snap = [] then default_state\<lparr>clipA := tl_fallback s\<rparr>
     else if tot \<le> 0 then default_state
     else let t = wrap_time elapsed tot; (idx, start, slen) = findSlotIndex env snap t
          in buildState env snap idx (t - start) None)"

definition getCurrentIndex_at :: "(clip \<Rightarrow> IClip) \<Rightarrow> rat \<Rightarrow> timeline \<Rightarrow> int" where
  "getCurrentIndex_at env elapsed s =
    (let snap = tl_current s; tot = timelineTotal env snap in
     if clips snap = [] then - 1
     else if tot \<le> 0 then - 1
     else int (fst (findSlotIndex env snap (wrap_time elapsed tot))))"

definition getRemainingTime_at :: "(clip \<Rightarrow> IClip) \<Rightarrow> rat \<Rightarrow> timeline \<Rightarrow> rat" where
  "getRemainingTime_at env elapsed s =
    (let snap = tl_current s; tot = timelineTotal env snap in
     if clips snap = [] then 0
     else if tot \<le> 0 then 0
     else let t = wrap_time elapsed tot; (idx, start, slen) = findSlotIndex env snap t
          in (start + slen) - t)"

definition getClipAt :: "int \<Rightarrow> timeline \<Rightarrow> clip option" where
  "getClipAt idx s =
    (if idx < 0 \<or> int (length (clips (tl_current s))) \<le> idx then None
     else Some (clips (tl_current s) ! nat idx))"

definition getPlaylistSize :: "timeline \<Rightarrow> int" where
  "getPlaylistSize s = int (length (clips (tl_current s)))"

subsection \<open>Parallel vectors\<close>

text \<open>
  What the mutators need of a playlist: the four vectors have one entry per clip. A playlist set
  with fewer transitions than clips is not \<open>aligned\<close>, although every query tolerates it.
\<close>

definition aligned :: "PlaylistSnapshot \<Rightarrow> bool" where
  "aligned snap = (length (transitions snap) = length (clips snap)
     \<and> length (cache_paths snap) = length (clips snap)
     \<and> length (pending_remove snap) = length (clips snap))"

definition select :: "PlaylistSnapshot \<Rightarrow> nat list \<Rightarrow> PlaylistSnapshot" where
  "select cur is = \<lparr>clips = map ((!) (clips cur)) is, transitions = map ((!) (transitions cur)) is,
     cache_paths = map ((!) (cache_paths cur)) is, pending_remove = map ((!) (pending_remove cur)) is\<rparr>"

definition push_all :: "PlaylistSnapshot \<Rightarrow> PlaylistSnapshot \<Rightarrow> PlaylistSnapshot" where
  "push_all a b = \<lparr>clips = clips a @ clips b, transitions = transitions a @ transitions b,
     cache_paths = cache_paths a @ cache_paths b, pending_remove = pending_remove a @ pending_remove b\<rparr>"

lemma push_all_simps [simp]:
  "push_all empty_snapshot b = b"
  "push_all a (select cur []) = a"
  "push_all (push_all a b) c = push_all a (push_all b c)"
  by (simp_all add: push_all_def empty_snapshot_def select_def)

lemma aligned_select [simp]: "aligned (select cur is)"
  by (simp add: aligned_def select_def)

lemma map_nth_all: "n = length xs \<Longrightarrow> map ((!) xs) [0..<n] = xs"
  by (simp add: map_nth)

lemma select_all: "aligned cur \<Longrightarrow> select cur [0..<length (clips cur)] = cur"
  by (simp add: select_def aligned_def map_nth_all)

lemma clips_select [simp]: "clips (select cur is) = map ((!) (clips cur)) is"
  and cache_paths_select [simp]: "cache_paths (select cur is) = map ((!) (cache_paths cur)) is"
  and pending_select [simp]: "pending_remove (select cur is) = map ((!) (pending_remove cur)) is"
  by (simp_all add: select_def)

lemma copy_entry_aligned:
  "aligned cur \<Longrightarrow> i < length (clips cur) \<Longrightarrow>
    copy_entry cur i next = Some (push_all next (select cur [i]))"
  by (simp add: copy_entry_def aligned_def push_all_def select_def)

lemma select_Cons: "push_all (select cur [i]) (select cur is) = select cur (i # is)"
  by (simp add: push_all_def select_def)

definition reaped :: "string \<Rightarrow> PlaylistSnapshot \<Rightarrow> nat \<Rightarrow> bool" where
  "reaped path cur i = (pending_remove cur ! i \<and> \<not> (path \<noteq> '''' \<and> cache_paths cur ! i = path))"

lemma reap_loop_aligned:
  assumes "aligned cur"
  shows "\<forall>i\<in>set is. i < length (clips cur) \<Longrightarrow> reap_loop path cur is next evicted
    = Some (push_all next (select cur (filter (\<lambda>i. \<not> reaped path cur i) is)),
            evicted @ map ((!) (cache_paths cur)) (filter (reaped path cur) is))"
proof (induction "is" arbitrary: "next" evicted)
  case (Cons i "is")
  show ?case
  proof (cases "reaped path cur i")
    case True
    then have "reap_loop path cur (i # is) next evicted
        = reap_loop path cur is next (evicted @ [cache_paths cur ! i])"
      by (auto simp: reaped_def Let_def)
    then show ?thesis using Cons True by simp
  next
    case False
    then have "reap_loop path cur (i # is) next evicted
        = reap_loop path cur is (push_all next (select cur [i])) evicted"
      using Cons.prems assms by (auto simp: reaped_def Let_def copy_entry_aligned)
    then show ?thesis using Cons False by (simp add: select_Cons)
  qed
qed simp

lemma copy_except_aligned:
  assumes "aligned cur"
  shows "\<forall>i\<in>set is. i < length (clips cur) \<Longrightarrow> copy_except idx cur is next
    = Some (push_all next (select cur (filter (\<lambda>i. i \<noteq> idx) is)))"
proof (induction "is" arbitrary: "next")
  case (Cons i "is")
  then show ?case
    using assms by (cases "i = idx") (simp_all add: copy_entry_aligned select_Cons)
qed simp

text \<open>The three rebuilds of the playlist in closed form.\<close>

lemma reapRemovable_aligned:
  assumes "aligned (tl_current s)"
  shows "reapRemovable path s =
    (let cur = tl_current s; n = length (clips cur);
         gone = map ((!) (cache_paths cur)) (filter (reaped path cur) [0..<n])
     in Some (gone @ auto_reaped_paths s, s\<lparr>auto_reaped_paths := [],
          tl_current := select cur (filter (\<lambda>i. \<not> reaped path cur i) [0..<n])\<rparr>))"
proof (cases "filter (reaped path (tl_current s)) [0..<length (clips (tl_current s))] = []")
  case True
  then have "filter (\<lambda>i. \<not> reaped path (tl_current s) i) [0..<length (clips (tl_current s))]
      = [0..<length (clips (tl_current s))]"
    by (simp add: filter_empty_conv)
  then show ?thesis
    using assms True
    by (simp add: reapRemovable_def reap_loop_aligned Let_def select_all)
next
  case False
  then show ?thesis
    using assms by (simp add: reapRemovable_def reap_loop_aligned Let_def)
qed

lemma copy_except_current:
  "aligned cur \<Longrightarrow> copy_except idx cur [0..<length (clips cur)] empty_snapshot
    = Some (select cur (filter (\<lambda>i. i \<noteq> idx) [0..<length (clips cur)]))"
  by (simp add: copy_except_aligned)

lemma find_index_Some:
  "find_index x xs = Some i \<longleftrightarrow> i < length xs \<and> xs ! i = x \<and> (\<forall>j < i. xs ! j \<noteq> x)"
proof (induction xs arbitrary: i)
  case (Cons y ys)
  show ?case
  proof (cases i)
    case (Suc k)
    then show ?thesis using Cons by (auto simp: less_Suc_eq_0_disj)
  qed auto
qed simp

lemma find_index_None: "find_index x xs = None \<longleftrightarrow> x \<notin> set xs"
  by (induction xs) auto

lemma find_index_distinct: "distinct xs \<Longrightarrow> i < length xs \<Longrightarrow> find_index (xs ! i) xs = Some i"
  by (simp add: find_index_Some nth_eq_iff_index_eq)

end
