(* ===== verification/TimelineCursor.thy ===== *)
theory TimelineCursor
  imports Timeline "HOL-Library.Multiset"
begin

text \<open>
  The stateful cursor of \<open>core/Timeline.cpp\<close> against its stateless reference: the position of the
  cursor on the whole playlist (\<open>abs_time\<close>), the cyclic roll over the slots, and the agreement of
  \<open>getActiveIndex\<close>, \<open>getRemainingTime\<close> and \<open>tl_peek\<close> after any sequence of ticks with the
  \<open>fmod\<close>-based functions of the elapsed time. Then runs of mutators, and the warm-up callback.
\<close>

subsection \<open>Slots of a cyclic playlist\<close>

definition starts :: "(nat \<Rightarrow> rat) \<Rightarrow> nat \<Rightarrow> rat" where
  "starts L i = (\<Sum>j<i. L j)"

fun span :: "(nat \<Rightarrow> rat) \<Rightarrow> nat \<Rightarrow> nat \<Rightarrow> nat \<Rightarrow> rat" where
  "span L n 0 i = 0"
| "span L n (Suc g) i = L i + span L n g (Suc i mod n)"

lemma starts_simps [simp]: "starts L 0 = 0" "starts L (Suc i) = starts L i + L i"
  by (simp_all add: starts_def)

lemma starts_mono: "(\<And>i. 0 \<le> L i) \<Longrightarrow> i \<le> j \<Longrightarrow> starts L i \<le> starts L j"
  by (induction j) (auto simp: le_Suc_eq intro: add_increasing2)

lemma span_sum: "i < n \<Longrightarrow> span L n g i = (\<Sum>j<g. L ((i + j) mod n))"
proof (induction g arbitrary: i)
  case (Suc g)
  then have "span L n g (Suc i mod n) = (\<Sum>j<g. L ((Suc i mod n + j) mod n))"
    by (intro Suc.IH mod_less_divisor) simp
  then show ?case
    using Suc.prems by (simp add: sum.lessThan_Suc_shift mod_add_left_eq del: sum.lessThan_Suc)
qed simp

lemma cyclic_sum: "0 < n \<Longrightarrow> (\<Sum>j<n. L ((i + j) mod n)) = starts L n"
proof (induction i)
  case (Suc i)
  let ?g = "\<lambda>j. L ((i + j) mod n)"
  have "sum ?g {..<Suc n} = ?g 0 + (\<Sum>j<n. ?g (Suc j))"
    by (simp only: sum.lessThan_Suc_shift)
  moreover have "sum ?g {..<Suc n} = sum ?g {..<n} + ?g 0"
    by simp
  ultimately show ?case using Suc by simp
qed (simp add: starts_def)

lemma span_full: "i < n \<Longrightarrow> span L n n i = starts L n"
  by (simp add: span_sum cyclic_sum)

lemma span_nonneg: "(\<And>i. 0 \<le> L i) \<Longrightarrow> 0 \<le> span L n g i"
  by (induction g arbitrary: i) (auto intro: add_nonneg_nonneg)

lemma span_more: "i < n \<Longrightarrow> (\<And>i. 0 \<le> L i) \<Longrightarrow> L i + starts L n \<le> span L n (Suc (Suc n)) i"
proof -
  assume i: "i < n" and L: "\<And>i. 0 \<le> L i"
  have "span L n (Suc n) i' = span L n n i' + L ((i' + n) mod n)" if "i' < n" for i'
    using that by (simp add: span_sum del: span.simps)
  then have "span L n (Suc n) (Suc i mod n) \<ge> starts L n"
    using i L span_full [of "Suc i mod n" n L] by (simp add: span_full del: span.simps)
  then show ?thesis by simp
qed

subsection \<open>Rolling the cursor\<close>

lemma slotLength_nonneg: "0 \<le> outgoingTailLen own \<Longrightarrow> 0 \<le> slotLength c prev own"
  by (simp add: slotLength_def Let_def)

lemma outgoingTailLen_transitionFor: "0 \<le> outgoingTailLen (transitionFor trs i)"
  by (auto simp: transitionFor_def outgoingTailLen_def kHardCut_def Let_def)

lemma slot_len_nonneg [simp]: "0 \<le> slot_len env snap i"
  by (simp add: slot_len_def Let_def slotLength_nonneg outgoingTailLen_transitionFor)

lemma timelineTotal_starts: "timelineTotal env snap = starts (slot_len env snap) (length (clips snap))"
proof -
  have "foldl (\<lambda>acc i. acc + slot_len env snap i) 0 [0..<k] = starts (slot_len env snap) k" for k
    by (induction k) simp_all
  then show ?thesis by (simp add: timelineTotal_def)
qed

lemma roll_in_slot:
  assumes "\<forall>i < length (clips snap). 0 < slot_len env snap i"
  shows "idx < length (clips snap) \<Longrightarrow> 0 \<le> pos
    \<Longrightarrow> pos < span (slot_len env snap) (length (clips snap)) (Suc g) idx
    \<Longrightarrow> roll env snap g idx pos = (i', p')
    \<Longrightarrow> i' < length (clips snap) \<and> 0 \<le> p' \<and> p' < slot_len env snap i'"
proof (induction g arbitrary: idx pos)
  case 0
  then show ?case by auto
next
  case (Suc g)
  let ?n = "length (clips snap)"
  from assms Suc.prems have L: "0 < slot_len env snap idx" by simp
  show ?case
  proof (cases "pos < slot_len env snap idx")
    case True
    with Suc.prems show ?thesis by (auto simp: Let_def)
  next
    case False
    have "Suc idx mod ?n < ?n" using Suc.prems by (intro mod_less_divisor) auto
    moreover have "pos - slot_len env snap idx
        < span (slot_len env snap) ?n (Suc g) (Suc idx mod ?n)"
      using Suc.prems by simp
    moreover have "roll env snap g (Suc idx mod ?n) (pos - slot_len env snap idx) = (i', p')"
      using Suc.prems False L by (simp add: Let_def)
    ultimately show ?thesis using False by (intro Suc.IH) auto
  qed
qed

lemma roll_time:
  "idx < length (clips snap) \<Longrightarrow> roll env snap g idx pos = (i', p') \<Longrightarrow>
    \<exists>k :: nat. starts (slot_len env snap) idx + pos
      = starts (slot_len env snap) i' + p' + of_nat k * timelineTotal env snap"
proof (induction g arbitrary: idx pos)
  case 0
  then show ?case by (auto intro: exI [of _ 0])
next
  case (Suc g)
  let ?n = "length (clips snap)" and ?L = "slot_len env snap"
  show ?case
  proof (cases "?L idx \<le> 0 \<or> pos < ?L idx")
    case True
    with Suc.prems show ?thesis by (auto simp: Let_def intro: exI [of _ 0])
  next
    case False
    have "Suc idx mod ?n < ?n" using Suc.prems by (intro mod_less_divisor) auto
    moreover have "roll env snap g (Suc idx mod ?n) (pos - ?L idx) = (i', p')"
      using Suc.prems False by (simp add: Let_def)
    ultimately obtain k :: nat where k: "starts ?L (Suc idx mod ?n) + (pos - ?L idx)
        = starts ?L i' + p' + of_nat k * timelineTotal env snap"
      using Suc.IH by blast
    show ?thesis
    proof (cases "Suc idx = ?n")
      case True
      then have "timelineTotal env snap = starts ?L idx + ?L idx"
        by (simp add: timelineTotal_starts flip: True)
      with k True have "starts ?L idx + pos
          = starts ?L i' + p' + of_nat (Suc k) * timelineTotal env snap"
        by (simp add: algebra_simps)
      then show ?thesis by blast
    next
      case False
      with Suc.prems k show ?thesis by (auto intro!: exI [of _ k] simp: algebra_simps)
    qed
  qed
qed

subsection \<open>The slot of a time\<close>

lemma findSlot_loop_hit:
  assumes "idx < length (clips snap)" "0 \<le> pos" "pos < slot_len env snap idx"
  shows "k \<le> idx \<Longrightarrow>
    findSlot_loop env snap (starts (slot_len env snap) idx + pos) (starts (slot_len env snap) k)
      [k..<length (clips snap)]
    = (idx, starts (slot_len env snap) idx, slot_len env snap idx)"
proof (induction "idx - k" arbitrary: k)
  case 0
  then have "k = idx" by simp
  with assms show ?case by (simp add: upt_conv_Cons Let_def)
next
  case (Suc d)
  let ?L = "slot_len env snap"
  from Suc have less: "k < idx" by simp
  have "starts ?L (Suc k) \<le> starts ?L idx" using less by (intro starts_mono) auto
  then have "\<not> starts ?L idx + pos < starts ?L k + ?L k" using assms by simp
  moreover have "k \<noteq> length (clips snap) - 1" using less assms by simp
  ultimately show ?case
    using Suc.hyps(1) [of "Suc k"] Suc.hyps(2) less assms
    by (simp add: upt_conv_Cons Let_def)
qed

lemma findSlotIndex_hit:
  assumes "idx < length (clips snap)" "0 \<le> pos" "pos < slot_len env snap idx"
  shows "findSlotIndex env snap (starts (slot_len env snap) idx + pos)
    = (idx, starts (slot_len env snap) idx, slot_len env snap idx)"
  using findSlot_loop_hit [OF assms, of 0] by (simp add: findSlotIndex_def)

lemma wrap_time_multiple:
  assumes "0 \<le> a" "a < tot"
  shows "wrap_time (a + of_nat k * tot) tot = a"
proof -
  have pos: "0 < tot" using assms by simp
  then have q: "(a + of_nat k * tot) / tot = a / tot + of_nat k" by (simp add: field_simps)
  have "0 \<le> a / tot" "a / tot < 1" using assms pos by (simp_all add: field_simps)
  then have "\<lfloor>a / tot + of_nat k\<rfloor> = int k" by (simp add: floor_eq_iff)
  moreover have "0 \<le> a / tot + of_nat k" using \<open>0 \<le> a / tot\<close> by simp
  ultimately show ?thesis
    using assms by (simp add: wrap_time_def rat_fmod_def q Let_def)
qed

subsection \<open>The cursor against the reference\<close>

definition cursor_ok :: "(clip \<Rightarrow> IClip) \<Rightarrow> timeline \<Rightarrow> bool" where
  "cursor_ok env s = (healed_idx s < length (clips (tl_current s))
     \<and> active_clip s = Some (clips (tl_current s) ! healed_idx s)
     \<and> 0 \<le> slot_pos_sec s \<and> slot_pos_sec s < slot_len env (tl_current s) (healed_idx s))"

definition abs_time :: "(clip \<Rightarrow> IClip) \<Rightarrow> timeline \<Rightarrow> rat" where
  "abs_time env s = starts (slot_len env (tl_current s)) (healed_idx s) + slot_pos_sec s"

definition playable :: "(clip \<Rightarrow> IClip) \<Rightarrow> PlaylistSnapshot \<Rightarrow> bool" where
  "playable env snap = (clips snap \<noteq> [] \<and> distinct (clips snap)
     \<and> (\<forall>i < length (clips snap). 0 < slot_len env snap i))"

fun advance_all :: "(clip \<Rightarrow> IClip) \<Rightarrow> rat list \<Rightarrow> timeline \<Rightarrow> timeline" where
  "advance_all env [] s = s"
| "advance_all env (dt # dts) s = advance_all env dts (fst (advance env dt s))"

lemma advance_keeps [simp]:
  "tl_current (fst (advance env dt s)) = tl_current s"
  "tl_fallback (fst (advance env dt s)) = tl_fallback s"
  "prepare_cb_set (fst (advance env dt s)) = prepare_cb_set s"
  "auto_reaped_paths (fst (advance env dt s)) = auto_reaped_paths s"
  by (simp_all add: advance_def Let_def split: prod.splits)

lemma advance_all_keeps [simp]:
  "tl_current (advance_all env dts s) = tl_current s"
  "tl_fallback (advance_all env dts s) = tl_fallback s"
  by (induction dts arbitrary: s) simp_all

lemma healed_idx_at:
  "distinct (clips (tl_current s)) \<Longrightarrow> i < length (clips (tl_current s))
    \<Longrightarrow> active_clip s = Some (clips (tl_current s) ! i) \<Longrightarrow> healed_idx s = i"
  by (simp add: healed_idx_def findActiveIdx_def find_index_distinct)

lemma advance_cursor_at:
  assumes "clips (tl_current s) \<noteq> []"
    and "findActiveIdx (tl_current s) (active_clip s) = Some idx"
    and "roll env (tl_current s) (length (clips (tl_current s)) + 1) idx (slot_pos_sec s + dt) = (i', p')"
  shows "active_clip (fst (advance env dt s)) = Some (clips (tl_current s) ! i')
    \<and> slot_pos_sec (fst (advance env dt s)) = p'"
  using assms by (simp add: advance_def Let_def del: roll.simps)

lemma advance_cursor:
  assumes pl: "playable env (tl_current s)" and ok: "cursor_ok env s"
    and dt: "0 \<le> dt" "dt \<le> timelineTotal env (tl_current s)"
  shows "cursor_ok env (fst (advance env dt s))
    \<and> (\<exists>k :: nat. abs_time env s + dt
         = abs_time env (fst (advance env dt s)) + of_nat k * timelineTotal env (tl_current s))"
proof -
  let ?snap = "tl_current s" and ?idx = "healed_idx s"
  let ?n = "length (clips ?snap)" and ?L = "slot_len env ?snap"
  let ?s' = "fst (advance env dt s)"
  obtain i' p' where r: "roll env ?snap (?n + 1) ?idx (slot_pos_sec s + dt) = (i', p')"
    by (cases "roll env ?snap (?n + 1) ?idx (slot_pos_sec s + dt)") auto
  have idx: "?idx < ?n" and act: "active_clip s = Some (clips ?snap ! ?idx)"
    and pos: "0 \<le> slot_pos_sec s" "slot_pos_sec s < ?L ?idx"
    using ok by (simp_all add: cursor_ok_def)
  have found: "findActiveIdx ?snap (active_clip s) = Some ?idx"
    using idx pl by (subst act) (simp add: findActiveIdx_def find_index_distinct playable_def)
  have "?L ?idx + starts ?L ?n \<le> span ?L ?n (Suc (Suc ?n)) ?idx"
    using idx by (rule span_more) simp
  then have "slot_pos_sec s + dt < span ?L ?n (Suc (?n + 1)) ?idx"
    using pos dt by (simp add: timelineTotal_starts del: span.simps)
  then have in_slot: "i' < ?n \<and> 0 \<le> p' \<and> p' < ?L i'"
    using pl idx pos dt r by (intro roll_in_slot [where g = "?n + 1"]) (auto simp: playable_def)
  have s': "active_clip ?s' = Some (clips ?snap ! i')" "slot_pos_sec ?s' = p'"
    using advance_cursor_at [OF _ found r] pl by (simp_all add: playable_def)
  then have h: "healed_idx ?s' = i'"
    using pl in_slot by (intro healed_idx_at) (simp_all add: playable_def)
  obtain k :: nat where "starts ?L ?idx + (slot_pos_sec s + dt)
      = starts ?L i' + p' + of_nat k * timelineTotal env ?snap"
    using roll_time [OF idx r] by blast
  then show ?thesis
    using in_slot s' h by (auto simp: cursor_ok_def abs_time_def add.assoc intro!: exI [of _ k])
qed

lemma advance_all_cursor:
  "playable env (tl_current s) \<Longrightarrow> cursor_ok env s
    \<Longrightarrow> \<forall>dt\<in>set dts. 0 \<le> dt \<and> dt \<le> timelineTotal env (tl_current s)
    \<Longrightarrow> cursor_ok env (advance_all env dts s)
      \<and> (\<exists>k :: nat. abs_time env s + sum_list dts
          = abs_time env (advance_all env dts s) + of_nat k * timelineTotal env (tl_current s))"
proof (induction dts arbitrary: s)
  case Nil
  then show ?case by (auto intro: exI [of _ 0])
next
  case (Cons dt dts)
  let ?s1 = "fst (advance env dt s)" and ?tot = "timelineTotal env (tl_current s)"
  obtain k1 :: nat where ok1: "cursor_ok env ?s1"
    and k1: "abs_time env s + dt = abs_time env ?s1 + of_nat k1 * ?tot"
    using advance_cursor [of env s dt] Cons.prems by auto
  obtain k2 :: nat where ok2: "cursor_ok env (advance_all env dts ?s1)"
    and k2: "abs_time env ?s1 + sum_list dts
      = abs_time env (advance_all env dts ?s1) + of_nat k2 * ?tot"
    using Cons.IH [of ?s1] ok1 Cons.prems by auto
  have "abs_time env s + sum_list (dt # dts)
      = abs_time env (advance_all env (dt # dts) s) + of_nat (k1 + k2) * ?tot"
    using k1 k2 by (simp add: algebra_simps)
  then show ?case using ok2 by (intro conjI exI [of _ "k1 + k2"]) simp_all
qed

lemma abs_time_bounds:
  assumes "cursor_ok env s"
  shows "0 \<le> abs_time env s" "abs_time env s < timelineTotal env (tl_current s)"
proof -
  let ?L = "slot_len env (tl_current s)"
  have "0 \<le> starts ?L (healed_idx s)" using starts_mono [of ?L 0 "healed_idx s"] by simp
  then show "0 \<le> abs_time env s" using assms by (simp add: cursor_ok_def abs_time_def)
  have "starts ?L (Suc (healed_idx s)) \<le> starts ?L (length (clips (tl_current s)))"
    using assms by (intro starts_mono) (simp_all add: cursor_ok_def)
  then show "abs_time env s < timelineTotal env (tl_current s)"
    using assms by (simp add: cursor_ok_def abs_time_def timelineTotal_starts)
qed

lemma cursor_lookup:
  assumes ok: "cursor_ok env s" and t: "t = abs_time env s + of_nat k * timelineTotal env (tl_current s)"
  shows "getCurrentIndex_at env t s = getActiveIndex s"
    and "getRemainingTime_at env t s = getRemainingTime env s"
    and "tl_fallback s = None \<Longrightarrow> getState_at env t s = tl_peek env s"
proof -
  let ?snap = "tl_current s"
  have w: "wrap_time t (timelineTotal env ?snap) = abs_time env s"
    unfolding t by (rule wrap_time_multiple [OF abs_time_bounds [OF ok]])
  have f: "findSlotIndex env ?snap (abs_time env s)
      = (healed_idx s, starts (slot_len env ?snap) (healed_idx s), slot_len env ?snap (healed_idx s))"
    using ok unfolding abs_time_def cursor_ok_def by (intro findSlotIndex_hit) simp_all
  have ne: "clips ?snap \<noteq> []" using ok by (auto simp: cursor_ok_def)
  have tot: "\<not> timelineTotal env ?snap \<le> 0" using abs_time_bounds [OF ok] by simp
  show "getCurrentIndex_at env t s = getActiveIndex s"
    using ne tot by (simp add: getCurrentIndex_at_def getActiveIndex_def w f Let_def)
  show "getRemainingTime_at env t s = getRemainingTime env s"
    using ne tot ok
    by (simp add: getRemainingTime_at_def getRemainingTime_def w f Let_def)
      (simp add: abs_time_def cursor_ok_def)
  show "tl_fallback s = None \<Longrightarrow> getState_at env t s = tl_peek env s"
    using ne tot by (simp add: getState_at_def tl_peek_def w f Let_def) (simp add: abs_time_def)
qed

lemma setPlaylist_cursor:
  assumes "playable env (tl_current (setPlaylist cs trs paths s))"
  shows "cursor_ok env (setPlaylist cs trs paths s) \<and> abs_time env (setPlaylist cs trs paths s) = 0"
proof -
  let ?s = "setPlaylist cs trs paths s"
  have cs: "clips (tl_current ?s) = cs" "cs \<noteq> []" "slot_pos_sec ?s = 0" "active_clip ?s = Some (cs ! 0)"
    using assms by (auto simp: setPlaylist_def Let_def playable_def hd_conv_nth)
  then have "healed_idx ?s = 0"
    using assms by (intro healed_idx_at) (simp_all add: playable_def)
  then show ?thesis
    using assms cs by (simp add: cursor_ok_def abs_time_def playable_def)
qed

lemma zero_slot_stalls:
  assumes "slot_len env (tl_current s) idx = 0" "distinct (clips (tl_current s))"
    and "idx < length (clips (tl_current s))" "active_clip s = Some (clips (tl_current s) ! idx)"
  shows "getActiveIndex (advance_all env dts s) = int idx"
  using assms
proof (induction dts arbitrary: s)
  case Nil
  then show ?case by (auto simp: getActiveIndex_def healed_idx_at)
next
  case (Cons dt dts)
  have "findActiveIdx (tl_current s) (active_clip s) = Some idx"
    using Cons.prems by (simp add: findActiveIdx_def find_index_distinct)
  then have "active_clip (fst (advance env dt s)) = Some (clips (tl_current s) ! idx)"
    using Cons.prems by (intro conjunct1 [OF advance_cursor_at]) auto
  then show ?case using Cons by simp
qed

text \<open>The first slot of the playlist that has no length.\<close>

definition first_zero :: "(clip \<Rightarrow> IClip) \<Rightarrow> PlaylistSnapshot \<Rightarrow> nat option" where
  "first_zero env snap = find (\<lambda>i. slot_len env snap i \<le> 0) [0..<length (clips snap)]"

lemma first_zero_None: "first_zero env snap = None
    \<longleftrightarrow> (\<forall>i < length (clips snap). 0 < slot_len env snap i)"
  by (auto simp: first_zero_def find_None_iff not_le)

lemma first_zero_SomeD:
  assumes "first_zero env snap = Some z"
  shows "z < length (clips snap)" "slot_len env snap z = 0" "i < z \<Longrightarrow> 0 < slot_len env snap i"
proof -
  from assms show "z < length (clips snap)"
    by (auto simp: first_zero_def find_Some_iff)
  from assms have "slot_len env snap z \<le> 0"
    by (auto simp: first_zero_def find_Some_iff)
  then show "slot_len env snap z = 0" by (simp add: order_antisym)
  from assms show "i < z \<Longrightarrow> 0 < slot_len env snap i"
    by (auto simp: first_zero_def find_Some_iff not_le)
qed

lemma roll_to_zero:
  assumes z: "first_zero env snap = Some z"
  shows "idx \<le> z \<Longrightarrow> z - idx \<le> g \<Longrightarrow> 0 \<le> pos \<Longrightarrow> roll env snap g idx pos = (i', p')
    \<Longrightarrow> i' \<le> z \<and> 0 \<le> p' \<and> (i' < z \<longrightarrow> p' < slot_len env snap i')
      \<and> starts (slot_len env snap) i' + p' = starts (slot_len env snap) idx + pos"
proof (induction g arbitrary: idx pos)
  case 0
  then show ?case by auto
next
  case (Suc g)
  note zD = first_zero_SomeD [OF z]
  show ?case
  proof (cases "slot_len env snap idx \<le> 0 \<or> pos < slot_len env snap idx")
    case True
    with Suc.prems zD(3) [of idx] show ?thesis by (auto simp: Let_def)
  next
    case False
    then have less: "idx < z" using Suc.prems(1) zD(2) by (cases "idx = z") auto
    then have "Suc idx mod length (clips snap) = Suc idx" using zD(1) by simp
    then show ?thesis
      using Suc.IH [of "Suc idx" "pos - slot_len env snap idx"] Suc.prems False less
      by (simp add: Let_def not_le not_less algebra_simps)
  qed
qed

text \<open>The cursor on its way to the slot without length, at the elapsed time \<open>t\<close>.\<close>

definition before_zero :: "(clip \<Rightarrow> IClip) \<Rightarrow> nat \<Rightarrow> rat \<Rightarrow> timeline \<Rightarrow> bool" where
  "before_zero env z t s = (healed_idx s \<le> z
     \<and> active_clip s = Some (clips (tl_current s) ! healed_idx s) \<and> 0 \<le> slot_pos_sec s
     \<and> (healed_idx s < z \<longrightarrow> slot_pos_sec s < slot_len env (tl_current s) (healed_idx s))
     \<and> abs_time env s = t)"

lemma advance_before_zero:
  assumes d: "distinct (clips (tl_current s))" and z: "first_zero env (tl_current s) = Some z"
    and ok: "before_zero env z t s" and dt: "0 \<le> dt"
  shows "before_zero env z (t + dt) (fst (advance env dt s))"
proof -
  let ?snap = "tl_current s" and ?idx = "healed_idx s" and ?s' = "fst (advance env dt s)"
  let ?n = "length (clips ?snap)"
  note zD = first_zero_SomeD [OF z]
  obtain i' p' where r: "roll env ?snap (?n + 1) ?idx (slot_pos_sec s + dt) = (i', p')"
    by (cases "roll env ?snap (?n + 1) ?idx (slot_pos_sec s + dt)") auto
  have idx: "?idx \<le> z" "?idx < ?n" and act: "active_clip s = Some (clips ?snap ! ?idx)"
    and pos: "0 \<le> slot_pos_sec s" and t: "abs_time env s = t"
    using ok zD(1) by (simp_all add: before_zero_def)
  have found: "findActiveIdx ?snap (active_clip s) = Some ?idx"
    using idx d by (subst act) (simp add: findActiveIdx_def find_index_distinct)
  have ne: "clips ?snap \<noteq> []" using idx by auto
  have i': "i' \<le> z \<and> 0 \<le> p' \<and> (i' < z \<longrightarrow> p' < slot_len env ?snap i')
      \<and> starts (slot_len env ?snap) i' + p' = starts (slot_len env ?snap) ?idx + (slot_pos_sec s + dt)"
    using idx zD(1) pos dt by (intro roll_to_zero [OF z _ _ _ r]) auto
  have s': "active_clip ?s' = Some (clips ?snap ! i')" "slot_pos_sec ?s' = p'"
    using advance_cursor_at [OF ne found r] by simp_all
  then have "healed_idx ?s' = i'"
    using d i' zD(1) by (intro healed_idx_at) simp_all
  then show ?thesis
    using i' s' t by (simp add: before_zero_def abs_time_def)
qed

lemma advance_all_before_zero:
  "distinct (clips (tl_current s)) \<Longrightarrow> first_zero env (tl_current s) = Some z
    \<Longrightarrow> before_zero env z t s \<Longrightarrow> \<forall>dt\<in>set dts. 0 \<le> dt
    \<Longrightarrow> before_zero env z (t + sum_list dts) (advance_all env dts s)"
proof (induction dts arbitrary: s t)
  case (Cons dt dts)
  then show ?case
    using Cons.IH [of "fst (advance env dt s)" "t + dt"] advance_before_zero [of s env z t dt]
    by (simp add: add.assoc)
qed simp

text \<open>The stateless scheduler never shows a slot without length.\<close>

lemma findSlot_loop_positive:
  "k < length (clips snap) \<Longrightarrow> starts (slot_len env snap) k \<le> t
    \<Longrightarrow> t < starts (slot_len env snap) (length (clips snap))
    \<Longrightarrow> 0 < slot_len env snap
      (fst (findSlot_loop env snap t (starts (slot_len env snap) k) [k..<length (clips snap)]))"
proof (induction "length (clips snap) - k" arbitrary: k)
  case (Suc d)
  let ?L = "slot_len env snap"
  show ?case
  proof (cases "t < starts ?L k + ?L k")
    case True
    then show ?thesis using Suc.prems by (simp add: upt_conv_Cons Let_def)
  next
    case False
    then have "k \<noteq> length (clips snap) - 1"
      using Suc.prems by (cases "length (clips snap)") auto
    then show ?thesis
      using Suc.hyps(1) [of "Suc k"] Suc.hyps(2) Suc.prems False
      by (simp add: upt_conv_Cons Let_def not_less)
  qed
qed simp

lemma wrap_time_range:
  assumes "0 \<le> x" "0 < tot"
  shows "0 \<le> wrap_time x tot" "wrap_time x tot < tot"
proof -
  have q: "0 \<le> x / tot" using assms by simp
  have "of_int \<lfloor>x / tot\<rfloor> * tot \<le> x" "x < (of_int \<lfloor>x / tot\<rfloor> + 1) * tot"
    using floor_correct [of "x / tot"] assms(2)
    by (simp_all only: pos_le_divide_eq pos_divide_less_eq of_int_add of_int_1)
  then show "0 \<le> wrap_time x tot" "wrap_time x tot < tot"
    using q by (simp_all add: wrap_time_def rat_fmod_def algebra_simps)
qed

lemma getCurrentIndex_at_positive:
  assumes "0 \<le> x" "slot_len env (tl_current s) z \<le> 0"
  shows "getCurrentIndex_at env x s \<noteq> int z"
proof (cases "clips (tl_current s) = [] \<or> timelineTotal env (tl_current s) \<le> 0")
  case False
  let ?snap = "tl_current s"
  have "0 < slot_len env ?snap (fst (findSlotIndex env ?snap (wrap_time x (timelineTotal env ?snap))))"
    using False wrap_time_range [OF assms(1), of "timelineTotal env ?snap"]
      findSlot_loop_positive [of 0 ?snap env]
    by (simp add: findSlotIndex_def timelineTotal_starts)
  then show ?thesis using False assms(2) by (auto simp: getCurrentIndex_at_def Let_def)
qed (auto simp: getCurrentIndex_at_def Let_def)

lemma before_zero_start:
  assumes "first_zero env (tl_current (setPlaylist cs trs paths s)) = Some z" "distinct cs"
  shows "before_zero env z 0 (setPlaylist cs trs paths s)"
proof -
  let ?s = "setPlaylist cs trs paths s"
  note zD = first_zero_SomeD [OF assms(1)]
  have cs: "clips (tl_current ?s) = cs" by (simp add: setPlaylist_def Let_def)
  have ne: "cs \<noteq> []" using zD(1) cs by auto
  have at: "slot_pos_sec ?s = 0" "active_clip ?s = Some (cs ! 0)"
    using ne by (simp_all add: setPlaylist_def Let_def hd_conv_nth)
  have "healed_idx ?s = 0"
    using at cs ne assms(2) by (intro healed_idx_at) simp_all
  then show ?thesis
    using at cs zD(3) [of 0] by (simp add: before_zero_def abs_time_def)
qed

lemma before_zero_lookup:
  assumes z: "first_zero env (tl_current s) = Some z" and ok: "before_zero env z t s"
    and less: "t < starts (slot_len env (tl_current s)) z"
  shows "cursor_ok env s"
proof -
  have "healed_idx s \<noteq> z" using ok less by (auto simp: before_zero_def abs_time_def)
  then show ?thesis
    using ok first_zero_SomeD(1) [OF z] by (auto simp: before_zero_def cursor_ok_def)
qed

lemma before_zero_stalled:
  assumes z: "first_zero env (tl_current s) = Some z" and ok: "before_zero env z t s"
    and le: "starts (slot_len env (tl_current s)) z \<le> t"
  shows "getActiveIndex s = int z \<and> getRemainingTime env s = 0"
proof -
  let ?L = "slot_len env (tl_current s)"
  note zD = first_zero_SomeD [OF z]
  have "healed_idx s = z"
  proof (rule ccontr)
    assume "healed_idx s \<noteq> z"
    then have less: "healed_idx s < z" using ok by (simp add: before_zero_def)
    then have "starts ?L (Suc (healed_idx s)) \<le> starts ?L z" by (intro starts_mono) auto
    then show False using ok le less by (simp add: before_zero_def abs_time_def)
  qed
  then show ?thesis
    using zD(1,2) ok by (auto simp: getActiveIndex_def getRemainingTime_def before_zero_def)
qed

text \<open>What the stateful queries answer, and what the stateless scheduler answers at a time.\<close>

definition agrees_at :: "(clip \<Rightarrow> IClip) \<Rightarrow> rat \<Rightarrow> timeline \<Rightarrow> bool" where
  "agrees_at env t s = (getActiveIndex s = getCurrentIndex_at env t s
     \<and> getRemainingTime env s = getRemainingTime_at env t s
     \<and> (tl_fallback s = None \<longrightarrow> tl_peek env s = getState_at env t s))"

lemma agrees_empty: "clips (tl_current s) = [] \<Longrightarrow> agrees_at env t s"
  by (simp add: agrees_at_def getActiveIndex_def getCurrentIndex_at_def getRemainingTime_def
      getRemainingTime_at_def tl_peek_def getState_at_def Let_def)

lemma cursor_agrees_positive:
  assumes "playable env (tl_current (setPlaylist cs trs paths s0))"
    and "\<forall>dt\<in>set dts. 0 \<le> dt \<and> dt \<le> timelineTotal env (tl_current (setPlaylist cs trs paths s0))"
  shows "agrees_at env (sum_list dts) (advance_all env dts (setPlaylist cs trs paths s0))"
proof -
  let ?s0 = "setPlaylist cs trs paths s0" let ?s = "advance_all env dts ?s0"
  note start = setPlaylist_cursor [OF assms(1)]
  obtain k :: nat where ok: "cursor_ok env ?s"
    and k: "sum_list dts = abs_time env ?s + of_nat k * timelineTotal env (tl_current ?s)"
    using advance_all_cursor [OF assms(1) conjunct1 [OF start] assms(2)] start by auto
  show ?thesis
    unfolding agrees_at_def using cursor_lookup [OF ok k] by simp
qed

lemma cursor_agrees_zero:
  assumes d: "distinct cs" and z: "first_zero env (tl_current (setPlaylist cs trs paths s0)) = Some z"
    and dts: "\<forall>dt\<in>set dts. 0 \<le> dt" and s: "s = advance_all env dts (setPlaylist cs trs paths s0)"
  shows "(if sum_list dts < starts (slot_len env (tl_current s)) z then agrees_at env (sum_list dts) s
     else getActiveIndex s = int z \<and> getRemainingTime env s = 0
       \<and> getCurrentIndex_at env (sum_list dts) s \<noteq> int z)"
proof -
  let ?s0 = "setPlaylist cs trs paths s0"
  have cs: "clips (tl_current ?s0) = cs" by (simp add: setPlaylist_def Let_def)
  have z': "first_zero env (tl_current s) = Some z" using z s by simp
  have ok: "before_zero env z (sum_list dts) s"
    using advance_all_before_zero [OF _ z before_zero_start [OF z d] dts] cs d s by simp
  have "agrees_at env (sum_list dts) s" if "sum_list dts < starts (slot_len env (tl_current s)) z"
    unfolding agrees_at_def
    using cursor_lookup [OF before_zero_lookup [OF z' ok that], of "sum_list dts" 0] ok
    by (simp add: before_zero_def)
  moreover have "0 \<le> sum_list dts" using dts by (simp add: sum_list_nonneg)
  ultimately show ?thesis
    using before_zero_stalled [OF z' ok] first_zero_SomeD(2) [OF z']
      getCurrentIndex_at_positive [of "sum_list dts" env s z]
    by (simp add: not_less)
qed

subsection \<open>Mutators\<close>

datatype mutator = MAppend clip TransitionConfig string | MMark string | MReap string
  | MRemoveAt nat | MReapActive

text \<open>A mutator call and the cache paths it reports to be evicted.\<close>

fun mutate :: "mutator \<Rightarrow> timeline \<Rightarrow> (string list \<times> timeline) option" where
  "mutate (MAppend c tr path) s = Some ([], appendClip c tr path s)"
| "mutate (MMark path) s = Some ([], snd (markForRemoval path s))"
| "mutate (MReap path) s = reapRemovable path s"
| "mutate (MRemoveAt idx) s = map_option (\<lambda>(_, s'). ([], s')) (removeAt idx s)"
| "mutate MReapActive s = map_option (\<lambda>(_, s'). ([], s')) (reapPendingActive s)"

fun mutate_all :: "mutator list \<Rightarrow> timeline \<Rightarrow> (string list \<times> timeline) option" where
  "mutate_all [] s = Some ([], s)"
| "mutate_all (m # ms) s =
    (case mutate m s of None \<Rightarrow> None
     | Some (out, s') \<Rightarrow> map_option (\<lambda>(outs, s''). (out @ outs, s'')) (mutate_all ms s'))"

definition cursor_of :: "timeline \<Rightarrow> clip option \<times> rat \<times> clip option" where
  "cursor_of s = (active_clip s, slot_pos_sec s, last_prepared s)"

lemma cursor_of_updates [simp]:
  "cursor_of (s\<lparr>tl_current := c\<rparr>) = cursor_of s"
  "cursor_of (s\<lparr>auto_reaped_paths := a\<rparr>) = cursor_of s"
  "cursor_of (s\<lparr>pending_boundary_status := b\<rparr>) = cursor_of s"
  by (simp_all add: cursor_of_def)

lemma aligned_ops:
  "aligned (tl_current s) \<Longrightarrow> aligned (tl_current (appendClip c tr path s))"
  "aligned (tl_current s) \<Longrightarrow> aligned (tl_current (snd (markForRemoval path s)))"
  by (simp_all add: aligned_def appendClip_def markForRemoval_def Let_def)

lemma aligned_mark [simp]:
  "aligned (cur\<lparr>pending_remove := p\<rparr>)
    \<longleftrightarrow> length (transitions cur) = length (clips cur) \<and> length (cache_paths cur) = length (clips cur)
      \<and> length p = length (clips cur)"
  by (simp add: aligned_def)

lemma alignedD: "aligned cur \<Longrightarrow> length (transitions cur) = length (clips cur)"
  "aligned cur \<Longrightarrow> length (cache_paths cur) = length (clips cur)"
  "aligned cur \<Longrightarrow> length (pending_remove cur) = length (clips cur)"
  by (simp_all add: aligned_def)

lemma removeAt_aligned:
  "aligned (tl_current s) \<Longrightarrow> \<exists>r s'. removeAt idx s = Some (r, s') \<and> aligned (tl_current s')
    \<and> cursor_of s' = cursor_of s"
  by (simp add: removeAt_def copy_except_current Let_def alignedD)

lemma reapPendingActive_aligned:
  "aligned (tl_current s) \<Longrightarrow> \<exists>r s'. reapPendingActive s = Some (r, s') \<and> aligned (tl_current s')
    \<and> cursor_of s' = cursor_of s"
  by (cases "findActiveIdx (tl_current s) (active_clip s)")
    (auto simp: reapPendingActive_def copy_except_current Let_def
      intro: exI [of _ True] exI [of _ False])

lemma cursor_of_ops [simp]:
  "cursor_of (appendClip c tr path s) = cursor_of s"
  "cursor_of (snd (markForRemoval path s)) = cursor_of s"
  by (simp_all add: appendClip_def markForRemoval_def Let_def)

lemma mutate_aligned:
  "aligned (tl_current s) \<Longrightarrow> \<exists>out s'. mutate m s = Some (out, s') \<and> aligned (tl_current s')
    \<and> cursor_of s' = cursor_of s"
proof (cases m)
  case (MRemoveAt idx)
  assume "aligned (tl_current s)"
  from removeAt_aligned [OF this, of idx] show ?thesis unfolding MRemoveAt by fastforce
next
  case MReapActive
  assume "aligned (tl_current s)"
  from reapPendingActive_aligned [OF this] show ?thesis unfolding MReapActive by fastforce
qed (simp_all add: aligned_ops reapRemovable_aligned Let_def)

lemma mutate_all_aligned:
  "aligned (tl_current s) \<Longrightarrow> \<exists>out s'. mutate_all ms s = Some (out, s')
    \<and> aligned (tl_current s') \<and> cursor_of s' = cursor_of s"
proof (induction ms arbitrary: s)
  case (Cons m ms)
  obtain out s1 where m: "mutate m s = Some (out, s1)" "aligned (tl_current s1)"
    "cursor_of s1 = cursor_of s"
    using mutate_aligned Cons.prems by blast
  show ?case using Cons.IH [OF m(2)] m by auto
qed simp

text \<open>Every cache path is accounted for: in the playlist, waiting for the next report, or reported.\<close>

definition held :: "timeline \<Rightarrow> string multiset" where
  "held s = mset (cache_paths (tl_current s)) + mset (auto_reaped_paths s)"

fun appended :: "mutator list \<Rightarrow> string multiset" where
  "appended [] = {#}"
| "appended (MAppend c tr path # ms) = {#path#} + appended ms"
| "appended (_ # ms) = appended ms"

fun is_removeAt :: "mutator \<Rightarrow> bool" where
  "is_removeAt (MRemoveAt _) = True"
| "is_removeAt _ = False"

lemma mset_map_filter_split:
  "mset (map f (filter P xs)) + mset (map f (filter (\<lambda>x. \<not> P x) xs)) = mset (map f xs)"
  by (induction xs) auto

lemma filter_neq_absent: "i \<notin> set xs \<Longrightarrow> filter (\<lambda>j. j \<noteq> i) xs = xs"
  by (induction xs) auto

lemma mset_map_remove:
  "distinct xs \<Longrightarrow> i \<in> set xs \<Longrightarrow> add_mset (f i) (mset (map f (filter (\<lambda>j. j \<noteq> i) xs))) = mset (map f xs)"
  by (induction xs) (auto simp: filter_neq_absent simp del: mset_filter)

lemma mutate_held:
  assumes al: "aligned (tl_current s)" and m: "mutate m s = Some (out, s')" and nr: "\<not> is_removeAt m"
  shows "mset out + held s' = held s + appended [m]"
proof (cases m)
  case (MReap path)
  let ?cur = "tl_current s" and ?n = "length (clips (tl_current s))"
  have paths: "map ((!) (cache_paths ?cur)) [0..<?n] = cache_paths ?cur"
    using al by (simp add: aligned_def map_nth_all)
  have "mset (map ((!) (cache_paths ?cur)) (filter (reaped path ?cur) [0..<?n]))
      + mset (map ((!) (cache_paths ?cur)) (filter (\<lambda>i. \<not> reaped path ?cur i) [0..<?n]))
      = mset (cache_paths ?cur)"
    using mset_map_filter_split [of "(!) (cache_paths ?cur)" "reaped path ?cur" "[0..<?n]"]
    by (simp only: paths)
  then show ?thesis
    using m al MReap by (auto simp: reapRemovable_aligned Let_def held_def ac_simps)
next
  case MReapActive
  show ?thesis
  proof (cases "findActiveIdx (tl_current s) (active_clip s)")
    case (Some idx)
    let ?cur = "tl_current s"
    have idx: "idx < length (clips ?cur)"
      using Some by (auto simp: findActiveIdx_def find_index_Some split: option.splits)
    have "add_mset (cache_paths ?cur ! idx)
        (mset (map ((!) (cache_paths ?cur)) (filter (\<lambda>j. j \<noteq> idx) [0..<length (clips ?cur)])))
        = mset (cache_paths ?cur)"
      using mset_map_remove [of "[0..<length (clips ?cur)]" idx "(!) (cache_paths ?cur)"] idx al
      by (simp only: map_nth_all alignedD) simp
    then show ?thesis
      using m al MReapActive Some
      by (auto simp: reapPendingActive_def copy_except_current Let_def held_def split: if_splits)
  next
    case None
    then show ?thesis using m MReapActive by (auto simp: reapPendingActive_def Let_def)
  qed
next
  case (MAppend c tr path)
  then show ?thesis using m by (auto simp: appendClip_def Let_def held_def)
next
  case (MMark path)
  then show ?thesis using m by (auto simp: markForRemoval_def Let_def held_def split: if_splits)
next
  case (MRemoveAt idx)
  then show ?thesis using nr by simp
qed

lemma appended_Cons: "appended (m # ms) = appended [m] + appended ms"
  by (cases m) simp_all

lemma mutate_all_held:
  "aligned (tl_current s) \<Longrightarrow> mutate_all ms s = Some (out, s') \<Longrightarrow> list_all (\<lambda>m. \<not> is_removeAt m) ms
    \<Longrightarrow> mset out + held s' = held s + appended ms"
proof (induction ms arbitrary: s out)
  case (Cons m ms)
  obtain out1 s1 where m: "mutate m s = Some (out1, s1)" "aligned (tl_current s1)"
    using mutate_aligned Cons.prems(1) by blast
  then obtain out2 where rest: "mutate_all ms s1 = Some (out2, s')" "out = out1 @ out2"
    using Cons.prems(2) by auto
  have "mset out1 + held s1 = held s + appended [m]"
    using Cons.prems m by (intro mutate_held) auto
  moreover have "mset out2 + held s' = held s1 + appended ms"
    using Cons.prems m rest by (intro Cons.IH) auto
  ultimately show ?case
    using appended_Cons [of m ms] rest(2) by (metis (no_types, opaque_lifting) add.assoc add.commute mset_append)
qed simp

subsection \<open>The warm-up callback\<close>

text \<open>A run of ticks, each with the clips as they are then, and the callback's calls.\<close>

fun ticks :: "((clip \<Rightarrow> IClip) \<times> rat) list \<Rightarrow> timeline \<Rightarrow> timeline \<times> (clip \<times> rat) list" where
  "ticks [] s = (s, [])"
| "ticks ((env, dt) # ts) s =
    (let (s1, fired) = advance env dt s; (s2, rest) = ticks ts s1
     in (s2, (case fired of None \<Rightarrow> rest | Some f \<Rightarrow> f # rest)))"

definition upcoming :: "timeline \<Rightarrow> clip" where
  "upcoming s = clips (tl_current s) ! ((healed_idx s + 1) mod length (clips (tl_current s)))"

lemma roll_index: "idx < length (clips snap) \<Longrightarrow> fst (roll env snap g idx pos) < length (clips snap)"
proof (induction g arbitrary: idx pos)
  case (Suc g)
  then have "Suc idx mod length (clips snap) < length (clips snap)" by (intro mod_less_divisor) auto
  with Suc show ?case by (simp add: Let_def)
qed simp

lemma healed_idx_less: "clips (tl_current s) \<noteq> [] \<Longrightarrow> healed_idx s < length (clips (tl_current s))"
  by (auto simp: healed_idx_def findActiveIdx_def find_index_Some split: option.splits)

lemma advance_fire:
  assumes ne: "clips (tl_current s) \<noteq> []" and d: "distinct (clips (tl_current s))"
    and adv: "advance env dt s = (s', fired)" and same: "getActiveIndex s' = getActiveIndex s"
  shows "case fired of
      None \<Rightarrow> last_prepared s = Some (upcoming s) \<longrightarrow> last_prepared s' = Some (upcoming s)
    | Some (c, r) \<Rightarrow> c = upcoming s \<and> 0 \<le> r \<and> r \<le> warmUpSec (env c)
        \<and> last_prepared s \<noteq> Some (upcoming s) \<and> last_prepared s' = Some (upcoming s)"
proof -
  let ?cs = "clips (tl_current s)" and ?pos0 = "case findActiveIdx (tl_current s) (active_clip s) of
    None \<Rightarrow> 0 | Some _ \<Rightarrow> slot_pos_sec s"
  obtain idx pos where r: "roll env (tl_current s) (length ?cs + 1) (healed_idx s) (?pos0 + dt) = (idx, pos)"
    by fastforce
  have s': "tl_current s' = tl_current s" using advance_keeps(1) [of env dt s] adv by simp
  have idx: "idx < length ?cs"
    using roll_index [OF healed_idx_less [OF ne], of env "length ?cs + 1" "?pos0 + dt"] by (simp only: r) simp
  have act: "active_clip s' = Some (?cs ! idx)"
    using adv ne r by (auto simp: advance_def healed_idx_def Let_def simp del: roll.simps split: if_splits)
  then have "healed_idx s' = idx" using idx d s' by (intro healed_idx_at) auto
  then have idx_eq: "idx = healed_idx s" using same s' ne by (simp add: getActiveIndex_def)
  show ?thesis
    using adv ne r unfolding idx_eq
    by (auto simp: advance_def upcoming_def Let_def simp flip: healed_idx_def simp del: roll.simps
        split: if_splits)
qed

lemma upcoming_same:
  assumes "clips (tl_current s) \<noteq> []" "tl_current s' = tl_current s" "getActiveIndex s' = getActiveIndex s"
  shows "upcoming s' = upcoming s"
  using assms by (simp add: upcoming_def getActiveIndex_def)

text \<open>The ticks that stay in the slot they started in.\<close>

fun stays :: "((clip \<Rightarrow> IClip) \<times> rat) list \<Rightarrow> timeline \<Rightarrow> bool" where
  "stays [] s = True"
| "stays ((env, dt) # ts) s =
    (getActiveIndex (fst (advance env dt s)) = getActiveIndex s \<and> stays ts (fst (advance env dt s)))"

lemma ticks_prepared:
  "clips (tl_current s) \<noteq> [] \<Longrightarrow> distinct (clips (tl_current s)) \<Longrightarrow> stays ts s
    \<Longrightarrow> last_prepared s = Some (upcoming s) \<Longrightarrow> snd (ticks ts s) = []"
proof (induction ts arbitrary: s)
  case (Cons t ts)
  obtain env dt where t: "t = (env, dt)" by fastforce
  obtain s1 fired where adv: "advance env dt s = (s1, fired)" by fastforce
  have cur: "tl_current s1 = tl_current s" using advance_keeps(1) [of env dt s] adv by simp
  have st: "getActiveIndex s1 = getActiveIndex s" "stays ts s1"
    using Cons.prems(3) t adv by simp_all
  have f: "fired = None" "last_prepared s1 = Some (upcoming s)"
    using advance_fire [OF Cons.prems(1,2) adv st(1)] Cons.prems(4) by (auto split: option.splits)
  have "snd (ticks ts s1) = []"
    using Cons.prems cur f st upcoming_same [OF Cons.prems(1) cur st(1)] by (intro Cons.IH) simp_all
  then show ?case using t adv f by (simp add: split_beta)
qed simp

lemma ticks_fire_once:
  "clips (tl_current s) \<noteq> [] \<Longrightarrow> distinct (clips (tl_current s)) \<Longrightarrow> stays ts s
    \<Longrightarrow> snd (ticks ts s) = [] \<or> (\<exists>r \<ge> 0. snd (ticks ts s) = [(upcoming s, r)])"
proof (induction ts arbitrary: s)
  case (Cons t ts)
  obtain env dt where t: "t = (env, dt)" by fastforce
  obtain s1 fired where adv: "advance env dt s = (s1, fired)" by fastforce
  have cur: "tl_current s1 = tl_current s" using advance_keeps(1) [of env dt s] adv by simp
  have st: "getActiveIndex s1 = getActiveIndex s" "stays ts s1"
    using Cons.prems(3) t adv by simp_all
  note up = upcoming_same [OF Cons.prems(1) cur st(1)]
  show ?case
  proof (cases fired)
    case None
    then show ?thesis
      using Cons.IH [of s1] Cons.prems cur st up t adv by (simp add: split_beta)
  next
    case (Some f)
    then obtain c r where f: "f = (c, r)" "c = upcoming s" "0 \<le> r" "last_prepared s1 = Some (upcoming s)"
      using advance_fire [OF Cons.prems(1,2) adv st(1)] by (cases f) auto
    then have "snd (ticks ts s1) = []"
      using Cons.prems cur st up by (intro ticks_prepared) simp_all
    then show ?thesis using t adv Some f by (simp add: split_beta)
  qed
qed simp

subsection \<open>Transition windows and easing\<close>

lemma slot_len_split:
  "slot_len env snap idx
    = max 0 (getDuration (env (clips snap ! idx)) - prevConsumed (prevTransition (transitions snap) idx (length (clips snap))))
      + outgoingTailLen (transitionFor (transitions snap) idx)"
  by (simp add: slot_len_def slotLength_def Let_def)

lemma buildState_window:
  assumes "0 \<le> pos" "pos < slot_len env snap idx"
  shows "let st = buildState env snap idx pos fb in
    (if in_transition st
     then 0 \<le> transition_progress st \<and> transition_progress st < 1 \<and> clipA_in_tail st
       \<and> (\<exists>b. clipB st = Some b \<and> (clipB st = fb \<or> isPrepared (env b)))
     else clipB st = None \<and> transition_progress st = 0)"
  using assms unfolding slot_len_split
  by (auto simp: buildState_def Let_def default_state_def divide_less_eq split: if_splits)

lemma smooth_step_mono:
  fixes t u :: rat
  assumes "0 \<le> t" "t \<le> u" "u \<le> 1"
  shows "t * t * (3 - 2 * t) \<le> u * u * (3 - 2 * u)"
proof -
  have "u * u \<le> u" "t * t \<le> t" using assms by (simp_all add: mult_left_le)
  moreover have "2 * (u * t) \<le> u * u + t * t"
    using zero_le_square [of "u - t"] by (simp add: algebra_simps)
  ultimately have "0 \<le> 3 * (u + t) - 2 * (u * u + u * t + t * t)"
    unfolding ring_distribs by linarith
  then have "0 \<le> (u - t) * (3 * (u + t) - 2 * (u * u + u * t + t * t))"
    using assms by (intro mult_nonneg_nonneg) simp_all
  then show ?thesis by (simp add: algebra_simps)
qed

lemma easing_curve_mono:
  assumes "0 < t" "t \<le> u" "u < 1"
  shows "applyEasing e t \<le> applyEasing e u"
proof (cases e)
  case EaseOut
  have "(1 - u) * (1 - u) \<le> (1 - t) * (1 - t)" using assms by (intro mult_mono) simp_all
  with EaseOut assms show ?thesis by (simp add: Let_def)
next
  case EaseInOut
  with assms smooth_step_mono [of t u] show ?thesis by simp
next
  case EaseIn
  with assms show ?thesis by (simp add: mult_mono)
qed (use assms in simp)

lemma easing_range: "0 \<le> applyEasing e t \<and> applyEasing e t \<le> 1"
proof -
  have "0 \<le> applyEasing e t \<and> applyEasing e t \<le> 1" if t: "0 < t" "t < 1"
  proof (cases e)
    case EaseOut
    have "(1 - t) * (1 - t) \<le> 1" using t by (intro mult_le_one) simp_all
    with EaseOut t show ?thesis by (simp add: Let_def)
  next
    case EaseInOut
    with t smooth_step_mono [of 0 t] smooth_step_mono [of t 1] show ?thesis by simp
  next
    case EaseIn
    with t show ?thesis by (simp add: mult_le_one)
  qed (use t in simp)
  moreover have "t \<le> 0 \<or> 1 \<le> t \<or> (0 < t \<and> t < 1)" by linarith
  ultimately show ?thesis by auto
qed

lemma easing_mono: "t \<le> u \<Longrightarrow> applyEasing e t \<le> applyEasing e u"
proof -
  assume tu: "t \<le> u"
  consider "t \<le> 0" | "1 \<le> u" | "0 < t" "u < 1" by linarith
  then show ?thesis
  proof cases
    case 1
    then have "applyEasing e t = 0" by simp
    with easing_range [of e u] show ?thesis by simp
  next
    case 2
    then have "applyEasing e u = 1" by simp
    with easing_range [of e t] show ?thesis by simp
  next
    case 3
    with tu show ?thesis by (intro easing_curve_mono)
  qed
qed

subsection \<open>Two corners of the cursor\<close>

text \<open>
  \<open>restoreCursor\<close> clamps to the clip's duration. Behind a live mix the slot is shorter than the
  clip, and a position in between is accepted but rolls to the next clip on the first tick.
\<close>

lemma restore_past_slot_end:
  defines "trs \<equiv> [\<lparr>tr_type = CrossFade, tr_mode = LiveMix, tr_duration = 2, tr_easing = Linear\<rparr>, kHardCut]"
    and "env \<equiv> \<lambda>_. \<lparr>getDuration = 10, isPrepared = True, warmUpSec = 0\<rparr>"
  shows "let s = snd (restoreCursor env 1 (Some 9) (setPlaylist [7, 8] trs [] new_Timeline))
    in getActiveIndex s = 1 \<and> getActiveIndex (fst (advance env 0 s)) = 0"
  unfolding assms
  by (simp add: restoreCursor_def setPlaylist_def new_Timeline_def getActiveIndex_def healed_idx_def
      findActiveIdx_def advance_def slot_len_def slotLength_def transitionFor_def prevTransition_def
      kHardCut_def prevConsumed_def outgoingTailLen_def Let_def)

text \<open>
  A playlist set with fewer transitions than clips plays as hard cuts, but the first rebuild of it
  reads past the end of the transitions.
\<close>

lemma short_transitions_out_of_range:
  "reapRemovable '''' (snd (markForRemoval ''a'' (setPlaylist [7, 8] [] [''a'', ''b''] new_Timeline))) = None"
  by (simp add: reapRemovable_def markForRemoval_def setPlaylist_def new_Timeline_def copy_entry_def
      empty_snapshot_def Let_def upt_rec numeral_2_eq_2)

text \<open>
  The active entry is protected from \<open>reapRemovable\<close> by its cache path only: an active clip without
  one that has been marked by \<open>removeAt\<close> is dropped in the middle of its slot.
\<close>

lemma active_without_path_reaped:
  "let s = snd (the (removeAt 0 (setPlaylist [7, 8] [kHardCut, kHardCut] ['''', ''b''] new_Timeline)));
       s' = snd (the (reapRemovable '''' s))
   in active_clip s = Some 7 \<and> clips (tl_current s) = [7, 8] \<and> clips (tl_current s') = [8]"
  by (simp add: removeAt_def reapRemovable_def setPlaylist_def new_Timeline_def copy_entry_def
      empty_snapshot_def Let_def upt_rec numeral_2_eq_2)

section \<open>Properties\<close>

text \<open>C25: drive the stateful cursor tick by tick from the start of a playlist whose clips are distinct objects
  (as \<open>setPlaylist\<close>'s callers build them, one object per entry) with durations that do not change,
  with ticks that are not negative and
  not longer than the whole playlist. When every slot has a positive length, the cursor always agrees
  with the stateless scheduler at the total elapsed time: same slot, same remaining time, and the
  same render state when no fallback is configured; no tick runs out of the loop's \<open>n + 1\<close> iterations.
  When some slot has no length (a clip of duration zero, or one wholly consumed by the live mix
  before it, with a hard cut out), they agree until the elapsed time reaches the first such slot; from
  then on the cursor is stuck in it with no time remaining, while the stateless scheduler never shows
  it. An empty playlist is included.\<close>

theorem cursor_agrees_with_reference:
  assumes "s = advance_all env dts (setPlaylist cs trs paths s0)" "distinct cs"
    "\<forall>dt\<in>set dts. 0 \<le> dt \<and> dt \<le> timelineTotal env (tl_current s)"
  shows "case first_zero env (tl_current s) of
      None \<Rightarrow> getActiveIndex s = getCurrentIndex_at env (sum_list dts) s
        \<and> getRemainingTime env s = getRemainingTime_at env (sum_list dts) s
        \<and> (tl_fallback s = None \<longrightarrow> tl_peek env s = getState_at env (sum_list dts) s)
    | Some z \<Rightarrow> if sum_list dts < starts (slot_len env (tl_current s)) z
        then getActiveIndex s = getCurrentIndex_at env (sum_list dts) s
          \<and> getRemainingTime env s = getRemainingTime_at env (sum_list dts) s
          \<and> (tl_fallback s = None \<longrightarrow> tl_peek env s = getState_at env (sum_list dts) s)
        else getActiveIndex s = int z \<and> getRemainingTime env s = 0
          \<and> getCurrentIndex_at env (sum_list dts) s \<noteq> int z"
proof (cases "first_zero env (tl_current s)")
  case None
  have cs: "clips (tl_current s) = cs" by (simp add: assms(1) setPlaylist_def Let_def)
  have "agrees_at env (sum_list dts) s"
  proof (cases "cs = []")
    case True
    then show ?thesis using cs by (simp add: agrees_empty)
  next
    case False
    then have "playable env (tl_current s)"
      using None cs assms(2) by (simp add: playable_def first_zero_None)
    then show ?thesis
      using assms(1,3) by (simp add: cursor_agrees_positive)
  qed
  then show ?thesis using None by (simp add: agrees_at_def)
next
  case (Some z)
  then have "first_zero env (tl_current (setPlaylist cs trs paths s0)) = Some z"
    using assms(1) by simp
  from cursor_agrees_zero [OF assms(2) this _ assms(1)] show ?thesis
    using assms(3) by (simp add: Some agrees_at_def split: if_splits)
qed

theorem cursor_agrees_with_reference_witness:
  "let s = advance_all (\<lambda>_. \<lparr>getDuration = 10, isPrepared = True, warmUpSec = 3\<rparr>) [9, 5] (setPlaylist [7, 8] [\<lparr>tr_type = CrossFade, tr_mode = FreezeFade, tr_duration = 2, tr_easing = Linear\<rparr>, \<lparr>tr_type = CrossFade, tr_mode = LiveMix, tr_duration = 4, tr_easing = EaseIn\<rparr>] [''a'', ''b''] new_Timeline) in
    getActiveIndex s = getCurrentIndex_at (\<lambda>_. \<lparr>getDuration = 10, isPrepared = True, warmUpSec = 3\<rparr>) 14 s"
  using cursor_agrees_with_reference [OF refl, of "[7, 8]" "[9, 5]" "(\<lambda>_. \<lparr>getDuration = 10, isPrepared = True, warmUpSec = 3\<rparr>)"
      "[\<lparr>tr_type = CrossFade, tr_mode = FreezeFade, tr_duration = 2, tr_easing = Linear\<rparr>, \<lparr>tr_type = CrossFade, tr_mode = LiveMix, tr_duration = 4, tr_easing = EaseIn\<rparr>]" "[''a'', ''b'']" new_Timeline]
  by (simp add: first_zero_def setPlaylist_def new_Timeline_def playable_def slot_len_def slotLength_def transitionFor_def prevTransition_def
      kHardCut_def prevConsumed_def outgoingTailLen_def timelineTotal_def Let_def less_Suc_eq numeral_2_eq_2 upt_rec)

text \<open>Any sequence of hot mutations of a playlist whose vectors are parallel runs without an out-of-range
  access, keeps the vectors parallel, and leaves the active clip, the position in its slot and the
  prepare token as they were.\<close>

lemma mutators_keep_cursor:
  assumes "aligned (tl_current s)"
  shows "\<exists>out s'. mutate_all ms s = Some (out, s') \<and> aligned (tl_current s')
    \<and> active_clip s' = active_clip s \<and> slot_pos_sec s' = slot_pos_sec s
    \<and> last_prepared s' = last_prepared s"
  using mutate_all_aligned [OF assms, of ms] by (auto simp: cursor_of_def)

text \<open>Over any sequence of appends, marks, reaps and reaps of the active clip, the cache paths in the
  playlist, those waiting in the auto-reaped queue and those reported for eviction are together the
  paths at the start and the appended ones: nothing is lost or reported twice.\<close>

lemma deletions_accounted:
  assumes "aligned (tl_current s)" "mutate_all ms s = Some (out, s')" "list_all (\<lambda>m. \<not> is_removeAt m) ms"
  shows "mset out + mset (cache_paths (tl_current s')) + mset (auto_reaped_paths s')
    = mset (cache_paths (tl_current s)) + mset (auto_reaped_paths s) + appended ms"
  using mutate_all_held [OF assms] by (simp add: held_def ac_simps)

text \<open>As long as the cursor stays in its slot, however many ticks that takes and whatever warm-up windows
  the clips report meanwhile, the prepare callback is called at most once, and then for the clip of
  the next slot and with a non-negative time to the boundary.\<close>

lemma warm_up_fires_once:
  assumes "clips (tl_current s) \<noteq> []" "distinct (clips (tl_current s))" "stays ts s"
  shows "snd (ticks ts s) = [] \<or> (\<exists>r \<ge> 0. snd (ticks ts s) = [(upcoming s, r)])"
  by (rule ticks_fire_once [OF assms])

text \<open>Inside a slot the render state is either a single clip, or a transition with progress in
  \<open>[0, 1)\<close> whose second clip exists and is either prepared or the configured fallback.\<close>

lemma transition_window:
  assumes "cursor_ok env s" "st = tl_peek env s"
  shows "if in_transition st
    then 0 \<le> transition_progress st \<and> transition_progress st < 1 \<and> clipA_in_tail st
      \<and> (\<exists>b. clipB st = Some b \<and> (clipB st = tl_fallback s \<or> isPrepared (env b)))
    else clipB st = None \<and> transition_progress st = 0"
  using assms buildState_window [of "slot_pos_sec s" env "tl_current s" "healed_idx s" "tl_fallback s"]
  by (auto simp: cursor_ok_def tl_peek_def Let_def)

text \<open>Every easing curve stays in \<open>[0, 1]\<close>, is monotone, and maps 0 to 0 and 1 to 1.\<close>

lemma easing_shapes:
  "(0 \<le> applyEasing e t \<and> applyEasing e t \<le> 1) \<and> applyEasing e (min t u) \<le> applyEasing e (max t u)
    \<and> applyEasing e 0 = 0 \<and> applyEasing e 1 = 1"
  using easing_range [of e t] easing_mono [of "min t u" "max t u" e] by simp

end
