(* ===== verification/CText.thy ===== *)
theory CText
  imports Main
begin

text \<open>
  The character classes of the C locale and the string helpers that the text-handling components
  share: \<open>std::isspace\<close>, \<open>std::isdigit\<close>, \<open>std::tolower\<close> on characters, \<open>std::string::find\<close> and
  \<open>rfind\<close> of a character, and the trimming loop that several sources repeat.
\<close>

definition isdigit :: "char \<Rightarrow> bool" where
  "isdigit c = (48 \<le> (of_char c :: nat) \<and> (of_char c :: nat) \<le> 57)"

definition isspace :: "char \<Rightarrow> bool" where
  "isspace c = ((of_char c :: nat) = 32 \<or> 9 \<le> (of_char c :: nat) \<and> (of_char c :: nat) \<le> 13)"

definition tolower_char :: "char \<Rightarrow> char" where
  "tolower_char c = (if 65 \<le> (of_char c :: nat) \<and> (of_char c :: nat) \<le> 90
     then char_of (of_char c + 32 :: nat) else c)"

text \<open>The index of the first, or last, occurrence.\<close>

fun find_char :: "char \<Rightarrow> string \<Rightarrow> nat option" where
  "find_char c [] = None"
| "find_char c (x # xs) = (if x = c then Some 0 else map_option Suc (find_char c xs))"

definition rfind_char :: "char \<Rightarrow> string \<Rightarrow> nat option" where
  "rfind_char c s = map_option (\<lambda>i. length s - 1 - i) (find_char c (rev s))"

text \<open>\<open>trim\<close>: space is removed from the front, then from the back.\<close>

definition trim :: "string \<Rightarrow> string" where
  "trim s = rev (dropWhile isspace (rev (dropWhile isspace s)))"

lemma find_char_None [simp]: "find_char c s = None \<longleftrightarrow> c \<notin> set s"
  by (induction s) auto

lemma find_char_Some:
  "find_char c s = Some i \<Longrightarrow> s = take i s @ c # drop (Suc i) s \<and> c \<notin> set (take i s) \<and> i < length s"
proof (induction s arbitrary: i)
  case (Cons x s)
  then show ?case by (cases "x = c") auto
qed simp

lemma find_char_append: "c \<notin> set a \<Longrightarrow> find_char c (a @ c # b) = Some (length a)"
  by (induction a) auto

lemma rfind_char_None [simp]: "rfind_char c s = None \<longleftrightarrow> c \<notin> set s"
  by (simp add: rfind_char_def)

lemma rfind_char_append:
  assumes "c \<notin> set b"
  shows "rfind_char c (a @ c # b) = Some (length a)"
  using find_char_append [of c "rev b" "rev a"] assms by (simp add: rfind_char_def)

lemma rfind_char_Some:
  assumes "rfind_char c s = Some i"
  shows "s = take i s @ c # drop (Suc i) s \<and> c \<notin> set (drop (Suc i) s) \<and> i < length s"
proof -
  from assms obtain k where k: "find_char c (rev s) = Some k" "i = length s - 1 - k"
    by (auto simp: rfind_char_def)
  from find_char_Some [OF k(1)] have r: "rev s = take k (rev s) @ c # drop (Suc k) (rev s)"
    and n: "c \<notin> set (take k (rev s))" and l: "k < length s" by simp_all
  from r have "s = rev (drop (Suc k) (rev s)) @ c # rev (take k (rev s))"
    by (metis append.assoc append_Cons append_Nil rev.simps(2) rev_append rev_rev_ident)
  moreover have "rev (drop (Suc k) (rev s)) = take i s" using l k(2) by (simp add: rev_drop)
  moreover have "rev (take k (rev s)) = drop (Suc i) s" using l k(2) by (simp add: rev_take Suc_diff_Suc)
  moreover have "i < length s" using l k(2) by simp
  ultimately show ?thesis using n by (metis set_rev)
qed

lemma trim_Nil [simp]: "trim [] = []" by (simp add: trim_def)

lemma set_trim: "set (trim s) \<subseteq> set s"
  unfolding trim_def by (metis set_dropWhileD set_rev subsetI)

subsection \<open>Splitting at a character\<close>

text \<open>The loop that several sources write: a separator ends the piece collected so far.\<close>

fun split_on :: "char \<Rightarrow> string \<Rightarrow> string list" where
  "split_on d [] = [[]]"
| "split_on d (c # s) = (if c = d then [] # split_on d s
     else case split_on d s of [] \<Rightarrow> [[c]] | w # ws \<Rightarrow> (c # w) # ws)"

lemma split_on_ne [simp]: "split_on d s \<noteq> []"
  by (cases s) (auto split: list.splits)

lemma split_on_append: "split_on d (a @ d # b) = split_on d a @ split_on d b"
  by (induction a) (auto simp: append_eq_Cons_conv split: list.splits)

lemma split_on_none: "d \<notin> set s \<Longrightarrow> split_on d s = [s]"
  by (induction s) auto

lemma split_on_parts: "p \<in> set (split_on d s) \<Longrightarrow> d \<notin> set p"
proof (induction s arbitrary: p)
  case (Cons c s)
  obtain w ws where w: "split_on d s = w # ws" by (metis list.exhaust split_on_ne)
  with Cons show ?case by (auto split: if_splits)
qed simp

lemma split_on_snoc:
  "c \<noteq> d \<Longrightarrow> split_on d (s @ [c]) = butlast (split_on d s) @ [last (split_on d s) @ [c]]"
proof (induction s)
  case (Cons x s)
  obtain w ws where w: "split_on d s = w # ws" by (metis list.exhaust split_on_ne)
  show ?case
  proof (cases "x = d")
    case False
    with Cons w show ?thesis by (cases ws) auto
  qed (use Cons w in auto)
qed simp

subsection \<open>Trimming\<close>

lemma trim_space [simp]: "isspace c \<Longrightarrow> trim (c # w) = trim w" "isspace c \<Longrightarrow> trim (w @ [c]) = trim w"
proof -
  show "trim (c # w) = trim w" if "isspace c" using that by (simp add: trim_def)
  assume c: "isspace c"
  show "trim (w @ [c]) = trim w"
  proof (cases "\<forall>x \<in> set w. isspace x")
    case True
    then have "dropWhile isspace w = []" "dropWhile isspace (w @ [c]) = []" using c
      by simp_all
    then show ?thesis by (simp only: trim_def rev.simps dropWhile.simps)
  next
    case False
    then have "dropWhile isspace (w @ [c]) = dropWhile isspace w @ [c]" by auto
    then show ?thesis using c by (simp add: trim_def)
  qed
qed

lemma trim_induct:
  assumes "\<And>c s. isspace c \<Longrightarrow> f (c # s) = f s" "\<And>c s. isspace c \<Longrightarrow> f (s @ [c]) = f s"
  shows "f (trim s) = f s"
proof -
  have l: "f (dropWhile isspace s) = f s" for s
    by (induction s) (simp_all add: assms(1))
  have r: "f (rev (dropWhile isspace (rev s))) = f s" for s
  proof (induction s rule: rev_induct)
    case (snoc c s)
    then show ?case by (simp add: assms(2))
  qed simp
  show ?thesis unfolding trim_def using l r by metis
qed

end
