(* ===== verification/Json.thy ===== *)
theory Json
  imports Complex_Main Prelude CText "HOL-Library.Char_ord" "HOL-Library.List_Lexorder"
begin

text \<open>
  What the configuration code uses of its surroundings: JSON values as data (nlohmann/json is a
  dependency outside the tree; its values and typed getters are the interface modelled here), the
  exceptions the parsers let out as a sum type, and the decimal printing and reading of the C and
  C++ standard libraries (\<open>snprintf\<close> with \<open>%0wd\<close>, \<open>std::stoi\<close>, \<open>isdigit\<close>).
\<close>

datatype json = JNull | JBool bool | JInt int | JFloat rat | JStr string | JArr "json list"
  | JObj "(string \<times> json) list"

text \<open>\<open>InvalidArgument\<close> is the code's own exception, \<open>TypeError\<close> the one of a typed getter.\<close>

datatype exn = InvalidArgument | TypeError

type_synonym 'a result = "exn + 'a"

definition bindE :: "'a result \<Rightarrow> ('a \<Rightarrow> 'b result) \<Rightarrow> 'b result" where
  "bindE r f = (case r of Inl e \<Rightarrow> Inl e | Inr x \<Rightarrow> f x)"

lemma bindE_simps [simp]: "bindE (Inr x) f = f x" "bindE (Inl e) f = Inl e"
  by (simp_all add: bindE_def)

lemma bindE_Inr_iff: "bindE r f = Inr y \<longleftrightarrow> (\<exists>x. r = Inr x \<and> f x = Inr y)"
  by (cases r) simp_all

lemma bindE_cong [fundef_cong]: "r = r' \<Longrightarrow> (\<And>x. r' = Inr x \<Longrightarrow> f x = g x) \<Longrightarrow> bindE r f = bindE r' g"
  by (cases r') simp_all

subsection \<open>Typed getters\<close>

definition field :: "string \<Rightarrow> json \<Rightarrow> json option" where
  "field k j = (case j of JObj kv \<Rightarrow> map_of kv k | _ \<Rightarrow> None)"

fun is_object :: "json \<Rightarrow> bool" where
  "is_object (JObj _) = True"
| "is_object _ = False"

text \<open>The getter of \<open>int\<close> converts the stored 64-bit integer, keeping its low 32 bits.\<close>

definition to_i32 :: "int \<Rightarrow> int" where "to_i32 v = signed_take_bit 31 v"
definition to_i64 :: "int \<Rightarrow> int" where "to_i64 v = signed_take_bit 63 v"

definition getString :: "json \<Rightarrow> string result" where
  "getString j = (case j of JStr s \<Rightarrow> Inr s | _ \<Rightarrow> Inl TypeError)"

lemma getString_simps [simp]: "getString (JStr s) = Inr s" by (simp add: getString_def)

lemma field_Cons [simp]: "field k (JObj ((k', v) # kv)) = (if k = k' then Some v else field k (JObj kv))"
  "field k (JObj []) = None"
  by (simp_all add: field_def)

lemma field_append [simp]:
  "field k (JObj (xs @ ys)) = (case field k (JObj xs) of None \<Rightarrow> field k (JObj ys) | Some v \<Rightarrow> Some v)"
  by (simp add: field_def map_add_def split: option.split)

lemma to_i_small [simp]:
  "- (2 ^ 31) \<le> v \<Longrightarrow> v < 2 ^ 31 \<Longrightarrow> to_i32 v = v"
  "- (2 ^ 63) \<le> v \<Longrightarrow> v < 2 ^ 63 \<Longrightarrow> to_i64 v = v"
  by (simp_all add: to_i32_def to_i64_def signed_take_bit_int_eq_self)

subsection \<open>Decimal numbers\<close>

definition digit_value :: "char \<Rightarrow> int" where
  "digit_value c = int (of_char c) - 48"

definition digits_value :: "string \<Rightarrow> int" where
  "digits_value ds = foldl (\<lambda>v c. v * 10 + digit_value c) 0 ds"

text \<open>
  \<open>std::stoi\<close> of at most four characters: blanks, a sign, the longest run of digits; what follows
  is ignored and no digit at all is an exception. (The range check cannot fire at this length.)
\<close>

definition stoi :: "string \<Rightarrow> int result" where
  "stoi s =
    (let s1 = dropWhile isspace s;
         neg = (s1 \<noteq> [] \<and> hd s1 = CHR ''-'');
         s2 = (if s1 \<noteq> [] \<and> (hd s1 = CHR ''-'' \<or> hd s1 = CHR ''+'') then tl s1 else s1);
         ds = takeWhile isdigit s2
     in if ds = [] then Inl InvalidArgument
        else Inr (if neg then - digits_value ds else digits_value ds))"

definition digit_char :: "nat \<Rightarrow> char" where "digit_char d = char_of (48 + d)"

text \<open>The last \<open>w\<close> decimal digits of a number, most significant first.\<close>

fun fixed_digits :: "nat \<Rightarrow> nat \<Rightarrow> string" where
  "fixed_digits 0 v = []"
| "fixed_digits (Suc w) v = fixed_digits w (v div 10) @ [digit_char (v mod 10)]"

fun dec_len :: "nat \<Rightarrow> nat" where
  "dec_len v = (if v < 10 then 1 else Suc (dec_len (v div 10)))"

declare dec_len.simps [simp del]

text \<open>\<open>snprintf\<close> with the conversion \<open>%0wd\<close>.\<close>

definition fmt0 :: "nat \<Rightarrow> int \<Rightarrow> string" where
  "fmt0 w v = (if v < 0 then CHR ''-'' # fixed_digits (max (w - 1) (dec_len (nat (- v)))) (nat (- v))
               else fixed_digits (max w (dec_len (nat v))) (nat v))"

lemma length_fixed_digits [simp]: "length (fixed_digits w v) = w"
  by (induction w arbitrary: v) simp_all

lemma of_char_digit [simp]: "d < 10 \<Longrightarrow> (of_char (digit_char d) :: nat) = 48 + d"
  by (simp add: digit_char_def)

lemma digit_value_digit [simp]: "d < 10 \<Longrightarrow> digit_value (digit_char d) = int d"
  by (simp add: digit_value_def)

lemma isdigit_fixed: "\<forall>c \<in> set (fixed_digits w v). isdigit c"
  by (induction w arbitrary: v) (auto simp: isdigit_def)

lemma digits_value_snoc [simp]: "digits_value (ds @ [c]) = digits_value ds * 10 + digit_value c"
  by (simp add: digits_value_def)

lemma digits_value_fixed: "v < 10 ^ w \<Longrightarrow> digits_value (fixed_digits w v) = int v"
proof (induction w arbitrary: v)
  case (Suc w)
  then have "digits_value (fixed_digits w (v div 10)) = int (v div 10)"
    by (intro Suc.IH) (simp add: less_mult_imp_div_less mult.commute)
  then show ?case
    using div_mult_mod_eq [of "int v" 10] by (simp add: zdiv_int zmod_int)
qed (simp add: digits_value_def)

lemma dec_len_le: "v < 10 ^ w \<Longrightarrow> 0 < w \<Longrightarrow> dec_len v \<le> w"
proof (induction v arbitrary: w rule: dec_len.induct)
  case (1 v)
  show ?case
  proof (cases "v < 10")
    case True
    with 1 show ?thesis by (simp add: dec_len.simps)
  next
    case False
    then obtain w' where w: "w = Suc w'" "0 < w'"
      using 1 by (cases w; cases "w - 1") auto
    then have "v div 10 < 10 ^ w'" using 1 by (simp add: less_mult_imp_div_less mult.commute)
    with 1 False w show ?thesis by (subst dec_len.simps) simp
  qed
qed

lemma fmt0_fixed: "0 \<le> v \<Longrightarrow> v < 10 ^ w \<Longrightarrow> 0 < w \<Longrightarrow> fmt0 w v = fixed_digits w (nat v)"
proof -
  assume v: "0 \<le> v" "v < 10 ^ w" "0 < w"
  have "nat v < 10 ^ w" using v(1,2) by (simp add: nat_less_iff)
  then have "dec_len (nat v) \<le> w" using v(3) by (rule dec_len_le)
  then show ?thesis using v(1) by (simp add: fmt0_def max_def)
qed

lemma not_digit_chars [simp]: "isdigit c \<Longrightarrow> \<not> isspace c" "isdigit c \<Longrightarrow> c \<noteq> CHR ''-''"
  "isdigit c \<Longrightarrow> c \<noteq> CHR ''+''"
  by (auto simp: isdigit_def isspace_def)

lemma stoi_digits: "ds \<noteq> [] \<Longrightarrow> \<forall>c \<in> set ds. isdigit c \<Longrightarrow> stoi ds = Inr (digits_value ds)"
proof -
  assume ds: "ds \<noteq> []" "\<forall>c \<in> set ds. isdigit c"
  then have h: "isdigit (hd ds)" by simp
  have dw: "dropWhile isspace ds = ds" using ds(1) h by (cases ds) simp_all
  have tw: "takeWhile isdigit ds = ds" using ds(2) by simp
  show ?thesis using ds(1) h by (simp add: stoi_def Let_def dw tw)
qed

lemma stoi_fmt0: "0 \<le> v \<Longrightarrow> v < 10 ^ w \<Longrightarrow> 0 < w \<Longrightarrow> stoi (fmt0 w v) = Inr v"
proof -
  assume v: "0 \<le> v" "v < 10 ^ w" "0 < w"
  have "nat v < 10 ^ w" using v(1,2) by (simp add: nat_less_iff)
  moreover have "fixed_digits w (nat v) \<noteq> []" using v(3) by (metis length_fixed_digits length_0_conv less_irrefl)
  ultimately show ?thesis
    using v stoi_digits [OF _ isdigit_fixed, of w "nat v"] by (simp add: fmt0_fixed digits_value_fixed)
qed

lemma fmt0_2:
  assumes "0 \<le> v" "v < 100"
  shows "\<exists>a b. fmt0 2 v = [a, b] \<and> isdigit a \<and> isdigit b \<and> stoi [a, b] = Inr v"
proof -
  have f: "fmt0 2 v = fixed_digits 2 (nat v)" using assms by (intro fmt0_fixed) simp_all
  have "length (fmt0 2 v) = Suc (Suc 0)" unfolding f by simp
  then obtain a b where ab: "fmt0 2 v = [a, b]" by (auto simp: length_Suc_conv)
  then show ?thesis
    using isdigit_fixed [of 2 "nat v"] stoi_fmt0 [of v 2] assms f by auto
qed

lemma fmt0_4:
  assumes "0 \<le> v" "v < 10000"
  shows "\<exists>a b c d. fmt0 4 v = [a, b, c, d] \<and> isdigit a \<and> isdigit b \<and> isdigit c \<and> isdigit d
    \<and> stoi [a, b, c, d] = Inr v"
proof -
  have f: "fmt0 4 v = fixed_digits 4 (nat v)" using assms by (intro fmt0_fixed) simp_all
  have "length (fmt0 4 v) = Suc (Suc (Suc (Suc 0)))" unfolding f by simp
  then obtain a b c d where abcd: "fmt0 4 v = [a, b, c, d]"
    by (auto simp: length_Suc_conv)
  then show ?thesis
    using isdigit_fixed [of 4 "nat v"] stoi_fmt0 [of v 4] assms f by auto
qed

lemma digits_value_bounds:
  "list_all isdigit ds \<Longrightarrow> 0 \<le> digits_value ds \<and> digits_value ds < 10 ^ length ds"
proof (induction ds rule: rev_induct)
  case (snoc c ds)
  then have "0 \<le> digit_value c" "digit_value c \<le> 9" by (auto simp: isdigit_def digit_value_def)
  with snoc show ?case by simp
qed (simp add: digits_value_def)

lemma dec_len_bound: "v < 10 ^ dec_len v"
proof (induction v rule: dec_len.induct)
  case (1 v)
  show ?case
  proof (cases "v < 10")
    case True
    then show ?thesis by (simp add: dec_len.simps [of v])
  next
    case False
    with 1 have "v div 10 < 10 ^ dec_len (v div 10)" by simp
    then have "v < 10 ^ Suc (dec_len (v div 10))" by (simp add: div_less_iff_less_mult mult.commute)
    then show ?thesis using False by (simp add: dec_len.simps [of v])
  qed
qed

lemma fmt0_digits:
  assumes "0 \<le> v"
  shows "fmt0 1 v \<noteq> []" "\<forall>c \<in> set (fmt0 1 v). isdigit c" "digits_value (fmt0 1 v) = v"
proof -
  have e: "fmt0 1 v = fixed_digits (max 1 (dec_len (nat v))) (nat v)" using assms by (simp add: fmt0_def)
  have "0 < max 1 (dec_len (nat v))" by simp
  then show "fmt0 1 v \<noteq> []" unfolding e by (metis length_fixed_digits length_greater_0_conv)
  show "\<forall>c \<in> set (fmt0 1 v). isdigit c" unfolding e by (rule isdigit_fixed)
  have "nat v < 10 ^ max 1 (dec_len (nat v))"
    using dec_len_bound [of "nat v"] by (rule less_le_trans) (simp add: power_increasing)
  then show "digits_value (fmt0 1 v) = v" unfolding e using assms by (simp add: digits_value_fixed)
qed

text \<open>\<open>std::to_string\<close> of a signed integer.\<close>

definition std_to_string :: "int \<Rightarrow> string" where
  "std_to_string v = (if v < 0 then CHR ''-'' # fmt0 1 (- v) else fmt0 1 v)"

lemma std_to_string_chars: "c \<in> set (std_to_string v) \<Longrightarrow> isdigit c \<or> c = CHR ''-''"
  using fmt0_digits(2) [of v] fmt0_digits(2) [of "- v"] by (auto simp: std_to_string_def split: if_splits)

end
