(* ===== verification/Schedule.thy ===== *)
theory Schedule
  imports Json Timeline DvbTime
begin

text \<open>
  The schedule entries of \<open>core/ScheduleEntry.h\<close> and \<open>core/ScheduleEntry.cpp\<close>: the records, the
  reading of an entry from JSON with each of its rejections, and the writing back. An exception is
  an \<open>exn\<close>; the text of its message is not modelled. \<open>timegm\<close> and \<open>gmtime_r\<close> of the C library are
  the civil calendar proved correct in \<open>DvbTime\<close>; nanoseconds are 64-bit and wrap.

  The main result is that what \<open>serializeEntry\<close> writes is read back as the same entry, for every
  well-formed entry, and that every entry \<open>parseEntry\<close> accepts is well-formed unless one of its two
  instants does not fit 64 bits.
\<close>

datatype RecurrenceKind = Once | Daily | Weekly | Monthly

datatype LoopMode = Loop | PlayOnceThenIdle

record TimeOfDay =
  hours :: int
  minutes :: int

definition seconds_since_midnight :: "TimeOfDay \<Rightarrow> int" where
  "seconds_since_midnight t = hours t * 3600 + minutes t * 60"

datatype DateOnly = DateOnly (dt_year: int) (dt_month: int) (dt_day: int)

definition date_le :: "DateOnly \<Rightarrow> DateOnly \<Rightarrow> bool" where
  "date_le a b =
    (if dt_year a \<noteq> dt_year b then dt_year a < dt_year b
     else if dt_month a \<noteq> dt_month b then dt_month a < dt_month b
     else dt_day a \<le> dt_day b)"

text \<open>The comparison operator of the code is a linear order.\<close>

instantiation DateOnly :: linorder
begin

definition less_eq_DateOnly :: "DateOnly \<Rightarrow> DateOnly \<Rightarrow> bool" where
  "less_eq_DateOnly a b = date_le a b"

definition less_DateOnly :: "DateOnly \<Rightarrow> DateOnly \<Rightarrow> bool" where
  "less_DateOnly a b = (date_le a b \<and> \<not> date_le b a)"

instance
  by standard
    (auto simp: less_eq_DateOnly_def less_DateOnly_def date_le_def DateOnly.expand split: if_splits)

end

record Recurrence =
  kind :: RecurrenceKind
  start_at_ns :: int
  end_at_ns :: int
  start_time :: TimeOfDay
  end_time :: TimeOfDay
  days_of_week :: "int list"
  days_of_month :: "int list"

record ScheduleEntry =
  entry_id :: string
  playlist :: "string list"
  transition :: TransitionConfig
  recurrence :: Recurrence
  effective_from :: "DateOnly option"
  effective_to :: "DateOnly option"
  entry_priority :: int
  loop_mode :: LoopMode
  hard_switch :: bool

definition default_transition :: TransitionConfig where
  "default_transition = \<lparr>tr_type = CrossFade, tr_mode = FreezeFade, tr_duration = 2, tr_easing = Linear\<rparr>"

definition default_recurrence :: Recurrence where
  "default_recurrence = \<lparr>kind = Once, start_at_ns = 0, end_at_ns = 0,
     start_time = \<lparr>hours = 0, minutes = 0\<rparr>, end_time = \<lparr>hours = 0, minutes = 0\<rparr>,
     days_of_week = [], days_of_month = []\<rparr>"

subsection \<open>Names\<close>

definition isDigits :: "string \<Rightarrow> bool" where
  "isDigits s = (s \<noteq> [] \<and> list_all isdigit s)"

definition parseTransitionType :: "string \<Rightarrow> TransitionType result" where
  "parseTransitionType s =
    (if s = ''crossfade'' then Inr CrossFade
     else if s = ''wipe_left'' then Inr WipeLeft
     else if s = ''wipe_right'' then Inr WipeRight
     else if s = ''wipe_up'' then Inr WipeUp
     else if s = ''wipe_down'' then Inr WipeDown
     else if s = ''push_left'' then Inr PushLeft
     else if s = ''push_right'' then Inr PushRight
     else if s = ''push_up'' then Inr PushUp
     else if s = ''push_down'' then Inr PushDown
     else if s = ''dissolve'' then Inr Dissolve
     else if s = ''fade_black'' \<or> s = ''fade_to_black'' then Inr FadeToBlack
     else if s = ''hardcut'' \<or> s = ''hard_cut'' then Inr TypeHardCut
     else Inl InvalidArgument)"

definition parseTransitionMode :: "string \<Rightarrow> TransitionMode result" where
  "parseTransitionMode s =
    (if s = ''hardcut'' \<or> s = ''hard_cut'' then Inr ModeHardCut
     else if s = ''live_mix'' \<or> s = ''live'' then Inr LiveMix
     else if s = ''freeze_fade'' then Inr FreezeFade
     else Inl InvalidArgument)"

fun transitionTypeName :: "TransitionType \<Rightarrow> string" where
  "transitionTypeName CrossFade = ''crossfade''"
| "transitionTypeName WipeLeft = ''wipe_left''"
| "transitionTypeName WipeRight = ''wipe_right''"
| "transitionTypeName WipeUp = ''wipe_up''"
| "transitionTypeName WipeDown = ''wipe_down''"
| "transitionTypeName PushLeft = ''push_left''"
| "transitionTypeName PushRight = ''push_right''"
| "transitionTypeName PushUp = ''push_up''"
| "transitionTypeName PushDown = ''push_down''"
| "transitionTypeName Dissolve = ''dissolve''"
| "transitionTypeName FadeToBlack = ''fade_black''"
| "transitionTypeName TypeHardCut = ''hardcut''"

definition parseEasing :: "string \<Rightarrow> Easing result" where
  "parseEasing s =
    (if s = ''linear'' then Inr Linear
     else if s = ''ease_in'' then Inr EaseIn
     else if s = ''ease_out'' then Inr EaseOut
     else if s = ''ease_in_out'' then Inr EaseInOut
     else Inl InvalidArgument)"

fun easingName :: "Easing \<Rightarrow> string" where
  "easingName Linear = ''linear''"
| "easingName EaseIn = ''ease_in''"
| "easingName EaseOut = ''ease_out''"
| "easingName EaseInOut = ''ease_in_out''"

fun transitionModeName :: "TransitionMode \<Rightarrow> string" where
  "transitionModeName ModeHardCut = ''hard_cut''"
| "transitionModeName FreezeFade = ''freeze_fade''"
| "transitionModeName LiveMix = ''live_mix''"

definition parseLoopMode :: "string \<Rightarrow> LoopMode result" where
  "parseLoopMode s =
    (if s = ''loop'' then Inr Loop
     else if s = ''play_once_then_idle'' then Inr PlayOnceThenIdle
     else Inl InvalidArgument)"

definition loopModeName :: "LoopMode \<Rightarrow> string" where
  "loopModeName m = (if m = Loop then ''loop'' else ''play_once_then_idle'')"

definition parseRecurrenceKind :: "string \<Rightarrow> RecurrenceKind result" where
  "parseRecurrenceKind s =
    (if s = ''once'' then Inr Once
     else if s = ''daily'' then Inr Daily
     else if s = ''weekly'' then Inr Weekly
     else if s = ''monthly'' then Inr Monthly
     else Inl InvalidArgument)"

fun recurrenceKindName :: "RecurrenceKind \<Rightarrow> string" where
  "recurrenceKindName Once = ''once''"
| "recurrenceKindName Daily = ''daily''"
| "recurrenceKindName Weekly = ''weekly''"
| "recurrenceKindName Monthly = ''monthly''"

subsection \<open>Times and dates\<close>

definition substr :: "string \<Rightarrow> nat \<Rightarrow> nat \<Rightarrow> string" where
  "substr s i n = take n (drop i s)"

definition parseTimeOfDay :: "string \<Rightarrow> TimeOfDay result" where
  "parseTimeOfDay hhmm =
    (if length hhmm \<noteq> 5 \<or> hhmm ! 2 \<noteq> CHR '':'' then Inl InvalidArgument
     else let h = substr hhmm 0 2; m = substr hhmm 3 2 in
       if \<not> isDigits h \<or> \<not> isDigits m then Inl InvalidArgument
       else bindE (stoi h) (\<lambda>hv. bindE (stoi m) (\<lambda>mv.
         if hv < 0 \<or> hv > 23 \<or> mv < 0 \<or> mv > 59 then Inl InvalidArgument
         else Inr \<lparr>hours = hv, minutes = mv\<rparr>)))"

definition parseDateOnly :: "string \<Rightarrow> DateOnly result" where
  "parseDateOnly isos =
    (if length isos \<noteq> 10 \<or> isos ! 4 \<noteq> CHR ''-'' \<or> isos ! 7 \<noteq> CHR ''-'' then Inl InvalidArgument
     else let y = substr isos 0 4; m = substr isos 5 2; d = substr isos 8 2 in
       if \<not> isDigits y \<or> \<not> isDigits m \<or> \<not> isDigits d then Inl InvalidArgument
       else bindE (stoi y) (\<lambda>yv. bindE (stoi m) (\<lambda>mv. bindE (stoi d) (\<lambda>dv.
         if mv < 1 \<or> mv > 12 \<or> dv < 1 \<or> dv > 31 then Inl InvalidArgument
         else Inr (DateOnly yv mv dv)))))"

text \<open>\<open>timegm\<close> normalises a day past the end of its month into the next one.\<close>

definition timegm :: "int \<Rightarrow> int \<Rightarrow> int \<Rightarrow> int \<Rightarrow> int \<Rightarrow> int \<Rightarrow> int" where
  "timegm y mon mday hh mi ss =
    (days_from_civil y mon 1 + (mday - 1)) * 86400 + hh * 3600 + mi * 60 + ss"

definition parseIsoUtcNs :: "string \<Rightarrow> int result" where
  "parseIsoUtcNs isos =
    (if length isos < 20 \<or> isos ! 4 \<noteq> CHR ''-'' \<or> isos ! 7 \<noteq> CHR ''-'' \<or> isos ! 10 \<noteq> CHR ''T''
        \<or> isos ! 13 \<noteq> CHR '':'' \<or> isos ! 16 \<noteq> CHR '':'' \<or> (last isos \<noteq> CHR ''Z'' \<and> length isos \<noteq> 20)
     then Inl InvalidArgument
     else bindE (stoi (substr isos 0 4)) (\<lambda>y. bindE (stoi (substr isos 5 2)) (\<lambda>mon.
       bindE (stoi (substr isos 8 2)) (\<lambda>mday. bindE (stoi (substr isos 11 2)) (\<lambda>hh.
       bindE (stoi (substr isos 14 2)) (\<lambda>mi. bindE (stoi (substr isos 17 2)) (\<lambda>ss.
         if mon < 1 \<or> mon > 12 \<or> mday < 1 \<or> mday > 31 \<or> hh < 0 \<or> hh > 23
            \<or> mi < 0 \<or> mi > 59 \<or> ss < 0 \<or> ss > 60
         then Inl InvalidArgument
         else let t = timegm y mon mday hh mi ss in
           if t = - 1 then Inl InvalidArgument else Inr (to_i64 (t * 1000000000)))))))))"

subsection \<open>Reading an entry\<close>

text \<open>The loop over a day list: each item an integer of the range that has not been seen.\<close>

fun parse_days :: "int \<Rightarrow> int list \<Rightarrow> json list \<Rightarrow> int list result" where
  "parse_days hi out [] = Inr out"
| "parse_days hi out (d # ds) =
    (case d of
       JInt i \<Rightarrow>
         let v = to_i32 i in
         if v < 1 \<or> v > hi then Inl InvalidArgument
         else if v \<in> set out then Inl InvalidArgument
         else parse_days hi (out @ [v]) ds
     | _ \<Rightarrow> Inl InvalidArgument)"

definition parse_day_list :: "string \<Rightarrow> int \<Rightarrow> json \<Rightarrow> int list result" where
  "parse_day_list k hi r =
    (case field k r of
       Some (JArr ds) \<Rightarrow> if ds = [] then Inl InvalidArgument
                        else bindE (parse_days hi [] ds) (\<lambda>vs. Inr (sort vs))
     | _ \<Rightarrow> Inl InvalidArgument)"

fun parse_clips :: "json list \<Rightarrow> string list result" where
  "parse_clips [] = Inr []"
| "parse_clips (p # ps) =
    (case p of
       JStr s \<Rightarrow> if s = '''' then Inl InvalidArgument
                else bindE (parse_clips ps) (\<lambda>ss. Inr (s # ss))
     | _ \<Rightarrow> Inl InvalidArgument)"

definition optional_field :: "string \<Rightarrow> json \<Rightarrow> (json \<Rightarrow> 'a result) \<Rightarrow> 'a \<Rightarrow> 'a result" where
  "optional_field k j f dflt = (case field k j of None \<Rightarrow> Inr dflt | Some v \<Rightarrow> f v)"

definition parse_duration :: "json \<Rightarrow> rat result" where
  "parse_duration v =
    (case v of
       JInt i \<Rightarrow> if i < 0 then Inl InvalidArgument else Inr (of_int i)
     | JFloat q \<Rightarrow> if q < 0 then Inl InvalidArgument else Inr q
     | _ \<Rightarrow> Inl InvalidArgument)"

definition parse_transition :: "json \<Rightarrow> TransitionConfig result" where
  "parse_transition t =
    (if \<not> is_object t then Inl InvalidArgument
     else bindE (optional_field ''type'' t (\<lambda>v. bindE (getString v) parseTransitionType) CrossFade) (\<lambda>ty.
       bindE (optional_field ''mode'' t (\<lambda>v. bindE (getString v) parseTransitionMode) FreezeFade) (\<lambda>mo.
       bindE (optional_field ''duration'' t parse_duration 2) (\<lambda>du.
       bindE (optional_field ''easing'' t (\<lambda>v. bindE (getString v) parseEasing) Linear) (\<lambda>ea.
         Inr \<lparr>tr_type = ty, tr_mode = mo, tr_duration = du, tr_easing = ea\<rparr>)))))"

definition parse_once :: "json \<Rightarrow> Recurrence result" where
  "parse_once r =
    (case (field ''start_at'' r, field ''end_at'' r) of
       (Some a, Some b) \<Rightarrow>
         bindE (bindE (getString a) parseIsoUtcNs) (\<lambda>s. bindE (bindE (getString b) parseIsoUtcNs) (\<lambda>e.
           if e \<le> s then Inl InvalidArgument
           else Inr (default_recurrence\<lparr>kind := Once, start_at_ns := s, end_at_ns := e\<rparr>)))
     | _ \<Rightarrow> Inl InvalidArgument)"

definition parse_window :: "RecurrenceKind \<Rightarrow> json \<Rightarrow> Recurrence result" where
  "parse_window k r =
    (case (field ''start_time'' r, field ''end_time'' r) of
       (Some a, Some b) \<Rightarrow>
         bindE (bindE (getString a) parseTimeOfDay) (\<lambda>s. bindE (bindE (getString b) parseTimeOfDay) (\<lambda>e.
           if seconds_since_midnight s \<ge> seconds_since_midnight e then Inl InvalidArgument
           else let w = default_recurrence\<lparr>kind := k, start_time := s, end_time := e\<rparr> in
             if k = Weekly then bindE (parse_day_list ''days_of_week'' 7 r) (\<lambda>ds. Inr (w\<lparr>days_of_week := ds\<rparr>))
             else if k = Monthly then bindE (parse_day_list ''days_of_month'' 31 r) (\<lambda>ds. Inr (w\<lparr>days_of_month := ds\<rparr>))
             else Inr w))
     | _ \<Rightarrow> Inl InvalidArgument)"

definition parse_recurrence :: "json \<Rightarrow> Recurrence result" where
  "parse_recurrence r =
    (case field ''kind'' r of
       Some (JStr s) \<Rightarrow> bindE (parseRecurrenceKind s) (\<lambda>k. if k = Once then parse_once r else parse_window k r)
     | _ \<Rightarrow> Inl InvalidArgument)"

definition parse_priority :: "json \<Rightarrow> int result" where
  "parse_priority v =
    (case v of
       JInt i \<Rightarrow> let p = to_i32 i in if p < 0 \<or> p > 1000 then Inl InvalidArgument else Inr p
     | _ \<Rightarrow> Inl InvalidArgument)"

definition parse_bool :: "json \<Rightarrow> bool result" where
  "parse_bool v = (case v of JBool b \<Rightarrow> Inr b | _ \<Rightarrow> Inl InvalidArgument)"

definition parseEntry :: "json \<Rightarrow> ScheduleEntry result" where
  "parseEntry j =
    (if \<not> is_object j then Inl InvalidArgument else
     bindE (case field ''id'' j of Some (JStr s) \<Rightarrow> if s = '''' then Inl InvalidArgument else Inr s
                                 | _ \<Rightarrow> Inl InvalidArgument) (\<lambda>eid.
     bindE (case field ''playlist'' j of Some (JArr ps) \<Rightarrow> if ps = [] then Inl InvalidArgument else parse_clips ps
                                       | _ \<Rightarrow> Inl InvalidArgument) (\<lambda>pl.
     bindE (optional_field ''transition'' j parse_transition default_transition) (\<lambda>tr.
     bindE (case field ''recurrence'' j of Some r \<Rightarrow> if is_object r then parse_recurrence r else Inl InvalidArgument
                                         | None \<Rightarrow> Inl InvalidArgument) (\<lambda>rc.
     bindE (optional_field ''effective_from'' j (\<lambda>v. bindE (bindE (getString v) parseDateOnly) (\<lambda>d. Inr (Some d))) None) (\<lambda>ef.
     bindE (optional_field ''effective_to'' j (\<lambda>v. bindE (bindE (getString v) parseDateOnly) (\<lambda>d. Inr (Some d))) None) (\<lambda>et.
     if (case (ef, et) of (Some a, Some b) \<Rightarrow> \<not> date_le a b | _ \<Rightarrow> False) then Inl InvalidArgument else
     bindE (optional_field ''priority'' j parse_priority 100) (\<lambda>pr.
     bindE (optional_field ''loop_mode'' j (\<lambda>v. bindE (getString v) parseLoopMode) Loop) (\<lambda>lm.
     bindE (optional_field ''hard_switch'' j parse_bool False) (\<lambda>hs.
       Inr \<lparr>entry_id = eid, playlist = pl, transition = tr, recurrence = rc, effective_from = ef,
            effective_to = et, entry_priority = pr, loop_mode = lm, hard_switch = hs\<rparr>))))))))))"

fun parse_entries :: "string list \<Rightarrow> json list \<Rightarrow> ScheduleEntry list result" where
  "parse_entries ids [] = Inr []"
| "parse_entries ids (j # js) =
    bindE (parseEntry j) (\<lambda>e.
      if entry_id e \<in> set ids then Inl InvalidArgument
      else bindE (parse_entries (entry_id e # ids) js) (\<lambda>es. Inr (e # es)))"

definition parseSchedule :: "json \<Rightarrow> ScheduleEntry list result" where
  "parseSchedule arr = (case arr of JArr js \<Rightarrow> parse_entries [] js | _ \<Rightarrow> Inl InvalidArgument)"

subsection \<open>Writing an entry\<close>

definition fmtIso :: "int \<Rightarrow> string" where
  "fmtIso unix_ns =
    (let t = tdiv unix_ns 1000000000; (y, mon, d) = daysToCivil (t div 86400); tod = t mod 86400 in
     fmt0 4 y @ ''-'' @ fmt0 2 mon @ ''-'' @ fmt0 2 d @ ''T'' @ fmt0 2 (tod div 3600) @ '':''
       @ fmt0 2 (tod div 60 mod 60) @ '':'' @ fmt0 2 (tod mod 60) @ ''Z'')"

text \<open>The buffer of six characters keeps at most five.\<close>

definition fmtTime :: "TimeOfDay \<Rightarrow> string" where
  "fmtTime t = take 5 (fmt0 2 (hours t) @ '':'' @ fmt0 2 (minutes t))"

definition fmtDate :: "DateOnly \<Rightarrow> string" where
  "fmtDate d = take 10 (fmt0 4 (dt_year d) @ ''-'' @ fmt0 2 (dt_month d) @ ''-'' @ fmt0 2 (dt_day d))"

definition serialize_recurrence :: "Recurrence \<Rightarrow> json" where
  "serialize_recurrence r =
    JObj ([(''kind'', JStr (recurrenceKindName (kind r)))] @
      (if kind r = Once
       then [(''start_at'', JStr (fmtIso (start_at_ns r))), (''end_at'', JStr (fmtIso (end_at_ns r)))]
       else [(''start_time'', JStr (fmtTime (start_time r))), (''end_time'', JStr (fmtTime (end_time r)))]
         @ (if kind r = Weekly then [(''days_of_week'', JArr (map JInt (days_of_week r)))] else [])
         @ (if kind r = Monthly then [(''days_of_month'', JArr (map JInt (days_of_month r)))] else [])))"

definition serialize_transition :: "TransitionConfig \<Rightarrow> json" where
  "serialize_transition t =
    JObj [(''type'', JStr (transitionTypeName (tr_type t))), (''mode'', JStr (transitionModeName (tr_mode t))),
          (''duration'', JFloat (tr_duration t)), (''easing'', JStr (easingName (tr_easing t)))]"

definition serializeEntry :: "ScheduleEntry \<Rightarrow> json" where
  "serializeEntry e =
    JObj ([(''id'', JStr (entry_id e)), (''playlist'', JArr (map JStr (playlist e))),
           (''transition'', serialize_transition (transition e)),
           (''recurrence'', serialize_recurrence (recurrence e))]
      @ (case effective_from e of None \<Rightarrow> [] | Some d \<Rightarrow> [(''effective_from'', JStr (fmtDate d))])
      @ (case effective_to e of None \<Rightarrow> [] | Some d \<Rightarrow> [(''effective_to'', JStr (fmtDate d))])
      @ [(''priority'', JInt (entry_priority e)), (''loop_mode'', JStr (loopModeName (loop_mode e))),
         (''hard_switch'', JBool (hard_switch e))])"

definition serializeSchedule :: "ScheduleEntry list \<Rightarrow> json" where
  "serializeSchedule es = JArr (map serializeEntry es)"

subsection \<open>Names are read back\<close>

lemma parseTransitionType_Name [simp]: "parseTransitionType (transitionTypeName t) = Inr t"
  by (cases t) (simp_all add: parseTransitionType_def)

lemma parseTransitionMode_Name [simp]: "parseTransitionMode (transitionModeName t) = Inr t"
  by (cases t) (simp_all add: parseTransitionMode_def)

lemma parseEasing_Name [simp]: "parseEasing (easingName t) = Inr t"
  by (cases t) (simp_all add: parseEasing_def)

lemma parseLoopMode_Name [simp]: "parseLoopMode (loopModeName t) = Inr t"
  by (cases t) (simp_all add: parseLoopMode_def loopModeName_def)

lemma parseRecurrenceKind_Name [simp]: "parseRecurrenceKind (recurrenceKindName t) = Inr t"
  by (cases t) (simp_all add: parseRecurrenceKind_def)

subsection \<open>Times and dates are read back\<close>

definition wf_time :: "TimeOfDay \<Rightarrow> bool" where
  "wf_time t = (0 \<le> hours t \<and> hours t \<le> 23 \<and> 0 \<le> minutes t \<and> minutes t \<le> 59)"

definition wf_date :: "DateOnly \<Rightarrow> bool" where
  "wf_date d = (0 \<le> dt_year d \<and> dt_year d \<le> 9999 \<and> 1 \<le> dt_month d \<and> dt_month d \<le> 12
     \<and> 1 \<le> dt_day d \<and> dt_day d \<le> 31)"

text \<open>A whole second that fits 64 bits of nanoseconds, other than the one \<open>timegm\<close> reports errors with.\<close>

definition wf_instant :: "int \<Rightarrow> bool" where
  "wf_instant ns = (1000000000 dvd ns \<and> ns \<noteq> - 1000000000 \<and> - (2 ^ 63) \<le> ns \<and> ns < 2 ^ 63)"

lemma parse_fmtTime: "wf_time t \<Longrightarrow> parseTimeOfDay (fmtTime t) = Inr t"
proof -
  assume t: "wf_time t"
  obtain a b where h: "fmt0 2 (hours t) = [a, b]" "isdigit a" "isdigit b" "stoi [a, b] = Inr (hours t)"
    using fmt0_2 [of "hours t"] t by (auto simp: wf_time_def)
  obtain c d where m: "fmt0 2 (minutes t) = [c, d]" "isdigit c" "isdigit d" "stoi [c, d] = Inr (minutes t)"
    using fmt0_2 [of "minutes t"] t by (auto simp: wf_time_def)
  have "fmtTime t = [a, b, CHR '':'', c, d]" by (simp add: fmtTime_def h m)
  then show ?thesis
    using h m t by (simp add: parseTimeOfDay_def substr_def isDigits_def wf_time_def)
qed

lemma parse_fmtDate: "wf_date d \<Longrightarrow> parseDateOnly (fmtDate d) = Inr d"
proof -
  assume d: "wf_date d"
  obtain a b c e where y: "fmt0 4 (dt_year d) = [a, b, c, e]" "isdigit a" "isdigit b" "isdigit c" "isdigit e"
    "stoi [a, b, c, e] = Inr (dt_year d)"
    using fmt0_4 [of "dt_year d"] d unfolding wf_date_def by auto
  obtain f g where m: "fmt0 2 (dt_month d) = [f, g]" "isdigit f" "isdigit g" "stoi [f, g] = Inr (dt_month d)"
    using fmt0_2 [of "dt_month d"] d by (auto simp: wf_date_def)
  obtain p q where dd: "fmt0 2 (dt_day d) = [p, q]" "isdigit p" "isdigit q" "stoi [p, q] = Inr (dt_day d)"
    using fmt0_2 [of "dt_day d"] d by (auto simp: wf_date_def)
  have "fmtDate d = [a, b, c, e, CHR ''-'', f, g, CHR ''-'', p, q]" by (simp add: fmtDate_def y m dd)
  then show ?thesis
    using y m dd d by (simp add: parseDateOnly_def substr_def isDigits_def wf_date_def)
qed

lemma civil_year_range:
  assumes "daysToCivil days = (y, m, d)" "- 200000 \<le> days" "days \<le> 200000"
  shows "1000 \<le> y \<and> y \<le> 3000 \<and> 1 \<le> m \<and> m \<le> 12 \<and> 1 \<le> d \<and> d \<le> 31"
proof -
  obtain era yoe doy where p:
    "days + 719468 = era * 146097 + (year_start yoe + doy)" "0 \<le> yoe" "yoe \<le> 399" "0 \<le> doy" "doy \<le> 365"
    "y - of_bool (m \<le> 2) = yoe + era * 400" "1 \<le> m" "m \<le> 12" "1 \<le> d" "d \<le> 31"
    using daysToCivil_parts [OF assms(1)] by metis
  have "0 \<le> year_start yoe" "year_start yoe \<le> 146000" using p(2,3) by (simp_all add: year_start_def)
  then have "3 \<le> era" "era \<le> 6" using p assms(2,3) by linarith+
  moreover have "(0::int) \<le> of_bool (m \<le> 2) \<and> of_bool (m \<le> 2) \<le> (1::int)" by simp
  ultimately show ?thesis using p by linarith
qed

lemma timegm_civil:
  "daysToCivil days = (y, m, d) \<Longrightarrow> timegm y m d hh mi ss = days * 86400 + hh * 3600 + mi * 60 + ss"
  using days_from_daysToCivil [of days y m d]
  by (simp add: timegm_def days_from_civil_def doy_of_def Let_def)

lemma second_parts:
  fixes tod :: int
  assumes "0 \<le> tod" "tod < 86400"
  shows "0 \<le> tod div 3600" "tod div 3600 \<le> 23" "tod div 60 mod 60 \<le> 59" "tod mod 60 \<le> 59"
    "\<not> tod div 60 mod 60 < 0" "\<not> tod mod 60 < 0"
    "tod div 3600 * 3600 + tod div 60 mod 60 * 60 + tod mod 60 = tod"
proof -
  show "\<not> tod div 60 mod 60 < 0" "\<not> tod mod 60 < 0" by simp_all
  show "0 \<le> tod div 3600" "tod div 3600 \<le> 23" using assms by simp_all
  show "tod div 60 mod 60 \<le> 59" "tod mod 60 \<le> 59"
    using pos_mod_bound [of 60 "tod div 60"] pos_mod_bound [of 60 tod] by linarith+
  have "tod div 3600 = tod div 60 div 60" by (simp flip: zdiv_zmult2_eq)
  then show "tod div 3600 * 3600 + tod div 60 mod 60 * 60 + tod mod 60 = tod"
    using div_mult_mod_eq [of tod 60] div_mult_mod_eq [of "tod div 60" 60] by linarith
qed

lemma parse_fmtIso:
  assumes "wf_instant ns"
  shows "parseIsoUtcNs (fmtIso ns) = Inr ns"
proof -
  obtain t where ns: "ns = t * 1000000000" using assms by (auto simp: wf_instant_def dvd_def)
  have t: "- 9223372037 \<le> t" "t \<le> 9223372036" "t \<noteq> - 1"
    using assms by (auto simp: wf_instant_def ns)
  have td: "tdiv ns 1000000000 = t" using nonzero_mult_div_cancel_right [of "1000000000 :: int" "- t"] by (simp add: ns tdiv_def)
  define days tod where "days = t div 86400" and "tod = t mod 86400"
  have tod: "0 \<le> tod" "tod < 86400" by (simp_all add: tod_def)
  have split: "t = days * 86400 + tod" by (simp add: days_def tod_def)
  have "- 200000 \<le> days" "days \<le> 200000" using t tod split by linarith+
  then obtain y m d where civ: "daysToCivil days = (y, m, d)"
    and r: "1000 \<le> y \<and> y \<le> 3000 \<and> 1 \<le> m \<and> m \<le> 12 \<and> 1 \<le> d \<and> d \<le> 31"
    using civil_year_range by (metis prod_cases3)
  note sp = second_parts [OF tod]
  obtain y1 y2 y3 y4 where fy: "fmt0 4 y = [y1, y2, y3, y4]" "stoi [y1, y2, y3, y4] = Inr y"
    using fmt0_4 [of y] r by auto
  obtain m1 m2 where fm: "fmt0 2 m = [m1, m2]" "stoi [m1, m2] = Inr m" using fmt0_2 [of m] r by auto
  obtain d1 d2 where fd: "fmt0 2 d = [d1, d2]" "stoi [d1, d2] = Inr d" using fmt0_2 [of d] r by auto
  obtain h1 h2 where fh: "fmt0 2 (tod div 3600) = [h1, h2]" "stoi [h1, h2] = Inr (tod div 3600)"
    using fmt0_2 [of "tod div 3600"] sp by auto
  obtain i1 i2 where fi: "fmt0 2 (tod div 60 mod 60) = [i1, i2]" "stoi [i1, i2] = Inr (tod div 60 mod 60)"
    using fmt0_2 [of "tod div 60 mod 60"] sp by auto
  obtain s1 s2 where fs: "fmt0 2 (tod mod 60) = [s1, s2]" "stoi [s1, s2] = Inr (tod mod 60)"
    using fmt0_2 [of "tod mod 60"] sp by auto
  have str: "fmtIso ns = [y1, y2, y3, y4, CHR ''-'', m1, m2, CHR ''-'', d1, d2, CHR ''T'', h1, h2,
      CHR '':'', i1, i2, CHR '':'', s1, s2, CHR ''Z'']"
    by (simp add: fmtIso_def Let_def td civ fy fm fd fh fi fs flip: days_def tod_def)
  have "timegm y m d (tod div 3600) (tod div 60 mod 60) (tod mod 60) = t"
    using timegm_civil [OF civ] sp(7) split by simp
  moreover have "to_i64 ns = ns" using assms by (simp add: wf_instant_def)
  ultimately show ?thesis
    unfolding str using fy fm fd fh fi fs r sp t
    by (simp add: parseIsoUtcNs_def substr_def Let_def flip: ns)
qed

subsection \<open>Entries are read back\<close>

definition wf_days :: "int \<Rightarrow> int list \<Rightarrow> bool" where
  "wf_days hi ds = (ds \<noteq> [] \<and> distinct ds \<and> sorted ds \<and> list_all (\<lambda>d. 1 \<le> d \<and> d \<le> hi) ds)"

definition wf_recurrence :: "Recurrence \<Rightarrow> bool" where
  "wf_recurrence r =
    (if kind r = Once
     then wf_instant (start_at_ns r) \<and> wf_instant (end_at_ns r) \<and> start_at_ns r < end_at_ns r
       \<and> r = default_recurrence\<lparr>kind := Once, start_at_ns := start_at_ns r, end_at_ns := end_at_ns r\<rparr>
     else wf_time (start_time r) \<and> wf_time (end_time r)
       \<and> seconds_since_midnight (start_time r) < seconds_since_midnight (end_time r)
       \<and> start_at_ns r = 0 \<and> end_at_ns r = 0
       \<and> (if kind r = Weekly then wf_days 7 (days_of_week r) else days_of_week r = [])
       \<and> (if kind r = Monthly then wf_days 31 (days_of_month r) else days_of_month r = []))"

definition wf_entry :: "ScheduleEntry \<Rightarrow> bool" where
  "wf_entry e =
    (entry_id e \<noteq> '''' \<and> playlist e \<noteq> [] \<and> list_all (\<lambda>p. p \<noteq> '''') (playlist e)
     \<and> 0 \<le> tr_duration (transition e) \<and> wf_recurrence (recurrence e)
     \<and> pred_option wf_date (effective_from e) \<and> pred_option wf_date (effective_to e)
     \<and> (case (effective_from e, effective_to e) of (Some a, Some b) \<Rightarrow> date_le a b | _ \<Rightarrow> True)
     \<and> 0 \<le> entry_priority e \<and> entry_priority e \<le> 1000)"

lemma parse_days_list:
  "distinct (out @ ds) \<Longrightarrow> list_all (\<lambda>d. 1 \<le> d \<and> d \<le> hi) ds \<Longrightarrow> hi \<le> 31
    \<Longrightarrow> parse_days hi out (map JInt ds) = Inr (out @ ds)"
proof (induction ds arbitrary: out)
  case (Cons d ds)
  then have "to_i32 d = d" by simp
  with Cons show ?case by (simp add: Let_def)
qed simp

lemma parse_days_ok:
  "parse_days hi out js = Inr ds \<Longrightarrow> distinct out \<Longrightarrow> list_all (\<lambda>d. 1 \<le> d \<and> d \<le> hi) out
    \<Longrightarrow> distinct ds \<and> list_all (\<lambda>d. 1 \<le> d \<and> d \<le> hi) ds \<and> length ds = length out + length js"
proof (induction js arbitrary: out)
  case (Cons j js)
  then show ?case
    by (fastforce simp: Let_def split: json.splits if_splits dest!: Cons.IH)
qed simp

lemma parse_day_list_ok:
  assumes "parse_day_list k hi r = Inr ds"
  shows "wf_days hi ds"
proof -
  obtain js vs where js: "js \<noteq> []" "parse_days hi [] js = Inr vs" "ds = sort vs"
    using assms by (auto simp: parse_day_list_def bindE_Inr_iff split: option.splits json.splits if_splits)
  then have "distinct vs \<and> list_all (\<lambda>d. 1 \<le> d \<and> d \<le> hi) vs \<and> length vs = length js"
    using parse_days_ok [OF js(2)] by simp
  moreover have "sort vs \<noteq> []" using calculation js by (metis length_0_conv length_sort)
  ultimately show ?thesis using js by (simp add: wf_days_def list_all_iff)
qed

lemma parse_day_list_back:
  "wf_days hi ds \<Longrightarrow> hi \<le> 31 \<Longrightarrow> field k r = Some (JArr (map JInt ds)) \<Longrightarrow> parse_day_list k hi r = Inr ds"
  by (simp add: parse_day_list_def wf_days_def parse_days_list sorted_sort_id)

lemma parse_clips_back: "list_all (\<lambda>p. p \<noteq> '''') ps \<Longrightarrow> parse_clips (map JStr ps) = Inr ps"
  by (induction ps) simp_all

lemma parse_clips_ok: "parse_clips js = Inr ps \<Longrightarrow> list_all (\<lambda>p. p \<noteq> '''') ps \<and> length ps = length js"
  by (induction js arbitrary: ps) (auto simp: bindE_Inr_iff split: json.splits if_splits)

lemma parse_transition_back: "0 \<le> tr_duration t \<Longrightarrow> parse_transition (serialize_transition t) = Inr t"
  by (simp add: parse_transition_def serialize_transition_def optional_field_def parse_duration_def)

lemma parse_recurrence_back:
  assumes "wf_recurrence r"
  shows "parse_recurrence (serialize_recurrence r) = Inr r"
proof (cases "kind r")
  case Once
  then have w: "wf_instant (start_at_ns r)" "wf_instant (end_at_ns r)" "start_at_ns r < end_at_ns r"
    and r: "r = default_recurrence\<lparr>kind := Once, start_at_ns := start_at_ns r, end_at_ns := end_at_ns r\<rparr>"
    using assms by (simp_all add: wf_recurrence_def)
  have "serialize_recurrence r = JObj [(''kind'', JStr ''once''),
      (''start_at'', JStr (fmtIso (start_at_ns r))), (''end_at'', JStr (fmtIso (end_at_ns r)))]"
    using Once by (simp add: serialize_recurrence_def)
  then have "parse_recurrence (serialize_recurrence r) = Inr
      (default_recurrence\<lparr>kind := Once, start_at_ns := start_at_ns r, end_at_ns := end_at_ns r\<rparr>)"
    using w by (simp add: parse_recurrence_def parse_once_def parse_fmtIso parseRecurrenceKind_def)
  then show ?thesis using r by simp
next
  case Daily
  with assms show ?thesis
    by (cases r) (simp add: parse_recurrence_def serialize_recurrence_def parse_window_def wf_recurrence_def
        parse_fmtTime default_recurrence_def parseRecurrenceKind_def Let_def)
next
  case Weekly
  then have "parse_day_list ''days_of_week'' 7 (serialize_recurrence r) = Inr (days_of_week r)"
    using assms by (intro parse_day_list_back) (simp_all add: wf_recurrence_def serialize_recurrence_def)
  with Weekly assms show ?thesis
    by (cases r) (simp add: parse_recurrence_def serialize_recurrence_def parse_window_def wf_recurrence_def
        parse_fmtTime default_recurrence_def parseRecurrenceKind_def Let_def)
next
  case Monthly
  then have "parse_day_list ''days_of_month'' 31 (serialize_recurrence r) = Inr (days_of_month r)"
    using assms by (intro parse_day_list_back) (simp_all add: wf_recurrence_def serialize_recurrence_def)
  with Monthly assms show ?thesis
    by (cases r) (simp add: parse_recurrence_def serialize_recurrence_def parse_window_def wf_recurrence_def
        parse_fmtTime default_recurrence_def parseRecurrenceKind_def Let_def)
qed

lemma parseEntry_back:
  assumes "wf_entry e"
  shows "parseEntry (serializeEntry e) = Inr e"
proof -
  let ?j = "serializeEntry e"
  have f: "field ''id'' ?j = Some (JStr (entry_id e))" "field ''playlist'' ?j = Some (JArr (map JStr (playlist e)))"
    "field ''transition'' ?j = Some (serialize_transition (transition e))"
    "field ''recurrence'' ?j = Some (serialize_recurrence (recurrence e))"
    "field ''effective_from'' ?j = map_option (\<lambda>d. JStr (fmtDate d)) (effective_from e)"
    "field ''effective_to'' ?j = map_option (\<lambda>d. JStr (fmtDate d)) (effective_to e)"
    "field ''priority'' ?j = Some (JInt (entry_priority e))"
    "field ''loop_mode'' ?j = Some (JStr (loopModeName (loop_mode e)))"
    "field ''hard_switch'' ?j = Some (JBool (hard_switch e))"
    by (simp_all add: serializeEntry_def split: option.split)
  have o: "is_object ?j" "is_object (serialize_recurrence (recurrence e))"
    by (simp_all add: serializeEntry_def serialize_recurrence_def)
  have d: "optional_field k ?j (\<lambda>v. bindE (bindE (getString v) parseDateOnly) (\<lambda>d. Inr (Some d))) None = Inr x"
    if "field k ?j = map_option (\<lambda>d. JStr (fmtDate d)) x" "pred_option wf_date x" for k x
    using that by (cases x) (simp_all add: optional_field_def parse_fmtDate)
  have ok: "entry_id e \<noteq> ''''" "playlist e \<noteq> []" "parse_clips (map JStr (playlist e)) = Inr (playlist e)"
    "parse_transition (serialize_transition (transition e)) = Inr (transition e)"
    "parse_recurrence (serialize_recurrence (recurrence e)) = Inr (recurrence e)"
    "\<not> (case (effective_from e, effective_to e) of (Some a, Some b) \<Rightarrow> \<not> date_le a b | _ \<Rightarrow> False)"
    "parse_priority (JInt (entry_priority e)) = Inr (entry_priority e)"
    using assms
    by (auto simp: wf_entry_def parse_clips_back parse_transition_back parse_recurrence_back parse_priority_def
        Let_def split: option.splits)
  have dd: "optional_field ''effective_from'' ?j (\<lambda>v. bindE (bindE (getString v) parseDateOnly) (\<lambda>d. Inr (Some d))) None
      = Inr (effective_from e)"
    "optional_field ''effective_to'' ?j (\<lambda>v. bindE (bindE (getString v) parseDateOnly) (\<lambda>d. Inr (Some d))) None
      = Inr (effective_to e)"
    using assms by (intro d f; simp add: wf_entry_def)+
  have opt: "optional_field ''transition'' ?j parse_transition default_transition = Inr (transition e)"
    "optional_field ''priority'' ?j parse_priority 100 = Inr (entry_priority e)"
    "optional_field ''loop_mode'' ?j (\<lambda>v. bindE (getString v) parseLoopMode) Loop = Inr (loop_mode e)"
    "optional_field ''hard_switch'' ?j parse_bool False = Inr (hard_switch e)"
    using f ok by (simp_all add: optional_field_def parse_bool_def)
  show ?thesis
    unfolding parseEntry_def
    using o ok by (simp add: f(1,2,4) opt dd del: not_Some_eq)
qed

subsection \<open>Accepted entries are well-formed\<close>

lemma parseTimeOfDay_ok: "parseTimeOfDay s = Inr t \<Longrightarrow> wf_time t"
  by (auto simp: parseTimeOfDay_def wf_time_def Let_def bindE_Inr_iff split: if_splits)

lemma parseDateOnly_ok:
  assumes "parseDateOnly s = Inr d"
  shows "wf_date d"
proof -
  have y: "isDigits (substr s 0 4)"
    and r: "1 \<le> dt_month d" "dt_month d \<le> 12" "1 \<le> dt_day d" "dt_day d \<le> 31"
    and st: "stoi (substr s 0 4) = Inr (dt_year d)"
    using assms by (auto simp: parseDateOnly_def Let_def bindE_Inr_iff split: if_splits)
  from y st have "dt_year d = digits_value (substr s 0 4)"
    using stoi_digits [of "substr s 0 4"] by (simp add: isDigits_def list_all_iff)
  moreover have "(10::int) ^ length (substr s 0 4) \<le> 10 ^ 4"
    by (intro power_increasing) (simp_all add: substr_def)
  ultimately show ?thesis
    using digits_value_bounds [of "substr s 0 4"] y r by (auto simp: wf_date_def isDigits_def)
qed

lemma parse_transition_ok: "parse_transition t = Inr c \<Longrightarrow> 0 \<le> tr_duration c"
  by (auto simp: parse_transition_def optional_field_def parse_duration_def bindE_Inr_iff
      split: if_splits option.splits json.splits)

lemma parse_recurrence_ok:
  assumes "parse_recurrence j = Inr r" "kind r = Once \<longrightarrow> wf_instant (start_at_ns r) \<and> wf_instant (end_at_ns r)"
  shows "wf_recurrence r"
proof -
  obtain k where k: "k = Once \<and> parse_once j = Inr r \<or> k \<noteq> Once \<and> parse_window k j = Inr r"
    using assms(1) by (auto simp: parse_recurrence_def bindE_Inr_iff split: option.splits json.splits if_splits)
  show ?thesis
  proof (cases "k = Once")
    case True
    with k have p: "parse_once j = Inr r" by simp
    then have "start_at_ns r < end_at_ns r \<and> kind r = Once
      \<and> r = default_recurrence\<lparr>kind := Once, start_at_ns := start_at_ns r, end_at_ns := end_at_ns r\<rparr>"
      by (auto simp: parse_once_def bindE_Inr_iff split: option.splits if_splits)
    then show ?thesis using assms(2) by (simp add: wf_recurrence_def)
  next
    case False
    with k have p: "parse_window k j = Inr r" by simp
    then show ?thesis
      using False
      by (auto simp: parse_window_def wf_recurrence_def default_recurrence_def Let_def bindE_Inr_iff
          dest!: parseTimeOfDay_ok parse_day_list_ok split: option.splits if_splits)
  qed
qed

lemma optional_date_ok:
  "optional_field k j (\<lambda>v. bindE (bindE (getString v) parseDateOnly) (\<lambda>d. Inr (Some d))) None = Inr x
    \<Longrightarrow> pred_option wf_date x"
  by (auto simp: optional_field_def bindE_Inr_iff dest: parseDateOnly_ok split: option.splits)

lemma optional_priority_ok: "optional_field k j parse_priority 100 = Inr p \<Longrightarrow> 0 \<le> p \<and> p \<le> 1000"
  by (auto simp: optional_field_def parse_priority_def Let_def split: option.splits json.splits if_splits)

lemma optional_transition_ok:
  "optional_field k j parse_transition default_transition = Inr t \<Longrightarrow> 0 \<le> tr_duration t"
  by (auto simp: optional_field_def default_transition_def dest: parse_transition_ok split: option.splits)

lemma parseEntry_ok:
  assumes p: "parseEntry j = Inr e"
    and i: "kind (recurrence e) = Once \<longrightarrow> wf_instant (start_at_ns (recurrence e)) \<and> wf_instant (end_at_ns (recurrence e))"
  shows "wf_entry e"
proof -
  let ?date = "\<lambda>v. bindE (bindE (getString v) parseDateOnly) (\<lambda>d. Inr (Some d))"
  have facts: "optional_field ''effective_from'' j ?date None = Inr (effective_from e)
    \<and> optional_field ''effective_to'' j ?date None = Inr (effective_to e)
    \<and> (case (effective_from e, effective_to e) of (Some a, Some b) \<Rightarrow> date_le a b | _ \<Rightarrow> True)
    \<and> (\<exists>r. parse_recurrence r = Inr (recurrence e))
    \<and> optional_field ''transition'' j parse_transition default_transition = Inr (transition e)
    \<and> optional_field ''priority'' j parse_priority 100 = Inr (entry_priority e)
    \<and> entry_id e \<noteq> '''' \<and> (\<exists>ps. ps \<noteq> [] \<and> parse_clips ps = Inr (playlist e))"
    using p unfolding parseEntry_def
    by (auto simp: bindE_Inr_iff split: if_split_asm option.split_asm json.split_asm)
  then have "pred_option wf_date (effective_from e)" "pred_option wf_date (effective_to e)"
    "wf_recurrence (recurrence e)"
    using optional_date_ok parse_recurrence_ok [OF _ i] by blast+
  moreover from facts have "0 \<le> entry_priority e \<and> entry_priority e \<le> 1000"
    "0 \<le> tr_duration (transition e)"
    using optional_priority_ok optional_transition_ok by blast+
  moreover from facts have "playlist e \<noteq> [] \<and> list_all (\<lambda>p. p \<noteq> '''') (playlist e)"
    by (auto dest: parse_clips_ok)
  ultimately show ?thesis using facts by (simp add: wf_entry_def)
qed

subsection \<open>Corners of the instant reader\<close>

text \<open>A far end date does not fit 64-bit nanoseconds: the window's end comes out before 1970.\<close>

lemma far_end_date_wraps: "parseIsoUtcNs ''9999-12-31T23:59:59Z'' = Inr (- 4852116232933722624)"
  by code_simp

text \<open>A string of exactly twenty characters need not end in \<open>Z\<close>.\<close>

lemma lenient_suffix: "parseIsoUtcNs ''2024-01-01T00:00:00X'' = Inr 1704067200000000000"
  by code_simp

section \<open>Properties\<close>

text \<open>C34: PUT, GET, PUT is stable: an entry the reader accepts is written as JSON that reads back as the
  same entry. The instants of a one-off entry have to be whole seconds that fit 64-bit nanoseconds,
  which is what the reader produces up to year 2262.\<close>

theorem schedule_put_get_put:
  assumes "parseEntry j = Inr e"
    "kind (recurrence e) = Once \<longrightarrow> wf_instant (start_at_ns (recurrence e)) \<and> wf_instant (end_at_ns (recurrence e))"
  shows "parseEntry (serializeEntry e) = Inr e"
  by (rule parseEntry_back [OF parseEntry_ok [OF assms]])

theorem schedule_put_get_put_witness:
  "let e = \<lparr>entry_id = ''n'', playlist = [''a.mp4''], transition = default_transition, recurrence = default_recurrence\<lparr>
        start_at_ns := 1704067200000000000, end_at_ns := 1704070800000000000\<rparr>, effective_from = None,
        effective_to = None, entry_priority = 7, loop_mode = Loop, hard_switch = True\<rparr>
    in parseEntry (serializeEntry e) = Inr e"
proof -
  let ?e = "\<lparr>entry_id = ''n'', playlist = [''a.mp4''], transition = default_transition, recurrence = default_recurrence\<lparr>
        start_at_ns := 1704067200000000000, end_at_ns := 1704070800000000000\<rparr>, effective_from = None,
        effective_to = None, entry_priority = 7, loop_mode = Loop, hard_switch = True\<rparr>"
  let ?j = "JObj [(''id'', JStr ''n''), (''playlist'', JArr [JStr ''a.mp4'']), (''recurrence'', JObj [(''kind'', JStr ''once''),
    (''start_at'', JStr ''2024-01-01T00:00:00Z''), (''end_at'', JStr ''2024-01-01T01:00:00Z'')]), (''priority'', JInt 7),
    (''hard_switch'', JBool True)]"
  have "parseIsoUtcNs ''2024-01-01T00:00:00Z'' = Inr 1704067200000000000"
    "parseIsoUtcNs ''2024-01-01T01:00:00Z'' = Inr 1704070800000000000"
    by code_simp+
  then have "parseEntry ?j = Inr ?e"
    by (simp add: parseEntry_def optional_field_def parse_recurrence_def parseRecurrenceKind_def parse_once_def
        parse_priority_def parse_bool_def default_recurrence_def Let_def)
  then show ?thesis
    using schedule_put_get_put [of ?j ?e] by (simp add: default_recurrence_def wf_instant_def)
qed

end
