(* ===== verification/Scheduler.thy ===== *)
theory Scheduler
  imports Schedule "HOL-Library.Multiset" "HOL-Library.Product_Lexorder"
begin

text \<open>
  \<open>core/Scheduler.cpp\<close>: which schedule entry is on air at an instant, and the next windows. The
  time-zone database and the calendar are a dependency outside the tree (Howard Hinnant's
  \<open>date\<close>): a \<open>date_lib\<close> argument holds what the code calls of it. Instants are nanoseconds since
  1970 as integers; the sums of the code stay far below 64 bits for the dates the readers accept
  without wrapping. The lock around the snapshot makes every operation atomic.

  The results: \<open>decide\<close> is the best matching entry by priority and then id, whatever the order of
  the entries; in a zone of constant offset a window is exactly the stated local times of the
  matching days, and \<open>upcoming\<close> lists, in order, the next start of each entry; in a zone with a
  clock change the windows of that day are an hour off.
\<close>

subsection \<open>Local time\<close>

text \<open>
  A zone: from an instant to local nanoseconds, and from a local day to the (earliest) instant of
  its midnight in seconds. The library: a zone by name (\<open>None\<close> for \<open>std::runtime_error\<close>), the
  calendar of a day number and its inverse, and the ISO number of the weekday, Monday being 1.
\<close>

record zone =
  to_local :: "int \<Rightarrow> int"
  day_start :: "int \<Rightarrow> int"

record date_lib =
  locate_zone :: "string \<Rightarrow> zone option"
  civil :: "int \<Rightarrow> int \<times> int \<times> int"
  days_of :: "int \<times> int \<times> int \<Rightarrow> int"
  iso_encoding :: "int \<Rightarrow> int"

definition kSecondsPerDay :: int where "kSecondsPerDay = 86400"
definition kNanosPerSec :: int where "kNanosPerSec = 1000000000"

definition resolveTz :: "date_lib \<Rightarrow> string \<Rightarrow> zone option" where
  "resolveTz lib name =
    (if name = '''' then locate_zone lib ''UTC''
     else case locate_zone lib name of None \<Rightarrow> locate_zone lib ''UTC'' | Some z \<Rightarrow> Some z)"

record LocalCal =
  ymd :: "int \<times> int \<times> int"
  iso_weekday :: int

text \<open>\<open>std::chrono::floor\<close> to days; without a zone the instant itself is the local time.\<close>

definition local_day :: "int \<Rightarrow> zone option \<Rightarrow> int" where
  "local_day now_ns tz =
    (case tz of None \<Rightarrow> now_ns | Some z \<Rightarrow> to_local z now_ns) div (kSecondsPerDay * kNanosPerSec)"

definition localCalendar :: "date_lib \<Rightarrow> int \<Rightarrow> zone option \<Rightarrow> LocalCal" where
  "localCalendar lib now_ns tz =
    (let d = local_day now_ns tz in \<lparr>ymd = civil lib d, iso_weekday = iso_encoding lib d\<rparr>)"

definition localMidnightNs :: "date_lib \<Rightarrow> int \<Rightarrow> zone option \<Rightarrow> int" where
  "localMidnightNs lib now_ns tz =
    (let d = days_of lib (ymd (localCalendar lib now_ns tz)) in
     (case tz of None \<Rightarrow> d * kSecondsPerDay | Some z \<Rightarrow> day_start z d) * kNanosPerSec)"

subsection \<open>Matching\<close>

definition effectiveRangeOk :: "ScheduleEntry \<Rightarrow> LocalCal \<Rightarrow> bool" where
  "effectiveRangeOk e cal =
    (let today = (case ymd cal of (y, m, d) \<Rightarrow> DateOnly y m d) in
     if (case effective_from e of Some a \<Rightarrow> \<not> date_le a today | None \<Rightarrow> False) then False
     else if (case effective_to e of Some b \<Rightarrow> \<not> date_le today b | None \<Rightarrow> False) then False
     else True)"

definition dayMatchesRecurrence :: "Recurrence \<Rightarrow> LocalCal \<Rightarrow> bool" where
  "dayMatchesRecurrence r cal =
    (case kind r of
       Once \<Rightarrow> True
     | Daily \<Rightarrow> True
     | Weekly \<Rightarrow> iso_weekday cal \<in> set (days_of_week r)
     | Monthly \<Rightarrow> snd (snd (ymd cal)) \<in> set (days_of_month r))"

text \<open>\<open>None\<close> is \<open>in_window = false\<close>; the value is \<open>window_end_ns\<close>.\<close>

definition matchEntry :: "date_lib \<Rightarrow> ScheduleEntry \<Rightarrow> int \<Rightarrow> zone option \<Rightarrow> int option" where
  "matchEntry lib e now_ns tz =
    (let r = recurrence e; cal = localCalendar lib now_ns tz in
     if kind r = Once then
       (if start_at_ns r \<le> now_ns \<and> now_ns < end_at_ns r
        then if \<not> effectiveRangeOk e cal then None else Some (end_at_ns r)
        else None)
     else if \<not> effectiveRangeOk e cal then None
     else if \<not> dayMatchesRecurrence r cal then None
     else let midnight = localMidnightNs lib now_ns tz;
              start_ns = midnight + seconds_since_midnight (start_time r) * kNanosPerSec;
              end_ns = midnight + seconds_since_midnight (end_time r) * kNanosPerSec
          in if start_ns \<le> now_ns \<and> now_ns < end_ns then Some end_ns else None)"

fun next_loop :: "date_lib \<Rightarrow> ScheduleEntry \<Rightarrow> int \<Rightarrow> int \<Rightarrow> zone option \<Rightarrow> int \<Rightarrow> nat list
    \<Rightarrow> (int \<times> int) option" where
  "next_loop lib e now_ns horizon_ns tz midnight_today [] = None"
| "next_loop lib e now_ns horizon_ns tz midnight_today (day_idx # rest) =
    (let r = recurrence e;
         probe_ns = midnight_today + int day_idx * kSecondsPerDay * kNanosPerSec;
         midnight = localMidnightNs lib probe_ns tz;
         start_ns = midnight + seconds_since_midnight (start_time r) * kNanosPerSec;
         end_ns = midnight + seconds_since_midnight (end_time r) * kNanosPerSec;
         cal = localCalendar lib midnight tz
     in if midnight - now_ns > horizon_ns + kSecondsPerDay * kNanosPerSec then None
        else if start_ns \<le> now_ns then next_loop lib e now_ns horizon_ns tz midnight_today rest
        else if start_ns - now_ns > horizon_ns then None
        else if \<not> effectiveRangeOk e cal then next_loop lib e now_ns horizon_ns tz midnight_today rest
        else if \<not> dayMatchesRecurrence r cal then next_loop lib e now_ns horizon_ns tz midnight_today rest
        else Some (start_ns, end_ns))"

definition nextActivation ::
  "date_lib \<Rightarrow> ScheduleEntry \<Rightarrow> int \<Rightarrow> int \<Rightarrow> zone option \<Rightarrow> (int \<times> int) option" where
  "nextActivation lib e now_ns horizon_ns tz =
    (let r = recurrence e in
     if kind r = Once then
       (if start_at_ns r > now_ns \<and> start_at_ns r - now_ns \<le> horizon_ns
        then if \<not> effectiveRangeOk e (localCalendar lib (start_at_ns r) tz) then None
             else Some (start_at_ns r, end_at_ns r)
        else None)
     else next_loop lib e now_ns horizon_ns tz (localMidnightNs lib now_ns tz) [0..<400])"

subsection \<open>The scheduler\<close>

record scheduler =
  sched_entries :: "ScheduleEntry list"
  channel_tz :: string

record Decision =
  scheduled :: bool
  d_entry_id :: string
  d_playlist :: "string list"
  d_transition :: TransitionConfig
  d_loop_mode :: LoopMode
  d_hard_switch :: bool
  d_window_end_ns :: int

definition no_decision :: Decision where
  "no_decision = \<lparr>scheduled = False, d_entry_id = '''', d_playlist = [], d_transition = default_transition,
     d_loop_mode = Loop, d_hard_switch = False, d_window_end_ns = 0\<rparr>"

definition setEntries :: "ScheduleEntry list \<Rightarrow> scheduler \<Rightarrow> scheduler" where
  "setEntries es s = s\<lparr>sched_entries := es\<rparr>"

definition setChannelTz :: "string \<Rightarrow> scheduler \<Rightarrow> scheduler" where
  "setChannelTz tz s = s\<lparr>channel_tz := tz\<rparr>"

definition better :: "ScheduleEntry \<Rightarrow> ScheduleEntry \<Rightarrow> bool" where
  "better e best = (entry_priority e > entry_priority best
     \<or> entry_priority e = entry_priority best \<and> entry_id e < entry_id best)"

fun best_loop :: "date_lib \<Rightarrow> int \<Rightarrow> zone option \<Rightarrow> (ScheduleEntry \<times> int) option \<Rightarrow> ScheduleEntry list
    \<Rightarrow> (ScheduleEntry \<times> int) option" where
  "best_loop lib now_ns tz best [] = best"
| "best_loop lib now_ns tz best (e # es) =
    (case matchEntry lib e now_ns tz of
       None \<Rightarrow> best_loop lib now_ns tz best es
     | Some window_end \<Rightarrow>
         if (case best of None \<Rightarrow> True | Some (b, _) \<Rightarrow> better e b)
         then best_loop lib now_ns tz (Some (e, window_end)) es
         else best_loop lib now_ns tz best es)"

definition decision_of :: "ScheduleEntry \<Rightarrow> int \<Rightarrow> Decision" where
  "decision_of e window_end = \<lparr>scheduled = True, d_entry_id = entry_id e, d_playlist = playlist e,
     d_transition = transition e, d_loop_mode = loop_mode e, d_hard_switch = hard_switch e,
     d_window_end_ns = window_end\<rparr>"

definition decide :: "date_lib \<Rightarrow> scheduler \<Rightarrow> int \<Rightarrow> Decision" where
  "decide lib s now_ns =
    (let tz = resolveTz lib (channel_tz s) in
     case best_loop lib now_ns tz None (sched_entries s) of
       None \<Rightarrow> no_decision
     | Some (e, window_end) \<Rightarrow> decision_of e window_end)"

record Upcoming =
  up_entry_id :: string
  starts_at_ns :: int
  ends_at_ns :: int

fun upcoming_loop :: "date_lib \<Rightarrow> int \<Rightarrow> int \<Rightarrow> zone option \<Rightarrow> ScheduleEntry list \<Rightarrow> Upcoming list" where
  "upcoming_loop lib now_ns horizon_ns tz [] = []"
| "upcoming_loop lib now_ns horizon_ns tz (e # es) =
    (case nextActivation lib e now_ns horizon_ns tz of
       None \<Rightarrow> upcoming_loop lib now_ns horizon_ns tz es
     | Some (s, t) \<Rightarrow> \<lparr>up_entry_id = entry_id e, starts_at_ns = s, ends_at_ns = t\<rparr>
         # upcoming_loop lib now_ns horizon_ns tz es)"

text \<open>The comparison of \<open>std::sort\<close>, as a sort key.\<close>

definition up_before :: "Upcoming \<Rightarrow> Upcoming \<Rightarrow> bool" where
  "up_before a b = (if starts_at_ns a \<noteq> starts_at_ns b then starts_at_ns a < starts_at_ns b
     else up_entry_id a < up_entry_id b)"

fun insert_up :: "Upcoming \<Rightarrow> Upcoming list \<Rightarrow> Upcoming list" where
  "insert_up a [] = [a]"
| "insert_up a (b # bs) = (if up_before b a then b # insert_up a bs else a # b # bs)"

definition sort_up :: "Upcoming list \<Rightarrow> Upcoming list" where
  "sort_up us = foldr insert_up us []"

definition upcoming_windows :: "date_lib \<Rightarrow> scheduler \<Rightarrow> int \<Rightarrow> int \<Rightarrow> Upcoming list" where
  "upcoming_windows lib s now_ns within_sec =
    sort_up (upcoming_loop lib now_ns (within_sec * kNanosPerSec) (resolveTz lib (channel_tz s)) (sched_entries s))"

definition statusJson :: "date_lib \<Rightarrow> scheduler \<Rightarrow> int \<Rightarrow> json" where
  "statusJson lib s now_ns =
    (let d = decide lib s now_ns in
     JObj ((''mode'', JStr (if scheduled d then ''schedule'' else ''regular''))
       # (if scheduled d
          then [(''entry_id'', JStr (d_entry_id d)), (''window_end_ns'', JInt (d_window_end_ns d))]
          else [(''entry_id'', JNull), (''window_end_ns'', JNull)])))"

subsection \<open>The best entry\<close>

definition rank :: "ScheduleEntry \<Rightarrow> int \<times> string" where
  "rank e = (- entry_priority e, entry_id e)"

lemma better_rank: "better e b \<longleftrightarrow> rank e < rank b"
  by (auto simp: better_def rank_def)

lemma best_loop_best:
  "case best_loop lib now tz best es of
     None \<Rightarrow> best = None \<and> (\<forall>e\<in>set es. matchEntry lib e now tz = None)
   | Some (b, w) \<Rightarrow> (best = Some (b, w) \<or> b \<in> set es \<and> matchEntry lib b now tz = Some w)
       \<and> (\<forall>e\<in>set es. matchEntry lib e now tz \<noteq> None \<longrightarrow> rank b \<le> rank e)
       \<and> (\<forall>b0 w0. best = Some (b0, w0) \<longrightarrow> rank b \<le> rank b0)"
proof (induction es arbitrary: best)
  case (Cons e es)
  show ?case
  proof (cases "matchEntry lib e now tz")
    case None
    with Cons.IH [of best] show ?thesis by (auto split: option.splits)
  next
    case (Some w)
    show ?thesis
    proof (cases "case best of None \<Rightarrow> True | Some (b, _) \<Rightarrow> better e b")
      case True
      with Cons.IH [of "Some (e, w)"] Some show ?thesis
        by (auto simp: better_rank split: option.splits)
    next
      case False
      then obtain b0 w0 where b0: "best = Some (b0, w0)" "rank b0 \<le> rank e"
        by (auto simp: better_rank split: option.splits)
      with Cons.IH [of best] Some False show ?thesis
        by (auto split: option.splits)
    qed
  qed
qed (simp split: option.split)

lemma best_loop_unique:
  assumes d: "distinct (map entry_id es)" and b: "b \<in> set es" "matchEntry lib b now tz = Some w"
    and least: "\<forall>e\<in>set es. matchEntry lib e now tz \<noteq> None \<longrightarrow> rank b \<le> rank e"
  shows "best_loop lib now tz None es = Some (b, w)"
proof -
  obtain b' w' where r: "best_loop lib now tz None es = Some (b', w')"
    and b': "b' \<in> set es" "matchEntry lib b' now tz = Some w'" "rank b' \<le> rank b"
    using best_loop_best [where best = None and es = es and lib = lib and now = now and tz = tz] b by (auto split: option.splits)
  have "rank b' = rank b" using b' least by force
  then have "entry_id b' = entry_id b" by (simp add: rank_def)
  then have "b' = b" using d b(1) b'(1) by (simp add: distinct_map inj_on_def)
  with r b b' show ?thesis by simp
qed

lemma best_loop_perm:
  assumes "distinct (map entry_id es)" "mset es = mset es'"
  shows "best_loop lib now tz None es' = best_loop lib now tz None es"
proof (cases "best_loop lib now tz None es")
  case None
  then have "\<forall>e\<in>set es'. matchEntry lib e now tz = None"
    using best_loop_best [where best = None and es = es and lib = lib and now = now and tz = tz] assms(2) by (auto dest: mset_eq_setD)
  with best_loop_best [where best = None and es = es' and lib = lib and now = now and tz = tz] None show ?thesis by (auto split: option.splits)
next
  case (Some p)
  obtain b w where p: "p = (b, w)" by fastforce
  have set_eq: "set es' = set es" using assms(2) by (auto dest: mset_eq_setD)
  have "mset (map entry_id es') = mset (map entry_id es)" using assms(2) by simp
  then have "distinct (map entry_id es')" using assms(1) by (metis mset_eq_imp_distinct_iff)
  then have "best_loop lib now tz None es' = Some (b, w)"
    using best_loop_best [where best = None and es = es and lib = lib and now = now and tz = tz] Some p set_eq by (intro best_loop_unique) auto
  with Some p show ?thesis by simp
qed

subsection \<open>Zones of constant offset\<close>

definition zone_local :: "zone option \<Rightarrow> int \<Rightarrow> int" where
  "zone_local tz t = (case tz of None \<Rightarrow> t | Some z \<Rightarrow> to_local z t)"

definition zone_midnight :: "zone option \<Rightarrow> int \<Rightarrow> int" where
  "zone_midnight tz d = (case tz of None \<Rightarrow> d * kSecondsPerDay | Some z \<Rightarrow> day_start z d)"

definition day_ns :: int where "day_ns = 86400000000000"

lemma upt_split: "[0..<n] = pre @ k # post \<Longrightarrow> set pre = {..<k}"
proof -
  assume ks: "[0..<n] = pre @ k # post"
  have len: "length pre < n" using arg_cong [OF ks, of length] by simp
  have "k = [0..<n] ! length pre" unfolding ks by simp
  then have k: "k = length pre" using len by simp
  have "pre = take (length pre) [0..<n]" unfolding ks by simp
  then have "pre = [0..<k]" using len k by simp
  then show ?thesis by (simp add: atLeast0LessThan)
qed

definition window_length :: "ScheduleEntry \<Rightarrow> int" where
  "window_length e = (let r = recurrence e in
     if kind r = Once then end_at_ns r - start_at_ns r
     else (seconds_since_midnight (end_time r) - seconds_since_midnight (start_time r)) * kNanosPerSec)"

locale constant_offset =
  fixes lib :: date_lib and tz :: "zone option" and off :: int
  assumes days_civil: "days_of lib (civil lib d) = d"
    and local_off: "zone_local tz t = t + off * kNanosPerSec"
    and midnight_off: "zone_midnight tz d = d * kSecondsPerDay - off"
begin

lemma local_day: "local_day t tz = (t + off * kNanosPerSec) div day_ns"
  using local_off [of t] by (simp add: local_day_def zone_local_def day_ns_def kSecondsPerDay_def kNanosPerSec_def)

lemma midnight: "localMidnightNs lib t tz = local_day t tz * day_ns - off * kNanosPerSec"
  using midnight_off [of "local_day t tz"]
  by (simp add: localMidnightNs_def localCalendar_def Let_def days_civil zone_midnight_def day_ns_def
      kSecondsPerDay_def kNanosPerSec_def left_diff_distrib)

lemma local_day_iff: "local_day t tz = d \<longleftrightarrow>
    d * day_ns - off * kNanosPerSec \<le> t \<and> t < (d + 1) * day_ns - off * kNanosPerSec"
proof -
  let ?x = "t + off * kNanosPerSec"
  have pos: "0 < day_ns" by (simp add: day_ns_def)
  have "?x div day_ns = d \<longleftrightarrow> d * day_ns \<le> ?x \<and> ?x < (d + 1) * day_ns"
  proof
    assume "?x div day_ns = d"
    then show "d * day_ns \<le> ?x \<and> ?x < (d + 1) * day_ns"
      using div_mult_mod_eq [of ?x day_ns] pos_mod_bound [OF pos, of ?x] pos_mod_sign [OF pos, of ?x]
      by (simp add: distrib_right)
  next
    assume "d * day_ns \<le> ?x \<and> ?x < (d + 1) * day_ns"
    then show "?x div day_ns = d"
      by (intro int_div_pos_eq [where r = "?x - d * day_ns"]) (simp_all add: algebra_simps)
  qed
  then show ?thesis unfolding local_day by linarith
qed

definition window_at :: "ScheduleEntry \<Rightarrow> int \<Rightarrow> int \<times> int" where
  "window_at e d = (d * day_ns - off * kNanosPerSec + seconds_since_midnight (start_time (recurrence e)) * kNanosPerSec,
     d * day_ns - off * kNanosPerSec + seconds_since_midnight (end_time (recurrence e)) * kNanosPerSec)"

definition day_ok :: "ScheduleEntry \<Rightarrow> int \<Rightarrow> bool" where
  "day_ok e d = (let cal = \<lparr>ymd = civil lib d, iso_weekday = iso_encoding lib d\<rparr>
     in effectiveRangeOk e cal \<and> dayMatchesRecurrence (recurrence e) cal)"

lemma matchEntry_window:
  assumes "kind (recurrence e) \<noteq> Once"
  shows "matchEntry lib e t tz =
    (let d = local_day t tz in
     if day_ok e d \<and> fst (window_at e d) \<le> t \<and> t < snd (window_at e d) then Some (snd (window_at e d)) else None)"
  using assms
  by (auto simp: matchEntry_def window_at_def day_ok_def midnight localCalendar_def Let_def)

lemma match_iff_local:
  assumes "kind (recurrence e) \<noteq> Once"
  shows "(matchEntry lib e t tz \<noteq> None) =
    (let cal = localCalendar lib t tz; tod = zone_local tz t mod (kSecondsPerDay * kNanosPerSec) in
     effectiveRangeOk e cal \<and> dayMatchesRecurrence (recurrence e) cal
     \<and> seconds_since_midnight (start_time (recurrence e)) * kNanosPerSec \<le> tod
     \<and> tod < seconds_since_midnight (end_time (recurrence e)) * kNanosPerSec)"
proof -
  have day: "kSecondsPerDay * kNanosPerSec = day_ns"
    by (simp add: day_ns_def kSecondsPerDay_def kNanosPerSec_def)
  have "zone_local tz t mod day_ns = t - (local_day t tz * day_ns - off * kNanosPerSec)"
    unfolding local_off local_day by (simp add: minus_div_mult_eq_mod [symmetric])
  then show ?thesis
    by (auto simp: matchEntry_window [OF assms] day_ok_def localCalendar_def window_at_def day Let_def)
qed

lemma window_in_day:
  assumes "wf_recurrence (recurrence e)" "kind (recurrence e) \<noteq> Once"
  shows "d * day_ns - off * kNanosPerSec \<le> fst (window_at e d)" "fst (window_at e d) < snd (window_at e d)"
    "snd (window_at e d) < (d + 1) * day_ns - off * kNanosPerSec"
  using assms
  by (simp_all add: wf_recurrence_def wf_time_def window_at_def seconds_since_midnight_def day_ns_def
      kNanosPerSec_def distrib_right)

lemma next_loop_Some:
  assumes "next_loop lib e now horizon tz (d0 * day_ns - off * kNanosPerSec) ks = Some (s, w)"
  shows "\<exists>pre k post. ks = pre @ k # post \<and> (s, w) = window_at e (d0 + int k) \<and> now < s \<and> s - now \<le> horizon
    \<and> day_ok e (d0 + int k)
    \<and> (\<forall>j\<in>set pre. fst (window_at e (d0 + int j)) \<le> now \<or> \<not> day_ok e (d0 + int j))"
  using assms
proof (induction ks)
  case (Cons k ks)
  have probe: "local_day (d0 * day_ns - off * kNanosPerSec + int k * kSecondsPerDay * kNanosPerSec) tz = d0 + int k"
    unfolding local_day_iff by (simp add: day_ns_def kSecondsPerDay_def kNanosPerSec_def algebra_simps)
  have mid: "localMidnightNs lib (d0 * day_ns - off * kNanosPerSec + int k * kSecondsPerDay * kNanosPerSec) tz
      = (d0 + int k) * day_ns - off * kNanosPerSec"
    unfolding midnight probe ..
  have mid_day: "local_day ((d0 + int k) * day_ns - off * kNanosPerSec) tz = d0 + int k"
    unfolding local_day_iff by (simp add: day_ns_def distrib_right)
  show ?case
  proof (cases "fst (window_at e (d0 + int k)) \<le> now \<or> \<not> day_ok e (d0 + int k)")
    case True
    then have "next_loop lib e now horizon tz (d0 * day_ns - off * kNanosPerSec) ks = Some (s, w)"
      using Cons.prems
      by (auto simp: mid mid_day Let_def window_at_def day_ok_def localCalendar_def split: if_splits)
    then obtain pre k' post where "ks = pre @ k' # post \<and> (s, w) = window_at e (d0 + int k') \<and> now < s
      \<and> s - now \<le> horizon \<and> day_ok e (d0 + int k')
      \<and> (\<forall>j\<in>set pre. fst (window_at e (d0 + int j)) \<le> now \<or> \<not> day_ok e (d0 + int j))"
      using Cons.IH by blast
    with True show ?thesis by (intro exI [of _ "k # pre"] exI [of _ k'] exI [of _ post]) auto
  next
    case False
    then have "(s, w) = window_at e (d0 + int k) \<and> now < s \<and> s - now \<le> horizon"
      using Cons.prems
      by (auto simp: mid mid_day Let_def window_at_def day_ok_def localCalendar_def split: if_splits)
    with False show ?thesis by (intro exI [of _ "[]"] exI [of _ k] exI [of _ ks]) auto
  qed
qed simp

text \<open>
  The next activation is a real window start inside the horizon, and the earliest one: whatever is
  on before it is a window that was already open.
\<close>

lemma nextActivation_next:
  assumes wf: "wf_recurrence (recurrence e)" and n: "nextActivation lib e now horizon tz = Some (s, w)"
  shows "now < s \<and> s - now \<le> horizon \<and> matchEntry lib e s tz = Some w"
    and "now < t \<Longrightarrow> t < s \<Longrightarrow> matchEntry lib e t tz = Some w' \<Longrightarrow> w' - window_length e \<le> now"
proof -
  have "(now < s \<and> s - now \<le> horizon \<and> matchEntry lib e s tz = Some w)
    \<and> (now < t \<longrightarrow> t < s \<longrightarrow> matchEntry lib e t tz = Some w' \<longrightarrow> w' - window_length e \<le> now)"
  proof (cases "kind (recurrence e) = Once")
    case True
    then show ?thesis
      using n wf by (auto simp: nextActivation_def matchEntry_def wf_recurrence_def Let_def split: if_splits)
  next
    case False
    let ?today = "local_day now tz"
    have "next_loop lib e now horizon tz (?today * day_ns - off * kNanosPerSec) [0..<400] = Some (s, w)"
      using n False by (simp add: nextActivation_def midnight Let_def)
    then obtain pre k post where ks: "[0..<400] = pre @ k # post" and w: "(s, w) = window_at e (?today + int k)"
      and s: "now < s" "s - now \<le> horizon" and ok: "day_ok e (?today + int k)"
      and pre: "\<forall>j\<in>set pre. fst (window_at e (?today + int j)) \<le> now \<or> \<not> day_ok e (?today + int j)"
      using next_loop_Some by blast
    note win = window_in_day [OF wf False, of "?today + int k"]
    have sw: "fst (window_at e (?today + int k)) = s" "snd (window_at e (?today + int k)) = w"
      using w by (metis fst_conv, metis snd_conv)
    have day: "local_day s tz = ?today + int k"
      unfolding local_day_iff using win unfolding sw by linarith
    have match: "matchEntry lib e s tz = Some w"
      unfolding matchEntry_window [OF False] day using ok win by (simp add: sw Let_def)
    have "w' - window_length e \<le> now"
      if t: "now < t" "t < s" and m: "matchEntry lib e t tz = Some w'"
    proof -
      let ?then_day = "local_day t tz"
      have d: "day_ok e ?then_day" "fst (window_at e ?then_day) \<le> t" "w' = snd (window_at e ?then_day)"
        using m by (auto simp: matchEntry_window [OF False] Let_def split: if_splits)
      have "?today \<le> ?then_day" "?then_day \<le> local_day s tz"
        unfolding local_day using t by (auto intro!: zdiv_mono1 simp: day_ns_def)
      moreover have "?then_day \<noteq> ?today + int k" using d(2) t(2) sw(1) by (metis not_le)
      ultimately have "nat (?then_day - ?today) < k" "?today + int (nat (?then_day - ?today)) = ?then_day" unfolding day by linarith+
      moreover have "set pre = {..<k}" by (rule upt_split [OF ks])
      ultimately have "fst (window_at e ?then_day) \<le> now" using pre d(1) by (metis lessThan_iff)
      then show ?thesis unfolding d(3) by (simp add: window_at_def window_length_def left_diff_distrib False Let_def)
    qed
    then show ?thesis using s match by blast
  qed
  then show "now < s \<and> s - now \<le> horizon \<and> matchEntry lib e s tz = Some w"
    and "now < t \<Longrightarrow> t < s \<Longrightarrow> matchEntry lib e t tz = Some w' \<Longrightarrow> w' - window_length e \<le> now"
    by blast+
qed

end

subsection \<open>The calendar of the transport-stream code is an instance\<close>

definition civil_lib :: date_lib where
  "civil_lib = \<lparr>locate_zone = (\<lambda>name. if name = ''UTC'' then Some \<lparr>to_local = (\<lambda>t. t), day_start = (\<lambda>d. d * 86400)\<rparr> else None),
     civil = daysToCivil, days_of = (\<lambda>(y, m, d). days_from_civil y m d),
     iso_encoding = (\<lambda>d. (d + 3) mod 7 + 1)\<rparr>"

lemma civil_lib_days: "days_of civil_lib (civil civil_lib d) = d"
  by (cases "daysToCivil d") (simp add: civil_lib_def days_from_daysToCivil)

interpretation utc: constant_offset civil_lib None 0
  by unfold_locales (simp_all only: civil_lib_days, simp_all add: zone_local_def zone_midnight_def)

interpretation utc_zone: constant_offset civil_lib "resolveTz civil_lib ''UTC''" 0
  by unfold_locales
    (simp_all only: civil_lib_days, simp_all add: civil_lib_def resolveTz_def zone_local_def zone_midnight_def kSecondsPerDay_def)

text \<open>
  A day with a clock change: local time is UTC+1 before and UTC+2 from 01:00 UTC of day 19813
  (2024-03-31). A daily window from 10:00 to 11:00 is on from 11:00 to 12:00 local time.
\<close>

definition spring_zone :: zone where
  "spring_zone = \<lparr>to_local = (\<lambda>t. if t < (19813 * 86400 + 3600) * 1000000000 then t + 3600 * 1000000000 else t + 7200 * 1000000000),
     day_start = (\<lambda>d. if d \<le> 19813 then d * 86400 - 3600 else d * 86400 - 7200)\<rparr>"

definition ten_oclock :: ScheduleEntry where
  "ten_oclock = \<lparr>entry_id = ''a'', playlist = [''p''], transition = default_transition,
     recurrence = default_recurrence\<lparr>kind := Daily, start_time := \<lparr>hours = 10, minutes = 0\<rparr>, end_time := \<lparr>hours = 11, minutes = 0\<rparr>\<rparr>,
     effective_from = None, effective_to = None, entry_priority = 100, loop_mode = Loop, hard_switch = False\<rparr>"

lemma clock_change_shifts_window:
  "to_local spring_zone 1711873800000000000 mod day_ns = (10 * 3600 + 1800) * 1000000000
    \<and> matchEntry civil_lib ten_oclock 1711873800000000000 (Some spring_zone) = None
    \<and> to_local spring_zone 1711877400000000000 mod day_ns = (11 * 3600 + 1800) * 1000000000
    \<and> matchEntry civil_lib ten_oclock 1711877400000000000 (Some spring_zone) = Some 1711879200000000000"
  by code_simp

subsection \<open>Sorting the upcoming windows\<close>

definition up_key :: "Upcoming \<Rightarrow> int \<times> string" where
  "up_key u = (starts_at_ns u, up_entry_id u)"

lemma up_before_key: "up_before a b \<longleftrightarrow> up_key a < up_key b"
  by (auto simp: up_before_def up_key_def)

lemma insert_up_props: "mset (insert_up a us) = add_mset a (mset us)
    \<and> (sorted (map up_key us) \<longrightarrow> sorted (map up_key (insert_up a us)))"
proof (induction us)
  case (Cons b us)
  then have "set (insert_up a us) = insert a (set us)" by (metis set_mset_add_mset_insert set_mset_mset)
  with Cons show ?case by (auto simp: up_before_key)
qed simp

lemma sort_up_props: "mset (sort_up us) = mset us \<and> sorted (map up_key (sort_up us))"
  by (induction us) (simp_all add: sort_up_def insert_up_props)

lemma sorted_starts: "sorted (map up_key us) \<Longrightarrow> sorted (map starts_at_ns us)"
  by (induction us) (auto simp: up_key_def)

lemma upcoming_loop_set:
  "u \<in> set (upcoming_loop lib now horizon tz es) \<longleftrightarrow>
    (\<exists>e\<in>set es. \<exists>s w. nextActivation lib e now horizon tz = Some (s, w)
       \<and> u = \<lparr>up_entry_id = entry_id e, starts_at_ns = s, ends_at_ns = w\<rparr>)"
  by (induction es) (auto split: option.splits)

section \<open>Properties\<close>

text \<open>C35: the decision is the matching entry of highest priority, and among equals the one of least id;
  there is no decision exactly when no entry matches; and the order in which the entries are stored
  does not matter.\<close>

theorem decide_best:
  assumes "distinct (map entry_id es)" "mset es = mset es'"
  shows "decide lib \<lparr>sched_entries = es', channel_tz = z\<rparr> now = decide lib \<lparr>sched_entries = es, channel_tz = z\<rparr> now
    \<and> (let d = decide lib \<lparr>sched_entries = es, channel_tz = z\<rparr> now; tz = resolveTz lib z in
       (scheduled d = (\<exists>e\<in>set es. matchEntry lib e now tz \<noteq> None))
       \<and> (scheduled d \<longrightarrow> (\<exists>b\<in>set es. \<exists>w. matchEntry lib b now tz = Some w \<and> d = decision_of b w
            \<and> (\<forall>e\<in>set es. matchEntry lib e now tz \<noteq> None \<longrightarrow> entry_priority e < entry_priority b
                 \<or> entry_priority e = entry_priority b \<and> entry_id b \<le> entry_id e))))"
proof -
  let ?tz = "resolveTz lib z"
  have same: "best_loop lib now ?tz None es' = best_loop lib now ?tz None es"
    by (rule best_loop_perm [OF assms])
  show ?thesis
  proof (cases "best_loop lib now ?tz None es")
    case None
    with best_loop_best [where best = None and es = es and lib = lib and now = now and tz = ?tz] same
    show ?thesis by (auto simp: decide_def Let_def no_decision_def)
  next
    case (Some p)
    then obtain b w where p: "best_loop lib now ?tz None es = Some (b, w)" by (cases p) auto
    have b: "b \<in> set es" "matchEntry lib b now ?tz = Some w"
      and least: "\<forall>e\<in>set es. matchEntry lib e now ?tz \<noteq> None \<longrightarrow> rank b \<le> rank e"
      using best_loop_best [where best = None and es = es and lib = lib and now = now and tz = ?tz] p by simp_all
    have "\<forall>e\<in>set es. matchEntry lib e now ?tz \<noteq> None \<longrightarrow> entry_priority e < entry_priority b
        \<or> entry_priority e = entry_priority b \<and> entry_id b \<le> entry_id e"
      using least by (auto simp: rank_def)
    then show ?thesis
      using p same b by (auto simp: decide_def Let_def decision_of_def intro!: bexI [of _ b])
  qed
qed

theorem decide_best_witness:
  "d_entry_id (decide civil_lib \<lparr>sched_entries = [ten_oclock, ten_oclock\<lparr>entry_id := ''b'', entry_priority := 5\<rparr>], channel_tz = ''UTC''\<rparr> 0)
    = d_entry_id (decide civil_lib \<lparr>sched_entries = [ten_oclock\<lparr>entry_id := ''b'', entry_priority := 5\<rparr>, ten_oclock], channel_tz = ''UTC''\<rparr> 0)"
  using decide_best [of "[ten_oclock\<lparr>entry_id := ''b'', entry_priority := 5\<rparr>, ten_oclock]"
      "[ten_oclock, ten_oclock\<lparr>entry_id := ''b'', entry_priority := 5\<rparr>]" civil_lib "''UTC''" 0]
  by (simp add: ten_oclock_def add_mset_commute)

text \<open>In a zone of constant offset a daily, weekly or monthly entry is on exactly when the local date
  passes the entry's date gates and day list and the local time of day is in
  \<open>[start_time, end_time)\<close>.\<close>

lemma windows_are_local_times:
  assumes "\<And>d. days_of lib (civil lib d) = d" "\<And>t. zone_local tz t = t + off * kNanosPerSec"
    "\<And>d. zone_midnight tz d = d * kSecondsPerDay - off" "kind (recurrence e) \<noteq> Once"
  shows "(matchEntry lib e t tz \<noteq> None) =
    (let cal = localCalendar lib t tz; tod = zone_local tz t mod (kSecondsPerDay * kNanosPerSec) in
     effectiveRangeOk e cal \<and> dayMatchesRecurrence (recurrence e) cal
     \<and> seconds_since_midnight (start_time (recurrence e)) * kNanosPerSec \<le> tod
     \<and> tod < seconds_since_midnight (end_time (recurrence e)) * kNanosPerSec)"
  by (rule constant_offset.match_iff_local [OF constant_offset.intro [OF assms(1-3)] assms(4)])

text \<open>In a zone of constant offset the upcoming list is sorted by start, and every window in it starts
  within the horizon, is matched by its entry from its start to its end, and is the entry's next: at
  any instant before it the entry is off or in a window that was already open.\<close>

lemma upcoming_starts:
  assumes "\<And>d. days_of lib (civil lib d) = d" "\<And>t. zone_local (resolveTz lib (channel_tz s)) t = t + off * kNanosPerSec"
    "\<And>d. zone_midnight (resolveTz lib (channel_tz s)) d = d * kSecondsPerDay - off"
    "\<forall>e\<in>set (sched_entries s). wf_recurrence (recurrence e)"
  shows "sorted (map starts_at_ns (upcoming_windows lib s now secs))
    \<and> (\<forall>u\<in>set (upcoming_windows lib s now secs). \<exists>e\<in>set (sched_entries s).
         up_entry_id u = entry_id e \<and> now < starts_at_ns u \<and> starts_at_ns u - now \<le> secs * kNanosPerSec
         \<and> matchEntry lib e (starts_at_ns u) (resolveTz lib (channel_tz s)) = Some (ends_at_ns u)
         \<and> (\<forall>t w. now < t \<and> t < starts_at_ns u \<and> matchEntry lib e t (resolveTz lib (channel_tz s)) = Some w
              \<longrightarrow> w - window_length e \<le> now))"
proof -
  let ?tz = "resolveTz lib (channel_tz s)"
  let ?us = "upcoming_loop lib now (secs * kNanosPerSec) ?tz (sched_entries s)"
  have co: "constant_offset lib ?tz off" by (rule constant_offset.intro [OF assms(1-3)])
  have srt: "sorted (map up_key (sort_up ?us))" and mem: "set (sort_up ?us) = set ?us"
    using sort_up_props [of ?us] by (auto dest: mset_eq_setD)
  have each: "\<exists>e\<in>set (sched_entries s). up_entry_id u = entry_id e \<and> now < starts_at_ns u
      \<and> starts_at_ns u - now \<le> secs * kNanosPerSec \<and> matchEntry lib e (starts_at_ns u) ?tz = Some (ends_at_ns u)
      \<and> (\<forall>t w. now < t \<and> t < starts_at_ns u \<and> matchEntry lib e t ?tz = Some w \<longrightarrow> w - window_length e \<le> now)"
    if mem_u: "u \<in> set ?us" for u
  proof -
    obtain e b w where e: "e \<in> set (sched_entries s)"
      and n: "nextActivation lib e now (secs * kNanosPerSec) ?tz = Some (b, w)"
      and u: "u = \<lparr>up_entry_id = entry_id e, starts_at_ns = b, ends_at_ns = w\<rparr>"
      using iffD1 [OF upcoming_loop_set mem_u] by blast
    have wf: "wf_recurrence (recurrence e)" using e assms(4) by blast
    show ?thesis
      using constant_offset.nextActivation_next [OF co wf n] u e by (intro bexI [of _ e]) auto
  qed
  show ?thesis
    unfolding upcoming_windows_def mem using sorted_starts [OF srt] each by blast
qed

end
