(* ===== verification/ScheduleController.thy ===== *)
theory ScheduleController
  imports Scheduler
begin

text \<open>
  The regular/schedule state machine of one channel, \<open>core/ScheduleController.cpp\<close>: what each
  boundary and each poll tells the channel to do, and the two places of \<open>core/ChannelInstance.cpp\<close> that do it.
  The scheduler's decision at the instant of a call is the argument of the step; composed with \<open>decide\<close> it is
  the code's handler.

  A channel driven by any sequence of boundaries, polls and reloads plays the playlist, with the transition, of the
  decision that took over last, and the controller reports that entry and the end of its window.
\<close>

datatype ActionKind = NoAction | EnterSchedule | ExitToRegular | SwitchEntry

record Action =
  action_kind :: ActionKind
  new_entry_id :: string
  a_playlist :: "string list"
  a_transition :: TransitionConfig
  a_loop_mode :: LoopMode
  a_hard_switch :: bool
  a_window_end_ns :: int

record controller =
  in_schedule :: bool
  current_entry :: string
  window_end_ns :: int

definition new_controller :: controller where
  "new_controller = \<lparr>in_schedule = False, current_entry = '''', window_end_ns = 0\<rparr>"

definition no_action :: Action where
  "no_action = \<lparr>action_kind = NoAction, new_entry_id = '''', a_playlist = [], a_transition = default_transition,
     a_loop_mode = Loop, a_hard_switch = False, a_window_end_ns = 0\<rparr>"

definition fill_action :: "ActionKind \<Rightarrow> Decision \<Rightarrow> Action" where
  "fill_action k d = \<lparr>action_kind = k, new_entry_id = d_entry_id d, a_playlist = d_playlist d,
     a_transition = d_transition d, a_loop_mode = d_loop_mode d, a_hard_switch = d_hard_switch d,
     a_window_end_ns = d_window_end_ns d\<rparr>"

definition boundary_step :: "Decision \<Rightarrow> controller \<Rightarrow> Action \<times> controller" where
  "boundary_step d c =
    (if scheduled d then
       (if \<not> in_schedule c then
          (fill_action EnterSchedule d,
           c\<lparr>in_schedule := True, current_entry := d_entry_id d, window_end_ns := d_window_end_ns d\<rparr>)
        else if d_entry_id d \<noteq> current_entry c then
          (fill_action SwitchEntry d,
           c\<lparr>current_entry := d_entry_id d, window_end_ns := d_window_end_ns d\<rparr>)
        else (no_action, c\<lparr>window_end_ns := d_window_end_ns d\<rparr>))
     else if in_schedule c then
       (no_action\<lparr>action_kind := ExitToRegular\<rparr>,
        c\<lparr>in_schedule := False, current_entry := [], window_end_ns := 0\<rparr>)
     else (no_action, c))"

definition hard_step :: "Decision \<Rightarrow> controller \<Rightarrow> Action \<times> controller" where
  "hard_step d c =
    (if \<not> scheduled d \<or> \<not> d_hard_switch d then (no_action, c)
     else if in_schedule c \<and> d_entry_id d = current_entry c then
       (no_action, c\<lparr>window_end_ns := d_window_end_ns d\<rparr>)
     else ((fill_action (if in_schedule c then SwitchEntry else EnterSchedule) d)\<lparr>a_hard_switch := True\<rparr>,
           c\<lparr>in_schedule := True, current_entry := d_entry_id d, window_end_ns := d_window_end_ns d\<rparr>))"

definition onBoundary :: "date_lib \<Rightarrow> scheduler \<Rightarrow> int \<Rightarrow> controller \<Rightarrow> Action \<times> controller" where
  "onBoundary lib s now_ns c = boundary_step (decide lib s now_ns) c"

definition tryHardSwitch :: "date_lib \<Rightarrow> scheduler \<Rightarrow> int \<Rightarrow> controller \<Rightarrow> Action \<times> controller" where
  "tryHardSwitch lib s now_ns c = hard_step (decide lib s now_ns) c"

definition inScheduleMode :: "controller \<Rightarrow> bool" where "inScheduleMode c = in_schedule c"
definition currentEntryId :: "controller \<Rightarrow> string" where "currentEntryId c = current_entry c"
definition currentWindowEndNs :: "controller \<Rightarrow> int" where "currentWindowEndNs c = window_end_ns c"

subsection \<open>The channel that carries the actions out\<close>

text \<open>
  \<open>applyScheduleBoundary\<close> and the poll of \<open>startHardSwitchPoll\<close> in \<open>core/ChannelInstance.cpp\<close>. \<open>on_air\<close> is what
  \<open>swapToSchedulePlaylist\<close> was last called with, \<open>None\<close> after \<open>swapToRegularPlaylist\<close>; building the clips from the
  paths is not modelled. \<open>notices\<close> are the \<open>ScheduleActive\<close> events published, the last one first.
\<close>

datatype notice = Entered string int | Switched string int | Exited

record channel =
  ch_scheduler :: scheduler
  ch_controller :: controller
  on_air :: "(string list \<times> TransitionConfig) option"
  notices :: "notice list"

definition new_channel :: "scheduler \<Rightarrow> channel" where
  "new_channel s = \<lparr>ch_scheduler = s, ch_controller = new_controller, on_air = None, notices = []\<rparr>"

definition applyScheduleBoundary :: "date_lib \<Rightarrow> int \<Rightarrow> channel \<Rightarrow> channel" where
  "applyScheduleBoundary lib now_ns ch =
    (let (a, c) = onBoundary lib (ch_scheduler ch) now_ns (ch_controller ch); ch1 = ch\<lparr>ch_controller := c\<rparr> in
     case action_kind a of
       NoAction \<Rightarrow> ch1
     | EnterSchedule \<Rightarrow> ch1\<lparr>on_air := Some (a_playlist a, a_transition a),
         notices := Entered (new_entry_id a) (a_window_end_ns a) # notices ch1\<rparr>
     | SwitchEntry \<Rightarrow> ch1\<lparr>on_air := Some (a_playlist a, a_transition a),
         notices := Switched (new_entry_id a) (a_window_end_ns a) # notices ch1\<rparr>
     | ExitToRegular \<Rightarrow> ch1\<lparr>on_air := None, notices := Exited # notices ch1\<rparr>)"

definition hardSwitchPoll :: "date_lib \<Rightarrow> int \<Rightarrow> channel \<Rightarrow> channel" where
  "hardSwitchPoll lib now_ns ch =
    (let (a, c) = tryHardSwitch lib (ch_scheduler ch) now_ns (ch_controller ch); ch1 = ch\<lparr>ch_controller := c\<rparr> in
     if action_kind a = EnterSchedule \<or> action_kind a = SwitchEntry
     then ch1\<lparr>on_air := Some (a_playlist a, a_transition a)\<rparr> else ch1)"

datatype event = Boundary int | Poll int | Reload "ScheduleEntry list"

fun channel_step :: "date_lib \<Rightarrow> event \<Rightarrow> channel \<Rightarrow> channel" where
  "channel_step lib (Boundary t) ch = applyScheduleBoundary lib t ch"
| "channel_step lib (Poll t) ch = hardSwitchPoll lib t ch"
| "channel_step lib (Reload es) ch = ch\<lparr>ch_scheduler := setEntries es (ch_scheduler ch)\<rparr>"

subsection \<open>What should be on air\<close>

text \<open>
  Without a state machine: the decision that took over last, with the end of its window as last seen. At a boundary
  the schedule is followed; a poll only lets a decision with \<open>hard_switch\<close> in. A decision for the entry that is on
  already renews the end of the window and nothing else: an entry that is edited while it plays goes on as it was.
\<close>

fun takes_over :: "Decision \<Rightarrow> (Decision \<times> int) option \<Rightarrow> (Decision \<times> int) option" where
  "takes_over d None = Some (d, d_window_end_ns d)"
| "takes_over d (Some (d0, w)) = Some (if d_entry_id d = d_entry_id d0 then d0 else d, d_window_end_ns d)"

fun follow :: "date_lib \<Rightarrow> event \<Rightarrow> scheduler \<times> (Decision \<times> int) option \<Rightarrow> scheduler \<times> (Decision \<times> int) option" where
  "follow lib (Boundary t) (s, air) = (s, let d = decide lib s t in if scheduled d then takes_over d air else None)"
| "follow lib (Poll t) (s, air) = (s, let d = decide lib s t in if scheduled d \<and> d_hard_switch d then takes_over d air else air)"
| "follow lib (Reload es) (s, air) = (setEntries es s, air)"

definition reports :: "controller \<Rightarrow> (Decision \<times> int) option \<Rightarrow> bool" where
  "reports c air = (case air of None \<Rightarrow> \<not> in_schedule c \<and> current_entry c = [] \<and> window_end_ns c = 0
     | Some (d, w) \<Rightarrow> in_schedule c \<and> current_entry c = d_entry_id d \<and> window_end_ns c = w)"

definition carries_out :: "channel \<Rightarrow> scheduler \<times> (Decision \<times> int) option \<Rightarrow> bool" where
  "carries_out ch sa = (ch_scheduler ch = fst sa \<and> reports (ch_controller ch) (snd sa)
     \<and> on_air ch = map_option (\<lambda>(d, w). (d_playlist d, d_transition d)) (snd sa))"

lemma takes_over_entry: "takes_over d air = Some (d1, w) \<Longrightarrow> d_entry_id d1 = d_entry_id d \<and> w = d_window_end_ns d"
  by (cases "(d, air)" rule: takes_over.cases) auto

lemma takes_over_some [simp]: "\<exists>d1 w. takes_over d air = Some (d1, w)"
  by (cases "(d, air)" rule: takes_over.cases) auto

lemma boundary_carries_out: "carries_out ch (s, air) \<Longrightarrow> carries_out (applyScheduleBoundary lib t ch) (follow lib (Boundary t) (s, air))"
  by (cases air)
    (auto simp: carries_out_def reports_def applyScheduleBoundary_def onBoundary_def boundary_step_def fill_action_def
      no_action_def Let_def split: prod.splits)

lemma poll_carries_out: "carries_out ch (s, air) \<Longrightarrow> carries_out (hardSwitchPoll lib t ch) (follow lib (Poll t) (s, air))"
  by (cases air)
    (auto simp: carries_out_def reports_def hardSwitchPoll_def tryHardSwitch_def hard_step_def fill_action_def
      no_action_def Let_def split: prod.splits)

lemma step_carries_out: "carries_out ch sa \<Longrightarrow> carries_out (channel_step lib ev ch) (follow lib ev sa)"
  using boundary_carries_out poll_carries_out
  by (cases sa; cases ev) (auto simp: carries_out_def)

lemma channel_carries_out: "carries_out ch sa \<Longrightarrow> carries_out (fold (channel_step lib) evs ch) (fold (follow lib) evs sa)"
  by (induction evs arbitrary: ch sa) (simp_all add: step_carries_out)

lemma new_carries_out: "carries_out (new_channel s) (s, None)"
  by (simp add: carries_out_def reports_def new_channel_def new_controller_def)

text \<open>Only boundaries publish: a hard switch puts another playlist on air and no event says so.\<close>

lemma hard_switch_not_announced: "notices (hardSwitchPoll lib t ch) = notices ch"
  by (simp add: hardSwitchPoll_def Let_def split: prod.split)

section \<open>Properties\<close>

text \<open>C33: over any sequence of boundaries, hard-switch polls and schedule reloads, the channel that carries the actions out
  has on air the playlist and the transition of the decision that took over last, or its regular playlist, and the controller
  reports that entry and the end of its window as last seen (both cleared in regular mode). When the last event is
  a boundary, the entry is the one the scheduler decides for then.\<close>

theorem controller_drives_channel:
  "let ch = fold (channel_step lib) evs (new_channel s); (s', air) = fold (follow lib) evs (s, None) in
    ch_scheduler ch = s'
    \<and> on_air ch = map_option (\<lambda>(d, w). (d_playlist d, d_transition d)) air
    \<and> inScheduleMode (ch_controller ch) = (air \<noteq> None)
    \<and> currentEntryId (ch_controller ch) = (case air of None \<Rightarrow> [] | Some (d, w) \<Rightarrow> d_entry_id d)
    \<and> currentWindowEndNs (ch_controller ch) = (case air of None \<Rightarrow> 0 | Some (d, w) \<Rightarrow> w)
    \<and> (\<forall>before now. evs = before @ [Boundary now] \<longrightarrow> (let d = decide lib s' now in
         (on_air ch \<noteq> None \<longleftrightarrow> scheduled d)
         \<and> (scheduled d \<longrightarrow> currentEntryId (ch_controller ch) = d_entry_id d \<and> currentWindowEndNs (ch_controller ch) = d_window_end_ns d)))"
proof -
  obtain s' air where f: "fold (follow lib) evs (s, None) = (s', air)" by fastforce
  have c: "carries_out (fold (channel_step lib) evs (new_channel s)) (s', air)"
    using channel_carries_out [OF new_carries_out, of lib evs s] f by simp
  have last: "(air \<noteq> None \<longleftrightarrow> scheduled (decide lib s' now)) \<and> (\<forall>d w. air = Some (d, w) \<longrightarrow>
      d_entry_id d = d_entry_id (decide lib s' now) \<and> w = d_window_end_ns (decide lib s' now))"
    if "evs = before @ [Boundary now]" for before now
    using f that takes_over_entry by (cases "fold (follow lib) before (s, None)") (auto simp: Let_def split: if_splits)
  show ?thesis
    using c last unfolding f
    by (auto simp: carries_out_def reports_def inScheduleMode_def currentEntryId_def currentWindowEndNs_def Let_def split: option.splits)
qed

theorem controller_drives_channel_witness:
  "on_air (fold (channel_step civil_lib) [Poll 0, Boundary 37800000000000] (new_channel \<lparr>sched_entries = [ten_oclock], channel_tz = ''UTC''\<rparr>))
    = Some ([''p''], default_transition)"
proof -
  let ?s = "\<lparr>sched_entries = [ten_oclock], channel_tz = ''UTC''\<rparr>"
  have "map_option (\<lambda>(d, w). (d_playlist d, d_transition d)) (snd (fold (follow civil_lib) [Poll 0, Boundary 37800000000000] (?s, None)))
      = Some ([''p''], default_transition)" by code_simp
  then show ?thesis
    using controller_drives_channel [of civil_lib "[Poll 0, Boundary 37800000000000]" ?s]
    by (simp only: Let_def split_beta)
qed

end
