(* ===== verification/LiveClip.thy ===== *)
theory LiveClip
  imports Prelude
begin

text \<open>
  The life of a live playlist entry, \<open>clips/LiveClip.cpp\<close>: the state machine \<open>onTick\<close> drives
  against the wall clock, with preparation and release of the input. Times are 64-bit nanoseconds
  and counters 32-bit, as in the code. What the network input answers at a tick (its health, the
  time of its last packet, whether \<open>prepare\<close> or \<open>release\<close> throws) is an argument of the tick. The
  frames themselves, and the loss provider that replaces them, are reduced to the source they
  are taken from.

  Results: a clip scheduled once is on air within its window only and is finished by the first tick
  at its end; the input is opened at most once. And two defects: with an input whose packet times
  come from another clock the clip alternates between live and lost, and an input that throws when
  opened is not opened again.
\<close>

datatype LiveState = Idle | WarmingUp | OnAir | Lost | Finished

fun toString :: "LiveState \<Rightarrow> string" where
  "toString Idle = ''Idle''"
| "toString WarmingUp = ''WarmingUp''"
| "toString OnAir = ''Live''"
| "toString Lost = ''Lost''"
| "toString Finished = ''Finished''"

record LiveCfg =
  duration_ns :: u64
  warm_up_ns :: u64
  loss_threshold_ns :: u64

record LiveClip =
  cfg :: LiveCfg
  state :: LiveState
  scheduled_start_ns :: u64
  loss_detected_at :: u64
  loss_count :: u32
  recovered_count :: u32
  prepared :: bool

text \<open>The constructor throws for a duration of zero.\<close>

definition new_LiveClip :: "LiveCfg \<Rightarrow> LiveClip option" where
  "new_LiveClip c = (if duration_ns c = 0 then None
     else Some \<lparr>cfg = c, state = Idle, scheduled_start_ns = 0, loss_detected_at = 0, loss_count = 0,
            recovered_count = 0, prepared = False\<rparr>)"

record LiveInput =
  isHealthy :: bool
  lastPacketNs :: u64
  prepare_throws :: bool
  release_throws :: bool

datatype input_call = CallPrepare | CallRelease

subsection \<open>Operations\<close>

text \<open>Each returns the clip, the calls made of the input, and whether an exception gets out.\<close>

definition prepare :: "LiveInput \<Rightarrow> LiveClip \<Rightarrow> LiveClip \<times> input_call list \<times> bool" where
  "prepare inp c = (if prepared c then (c, [], False)
     else (c\<lparr>prepared := True\<rparr>, [CallPrepare], prepare_throws inp))"

definition release :: "LiveInput \<Rightarrow> LiveClip \<Rightarrow> LiveClip \<times> input_call list \<times> bool" where
  "release inp c = (if \<not> prepared c then (c, [], False)
     else (c\<lparr>prepared := False\<rparr>, [CallRelease], release_throws inp))"

definition setScheduledStart :: "u64 \<Rightarrow> LiveClip \<Rightarrow> LiveClip" where
  "setScheduledStart t c = c\<lparr>scheduled_start_ns := t\<rparr>"

definition isFinished :: "u64 \<Rightarrow> LiveClip \<Rightarrow> bool" where
  "isFinished now_ns c = (if scheduled_start_ns c = 0 then False
     else now_ns \<ge> scheduled_start_ns c + duration_ns (cfg c))"

definition transitionTo :: "LiveState \<Rightarrow> LiveClip \<Rightarrow> LiveClip" where
  "transitionTo s c = c\<lparr>state := s\<rparr>"

definition note_loss :: "u64 \<Rightarrow> LiveClip \<Rightarrow> LiveClip" where
  "note_loss now_ns c = c\<lparr>loss_detected_at := now_ns, loss_count := loss_count c + 1\<rparr>"

definition silent :: "LiveInput \<Rightarrow> u64 \<Rightarrow> LiveClip \<Rightarrow> bool" where
  "silent inp now_ns c = (lastPacketNs inp = 0
     \<or> (now_ns > lastPacketNs inp \<and> now_ns - lastPacketNs inp > loss_threshold_ns (cfg c)))"

definition tick_idle :: "LiveInput \<Rightarrow> u64 \<Rightarrow> LiveClip \<Rightarrow> LiveClip \<times> input_call list" where
  "tick_idle inp now_ns c =
    (let start = scheduled_start_ns c;
         warm_at = (if start > warm_up_ns (cfg c) then start - warm_up_ns (cfg c) else 0)
     in if now_ns \<ge> warm_at then
          let c1 = transitionTo WarmingUp c in
          if \<not> prepared c1 then (case prepare inp c1 of (c2, calls, _) \<Rightarrow> (c2, calls)) else (c1, [])
        else (c, []))"

text \<open>An exception ends the tick: what was done before it stays.\<close>

definition onTick :: "LiveInput \<Rightarrow> u64 \<Rightarrow> LiveClip \<Rightarrow> LiveClip \<times> input_call list" where
  "onTick inp now_ns c =
    (if state c = Finished then (c, [])
     else let start = scheduled_start_ns c in
       if start = 0 then (c, [])
       else if now_ns \<ge> start + duration_ns (cfg c) then
         (if prepared c then
            (case release inp c of (c1, calls, thrown) \<Rightarrow>
               if thrown then (c1, calls) else (transitionTo Finished c1, calls))
          else (transitionTo Finished c, []))
       else case state c of
           Idle \<Rightarrow> tick_idle inp now_ns c
         | WarmingUp \<Rightarrow>
             if now_ns \<ge> start then
               (if isHealthy inp then (transitionTo OnAir c, [])
                else (note_loss now_ns (transitionTo Lost c), []))
             else (c, [])
         | OnAir \<Rightarrow>
             if silent inp now_ns c \<or> \<not> isHealthy inp
             then (transitionTo Lost (note_loss now_ns c), [])
             else (c, [])
         | Lost \<Rightarrow>
             if isHealthy inp
             then (transitionTo OnAir (c\<lparr>recovered_count := recovered_count c + 1\<rparr>), [])
             else (c, [])
         | Finished \<Rightarrow> (c, []))"

text \<open>Where a frame comes from; the default is an invalid frame, for the tail the input's own tail.\<close>

datatype frame_source = FromInput | FromInputTail | FromProvider | InvalidFrame

definition getFrame :: "bool \<Rightarrow> LiveClip \<Rightarrow> frame_source" where
  "getFrame has_provider c = (if state c = OnAir then FromInput
     else if has_provider then FromProvider else InvalidFrame)"

definition getTailFrame :: "bool \<Rightarrow> LiveClip \<Rightarrow> frame_source" where
  "getTailFrame has_provider c = (if state c = OnAir then FromInputTail
     else if has_provider then FromProvider else FromInputTail)"

subsection \<open>Runs of ticks\<close>

fun run_ticks :: "(LiveInput \<times> u64) list \<Rightarrow> LiveClip \<Rightarrow> LiveClip \<times> input_call list" where
  "run_ticks [] c = (c, [])"
| "run_ticks ((inp, t) # ts) c =
    (let (c1, calls1) = onTick inp t c; (c2, calls2) = run_ticks ts c1 in (c2, calls1 @ calls2))"

text \<open>What a clip with a fixed start may look like after a tick at time \<open>t\<close>.\<close>

definition warm_at :: "LiveClip \<Rightarrow> u64" where
  "warm_at c = (if scheduled_start_ns c > warm_up_ns (cfg c)
     then scheduled_start_ns c - warm_up_ns (cfg c) else 0)"

definition ends_at :: "LiveClip \<Rightarrow> u64" where
  "ends_at c = scheduled_start_ns c + duration_ns (cfg c)"

definition state_fits :: "LiveClip \<Rightarrow> u64 \<Rightarrow> bool" where
  "state_fits c t = (case state c of
      Idle \<Rightarrow> t < warm_at c \<and> t < ends_at c
    | WarmingUp \<Rightarrow> warm_at c \<le> t \<and> t < ends_at c
    | OnAir \<Rightarrow> scheduled_start_ns c \<le> t \<and> t < ends_at c
    | Lost \<Rightarrow> scheduled_start_ns c \<le> t \<and> t < ends_at c
    | Finished \<Rightarrow> ends_at c \<le> t)"

definition before_tick :: "LiveClip \<Rightarrow> u64 \<Rightarrow> bool" where
  "before_tick c t = (case state c of
      Idle \<Rightarrow> True
    | WarmingUp \<Rightarrow> warm_at c \<le> t
    | Finished \<Rightarrow> ends_at c \<le> t
    | _ \<Rightarrow> scheduled_start_ns c \<le> t)"

lemmas live_ops = prepare_def release_def transitionTo_def note_loss_def tick_idle_def Let_def

lemma onTick_keeps [simp]:
  "cfg (fst (onTick inp t c)) = cfg c"
  "scheduled_start_ns (fst (onTick inp t c)) = scheduled_start_ns c"
  by (simp_all add: onTick_def live_ops split: LiveState.split)

lemma fixed_times [simp]:
  "warm_at (fst (onTick inp t c)) = warm_at c" "ends_at (fst (onTick inp t c)) = ends_at c"
  by (simp_all add: warm_at_def ends_at_def)

lemma onTick_end:
  "scheduled_start_ns c \<noteq> 0 \<Longrightarrow> ends_at c \<le> t \<Longrightarrow> \<not> release_throws inp
    \<Longrightarrow> state (fst (onTick inp t c)) = Finished"
  by (simp add: onTick_def live_ops ends_at_def)

lemma onTick_running:
  assumes "scheduled_start_ns c \<noteq> 0" "\<not> ends_at c \<le> t"
  shows "state (fst (onTick inp t c)) = (case state c of
      Idle \<Rightarrow> if warm_at c \<le> t then WarmingUp else Idle
    | WarmingUp \<Rightarrow> if scheduled_start_ns c \<le> t then if isHealthy inp then OnAir else Lost else WarmingUp
    | OnAir \<Rightarrow> if silent inp t c \<or> \<not> isHealthy inp then Lost else OnAir
    | Lost \<Rightarrow> if isHealthy inp then OnAir else Lost
    | Finished \<Rightarrow> Finished)"
  using assms by (cases "state c") (simp_all add: onTick_def live_ops ends_at_def warm_at_def)

lemma onTick_fits:
  assumes "scheduled_start_ns c \<noteq> 0" "before_tick c t" "\<not> release_throws inp"
  shows "state_fits (fst (onTick inp t c)) t"
proof (cases "ends_at c \<le> t")
  case True
  then show ?thesis using assms by (simp add: state_fits_def onTick_end)
next
  case False
  then have "t < ends_at c" by simp
  then show ?thesis
    using assms False by (cases "state c") (simp_all add: state_fits_def before_tick_def onTick_running not_le)
qed

lemma fits_before: "state_fits c t \<Longrightarrow> t \<le> t' \<Longrightarrow> before_tick c t'"
  by (auto simp: state_fits_def before_tick_def split: LiveState.splits)

text \<open>The input is open exactly from the warm-up to the end.\<close>

definition opened :: "LiveClip \<Rightarrow> bool" where
  "opened c = (prepared c \<longleftrightarrow> state c \<in> {WarmingUp, OnAir, Lost})"

lemma onTick_opened:
  assumes "opened c" "scheduled_start_ns c \<noteq> 0" "\<not> release_throws inp"
  shows "opened (fst (onTick inp t c))"
    and "count_list (snd (onTick inp t c)) CallPrepare = of_bool (state c = Idle \<and> prepared (fst (onTick inp t c)))"
    and "state c = Finished \<Longrightarrow> fst (onTick inp t c) = c"
    and "state c \<noteq> Idle \<Longrightarrow> state (fst (onTick inp t c)) \<noteq> Idle"
  using assms by (auto simp: onTick_def live_ops opened_def split: LiveState.splits)

lemma run_ticks_fits:
  assumes "scheduled_start_ns c \<noteq> 0" "before_tick c (snd (hd ts))" "opened c"
    "ts \<noteq> []" "sorted (map snd ts)" "list_all (\<lambda>(inp, _). \<not> release_throws inp) ts"
  shows "state_fits (fst (run_ticks ts c)) (snd (last ts)) \<and> opened (fst (run_ticks ts c))
    \<and> scheduled_start_ns (fst (run_ticks ts c)) = scheduled_start_ns c \<and> cfg (fst (run_ticks ts c)) = cfg c
    \<and> count_list (snd (run_ticks ts c)) CallPrepare \<le> of_bool (state c = Idle)"
  using assms
proof (induction ts arbitrary: c)
  case (Cons p ts)
  obtain inp t where p: "p = (inp, t)" by fastforce
  let ?c1 = "fst (onTick inp t c)"
  have nr: "\<not> release_throws inp" using Cons.prems(6) p by simp
  have fit: "state_fits ?c1 t" using Cons.prems p nr by (intro onTick_fits) simp_all
  note op = onTick_opened [OF Cons.prems(3,1) nr, of t]
  show ?case
  proof (cases ts)
    case Nil
    then show ?thesis using fit op(1,2) p by (simp add: split_beta)
  next
    case (Cons p' ts')
    have "t \<le> snd p'" using Cons.prems(5) p Cons by simp
    then have "state_fits (fst (run_ticks ts ?c1)) (snd (last ts)) \<and> opened (fst (run_ticks ts ?c1))
      \<and> scheduled_start_ns (fst (run_ticks ts ?c1)) = scheduled_start_ns c \<and> cfg (fst (run_ticks ts ?c1)) = cfg c
      \<and> count_list (snd (run_ticks ts ?c1)) CallPrepare \<le> of_bool (state ?c1 = Idle)"
      using Cons.IH [of ?c1] Cons.prems fit op(1) p Cons fits_before [OF fit] by simp
    moreover have "of_bool (state c = Idle \<and> prepared ?c1) + of_bool (state ?c1 = Idle) \<le> (of_bool (state c = Idle) :: nat)"
      using op(1,4) by (auto simp: opened_def)
    ultimately show ?thesis using op(2) p Cons by (simp add: split_beta)
  qed
qed simp

subsection \<open>Two defects\<close>

text \<open>
  \<open>onTick\<close> compares the packet time with the tick's time. The render loop passes the wall clock and
  the inputs stamp packets with the steady clock, so \<open>silent\<close> holds at every tick: a healthy input
  is taken off the air at one tick and put back at the next.
\<close>

lemma silent_updates [simp]:
  "silent i t (c\<lparr>state := a\<rparr>) = silent i t c"
  "silent i t (c\<lparr>loss_detected_at := b\<rparr>) = silent i t c"
  "silent i t (c\<lparr>loss_count := n\<rparr>) = silent i t c"
  "silent i t (c\<lparr>recovered_count := n\<rparr>) = silent i t c"
  by (simp_all add: silent_def)

lemma onTick_flap:
  assumes "scheduled_start_ns c \<noteq> 0" "t < ends_at c" "isHealthy inp" "silent inp t c"
  shows "state c = OnAir \<Longrightarrow> onTick inp t c = (c\<lparr>state := Lost, loss_detected_at := t, loss_count := loss_count c + 1\<rparr>, [])"
    and "state c = Lost \<Longrightarrow> onTick inp t c = (c\<lparr>state := OnAir, recovered_count := recovered_count c + 1\<rparr>, [])"
  using assms by (simp_all add: onTick_def live_ops ends_at_def not_le)

lemma run_ticks_flap:
  assumes "scheduled_start_ns c \<noteq> 0" "state c = OnAir" "length ts = 2 * k"
    "\<forall>(inp, t)\<in>set ts. isHealthy inp \<and> silent inp t c \<and> t < ends_at c"
  shows "state (fst (run_ticks ts c)) = OnAir \<and> loss_count (fst (run_ticks ts c)) = loss_count c + of_nat k
    \<and> recovered_count (fst (run_ticks ts c)) = recovered_count c + of_nat k"
  using assms
proof (induction k arbitrary: ts c)
  case (Suc k)
  then obtain i1 t1 i2 t2 ts' where ts: "ts = (i1, t1) # (i2, t2) # ts'" "length ts' = 2 * k"
    by (cases ts; cases "tl ts") auto
  let ?c1 = "c\<lparr>state := Lost, loss_detected_at := t1, loss_count := loss_count c + 1\<rparr>"
  let ?c2 = "?c1\<lparr>state := OnAir, recovered_count := recovered_count c + 1\<rparr>"
  have "onTick i1 t1 c = (?c1, [])"
    using Suc.prems ts by (intro onTick_flap) auto
  moreover have "onTick i2 t2 ?c1 = (?c2, [])"
    using Suc.prems ts onTick_flap(2) [of ?c1 t2 i2] by (simp add: ends_at_def)
  moreover have "state (fst (run_ticks ts' ?c2)) = OnAir
      \<and> loss_count (fst (run_ticks ts' ?c2)) = loss_count ?c2 + of_nat k
      \<and> recovered_count (fst (run_ticks ts' ?c2)) = recovered_count ?c2 + of_nat k"
    using Suc.prems ts by (intro Suc.IH) (auto simp: ends_at_def)
  ultimately show ?case using ts by (simp add: split_beta)
qed simp

text \<open>An input that throws when it is opened counts as prepared: no later tick opens it again.\<close>

lemma failed_prepare_not_retried:
  assumes "state c = Idle" "\<not> prepared c" "scheduled_start_ns c \<noteq> 0" "t < ends_at c" "warm_at c \<le> t" "prepare_throws inp"
  shows "snd (onTick inp t c) = [CallPrepare]" "count_list (snd (run_ticks ts (fst (onTick inp t c)))) CallPrepare = 0"
proof -
  have c1: "onTick inp t c = (c\<lparr>state := WarmingUp, prepared := True\<rparr>, [CallPrepare])"
    using assms by (simp add: onTick_def live_ops ends_at_def warm_at_def)
  then show "snd (onTick inp t c) = [CallPrepare]" by simp
  have "count_list (snd (run_ticks ts c')) CallPrepare = 0" if "state c' \<noteq> Idle" for c'
    using that
  proof (induction ts arbitrary: c')
    case (Cons p ts)
    obtain i u where p: "p = (i, u)" by fastforce
    have "state (fst (onTick i u c')) \<noteq> Idle \<and> count_list (snd (onTick i u c')) CallPrepare = 0"
      using Cons.prems by (cases "state c'") (simp_all add: onTick_def live_ops)
    with Cons.IH p show ?case by (simp add: split_beta)
  qed simp
  then show "count_list (snd (run_ticks ts (fst (onTick inp t c)))) CallPrepare = 0"
    using c1 by simp
qed

text \<open>A finished clip stays finished, whatever start it is given next.\<close>

lemma finished_for_good: "state c = Finished \<Longrightarrow> state (fst (run_ticks ts (setScheduledStart t c))) = Finished"
proof -
  assume f: "state c = Finished"
  have "fst (run_ticks ts c') = c'" if "state c' = Finished" for c'
    using that by (induction ts) (auto simp: onTick_def split_beta)
  then show ?thesis using f by (simp add: setScheduledStart_def)
qed

section \<open>Properties\<close>

text \<open>A live clip that is given its start once and ticked at non-decreasing times is in the state its
  times allow: idle before the warm-up, on air or lost only between start and end, finished from the
  first tick at the end on. Its input is open exactly from the warm-up to the end and is opened at
  most once. (An input whose \<open>release\<close> throws delays the finish by a tick.)\<close>

lemma live_clip_window:
  assumes "new_LiveClip c = Some clip" "start \<noteq> 0" "ts \<noteq> []" "sorted (map snd ts)"
    "list_all (\<lambda>(inp, _). \<not> release_throws inp) ts"
    "run_ticks ts (setScheduledStart start clip) = (clip', calls)" "t = snd (last ts)"
  shows "(case state clip' of
      Idle \<Rightarrow> t < (if start > warm_up_ns c then start - warm_up_ns c else 0) \<and> t < start + duration_ns c
    | WarmingUp \<Rightarrow> (if start > warm_up_ns c then start - warm_up_ns c else 0) \<le> t \<and> t < start + duration_ns c
    | Finished \<Rightarrow> start + duration_ns c \<le> t
    | _ \<Rightarrow> start \<le> t \<and> t < start + duration_ns c)
    \<and> prepared clip' = (state clip' \<in> {WarmingUp, OnAir, Lost})
    \<and> count_list calls CallPrepare \<le> 1"
proof -
  let ?clip = "setScheduledStart start clip"
  have clip: "cfg ?clip = c" "scheduled_start_ns ?clip = start" "state ?clip = Idle" "opened ?clip"
    using assms(1) by (auto simp: new_LiveClip_def setScheduledStart_def opened_def split: if_splits)
  have fit: "state_fits clip' t \<and> opened clip' \<and> scheduled_start_ns clip' = start \<and> cfg clip' = c
      \<and> count_list calls CallPrepare \<le> of_bool (state ?clip = Idle)"
    using run_ticks_fits [of ?clip ts] assms clip by (simp add: before_tick_def)
  then have w: "(if start > warm_up_ns c then start - warm_up_ns c else 0) = warm_at clip'"
    "start + duration_ns c = ends_at clip'"
    by (simp_all add: warm_at_def ends_at_def)
  show ?thesis
    unfolding w using fit clip(3) by (cases "state clip'") (auto simp: state_fits_def opened_def)
qed

text \<open>With packet times that do not come from the tick's clock a healthy input is taken off the air and
  put back for ever: every pair of ticks counts one loss and one recovery, and in between the clip
  shows the loss provider.\<close>

lemma foreign_clock_flaps:
  assumes "state c = OnAir" "scheduled_start_ns c \<noteq> 0" "length ts = 2 * k" "isHealthy inp"
    "\<forall>(i, t)\<in>set ((inp, u) # ts). isHealthy i \<and> silent i t c \<and> t < scheduled_start_ns c + duration_ns (cfg c)"
  shows "state (fst (run_ticks ts c)) = OnAir \<and> state (fst (onTick inp u c)) = Lost
    \<and> getFrame p (fst (onTick inp u c)) \<noteq> FromInput
    \<and> loss_count (fst (run_ticks ts c)) = loss_count c + of_nat k
    \<and> recovered_count (fst (run_ticks ts c)) = recovered_count c + of_nat k"
  using run_ticks_flap [OF assms(2,1,3)] onTick_flap(1) [of c u inp] assms
  by (simp add: ends_at_def getFrame_def)

end
