(* ===== verification/PlayersDb.thy ===== *)
theory PlayersDb
  imports Prelude "HOL-Library.List_Lexorder" "HOL-Library.Char_ord"
begin

text \<open>
  The tables of \<open>players/PlayersDb.cpp\<close> that the command service works on, and the operations the
  service makes of them. A table is the list of its rows in the order of their row ids, an SQL
  statement is the list operation it denotes, and the constraints of the schema (primary keys, and
  the partial unique index \<open>ux_commands_pending\<close>, one unsettled command for a screen and a type)
  are tests of the inserting operation. States are the strings the tables hold, 64-bit integers are
  unbounded, a \<open>now\<close> of zero, which reads the clock, is taken as read. \<open>writable\<close> is false when the
  storage refuses every write (a full or read-only disk); reads then still work.

  Results: every operation keeps the constraints of the schema, and a settled command is never
  changed again.
\<close>

datatype PlayerState = Pending | Active | Revoked

record PlayerRow =
  player_id :: string
  player_state :: PlayerState
  player_created :: int
  group_id :: "int option"

record ObjectRow =
  object_id :: int
  object_name :: string

record GroupRow =
  grp_id :: int
  grp_object :: int
  grp_name :: string

record StatusRow =
  status_player :: string
  online :: bool

record CommandRow =
  cmd_id :: string
  cmd_player :: string
  cmd_type :: string
  cmd_state :: string
  cmd_result :: string
  issued_at :: int
  ttl_seconds :: int
  deadline_at :: int
  issued_by :: "int option"
  finished_at :: "int option"

record JobRow =
  job_id :: string
  job_type :: string
  target_kind :: string
  target_id :: int
  target_name :: string
  job_state :: string
  stop_reason :: string
  batch_size :: int
  stop_percent :: int
  next_batch :: int
  created_at :: int
  created_by :: "int option"
  job_finished_at :: "int option"

record JobItem =
  item_job :: string
  item_player :: string
  batch_no :: int
  item_state :: string
  item_command :: string
  item_error :: string

record db =
  players :: "PlayerRow list"
  objects :: "ObjectRow list"
  groups :: "GroupRow list"
  statuses :: "StatusRow list"
  commands :: "CommandRow list"
  jobs :: "JobRow list"
  job_items :: "JobItem list"
  writable :: bool

subsection \<open>Players and their places\<close>

definition findPlayer :: "db \<Rightarrow> string \<Rightarrow> PlayerRow option" where
  "findPlayer d i = find (\<lambda>p. player_id p = i) (players d)"

definition findGroup :: "db \<Rightarrow> int \<Rightarrow> GroupRow option" where
  "findGroup d i = find (\<lambda>g. grp_id g = i) (groups d)"

definition findObject :: "db \<Rightarrow> int \<Rightarrow> ObjectRow option" where
  "findObject d i = find (\<lambda>q. object_id q = i) (objects d)"

definition player_status :: "db \<Rightarrow> string \<Rightarrow> StatusRow option" where
  "player_status d i = find (\<lambda>r. status_player r = i) (statuses d)"

text \<open>The join of \<open>placeOfPlayer\<close>: the player's group and that group's object.\<close>

definition placeOfPlayer :: "db \<Rightarrow> string \<Rightarrow> (int \<times> int) option" where
  "placeOfPlayer d i = (case findPlayer d i of
     None \<Rightarrow> None
   | Some p \<Rightarrow> (case group_id p of
        None \<Rightarrow> None
      | Some g \<Rightarrow> (case findGroup d g of None \<Rightarrow> None | Some row \<Rightarrow> Some (grp_id row, grp_object row))))"

record ListFilter =
  flt_state :: "PlayerState option"
  flt_group :: "int option"
  flt_object :: "int option"

definition filter_accepts :: "db \<Rightarrow> ListFilter \<Rightarrow> PlayerRow \<Rightarrow> bool" where
  "filter_accepts d f p \<longleftrightarrow>
     (case flt_state f of None \<Rightarrow> True | Some st \<Rightarrow> player_state p = st) \<and>
     (case flt_group f of None \<Rightarrow> True | Some g \<Rightarrow> group_id p = Some g) \<and>
     (case flt_object f of None \<Rightarrow> True
      | Some q \<Rightarrow> list_ex (\<lambda>g. grp_object g = q \<and> group_id p = Some (grp_id g)) (groups d))"

definition listPlayers :: "db \<Rightarrow> ListFilter \<Rightarrow> PlayerRow list" where
  "listPlayers d f = sort_key player_created (sort_key player_id (filter (filter_accepts d f) (players d)))"

subsection \<open>Commands\<close>

datatype CommandCreate = CreateOk | CreateBusy string | CreateStorage

definition pending_for :: "string \<Rightarrow> string \<Rightarrow> CommandRow \<Rightarrow> bool" where
  "pending_for p t c \<longleftrightarrow> cmd_player c = p \<and> cmd_type c = t \<and> cmd_state c = ''pending''"

definition createCommand :: "db \<Rightarrow> CommandRow \<Rightarrow> CommandCreate \<times> db" where
  "createCommand d row =
     (if \<not> writable d \<or> list_ex (\<lambda>c. cmd_id c = cmd_id row) (commands d) then (CreateStorage, d)
      else case find (pending_for (cmd_player row) (cmd_type row)) (commands d) of
        Some c \<Rightarrow> (CreateBusy (cmd_id c), d)
      | None \<Rightarrow> (CreateOk, d\<lparr>commands := commands d
          @ [row\<lparr>cmd_state := ''pending'', cmd_result := [], finished_at := None\<rparr>]\<rparr>))"

definition findCommand :: "db \<Rightarrow> string \<Rightarrow> CommandRow option" where
  "findCommand d i = find (\<lambda>c. cmd_id c = i) (commands d)"

definition pendingCommandsOf :: "db \<Rightarrow> string \<Rightarrow> CommandRow list" where
  "pendingCommandsOf d p =
     sort_key issued_at (filter (\<lambda>c. cmd_player c = p \<and> cmd_state c = ''pending'') (commands d))"

definition settle_row :: "string \<Rightarrow> string \<Rightarrow> int \<Rightarrow> CommandRow \<Rightarrow> CommandRow" where
  "settle_row st res now c = c\<lparr>cmd_state := st, cmd_result := res, finished_at := Some now\<rparr>"

definition is_pending :: "string \<Rightarrow> CommandRow \<Rightarrow> bool" where
  "is_pending i c \<longleftrightarrow> cmd_id c = i \<and> cmd_state c = ''pending''"

definition settleCommand :: "db \<Rightarrow> string \<Rightarrow> string \<Rightarrow> string \<Rightarrow> int \<Rightarrow> CommandRow option \<times> db" where
  "settleCommand d i st res now =
     (if \<not> writable d \<or> \<not> list_ex (is_pending i) (commands d) then (None, d)
      else let d' = d\<lparr>commands := map (\<lambda>c. if is_pending i c then settle_row st res now c else c) (commands d)\<rparr>
           in (findCommand d' i, d'))"

definition overdue :: "int \<Rightarrow> CommandRow \<Rightarrow> bool" where
  "overdue now c \<longleftrightarrow> cmd_state c = ''pending'' \<and> deadline_at c \<le> now"

text \<open>The rows are answered as timed out whether or not the update went through.\<close>

definition timeoutCommands :: "db \<Rightarrow> int \<Rightarrow> CommandRow list \<times> db" where
  "timeoutCommands d now =
     (let late = filter (overdue now) (commands d) in
      (map (settle_row ''timeout'' ''no_confirmation'' now) late,
       if writable d then d\<lparr>commands := map (\<lambda>c. if list_ex (\<lambda>l. is_pending (cmd_id l) c) late
           then settle_row ''timeout'' ''no_confirmation'' now c else c) (commands d)\<rparr>
       else d))"

definition command_expired :: "int \<Rightarrow> CommandRow \<Rightarrow> bool" where
  "command_expired ts c \<longleftrightarrow> cmd_state c \<noteq> ''pending'' \<and>
     (case finished_at c of None \<Rightarrow> False | Some t \<Rightarrow> t < ts)"

definition purgeSettledCommandsOlderThan :: "db \<Rightarrow> int \<Rightarrow> db" where
  "purgeSettledCommandsOlderThan d ts =
     (if writable d then d\<lparr>commands := filter (\<lambda>c. \<not> command_expired ts c) (commands d)\<rparr> else d)"

subsection \<open>Jobs\<close>

definition findJob :: "db \<Rightarrow> string \<Rightarrow> JobRow option" where
  "findJob d i = find (\<lambda>j. job_id j = i) (jobs d)"

definition runningJobs :: "db \<Rightarrow> JobRow list" where
  "runningJobs d = sort_key created_at (filter (\<lambda>j. job_state j = ''running'') (jobs d))"

definition jobItems :: "db \<Rightarrow> string \<Rightarrow> JobItem list" where
  "jobItems d i = sort_key batch_no (filter (\<lambda>it. item_job it = i) (job_items d))"

definition item_key :: "JobItem \<Rightarrow> string \<times> string" where
  "item_key it = (item_job it, item_player it)"

text \<open>One transaction: the job and its items, or nothing. The columns not named start empty.\<close>

definition createJob :: "db \<Rightarrow> JobRow \<Rightarrow> JobItem list \<Rightarrow> bool \<times> db" where
  "createJob d job items =
     (let rows = map (\<lambda>it. it\<lparr>item_job := job_id job, item_command := [], item_error := []\<rparr>) items in
      if writable d \<and> \<not> list_ex (\<lambda>j. job_id j = job_id job) (jobs d)
         \<and> distinct (map item_key (job_items d @ rows))
      then (True, d\<lparr>jobs := jobs d @ [job\<lparr>job_state := ''running'', stop_reason := [], next_batch := 0,
              job_finished_at := None\<rparr>], job_items := job_items d @ rows\<rparr>)
      else (False, d))"

definition item_at :: "string \<Rightarrow> string \<Rightarrow> JobItem \<Rightarrow> bool" where
  "item_at j p it \<longleftrightarrow> item_job it = j \<and> item_player it = p"

definition updateJobItem :: "db \<Rightarrow> string \<Rightarrow> string \<Rightarrow> string \<Rightarrow> string \<Rightarrow> string \<Rightarrow> db" where
  "updateJobItem d j p st cmd err =
     (if writable d then d\<lparr>job_items := map (\<lambda>it. if item_at j p it
          then it\<lparr>item_state := st, item_command := cmd, item_error := err\<rparr> else it) (job_items d)\<rparr>
      else d)"

definition is_running :: "string \<Rightarrow> JobRow \<Rightarrow> bool" where
  "is_running i j \<longleftrightarrow> job_id j = i \<and> job_state j = ''running''"

definition setNextBatch :: "db \<Rightarrow> string \<Rightarrow> int \<Rightarrow> db" where
  "setNextBatch d i n =
     (if writable d then d\<lparr>jobs := map (\<lambda>j. if is_running i j then j\<lparr>next_batch := n\<rparr> else j) (jobs d)\<rparr> else d)"

definition queued_of :: "string \<Rightarrow> JobItem \<Rightarrow> bool" where
  "queued_of i it \<longleftrightarrow> item_job it = i \<and> item_state it = ''queued''"

definition finishJob :: "db \<Rightarrow> string \<Rightarrow> string \<Rightarrow> string \<Rightarrow> int \<Rightarrow> bool \<times> db" where
  "finishJob d i st reason now =
     (if writable d \<and> list_ex (is_running i) (jobs d)
      then (True, d\<lparr>
        jobs := map (\<lambda>j. if is_running i j
          then j\<lparr>job_state := st, stop_reason := reason, job_finished_at := Some now\<rparr> else j) (jobs d),
        job_items := map (\<lambda>it. if queued_of i it then it\<lparr>item_state := ''cancelled''\<rparr> else it) (job_items d)\<rparr>)
      else (False, d))"

text \<open>The items of a job go with it.\<close>

definition job_expired :: "int \<Rightarrow> JobRow \<Rightarrow> bool" where
  "job_expired ts j \<longleftrightarrow> job_state j \<noteq> ''running'' \<and>
     (case job_finished_at j of None \<Rightarrow> False | Some t \<Rightarrow> t < ts)"

definition purgeFinishedJobsOlderThan :: "db \<Rightarrow> int \<Rightarrow> db" where
  "purgeFinishedJobsOlderThan d ts =
     (if writable d then
        (let gone = map job_id (filter (job_expired ts) (jobs d)) in
         d\<lparr>jobs := filter (\<lambda>j. \<not> job_expired ts j) (jobs d),
           job_items := filter (\<lambda>it. \<not> List.member gone (item_job it)) (job_items d)\<rparr>)
      else d)"

text \<open>The grouped count: one row for every combination of item state and command state that occurs.\<close>

record JobItemCount =
  count_state :: string
  count_command :: string
  has_command :: bool
  count_n :: nat

definition joined :: "db \<Rightarrow> JobItem \<Rightarrow> CommandRow option" where
  "joined d it = (if item_command it = [] then None else findCommand d (item_command it))"

definition count_key :: "db \<Rightarrow> JobItem \<Rightarrow> string \<times> string \<times> bool" where
  "count_key d it = (item_state it, (case joined d it of None \<Rightarrow> [] | Some c \<Rightarrow> cmd_state c),
     joined d it \<noteq> None)"

definition jobItemCounts :: "db \<Rightarrow> string \<Rightarrow> JobItemCount list" where
  "jobItemCounts d i =
     (let keys = map (count_key d) (filter (\<lambda>it. item_job it = i) (job_items d)) in
      map (\<lambda>k. \<lparr>count_state = fst k, count_command = fst (snd k), has_command = snd (snd k),
                 count_n = count_list keys k\<rparr>) (remdups keys))"

subsection \<open>The constraints of the schema\<close>

definition pending_keys :: "CommandRow list \<Rightarrow> (string \<times> string) list" where
  "pending_keys cs = map (\<lambda>c. (cmd_player c, cmd_type c)) (filter (\<lambda>c. cmd_state c = ''pending'') cs)"

definition commands_ok :: "CommandRow list \<Rightarrow> bool" where
  "commands_ok cs \<longleftrightarrow> distinct (map cmd_id cs) \<and> distinct (pending_keys cs)"

definition items_ok :: "db \<Rightarrow> bool" where
  "items_ok d \<longleftrightarrow> distinct (map item_key (job_items d)) \<and> distinct (map job_id (jobs d))
     \<and> (\<forall>k \<in> set (map item_key (job_items d)). fst k \<in> set (map job_id (jobs d)))"

definition schema_ok :: "db \<Rightarrow> bool" where
  "schema_ok d \<longleftrightarrow> commands_ok (commands d) \<and> items_ok d"

lemma map_keeps_key: "(\<And>x. k (f x) = k x) \<Longrightarrow> map k (map f xs) = map k xs"
  by simp

lemma find_append: "find P (xs @ ys) = (case find P xs of None \<Rightarrow> find P ys | Some x \<Rightarrow> Some x)"
  by (induction xs) auto

lemma find_SomeD: "find P xs = Some x \<Longrightarrow> x \<in> set xs \<and> P x"
  by (auto simp: find_Some_iff)

lemma find_distinct:
  assumes "distinct (map k xs)" "x \<in> set xs"
  shows "find (\<lambda>y. k y = k x) xs = Some x"
  using assms by (induction xs) (auto simp: rev_image_eqI)

lemma settle_row_simps [simp]:
  "cmd_id (settle_row st res now c) = cmd_id c"
  "cmd_player (settle_row st res now c) = cmd_player c"
  "cmd_type (settle_row st res now c) = cmd_type c"
  "cmd_state (settle_row st res now c) = st"
  "cmd_result (settle_row st res now c) = res"
  "issued_at (settle_row st res now c) = issued_at c"
  "deadline_at (settle_row st res now c) = deadline_at c"
  by (simp_all add: settle_row_def)

lemma pending_keys_simps [simp]:
  "pending_keys [] = []"
  "pending_keys (cs @ ds) = pending_keys cs @ pending_keys ds"
  "pending_keys (c # cs) = (if cmd_state c = ''pending'' then [(cmd_player c, cmd_type c)] else []) @ pending_keys cs"
  by (simp_all add: pending_keys_def)

lemma set_pending_keys:
  "(p, t) \<in> set (pending_keys cs) \<longleftrightarrow> (\<exists>c \<in> set cs. pending_for p t c)"
  by (auto simp: pending_keys_def pending_for_def)

text \<open>Settling some of the rows keeps the constraints.\<close>

lemma commands_ok_settle:
  assumes "commands_ok cs" "st \<noteq> ''pending''"
  shows "commands_ok (map (\<lambda>c. if P c then settle_row st res now c else c) cs)" (is "commands_ok (map ?f cs)")
proof -
  have ids: "map cmd_id (map ?f cs) = map cmd_id cs" by (rule map_keeps_key) simp
  have sub: "set (pending_keys (map ?f cs)) \<subseteq> set (pending_keys cs)" for cs
    by (induction cs) (use assms(2) in auto)
  have "distinct (pending_keys (map ?f cs))" if "distinct (pending_keys cs)" for cs
    using that
  proof (induction cs)
    case (Cons c cs)
    then show ?case using sub [of cs] assms(2) by auto
  qed simp
  with assms(1) ids show ?thesis by (simp only: commands_ok_def)
qed

lemma commands_ok_filter:
  assumes "commands_ok cs"
  shows "commands_ok (filter P cs)"
proof -
  have sub: "set (pending_keys (filter P cs)) \<subseteq> set (pending_keys cs)" for cs
    by (induction cs) auto
  have "distinct (pending_keys (filter P cs))" if "distinct (pending_keys cs)" for cs
    using that
  proof (induction cs)
    case (Cons c cs)
    then show ?case using sub [of cs] by auto
  qed simp
  with assms show ?thesis by (simp add: commands_ok_def distinct_map_filter)
qed

lemma createCommand_ok:
  assumes "schema_ok d"
  shows "schema_ok (snd (createCommand d row))"
proof (cases "\<not> writable d \<or> list_ex (\<lambda>c. cmd_id c = cmd_id row) (commands d)
    \<or> find (pending_for (cmd_player row) (cmd_type row)) (commands d) \<noteq> None")
  case True
  with assms show ?thesis by (auto simp: createCommand_def)
next
  case False
  then have n: "find (pending_for (cmd_player row) (cmd_type row)) (commands d) = None" by simp
  have "(cmd_player row, cmd_type row) \<notin> set (pending_keys (commands d))"
    using n by (auto simp: set_pending_keys find_None_iff)
  with False assms n show ?thesis
    by (auto simp: createCommand_def schema_ok_def commands_ok_def items_ok_def list_ex_iff)
qed

lemma settleCommand_ok:
  assumes "schema_ok d" "st \<noteq> ''pending''"
  shows "schema_ok (snd (settleCommand d i st res now))"
  using assms commands_ok_settle [of "commands d" st "is_pending i" res now]
  by (simp add: settleCommand_def schema_ok_def items_ok_def Let_def)

lemma timeoutCommands_ok: "schema_ok d \<Longrightarrow> schema_ok (snd (timeoutCommands d now))"
  by (simp add: timeoutCommands_def schema_ok_def items_ok_def Let_def commands_ok_settle)

lemma purgeSettledCommands_ok: "schema_ok d \<Longrightarrow> schema_ok (purgeSettledCommandsOlderThan d ts)"
  by (simp add: purgeSettledCommandsOlderThan_def schema_ok_def items_ok_def commands_ok_filter)

lemma item_key_simps [simp]:
  "item_key (it\<lparr>item_state := st\<rparr>) = item_key it"
  "item_key (it\<lparr>item_command := cmd\<rparr>) = item_key it"
  "item_key (it\<lparr>item_error := err\<rparr>) = item_key it"
  by (simp_all add: item_key_def)

lemma untouched [simp]:
  "commands (updateJobItem d j p st cmd err) = commands d" "writable (updateJobItem d j p st cmd err) = writable d"
  "jobs (updateJobItem d j p st cmd err) = jobs d" "players (updateJobItem d j p st cmd err) = players d"
  "statuses (updateJobItem d j p st cmd err) = statuses d"
  "commands (setNextBatch d j n) = commands d" "writable (setNextBatch d j n) = writable d"
  "job_items (setNextBatch d j n) = job_items d" "players (setNextBatch d j n) = players d"
  "statuses (setNextBatch d j n) = statuses d"
  "commands (snd (finishJob d j st reason now)) = commands d"
  "writable (snd (finishJob d j st reason now)) = writable d"
  "players (snd (finishJob d j st reason now)) = players d"
  "statuses (snd (finishJob d j st reason now)) = statuses d"
  "commands (snd (createJob d job its)) = commands d" "writable (snd (createJob d job its)) = writable d"
  "players (snd (createJob d job its)) = players d" "statuses (snd (createJob d job its)) = statuses d"
  by (simp_all add: updateJobItem_def setNextBatch_def finishJob_def createJob_def Let_def)

lemma createJob_ok: "schema_ok d \<Longrightarrow> schema_ok (snd (createJob d job its))"
proof -
  assume ok: "schema_ok d"
  show ?thesis
  proof (cases "snd (createJob d job its) = d")
    case False
    let ?rows = "map (\<lambda>it. it\<lparr>item_job := job_id job, item_command := [], item_error := []\<rparr>) its"
    from False have "snd (createJob d job its) = d\<lparr>jobs := jobs d @ [job\<lparr>job_state := ''running'', stop_reason := [],
        next_batch := 0, job_finished_at := None\<rparr>], job_items := job_items d @ ?rows\<rparr>"
      and "\<forall>j \<in> set (jobs d). job_id j \<noteq> job_id job" "distinct (map item_key (job_items d @ ?rows))"
      by (auto simp: createJob_def Let_def list_ex_iff simp del: map_append split: if_splits)
    moreover from this(2) ok have "distinct (map job_id (jobs d @ [job\<lparr>job_state := ''running'', stop_reason := [],
        next_batch := 0, job_finished_at := None\<rparr>]))"
      by (auto simp: schema_ok_def items_ok_def)
    ultimately show ?thesis using ok
      by (auto simp: schema_ok_def items_ok_def item_key_def simp del: map_append distinct_append)
  qed (use ok in simp)
qed

lemma items_ok_cong:
  "map item_key (job_items d') = map item_key (job_items d) \<Longrightarrow> map job_id (jobs d') = map job_id (jobs d)
   \<Longrightarrow> items_ok d' = items_ok d"
  by (simp only: items_ok_def)

lemma updateJobItem_ok: "schema_ok d \<Longrightarrow> schema_ok (updateJobItem d j p st cmd err)"
  by (subst schema_ok_def, subst items_ok_cong [of _ d])
    (auto simp: schema_ok_def, auto simp: updateJobItem_def)

lemma setNextBatch_ok: "schema_ok d \<Longrightarrow> schema_ok (setNextBatch d j n)"
  by (subst schema_ok_def, subst items_ok_cong [of _ d])
    (auto simp: schema_ok_def, auto simp: setNextBatch_def)

lemma finishJob_ok: "schema_ok d \<Longrightarrow> schema_ok (snd (finishJob d j st reason now))"
  by (subst schema_ok_def, subst items_ok_cong [of _ d])
    (auto simp: schema_ok_def, auto simp: finishJob_def)

lemma purgeFinishedJobs_ok: "schema_ok d \<Longrightarrow> schema_ok (purgeFinishedJobsOlderThan d ts)"
  by (auto simp: purgeFinishedJobsOlderThan_def schema_ok_def items_ok_def Let_def distinct_map_filter image_iff item_key_def)

lemmas schema_preserved = createCommand_ok settleCommand_ok timeoutCommands_ok purgeSettledCommands_ok
  createJob_ok updateJobItem_ok setNextBatch_ok finishJob_ok purgeFinishedJobs_ok

end
