(* ===== verification/CommandService.thy ===== *)
theory CommandService
  imports PlayersDb CText "HOL-Library.Multiset"
begin

text \<open>
  Commands to players, \<open>players/CommandService.cpp\<close>: sending one to a screen, settling it, and the
  jobs that send one to many screens in batches. The service is its database, the calls it has made
  of the broker and the news it has given (events, journal lines, audit calls); every handler is
  one atomic step. The broker is the function \<open>publish\<close> of the options: what it answers to the
  n-th attempt, in whatever pattern of connects and disconnects. Fresh UUIDs come from \<open>new_id\<close>.
  The loop of \<open>advance\<close> is a partial function: \<open>None\<close> means that it does not return.
\<close>

datatype PublishResult = PubOk | NotConnected | Rejected | PubFailed

text \<open>The payload is the JSON object with these four fields; the topic names the player.\<close>

record Message =
  topic :: string
  body_id :: string
  body_issued_at :: int
  body_ttl :: int
  body_type :: string
  qos :: int
  retain :: bool
  expiry_s :: u32

record PlayersSettings =
  command_ttl_s :: int
  confirm_timeout_restart_s :: int
  confirm_timeout_reboot_s :: int
  confirm_timeout_reload_s :: int
  command_batch_size :: int
  command_batch_stop_percent :: int

record options =
  publish :: "(nat \<Rightarrow> Message \<Rightarrow> PublishResult) option"
  new_id :: "nat \<Rightarrow> string"
  settings :: PlayersSettings
  broker_wait_s :: int

record JobSummary =
  total :: nat
  sum_queued :: nat
  sum_pending :: nat
  sum_executed :: nat
  sum_unconfirmed :: nat
  sum_failed :: nat
  sum_skipped :: nat
  sum_cancelled :: nat

datatype news =
    Announce CommandRow "(int \<times> int) option"
  | AnnounceJob string string "int option"
  | Journal string string string
  | BulkSent CommandRow JobRow
  | JobEnd JobRow JobSummary

record service =
  sdb :: db
  attempts :: nat
  outbox :: "Message list"
  news :: "news list"
  ids :: nat
  waiting :: "string \<Rightarrow> int option"

definition kRestartPlayer :: string where "kRestartPlayer = ''restart_player''"
definition kRebootScreen :: string where "kRebootScreen = ''reboot_screen''"
definition kReloadPlaylist :: string where "kReloadPlaylist = ''reload_playlist''"

definition kClockSlackS :: int where "kClockSlackS = 60"

definition supportedType :: "string \<Rightarrow> bool" where
  "supportedType t \<longleftrightarrow> t = kRestartPlayer \<or> t = kRebootScreen \<or> t = kReloadPlaylist"

definition confirmTimeoutFor :: "PlayersSettings \<Rightarrow> string \<Rightarrow> int" where
  "confirmTimeoutFor p t =
     (if t = kRebootScreen then confirm_timeout_reboot_s p
      else if t = kReloadPlaylist then confirm_timeout_reload_s p
      else confirm_timeout_restart_s p)"

definition tell :: "news list \<Rightarrow> service \<Rightarrow> service" where
  "tell ns s = s\<lparr>news := news s @ ns\<rparr>"

definition announce :: "CommandRow \<Rightarrow> service \<Rightarrow> service" where
  "announce c s = tell [Announce c (placeOfPlayer (sdb s) (cmd_player c))] s"

definition announceJob :: "string \<Rightarrow> service \<Rightarrow> service" where
  "announceJob i s = (case findJob (sdb s) i of None \<Rightarrow> s
     | Some j \<Rightarrow> tell [AnnounceJob (job_id j) (job_state j) (created_by j)] s)"

subsection \<open>One screen\<close>

record CommandOutcome =
  ok :: bool
  err :: string
  out_row :: "CommandRow option"
  busy_id :: string
  player_online :: bool

definition refused :: "string \<Rightarrow> CommandOutcome" where
  "refused e = \<lparr>ok = False, err = e, out_row = None, busy_id = [], player_online = False\<rparr>"

definition new_command :: "options \<Rightarrow> string \<Rightarrow> string \<Rightarrow> string \<Rightarrow> int option \<Rightarrow> int \<Rightarrow> CommandRow" where
  "new_command cf i p t by_user now =
     \<lparr>cmd_id = i, cmd_player = p, cmd_type = t, cmd_state = ''pending'', cmd_result = [],
      issued_at = now, ttl_seconds = command_ttl_s (settings cf),
      deadline_at = now + confirmTimeoutFor (settings cf) t, issued_by = by_user, finished_at = None\<rparr>"

definition message_of :: "CommandRow \<Rightarrow> Message" where
  "message_of row =
     \<lparr>topic = ''liveqx/v1/players/'' @ cmd_player row @ ''/commands'', body_id = cmd_id row,
      body_issued_at = issued_at row, body_ttl = ttl_seconds row, body_type = cmd_type row,
      qos = 1, retain = False, expiry_s = word_of_int (ttl_seconds row)\<rparr>"

text \<open>What follows the insertion of the row: the broker's answer decides.\<close>

definition publish_command ::
  "(nat \<Rightarrow> Message \<Rightarrow> PublishResult) \<Rightarrow> CommandRow \<Rightarrow> int \<Rightarrow> service \<Rightarrow> CommandOutcome \<times> service" where
  "publish_command pub row now s =
     (let pr = pub (attempts s) (message_of row); s1 = s\<lparr>attempts := attempts s + 1\<rparr> in
      if pr \<noteq> PubOk then
        (let (settled, d) = settleCommand (sdb s1) (cmd_id row) ''not_sent''
               (if pr = NotConnected then ''broker_not_connected'' else ''broker_error'') now;
             s2 = s1\<lparr>sdb := d\<rparr> in
         case settled of
           None \<Rightarrow> (refused ''broker_unavailable'', s2)
         | Some c \<Rightarrow> ((refused ''broker_unavailable'')\<lparr>out_row := Some c\<rparr>, announce c s2))
      else
        (let s2 = s1\<lparr>outbox := outbox s1 @ [message_of row]\<rparr> in
         (\<lparr>ok = True, err = [], out_row = Some row, busy_id = [],
           player_online = (case player_status (sdb s2) (cmd_player row) of None \<Rightarrow> False | Some r \<Rightarrow> online r)\<rparr>,
          announce row (tell [Journal (cmd_player row) ''command_sent'' (cmd_id row)] s2))))"

definition sendToPlayer ::
  "options \<Rightarrow> string \<Rightarrow> string \<Rightarrow> int option \<Rightarrow> int \<Rightarrow> service \<Rightarrow> CommandOutcome \<times> service" where
  "sendToPlayer cf p t by_user now s =
     (if \<not> supportedType t then (refused ''unsupported_type'', s)
      else case findPlayer (sdb s) p of
        None \<Rightarrow> (refused ''player_not_found'', s)
      | Some pl \<Rightarrow>
        if player_state pl \<noteq> Active then (refused ''player_not_active'', s)
        else case publish cf of
          None \<Rightarrow> (refused ''broker_unavailable'', s)
        | Some pub \<Rightarrow>
          (let row = new_command cf (new_id cf (ids s)) p t by_user now;
               (res, d) = createCommand (sdb s) row;
               s1 = s\<lparr>sdb := d, ids := ids s + 1\<rparr> in
           case res of
             CreateOk \<Rightarrow> publish_command pub row now s1
           | CreateBusy b \<Rightarrow> ((refused ''command_in_progress'')\<lparr>busy_id := b\<rparr>, s1)
           | CreateStorage \<Rightarrow> (refused ''storage_error'', s1)))"

text \<open>The state a player's report settles a command to, and the recorded result.\<close>

definition verdict :: "CommandRow \<Rightarrow> string \<Rightarrow> int option \<Rightarrow> int \<Rightarrow> string \<times> string" where
  "verdict c status os_uptime now =
     (if status = ''executed'' \<or> status = ''duplicate'' then
        (case os_uptime of
           Some up \<Rightarrow> if cmd_type c = kRebootScreen \<and> now - up < issued_at c - kClockSlackS
                      then (''failed'', ''os_not_rebooted'') else (''executed'', status)
         | None \<Rightarrow> (''executed'', status))
      else (''failed'', status))"

definition onResult :: "string \<Rightarrow> string \<Rightarrow> string \<Rightarrow> int option \<Rightarrow> int \<Rightarrow> service \<Rightarrow> service" where
  "onResult p i status os_uptime now s =
     (case findCommand (sdb s) i of
        None \<Rightarrow> s
      | Some c \<Rightarrow>
        if cmd_player c \<noteq> p \<or> cmd_state c \<noteq> ''pending'' then s
        else (let (st, res) = verdict c status os_uptime now;
                  (settled, d) = settleCommand (sdb s) i st res now; s1 = s\<lparr>sdb := d\<rparr> in
              case settled of None \<Rightarrow> s1
              | Some r \<Rightarrow> announce r (tell [Journal p (''command_'' @ st) i] s1)))"

fun sweep_tell :: "CommandRow list \<Rightarrow> service \<Rightarrow> service" where
  "sweep_tell [] s = s"
| "sweep_tell (c # cs) s = sweep_tell cs (announce c (tell [Journal (cmd_player c) ''command_timeout'' (cmd_id c)] s))"

definition sweep :: "int \<Rightarrow> service \<Rightarrow> nat \<times> service" where
  "sweep now s = (let (late, d) = timeoutCommands (sdb s) now in
     (length late, sweep_tell late (s\<lparr>sdb := d\<rparr>)))"

definition release_command :: "string \<Rightarrow> int \<Rightarrow> service \<Rightarrow> CommandRow option \<times> service" where
  "release_command i now s =
     (let (settled, d) = settleCommand (sdb s) i ''released'' ''released_by_admin'' now; s1 = s\<lparr>sdb := d\<rparr> in
      case settled of None \<Rightarrow> (None, s1)
      | Some r \<Rightarrow> (Some r, announce r (tell [Journal (cmd_player r) ''command_released'' i] s1)))"

subsection \<open>What a bulk command is aimed at\<close>

datatype TargetKind = Group | Object | All

record CommandTarget =
  kind :: TargetKind
  tgt_id :: int

record BulkPlan =
  found :: bool
  plan_name :: string
  online_ids :: "string list"
  offline_ids :: "string list"
  busy :: "(string \<times> string) list"
  required_phrase :: string
  plan_total :: nat

definition no_plan :: BulkPlan where
  "no_plan = \<lparr>found = False, plan_name = [], online_ids = [], offline_ids = [], busy = [],
     required_phrase = [], plan_total = 0\<rparr>"

definition requiredPhrase :: "string \<Rightarrow> TargetKind \<Rightarrow> string \<Rightarrow> string" where
  "requiredPhrase t k n = (case k of
     Group \<Rightarrow> t @ '' group '' @ n
   | Object \<Rightarrow> t @ '' object '' @ n
   | All \<Rightarrow> t @ '' all'')"

fun normalise_loop :: "bool \<Rightarrow> string \<Rightarrow> string \<Rightarrow> string" where
  "normalise_loop space out [] = out"
| "normalise_loop space out (c # cs) =
     (if isspace c then normalise_loop True out cs
      else normalise_loop False ((if space \<and> out \<noteq> [] then out @ '' '' else out) @ [tolower_char c]) cs)"

definition normalisePhrase :: "string \<Rightarrow> string" where
  "normalisePhrase s = normalise_loop True [] s"

definition target_filter :: "db \<Rightarrow> CommandTarget \<Rightarrow> (string \<times> ListFilter) option" where
  "target_filter d t = (case kind t of
     Group \<Rightarrow> (case findGroup d (tgt_id t) of None \<Rightarrow> None
       | Some g \<Rightarrow> Some ((case findObject d (grp_object g) of None \<Rightarrow> [] | Some q \<Rightarrow> object_name q)
            @ '' / '' @ grp_name g,
           \<lparr>flt_state = Some Active, flt_group = Some (tgt_id t), flt_object = None\<rparr>))
   | Object \<Rightarrow> (case findObject d (tgt_id t) of None \<Rightarrow> None
       | Some q \<Rightarrow> Some (object_name q,
           \<lparr>flt_state = Some Active, flt_group = None, flt_object = Some (tgt_id t)\<rparr>))
   | All \<Rightarrow> Some (''all'', \<lparr>flt_state = Some Active, flt_group = None, flt_object = None\<rparr>))"

definition is_online :: "db \<Rightarrow> string \<Rightarrow> bool" where
  "is_online d p = (case player_status d p of None \<Rightarrow> False | Some r \<Rightarrow> online r)"

definition plan_command :: "db \<Rightarrow> CommandTarget \<Rightarrow> string \<Rightarrow> BulkPlan" where
  "plan_command d t ty = (case target_filter d t of
     None \<Rightarrow> no_plan
   | Some (nm, f) \<Rightarrow>
     (let ps = map player_id (listPlayers d f); on = filter (is_online d) ps in
      \<lparr>found = True, plan_name = nm, online_ids = on, offline_ids = filter (\<lambda>p. \<not> is_online d p) ps,
       busy = concat (map (\<lambda>p. map (\<lambda>c. (p, cmd_id c))
                (filter (\<lambda>c. cmd_type c = ty) (pendingCommandsOf d p))) on),
       required_phrase = requiredPhrase ty (kind t) (if kind t = All then [] else nm),
       plan_total = length ps\<rparr>))"

subsection \<open>Counting a job\<close>

definition no_summary :: JobSummary where
  "no_summary = \<lparr>total = 0, sum_queued = 0, sum_pending = 0, sum_executed = 0, sum_unconfirmed = 0,
     sum_failed = 0, sum_skipped = 0, sum_cancelled = 0\<rparr>"

text \<open>The case distinction of both counting routines: the counter an item of this state is added to.\<close>

definition count_sent :: "nat \<Rightarrow> string \<Rightarrow> JobSummary \<Rightarrow> JobSummary" where
  "count_sent n cs v =
     (if cs = ''pending'' then v\<lparr>sum_pending := sum_pending v + n\<rparr>
      else if cs = ''executed'' then v\<lparr>sum_executed := sum_executed v + n\<rparr>
      else v\<lparr>sum_unconfirmed := sum_unconfirmed v + n\<rparr>)"

definition view_item :: "db \<Rightarrow> JobItem \<Rightarrow> JobSummary \<Rightarrow> JobSummary" where
  "view_item d it v0 =
     (let v = v0\<lparr>total := total v0 + 1\<rparr>; st = item_state it in
      if st = ''queued'' then v\<lparr>sum_queued := sum_queued v + 1\<rparr>
      else if st = ''skipped_offline'' then v\<lparr>sum_skipped := sum_skipped v + 1\<rparr>
      else if st = ''failed'' then v\<lparr>sum_failed := sum_failed v + 1\<rparr>
      else if st = ''cancelled'' then v\<lparr>sum_cancelled := sum_cancelled v + 1\<rparr>
      else if st = ''sent'' then (case findCommand d (item_command it) of
          None \<Rightarrow> v | Some c \<Rightarrow> count_sent 1 (cmd_state c) v)
      else v)"

definition item_view :: "db \<Rightarrow> JobItem \<Rightarrow> JobItem \<times> string \<times> string" where
  "item_view d it = (it, if item_state it = ''sent''
     then (case findCommand d (item_command it) of None \<Rightarrow> ([], []) | Some c \<Rightarrow> (cmd_state c, cmd_result c))
     else ([], []))"

definition jobView :: "db \<Rightarrow> string \<Rightarrow> (JobRow \<times> JobSummary \<times> (JobItem \<times> string \<times> string) list) option" where
  "jobView d i = (case findJob d i of None \<Rightarrow> None
     | Some j \<Rightarrow> Some (j, fold (view_item d) (jobItems d i) no_summary, map (item_view d) (jobItems d i)))"

definition view_count :: "JobItemCount \<Rightarrow> JobSummary \<Rightarrow> JobSummary" where
  "view_count c v0 =
     (let n = count_n c; v = v0\<lparr>total := total v0 + n\<rparr>; st = count_state c in
      if st = ''queued'' then v\<lparr>sum_queued := sum_queued v + n\<rparr>
      else if st = ''skipped_offline'' then v\<lparr>sum_skipped := sum_skipped v + n\<rparr>
      else if st = ''failed'' then v\<lparr>sum_failed := sum_failed v + n\<rparr>
      else if st = ''cancelled'' then v\<lparr>sum_cancelled := sum_cancelled v + n\<rparr>
      else if st = ''sent'' \<and> has_command c then count_sent n (count_command c) v
      else v)"

definition jobOverview :: "db \<Rightarrow> string \<Rightarrow> (JobRow \<times> JobSummary) option" where
  "jobOverview d i = (case findJob d i of None \<Rightarrow> None
     | Some j \<Rightarrow> Some (j, fold view_count (jobItemCounts d i) no_summary))"

subsection \<open>Moving a job on\<close>

definition endJob :: "string \<Rightarrow> string \<Rightarrow> string \<Rightarrow> int \<Rightarrow> service \<Rightarrow> service" where
  "endJob i st reason now s =
     (let (ended, d) = finishJob (sdb s) i st reason now;
          s1 = s\<lparr>waiting := (waiting s)(i := None), sdb := d\<rparr> in
      if \<not> ended then s1
      else (let s2 = announceJob i s1 in
            case jobView (sdb s2) i of None \<Rightarrow> s2 | Some (j, v, _) \<Rightarrow> tell [JobEnd j v] s2))"

definition command_pending :: "db \<Rightarrow> JobItem \<Rightarrow> bool" where
  "command_pending d it \<longleftrightarrow> item_state it = ''sent'' \<and>
     (case findCommand d (item_command it) of None \<Rightarrow> False | Some c \<Rightarrow> cmd_state c = ''pending'')"

text \<open>The members of the batch that just finished, those that did not come back, and those the broker was away for.\<close>

definition batch_members :: "int \<Rightarrow> JobItem list \<Rightarrow> JobItem list" where
  "batch_members b its = filter (\<lambda>it. batch_no it = b \<and> (item_state it = ''failed'' \<or> item_state it = ''sent'')) its"

definition item_bad :: "db \<Rightarrow> JobItem \<Rightarrow> bool" where
  "item_bad d it \<longleftrightarrow> item_state it = ''failed'' \<or>
     (case findCommand d (item_command it) of None \<Rightarrow> True | Some c \<Rightarrow> cmd_state c \<noteq> ''executed'')"

definition broker_away :: "JobItem \<Rightarrow> bool" where
  "broker_away it \<longleftrightarrow> item_state it = ''failed'' \<and> item_error it = ''broker_unavailable''"

definition next_queued :: "JobItem list \<Rightarrow> int" where
  "next_queued its = foldl (\<lambda>nxt it. if item_state it = ''queued'' \<and> (nxt < 0 \<or> batch_no it < nxt)
     then batch_no it else nxt) (- 1) its"

text \<open>
  One screen of a batch at its turn, checked again because things change while a job runs. True: the
  broker is awaited, \<open>advance\<close> returns and the screen stays queued.
\<close>

definition set_item :: "JobRow \<Rightarrow> JobItem \<Rightarrow> string \<Rightarrow> string \<Rightarrow> string \<Rightarrow> service \<Rightarrow> service" where
  "set_item job it st cmd e s =
     s\<lparr>sdb := updateJobItem (sdb s) (job_id job) (item_player it) st cmd e\<rparr>"

definition screen_gone :: "db \<Rightarrow> string \<Rightarrow> bool" where
  "screen_gone d p \<longleftrightarrow>
     (case findPlayer d p of None \<Rightarrow> True | Some pl \<Rightarrow> player_state pl \<noteq> Active) \<or> \<not> is_online d p"

definition after_send ::
  "options \<Rightarrow> bool \<Rightarrow> int \<Rightarrow> JobRow \<Rightarrow> JobItem \<Rightarrow> CommandOutcome \<Rightarrow> service \<Rightarrow> bool \<times> service" where
  "after_send cf fresh now job it one s =
     (if ok one then
        (case out_row one of
           None \<Rightarrow> (False, set_item job it ''sent'' [] [] (s\<lparr>waiting := (waiting s)(job_id job := None)\<rparr>))
         | Some r \<Rightarrow> (False, tell [BulkSent r job] (set_item job it ''sent'' (cmd_id r) []
             (s\<lparr>waiting := (waiting s)(job_id job := None)\<rparr>))))
      else if err one = ''broker_unavailable'' \<and> \<not> fresh then
        (let since = (case waiting s (job_id job) of None \<Rightarrow> now | Some t \<Rightarrow> t);
             s1 = s\<lparr>waiting := (waiting s)(job_id job \<mapsto> since)\<rparr> in
         if now - since < broker_wait_s cf then (True, s1)
         else (False, set_item job it ''failed'' [] (err one) s1))
      else (False, set_item job it ''failed'' [] (err one) s))"

definition send_one ::
  "options \<Rightarrow> bool \<Rightarrow> int \<Rightarrow> JobRow \<Rightarrow> JobItem \<Rightarrow> service \<Rightarrow> bool \<times> service" where
  "send_one cf fresh now job it s =
     (if screen_gone (sdb s) (item_player it) then
        (False, set_item job it ''skipped_offline'' []
           (if Option.is_none (findPlayer (sdb s) (item_player it)) then ''gone'' else ''offline'') s)
      else
        let (one, s1) = sendToPlayer cf (item_player it) (job_type job) (created_by job) now s in
        after_send cf fresh now job it one s1)"

text \<open>The screens of one batch, in the order of the items read at the start of the turn.\<close>

fun send_batch ::
  "options \<Rightarrow> bool \<Rightarrow> int \<Rightarrow> JobRow \<Rightarrow> int \<Rightarrow> JobItem list \<Rightarrow> service \<Rightarrow> bool \<times> service" where
  "send_batch cf fresh now job b [] s = (False, s)"
| "send_batch cf fresh now job b (it # its) s =
     (if item_state it \<noteq> ''queued'' \<or> batch_no it \<noteq> b then send_batch cf fresh now job b its s
      else
        let (waits, s1) = send_one cf fresh now job it s in
        if waits then (True, s1) else send_batch cf fresh now job b its s1)"

text \<open>One turn of the loop of \<open>advance\<close>: the state, and the job to go on with unless it returns.\<close>

definition advance_turn :: "options \<Rightarrow> bool \<Rightarrow> int \<Rightarrow> JobRow \<Rightarrow> service \<Rightarrow> JobRow option \<times> service" where
  "advance_turn cf fresh now job s =
     (let its = jobItems (sdb s) (job_id job);
          members = batch_members (next_batch job - 1) its;
          bad = filter (item_bad (sdb s)) members;
          away = filter broker_away members;
          nxt = next_queued its in
      if list_ex (command_pending (sdb s)) its then (None, s)
      else if 0 < next_batch job \<and> members \<noteq> []
           \<and> stop_percent job * int (length members) < int (length bad) * 100 then
        (None, endJob (job_id job) ''stopped''
           (if length away = length bad then ''broker_unavailable'' else ''too_many_unconfirmed'') now s)
      else if nxt < 0 then (None, endJob (job_id job) ''done'' [] now s)
      else
        let (waits, s1) = send_batch cf fresh now job nxt its s in
        if waits then (None, s1)
        else (Some (job\<lparr>next_batch := nxt + 1\<rparr>),
              announceJob (job_id job) (s1\<lparr>sdb := setNextBatch (sdb s1) (job_id job) (nxt + 1)\<rparr>)))"

partial_function (option) advance_job :: "options \<Rightarrow> bool \<Rightarrow> int \<Rightarrow> JobRow \<Rightarrow> service \<Rightarrow> service option" where
  "advance_job cf fresh now job s = (case advance_turn cf fresh now job s of
     (None, s1) \<Rightarrow> Some s1
   | (Some job1, s1) \<Rightarrow> advance_job cf fresh now job1 s1)"

fun advance_jobs :: "options \<Rightarrow> int \<Rightarrow> JobRow list \<Rightarrow> service \<Rightarrow> service option" where
  "advance_jobs cf now [] s = Some s"
| "advance_jobs cf now (j # js) s =
     (case advance_job cf False now j s of None \<Rightarrow> None | Some s1 \<Rightarrow> advance_jobs cf now js s1)"

definition tick :: "options \<Rightarrow> int \<Rightarrow> service \<Rightarrow> service option" where
  "tick cf now s = advance_jobs cf now (runningJobs (sdb s)) s"

definition cancelJob :: "string \<Rightarrow> int \<Rightarrow> service \<Rightarrow> JobRow option \<times> service" where
  "cancelJob i now s = (case findJob (sdb s) i of None \<Rightarrow> (None, s)
     | Some j \<Rightarrow> if job_state j \<noteq> ''running'' then (None, s)
       else (let s1 = endJob i ''cancelled'' ''cancelled_by_user'' now s in (findJob (sdb s1) i, s1)))"

subsection \<open>Many screens\<close>

record BulkOutcome =
  bulk_ok :: bool
  bulk_err :: string
  bulk_plan :: BulkPlan
  bulk_job :: string
  bulk_queued :: nat
  bulk_sent :: "(string \<times> string) list"
  bulk_failed :: "(string \<times> string) list"

definition bulk_refused :: "string \<Rightarrow> BulkPlan \<Rightarrow> BulkOutcome" where
  "bulk_refused e p = \<lparr>bulk_ok = False, bulk_err = e, bulk_plan = p, bulk_job = [], bulk_queued = 0,
     bulk_sent = [], bulk_failed = []\<rparr>"

definition kind_name :: "TargetKind \<Rightarrow> string" where
  "kind_name k = (case k of Group \<Rightarrow> ''group'' | Object \<Rightarrow> ''object'' | All \<Rightarrow> ''all'')"

definition new_job :: "options \<Rightarrow> string \<Rightarrow> CommandTarget \<Rightarrow> string \<Rightarrow> BulkPlan \<Rightarrow> int option \<Rightarrow> int \<Rightarrow> JobRow" where
  "new_job cf i t ty p by_user now =
     \<lparr>job_id = i, job_type = ty, target_kind = kind_name (kind t), target_id = tgt_id t,
      target_name = plan_name p, job_state = [], stop_reason = [],
      batch_size = command_batch_size (settings cf), stop_percent = command_batch_stop_percent (settings cf),
      next_batch = 0, created_at = now, created_by = by_user, job_finished_at = None\<rparr>"

definition new_items :: "string \<Rightarrow> int \<Rightarrow> BulkPlan \<Rightarrow> JobItem list" where
  "new_items i bsz p =
     map (\<lambda>q. \<lparr>item_job = i, item_player = q, batch_no = - 1, item_state = ''skipped_offline'',
             item_command = [], item_error = ''offline''\<rparr>) (offline_ids p)
   @ map (\<lambda>(k, q). \<lparr>item_job = i, item_player = q, batch_no = int k div bsz, item_state = ''queued'',
             item_command = [], item_error = []\<rparr>) (enumerate 0 (online_ids p))"

text \<open>The answer is read back from the items; a broker that was away takes the job back.\<close>

definition bulk_answer :: "JobRow \<Rightarrow> BulkPlan \<Rightarrow> int \<Rightarrow> service \<Rightarrow> BulkOutcome \<times> service" where
  "bulk_answer job p now s =
     (let its = jobItems (sdb s) (job_id job);
          snt = map (\<lambda>it. (item_player it, item_command it)) (filter (\<lambda>it. item_state it = ''sent'') its);
          fld = map (\<lambda>it. (item_player it, item_error it)) (filter (\<lambda>it. item_state it = ''failed'') its);
          out = \<lparr>bulk_ok = True, bulk_err = [], bulk_plan = p, bulk_job = job_id job,
             bulk_queued = length (filter (\<lambda>it. item_state it = ''queued'') its),
             bulk_sent = snt, bulk_failed = fld\<rparr> in
      if snt = [] \<and> fld \<noteq> [] \<and> list_all (\<lambda>f. snd f = ''broker_unavailable'') fld
      then (out\<lparr>bulk_ok := False, bulk_err := ''broker_unavailable'', bulk_failed := []\<rparr>,
            s\<lparr>sdb := snd (finishJob (sdb s) (job_id job) ''cancelled'' ''broker_unavailable'' now)\<rparr>)
      else (out, s))"

definition sendToTarget ::
  "options \<Rightarrow> CommandTarget \<Rightarrow> string \<Rightarrow> string \<Rightarrow> nat \<Rightarrow> int option \<Rightarrow> int \<Rightarrow> service
    \<Rightarrow> (BulkOutcome \<times> service) option" where
  "sendToTarget cf t ty phrase expected by_user now s =
     (if \<not> supportedType ty then Some (bulk_refused ''unsupported_type'' no_plan, s)
      else
        let p = plan_command (sdb s) t ty in
        if \<not> found p then Some (bulk_refused ''target_not_found'' p, s)
        else if plan_total p = 0 then Some (bulk_refused ''no_targets'' p, s)
        else if normalisePhrase phrase \<noteq> normalisePhrase (required_phrase p)
          then Some (bulk_refused ''confirm_phrase_mismatch'' p, s)
        else if expected \<noteq> plan_total p then Some (bulk_refused ''expected_count_mismatch'' p, s)
        else if busy p \<noteq> [] then Some (bulk_refused ''screens_busy'' p, s)
        else if Option.is_none (publish cf) then Some (bulk_refused ''broker_unavailable'' p, s)
        else
          let job = new_job cf (new_id cf (ids s)) t ty p by_user now;
              (created, d) = createJob (sdb s) job (new_items (job_id job) (batch_size job) p);
              s1 = s\<lparr>sdb := d, ids := ids s + 1\<rparr> in
          if \<not> created then Some (bulk_refused ''storage_error'' p, s1)
          else (case advance_job cf True now job s1 of
              None \<Rightarrow> None
            | Some s2 \<Rightarrow> Some (bulk_answer job p now (announceJob (job_id job) s2))))"

subsection \<open>How the tables may change\<close>

text \<open>
  The contract every handler keeps with the tables: the constraints of the schema hold on, no
  command is lost or given to another screen, and one that is settled is left alone.
\<close>

definition same_order :: "CommandRow \<Rightarrow> CommandRow \<Rightarrow> bool" where
  "same_order c c' \<longleftrightarrow> cmd_player c' = cmd_player c \<and> cmd_type c' = cmd_type c \<and> issued_at c' = issued_at c
     \<and> deadline_at c' = deadline_at c"

definition evolves :: "db \<Rightarrow> db \<Rightarrow> bool" where
  "evolves d d' \<longleftrightarrow> (schema_ok d \<longrightarrow> schema_ok d') \<and> writable d' = writable d \<and>
     (\<forall>i c. findCommand d i = Some c \<longrightarrow>
        (\<exists>c'. findCommand d' i = Some c' \<and> same_order c c' \<and> (cmd_state c \<noteq> ''pending'' \<longrightarrow> c' = c)))"

lemma same_order_refl [simp]: "same_order c c"
  by (simp add: same_order_def)

lemma same_order_settle [simp]: "same_order c (settle_row st res now c)"
  by (simp add: same_order_def)

lemma evolves_refl [simp]: "evolves d d"
  by (simp add: evolves_def)

lemma same_order_trans: "same_order a b \<Longrightarrow> same_order b c \<Longrightarrow> same_order a c"
  by (simp add: same_order_def)

lemma evolvesD:
  assumes "evolves d d'" "findCommand d i = Some c"
  shows "\<exists>c'. findCommand d' i = Some c' \<and> same_order c c' \<and> (cmd_state c \<noteq> ''pending'' \<longrightarrow> c' = c)"
  using assms by (auto simp: evolves_def)

lemma evolves_trans:
  assumes "evolves p q" "evolves q r"
  shows "evolves p r"
  unfolding evolves_def
proof (intro conjI allI impI)
  show "schema_ok p \<Longrightarrow> schema_ok r" "writable r = writable p" using assms by (simp_all add: evolves_def)
  fix i c assume "findCommand p i = Some c"
  from evolvesD [OF assms(1) this] obtain c1 where
    c1: "findCommand q i = Some c1" "same_order c c1" "cmd_state c \<noteq> ''pending'' \<longrightarrow> c1 = c" by blast
  from evolvesD [OF assms(2) c1(1)] obtain c2 where
    c2: "findCommand r i = Some c2" "same_order c1 c2" "cmd_state c1 \<noteq> ''pending'' \<longrightarrow> c2 = c1" by blast
  show "\<exists>c'. findCommand r i = Some c' \<and> same_order c c' \<and> (cmd_state c \<noteq> ''pending'' \<longrightarrow> c' = c)"
    using c1 c2 same_order_trans by blast
qed

lemma evolves_same_commands:
  "commands d' = commands d \<Longrightarrow> writable d' = writable d \<Longrightarrow> (schema_ok d \<Longrightarrow> schema_ok d') \<Longrightarrow> evolves d d'"
  by (simp add: evolves_def findCommand_def)

lemma evolves_update:
  assumes "schema_ok d \<Longrightarrow> schema_ok (d\<lparr>commands := map f (commands d)\<rparr>)"
    and "\<And>c. cmd_id (f c) = cmd_id c" and "\<And>c. same_order c (f c)"
    and "\<And>c. cmd_state c \<noteq> ''pending'' \<Longrightarrow> f c = c"
  shows "evolves d (d\<lparr>commands := map f (commands d)\<rparr>)"
  using assms by (auto simp: evolves_def findCommand_def find_map_same)

lemma evolves_createCommand: "evolves d (snd (createCommand d row))"
proof (cases "snd (createCommand d row) = d")
  case False
  then have d': "snd (createCommand d row) = d\<lparr>commands := commands d
      @ [row\<lparr>cmd_state := ''pending'', cmd_result := [], finished_at := None\<rparr>]\<rparr>"
    by (auto simp: createCommand_def split: option.splits if_splits)
  show ?thesis
    using createCommand_ok [of d row] unfolding d'
    by (auto simp: evolves_def findCommand_def find_append split: option.splits)
qed simp

lemma evolves_settleCommand: "st \<noteq> ''pending'' \<Longrightarrow> evolves d (snd (settleCommand d i st res now))"
  using settleCommand_ok [of d st i res now]
  by (auto simp: settleCommand_def Let_def is_pending_def intro!: evolves_update)

lemma evolves_timeoutCommands: "evolves d (snd (timeoutCommands d now))"
  using timeoutCommands_ok [of d now]
  by (auto simp: timeoutCommands_def Let_def is_pending_def list_ex_iff intro!: evolves_update)

lemma evolves_createJob: "evolves d (snd (createJob d job its))"
  by (rule evolves_same_commands) (simp_all add: createJob_ok)

lemma evolves_updateJobItem: "evolves d (updateJobItem d j p st cmd e)"
  by (rule evolves_same_commands) (simp_all add: updateJobItem_ok)

lemma evolves_setNextBatch: "evolves d (setNextBatch d j n)"
  by (rule evolves_same_commands) (simp_all add: setNextBatch_ok)

lemma evolves_finishJob: "evolves d (snd (finishJob d j st reason now))"
  by (rule evolves_same_commands) (simp_all add: finishJob_ok)

lemmas evolves_db = evolves_createCommand evolves_settleCommand evolves_timeoutCommands evolves_createJob
  evolves_updateJobItem evolves_setNextBatch evolves_finishJob

text \<open>The news do not touch the tables.\<close>

lemma sdb_tell [simp]: "sdb (tell ns s) = sdb s" by (simp add: tell_def)
lemma sdb_announce [simp]: "sdb (announce c s) = sdb s" by (simp add: announce_def)
lemma sdb_announceJob [simp]: "sdb (announceJob i s) = sdb s" by (simp add: announceJob_def split: option.splits)
lemma sdb_sweep_tell [simp]: "sdb (sweep_tell cs s) = sdb s" by (induction cs arbitrary: s) simp_all

lemma sdb_endJob [simp]: "sdb (endJob i st reason now s) = snd (finishJob (sdb s) i st reason now)"
  by (simp add: endJob_def Let_def split: prod.splits option.splits)

lemma sdb_publish_command:
  "sdb (snd (publish_command pub row now s)) =
     (if pub (attempts s) (message_of row) = PubOk then sdb s
      else snd (settleCommand (sdb s) (cmd_id row) ''not_sent''
        (if pub (attempts s) (message_of row) = NotConnected then ''broker_not_connected'' else ''broker_error'') now))"
  by (simp add: publish_command_def Let_def split: prod.splits option.splits)

lemma evolves_publish_command: "evolves (sdb s) (sdb (snd (publish_command pub row now s)))"
  unfolding sdb_publish_command by (simp add: evolves_settleCommand)

lemma evolves_sendToPlayer: "evolves (sdb s) (sdb (snd (sendToPlayer cf p t u now s)))"
proof -
  let ?row = "new_command cf (new_id cf (ids s)) p t u now"
  have c: "evolves (sdb s) (snd (createCommand (sdb s) ?row))" by (rule evolves_createCommand)
  show ?thesis
    using c evolves_trans [OF c evolves_publish_command [of "s\<lparr>sdb := snd (createCommand (sdb s) ?row), ids := ids s + 1\<rparr>", simplified]]
    by (auto simp: sendToPlayer_def Let_def split: option.splits CommandCreate.splits prod.splits)
qed

lemma verdict_settles: "fst (verdict c status up now) \<noteq> ''pending''"
  by (auto simp: verdict_def split: option.splits)

lemma evolves_onResult: "evolves (sdb s) (sdb (onResult p i status up now s))"
  using verdict_settles [of _ status up now]
  by (auto simp: onResult_def Let_def split: option.splits prod.splits)
    (metis evolves_settleCommand fst_conv snd_conv)+

lemma evolves_sweep: "evolves (sdb s) (sdb (snd (sweep now s)))"
  using evolves_timeoutCommands [of "sdb s" now] by (simp add: sweep_def case_prod_unfold Let_def)

lemma evolves_release: "evolves (sdb s) (sdb (snd (release_command i now s)))"
  using evolves_settleCommand [of "''released''" "sdb s" i "''released_by_admin''" now]
  by (auto simp: release_command_def Let_def split: prod.splits option.splits)

lemma sdb_set_item [simp]:
  "sdb (set_item job it st cmd e s) = updateJobItem (sdb s) (job_id job) (item_player it) st cmd e"
  by (simp add: set_item_def)

lemma sdb_after_send:
  "sdb (snd (after_send cf fresh now job it one s)) = sdb s \<or>
   (\<exists>st cmd e. sdb (snd (after_send cf fresh now job it one s)) =
      updateJobItem (sdb s) (job_id job) (item_player it) st cmd e)"
  by (auto simp: after_send_def Let_def split: option.splits)

lemma evolves_send_one: "evolves (sdb s) (sdb (snd (send_one cf fresh now job it s)))"
proof (cases "screen_gone (sdb s) (item_player it)")
  case True
  then show ?thesis by (simp add: send_one_def evolves_updateJobItem)
next
  case False
  obtain one s1 where s1: "sendToPlayer cf (item_player it) (job_type job) (created_by job) now s = (one, s1)"
    by fastforce
  have e: "evolves (sdb s) (sdb s1)"
    using evolves_sendToPlayer [of s cf "item_player it" "job_type job" "created_by job" now] s1 by simp
  have "evolves (sdb s1) (sdb (snd (after_send cf fresh now job it one s1)))"
    using sdb_after_send [of cf fresh now job it one s1] evolves_updateJobItem by (metis evolves_refl)
  from evolves_trans [OF e this] False s1 show ?thesis by (simp add: send_one_def)
qed

lemma evolves_send_batch: "evolves (sdb s) (sdb (snd (send_batch cf fresh now job b its s)))"
proof (induction its arbitrary: s)
  case (Cons it its)
  obtain w s1 where s1: "send_one cf fresh now job it s = (w, s1)" by fastforce
  then have "evolves (sdb s) (sdb s1)" using evolves_send_one [of s cf fresh now job it] by simp
  with Cons.IH [of s1] Cons.IH [of s] s1 show ?case by (auto intro: evolves_trans)
qed simp

end
