(* ===== verification/CommandJobs.thy ===== *)
theory CommandJobs
  imports CommandService
begin

text \<open>
  What the jobs of \<open>players/CommandService.cpp\<close> do over time: the loop of \<open>advance\<close> returns as long
  as the storage takes writes (the queued screens of the job are its measure) and does not return when
  it refuses them; one call sends at most one batch and sends nothing while a command of the job is
  unsettled; a batch with too many failures ends the job; under a broker that takes its messages a
  job is over after as many rounds of sweep and tick as it has queued screens, plus one; and the
  grouped count of \<open>jobOverview\<close> is the item count of \<open>jobView\<close>. Every handler keeps the schema and leaves settled
  commands alone, over any history of the service.
\<close>

subsection \<open>What a turn does to the screens\<close>

definition queued_screens :: "db \<Rightarrow> string \<Rightarrow> string set" where
  "queued_screens d i = item_player ` {it \<in> set (job_items d). queued_of i it}"

lemma finite_queued_screens [simp]: "finite (queued_screens d i)"
  by (simp add: queued_screens_def)

lemma set_jobItems [simp]: "set (jobItems d i) = {it \<in> set (job_items d). item_job it = i}"
  by (simp add: jobItems_def)

lemma queued_after_update:
  assumes "st \<noteq> ''queued''"
  shows "queued_of i (if item_at j p it then it\<lparr>item_state := st, item_command := cmd, item_error := e\<rparr> else it)
      \<longleftrightarrow> queued_of i it \<and> \<not> item_at j p it"
    "item_player (if item_at j p it then it\<lparr>item_state := st, item_command := cmd, item_error := e\<rparr> else it)
      = item_player it"
  using assms by (auto simp: queued_of_def)

lemma queued_updateJobItem:
  assumes st: "st \<noteq> ''queued''"
  shows "queued_screens (updateJobItem d j p st cmd e) i =
    (if writable d \<and> i = j then queued_screens d i - {p} else queued_screens d i)"
proof (cases "writable d")
  case True
  let ?f = "\<lambda>it. if item_at j p it then it\<lparr>item_state := st, item_command := cmd, item_error := e\<rparr> else it"
  have "queued_screens (updateJobItem d j p st cmd e) i = item_player ` ?f ` {it \<in> set (job_items d). queued_of i (?f it)}"
    using True by (auto simp: queued_screens_def updateJobItem_def)
  also have "\<dots> = item_player ` {it \<in> set (job_items d). queued_of i it \<and> \<not> item_at j p it}"
    unfolding image_comp queued_after_update [OF st] by (intro image_cong) simp_all
  also have "\<dots> = (if i = j then queued_screens d i - {p} else queued_screens d i)"
    by (auto simp: queued_screens_def queued_of_def item_at_def)
  finally show ?thesis using True by simp
qed (simp add: updateJobItem_def)

lemma createCommand_untouched [simp]:
  "job_items (snd (createCommand d row)) = job_items d" "jobs (snd (createCommand d row)) = jobs d"
  "players (snd (createCommand d row)) = players d" "statuses (snd (createCommand d row)) = statuses d"
  "writable (snd (createCommand d row)) = writable d"
  by (simp_all add: createCommand_def split: option.splits)

lemma settleCommand_untouched [simp]:
  "job_items (snd (settleCommand d i st res now)) = job_items d" "jobs (snd (settleCommand d i st res now)) = jobs d"
  "players (snd (settleCommand d i st res now)) = players d" "statuses (snd (settleCommand d i st res now)) = statuses d"
  "writable (snd (settleCommand d i st res now)) = writable d"
  by (simp_all add: settleCommand_def Let_def)

definition same_screens :: "db \<Rightarrow> db \<Rightarrow> bool" where
  "same_screens d d' \<longleftrightarrow> job_items d' = job_items d \<and> jobs d' = jobs d \<and> players d' = players d
     \<and> statuses d' = statuses d \<and> writable d' = writable d"

lemma queued_same_screens: "same_screens d d' \<Longrightarrow> queued_screens d' i = queued_screens d i"
  by (simp add: same_screens_def queued_screens_def)

lemma same_screens_refl [simp]: "same_screens d d"
  by (simp add: same_screens_def)

lemma same_screens_trans: "same_screens a b \<Longrightarrow> same_screens b c \<Longrightarrow> same_screens a c"
  by (simp add: same_screens_def)

lemma same_screens_db [simp]:
  "same_screens d (snd (createCommand d row))" "same_screens d (snd (settleCommand d i st res now))"
  by (simp_all add: same_screens_def)

lemma screens_sendToPlayer: "same_screens (sdb s) (sdb (snd (sendToPlayer cf p t u now s)))"
proof -
  let ?row = "new_command cf (new_id cf (ids s)) p t u now"
  obtain res d where cd: "createCommand (sdb s) ?row = (res, d)" by fastforce
  have c: "same_screens (sdb s) d" using same_screens_db(1) [of "sdb s" ?row] unfolding cd by simp
  have "same_screens (sdb s2) (sdb (snd (publish_command pub row now s2)))" for s2 pub row
    unfolding sdb_publish_command by simp
  from same_screens_trans [OF c this [of "s\<lparr>sdb := d, ids := ids s + 1\<rparr>", simplified]]
  show ?thesis using c cd
    by (auto simp: sendToPlayer_def Let_def split: option.splits CommandCreate.splits)
qed

text \<open>A screen that had its turn is queued no longer, unless the broker is awaited.\<close>

lemma queued_send_one:
  assumes "writable (sdb s)"
  shows "queued_screens (sdb (snd (send_one cf fresh now job it s))) (job_id job) =
    (if fst (send_one cf fresh now job it s) then queued_screens (sdb s) (job_id job)
     else queued_screens (sdb s) (job_id job) - {item_player it})"
proof (cases "screen_gone (sdb s) (item_player it)")
  case True
  with assms show ?thesis by (simp add: send_one_def queued_updateJobItem)
next
  case False
  obtain one s1 where s1: "sendToPlayer cf (item_player it) (job_type job) (created_by job) now s = (one, s1)"
    by fastforce
  have e: "same_screens (sdb s) (sdb s1)"
    using screens_sendToPlayer [of s cf "item_player it" "job_type job" "created_by job" now] s1 by simp
  then have w: "writable (sdb s1)" using assms by (simp add: same_screens_def)
  show ?thesis
    using False s1 w queued_same_screens [OF e]
    by (auto simp: send_one_def after_send_def Let_def queued_updateJobItem split: option.splits)
qed

lemma writable_send_one [simp]: "writable (sdb (snd (send_one cf fresh now job it s))) = writable (sdb s)"
  using evolves_send_one [of s cf fresh now job it] by (simp add: evolves_def)

lemma writable_send_batch [simp]: "writable (sdb (snd (send_batch cf fresh now job b its s))) = writable (sdb s)"
  using evolves_send_batch [of s cf fresh now job b its] by (simp add: evolves_def)

definition turn_screens :: "int \<Rightarrow> JobItem list \<Rightarrow> string set" where
  "turn_screens b its = item_player ` {it \<in> set its. item_state it = ''queued'' \<and> batch_no it = b}"

lemma queued_send_batch:
  assumes "writable (sdb s)"
  shows "queued_screens (sdb (snd (send_batch cf fresh now job b its s))) (job_id job) \<subseteq> queued_screens (sdb s) (job_id job)"
    and "\<not> fst (send_batch cf fresh now job b its s) \<Longrightarrow>
      queued_screens (sdb (snd (send_batch cf fresh now job b its s))) (job_id job)
      = queued_screens (sdb s) (job_id job) - turn_screens b its"
proof -
  have "queued_screens (sdb (snd (send_batch cf fresh now job b its s))) (job_id job) \<subseteq> queued_screens (sdb s) (job_id job)
    \<and> (\<not> fst (send_batch cf fresh now job b its s) \<longrightarrow>
      queued_screens (sdb (snd (send_batch cf fresh now job b its s))) (job_id job)
      = queued_screens (sdb s) (job_id job) - turn_screens b its)"
    using assms
  proof (induction its arbitrary: s)
    case (Cons it its)
    show ?case
    proof (cases "item_state it = ''queued'' \<and> batch_no it = b")
      case True
      then have t: "turn_screens b (it # its) = insert (item_player it) (turn_screens b its)"
        by (auto simp: turn_screens_def)
      obtain w s1 where s1: "send_one cf fresh now job it s = (w, s1)" by fastforce
      have "writable (sdb s1)" using Cons.prems s1 writable_send_one [of cf fresh now job it s] by simp
      from Cons.IH [OF this] show ?thesis
        using True s1 t queued_send_one [OF Cons.prems, of cf fresh now job it] by auto
    next
      case False
      then have "turn_screens b (it # its) = turn_screens b its" by (auto simp: turn_screens_def)
      with False Cons.IH [OF Cons.prems] show ?thesis by auto
    qed
  qed (simp add: turn_screens_def)
  then show "queued_screens (sdb (snd (send_batch cf fresh now job b its s))) (job_id job) \<subseteq> queued_screens (sdb s) (job_id job)"
    and "\<not> fst (send_batch cf fresh now job b its s) \<Longrightarrow>
      queued_screens (sdb (snd (send_batch cf fresh now job b its s))) (job_id job)
      = queued_screens (sdb s) (job_id job) - turn_screens b its"
    by auto
qed

subsection \<open>The loop returns\<close>

lemma next_queued_fold:
  assumes "foldl (\<lambda>nxt it. if item_state it = ''queued'' \<and> (nxt < 0 \<or> batch_no it < nxt)
     then batch_no it else nxt) n its = b" "n \<noteq> b"
  shows "\<exists>it \<in> set its. item_state it = ''queued'' \<and> batch_no it = b"
  using assms
proof (induction its arbitrary: n)
  case (Cons it its)
  let ?n = "if item_state it = ''queued'' \<and> (n < 0 \<or> batch_no it < n) then batch_no it else n"
  show ?case
  proof (cases "?n = b")
    case True
    with Cons.prems(2) show ?thesis by (auto split: if_splits)
  next
    case False
    with Cons.IH [of ?n] Cons.prems(1) show ?thesis by auto
  qed
qed simp

lemma next_queued_in:
  "0 \<le> next_queued its \<Longrightarrow> \<exists>it \<in> set its. item_state it = ''queued'' \<and> batch_no it = next_queued its"
  using next_queued_fold [of "- 1" its] by (simp add: next_queued_def)

lemma next_queued_neg_fold:
  assumes "\<forall>it \<in> set its. item_state it = ''queued'' \<longrightarrow> 0 \<le> batch_no it"
    and "n < 0 \<Longrightarrow> \<exists>it \<in> set its. item_state it = ''queued''"
  shows "0 \<le> foldl (\<lambda>nxt it. if item_state it = ''queued'' \<and> (nxt < 0 \<or> batch_no it < nxt)
     then batch_no it else nxt) n its"
  using assms
proof (induction its arbitrary: n)
  case (Cons it its)
  let ?n = "if item_state it = ''queued'' \<and> (n < 0 \<or> batch_no it < n) then batch_no it else n"
  have "?n < 0 \<Longrightarrow> \<exists>it \<in> set its. item_state it = ''queued''"
    using Cons.prems by (auto split: if_splits)
  with Cons.IH [of ?n] Cons.prems show ?case by simp
qed force

lemma next_queued_nonneg:
  "\<lbrakk>\<forall>it \<in> set its. item_state it = ''queued'' \<longrightarrow> 0 \<le> batch_no it; \<exists>it \<in> set its. item_state it = ''queued''\<rbrakk>
   \<Longrightarrow> 0 \<le> next_queued its"
  unfolding next_queued_def by (rule next_queued_neg_fold) auto

lemma turn_screens_queued: "turn_screens b (jobItems d i) \<subseteq> queued_screens d i"
  by (auto simp: turn_screens_def queued_screens_def queued_of_def)

lemma advance_turn_goes_on:
  assumes "advance_turn cf fresh now job s = (Some job1, s1)"
  obtains s0 where "send_batch cf fresh now job (next_queued (jobItems (sdb s) (job_id job)))
      (jobItems (sdb s) (job_id job)) s = (False, s0)"
    and "0 \<le> next_queued (jobItems (sdb s) (job_id job))"
    and "sdb s1 = setNextBatch (sdb s0) (job_id job) (next_queued (jobItems (sdb s) (job_id job)) + 1)"
    and "job1 = job\<lparr>next_batch := next_queued (jobItems (sdb s) (job_id job)) + 1\<rparr>"
  using assms
  by (auto simp: advance_turn_def Let_def split: if_splits prod.splits)

lemma queued_setNextBatch [simp]: "queued_screens (setNextBatch d j n) i = queued_screens d i"
  by (simp add: queued_screens_def)

lemma advance_turn_progress:
  assumes "advance_turn cf fresh now job s = (Some job1, s1)" "writable (sdb s)"
  shows "queued_screens (sdb s1) (job_id job) \<subset> queued_screens (sdb s) (job_id job)"
    and "writable (sdb s1)" and "job_id job1 = job_id job"
proof -
  let ?its = "jobItems (sdb s) (job_id job)"
  obtain s0 where s0: "send_batch cf fresh now job (next_queued ?its) ?its s = (False, s0)"
    "0 \<le> next_queued ?its" "sdb s1 = setNextBatch (sdb s0) (job_id job) (next_queued ?its + 1)"
    "job1 = job\<lparr>next_batch := next_queued ?its + 1\<rparr>"
    using assms(1) by (rule advance_turn_goes_on)
  from next_queued_in [OF s0(2)] have "turn_screens (next_queued ?its) ?its \<noteq> {}"
    by (auto simp: turn_screens_def)
  moreover note turn_screens_queued [of "next_queued ?its" "sdb s" "job_id job"]
  moreover have "queued_screens (sdb s0) (job_id job) = queued_screens (sdb s) (job_id job) - turn_screens (next_queued ?its) ?its"
    using queued_send_batch(2) [OF assms(2), of cf fresh now job "next_queued ?its" ?its] s0(1) by simp
  ultimately show "queued_screens (sdb s1) (job_id job) \<subset> queued_screens (sdb s) (job_id job)"
    using s0(3) by auto
  show "writable (sdb s1)"
    using writable_send_batch [of cf fresh now job "next_queued ?its" ?its s] assms(2) s0(1,3) by simp
  show "job_id job1 = job_id job" using s0(4) by simp
qed

lemma advance_returns:
  assumes "writable (sdb s)"
  shows "\<exists>s1. advance_job cf fresh now job s = Some s1"
  using assms
proof (induction "card (queued_screens (sdb s) (job_id job))" arbitrary: job s rule: less_induct)
  case less
  obtain r s1 where t: "advance_turn cf fresh now job s = (r, s1)" by fastforce
  show ?case
  proof (cases r)
    case None
    with t show ?thesis by (subst advance_job.simps) simp
  next
    case (Some job1)
    note p = advance_turn_progress [OF t [unfolded Some] less.prems]
    have "card (queued_screens (sdb s1) (job_id job1)) < card (queued_screens (sdb s) (job_id job))"
      using p(1) unfolding p(3) by (simp add: psubset_card_mono)
    from less.hyps [OF this p(2)] t Some show ?thesis by (subst advance_job.simps) simp
  qed
qed

text \<open>The rule of the loop: what every turn keeps holds when the last turn begins.\<close>

lemma advance_run:
  assumes "advance_job cf fresh now job s = Some s1" "P job s"
    and "\<And>j t j1 t1. P j t \<Longrightarrow> advance_turn cf fresh now j t = (Some j1, t1) \<Longrightarrow> P j1 t1"
  shows "\<exists>j t. P j t \<and> advance_turn cf fresh now j t = (None, s1)"
proof -
  have "P job s \<longrightarrow> (\<forall>j t j1 t1. P j t \<longrightarrow> advance_turn cf fresh now j t = (Some j1, t1) \<longrightarrow> P j1 t1) \<longrightarrow>
      (\<exists>j t. P j t \<and> advance_turn cf fresh now j t = (None, s1))"
    by (rule advance_job.raw_induct [where P = "\<lambda>cf fresh now job s s1. P job s \<longrightarrow>
        (\<forall>j t j1 t1. P j t \<longrightarrow> advance_turn cf fresh now j t = (Some j1, t1) \<longrightarrow> P j1 t1) \<longrightarrow>
        (\<exists>j t. P j t \<and> advance_turn cf fresh now j t = (None, s1))", OF _ assms(1)])
      (auto split: prod.splits option.splits)
  with assms show ?thesis by blast
qed

lemma evolves_advance_turn: "evolves (sdb s) (sdb (snd (advance_turn cf fresh now job s)))"
proof -
  let ?its = "jobItems (sdb s) (job_id job)"
  have b: "evolves (sdb s) (setNextBatch (sdb (snd (send_batch cf fresh now job (next_queued ?its) ?its s))) j n)" for j n
    by (rule evolves_trans [OF evolves_send_batch evolves_setNextBatch])
  show ?thesis
    using b evolves_send_batch [of s cf fresh now job "next_queued ?its" ?its]
    by (auto simp: advance_turn_def Let_def evolves_finishJob split: prod.splits)
qed

lemma evolves_advance:
  assumes "advance_job cf fresh now job s = Some s1"
  shows "evolves (sdb s) (sdb s1)"
proof -
  have "\<exists>j t. evolves (sdb s) (sdb t) \<and> advance_turn cf fresh now j t = (None, s1)"
    by (rule advance_run [OF assms, where P = "\<lambda>_ t. evolves (sdb s) (sdb t)"])
      (use evolves_advance_turn in \<open>auto intro: evolves_trans\<close>, metis evolves_advance_turn evolves_trans snd_conv)
  then show ?thesis by (metis evolves_advance_turn evolves_trans snd_conv)
qed

lemma evolves_advance_all: "advance_jobs cf now js s = Some s1 \<Longrightarrow> evolves (sdb s) (sdb s1)"
  by (induction js arbitrary: s) (auto split: option.splits intro: evolves_trans evolves_advance)

lemma evolves_tick: "tick cf now s = Some s1 \<Longrightarrow> evolves (sdb s) (sdb s1)"
  unfolding tick_def by (rule evolves_advance_all)

lemma evolves_cancelJob: "evolves (sdb s) (sdb (snd (cancelJob i now s)))"
  by (simp add: cancelJob_def Let_def evolves_finishJob split: option.splits)

lemma sdb_bulk_answer: "evolves (sdb s) (sdb (snd (bulk_answer job p now s)))"
  by (simp add: bulk_answer_def Let_def evolves_finishJob)

lemma evolves_sendToTarget:
  assumes "sendToTarget cf t ty phrase n u now s = Some (out, s1)"
  shows "evolves (sdb s) (sdb s1)"
proof -
  let ?p = "plan_command (sdb s) t ty"
  let ?job = "new_job cf (new_id cf (ids s)) t ty ?p u now"
  obtain created d where d: "createJob (sdb s) ?job (new_items (job_id ?job) (batch_size ?job) ?p) = (created, d)"
    by fastforce
  have e: "evolves (sdb s) d"
    using evolves_createJob [of "sdb s" ?job "new_items (job_id ?job) (batch_size ?job) ?p"] unfolding d by simp
  have a: "evolves (sdb s) (sdb s1)"
    if "advance_job cf True now ?job (s\<lparr>sdb := d, ids := Suc (ids s)\<rparr>) = Some s2"
      and "bulk_answer ?job ?p now (announceJob (job_id ?job) s2) = (out, s1)" for s2
    using evolves_trans [OF e evolves_trans [OF evolves_advance [OF that(1), simplified]
        sdb_bulk_answer [of "announceJob (job_id ?job) s2" ?job ?p now, simplified]]]
    by (simp add: that(2))
  show ?thesis
    using assms d e a by (auto simp: sendToTarget_def Let_def split: if_splits option.splits)
qed

subsection \<open>Histories of the service\<close>

inductive svc_step :: "options \<Rightarrow> service \<Rightarrow> service \<Rightarrow> bool" for cf :: options where
  step_send: "svc_step cf s (snd (sendToPlayer cf p t u now s))"
| step_target: "sendToTarget cf t ty phrase n u now s = Some (out, s') \<Longrightarrow> svc_step cf s s'"
| step_tick: "tick cf now s = Some s' \<Longrightarrow> svc_step cf s s'"
| step_result: "svc_step cf s (onResult p i status up now s)"
| step_sweep: "svc_step cf s (snd (sweep now s))"
| step_release: "svc_step cf s (snd (release_command i now s))"
| step_cancel: "svc_step cf s (snd (cancelJob i now s))"
| step_world: "svc_step cf s (s\<lparr>sdb := (sdb s)\<lparr>players := ps, statuses := sts, groups := gs, objects := obs\<rparr>\<rparr>)"

lemma evolves_world: "evolves d (d\<lparr>players := ps, statuses := sts, groups := gs, objects := obs\<rparr>)"
  by (rule evolves_same_commands) (simp_all add: schema_ok_def items_ok_def)

lemma evolves_step: "svc_step cf s s' \<Longrightarrow> evolves (sdb s) (sdb s')"
proof (induction rule: svc_step.induct)
  case (step_world s ps sts gs obs)
  then show ?case using evolves_world by simp
qed (simp_all add: evolves_sendToPlayer evolves_onResult evolves_sweep evolves_release evolves_cancelJob
    evolves_sendToTarget evolves_tick)

lemma evolves_history: "(svc_step cf)\<^sup>*\<^sup>* s s' \<Longrightarrow> evolves (sdb s) (sdb s')"
  by (induction rule: rtranclp_induct) (auto intro: evolves_trans evolves_step)

lemma one_unsettled:
  assumes "commands_ok cs" "c \<in> set cs" "c' \<in> set cs" "cmd_state c = ''pending''" "cmd_state c' = ''pending''"
    and "cmd_player c = cmd_player c'" "cmd_type c = cmd_type c'"
  shows "c = c'"
proof -
  have "inj_on (\<lambda>c. (cmd_player c, cmd_type c)) (set (filter (\<lambda>c. cmd_state c = ''pending'') cs))"
    using assms(1) by (simp add: commands_ok_def pending_keys_def distinct_map)
  with assms show ?thesis by (auto simp: inj_on_def)
qed

subsection \<open>When the storage fails\<close>

lemma sendToPlayer_read_only:
  assumes "\<not> writable (sdb s)"
  shows "\<not> ok (fst (sendToPlayer cf p t u now s))" "sdb (snd (sendToPlayer cf p t u now s)) = sdb s"
    and "publish cf \<noteq> None \<Longrightarrow> err (fst (sendToPlayer cf p t u now s)) \<noteq> ''broker_unavailable''"
  using assms
  by (auto simp: sendToPlayer_def createCommand_def refused_def Let_def split: option.splits)

lemma send_batch_read_only:
  assumes "\<not> writable (sdb s)" "publish cf \<noteq> None"
  shows "fst (send_batch cf fresh now job b its s) = False \<and> sdb (snd (send_batch cf fresh now job b its s)) = sdb s"
  using assms(1)
proof (induction its arbitrary: s)
  case (Cons it its)
  have "fst (send_one cf fresh now job it s) = False \<and> sdb (snd (send_one cf fresh now job it s)) = sdb s"
    using sendToPlayer_read_only [OF Cons.prems] assms(2) Cons.prems
    by (auto simp: send_one_def after_send_def updateJobItem_def Let_def split: prod.splits)
      (metis fst_conv snd_conv)+
  with Cons.IH Cons.prems show ?case by (auto split: prod.splits)
qed simp

subsection \<open>One batch at a time\<close>

definition unsettled :: "db \<Rightarrow> string \<Rightarrow> bool" where
  "unsettled d i \<longleftrightarrow> (\<exists>c. findCommand d i = Some c \<and> cmd_state c = ''pending'')"

definition in_flight_at :: "db \<Rightarrow> string \<Rightarrow> string \<Rightarrow> bool" where
  "in_flight_at d j p \<longleftrightarrow>
     (\<exists>it \<in> set (job_items d). item_at j p it \<and> item_state it = ''sent'' \<and> unsettled d (item_command it))"

lemma command_pending_iff: "command_pending d it \<longleftrightarrow> item_state it = ''sent'' \<and> unsettled d (item_command it)"
  by (auto simp: command_pending_def unsettled_def split: option.splits)

lemma unsettled_updateJobItem [simp]: "unsettled (updateJobItem d j p st cmd e) i = unsettled d i"
  by (simp add: unsettled_def findCommand_def)

lemma outbox_set_item [simp]: "outbox (set_item job it st cmd e s) = outbox s"
  by (simp add: set_item_def)

lemma outbox_tell [simp]: "outbox (tell ns s) = outbox s" by (simp add: tell_def)
lemma outbox_announce [simp]: "outbox (announce c s) = outbox s" by (simp add: announce_def)
lemma outbox_announceJob [simp]: "outbox (announceJob i s) = outbox s"
  by (simp add: announceJob_def split: option.splits)
lemma outbox_endJob [simp]: "outbox (endJob i st reason now s) = outbox s"
  by (simp add: endJob_def Let_def split: prod.splits option.splits)

lemma createCommand_cases:
  assumes "createCommand d row = (res, d1)"
  obtains "res = CreateOk" "writable d" "findCommand d (cmd_id row) = None"
      "d1 = d\<lparr>commands := commands d @ [row\<lparr>cmd_state := ''pending'', cmd_result := [], finished_at := None\<rparr>]\<rparr>"
  | b where "res = CreateBusy b" "d1 = d"
  | "res = CreateStorage" "d1 = d"
proof (cases "\<not> writable d \<or> list_ex (\<lambda>c. cmd_id c = cmd_id row) (commands d)")
  case True
  then have "createCommand d row = (CreateStorage, d)" by (simp add: createCommand_def)
  with assms show ?thesis by (intro that(3)) auto
next
  case False
  then have n: "findCommand d (cmd_id row) = None" by (auto simp: findCommand_def find_None_iff list_ex_iff)
  show ?thesis
  proof (cases "find (pending_for (cmd_player row) (cmd_type row)) (commands d)")
    case None
    with False have "createCommand d row = (CreateOk, d\<lparr>commands := commands d
        @ [row\<lparr>cmd_state := ''pending'', cmd_result := [], finished_at := None\<rparr>]\<rparr>)"
      unfolding createCommand_def by (simp only: if_False option.case)
    with assms False n show ?thesis by (intro that(1)) auto
  next
    case (Some c)
    with False have "createCommand d row = (CreateBusy (cmd_id c), d)"
      unfolding createCommand_def by (simp only: if_False option.case)
    with assms show ?thesis by (intro that(2)) auto
  qed
qed

lemma settle_other:
  "i \<noteq> k \<Longrightarrow> unsettled (snd (settleCommand d k st res now)) i = unsettled d i"
  by (simp add: settleCommand_def unsettled_def findCommand_def Let_def find_map_same is_pending_def)
    (auto dest: find_SomeD)

lemma publish_command_sent:
  "outbox (snd (publish_command pub row now s)) =
     outbox s @ (if ok (fst (publish_command pub row now s)) then [message_of row] else [])" (is ?A)
  "ok (fst (publish_command pub row now s)) \<longrightarrow> out_row (fst (publish_command pub row now s)) = Some row
     \<and> sdb (snd (publish_command pub row now s)) = sdb s" (is ?B)
proof -
  have "?A \<and> ?B"
  proof (cases "pub (attempts s) (message_of row) = PubOk")
    case True
    then show ?thesis by (simp add: publish_command_def Let_def)
  next
    case False
    then show ?thesis by (auto simp: publish_command_def Let_def refused_def split: prod.splits option.splits)
  qed
  then show ?A ?B by simp_all
qed

text \<open>What one sending does to the broker's messages and to the unsettled commands.\<close>

lemma sendToPlayer_effect:
  assumes "sendToPlayer cf p t u now s = (one, s1)"
  shows "\<exists>ms. outbox s1 = outbox s @ ms \<and> length ms \<le> 1 \<and> (ms \<noteq> [] \<longrightarrow> ok one)"
    and "ok one \<Longrightarrow> writable (sdb s) \<and> (\<exists>r. out_row one = Some r \<and> unsettled (sdb s1) (cmd_id r))"
    and "unsettled (sdb s) i \<Longrightarrow> unsettled (sdb s1) i"
proof -
  let ?row = "new_command cf (new_id cf (ids s)) p t u now"
  let ?d = "(sdb s)\<lparr>commands := commands (sdb s) @ [?row]\<rparr>"
  have all: "(\<exists>ms. outbox s1 = outbox s @ ms \<and> length ms \<le> 1 \<and> (ms \<noteq> [] \<longrightarrow> ok one)) \<and>
    (ok one \<longrightarrow> writable (sdb s) \<and> (\<exists>r. out_row one = Some r \<and> unsettled (sdb s1) (cmd_id r))) \<and>
    (unsettled (sdb s) i \<longrightarrow> unsettled (sdb s1) i)"
  proof (cases "supportedType t \<and> (\<exists>pl. findPlayer (sdb s) p = Some pl \<and> player_state pl = Active) \<and> publish cf \<noteq> None")
    case False
    with assms show ?thesis by (auto simp: sendToPlayer_def refused_def split: if_splits option.splits)
  next
    case True
    then obtain pub where pub: "publish cf = Some pub" by blast
    let ?s1 = "\<lambda>d. s\<lparr>sdb := d, ids := ids s + 1\<rparr>"
    obtain res d1 where cr: "createCommand (sdb s) ?row = (res, d1)" by fastforce
    have eq: "sendToPlayer cf p t u now s = (case res of
        CreateOk \<Rightarrow> publish_command pub ?row now (?s1 d1)
      | CreateBusy b \<Rightarrow> ((refused ''command_in_progress'')\<lparr>busy_id := b\<rparr>, ?s1 d1)
      | CreateStorage \<Rightarrow> (refused ''storage_error'', ?s1 d1))"
      using True pub cr by (auto simp: sendToPlayer_def Let_def split: CommandCreate.splits)
    from cr show ?thesis
    proof (cases rule: createCommand_cases)
      case 1
      have d1: "d1 = ?d" using 1(4) by (simp add: new_command_def)
      have e: "publish_command pub ?row now (?s1 ?d) = (one, s1)"
        using assms unfolding eq 1(1) d1 by simp
      have new: "unsettled ?d (cmd_id ?row)"
        using 1(3) by (simp add: unsettled_def findCommand_def find_append new_command_def)
      have keep: "unsettled ?d i \<and> i \<noteq> cmd_id ?row" if "unsettled (sdb s) i"
        using that 1(3) by (auto simp: unsettled_def findCommand_def find_append)
      have "unsettled (sdb s1) i" if "unsettled (sdb s) i"
        using keep [OF that] sdb_publish_command [of pub ?row now "?s1 ?d"] unfolding e
        by (simp add: settle_other)
      with publish_command_sent [of pub ?row now "?s1 ?d"] new 1(2) show ?thesis unfolding e by auto
    qed (use assms eq in \<open>auto simp: refused_def\<close>)
  qed
  then show "\<exists>ms. outbox s1 = outbox s @ ms \<and> length ms \<le> 1 \<and> (ms \<noteq> [] \<longrightarrow> ok one)"
    and "ok one \<Longrightarrow> writable (sdb s) \<and> (\<exists>r. out_row one = Some r \<and> unsettled (sdb s1) (cmd_id r))"
    and "unsettled (sdb s) i \<Longrightarrow> unsettled (sdb s1) i"
    by blast+
qed

text \<open>The items of a job stay the items of the job.\<close>

definition slots :: "db \<Rightarrow> (string \<times> string \<times> int) list" where
  "slots d = map (\<lambda>it. (item_job it, item_player it, batch_no it)) (job_items d)"

lemma slots_updateJobItem [simp]: "slots (updateJobItem d j p st cmd e) = slots d"
  by (auto simp: slots_def updateJobItem_def)

lemma slots_setNextBatch [simp]: "slots (setNextBatch d j n) = slots d"
  by (simp add: slots_def)

lemma slots_finishJob [simp]: "slots (snd (finishJob d i st reason now)) = slots d"
  by (auto simp: slots_def finishJob_def)

lemma slots_same_screens: "same_screens d d' \<Longrightarrow> slots d' = slots d"
  by (simp add: slots_def same_screens_def)

lemma slots_after_send [simp]: "slots (sdb (snd (after_send cf fresh now job it one s))) = slots (sdb s)"
  using sdb_after_send [of cf fresh now job it one s] by auto

lemma slots_send_one [simp]: "slots (sdb (snd (send_one cf fresh now job it s))) = slots (sdb s)"
  using slots_same_screens [OF screens_sendToPlayer [of s cf "item_player it" "job_type job" "created_by job" now]]
  by (auto simp: send_one_def split: prod.splits)

lemma slots_send_batch [simp]: "slots (sdb (snd (send_batch cf fresh now job b its s))) = slots (sdb s)"
proof (induction its arbitrary: s)
  case (Cons it its)
  obtain w s1 where s1: "send_one cf fresh now job it s = (w, s1)" by fastforce
  then have "slots (sdb s1) = slots (sdb s)" using slots_send_one [of cf fresh now job it s] by simp
  with Cons.IH s1 show ?case by simp
qed simp

lemma in_flight_updateJobItem:
  "in_flight_at d j p \<Longrightarrow> q \<noteq> p \<Longrightarrow> in_flight_at (updateJobItem d j q st cmd e) j p"
  by (force simp: in_flight_at_def updateJobItem_def item_at_def unsettled_def findCommand_def)

lemma in_flight_same_screens:
  "\<lbrakk>in_flight_at d j p; same_screens d d'; \<And>i. unsettled d i \<Longrightarrow> unsettled d' i\<rbrakk> \<Longrightarrow> in_flight_at d' j p"
  by (auto simp: in_flight_at_def same_screens_def)

lemma in_flight_now:
  assumes "(j, p, b) \<in> set (slots d)" "writable d" "unsettled d i"
  shows "in_flight_at (updateJobItem d j p ''sent'' i e) j p"
proof -
  obtain it where it: "it \<in> set (job_items d)" "item_job it = j" "item_player it = p"
    using assms(1) by (auto simp: slots_def)
  let ?it = "it\<lparr>item_state := ''sent'', item_command := i, item_error := e\<rparr>"
  have "?it \<in> set (job_items (updateJobItem d j p ''sent'' i e))"
    using it assms(2) by (force simp: updateJobItem_def item_at_def)
  moreover have "item_at j p ?it" using it by (simp add: item_at_def)
  ultimately show ?thesis using assms(3) unfolding in_flight_at_def by force
qed

text \<open>What one screen's turn does to the messages and to what is in flight.\<close>

lemma send_one_effect:
  assumes "send_one cf fresh now job it s = (w, s1)"
  shows "\<exists>ms. outbox s1 = outbox s @ ms \<and> length ms \<le> 1 \<and>
      (ms \<noteq> [] \<longrightarrow> (job_id job, item_player it, b) \<in> set (slots (sdb s)) \<longrightarrow> in_flight_at (sdb s1) (job_id job) (item_player it))"
    and "in_flight_at (sdb s) (job_id job) p \<Longrightarrow> item_player it \<noteq> p \<Longrightarrow> in_flight_at (sdb s1) (job_id job) p"
proof -
  have "(\<exists>ms. outbox s1 = outbox s @ ms \<and> length ms \<le> 1 \<and>
      (ms \<noteq> [] \<longrightarrow> (job_id job, item_player it, b) \<in> set (slots (sdb s)) \<longrightarrow> in_flight_at (sdb s1) (job_id job) (item_player it)))
    \<and> (in_flight_at (sdb s) (job_id job) p \<longrightarrow> item_player it \<noteq> p \<longrightarrow> in_flight_at (sdb s1) (job_id job) p)"
  proof (cases "screen_gone (sdb s) (item_player it)")
    case True
    with assms show ?thesis by (auto simp: send_one_def in_flight_updateJobItem)
  next
    case False
    obtain one s0 where s0: "sendToPlayer cf (item_player it) (job_type job) (created_by job) now s = (one, s0)"
      by fastforce
    have scr: "same_screens (sdb s) (sdb s0)"
      using screens_sendToPlayer [of s cf "item_player it" "job_type job" "created_by job" now] s0 by simp
    note eff = sendToPlayer_effect [OF s0]
    obtain ms where ms: "outbox s0 = outbox s @ ms" "length ms \<le> 1" "ms \<noteq> [] \<longrightarrow> ok one" using eff(1) by blast
    have a: "after_send cf fresh now job it one s0 = (w, s1)" using assms False s0 by (simp add: send_one_def)
    have out: "outbox s1 = outbox s0"
      using a by (auto simp: after_send_def Let_def split: if_splits option.splits)
    have keep: "in_flight_at (sdb s1) (job_id job) p" if "in_flight_at (sdb s) (job_id job) p" "item_player it \<noteq> p"
    proof -
      have "in_flight_at (sdb s0) (job_id job) p" by (rule in_flight_same_screens [OF that(1) scr eff(3)])
      then show ?thesis
        using sdb_after_send [of cf fresh now job it one s0] that(2) in_flight_updateJobItem unfolding a by fastforce
    qed
    have "in_flight_at (sdb s1) (job_id job) (item_player it)"
      if "ms \<noteq> []" "(job_id job, item_player it, b) \<in> set (slots (sdb s))"
    proof -
      have okk: "ok one" using that(1) ms(3) by simp
      from eff(2) [OF this] obtain r where r: "out_row one = Some r" "unsettled (sdb s0) (cmd_id r)" "writable (sdb s)"
        by blast
      have "sdb s1 = updateJobItem (sdb s0) (job_id job) (item_player it) ''sent'' (cmd_id r) []"
        using a okk r(1) by (auto simp: after_send_def)
      moreover have "(job_id job, item_player it, b) \<in> set (slots (sdb s0))" "writable (sdb s0)"
        using that(2) slots_same_screens [OF scr] r(3) scr by (simp_all add: same_screens_def)
      ultimately show ?thesis using in_flight_now r(2) by simp
    qed
    with ms out keep show ?thesis by auto
  qed
  then show "\<exists>ms. outbox s1 = outbox s @ ms \<and> length ms \<le> 1 \<and>
      (ms \<noteq> [] \<longrightarrow> (job_id job, item_player it, b) \<in> set (slots (sdb s)) \<longrightarrow> in_flight_at (sdb s1) (job_id job) (item_player it))"
    and "in_flight_at (sdb s) (job_id job) p \<Longrightarrow> item_player it \<noteq> p \<Longrightarrow> in_flight_at (sdb s1) (job_id job) p"
    by blast+
qed

definition of_batch :: "int \<Rightarrow> JobItem list \<Rightarrow> JobItem list" where
  "of_batch b its = filter (\<lambda>it. item_state it = ''queued'' \<and> batch_no it = b) its"

lemma send_batch_effect:
  assumes "distinct (map item_player its)"
    and "\<forall>it \<in> set its. \<exists>k. (job_id job, item_player it, k) \<in> set (slots (sdb s))"
  shows "\<exists>ms. outbox (snd (send_batch cf fresh now job b its s)) = outbox s @ ms \<and> length ms \<le> length (of_batch b its)
      \<and> (ms \<noteq> [] \<longrightarrow> (\<exists>p. in_flight_at (sdb (snd (send_batch cf fresh now job b its s))) (job_id job) p))"
    and "in_flight_at (sdb s) (job_id job) p \<Longrightarrow> p \<notin> item_player ` set its \<Longrightarrow>
      in_flight_at (sdb (snd (send_batch cf fresh now job b its s))) (job_id job) p"
proof -
  have "(\<exists>ms. outbox (snd (send_batch cf fresh now job b its s)) = outbox s @ ms \<and> length ms \<le> length (of_batch b its)
      \<and> (ms \<noteq> [] \<longrightarrow> (\<exists>p. in_flight_at (sdb (snd (send_batch cf fresh now job b its s))) (job_id job) p)))
    \<and> (\<forall>p. in_flight_at (sdb s) (job_id job) p \<longrightarrow> p \<notin> item_player ` set its \<longrightarrow>
      in_flight_at (sdb (snd (send_batch cf fresh now job b its s))) (job_id job) p)"
    using assms
  proof (induction its arbitrary: s)
    case Nil
    then show ?case by simp
  next
    case (Cons it its)
    have pr: "distinct (map item_player its)" "\<forall>it \<in> set its. \<exists>k. (job_id job, item_player it, k) \<in> set (slots (sdb s))"
      using Cons.prems by auto
    show ?case
    proof (cases "item_state it = ''queued'' \<and> batch_no it = b")
      case False
      then have "of_batch b (it # its) = of_batch b its" by (auto simp: of_batch_def)
      with False Cons.IH [OF pr] show ?thesis by auto
    next
      case True
      then have ob: "length (of_batch b (it # its)) = Suc (length (of_batch b its))" by (simp add: of_batch_def)
      obtain w s1 where s1: "send_one cf fresh now job it s = (w, s1)" by fastforce
      have sl: "slots (sdb s1) = slots (sdb s)" using slots_send_one [of cf fresh now job it s] s1 by simp
      obtain k where k: "(job_id job, item_player it, k) \<in> set (slots (sdb s))" using Cons.prems(2) by auto
      obtain ms where ms: "outbox s1 = outbox s @ ms" "length ms \<le> 1"
          "ms \<noteq> [] \<longrightarrow> in_flight_at (sdb s1) (job_id job) (item_player it)"
        using send_one_effect(1) [OF s1, of k] k by blast
      note keep = send_one_effect(2) [OF s1]
      show ?thesis
      proof (cases w)
        case True
        have "\<exists>p. in_flight_at (sdb s1) (job_id job) p" if "ms \<noteq> []" using ms(3) that by blast
        with True s1 ms ob keep \<open>item_state it = ''queued'' \<and> batch_no it = b\<close> show ?thesis by auto
      next
        case False
        let ?s2 = "snd (send_batch cf fresh now job b its s1)"
        have r: "snd (send_batch cf fresh now job b (it # its) s) = ?s2"
          using True False s1 by simp
        have pr1: "\<forall>it \<in> set its. \<exists>k. (job_id job, item_player it, k) \<in> set (slots (sdb s1))" using pr(2) sl by simp
        from Cons.IH [OF pr(1) pr1] obtain ms2 where ms2: "outbox ?s2 = outbox s1 @ ms2" "length ms2 \<le> length (of_batch b its)"
            "ms2 \<noteq> [] \<longrightarrow> (\<exists>p. in_flight_at (sdb ?s2) (job_id job) p)"
          and fl: "\<forall>p. in_flight_at (sdb s1) (job_id job) p \<longrightarrow> p \<notin> item_player ` set its \<longrightarrow> in_flight_at (sdb ?s2) (job_id job) p"
          by blast
        have "item_player it \<notin> item_player ` set its" using Cons.prems(1) by auto
        then have "\<exists>p. in_flight_at (sdb ?s2) (job_id job) p" if "ms @ ms2 \<noteq> []"
          using that ms(3) ms2(3) fl by blast
        moreover have "outbox ?s2 = outbox s @ (ms @ ms2)" "length (ms @ ms2) \<le> length (of_batch b (it # its))"
          using ms(1,2) ms2(1,2) ob by auto
        ultimately show ?thesis unfolding r using keep fl by (metis image_insert insert_iff list.simps(15))
      qed
    qed
  qed
  then show "\<exists>ms. outbox (snd (send_batch cf fresh now job b its s)) = outbox s @ ms \<and> length ms \<le> length (of_batch b its)
      \<and> (ms \<noteq> [] \<longrightarrow> (\<exists>p. in_flight_at (sdb (snd (send_batch cf fresh now job b its s))) (job_id job) p))"
    and "in_flight_at (sdb s) (job_id job) p \<Longrightarrow> p \<notin> item_player ` set its \<Longrightarrow>
      in_flight_at (sdb (snd (send_batch cf fresh now job b its s))) (job_id job) p"
    by blast+
qed

definition batch_room :: "db \<Rightarrow> string \<Rightarrow> nat \<Rightarrow> bool" where
  "batch_room d j n \<longleftrightarrow> (\<forall>b \<ge> 0. length (filter (\<lambda>(i, p, k). i = j \<and> k = b) (slots d)) \<le> n)"

lemma length_filter_sort_key [simp]: "length (filter P (sort_key f xs)) = length (filter P xs)"
proof -
  have "size (filter_mset P (mset (sort_key f xs))) = size (filter_mset P (mset xs))" by simp
  then show ?thesis by (simp only: mset_filter [symmetric] size_mset)
qed

lemma distinct_job_screens:
  assumes "items_ok d"
  shows "distinct (map item_player (jobItems d j))"
proof -
  have "distinct (map item_key (filter (\<lambda>it. item_job it = j) (job_items d)))"
    using assms by (simp add: items_ok_def distinct_map_filter)
  then have "distinct (filter (\<lambda>it. item_job it = j) (job_items d))"
      "inj_on item_player (set (filter (\<lambda>it. item_job it = j) (job_items d)))"
    by (auto simp: distinct_map inj_on_def item_key_def)
  then show ?thesis by (simp add: distinct_map jobItems_def)
qed

lemma job_slots: "it \<in> set (jobItems d j) \<Longrightarrow> (j, item_player it, batch_no it) \<in> set (slots d)"
  by (force simp: slots_def)

lemma length_of_batch:
  assumes "batch_room d j n" "0 \<le> b"
  shows "length (of_batch b (jobItems d j)) \<le> n"
proof -
  have "length (of_batch b (jobItems d j))
    = length (filter (\<lambda>it. item_job it = j \<and> item_state it = ''queued'' \<and> batch_no it = b) (job_items d))"
    by (simp add: of_batch_def jobItems_def conj_commute)
  also have "\<dots> \<le> length (filter (\<lambda>it. item_job it = j \<and> batch_no it = b) (job_items d))"
    by (induction "job_items d") (auto intro: le_SucI simp: length_filter_conv_card intro!: card_mono)
  also have "\<dots> = length (filter (\<lambda>(i, p, k). i = j \<and> k = b) (slots d))"
    by (simp add: slots_def filter_map comp_def)
  also have "\<dots> \<le> n" using assms by (simp add: batch_room_def)
  finally show ?thesis .
qed

lemma in_flight_stops:
  assumes "in_flight_at (sdb s) (job_id job) p"
  shows "advance_turn cf fresh now job s = (None, s)"
proof -
  have "list_ex (command_pending (sdb s)) (jobItems (sdb s) (job_id job))"
    using assms by (auto simp: in_flight_at_def list_ex_iff command_pending_iff item_at_def)
  then show ?thesis by (simp add: advance_turn_def Let_def)
qed

definition must_stop :: "db \<Rightarrow> JobRow \<Rightarrow> bool" where
  "must_stop d job \<longleftrightarrow> (let members = batch_members (next_batch job - 1) (jobItems d (job_id job)) in
     0 < next_batch job \<and> members \<noteq> []
     \<and> stop_percent job * int (length members) < int (length (filter (item_bad d) members)) * 100)"

lemma advance_turn_cases:
  assumes "advance_turn cf fresh now job s = (r, s1)"
  defines "its \<equiv> jobItems (sdb s) (job_id job)"
  defines "s0 \<equiv> snd (send_batch cf fresh now job (next_queued its) its s)"
  obtains (pending) "list_ex (command_pending (sdb s)) its" "r = None" "s1 = s"
  | (ended) st reason where "\<not> list_ex (command_pending (sdb s)) its" "must_stop (sdb s) job \<or> next_queued its < 0"
      "must_stop (sdb s) job \<longleftrightarrow> st = ''stopped''" "st = ''stopped'' \<or> st = ''done''"
      "r = None" "s1 = endJob (job_id job) st reason now s"
  | (waits) "\<not> list_ex (command_pending (sdb s)) its" "\<not> must_stop (sdb s) job" "0 \<le> next_queued its"
      "fst (send_batch cf fresh now job (next_queued its) its s)" "r = None" "s1 = s0"
  | (goes_on) "\<not> list_ex (command_pending (sdb s)) its" "\<not> must_stop (sdb s) job" "0 \<le> next_queued its"
      "\<not> fst (send_batch cf fresh now job (next_queued its) its s)"
      "r = Some (job\<lparr>next_batch := next_queued its + 1\<rparr>)"
      "s1 = announceJob (job_id job) (s0\<lparr>sdb := setNextBatch (sdb s0) (job_id job) (next_queued its + 1)\<rparr>)"
proof (cases "list_ex (command_pending (sdb s)) its")
  case True
  then have "advance_turn cf fresh now job s = (None, s)"
    unfolding advance_turn_def Let_def its_def [symmetric] by (simp only: if_True)
  with assms(1) True show ?thesis by (intro pending) auto
next
  case p: False
  show ?thesis
  proof (cases "must_stop (sdb s) job")
    case True
    have c: "0 < next_batch job \<and> batch_members (next_batch job - 1) its \<noteq> []
      \<and> stop_percent job * int (length (batch_members (next_batch job - 1) its))
        < int (length (filter (item_bad (sdb s)) (batch_members (next_batch job - 1) its))) * 100"
      using True unfolding must_stop_def Let_def its_def .
    have "\<exists>reason. advance_turn cf fresh now job s = (None, endJob (job_id job) ''stopped'' reason now s)"
      unfolding advance_turn_def Let_def its_def [symmetric]
      using p c by (simp only: if_False if_True simp_thms) blast
    then obtain reason where "advance_turn cf fresh now job s = (None, endJob (job_id job) ''stopped'' reason now s)" ..
    with assms(1) p True show ?thesis by (intro ended [of "''stopped''" reason]) auto
  next
    case ms: False
    have nc: "\<not> (0 < next_batch job \<and> batch_members (next_batch job - 1) its \<noteq> []
      \<and> stop_percent job * int (length (batch_members (next_batch job - 1) its))
        < int (length (filter (item_bad (sdb s)) (batch_members (next_batch job - 1) its))) * 100)"
      using ms unfolding must_stop_def Let_def its_def .
    have u: "advance_turn cf fresh now job s = (if next_queued its < 0 then (None, endJob (job_id job) ''done'' [] now s)
        else let (waits, s1) = send_batch cf fresh now job (next_queued its) its s in
        if waits then (None, s1)
        else (Some (job\<lparr>next_batch := next_queued its + 1\<rparr>),
              announceJob (job_id job) (s1\<lparr>sdb := setNextBatch (sdb s1) (job_id job) (next_queued its + 1)\<rparr>)))"
      unfolding advance_turn_def Let_def its_def [symmetric]
      using p nc by (simp only: if_False simp_thms)
    show ?thesis
    proof (cases "next_queued its < 0")
      case True
      with assms(1) p ms u show ?thesis by (intro ended [of "''done''"]) auto
    next
      case nn: False
      show ?thesis
      proof (cases "fst (send_batch cf fresh now job (next_queued its) its s)")
        case True
        with assms(1) p ms u nn show ?thesis by (intro waits) (auto simp: s0_def split: prod.splits)
      next
        case False
        with assms(1) p ms u nn show ?thesis by (intro goes_on) (auto simp: s0_def split: prod.splits)
      qed
    qed
  qed
qed

lemma advance_turn_effect:
  assumes t: "advance_turn cf fresh now job s = (r, s1)" and ok: "schema_ok (sdb s)"
    and room: "batch_room (sdb s) (job_id job) n"
  shows "\<exists>ms. outbox s1 = outbox s @ ms \<and> length ms \<le> n \<and>
      (r \<noteq> None \<longrightarrow> ms \<noteq> [] \<longrightarrow> (\<exists>p. in_flight_at (sdb s1) (job_id job) p))"
    and "slots (sdb s1) = slots (sdb s)" and "\<And>job1. r = Some job1 \<Longrightarrow> job_id job1 = job_id job"
proof -
  let ?its = "jobItems (sdb s) (job_id job)" let ?b = "next_queued ?its"
  let ?s0 = "snd (send_batch cf fresh now job ?b ?its s)"
  have eff: "\<exists>ms. outbox ?s0 = outbox s @ ms \<and> length ms \<le> length (of_batch ?b ?its)
      \<and> (ms \<noteq> [] \<longrightarrow> (\<exists>p. in_flight_at (sdb ?s0) (job_id job) p))"
  proof (rule send_batch_effect(1))
    show "distinct (map item_player ?its)" using ok by (simp add: schema_ok_def distinct_job_screens)
    show "\<forall>it \<in> set ?its. \<exists>k. (job_id job, item_player it, k) \<in> set (slots (sdb s))"
      using job_slots by blast
  qed
  have le: "length (of_batch ?b ?its) \<le> n" if "0 \<le> ?b" by (rule length_of_batch [OF room that])
  consider (stay) "r = None" "outbox s1 = outbox s" "slots (sdb s1) = slots (sdb s)"
    | (wait) "r = None" "s1 = ?s0" "0 \<le> ?b"
    | (go) job1 where "r = Some job1" "job_id job1 = job_id job" "0 \<le> ?b" "outbox s1 = outbox ?s0"
        "sdb s1 = setNextBatch (sdb ?s0) (job_id job) (?b + 1)"
  proof (cases rule: advance_turn_cases [OF t])
    case 1
    then show ?thesis by (intro stay) simp_all
  next
    case (2 st reason)
    then show ?thesis by (intro stay) simp_all
  next
    case 3
    then show ?thesis by (intro wait) simp_all
  next
    case 4
    then show ?thesis by (intro go [of "the r"]) simp_all
  qed
  then have "(\<exists>ms. outbox s1 = outbox s @ ms \<and> length ms \<le> n \<and>
      (r \<noteq> None \<longrightarrow> ms \<noteq> [] \<longrightarrow> (\<exists>p. in_flight_at (sdb s1) (job_id job) p)))
    \<and> slots (sdb s1) = slots (sdb s) \<and> (\<forall>job1. r = Some job1 \<longrightarrow> job_id job1 = job_id job)"
  proof cases
    case wait
    with eff le show ?thesis by fastforce
  next
    case go
    have "in_flight_at (sdb s1) (job_id job) p" if "in_flight_at (sdb ?s0) (job_id job) p" for p
      using that go(5) by (simp add: in_flight_at_def unsettled_def findCommand_def)
    with go eff le show ?thesis by fastforce
  qed simp
  then show "\<exists>ms. outbox s1 = outbox s @ ms \<and> length ms \<le> n \<and>
      (r \<noteq> None \<longrightarrow> ms \<noteq> [] \<longrightarrow> (\<exists>p. in_flight_at (sdb s1) (job_id job) p))"
    and "slots (sdb s1) = slots (sdb s)" and "\<And>job1. r = Some job1 \<Longrightarrow> job_id job1 = job_id job"
    by blast+
qed

lemma batch_room_slots: "slots d' = slots d \<Longrightarrow> batch_room d' j n = batch_room d j n"
  by (simp add: batch_room_def)

text \<open>However many turns \<open>advance\<close> takes, the messages of one batch at most go out.\<close>

lemma advance_one_batch:
  assumes "advance_job cf fresh now job s = Some s1" "schema_ok (sdb s)" "batch_room (sdb s) (job_id job) n"
  shows "\<exists>ms. outbox s1 = outbox s @ ms \<and> length ms \<le> n"
proof -
  define P where "P = (\<lambda>(j :: JobRow) (t :: service). job_id j = job_id job \<and> schema_ok (sdb t) \<and> slots (sdb t) = slots (sdb s) \<and>
    (\<exists>ms. outbox t = outbox s @ ms \<and> length ms \<le> n \<and> (ms \<noteq> [] \<longrightarrow> (\<exists>p. in_flight_at (sdb t) (job_id job) p))))"
  have step: "(\<exists>ms. outbox t1 = outbox s @ ms \<and> length ms \<le> n) \<and> (r \<noteq> None \<longrightarrow> P (the r) t1)"
    if p: "P j t" and t: "advance_turn cf fresh now j t = (r, t1)" for j t r t1
  proof -
    from p have id: "job_id j = job_id job" and ok: "schema_ok (sdb t)" and sl: "slots (sdb t) = slots (sdb s)"
      by (simp_all add: P_def)
    obtain ms where ms: "outbox t = outbox s @ ms" "length ms \<le> n"
        "ms \<noteq> [] \<longrightarrow> (\<exists>p. in_flight_at (sdb t) (job_id job) p)"
      using p by (auto simp: P_def)
    show ?thesis
    proof (cases "ms = []")
      case False
      then obtain p where "in_flight_at (sdb t) (job_id j) p" using ms(3) id by auto
      from in_flight_stops [OF this] t ms show ?thesis by auto
    next
      case True
      have room: "batch_room (sdb t) (job_id j) n" using assms(3) id batch_room_slots [OF sl] by simp
      note e = advance_turn_effect [OF t ok room]
      have ok1: "schema_ok (sdb t1)" using evolves_advance_turn [of t cf fresh now j] t ok by (simp add: evolves_def)
      obtain ms1 where ms1: "outbox t1 = outbox t @ ms1" "length ms1 \<le> n"
          "r \<noteq> None \<longrightarrow> ms1 \<noteq> [] \<longrightarrow> (\<exists>p. in_flight_at (sdb t1) (job_id j) p)"
        using e(1) by blast
      have "P (the r) t1" if "r \<noteq> None"
        using that ms1 ms(1) True id ok1 sl e(2,3) by (auto simp: P_def)
      with ms1 ms(1) True show ?thesis by auto
    qed
  qed
  have "\<exists>j t. P j t \<and> advance_turn cf fresh now j t = (None, s1)"
  proof (rule advance_run [OF assms(1)])
    show "P job s" using assms(2) by (simp add: P_def)
  next
    fix j t j1 t1 assume "P j t" "advance_turn cf fresh now j t = (Some j1, t1)"
    from step [OF this] show "P j1 t1" by simp
  qed
  with step show ?thesis by blast
qed

text \<open>The items of a new job: at most \<open>batch_size\<close> of them in a batch.\<close>

lemma batch_count:
  assumes "0 < n"
  shows "length (filter (\<lambda>(k, q). int k div n = b) (enumerate 0 ps)) \<le> nat n"
proof -
  have "length (filter (\<lambda>(k, q). int k div n = b) (enumerate 0 ps))
    = length (filter (\<lambda>k. int k div n = b) (map fst (enumerate 0 ps)))"
    by (simp add: filter_map comp_def case_prod_unfold del: map_fst_enumerate)
  also have "\<dots> = card {k. k < length ps \<and> int k div n = b}"
    by (auto simp: length_filter_conv_card intro!: arg_cong [where f = card])
  also have "\<dots> \<le> card {nat (b * n)..<nat (b * n) + nat n}"
  proof (rule card_mono)
    show "{k. k < length ps \<and> int k div n = b} \<subseteq> {nat (b * n)..<nat (b * n) + nat n}"
    proof
      fix k assume "k \<in> {k. k < length ps \<and> int k div n = b}"
      then have kb: "int k div n = b" by simp
      have "b * n \<le> int k" "int k < b * n + n"
        using div_mult_mod_eq [of "int k" n] pos_mod_sign [OF assms, of "int k"] pos_mod_bound [OF assms, of "int k"]
        unfolding kb by linarith+
      with assms show "k \<in> {nat (b * n)..<nat (b * n) + nat n}" by auto
    qed
  qed simp
  finally show ?thesis by simp
qed

lemma new_items_room:
  assumes "0 < n" "0 \<le> b"
  shows "length (filter (\<lambda>it. batch_no it = b) (new_items j n p)) \<le> nat n"
proof -
  have "length (filter (\<lambda>it. batch_no it = b) (new_items j n p))
    = length (filter (\<lambda>(k, q). int k div n = b) (enumerate 0 (online_ids p)))"
    using assms(2) by (auto simp: new_items_def filter_map comp_def case_prod_unfold)
  then show ?thesis using batch_count [OF assms(1)] by simp
qed

lemma createJob_room:
  assumes c: "createJob d job (new_items (job_id job) n p) = (True, d1)" and ok: "schema_ok d" and n: "0 < n"
  shows "batch_room d1 (job_id job) (nat n)" and "schema_ok d1"
proof -
  let ?its = "new_items (job_id job) n p"
  have fresh: "\<forall>j \<in> set (jobs d). job_id j \<noteq> job_id job"
    using c by (auto simp: createJob_def Let_def list_ex_iff split: if_splits)
  have sl: "slots d1 = slots d @ map (\<lambda>it. (job_id job, item_player it, batch_no it)) ?its"
    using c by (auto simp: createJob_def Let_def slots_def split: if_splits)
  have none: "(job_id job, q, k) \<notin> set (slots d)" for q k
    using fresh ok by (force simp: slots_def schema_ok_def items_ok_def item_key_def)
  have "length (filter (\<lambda>(i, q, k). i = job_id job \<and> k = b) (slots d1)) \<le> nat n" if "0 \<le> b" for b
  proof -
    have "filter (\<lambda>(i, q, k). i = job_id job \<and> k = b) (slots d) = []"
      using none by (auto simp: filter_empty_conv)
    then show ?thesis using new_items_room [OF n that, of "job_id job" p]
      by (simp add: sl filter_map comp_def case_prod_unfold)
  qed
  then show "batch_room d1 (job_id job) (nat n)" by (simp add: batch_room_def)
  show "schema_ok d1" using createJob_ok [OF ok, of job ?its] c by simp
qed

lemma outbox_bulk_answer [simp]: "outbox (snd (bulk_answer job p now s)) = outbox s"
  by (simp add: bulk_answer_def Let_def)

lemma bulk_sends_one_batch:
  assumes "sendToTarget cf t ty phrase n u now s = Some (out, s1)" "schema_ok (sdb s)"
    and "0 < command_batch_size (settings cf)"
  shows "\<exists>ms. outbox s1 = outbox s @ ms \<and> length ms \<le> nat (command_batch_size (settings cf))"
proof -
  let ?p = "plan_command (sdb s) t ty"
  let ?job = "new_job cf (new_id cf (ids s)) t ty ?p u now"
  have bs: "batch_size ?job = command_batch_size (settings cf)" by (simp add: new_job_def)
  obtain created d where d: "createJob (sdb s) ?job (new_items (job_id ?job) (batch_size ?job) ?p) = (created, d)"
    by fastforce
  have "\<exists>ms. outbox s2 = outbox s @ ms \<and> length ms \<le> nat (command_batch_size (settings cf))"
    if "advance_job cf True now ?job (s\<lparr>sdb := d, ids := Suc (ids s)\<rparr>) = Some s2" and created for s2
    using advance_one_batch [OF that(1)] createJob_room [of "sdb s" ?job "batch_size ?job" ?p d] d assms(2,3) that(2) bs
    by simp
  moreover have "outbox s1 = outbox s \<or> created \<and> (\<exists>s2. outbox s1 = outbox s2 \<and>
      advance_job cf True now ?job (s\<lparr>sdb := d, ids := Suc (ids s)\<rparr>) = Some s2)"
  proof -
    have "bulk_answer ?job ?p now (announceJob (job_id ?job) s2) = (out, s1) \<Longrightarrow> outbox s1 = outbox s2" for s2
      using outbox_bulk_answer [of ?job ?p now "announceJob (job_id ?job) s2"] by (simp del: outbox_bulk_answer)
    then show ?thesis
      using assms(1) d by (auto simp: sendToTarget_def Let_def split: if_splits option.splits)
  qed
  ultimately show ?thesis by force
qed

text \<open>A batch too much of which did not come back ends the job.\<close>

subsection \<open>Which jobs hang on a storage that refuses\<close>

text \<open>
  Neither a running command nor the stop rule ends the turn, there is a batch to come, and the stop rule
  does not look at that batch as failed either. Nothing the turn does is stored, so the next one is the same.
\<close>

definition turns_for_ever :: "db \<Rightarrow> JobRow \<Rightarrow> bool" where
  "turns_for_ever d job \<longleftrightarrow> (let its = jobItems d (job_id job) in
     \<not> list_ex (command_pending d) its \<and> 0 \<le> next_queued its \<and>
     \<not> must_stop d job \<and> \<not> must_stop d (job\<lparr>next_batch := next_queued its + 1\<rparr>))"

lemma sdb_endJob_read_only: "\<not> writable (sdb s) \<Longrightarrow> sdb (endJob i st reason now s) = sdb s"
  by (simp add: endJob_def finishJob_def)

lemma turn_read_only:
  assumes "advance_turn cf fresh now job s = (r, s1)" "\<not> writable (sdb s)" "publish cf \<noteq> None"
  shows "sdb s1 = sdb s"
    "r = (if list_ex (command_pending (sdb s)) (jobItems (sdb s) (job_id job)) \<or> must_stop (sdb s) job
         \<or> next_queued (jobItems (sdb s) (job_id job)) < 0 then None
       else Some (job\<lparr>next_batch := next_queued (jobItems (sdb s) (job_id job)) + 1\<rparr>))"
proof -
  let ?its = "jobItems (sdb s) (job_id job)"
  note b = send_batch_read_only [OF assms(2,3), of fresh now job "next_queued ?its" ?its]
  have "sdb s1 = sdb s \<and> r = (if list_ex (command_pending (sdb s)) ?its \<or> must_stop (sdb s) job \<or> next_queued ?its < 0 then None
      else Some (job\<lparr>next_batch := next_queued ?its + 1\<rparr>))"
    using assms(1)
  proof (cases rule: advance_turn_cases)
    case pending
    then show ?thesis by simp
  next
    case (ended st reason)
    then show ?thesis using sdb_endJob_read_only [OF assms(2)] by auto
  next
    case waits
    then show ?thesis using b by simp
  next
    case goes_on
    then show ?thesis using b assms(2) by (auto simp: setNextBatch_def)
  qed
  then show "sdb s1 = sdb s"
    "r = (if list_ex (command_pending (sdb s)) ?its \<or> must_stop (sdb s) job \<or> next_queued ?its < 0 then None
      else Some (job\<lparr>next_batch := next_queued ?its + 1\<rparr>))" by blast+
qed

lemma advance_hangs:
  assumes "turns_for_ever (sdb s) job" "\<not> writable (sdb s)" "publish cf \<noteq> None"
  shows "advance_job cf fresh now job s = None"
proof (rule ccontr)
  let ?job1 = "job\<lparr>next_batch := next_queued (jobItems (sdb s) (job_id job)) + 1\<rparr>"
  assume "advance_job cf fresh now job s \<noteq> None"
  then obtain s1 where "advance_job cf fresh now job s = Some s1" by blast
  then have "\<exists>j t. (sdb t = sdb s \<and> (j = job \<or> j = ?job1)) \<and> advance_turn cf fresh now j t = (None, s1)"
  proof (rule advance_run)
    fix j t j1 t1 assume p: "sdb t = sdb s \<and> (j = job \<or> j = ?job1)" and tn: "advance_turn cf fresh now j t = (Some j1, t1)"
    have "\<not> writable (sdb t)" using p assms(2) by simp
    from turn_read_only [OF tn this assms(3)] p show "sdb t1 = sdb s \<and> (j1 = job \<or> j1 = ?job1)"
      by (auto split: if_splits)
  qed simp
  then obtain j t where p: "sdb t = sdb s" "j = job \<or> j = ?job1" and tn: "advance_turn cf fresh now j t = (None, s1)" by blast
  have "\<not> writable (sdb t)" using p assms(2) by simp
  from turn_read_only(2) [OF tn this assms(3)] p assms(1) show False
    by (auto simp: turns_for_ever_def Let_def split: if_splits)
qed

lemma advance_read_only:
  assumes "\<not> turns_for_ever (sdb s) job" "\<not> writable (sdb s)" "publish cf \<noteq> None"
  shows "\<exists>s1. advance_job cf fresh now job s = Some s1 \<and> sdb s1 = sdb s"
proof -
  let ?its = "jobItems (sdb s) (job_id job)"
  obtain r s1 where t: "advance_turn cf fresh now job s = (r, s1)" by fastforce
  note t1 = turn_read_only [OF t assms(2,3)]
  show ?thesis
  proof (cases r)
    case None
    with t t1(1) show ?thesis by (subst advance_job.simps) simp
  next
    case (Some job1)
    with t1(2) have job1: "job1 = job\<lparr>next_batch := next_queued ?its + 1\<rparr>"
      and c: "\<not> list_ex (command_pending (sdb s)) ?its" "\<not> must_stop (sdb s) job" "0 \<le> next_queued ?its"
      by (auto split: if_splits)
    have stop: "must_stop (sdb s) job1" using assms(1) c by (simp add: turns_for_ever_def Let_def job1)
    obtain r2 s2 where u: "advance_turn cf fresh now job1 s1 = (r2, s2)" by fastforce
    have "\<not> writable (sdb s1)" using t1(1) assms(2) by simp
    note u1 = turn_read_only [OF u this assms(3)]
    have "r2 = None" using u1(2) stop t1(1) by simp
    then have "advance_job cf fresh now job1 s1 = Some s2" using u by (subst advance_job.simps) simp
    then show ?thesis using t u1(1) t1(1) Some by (subst advance_job.simps) simp
  qed
qed

lemma advance_jobs_read_only:
  assumes "\<not> writable (sdb s)" "publish cf \<noteq> None"
  shows "advance_jobs cf now js s = None \<longleftrightarrow> (\<exists>j \<in> set js. turns_for_ever (sdb s) j)"
  using assms(1)
proof (induction js arbitrary: s)
  case (Cons j js)
  show ?case
  proof (cases "turns_for_ever (sdb s) j")
    case True
    then show ?thesis using advance_hangs [OF True Cons.prems assms(2)] by simp
  next
    case False
    obtain s1 where "advance_job cf False now j s = Some s1" "sdb s1 = sdb s"
      using advance_read_only [OF False Cons.prems assms(2)] by blast
    then show ?thesis using Cons False by simp
  qed
qed simp

lemma advance_jobs_store_nothing:
  assumes "\<not> writable (sdb s)" "publish cf \<noteq> None"
  shows "advance_jobs cf now js s = Some s1 \<Longrightarrow> sdb s1 = sdb s"
  using assms(1)
proof (induction js arbitrary: s)
  case (Cons j js)
  have "\<not> turns_for_ever (sdb s) j"
    using advance_hangs [OF _ Cons.prems(2) assms(2), of j False now] Cons.prems(1) by auto
  then obtain s2 where "advance_job cf False now j s = Some s2" "sdb s2 = sdb s"
    using advance_read_only [OF _ Cons.prems(2) assms(2)] by blast
  then show ?case using Cons by simp
qed simp

lemma must_stop_ends:
  assumes "must_stop (sdb s) job" "\<not> list_ex (command_pending (sdb s)) (jobItems (sdb s) (job_id job))"
  shows "\<exists>reason. advance_job cf fresh now job s = Some (endJob (job_id job) ''stopped'' reason now s)"
proof -
  obtain r s1 where t: "advance_turn cf fresh now job s = (r, s1)" by fastforce
  then show ?thesis
    by (cases rule: advance_turn_cases) (use assms t in \<open>auto simp: advance_job.simps [of cf fresh now job s]\<close>)
qed

lemma finishJob_clears:
  assumes "writable d" "list_ex (is_running i) (jobs d)"
  shows "queued_screens (snd (finishJob d i st reason now)) i = {}"
    and "st \<noteq> ''running'' \<Longrightarrow> \<not> list_ex (is_running i) (jobs (snd (finishJob d i st reason now)))"
  using assms by (auto simp: finishJob_def queued_screens_def queued_of_def is_running_def list_ex_iff)


subsection \<open>Two ways of counting\<close>

datatype slot = SQueued | SSkipped | SFailed | SCancelled | SPending | SExecuted | SUnconfirmed | SNone

definition counter_of :: "string \<times> string \<times> bool \<Rightarrow> slot" where
  "counter_of k = (case k of (st, cs, has) \<Rightarrow>
     if st = ''queued'' then SQueued else if st = ''skipped_offline'' then SSkipped
     else if st = ''failed'' then SFailed else if st = ''cancelled'' then SCancelled
     else if st = ''sent'' \<and> has then
       (if cs = ''pending'' then SPending else if cs = ''executed'' then SExecuted else SUnconfirmed)
     else SNone)"

fun bump :: "slot \<Rightarrow> nat \<Rightarrow> JobSummary \<Rightarrow> JobSummary" where
  "bump SQueued n v = v\<lparr>total := total v + n, sum_queued := sum_queued v + n\<rparr>"
| "bump SSkipped n v = v\<lparr>total := total v + n, sum_skipped := sum_skipped v + n\<rparr>"
| "bump SFailed n v = v\<lparr>total := total v + n, sum_failed := sum_failed v + n\<rparr>"
| "bump SCancelled n v = v\<lparr>total := total v + n, sum_cancelled := sum_cancelled v + n\<rparr>"
| "bump SPending n v = v\<lparr>total := total v + n, sum_pending := sum_pending v + n\<rparr>"
| "bump SExecuted n v = v\<lparr>total := total v + n, sum_executed := sum_executed v + n\<rparr>"
| "bump SUnconfirmed n v = v\<lparr>total := total v + n, sum_unconfirmed := sum_unconfirmed v + n\<rparr>"
| "bump SNone n v = v\<lparr>total := total v + n\<rparr>"

lemma bump_commute: "bump a m (bump b n v) = bump b n (bump a m v)"
  by (cases a; cases b) simp_all

lemma bump_add: "bump a m (bump a n v) = bump a (n + m) v"
  by (cases a) simp_all

lemma view_count_bump:
  "view_count c v = bump (counter_of (count_state c, count_command c, has_command c)) (count_n c) v"
  by (simp add: view_count_def count_sent_def counter_of_def Let_def)

lemma view_item_bump:
  assumes "findCommand d [] = None"
  shows "view_item d it v = bump (counter_of (count_key d it)) 1 v"
  using assms
  by (auto simp: view_item_def count_sent_def counter_of_def Let_def count_key_def joined_def split: option.splits)

lemma fold_bump_out: "fold (\<lambda>k. bump (s k) (c k)) ks (bump a n v) = bump a n (fold (\<lambda>k. bump (s k) (c k)) ks v)"
  by (induction ks arbitrary: v) (simp_all add: bump_commute)

lemma fold_bump_one_more:
  assumes "distinct ks" "x \<in> set ks"
  shows "fold (\<lambda>k. bump (s k) (if x = k then c k + 1 else c k)) ks v = bump (s x) 1 (fold (\<lambda>k. bump (s k) (c k)) ks v)"
  using assms
proof (induction ks arbitrary: v)
  case (Cons y ks)
  show ?case
  proof (cases "x = y")
    case True
    then have "fold (\<lambda>k. bump (s k) (if x = k then c k + 1 else c k)) ks w = fold (\<lambda>k. bump (s k) (c k)) ks w" for w
      using Cons.prems(1) by (intro List.fold_cong) auto
    then show ?thesis
      using True bump_add [of "s y" 1 "c y" v] by (simp add: fold_bump_out [symmetric])
  next
    case False
    with Cons show ?thesis by simp
  qed
qed simp

lemma fold_by_count:
  "fold (\<lambda>k. bump (s k) 1) ks v = fold (\<lambda>k. bump (s k) (count_list ks k)) (remdups ks) v"
proof (induction ks arbitrary: v)
  case (Cons x ks)
  have *: "fold (\<lambda>k. bump (s k) 1) (x # ks) v = bump (s x) 1 (fold (\<lambda>k. bump (s k) (count_list ks k)) (remdups ks) v)"
    using Cons fold_bump_out [of s "\<lambda>_. 1" ks "s x" 1 v] by simp
  show ?case
  proof (cases "x \<in> set ks")
    case True
    have "fold (\<lambda>k. bump (s k) (count_list (x # ks) k)) (remdups ks) v
      = fold (\<lambda>k. bump (s k) (if x = k then count_list ks k + 1 else count_list ks k)) (remdups ks) v"
      by (intro List.fold_cong) auto
    with True * fold_bump_one_more [of "remdups ks" x s "count_list ks" v] show ?thesis by simp
  next
    case False
    have "fold (\<lambda>k. bump (s k) (count_list (x # ks) k)) (remdups ks) w
      = fold (\<lambda>k. bump (s k) (count_list ks k)) (remdups ks) w" for w
      using False by (intro List.fold_cong) auto
    moreover have "count_list ks x = 0" using False by (simp add: count_list_0_iff)
    ultimately show ?thesis using * False by (simp add: fold_bump_out)
  qed
qed simp

lemma overview_counts:
  assumes "findCommand d [] = None"
  shows "jobOverview d i = map_option (\<lambda>(j, v, its). (j, v)) (jobView d i)"
proof -
  let ?its = "filter (\<lambda>it. item_job it = i) (job_items d)"
  have "fold (view_item d) (jobItems d i) no_summary = fold (view_item d) ?its no_summary"
  proof (rule fun_cong [OF fold_multiset_equiv])
    show "mset (jobItems d i) = mset ?its" by (simp add: jobItems_def)
    show "view_item d x \<circ> view_item d y = view_item d y \<circ> view_item d x" for x y
      by (rule ext) (simp add: view_item_bump [OF assms] bump_commute)
  qed
  also have "\<dots> = fold (\<lambda>k. bump (counter_of k) 1) (map (count_key d) ?its) no_summary"
    unfolding fold_map by (intro List.fold_cong) (simp_all add: view_item_bump [OF assms] fun_eq_iff)
  also have "\<dots> = fold (\<lambda>k. bump (counter_of k) (count_list (map (count_key d) ?its) k)) (remdups (map (count_key d) ?its)) no_summary"
    by (rule fold_by_count)
  also have "\<dots> = fold view_count (jobItemCounts d i) no_summary"
    unfolding jobItemCounts_def Let_def fold_map
    by (intro List.fold_cong) (simp_all add: view_count_bump fun_eq_iff)
  finally show ?thesis by (simp add: jobView_def jobOverview_def split: option.splits)
qed

subsection \<open>Every job comes to an end\<close>

definition round :: "options \<Rightarrow> int \<Rightarrow> service \<Rightarrow> service option" where
  "round cf now s = tick cf now (snd (sweep now s))"

text \<open>What comes between the rounds: reports of screens, commands set free, screens that come and go.\<close>

datatype between =
    Answered string string string "int option" int
  | Released string int
  | WorldChanged "PlayerRow list" "StatusRow list"

fun happen :: "between \<Rightarrow> service \<Rightarrow> service" where
  "happen (Answered p i status up now) s = onResult p i status up now s"
| "happen (Released i now) s = snd (release_command i now s)"
| "happen (WorldChanged ps sts) s = s\<lparr>sdb := (sdb s)\<lparr>players := ps, statuses := sts\<rparr>\<rparr>"

fun rounds :: "options \<Rightarrow> (between list \<times> int) list \<Rightarrow> service \<Rightarrow> service option" where
  "rounds cf [] s = Some s"
| "rounds cf ((es, t) # ts) s = (case round cf t (fold happen es s) of None \<Rightarrow> None | Some s1 \<Rightarrow> rounds cf ts s1)"

text \<open>Times of the rounds: the first not before \<open>t\<close>, each at least \<open>gap\<close> after the one before.\<close>

fun spaced :: "int \<Rightarrow> int \<Rightarrow> int list \<Rightarrow> bool" where
  "spaced gap t [] = True"
| "spaced gap t (x # xs) = (t \<le> x \<and> spaced gap (x + gap) xs)"

definition deadlines_by :: "db \<Rightarrow> int \<Rightarrow> bool" where
  "deadlines_by d t \<longleftrightarrow> (\<forall>c \<in> set (commands d). cmd_state c = ''pending'' \<longrightarrow> deadline_at c \<le> t)"

definition queued_batches_ok :: "db \<Rightarrow> string \<Rightarrow> bool" where
  "queued_batches_ok d i \<longleftrightarrow> (\<forall>it \<in> set (job_items d). queued_of i it \<longrightarrow> 0 \<le> batch_no it)"

definition running :: "db \<Rightarrow> JobRow list" where
  "running d = filter (\<lambda>j. job_state j = ''running'') (jobs d)"

definition broker_up :: "options \<Rightarrow> bool" where
  "broker_up cf \<longleftrightarrow> (\<exists>pub. publish cf = Some pub \<and> (\<forall>n m. pub n m = PubOk))"

lemma sweep_settles:
  assumes "deadlines_by d now" "writable d"
  shows "\<forall>c \<in> set (commands (snd (timeoutCommands d now))). cmd_state c \<noteq> ''pending''"
  using assms
  by (force simp: timeoutCommands_def Let_def list_ex_iff is_pending_def overdue_def deadlines_by_def)

lemma timeoutCommands_untouched [simp]:
  "jobs (snd (timeoutCommands d now)) = jobs d" "job_items (snd (timeoutCommands d now)) = job_items d"
  "writable (snd (timeoutCommands d now)) = writable d"
  by (simp_all add: timeoutCommands_def Let_def)

lemma sendToPlayer_up:
  assumes "broker_up cf" "now + confirmTimeoutFor (settings cf) t \<le> D"
  shows "err (fst (sendToPlayer cf p t u now s)) \<noteq> ''broker_unavailable''"
    and "deadlines_by (sdb s) D \<Longrightarrow> deadlines_by (sdb (snd (sendToPlayer cf p t u now s))) D"
proof -
  obtain pub where pub: "publish cf = Some pub" "\<And>n m. pub n m = PubOk" using assms(1) by (auto simp: broker_up_def)
  let ?row = "new_command cf (new_id cf (ids s)) p t u now"
  obtain res d1 where cr: "createCommand (sdb s) ?row = (res, d1)" by fastforce
  show "err (fst (sendToPlayer cf p t u now s)) \<noteq> ''broker_unavailable''"
    using pub cr by (auto simp: sendToPlayer_def publish_command_def refused_def Let_def
        split: option.splits CommandCreate.splits)
  assume dl: "deadlines_by (sdb s) D"
  from cr have "deadlines_by d1 D"
    by (cases rule: createCommand_cases) (use dl assms(2) in \<open>auto simp: deadlines_by_def new_command_def\<close>)
  then show "deadlines_by (sdb (snd (sendToPlayer cf p t u now s))) D"
    using pub cr dl by (auto simp: sendToPlayer_def publish_command_def Let_def
        split: option.splits CommandCreate.splits)
qed

lemma sdb_after_send_unqueued:
  "sdb (snd (after_send cf fresh now job it one s)) = sdb s \<or>
   (\<exists>cmd e. sdb (snd (after_send cf fresh now job it one s)) =
      updateJobItem (sdb s) (job_id job) (item_player it) ''sent'' cmd e) \<or>
   (\<exists>e. sdb (snd (after_send cf fresh now job it one s)) =
      updateJobItem (sdb s) (job_id job) (item_player it) ''failed'' [] e)"
  by (auto simp: after_send_def Let_def split: option.splits)

lemma queued_batches_update:
  "st \<noteq> ''queued'' \<Longrightarrow> queued_batches_ok d i \<Longrightarrow> queued_batches_ok (updateJobItem d j p st cmd e) i"
  by (auto simp: queued_batches_ok_def updateJobItem_def queued_of_def)

lemma send_one_up:
  fixes s :: service and it :: JobItem and fresh :: bool
  assumes "broker_up cf" "now + confirmTimeoutFor (settings cf) (job_type job) \<le> D"
  defines "s1 \<equiv> snd (send_one cf fresh now job it s)"
  shows "\<not> fst (send_one cf fresh now job it s)" "deadlines_by (sdb s) D \<Longrightarrow> deadlines_by (sdb s1) D"
    "jobs (sdb s1) = jobs (sdb s)" "queued_batches_ok (sdb s) i \<Longrightarrow> queued_batches_ok (sdb s1) i"
proof -
  have dl: "deadlines_by (updateJobItem d j p st cmd e) D = deadlines_by d D" for d j p st cmd e
    by (simp add: deadlines_by_def)
  have "\<not> fst (send_one cf fresh now job it s) \<and> (deadlines_by (sdb s) D \<longrightarrow> deadlines_by (sdb s1) D) \<and>
    jobs (sdb s1) = jobs (sdb s) \<and> (queued_batches_ok (sdb s) i \<longrightarrow> queued_batches_ok (sdb s1) i)"
  proof (cases "screen_gone (sdb s) (item_player it)")
    case True
    then show ?thesis by (simp add: s1_def send_one_def dl queued_batches_update)
  next
    case False
    obtain one s0 where s0: "sendToPlayer cf (item_player it) (job_type job) (created_by job) now s = (one, s0)"
      by fastforce
    note up = sendToPlayer_up [OF assms(1,2), where p = "item_player it" and u = "created_by job" and s = s, unfolded s0, simplified]
    have scr: "same_screens (sdb s) (sdb s0)"
      using screens_sendToPlayer [of s cf "item_player it" "job_type job" "created_by job" now] s0 by simp
    have e: "send_one cf fresh now job it s = after_send cf fresh now job it one s0"
      using False s0 by (simp add: send_one_def)
    have "\<not> fst (after_send cf fresh now job it one s0)"
      using up(1) by (simp add: after_send_def split: option.splits)
    moreover have "queued_batches_ok (sdb s0) i = queued_batches_ok (sdb s) i" "jobs (sdb s0) = jobs (sdb s)"
      using scr by (simp_all add: same_screens_def queued_batches_ok_def)
    ultimately show ?thesis
      using up(2) sdb_after_send_unqueued [of cf fresh now job it one s0] queued_batches_update
      unfolding s1_def e by (auto simp: dl)
  qed
  then show "\<not> fst (send_one cf fresh now job it s)" "deadlines_by (sdb s) D \<Longrightarrow> deadlines_by (sdb s1) D"
    "jobs (sdb s1) = jobs (sdb s)" "queued_batches_ok (sdb s) i \<Longrightarrow> queued_batches_ok (sdb s1) i" by auto
qed

lemma send_batch_up:
  assumes "broker_up cf" "now + confirmTimeoutFor (settings cf) (job_type job) \<le> D"
  shows "\<not> fst (send_batch cf fresh now job b its s) \<and>
    (deadlines_by (sdb s) D \<longrightarrow> deadlines_by (sdb (snd (send_batch cf fresh now job b its s))) D) \<and>
    jobs (sdb (snd (send_batch cf fresh now job b its s))) = jobs (sdb s) \<and>
    (queued_batches_ok (sdb s) i \<longrightarrow> queued_batches_ok (sdb (snd (send_batch cf fresh now job b its s))) i)"
proof (induction its arbitrary: s)
  case (Cons it its)
  obtain w s1 where s1: "send_one cf fresh now job it s = (w, s1)" by fastforce
  note up = send_one_up [OF assms, where fresh = fresh and it = it and s = s, unfolded s1, simplified]
  from up(1) s1 Cons.IH [of s1] Cons.IH [of s] up(2-4) show ?case by auto
qed simp

lemma running_setNextBatch:
  "map job_id (running (setNextBatch d i n)) = map job_id (running d)"
proof -
  have "filter (\<lambda>j. job_state j = ''running'') (map (\<lambda>j. if is_running i j then j\<lparr>next_batch := n\<rparr> else j) js)
    = map (\<lambda>j. if is_running i j then j\<lparr>next_batch := n\<rparr> else j) (filter (\<lambda>j. job_state j = ''running'') js)" for js
    by (induction js) auto
  then show ?thesis by (simp add: running_def setNextBatch_def comp_def if_distrib cong: if_cong)
qed

lemma running_finishJob:
  assumes "map job_id (running d) = [i]" "writable d" "st \<noteq> ''running''"
  shows "running (snd (finishJob d i st reason now)) = []"
proof -
  obtain j where j: "running d = [j]" "job_id j = i" using assms(1) by (cases "running d") auto
  then have all: "x = j" if "x \<in> set (jobs d)" "job_state x = ''running''" for x
  proof -
    have "x \<in> set (running d)" using that by (simp add: running_def)
    then show ?thesis by (simp add: j(1))
  qed
  have "j \<in> set (running d)" by (simp add: j(1))
  then have "j \<in> set (jobs d)" "job_state j = ''running''" by (simp_all add: running_def)
  then have ex: "list_ex (is_running i) (jobs d)" using j(2) by (auto simp: list_ex_iff is_running_def)
  have own: "job_id x = i" if "x \<in> set (jobs d)" "job_state x = ''running''" for x
    using all [OF that] j(2) by simp
  let ?f = "\<lambda>j. if is_running i j then j\<lparr>job_state := st, stop_reason := reason, job_finished_at := Some now\<rparr> else j"
  have "job_state (?f x) \<noteq> ''running''" if "x \<in> set (jobs d)" for x
    using own [OF that] assms(3) by (auto simp: is_running_def)
  with assms(2) ex show ?thesis by (simp add: running_def finishJob_def filter_empty_conv del: if_image_distrib)
qed

text \<open>One round: the job is over, or fewer screens are left and what is unsettled is settled by the next round.\<close>

lemma advance_round:
  fixes job :: JobRow
  assumes run: "advance_job cf False now job s = Some s1" and up: "broker_up cf"
    and T: "\<And>t. confirmTimeoutFor (settings cf) t \<le> T"
    and none: "\<forall>c \<in> set (commands (sdb s)). cmd_state c \<noteq> ''pending''" and w: "writable (sdb s)"
    and only: "map job_id (running (sdb s)) = [job_id job]" and q: "queued_batches_ok (sdb s) (job_id job)"
  shows "running (sdb s1) = [] \<and> writable (sdb s1) \<or>
    (map job_id (running (sdb s1)) = [job_id job] \<and> writable (sdb s1) \<and> queued_batches_ok (sdb s1) (job_id job)
      \<and> deadlines_by (sdb s1) (now + T)
      \<and> queued_screens (sdb s1) (job_id job) \<subset> queued_screens (sdb s) (job_id job))"
proof -
  define P where "P = (\<lambda>(j :: JobRow) (t :: service). job_id j = job_id job \<and> writable (sdb t)
    \<and> map job_id (running (sdb t)) = [job_id job] \<and> queued_batches_ok (sdb t) (job_id job) \<and> deadlines_by (sdb t) (now + T)
    \<and> (t = s \<or> queued_screens (sdb t) (job_id job) \<subset> queued_screens (sdb s) (job_id job)))"
  have quiet: "\<not> list_ex (command_pending (sdb s)) its" for its
    using none by (auto simp: list_ex_iff command_pending_def findCommand_def dest!: find_SomeD split: option.splits)
  have "\<exists>j t. P j t \<and> advance_turn cf False now j t = (None, s1)"
  proof (rule advance_run [OF run])
    show "P job s" using w only q none by (simp add: P_def deadlines_by_def)
  next
    fix j t j1 t1 assume p: "P j t" and tn: "advance_turn cf False now j t = (Some j1, t1)"
    let ?its = "jobItems (sdb t) (job_id j)"
    let ?s0 = "snd (send_batch cf False now j (next_queued ?its) ?its t)"
    have w': "writable (sdb t)" and id: "job_id j = job_id job" using p by (simp_all add: P_def)
    note pr = advance_turn_progress [OF tn w']
    have t1: "sdb t1 = setNextBatch (sdb ?s0) (job_id j) (next_queued ?its + 1)"
      using tn by (cases rule: advance_turn_cases) auto
    note b = send_batch_up [OF up add_left_mono [OF T], where fresh = False and job = j and b = "next_queued ?its" and its = ?its
      and s = t and i = "job_id job" and now = now]
    have "map job_id (running (sdb t1)) = map job_id (running (sdb t))"
      unfolding t1 running_setNextBatch using b by (simp add: running_def)
    moreover have "queued_batches_ok (sdb t1) (job_id job)" "deadlines_by (sdb t1) (now + T)"
      using b p unfolding t1 by (simp_all add: P_def queued_batches_ok_def deadlines_by_def)
    ultimately show "P j1 t1"
      using p pr id by (auto simp: P_def)
  qed
  then obtain j t where p: "P j t" and tn: "advance_turn cf False now j t = (None, s1)" by blast
  from tn show ?thesis
  proof (cases rule: advance_turn_cases)
    case pending
    then have "t \<noteq> s" using quiet by auto
    with p pending show ?thesis by (auto simp: P_def)
  next
    case (ended st reason)
    have "st \<noteq> ''running''" using ended(4) by auto
    with p ended(6) running_finishJob [of "sdb t" "job_id job" st reason now] show ?thesis by (auto simp: P_def)
  next
    case waits
    with send_batch_up [OF up add_left_mono [OF T], where fresh = False and job = j and now = now] show ?thesis by blast
  qed simp
qed


lemma queued_screens_cong: "job_items d' = job_items d \<Longrightarrow> queued_screens d' i = queued_screens d i"
  by (simp add: queued_screens_def)

lemma sdb_sweep: "sdb (snd (sweep now s)) = snd (timeoutCommands (sdb s) now)"
  by (simp add: sweep_def case_prod_unfold Let_def)

lemma runningJobs_running: "runningJobs d = sort_key created_at (running d)"
  by (simp add: runningJobs_def running_def)

lemma round_progress:
  assumes up: "broker_up cf" and T: "\<And>t. confirmTimeoutFor (settings cf) t \<le> T"
    and dl: "deadlines_by (sdb s) now" and w: "writable (sdb s)"
    and only: "map job_id (running (sdb s)) = [i]" and q: "queued_batches_ok (sdb s) i"
  shows "\<exists>s1. round cf now s = Some s1 \<and> (running (sdb s1) = [] \<and> writable (sdb s1) \<or>
    map job_id (running (sdb s1)) = [i] \<and> writable (sdb s1) \<and> queued_batches_ok (sdb s1) i
      \<and> deadlines_by (sdb s1) (now + T) \<and> queued_screens (sdb s1) i \<subset> queued_screens (sdb s) i)"
proof -
  let ?s0 = "snd (sweep now s)"
  have s0: "jobs (sdb ?s0) = jobs (sdb s)" "job_items (sdb ?s0) = job_items (sdb s)" "writable (sdb ?s0)"
      "\<forall>c \<in> set (commands (sdb ?s0)). cmd_state c \<noteq> ''pending''"
    using sweep_settles [OF dl w] w by (simp_all add: sdb_sweep)
  obtain j where j: "running (sdb s) = [j]" "job_id j = i" using only by (cases "running (sdb s)") auto
  then have rj: "runningJobs (sdb ?s0) = [j]" "running (sdb ?s0) = [j]"
    using s0(1) by (simp_all add: runningJobs_running running_def)
  obtain s1 where s1: "advance_job cf False now j ?s0 = Some s1" using advance_returns [OF s0(3)] by blast
  have "round cf now s = Some s1" using s1 rj(1) by (simp add: round_def tick_def)
  moreover have "queued_batches_ok (sdb ?s0) (job_id j)" using q s0(2) j(2) by (simp add: queued_batches_ok_def)
  ultimately show ?thesis
    using advance_round [OF s1 up T s0(4,3)] rj(2) j(2) queued_screens_cong [OF s0(2)] by auto
qed

text \<open>Nothing that happens between the rounds touches jobs or items, and no command becomes unsettled by it.\<close>

lemma settle_keeps_deadlines: "deadlines_by d t \<Longrightarrow> st \<noteq> ''pending'' \<Longrightarrow> deadlines_by (snd (settleCommand d i st res now)) t"
  by (auto simp: deadlines_by_def settleCommand_def Let_def)

lemma sdb_onResult: "sdb (onResult p i status up now s) = (case findCommand (sdb s) i of None \<Rightarrow> sdb s
   | Some c \<Rightarrow> if cmd_player c \<noteq> p \<or> cmd_state c \<noteq> ''pending'' then sdb s
       else snd (settleCommand (sdb s) i (fst (verdict c status up now)) (snd (verdict c status up now)) now))"
  by (simp add: onResult_def case_prod_unfold Let_def split: option.split)

lemma sdb_release: "sdb (snd (release_command i now s)) = snd (settleCommand (sdb s) i ''released'' ''released_by_admin'' now)"
  by (simp add: release_command_def case_prod_unfold Let_def split: option.split)

lemma happen_keeps:
  "jobs (sdb (happen e s)) = jobs (sdb s)" "job_items (sdb (happen e s)) = job_items (sdb s)"
  "writable (sdb (happen e s)) = writable (sdb s)"
  "deadlines_by (sdb s) t \<Longrightarrow> deadlines_by (sdb (happen e s)) t"
  by (cases e; simp add: sdb_onResult sdb_release settle_keeps_deadlines verdict_settles split: option.split;
    simp add: deadlines_by_def)+

lemma happenings_keep:
  "jobs (sdb (fold happen es s)) = jobs (sdb s)" "job_items (sdb (fold happen es s)) = job_items (sdb s)"
  "writable (sdb (fold happen es s)) = writable (sdb s)"
  "deadlines_by (sdb s) t \<Longrightarrow> deadlines_by (sdb (fold happen es s)) t"
  by (induction es arbitrary: s) (simp_all add: happen_keeps)

lemma happenings_running: "running (sdb (fold happen es s)) = running (sdb s)"
  "queued_batches_ok (sdb (fold happen es s)) i = queued_batches_ok (sdb s) i"
  "queued_screens (sdb (fold happen es s)) i = queued_screens (sdb s) i"
  by (simp_all add: running_def queued_batches_ok_def queued_screens_def happenings_keep)

lemma rounds_idle:
  assumes "running (sdb s) = []"
  shows "\<exists>s1. rounds cf ts s = Some s1 \<and> running (sdb s1) = []"
  using assms
proof (induction ts arbitrary: s)
  case (Cons et ts)
  obtain es t where et: "et = (es, t)" by (cases et)
  let ?s = "fold happen es s"
  have r: "running (sdb ?s) = []" using Cons.prems by (simp add: happenings_running)
  then have "round cf t ?s = Some (snd (sweep t ?s))"
    by (simp add: round_def tick_def runningJobs_running running_def sdb_sweep)
  moreover have "running (sdb (snd (sweep t ?s))) = []" using r by (simp add: running_def sdb_sweep)
  ultimately show ?case using Cons.IH et by simp
qed simp

lemma rounds_finish:
  assumes up: "broker_up cf" and T: "\<And>t. confirmTimeoutFor (settings cf) t \<le> T"
    and "deadlines_by (sdb s) t0" "spaced T t0 (map snd ts)" "writable (sdb s)" "map job_id (running (sdb s)) = [i]"
      "queued_batches_ok (sdb s) i" "card (queued_screens (sdb s) i) < length ts"
  shows "\<exists>s1. rounds cf ts s = Some s1 \<and> running (sdb s1) = []"
  using assms(3-)
proof (induction ts arbitrary: s t0)
  case (Cons et ts)
  obtain es t where et: "et = (es, t)" by (cases et)
  let ?s = "fold happen es s"
  have "deadlines_by (sdb s) t" using Cons.prems(1,2) et by (force simp: deadlines_by_def)
  then have "deadlines_by (sdb ?s) t" by (rule happenings_keep)
  from round_progress [OF up T this, of i] Cons.prems(3,4,5)
  have "\<exists>s1. round cf t ?s = Some s1 \<and> (running (sdb s1) = [] \<and> writable (sdb s1) \<or>
      map job_id (running (sdb s1)) = [i] \<and> writable (sdb s1) \<and> queued_batches_ok (sdb s1) i
      \<and> deadlines_by (sdb s1) (t + T) \<and> queued_screens (sdb s1) i \<subset> queued_screens (sdb s) i)"
    by (simp only: happenings_keep happenings_running)
  then obtain s1 where sp: "round cf t ?s = Some s1 \<and> (running (sdb s1) = [] \<and> writable (sdb s1) \<or>
      map job_id (running (sdb s1)) = [i] \<and> writable (sdb s1) \<and> queued_batches_ok (sdb s1) i
      \<and> deadlines_by (sdb s1) (t + T) \<and> queued_screens (sdb s1) i \<subset> queued_screens (sdb s) i)" ..
  note s1 = conjunct1 [OF sp] and c = conjunct2 [OF sp]
  show ?case
  proof (cases "running (sdb s1) = []")
    case True
    with rounds_idle [OF this] s1 et show ?thesis by simp
  next
    case False
    with c have c': "map job_id (running (sdb s1)) = [i]" "writable (sdb s1)" "queued_batches_ok (sdb s1) i"
        "deadlines_by (sdb s1) (t + T)" "queued_screens (sdb s1) i \<subset> queued_screens (sdb s) i" by auto
    have "card (queued_screens (sdb s1) i) < length ts"
      using psubset_card_mono [OF finite_queued_screens c'(5)] Cons.prems(6) by simp
    with Cons.IH [OF c'(4) _ c'(2,1,3)] Cons.prems(2) s1 et show ?thesis by simp
  qed
qed simp

text \<open>
  A bulk command for which nothing could be sent is over when \<open>advance\<close> returns: a fresh job does
  not wait for the broker. Taking it back after that finds no running job and changes nothing, so
  it stays listed as stopped (or done), with its failures.
\<close>

lemma fresh_never_waits: "\<not> fst (send_batch cf True now job b its s)"
proof (induction its arbitrary: s)
  case (Cons it its)
  have "\<not> fst (send_one cf True now job it s)"
    by (auto simp: send_one_def after_send_def split: prod.splits option.splits)
  with Cons show ?case by (auto split: prod.splits)
qed simp

lemma bulk_not_taken_back:
  assumes "advance_job cf True now job s = Some s1" "writable (sdb s)"
    and "\<forall>it \<in> set (jobItems (sdb s1) (job_id job)). item_state it \<noteq> ''sent''"
  shows "finishJob (sdb s1) (job_id job) ''cancelled'' ''broker_unavailable'' now = (False, sdb s1)"
proof -
  have "\<exists>j t. (job_id j = job_id job \<and> writable (sdb t)) \<and> advance_turn cf True now j t = (None, s1)"
    by (rule advance_run [OF assms(1)]) (use assms(2) advance_turn_progress in auto)
  then obtain j t where jt: "job_id j = job_id job" "writable (sdb t)" and tn: "advance_turn cf True now j t = (None, s1)"
    by blast
  from tn show ?thesis
  proof (cases rule: advance_turn_cases)
    case pending
    with assms(3) jt(1) show ?thesis by (auto simp: list_ex_iff command_pending_def)
  next
    case (ended st reason)
    have "\<not> list_ex (is_running (job_id j)) (jobs (sdb s1))"
    proof (cases "list_ex (is_running (job_id j)) (jobs (sdb t))")
      case True
      have "st \<noteq> ''running''" using ended(4) by auto
      from finishJob_clears(2) [OF jt(2) True this] ended(6) show ?thesis by simp
    next
      case False
      then have "sdb s1 = sdb t" using ended(6) by (simp add: finishJob_def)
      with False show ?thesis by simp
    qed
    then show ?thesis using jt(1) by (simp add: finishJob_def)
  next
    case waits
    then show ?thesis using fresh_never_waits by blast
  qed simp
qed

lemma advance_all_returns: "writable (sdb s) \<Longrightarrow> \<exists>s1. advance_jobs cf now js s = Some s1"
proof (induction js arbitrary: s)
  case (Cons j js)
  obtain s1 where s1: "advance_job cf False now j s = Some s1" using advance_returns [OF Cons.prems] by blast
  have "writable (sdb s1)" using evolves_advance [OF s1] Cons.prems by (simp add: evolves_def)
  with Cons.IH s1 show ?case by simp
qed simp

lemma sendToTarget_returns: "\<exists>r. sendToTarget cf t ty phrase n u now s = Some r"
proof -
  let ?p = "plan_command (sdb s) t ty"
  let ?job = "new_job cf (new_id cf (ids s)) t ty ?p u now"
  obtain created d where d: "createJob (sdb s) ?job (new_items (job_id ?job) (batch_size ?job) ?p) = (created, d)"
    by fastforce
  have "writable d" if created using that d by (auto simp: createJob_def Let_def split: if_splits)
  then have "\<exists>s2. advance_job cf True now ?job (s\<lparr>sdb := d, ids := Suc (ids s)\<rparr>) = Some s2" if created
    using that advance_returns [of "s\<lparr>sdb := d, ids := Suc (ids s)\<rparr>"] by simp
  with d show ?thesis by (auto simp: sendToTarget_def Let_def)
qed

subsection \<open>An installation with one screen\<close>

definition one_screen_options :: options where
  "one_screen_options = \<lparr>publish = Some (\<lambda>n m. PubOk), new_id = (\<lambda>n. [char_of (n + 65)]),
     settings = \<lparr>command_ttl_s = 300, confirm_timeout_restart_s = 300, confirm_timeout_reboot_s = 1200,
       confirm_timeout_reload_s = 120, command_batch_size = 10, command_batch_stop_percent = 30\<rparr>,
     broker_wait_s = 300\<rparr>"

definition one_screen_job :: JobRow where
  "one_screen_job = \<lparr>job_id = ''j'', job_type = ''reload_playlist'', target_kind = ''all'', target_id = 0,
     target_name = ''all'', job_state = ''running'', stop_reason = [], batch_size = 10, stop_percent = 30,
     next_batch = 0, created_at = 5, created_by = None, job_finished_at = None\<rparr>"

definition one_screen_item :: JobItem where
  "one_screen_item = \<lparr>item_job = ''j'', item_player = ''p'', batch_no = 0, item_state = ''queued'',
     item_command = [], item_error = []\<rparr>"

definition one_screen :: "bool \<Rightarrow> CommandRow list \<Rightarrow> JobRow list \<Rightarrow> JobItem list \<Rightarrow> service" where
  "one_screen w cs js its = \<lparr>sdb = \<lparr>players = [\<lparr>player_id = ''p'', player_state = Active, player_created = 1, group_id = None\<rparr>],
     objects = [], groups = [], statuses = [\<lparr>status_player = ''p'', online = True\<rparr>], commands = cs, jobs = js,
     job_items = its, writable = w\<rparr>, attempts = 0, outbox = [], news = [], ids = 0, waiting = Map.empty\<rparr>"

lemmas one_screen_defs = one_screen_options_def one_screen_job_def one_screen_item_def one_screen_def

lemma one_screen_ok:
  "schema_ok (sdb (one_screen w [] [one_screen_job] [one_screen_item]))"
  "schema_ok (sdb (one_screen w [] [] []))"
  by (simp_all add: one_screen_defs schema_ok_def commands_ok_def items_ok_def item_key_def)

lemma one_screen_queued: "queued_screens (sdb (one_screen w cs js [one_screen_item])) ''j'' = {''p''}"
  by (auto simp: queued_screens_def one_screen_def one_screen_item_def queued_of_def)

section \<open>Properties\<close>

text \<open>C2: through any history of sends, bulk sends, ticks, reports, sweeps, releases and cancellations, with
  screens coming and going, a screen has at most one unsettled command of a type, every command
  stays with its screen, and one that is settled keeps its state, result and time for good.\<close>

theorem commands_settle_once:
  assumes "(svc_step cf)\<^sup>*\<^sup>* s s'" "schema_ok (sdb s)"
  shows "(\<forall>c c'. c \<in> set (commands (sdb s')) \<and> c' \<in> set (commands (sdb s')) \<and> cmd_player c = cmd_player c'
      \<and> cmd_type c = cmd_type c' \<and> cmd_state c = ''pending'' \<and> cmd_state c' = ''pending'' \<longrightarrow> c = c')
    \<and> (\<forall>i c. findCommand (sdb s) i = Some c \<longrightarrow> (\<exists>c'. findCommand (sdb s') i = Some c' \<and> cmd_player c' = cmd_player c
      \<and> cmd_type c' = cmd_type c \<and> (cmd_state c \<noteq> ''pending'' \<longrightarrow> c' = c)))"
proof (intro conjI)
  note e = evolves_history [OF assms(1)]
  have "schema_ok (sdb s')" using e assms(2) by (simp add: evolves_def)
  then have ok: "commands_ok (commands (sdb s'))" by (simp add: schema_ok_def)
  show "(\<forall>c c'. c \<in> set (commands (sdb s')) \<and> c' \<in> set (commands (sdb s')) \<and> cmd_player c = cmd_player c'
      \<and> cmd_type c = cmd_type c' \<and> cmd_state c = ''pending'' \<and> cmd_state c' = ''pending'' \<longrightarrow> c = c')"
    by (intro allI impI) (rule one_unsettled [OF ok], auto)
  show "\<forall>i c. findCommand (sdb s) i = Some c \<longrightarrow> (\<exists>c'. findCommand (sdb s') i = Some c' \<and> cmd_player c' = cmd_player c
      \<and> cmd_type c' = cmd_type c \<and> (cmd_state c \<noteq> ''pending'' \<longrightarrow> c' = c))"
    using evolvesD [OF e] by (auto simp: same_order_def)
qed

theorem commands_settle_once_witness:
  "\<exists>!c. c \<in> set (commands (sdb (snd (sendToPlayer one_screen_options ''p'' ''reload_playlist'' None 5 (one_screen True [] [] []))))) \<and> cmd_player c = ''p'' \<and> cmd_type c = ''reload_playlist'' \<and> cmd_state c = ''pending''"
proof -
  have "svc_step one_screen_options (one_screen True [] [] []) (snd (sendToPlayer one_screen_options ''p'' ''reload_playlist'' None 5 (one_screen True [] [] [])))"
    by (rule step_send)
  then have run: "(svc_step one_screen_options)\<^sup>*\<^sup>* (one_screen True [] [] []) (snd (sendToPlayer one_screen_options ''p'' ''reload_playlist'' None 5 (one_screen True [] [] [])))"
    by (rule r_into_rtranclp)
  have "list_ex (\<lambda>c. cmd_player c = ''p'' \<and> cmd_type c = ''reload_playlist'' \<and> cmd_state c = ''pending'')
      (commands (sdb (snd (sendToPlayer one_screen_options ''p'' ''reload_playlist'' None 5 (one_screen True [] [] [])))))"
    by code_simp
  then obtain c where c: "c \<in> set (commands (sdb (snd (sendToPlayer one_screen_options ''p'' ''reload_playlist'' None 5 (one_screen True [] [] [])))))" "cmd_player c = ''p''"
    "cmd_type c = ''reload_playlist''" "cmd_state c = ''pending''" by (auto simp: list_ex_iff)
  show ?thesis
    using commands_settle_once [OF run one_screen_ok(2), THEN conjunct1] c by (intro ex1I [of _ c]) simp_all
qed

text \<open>C3: the loop that moves jobs on ends: a tick returns when the database takes writes, with any number
  of jobs, any pattern of broker failures and any set of connected screens. A bulk command returns with either kind
  of database, for a job that cannot be stored is not entered upon. The database is of one kind throughout a
  call; \<open>failed_storage_hangs_tick\<close> says when a tick does not return on one that refuses writes.\<close>

theorem jobs_terminate:
  "(writable (sdb s) \<longrightarrow> (\<exists>s1. tick cf now s = Some s1)) \<and> (\<exists>r. sendToTarget cf t ty phrase n u now s = Some r)"
  using advance_all_returns [of s cf now "runningJobs (sdb s)"] sendToTarget_returns
  by (simp add: tick_def)

theorem jobs_terminate_witness:
  "\<exists>s1. tick one_screen_options 7 (one_screen True [] [one_screen_job] [one_screen_item]) = Some s1"
  using jobs_terminate [of "one_screen True [] [one_screen_job] [one_screen_item]" one_screen_options 7]
  by (simp add: one_screen_def)

text \<open>C4: with a database that takes writes and a broker that takes messages, the only running job is over after more
  rounds of sweep and tick than it has queued screens, the first not before the deadlines of the commands that are
  unsettled at the start, the rounds at least a confirmation timeout apart. Before each round any screens may report
  anything or nothing, commands be set free, and screens come and go; a command nobody confirms times out.\<close>

theorem job_comes_to_an_end:
  assumes "publish cf = Some pub" "\<And>n m. pub n m = PubOk" "\<And>ty. confirmTimeoutFor (settings cf) ty \<le> gap"
    "writable (sdb s)" "map job_id (filter (\<lambda>j. job_state j = ''running'') (jobs (sdb s))) = [i]"
    "\<forall>it \<in> set (job_items (sdb s)). queued_of i it \<longrightarrow> 0 \<le> batch_no it"
    "\<forall>c \<in> set (commands (sdb s)). cmd_state c = ''pending'' \<longrightarrow> deadline_at c \<le> t0"
    "spaced gap t0 (map snd ts)" "card (queued_screens (sdb s) i) < length ts"
  shows "\<exists>s1. rounds cf ts s = Some s1 \<and> \<not> list_ex (\<lambda>j. job_state j = ''running'') (jobs (sdb s1))"
proof -
  have "broker_up cf" using assms(1,2) by (simp add: broker_up_def)
  from rounds_finish [OF this assms(3) _ assms(8) assms(4) _ _ assms(9)] assms(5-7)
  obtain s1 where "rounds cf ts s = Some s1 \<and> running (sdb s1) = []"
    by (auto simp: deadlines_by_def running_def queued_batches_ok_def)
  then show ?thesis by (auto simp: running_def filter_empty_conv list_ex_iff)
qed

theorem job_comes_to_an_end_witness:
  "\<exists>s1. rounds one_screen_options [([], 0), ([Answered ''p'' ''A'' ''executed'' None 3], 1200)]
      (one_screen True [] [one_screen_job] [one_screen_item]) = Some s1
    \<and> \<not> list_ex (\<lambda>j. job_state j = ''running'') (jobs (sdb s1))"
  by (rule job_comes_to_an_end [where gap = 1200 and i = "''j''" and ?t0.0 = 0 and pub = "\<lambda>n m. PubOk"])
    (simp_all add: one_screen_queued, simp_all add: one_screen_defs confirmTimeoutFor_def queued_of_def)

text \<open>C5: when more than \<open>stop_percent\<close> of the last batch did not come back, \<open>advance\<close> sends nothing more, leaves
  no screen queued and ends the job as stopped; and while a command of the job is unsettled it leaves
  the service as it is.\<close>

theorem failed_batch_stops_job:
  fixes job :: JobRow
  defines "its \<equiv> \<lambda>s. jobItems (sdb s) (job_id job)"
  defines "last_batch \<equiv> \<lambda>s. batch_members (next_batch job - 1) (its s)"
  shows "(list_ex (command_pending (sdb s)) (its s) \<longrightarrow> advance_job cf fresh now job s = Some s)
    \<and> (\<not> list_ex (command_pending (sdb s)) (its s) \<and> 0 < next_batch job \<and> last_batch s \<noteq> []
        \<and> stop_percent job * int (length (last_batch s)) < 100 * int (length (filter (item_bad (sdb s)) (last_batch s)))
        \<and> writable (sdb s) \<and> list_ex (is_running (job_id job)) (jobs (sdb s))
      \<longrightarrow> (\<exists>s1. advance_job cf fresh now job s = Some s1 \<and> outbox s1 = outbox s
        \<and> queued_screens (sdb s1) (job_id job) = {} \<and> \<not> list_ex (is_running (job_id job)) (jobs (sdb s1))))"
proof (intro conjI impI)
  show "advance_job cf fresh now job s = Some s" if "list_ex (command_pending (sdb s)) (its s)"
    using that by (subst advance_job.simps) (simp add: advance_turn_def its_def Let_def)
next
  assume a: "\<not> list_ex (command_pending (sdb s)) (its s) \<and> 0 < next_batch job \<and> last_batch s \<noteq> []
      \<and> stop_percent job * int (length (last_batch s)) < 100 * int (length (filter (item_bad (sdb s)) (last_batch s)))
      \<and> writable (sdb s) \<and> list_ex (is_running (job_id job)) (jobs (sdb s))"
  then have "must_stop (sdb s) job" by (simp add: must_stop_def last_batch_def its_def mult.commute)
  with a obtain reason where "advance_job cf fresh now job s = Some (endJob (job_id job) ''stopped'' reason now s)"
    using must_stop_ends [of s job cf fresh now] by (auto simp: its_def)
  with a finishJob_clears [of "sdb s" "job_id job" "''stopped''" reason now]
  show "\<exists>s1. advance_job cf fresh now job s = Some s1 \<and> outbox s1 = outbox s
      \<and> queued_screens (sdb s1) (job_id job) = {} \<and> \<not> list_ex (is_running (job_id job)) (jobs (sdb s1))"
    by simp
qed

theorem failed_batch_stops_job_witness:
  "\<exists>s1. advance_job one_screen_options False 7 (one_screen_job\<lparr>next_batch := 1\<rparr>)
      (one_screen True [] [one_screen_job] [one_screen_item\<lparr>item_state := ''failed''\<rparr>]) = Some s1 \<and> outbox s1 = []"
  using failed_batch_stops_job [of "one_screen True [] [one_screen_job] [one_screen_item\<lparr>item_state := ''failed''\<rparr>]"
      "one_screen_job\<lparr>next_batch := 1\<rparr>" one_screen_options False 7]
  by (auto simp: one_screen_defs command_pending_def batch_members_def item_bad_def is_running_def jobItems_def)

text \<open>C6: with a database that refuses writes (a full disk) and a broker configured, a tick stores nothing, and it does
  not return exactly when one of the running jobs turns for ever: none of its commands is unsettled, it has screens
  queued, and the stop rule applies neither to its last batch nor to the batch that comes up. The results of the
  item updates are not looked at, so that batch comes up in every turn.\<close>

theorem failed_storage_hangs_tick:
  assumes "\<not> writable (sdb s)" "publish cf \<noteq> None"
  shows "(tick cf now s = None \<longleftrightarrow> (\<exists>job \<in> set (runningJobs (sdb s)). let its = jobItems (sdb s) (job_id job) in
      \<not> list_ex (command_pending (sdb s)) its \<and> 0 \<le> next_queued its \<and>
      \<not> must_stop (sdb s) job \<and> \<not> must_stop (sdb s) (job\<lparr>next_batch := next_queued its + 1\<rparr>)))
    \<and> (\<forall>s1. tick cf now s = Some s1 \<longrightarrow> sdb s1 = sdb s)"
  using advance_jobs_read_only [OF assms] advance_jobs_store_nothing [OF assms]
  by (simp add: tick_def turns_for_ever_def Let_def)

theorem failed_storage_hangs_tick_witness:
  "tick one_screen_options 7 (one_screen False [] [one_screen_job] [one_screen_item]) = None"
proof -
  have "runningJobs (sdb (one_screen False [] [one_screen_job] [one_screen_item])) = [one_screen_job]"
    and "jobItems (sdb (one_screen False [] [one_screen_job] [one_screen_item])) (job_id one_screen_job) = [one_screen_item]"
    by (simp_all add: one_screen_defs runningJobs_def jobItems_def)
  then show ?thesis
    using failed_storage_hangs_tick [of "one_screen False [] [one_screen_job] [one_screen_item]" one_screen_options 7]
    by (simp add: must_stop_def Let_def, simp add: one_screen_defs command_pending_def next_queued_def batch_members_def)
qed

text \<open>A bulk command sends at most \<open>batch_size\<close> messages before it returns, whatever the number of screens
  it is aimed at: the loop does not go on to another batch while a command of the job is unsettled.\<close>

lemma bulk_send_bounded:
  assumes "sendToTarget cf t ty phrase n u now s = Some (out, s1)" "schema_ok (sdb s)"
    "0 < command_batch_size (settings cf)"
  shows "\<exists>ms. outbox s1 = outbox s @ ms \<and> length ms \<le> nat (command_batch_size (settings cf))"
  using assms by (rule bulk_sends_one_batch)

text \<open>The counts \<open>jobOverview\<close> makes from one grouped query are the counts \<open>jobView\<close> makes by going through
  the items one by one, provided no command has the empty id.\<close>

lemma overview_counts_as_view:
  assumes "\<forall>c \<in> set (commands d). cmd_id c \<noteq> []"
  shows "jobOverview d i = map_option (\<lambda>(j, v, its). (j, v)) (jobView d i)"
proof -
  have "findCommand d [] = None" using assms by (auto simp: findCommand_def find_None_iff)
  then show ?thesis by (rule overview_counts)
qed

end
