(* ===== verification/Preloader.thy ===== *)
theory Preloader
  imports Timeline
begin

text \<open>
  The preloader, \<open>core/Preloader.cpp\<close>: which clips have to be ready (\<open>computeWarmSet\<close>) and the tick
  that starts their preparation, rewinds the next one and releases the ones that are not needed.
  A tick reads the timeline and starts asynchronous calls; the calls it makes of the clips are its
  output, in order. What the clips and the futures answer when they are asked (prepared, finished)
  is an argument of the tick, once for every place that asks. Start times and log indices are left out.
\<close>

subsection \<open>The warm set\<close>

definition kWarmCap :: int where "kWarmCap = 2"

text \<open>The remainder of C++, which truncates towards zero.\<close>

definition trem :: "int \<Rightarrow> int \<Rightarrow> int" where
  "trem a b = (if a < 0 then - ((- a) mod b) else a mod b)"

definition computeWarmSet :: "int \<Rightarrow> int \<Rightarrow> int \<Rightarrow> int list" where
  "computeWarmSet n cur_idx cap =
     (if n \<le> 0 \<or> cap \<le> 0 then []
      else
        let cur = (if cur_idx < 0 then trem (trem cur_idx n + n) n
                   else if n \<le> cur_idx then trem cur_idx n else cur_idx);
            take = min cap n in
        map (\<lambda>i. trem (cur + i) n) [0..take - 1])"

subsection \<open>State and answers\<close>

record preloader =
  preload_sec :: rat
  last_clip :: "clip option"
  preloading_clip :: "clip option"
  prepared_for_clip :: "clip option"
  releasing_clip :: "clip option"
  preload_valid :: bool
  release_valid :: bool
  prev_remaining_sec :: rat
  pending_wrap_snap :: bool
  pending_head_loop :: bool

definition new_Preloader :: "rat \<Rightarrow> preloader" where
  "new_Preloader sec = \<lparr>preload_sec = sec, last_clip = None, preloading_clip = None, prepared_for_clip = None,
     releasing_clip = None, preload_valid = False, release_valid = False, prev_remaining_sec = 0,
     pending_wrap_snap = False, pending_head_loop = False\<rparr>"

datatype call =
    Prepare clip
  | Reset clip
  | Release clip
  | SetHeadPlayback clip bool
  | SetFreezeTail clip bool

text \<open>
  The answers: \<open>wait_for(0) == ready\<close> of the preload future in section 1, where a preload may start and
  where the warm set is kept; of the release future in section 2 and before the two releases; and
  \<open>isPrepared\<close> of a clip at the four places that ask.
\<close>

record answers =
  preload_done :: bool
  preload_done_start :: bool
  preload_done_warm :: bool
  release_done :: bool
  release_done_wrap :: bool
  release_done_sweep :: bool
  prepared_start :: "clip \<Rightarrow> bool"
  prepared_warm :: "clip \<Rightarrow> bool"
  prepared_wrap :: "clip \<Rightarrow> bool"
  prepared_sweep :: "clip \<Rightarrow> bool"

text \<open>What a tick reads at its start.\<close>

record view =
  v_clips :: "clip list"
  v_idx :: nat
  v_remaining :: rat
  v_in_transition :: bool
  v_active_pending :: bool
  v_tail_len :: rat

definition cur_clip :: "view \<Rightarrow> clip" where "cur_clip v = v_clips v ! v_idx v"
definition next_idx :: "view \<Rightarrow> nat" where "next_idx v = (v_idx v + 1) mod length (v_clips v)"
definition next_clip :: "view \<Rightarrow> clip" where "next_clip v = v_clips v ! next_idx v"

definition warm_ptrs :: "view \<Rightarrow> clip list" where
  "warm_ptrs v = map (\<lambda>i. v_clips v ! nat i) (computeWarmSet (int (length (v_clips v))) (int (v_idx v)) kWarmCap)"

definition tail_len_at :: "PlaylistSnapshot \<Rightarrow> nat \<Rightarrow> rat" where
  "tail_len_at snap i =
     (if i < length (transitions snap) \<and> tr_type (transitions snap ! i) \<noteq> TypeHardCut
         \<and> tr_mode (transitions snap ! i) \<noteq> ModeHardCut
      then max 0 (tr_duration (transitions snap ! i)) else 0)"

definition read_view :: "(clip \<Rightarrow> IClip) \<Rightarrow> timeline \<Rightarrow> view option" where
  "read_view env t =
     (let snap = tl_current t; i = getActiveIndex t in
      if clips snap = [] \<or> i < 0 \<or> int (length (clips snap)) \<le> i then None
      else Some \<lparr>v_clips = clips snap, v_idx = nat i, v_remaining = getRemainingTime env t,
        v_in_transition = in_transition (tl_peek env t),
        v_active_pending = (nat i < length (pending_remove snap) \<and> pending_remove snap ! nat i),
        v_tail_len = tail_len_at snap (nat i)\<rparr>)"

subsection \<open>The sections of a tick\<close>

text \<open>The active clip is marked for removal: it is dropped when its slot wraps.\<close>

definition doomed_step :: "view \<Rightarrow> preloader \<times> timeline \<times> call list \<Rightarrow> (preloader \<times> timeline \<times> call list) option" where
  "doomed_step v = (\<lambda>(p, t, cs).
     if \<not> v_active_pending v then Some (p, t, cs)
     else
       let p1 = p\<lparr>pending_head_loop := False, pending_wrap_snap := False\<rparr>;
           cs1 = cs @ [SetHeadPlayback (cur_clip v) False, SetFreezeTail (cur_clip v) False] in
       if prev_remaining_sec p + 1 < v_remaining v
       then (case reapPendingActive t of None \<Rightarrow> None
             | Some (_, tl1) \<Rightarrow> Some (p1\<lparr>prev_remaining_sec := 0\<rparr>, tl1, cs1))
       else Some (p1\<lparr>prev_remaining_sec := v_remaining v\<rparr>, t, cs1))"

text \<open>1. and 2. The futures that have finished.\<close>

definition preload_finished :: "answers \<Rightarrow> preloader \<times> timeline \<times> call list \<Rightarrow> preloader \<times> timeline \<times> call list" where
  "preload_finished a = (\<lambda>(p, t, cs).
     if preload_valid p \<and> preload_done a
     then (p\<lparr>preload_valid := False, preloading_clip := None, pending_wrap_snap := False\<rparr>,
           if pending_wrap_snap p then snapCursorToActiveStart t else t, cs)
     else (p, t, cs))"

definition release_finished :: "answers \<Rightarrow> preloader \<Rightarrow> preloader" where
  "release_finished a p =
     (if release_valid p \<and> release_done a then p\<lparr>release_valid := False, releasing_clip := None\<rparr> else p)"

text \<open>3. Head playback, the wrap of the slot, and the start of a preload.\<close>

definition wrap_detected :: "view \<Rightarrow> preloader \<Rightarrow> bool" where
  "wrap_detected v p \<longleftrightarrow> prepared_for_clip p = Some (cur_clip v)
     \<and> prev_remaining_sec p + preload_sec p < v_remaining v"

definition wrap_step :: "view \<Rightarrow> preloader \<times> call list \<Rightarrow> preloader \<times> call list" where
  "wrap_step v = (\<lambda>(p, cs).
     let cs1 = (if pending_head_loop p then cs @ [SetHeadPlayback (cur_clip v) (v_in_transition v)] else cs);
         (p2, cs2) = (if \<not> wrap_detected v p then (p, cs1)
           else if pending_head_loop p then
             (p\<lparr>prepared_for_clip := None, pending_head_loop := False\<rparr>,
              cs1 @ [SetHeadPlayback (cur_clip v) False, SetFreezeTail (cur_clip v) False])
           else (p\<lparr>prepared_for_clip := None\<rparr>, cs1)) in
     (p2\<lparr>prev_remaining_sec := v_remaining v\<rparr>, cs2))"

definition single_clip :: "view \<Rightarrow> bool" where
  "single_clip v \<longleftrightarrow> length (v_clips v) = 1"

definition self_transition_loop :: "view \<Rightarrow> bool" where
  "self_transition_loop v \<longleftrightarrow> single_clip v \<and> 0 < v_tail_len v"

definition effective_preload_sec :: "view \<Rightarrow> preloader \<Rightarrow> rat" where
  "effective_preload_sec v p =
     (if self_transition_loop v then v_tail_len v else if single_clip v then 1 / 2 else preload_sec p)"

definition single_clip_pending :: "view \<Rightarrow> bool" where
  "single_clip_pending v \<longleftrightarrow> next_clip v = cur_clip v \<and> v_active_pending v"

definition preload_allowed :: "view \<Rightarrow> answers \<Rightarrow> preloader \<Rightarrow> bool" where
  "preload_allowed v a p \<longleftrightarrow>
     v_remaining v < effective_preload_sec v p \<and> preloading_clip p \<noteq> Some (next_clip v)
     \<and> (\<not> preload_valid p \<or> preload_done_start a) \<and> prepared_for_clip p \<noteq> Some (cur_clip v)
     \<and> \<not> single_clip_pending v"

definition start_preload :: "view \<Rightarrow> answers \<Rightarrow> preloader \<times> call list \<Rightarrow> preloader \<times> call list" where
  "start_preload v a = (\<lambda>(p, cs).
     if \<not> preload_allowed v a p then (p, cs)
     else
       let p1 = p\<lparr>preload_valid := True, preloading_clip := Some (next_clip v),
                  prepared_for_clip := Some (cur_clip v)\<rparr> in
       if \<not> prepared_start a (next_clip v) then (p1, cs @ [Prepare (next_clip v)])
       else if next_idx v \<le> v_idx v then
         let cs1 = (if self_transition_loop v \<and> next_clip v = cur_clip v
                    then cs @ [SetFreezeTail (cur_clip v) True] else cs) in
         (if self_transition_loop v then p1\<lparr>pending_head_loop := True\<rparr>
          else p1\<lparr>pending_wrap_snap := single_clip v\<rparr>, cs1 @ [Reset (next_clip v)])
       else (p, cs))"

text \<open>The warm set is kept: the first cold member that is not in flight is prepared.\<close>

definition cold_member :: "view \<Rightarrow> answers \<Rightarrow> preloader \<Rightarrow> int \<Rightarrow> bool" where
  "cold_member v a p i \<longleftrightarrow> i \<noteq> int (v_idx v) \<and> \<not> prepared_warm a (v_clips v ! nat i)
     \<and> preloading_clip p \<noteq> Some (v_clips v ! nat i)"

definition keep_warm :: "view \<Rightarrow> answers \<Rightarrow> preloader \<times> call list \<Rightarrow> preloader \<times> call list" where
  "keep_warm v a = (\<lambda>(p, cs).
     if single_clip_pending v \<or> preload_valid p \<and> \<not> preload_done_warm a then (p, cs)
     else case find (cold_member v a p) (computeWarmSet (int (length (v_clips v))) (int (v_idx v)) kWarmCap) of
       None \<Rightarrow> (p, cs)
     | Some i \<Rightarrow> (p\<lparr>preload_valid := True, preloading_clip := Some (v_clips v ! nat i)\<rparr>,
                  cs @ [Prepare (v_clips v ! nat i)]))"

text \<open>4. The previous active clip, and the staggered sweep of cold clips.\<close>

definition release_old :: "view \<Rightarrow> answers \<Rightarrow> preloader \<times> call list \<Rightarrow> preloader \<times> call list" where
  "release_old v a = (\<lambda>(p, cs).
     if last_clip p = Some (cur_clip v) \<or> v_in_transition v then (p, cs)
     else case last_clip p of
       None \<Rightarrow> (p\<lparr>last_clip := Some (cur_clip v)\<rparr>, cs)
     | Some old \<Rightarrow>
       if prepared_wrap a old \<and> old \<notin> set (warm_ptrs v) \<and> (\<not> release_valid p \<or> release_done_wrap a)
       then (p\<lparr>releasing_clip := Some old, release_valid := True, last_clip := Some (cur_clip v)\<rparr>, cs @ [Release old])
       else (p\<lparr>last_clip := Some (cur_clip v)\<rparr>, cs))"

definition sweepable :: "view \<Rightarrow> answers \<Rightarrow> preloader \<Rightarrow> clip \<Rightarrow> bool" where
  "sweepable v a p c \<longleftrightarrow> c \<notin> set (warm_ptrs v) \<and> prepared_sweep a c
     \<and> preloading_clip p \<noteq> Some c \<and> releasing_clip p \<noteq> Some c"

definition cold_sweep :: "view \<Rightarrow> answers \<Rightarrow> preloader \<times> call list \<Rightarrow> preloader \<times> call list" where
  "cold_sweep v a = (\<lambda>(p, cs).
     if release_valid p \<and> \<not> release_done_sweep a then (p, cs)
     else case find (sweepable v a p) (v_clips v) of
       None \<Rightarrow> (p, cs)
     | Some c \<Rightarrow> (p\<lparr>releasing_clip := Some c, release_valid := True\<rparr>, cs @ [Release c]))"

definition pre_tick ::
  "(clip \<Rightarrow> IClip) \<Rightarrow> answers \<Rightarrow> preloader \<times> timeline \<Rightarrow> (preloader \<times> timeline \<times> call list) option" where
  "pre_tick env a = (\<lambda>(p, t).
     case read_view env t of
       None \<Rightarrow> Some (p, t, [])
     | Some v \<Rightarrow>
       (case doomed_step v (p, t, []) of
          None \<Rightarrow> None
        | Some s0 \<Rightarrow>
          let (p1, tl1, cs1) = preload_finished a s0;
              (p2, cs2) = (cold_sweep v a \<circ> release_old v a \<circ> keep_warm v a \<circ> start_preload v a \<circ> wrap_step v)
                            (release_finished a p1, cs1) in
          Some (p2, tl1, cs2)))"


subsection \<open>What the warm set is\<close>

lemma trem_nonneg [simp]: "0 \<le> a \<Longrightarrow> trem a b = a mod b"
  by (simp add: trem_def)

lemma trem_fold:
  assumes "0 < n"
  shows "trem (trem a n + n) n = a mod n"
proof (cases "a < 0")
  case True
  have "(- a) mod n < n" using assms by simp
  then have "trem (trem a n + n) n = (n - (- a) mod n) mod n" using True by (simp add: trem_def)
  also have "\<dots> = (- ((- a) mod n)) mod n" by (simp add: mod_simps)
  also have "\<dots> = a mod n" by (simp add: mod_minus_eq)
  finally show ?thesis .
next
  case False
  then show ?thesis using assms by (simp add: add_increasing)
qed

lemma computeWarmSet_mod:
  assumes "0 < n" "0 < cap"
  shows "computeWarmSet n cur cap = map (\<lambda>k. (cur + k) mod n) [0..min cap n - 1]"
proof -
  define c where "c = (if cur < 0 then trem (trem cur n + n) n else if n \<le> cur then trem cur n else cur)"
  have c: "c = cur mod n" using assms(1) by (auto simp: c_def trem_fold)
  then have "0 \<le> c" using assms(1) by simp
  have "computeWarmSet n cur cap = map (\<lambda>i. trem (c + i) n) [0..min cap n - 1]"
    using assms by (simp add: computeWarmSet_def c_def Let_def)
  also have "\<dots> = map (\<lambda>k. (cur + k) mod n) [0..min cap n - 1]"
    using \<open>0 \<le> c\<close> by (intro map_cong refl) (simp add: c mod_simps)
  finally show ?thesis .
qed

definition good_view :: "view \<Rightarrow> bool" where
  "good_view v \<longleftrightarrow> v_idx v < length (v_clips v)"

lemma warm_indices:
  assumes "good_view v"
  shows "computeWarmSet (int (length (v_clips v))) (int (v_idx v)) kWarmCap =
    (if single_clip v then [int (v_idx v)] else [int (v_idx v), int (next_idx v)])"
proof -
  let ?n = "length (v_clips v)"
  have n: "0 < ?n" "v_idx v < ?n" using assms by (auto simp: good_view_def)
  show ?thesis
  proof (cases "?n = 1")
    case True
    then show ?thesis using n
      by (simp add: computeWarmSet_mod kWarmCap_def single_clip_def)
  next
    case False
    then have "2 \<le> ?n" using n by simp
    then have m: "min 2 (int ?n) - 1 = 1" by simp
    have l: "[0..1::int] = [0, 1]" by (simp add: upto.simps)
    from n False show ?thesis
      by (simp add: computeWarmSet_mod kWarmCap_def single_clip_def m l next_idx_def zmod_int add.commute)
  qed
qed

lemma next_idx_single: "good_view v \<Longrightarrow> single_clip v \<Longrightarrow> next_idx v = v_idx v"
  by (simp add: good_view_def single_clip_def next_idx_def)

lemma warm_ptrs_set:
  assumes "good_view v"
  shows "set (warm_ptrs v) = {cur_clip v, next_clip v}"
  using warm_indices [OF assms] next_idx_single [OF assms]
  by (auto simp: warm_ptrs_def cur_clip_def next_clip_def)

lemma read_view_good: "read_view env t = Some v \<Longrightarrow> good_view v"
  by (auto simp: read_view_def good_view_def Let_def split: if_splits)

subsection \<open>What a tick calls\<close>

text \<open>Every section appends its calls.\<close>

lemma doomed_step_calls:
  assumes "doomed_step v (p, t, []) = Some (p1, t1, cs)"
  shows "cs = [] \<or> cs = [SetHeadPlayback (cur_clip v) False, SetFreezeTail (cur_clip v) False]"
    and "preload_valid p1 = preload_valid p" "preloading_clip p1 = preloading_clip p"
    "prepared_for_clip p1 = prepared_for_clip p" "preload_sec p1 = preload_sec p"
  using assms by (auto simp: doomed_step_def Let_def split: if_splits option.splits)

definition no_start :: "call list \<Rightarrow> bool" where
  "no_start cs \<longleftrightarrow> (\<forall>x \<in> set cs. case x of Prepare _ \<Rightarrow> False | Reset _ \<Rightarrow> False | Release _ \<Rightarrow> False | _ \<Rightarrow> True)"

lemma no_start_simps [simp]:
  "no_start []" "no_start (cs @ ds) = (no_start cs \<and> no_start ds)"
  "no_start (SetHeadPlayback c b # cs) = no_start cs" "no_start (SetFreezeTail c b # cs) = no_start cs"
  "no_start (Prepare c # cs) = False" "no_start (Reset c # cs) = False" "no_start (Release c # cs) = False"
  by (auto simp: no_start_def)

lemma no_startD: "no_start cs \<Longrightarrow> Prepare c \<notin> set cs \<and> Reset c \<notin> set cs \<and> Release c \<notin> set cs"
  by (auto simp: no_start_def)

lemma wrap_step_calls:
  assumes "wrap_step v (p, cs) = (p1, cs1)"
  shows "\<exists>ds. cs1 = cs @ ds \<and> no_start ds" and "preload_valid p1 = preload_valid p"
    "preloading_clip p1 = preloading_clip p" "preload_sec p1 = preload_sec p"
    "prev_remaining_sec p1 = v_remaining v"
    "prepared_for_clip p1 = (if wrap_detected v p then None else prepared_for_clip p)"
  using assms by (auto simp: wrap_step_def Let_def split: if_splits prod.splits)

lemma start_preload_calls:
  assumes "start_preload v a (p, cs) = (p1, cs1)"
  shows "\<exists>ds. cs1 = cs @ ds \<and> (no_start ds \<and> p1 = p \<or> ds = [Prepare (next_clip v)] \<and> \<not> prepared_start a (next_clip v)
      \<or> (\<exists>es. ds = es @ [Reset (next_clip v)] \<and> no_start es) \<and> next_idx v \<le> v_idx v \<and> prepared_start a (next_clip v))"
  using assms by (auto simp: start_preload_def Let_def split: if_splits)

lemma keep_warm_calls:
  assumes "keep_warm v a (p, cs) = (p1, cs1)"
  shows "cs1 = cs \<and> p1 = p \<or>
    (\<exists>i. cs1 = cs @ [Prepare (v_clips v ! nat i)] \<and> \<not> prepared_warm a (v_clips v ! nat i))"
  using assms
  by (auto simp: keep_warm_def cold_member_def find_Some_iff split: if_splits option.splits)

lemma release_old_calls:
  assumes "release_old v a (p, cs) = (p1, cs1)"
  shows "\<exists>ds. cs1 = cs @ ds \<and> (ds = [] \<or> (\<exists>c. ds = [Release c] \<and> c \<notin> set (warm_ptrs v)))"
  using assms by (auto simp: release_old_def split: if_splits option.splits)

lemma cold_sweep_calls:
  assumes "cold_sweep v a (p, cs) = (p1, cs1)"
  shows "\<exists>ds. cs1 = cs @ ds \<and> (ds = [] \<or> (\<exists>c. ds = [Release c] \<and> c \<notin> set (warm_ptrs v)))"
  using assms by (auto simp: cold_sweep_def sweepable_def find_Some_iff split: if_splits option.splits)


lemma preload_finished_calls:
  assumes "preload_finished a (p, t, cs) = (p1, t1, cs1)"
  shows "cs1 = cs" "preload_sec p1 = preload_sec p" "prepared_for_clip p1 = prepared_for_clip p"
    "\<not> preload_valid p \<Longrightarrow> p1 = p"
  using assms by (auto simp: preload_finished_def split: if_splits)

lemma release_finished_same [simp]:
  "preload_valid (release_finished a p) = preload_valid p" "preloading_clip (release_finished a p) = preloading_clip p"
  "prepared_for_clip (release_finished a p) = prepared_for_clip p" "preload_sec (release_finished a p) = preload_sec p"
  "prev_remaining_sec (release_finished a p) = prev_remaining_sec p"
  by (simp_all add: release_finished_def)

text \<open>A tick, section by section.\<close>

lemma pre_tick_sections:
  assumes "pre_tick env a (p, t) = Some (p', t', cs)" "read_view env t = Some v"
  obtains p0 t0 cs0 p1 p2 cs2 p3 cs3 p4 cs4 p5 cs5 where
    "doomed_step v (p, t, []) = Some (p0, t0, cs0)" "preload_finished a (p0, t0, cs0) = (p1, t', cs0)"
    "wrap_step v (release_finished a p1, cs0) = (p2, cs2)" "start_preload v a (p2, cs2) = (p3, cs3)"
    "keep_warm v a (p3, cs3) = (p4, cs4)" "release_old v a (p4, cs4) = (p5, cs5)"
    "cold_sweep v a (p5, cs5) = (p', cs)"
proof -
  obtain p0 t0 cs0 where 0: "doomed_step v (p, t, []) = Some (p0, t0, cs0)"
    using assms by (auto simp: pre_tick_def split: option.splits)
  obtain p1 t1 cs1 where 1: "preload_finished a (p0, t0, cs0) = (p1, t1, cs1)" by (metis prod_cases3)
  obtain p2 cs2 where 2: "wrap_step v (release_finished a p1, cs1) = (p2, cs2)" by fastforce
  obtain p3 cs3 where 3: "start_preload v a (p2, cs2) = (p3, cs3)" by fastforce
  obtain p4 cs4 where 4: "keep_warm v a (p3, cs3) = (p4, cs4)" by fastforce
  obtain p5 cs5 where 5: "release_old v a (p4, cs4) = (p5, cs5)" by fastforce
  obtain p6 cs6 where 6: "cold_sweep v a (p5, cs5) = (p6, cs6)" by fastforce
  have "(p', t', cs) = (p6, t1, cs6)"
    using assms 0 1 2 3 4 5 6 by (simp add: pre_tick_def)
  with that [OF 0 _ _ 3 4 5] 1 2 6 preload_finished_calls(1) [OF 1] show ?thesis by simp
qed

lemma tick_releases_cold:
  assumes "pre_tick env a (p, t) = Some (p', t', cs)" "read_view env t = Some v" "Release c \<in> set cs"
  shows "c \<noteq> cur_clip v" "c \<noteq> next_clip v"
proof -
  from assms(1,2) obtain p0 t0 cs0 p1 p2 cs2 p3 cs3 p4 cs4 p5 cs5 where
    s: "doomed_step v (p, t, []) = Some (p0, t0, cs0)" "preload_finished a (p0, t0, cs0) = (p1, t', cs0)"
    "wrap_step v (release_finished a p1, cs0) = (p2, cs2)" "start_preload v a (p2, cs2) = (p3, cs3)"
    "keep_warm v a (p3, cs3) = (p4, cs4)" "release_old v a (p4, cs4) = (p5, cs5)"
    "cold_sweep v a (p5, cs5) = (p', cs)"
    by (rule pre_tick_sections)
  have "Release c \<notin> set cs4"
    using doomed_step_calls(1) [OF s(1)] wrap_step_calls(1) [OF s(3)] start_preload_calls [OF s(4)]
      keep_warm_calls [OF s(5)] by (auto dest: no_startD)
  then have "c \<notin> set (warm_ptrs v)"
    using assms(3) release_old_calls [OF s(6)] cold_sweep_calls [OF s(7)] by auto
  then show "c \<noteq> cur_clip v" "c \<noteq> next_clip v"
    using warm_ptrs_set [OF read_view_good [OF assms(2)]] by auto
qed

text \<open>The preload future is valid exactly while a clip is recorded as preloading.\<close>

definition preload_ok :: "preloader \<Rightarrow> bool" where
  "preload_ok p \<longleftrightarrow> (preload_valid p \<longleftrightarrow> preloading_clip p \<noteq> None)"

lemma new_preload_ok: "preload_ok (new_Preloader sec)"
  by (simp add: preload_ok_def new_Preloader_def)

lemma tick_preload_ok:
  assumes "pre_tick env a (p, t) = Some (p', t', cs)" "preload_ok p"
  shows "preload_ok p'"
proof (cases "read_view env t")
  case None
  with assms show ?thesis by (simp add: pre_tick_def)
next
  case (Some v)
  from assms(1) Some obtain p0 t0 cs0 p1 p2 cs2 p3 cs3 p4 cs4 p5 cs5 where
    s: "doomed_step v (p, t, []) = Some (p0, t0, cs0)" "preload_finished a (p0, t0, cs0) = (p1, t', cs0)"
    "wrap_step v (release_finished a p1, cs0) = (p2, cs2)" "start_preload v a (p2, cs2) = (p3, cs3)"
    "keep_warm v a (p3, cs3) = (p4, cs4)" "release_old v a (p4, cs4) = (p5, cs5)"
    "cold_sweep v a (p5, cs5) = (p', cs)"
    by (rule pre_tick_sections)
  have "preload_ok p0" using assms(2) doomed_step_calls(2,3) [OF s(1)] by (simp add: preload_ok_def)
  then have "preload_ok p1" using s(2) by (auto simp: preload_finished_def preload_ok_def split: if_splits)
  then have "preload_ok p2" using wrap_step_calls(2,3) [OF s(3)] by (simp add: preload_ok_def)
  then have "preload_ok p3" using s(4) by (auto simp: start_preload_def Let_def preload_ok_def split: if_splits)
  then have "preload_ok p4" using s(5) by (auto simp: keep_warm_def preload_ok_def split: if_splits option.splits)
  then have "preload_ok p5" using s(6) by (auto simp: release_old_def preload_ok_def split: if_splits option.splits)
  then show ?thesis using s(7) by (auto simp: cold_sweep_def preload_ok_def split: if_splits option.splits)
qed

text \<open>With nothing in flight, a next clip that is not prepared is prepared in this tick.\<close>

lemma tick_prepares_next:
  assumes "pre_tick env a (p, t) = Some (p', t', cs)" "read_view env t = Some v" "preload_ok p" "\<not> preload_valid p"
    and "\<not> single_clip v" "\<not> v_active_pending v"
    and "\<not> prepared_start a (next_clip v)" "\<not> prepared_warm a (next_clip v)"
  shows "Prepare (next_clip v) \<in> set cs"
proof -
  from assms(1,2) obtain p0 t0 cs0 p1 p2 cs2 p3 cs3 p4 cs4 p5 cs5 where
    s: "doomed_step v (p, t, []) = Some (p0, t0, cs0)" "preload_finished a (p0, t0, cs0) = (p1, t', cs0)"
    "wrap_step v (release_finished a p1, cs0) = (p2, cs2)" "start_preload v a (p2, cs2) = (p3, cs3)"
    "keep_warm v a (p3, cs3) = (p4, cs4)" "release_old v a (p4, cs4) = (p5, cs5)"
    "cold_sweep v a (p5, cs5) = (p', cs)"
    by (rule pre_tick_sections)
  have idle: "\<not> preload_valid p2" "preloading_clip p2 = None"
    using assms(3,4) doomed_step_calls(2,3) [OF s(1)] preload_finished_calls(4) [OF s(2)] wrap_step_calls(2,3) [OF s(3)]
    by (simp_all add: preload_ok_def)
  have "Prepare (next_clip v) \<in> set cs4"
  proof (cases "preload_allowed v a p2")
    case True
    then have "Prepare (next_clip v) \<in> set cs3" using s(4) assms(7) by (auto simp: start_preload_def Let_def)
    then show ?thesis using keep_warm_calls [OF s(5)] by auto
  next
    case False
    then have p3: "p3 = p2" using s(4) by (simp add: start_preload_def)
    have g: "good_view v" using assms(2) by (rule read_view_good)
    have n: "next_idx v \<noteq> v_idx v"
      using g assms(5) by (auto simp: good_view_def single_clip_def next_idx_def mod_Suc split: if_splits)
    have "find (cold_member v a p3) [int (v_idx v), int (next_idx v)] = Some (int (next_idx v))"
      using n assms(8) idle by (simp add: cold_member_def p3 next_clip_def)
    then show ?thesis
      using s(5) idle assms(5,6) warm_indices [OF g]
      by (auto simp: keep_warm_def p3 single_clip_pending_def next_clip_def split: if_splits)
  qed
  then show ?thesis using release_old_calls [OF s(6)] cold_sweep_calls [OF s(7)] by auto
qed

text \<open>A clip is rewound only where the playlist wraps, never a prepared clip that comes later.\<close>

lemma tick_starts_next:
  assumes "pre_tick env a (p, t) = Some (p', t', cs)" "read_view env t = Some v" "v_idx v < next_idx v"
  shows "Reset c \<notin> set cs"
proof -
  from assms(1,2) obtain p0 t0 cs0 p1 p2 cs2 p3 cs3 p4 cs4 p5 cs5 where
    s: "doomed_step v (p, t, []) = Some (p0, t0, cs0)" "preload_finished a (p0, t0, cs0) = (p1, t', cs0)"
    "wrap_step v (release_finished a p1, cs0) = (p2, cs2)" "start_preload v a (p2, cs2) = (p3, cs3)"
    "keep_warm v a (p3, cs3) = (p4, cs4)" "release_old v a (p4, cs4) = (p5, cs5)"
    "cold_sweep v a (p5, cs5) = (p', cs)"
    by (rule pre_tick_sections)
  have "Reset c \<notin> set cs4"
    using doomed_step_calls(1) [OF s(1)] wrap_step_calls(1) [OF s(3)] start_preload_calls [OF s(4)]
      keep_warm_calls [OF s(5)] assms(3) by (auto dest: no_startD)
  then show ?thesis using release_old_calls [OF s(6)] cold_sweep_calls [OF s(7)] by auto
qed


subsection \<open>Runs\<close>

text \<open>A run: what each tick meets, whatever moved the cursor in between.\<close>

type_synonym meeting = "(clip \<Rightarrow> IClip) \<times> answers \<times> timeline"

fun pre_run :: "meeting list \<Rightarrow> preloader \<Rightarrow> (preloader \<times> call list) option" where
  "pre_run [] p = Some (p, [])"
| "pre_run ((env, a, t) # ms) p =
     (case pre_tick env a (p, t) of None \<Rightarrow> None
      | Some (p1, _, cs) \<Rightarrow> (case pre_run ms p1 of None \<Rightarrow> None | Some (p2, ds) \<Rightarrow> Some (p2, cs @ ds)))"

definition all_prepared :: "answers \<Rightarrow> bool" where
  "all_prepared a \<longleftrightarrow> prepared_start a = (\<lambda>_. True) \<and> prepared_warm a = (\<lambda>_. True)
     \<and> prepared_wrap a = (\<lambda>_. True) \<and> prepared_sweep a = (\<lambda>_. True)"

lemma find_index_less: "find_index x xs = Some i \<Longrightarrow> i < length xs"
  by (induction xs arbitrary: i) (auto split: if_splits option.splits)

lemma read_view_Some:
  assumes "clips (tl_current t) \<noteq> []"
  obtains v where "read_view env t = Some v" "v_clips v = clips (tl_current t)" "v_idx v = healed_idx t"
    "v_remaining v = getRemainingTime env t"
    "v_active_pending v = pending_at (tl_current t) (healed_idx t)"
proof -
  have "healed_idx t < length (clips (tl_current t))"
    using assms find_index_less by (auto simp: healed_idx_def findActiveIdx_def split: option.splits)
  with assms that show ?thesis by (auto simp: read_view_def getActiveIndex_def pending_at_def Let_def)
qed

lemma tick_prepared_no_prepare:
  assumes "pre_tick env a (p, t) = Some (p', t', cs)" "read_view env t = Some v" "all_prepared a"
  shows "Prepare c \<notin> set cs"
proof -
  from assms(1,2) obtain p0 t0 cs0 p1 p2 cs2 p3 cs3 p4 cs4 p5 cs5 where
    s: "doomed_step v (p, t, []) = Some (p0, t0, cs0)" "preload_finished a (p0, t0, cs0) = (p1, t', cs0)"
    "wrap_step v (release_finished a p1, cs0) = (p2, cs2)" "start_preload v a (p2, cs2) = (p3, cs3)"
    "keep_warm v a (p3, cs3) = (p4, cs4)" "release_old v a (p4, cs4) = (p5, cs5)"
    "cold_sweep v a (p5, cs5) = (p', cs)"
    by (rule pre_tick_sections)
  have "Prepare c \<notin> set cs4"
    using doomed_step_calls(1) [OF s(1)] wrap_step_calls(1) [OF s(3)] start_preload_calls [OF s(4)]
      keep_warm_calls [OF s(5)] assms(3) by (auto simp: all_prepared_def dest: no_startD)
  then show ?thesis using release_old_calls [OF s(6)] cold_sweep_calls [OF s(7)] by auto
qed

lemma tick_resets_next:
  assumes "pre_tick env a (p, t) = Some (p', t', cs)" "read_view env t = Some v" "Reset c \<in> set cs"
  shows "c = next_clip v"
proof -
  from assms(1,2) obtain p0 t0 cs0 p1 p2 cs2 p3 cs3 p4 cs4 p5 cs5 where
    s: "doomed_step v (p, t, []) = Some (p0, t0, cs0)" "preload_finished a (p0, t0, cs0) = (p1, t', cs0)"
    "wrap_step v (release_finished a p1, cs0) = (p2, cs2)" "start_preload v a (p2, cs2) = (p3, cs3)"
    "keep_warm v a (p3, cs3) = (p4, cs4)" "release_old v a (p4, cs4) = (p5, cs5)"
    "cold_sweep v a (p5, cs5) = (p', cs)"
    by (rule pre_tick_sections)
  have "Reset c \<in> set cs4" using assms(3) release_old_calls [OF s(6)] cold_sweep_calls [OF s(7)] by auto
  then have "Reset c \<in> set cs3" using keep_warm_calls [OF s(5)] by auto
  then show ?thesis
    using doomed_step_calls(1) [OF s(1)] wrap_step_calls(1) [OF s(3)] start_preload_calls [OF s(4)]
    by (auto dest: no_startD)
qed

text \<open>Two clips: the second is never touched again once it is prepared.\<close>

lemma tick_two_clips:
  assumes tk: "pre_tick env a (p, t) = Some (p', t', cs)" and two: "clips (tl_current t) = [x, y]" and ne: "x \<noteq> y"
    and "all_prepared a"
  shows "Reset y \<notin> set cs \<and> Prepare y \<notin> set cs \<and> Release y \<notin> set cs"
proof -
  obtain v where v: "read_view env t = Some v" "v_clips v = [x, y]"
    using read_view_Some [of t env] two by auto
  have g: "v_idx v = 0 \<or> v_idx v = 1" using read_view_good [OF v(1)] v(2) by (auto simp: good_view_def)
  have "Release y \<notin> set cs"
    using tick_releases_cold [OF tk v(1), of y] g by (auto simp: cur_clip_def next_clip_def next_idx_def v(2))
  moreover have "Reset y \<notin> set cs"
  proof (cases "v_idx v = 0")
    case True
    then show ?thesis using tick_starts_next [OF tk v(1)] by (simp add: next_idx_def v(2))
  next
    case False
    then have "next_clip v = x" using g by (simp add: next_clip_def next_idx_def v(2))
    then show ?thesis using tick_resets_next [OF tk v(1)] ne by auto
  qed
  ultimately show ?thesis using tick_prepared_no_prepare [OF tk v(1) assms(4)] by simp
qed

text \<open>One clip in a slot no longer than \<open>preload_sec\<close>: its wrap is not seen, and it is rewound once at most.\<close>

lemma tick_short_single:
  assumes tk: "pre_tick env a (p, t) = Some (p', t', cs)" and one: "clips (tl_current t) = [x]"
    and "all_prepared a" and short: "getRemainingTime env t \<le> preload_sec p" and pos: "0 \<le> prev_remaining_sec p"
  shows "count_list cs (Reset x) \<le> of_bool (prepared_for_clip p \<noteq> Some x)"
    and "0 < count_list cs (Reset x) \<or> prepared_for_clip p = Some x \<Longrightarrow> prepared_for_clip p' = Some x"
    and "0 \<le> prev_remaining_sec p'" "preload_sec p' = preload_sec p"
proof -
  obtain v where v: "read_view env t = Some v" "v_clips v = [x]" "v_remaining v = getRemainingTime env t"
    using read_view_Some [of t env] one by auto
  have g: "good_view v" by (rule read_view_good [OF v(1)])
  then have i: "v_idx v = 0" "next_clip v = x" "cur_clip v = x" "single_clip v"
    using v(2) by (simp_all add: good_view_def next_clip_def next_idx_def cur_clip_def single_clip_def)
  have rem: "0 \<le> v_remaining v" using v(3) by (simp add: getRemainingTime_def)
  from tk v(1) obtain p0 t0 cs0 p1 p2 cs2 p3 cs3 p4 cs4 p5 cs5 where
    s: "doomed_step v (p, t, []) = Some (p0, t0, cs0)" "preload_finished a (p0, t0, cs0) = (p1, t', cs0)"
    "wrap_step v (release_finished a p1, cs0) = (p2, cs2)" "start_preload v a (p2, cs2) = (p3, cs3)"
    "keep_warm v a (p3, cs3) = (p4, cs4)" "release_old v a (p4, cs4) = (p5, cs5)"
    "cold_sweep v a (p5, cs5) = (p', cs)"
    by (rule pre_tick_sections)
  have "0 \<le> prev_remaining_sec p0" using s(1) pos rem by (auto simp: doomed_step_def Let_def split: if_splits option.splits)
  then have p1: "0 \<le> prev_remaining_sec p1" "prepared_for_clip p1 = prepared_for_clip p" "preload_sec p1 = preload_sec p"
    using s(2) doomed_step_calls(4,5) [OF s(1)] by (auto simp: preload_finished_def split: if_splits)
  then have "\<not> wrap_detected v (release_finished a p1)" using short v(3) by (simp add: wrap_detected_def)
  then have p2: "prepared_for_clip p2 = prepared_for_clip p" "prev_remaining_sec p2 = v_remaining v" "preload_sec p2 = preload_sec p"
    using wrap_step_calls(4-6) [OF s(3)] p1(2,3) by simp_all
  have ns: "no_start cs2"
    using doomed_step_calls(1) [OF s(1)] wrap_step_calls(1) [OF s(3)] by auto
  have c0: "count_list ds (Reset x) = 0" if "no_start ds" for ds
    using no_startD [OF that] by (simp add: count_list_0_iff)
  have 3: "count_list cs3 (Reset x) \<le> of_bool (prepared_for_clip p \<noteq> Some x)"
    "0 < count_list cs3 (Reset x) \<or> prepared_for_clip p = Some x \<Longrightarrow> prepared_for_clip p3 = Some x"
    "prev_remaining_sec p3 = prev_remaining_sec p2" "preload_sec p3 = preload_sec p2"
  proof -
    consider "cs3 = cs2" "p3 = p2" | es where "cs3 = cs2 @ es @ [Reset x]" "no_start es"
        "prepared_for_clip p \<noteq> Some x" "prepared_for_clip p3 = Some x"
        "prev_remaining_sec p3 = prev_remaining_sec p2" "preload_sec p3 = preload_sec p2"
      using s(4) assms(3) i p2(1)
      by (auto simp: start_preload_def Let_def all_prepared_def preload_allowed_def split: if_splits)
    then show "count_list cs3 (Reset x) \<le> of_bool (prepared_for_clip p \<noteq> Some x)"
      "0 < count_list cs3 (Reset x) \<or> prepared_for_clip p = Some x \<Longrightarrow> prepared_for_clip p3 = Some x"
      "prev_remaining_sec p3 = prev_remaining_sec p2" "preload_sec p3 = preload_sec p2"
      by (cases; use ns p2(1) in \<open>auto simp: c0\<close>)+
  qed
  have "cs4 = cs3 \<and> p4 = p3"
    using s(5) warm_indices [OF g] i by (auto simp: keep_warm_def cold_member_def split: if_splits option.splits)
  moreover have "prepared_for_clip p' = prepared_for_clip p4" "prev_remaining_sec p' = prev_remaining_sec p4"
      "preload_sec p' = preload_sec p4"
    using s(6,7) by (auto simp: release_old_def cold_sweep_def split: if_splits option.splits)
  moreover have "count_list cs (Reset x) = count_list cs4 (Reset x)"
    using release_old_calls [OF s(6)] cold_sweep_calls [OF s(7)] by auto
  ultimately show "count_list cs (Reset x) \<le> of_bool (prepared_for_clip p \<noteq> Some x)"
    and "0 < count_list cs (Reset x) \<or> prepared_for_clip p = Some x \<Longrightarrow> prepared_for_clip p' = Some x"
    and "0 \<le> prev_remaining_sec p'" "preload_sec p' = preload_sec p"
    using 3 p2 rem by simp_all
qed

lemma short_single_rewound_once:
  assumes "pre_run ms p = Some (p', cs)" "0 \<le> prev_remaining_sec p"
    and "\<forall>(env, a, t) \<in> set ms. clips (tl_current t) = [x] \<and> all_prepared a \<and> getRemainingTime env t \<le> preload_sec p"
  shows "count_list cs (Reset x) \<le> of_bool (prepared_for_clip p \<noteq> Some x)"
  using assms
proof (induction ms arbitrary: p cs)
  case (Cons m ms)
  obtain env a t where m: "m = (env, a, t)" by (cases m)
  from Cons.prems(1) obtain p1 t1 ds es where
    tk: "pre_tick env a (p, t) = Some (p1, t1, ds)" and r: "pre_run ms p1 = Some (p', es)" and cs: "cs = ds @ es"
    by (auto simp: m split: option.splits prod.splits)
  have pr: "clips (tl_current t) = [x]" "all_prepared a" "getRemainingTime env t \<le> preload_sec p" using Cons.prems(3) by (auto simp: m)
  note e = tick_short_single [OF tk pr Cons.prems(2)]
  have "count_list es (Reset x) \<le> of_bool (prepared_for_clip p1 \<noteq> Some x)"
    using Cons.IH [OF r e(3)] Cons.prems(3) e(4) by auto
  then show ?case using e(1,2) by (cases "count_list ds (Reset x)") (auto simp: cs split: if_splits intro: order_trans)
qed simp

subsection \<open>Two clips of ten seconds\<close>

definition env_two :: "clip \<Rightarrow> IClip" where
  "env_two = (\<lambda>_. \<lparr>getDuration = 10, isPrepared = True, warmUpSec = 0\<rparr>)"

definition two_at :: "clip \<Rightarrow> rat \<Rightarrow> timeline" where
  "two_at c pos = new_Timeline\<lparr>tl_current := \<lparr>clips = [0, 1], transitions = [kHardCut, kHardCut],
     cache_paths = [''a'', ''b''], pending_remove = [False, False]\<rparr>, active_clip := Some c, slot_pos_sec := pos\<rparr>"

definition asked :: "bool \<Rightarrow> answers" where
  "asked b = \<lparr>preload_done = True, preload_done_start = True, preload_done_warm = True, release_done = True,
     release_done_wrap = True, release_done_sweep = True, prepared_start = (\<lambda>_. b), prepared_warm = (\<lambda>_. b),
     prepared_wrap = (\<lambda>_. b), prepared_sweep = (\<lambda>_. b)\<rparr>"

lemma asked_prepared: "all_prepared (asked True)"
  by (simp add: all_prepared_def asked_def)

text \<open>Once round and into the second cycle: the first clip is rewound, the second is not.\<close>

definition two_rounds :: "meeting list" where
  "two_rounds = map (\<lambda>(c, pos). (env_two, asked True, two_at c pos)) [(0, 1), (0, 7), (1, 1), (1, 7), (0, 7), (1, 1)]"

lemma two_rounds_calls: "map_option snd (pre_run two_rounds (new_Preloader 4)) = Some [Reset 0]"
  by code_simp

section \<open>Properties\<close>

text \<open>A tick never releases the active clip or the one after it; with no preload in flight, a next clip
  that is not prepared is prepared in this tick (unless the active clip of the playlist is being removed);
  and the preload future stays valid exactly while a clip is recorded as preloading.\<close>

lemma warm_set_contract:
  assumes "pre_tick env a (p, t) = Some (p', t', cs)" "read_view env t = Some v" "preload_ok p"
  shows "preload_ok p' \<and> (\<forall>c. Release c \<in> set cs \<longrightarrow> c \<noteq> cur_clip v \<and> c \<noteq> next_clip v)
    \<and> (\<not> preload_valid p \<and> \<not> single_clip v \<and> \<not> v_active_pending v
         \<and> \<not> prepared_start a (next_clip v) \<and> \<not> prepared_warm a (next_clip v)
       \<longrightarrow> Prepare (next_clip v) \<in> set cs)"
  using tick_preload_ok [OF assms(1,3)] tick_releases_cold [OF assms(1,2)] tick_prepares_next [OF assms]
  by blast

text \<open>Over any run of ticks on a playlist of two clips that are both prepared, the preloader never rewinds
  the second clip (nor prepares or releases it): only a clip at or before the active index is rewound. From the
  second cycle on the second clip is at its end, and shows the last frame it kept.\<close>

lemma second_of_two_never_rewound:
  assumes "pre_run ms p = Some (p', cs)" "x \<noteq> y"
    "\<forall>(env, a, t) \<in> set ms. clips (tl_current t) = [x, y] \<and> all_prepared a"
  shows "Reset y \<notin> set cs \<and> Prepare y \<notin> set cs \<and> Release y \<notin> set cs"
  using assms
proof (induction ms arbitrary: p cs)
  case (Cons m ms)
  obtain env a t where m: "m = (env, a, t)" by (cases m)
  from Cons.prems(1) obtain p1 t1 ds es where
    tk: "pre_tick env a (p, t) = Some (p1, t1, ds)" and r: "pre_run ms p1 = Some (p', es)" and cs: "cs = ds @ es"
    by (auto simp: m split: option.splits prod.splits)
  have "clips (tl_current t) = [x, y]" "all_prepared a" using Cons.prems(3) by (auto simp: m)
  from tick_two_clips [OF tk this(1) Cons.prems(2) this(2)] Cons.IH [OF r Cons.prems(2)] Cons.prems(3)
  show ?case by (auto simp: cs)
qed simp

end
