(* ===== verification/CronExpr.thy ===== *)
theory CronExpr
  imports Json DvbTime
begin

text \<open>
  The cron expressions of the stress runner, \<open>stress/CronExpr.cpp\<close>, and the scheduler that polls
  them, \<open>stress/StressScheduler.cpp\<close>. An expression has five fields; each is a list of terms that is
  expanded into the sorted list of its values. \<open>int\<close> values are mathematical integers with the
  range check of \<open>from_chars\<close>; the one addition that can leave the range wraps around, as it does
  compiled, though to the language it is undefined.
\<close>

subsection \<open>Fields\<close>

record cron_field =
  field_values :: "int list"
  field_min :: int
  field_max :: int

record cron_expr =
  cron_minute :: cron_field
  cron_hour :: cron_field
  cron_dom :: cron_field
  cron_month :: cron_field
  cron_dow :: cron_field
  cron_source :: string

text \<open>\<open>FieldCount\<close> and \<open>BadField\<close> are the two messages.\<close>

datatype cron_error = BadTerm | FieldCount nat | BadField string string

definition int_max :: int where "int_max = 2 ^ 31 - 1"

definition toInt :: "string \<Rightarrow> int option" where
  "toInt s =
     (let neg = (s \<noteq> [] \<and> hd s = CHR ''-''); ds = (if neg then tl s else s);
          v = (if neg then - digits_value ds else digits_value ds) in
      if ds = [] \<or> \<not> list_all isdigit ds \<or> v < - int_max - 1 \<or> int_max < v then None else Some v)"

definition addRange :: "int \<Rightarrow> int \<Rightarrow> int \<Rightarrow> int \<Rightarrow> int list \<Rightarrow> int list option" where
  "addRange lo hi mn mx dst = (if lo < mn \<or> mx < hi \<or> hi < lo then None else Some (dst @ [lo..hi]))"

text \<open>A 32-bit \<open>int\<close> after an addition.\<close>

definition wrap32 :: "int \<Rightarrow> int" where
  "wrap32 x = (x + 2 ^ 31) mod 2 ^ 32 - 2 ^ 31"

lemma wrap32_small: "- int_max - 1 \<le> x \<Longrightarrow> x \<le> int_max \<Longrightarrow> wrap32 x = x"
  by (simp add: wrap32_def int_max_def)

lemma wrap32_over:
  assumes "int_max < x" "x \<le> 2 * int_max"
  shows "wrap32 x = x - 2 ^ 32"
proof -
  have "(x + 2 ^ 31) mod 2 ^ 32 = (x + 2 ^ 31 - 2 ^ 32) mod 2 ^ 32" by (rule minus_mod_self2 [symmetric])
  also have "\<dots> = x + 2 ^ 31 - 2 ^ 32" using assms by (intro mod_pos_pos_trivial) (simp_all add: int_max_def)
  finally show ?thesis by (simp add: wrap32_def)
qed

text \<open>
  The loop \<open>for (v = lo; v <= hi; v += k)\<close>. Its callers have ints with \<open>0 < k\<close> and \<open>hi\<close> at most 59. Small steps climb;
  a step so large that the addition wraps leads to a smaller \<open>v\<close> in two turns, and from below zero past \<open>hi\<close>.
\<close>

function step_values :: "int \<Rightarrow> int \<Rightarrow> int \<Rightarrow> int list" where
  "step_values v hi k =
     (if hi < v \<or> v < - int_max - 1 \<or> k \<le> 0 \<or> int_max < k \<or> 59 < hi then []
      else v # step_values (wrap32 (v + k)) hi k)"
  by auto
termination
proof (relation "measure (\<lambda>(v, hi, k). if hi < v then 0
    else Suc (nat (if k < int_max - 1000 then hi + 1 - v else if v < - 3000 then 2 * (v + k + 3001) + 1 else 2 * (v + 3001))))", goal_cases)
  case (2 v hi k)
  then have r: "- int_max - 1 \<le> v" "v \<le> hi" "hi \<le> 59" "0 < k" "k \<le> int_max" by simp_all
  show ?case
  proof (cases "v + k \<le> int_max")
    case True
    with r have "wrap32 (v + k) = v + k" by (intro wrap32_small) simp_all
    with r show ?thesis by (simp add: int_max_def)
  next
    case False
    with r have "wrap32 (v + k) = v + k - 2 ^ 32" by (intro wrap32_over) (simp_all add: int_max_def)
    with r False show ?thesis by (simp add: int_max_def)
  qed
qed simp

declare step_values.simps [simp del]

text \<open>The bounds of a term with a step.\<close>

definition step_base :: "int \<Rightarrow> int \<Rightarrow> string \<Rightarrow> (int \<times> int) option" where
  "step_base mn mx base =
     (if base = ''*'' then Some (mn, mx)
      else case find_char (CHR ''-'') base of
        Some d \<Rightarrow>
          (case toInt (take d base) of None \<Rightarrow> None
           | Some lo \<Rightarrow> (case toInt (drop (d + 1) base) of None \<Rightarrow> None
             | Some hi \<Rightarrow> if lo < mn \<or> mx < hi \<or> hi < lo then None else Some (lo, hi)))
      | None \<Rightarrow>
          (case toInt base of None \<Rightarrow> None
           | Some lo \<Rightarrow> if lo < mn \<or> mx < lo then None else Some (lo, mx)))"

definition flushTerm :: "int \<Rightarrow> int \<Rightarrow> string \<Rightarrow> int list \<Rightarrow> cron_error + int list" where
  "flushTerm mn mx term out =
     (if term = [] then Inl BadTerm
      else case find_char (CHR ''/'') term of
        Some sl \<Rightarrow>
          (case toInt (drop (sl + 1) term) of None \<Rightarrow> Inl BadTerm
           | Some k \<Rightarrow>
             if k \<le> 0 then Inl BadTerm
             else case step_base mn mx (take sl term) of None \<Rightarrow> Inl BadTerm
               | Some (lo, hi) \<Rightarrow> Inr (out @ step_values lo hi k))
      | None \<Rightarrow>
        if term = ''*'' then Inr (out @ [mn..mx])
        else case find_char (CHR ''-'') term of
          Some d \<Rightarrow>
            (case toInt (take d term) of None \<Rightarrow> Inl BadTerm
             | Some lo \<Rightarrow> (case toInt (drop (d + 1) term) of None \<Rightarrow> Inl BadTerm
               | Some hi \<Rightarrow> (case addRange lo hi mn mx out of None \<Rightarrow> Inl BadTerm | Some vs \<Rightarrow> Inr vs)))
        | None \<Rightarrow>
            (case toInt term of None \<Rightarrow> Inl BadTerm
             | Some v \<Rightarrow> if v < mn \<or> mx < v then Inl BadTerm else Inr (out @ [v])))"

text \<open>The loop over the characters, with the term collected so far.\<close>

fun comma_terms :: "int \<Rightarrow> int \<Rightarrow> string \<Rightarrow> string \<Rightarrow> int list \<Rightarrow> cron_error + int list" where
  "comma_terms mn mx term [] out = flushTerm mn mx term out"
| "comma_terms mn mx term (ch # cs) out =
     (if ch = CHR '','' then
        (case flushTerm mn mx term out of Inl e \<Rightarrow> Inl e | Inr out1 \<Rightarrow> comma_terms mn mx [] cs out1)
      else comma_terms mn mx (term @ [ch]) cs out)"

definition parseField :: "string \<Rightarrow> int \<Rightarrow> int \<Rightarrow> cron_error + cron_field" where
  "parseField s mn mx =
     (case comma_terms mn mx [] s [] of Inl e \<Rightarrow> Inl e
      | Inr vs \<Rightarrow>
        let out = remdups_adj (sort vs) in
        if out = [] then Inl BadTerm else Inr \<lparr>field_values = out, field_min = mn, field_max = mx\<rparr>)"

subsection \<open>Expressions\<close>

text \<open>\<open>while (ss >> f)\<close>: the runs of characters that are not space.\<close>

function stream_words :: "string \<Rightarrow> string list" where
  "stream_words s =
     (let r = dropWhile isspace s in
      if r = [] then []
      else takeWhile (\<lambda>c. \<not> isspace c) r # stream_words (dropWhile (\<lambda>c. \<not> isspace c) r))"
  by auto
termination
proof (relation "measure length", goal_cases)
  case (2 s r)
  then have "\<not> isspace (hd r)" by (simp add: hd_dropWhile)
  with 2(2) obtain c r' where "r = c # r'" "\<not> isspace c" by (metis list.exhaust_sel)
  moreover have "length r \<le> length s" using 2 by (simp add: length_dropWhile_le)
  moreover have "length (dropWhile (\<lambda>c. \<not> isspace c) r') \<le> length r'" by (rule length_dropWhile_le)
  ultimately show ?case by simp
qed simp

declare stream_words.simps [simp del]

text \<open>One line of \<open>parse\<close>: the message of a field that is rejected quotes \<open>fields[0]\<close>.\<close>

definition need_field :: "string \<Rightarrow> string \<Rightarrow> string \<Rightarrow> int \<Rightarrow> int \<Rightarrow> cron_error + cron_field" where
  "need_field which quoted s mn mx =
     (case parseField s mn mx of Inr f \<Rightarrow> Inr f | Inl _ \<Rightarrow> Inl (BadField which quoted))"

definition parse_cron :: "string \<Rightarrow> cron_error + cron_expr" where
  "parse_cron expr =
     (let fs = stream_words expr in
      if length fs \<noteq> 5 then Inl (FieldCount (length fs))
      else
        case need_field ''minute'' (fs ! 0) (fs ! 0) 0 59 of Inl e \<Rightarrow> Inl e | Inr mi \<Rightarrow>
       (case need_field ''hour'' (fs ! 0) (fs ! 1) 0 23 of Inl e \<Rightarrow> Inl e | Inr hh \<Rightarrow>
       (case need_field ''dom'' (fs ! 0) (fs ! 2) 1 31 of Inl e \<Rightarrow> Inl e | Inr dm \<Rightarrow>
       (case need_field ''month'' (fs ! 0) (fs ! 3) 1 12 of Inl e \<Rightarrow> Inl e | Inr mo \<Rightarrow>
       (case need_field ''dow'' (fs ! 0) (fs ! 4) 0 6 of Inl e \<Rightarrow> Inl e | Inr dw \<Rightarrow>
         Inr \<lparr>cron_minute = mi, cron_hour = hh, cron_dom = dm, cron_month = mo, cron_dow = dw,
              cron_source = expr\<rparr>)))))"

text \<open>\<open>gmtime\<close>, for the years it can represent.\<close>

record broken_time =
  tm_min :: int
  tm_hour :: int
  tm_mday :: int
  tm_mon :: int
  tm_wday :: int

definition gmtime :: "int \<Rightarrow> broken_time" where
  "gmtime t =
     (let (y, m, d) = daysToCivil (t div 86400); sec = t mod 86400 in
      \<lparr>tm_min = sec div 60 mod 60, tm_hour = sec div 3600, tm_mday = d, tm_mon = m - 1,
       tm_wday = (t div 86400 + 4) mod 7\<rparr>)"

text \<open>\<open>std::binary_search\<close>; on the sorted values it is membership.\<close>

definition field_has :: "cron_field \<Rightarrow> int \<Rightarrow> bool" where
  "field_has f v = (v \<in> set (field_values f))"

definition cron_matches :: "cron_expr \<Rightarrow> int \<Rightarrow> bool" where
  "cron_matches c t =
     (let tm = gmtime t in
      if \<not> field_has (cron_minute c) (tm_min tm) then False
      else if \<not> field_has (cron_hour c) (tm_hour tm) then False
      else if \<not> field_has (cron_month c) (tm_mon tm + 1) then False
      else
        let dom_wild = (length (field_values (cron_dom c)) = 31);
            dow_wild = (length (field_values (cron_dow c)) = 7);
            dom_match = field_has (cron_dom c) (tm_mday tm);
            dow_match = field_has (cron_dow c) (tm_wday tm) in
        if dom_wild \<and> dow_wild then True
        else if dom_wild then dow_match
        else if dow_wild then dom_match
        else dom_match \<or> dow_match)"

subsection \<open>The scheduler\<close>

record stress_scheduler =
  sched_expr :: "cron_expr option"
  sched_source :: string
  last_fired_minute :: int

definition new_StressScheduler :: "string \<Rightarrow> stress_scheduler" where
  "new_StressScheduler cron =
     \<lparr>sched_expr = (case parse_cron cron of Inl _ \<Rightarrow> None | Inr c \<Rightarrow> Some c), sched_source = cron,
      last_fired_minute = - 1\<rparr>"

definition setCron :: "string \<Rightarrow> stress_scheduler \<Rightarrow> (cron_error option) \<times> stress_scheduler" where
  "setCron cron s =
     (case parse_cron cron of Inl e \<Rightarrow> (Some e, s)
      | Inr c \<Rightarrow> (None, s\<lparr>sched_expr := Some c, sched_source := cron\<rparr>))"

text \<open>One poll of the loop (and \<open>pokeForTest\<close>): is the callback called? \<open>/\<close> truncates.\<close>

definition poll :: "int \<Rightarrow> stress_scheduler \<Rightarrow> bool \<times> stress_scheduler" where
  "poll now s =
     (case sched_expr s of None \<Rightarrow> (False, s)
      | Some c \<Rightarrow>
        if \<not> cron_matches c now then (False, s)
        else let minute = tdiv now 60 in
          (last_fired_minute s \<noteq> minute, s\<lparr>last_fired_minute := minute\<rparr>))"

fun polls :: "int list \<Rightarrow> stress_scheduler \<Rightarrow> int list \<times> stress_scheduler" where
  "polls [] s = ([], s)"
| "polls (t # ts) s =
     (let (fired, s1) = poll t s; (fs, s2) = polls ts s1 in (if fired then t # fs else fs, s2))"
subsection \<open>Accepted fields are well formed\<close>

definition field_ok :: "int \<Rightarrow> int \<Rightarrow> cron_field \<Rightarrow> bool" where
  "field_ok mn mx f \<longleftrightarrow> field_values f \<noteq> [] \<and> sorted (field_values f) \<and> distinct (field_values f)
     \<and> set (field_values f) \<subseteq> {mn..mx} \<and> field_min f = mn \<and> field_max f = mx"

definition cron_ok :: "cron_expr \<Rightarrow> bool" where
  "cron_ok c \<longleftrightarrow> field_ok 0 59 (cron_minute c) \<and> field_ok 0 23 (cron_hour c) \<and> field_ok 1 31 (cron_dom c)
     \<and> field_ok 1 12 (cron_month c) \<and> field_ok 0 6 (cron_dow c)"

lemma step_values_set:
  assumes "0 < k" "hi + k \<le> int_max" "k \<le> int_max" "hi \<le> 59" "- int_max - 1 \<le> lo"
  shows "set (step_values lo hi k) = {v. lo \<le> v \<and> v \<le> hi \<and> (v - lo) mod k = 0}"
  using assms
proof (induction lo hi k rule: step_values.induct)
  case (1 v hi k)
  show ?case
  proof (cases "hi < v")
    case True
    then show ?thesis by (auto simp: step_values.simps [of v hi k])
  next
    case False
    have w: "wrap32 (v + k) = v + k" using 1 False by (intro wrap32_small) auto
    have m: "(w - (v + k)) mod k = (w - v) mod k" for w
      by (metis diff_diff_add mod_diff_right_eq mod_self diff_0_right)
    have small: "v + k \<le> w" if "v \<le> w" "w \<noteq> v" "(w - v) mod k = 0" for w
      using that zdvd_imp_le [of k "w - v"] by (simp add: mod_eq_0_iff_dvd)
    have IH: "set (step_values (v + k) hi k) = {w. v + k \<le> w \<and> w \<le> hi \<and> (w - (v + k)) mod k = 0}"
      using 1 False by (simp add: w)
    have "step_values v hi k = v # step_values (v + k) hi k"
      using False 1(2-) by (simp add: step_values.simps [of v hi k] w)
    then show ?thesis
      using False 1(2) by (auto simp: IH m dest: small)
  qed
qed

lemma step_values_up_to: "v \<in> set (step_values lo hi k) \<Longrightarrow> v \<le> hi"
proof (induction lo hi k rule: step_values.induct)
  case (1 w hi k)
  then show ?case by (auto simp: step_values.simps [of w hi k] split: if_splits)
qed

lemma step_values_ne: "lo \<le> hi \<Longrightarrow> - int_max - 1 \<le> lo \<Longrightarrow> 0 < k \<Longrightarrow> k \<le> int_max \<Longrightarrow> hi \<le> 59 \<Longrightarrow> lo \<in> set (step_values lo hi k)"
  by (subst step_values.simps) simp

lemma toInt_bound: "toInt s = Some v \<Longrightarrow> v \<le> int_max"
  by (auto simp: toInt_def Let_def split: if_splits)

lemma step_base_range:
  "step_base mn mx base = Some (lo, hi) \<Longrightarrow> mn \<le> mx \<Longrightarrow> mn \<le> lo \<and> hi \<le> mx"
  by (auto simp: step_base_def split: if_splits option.splits)

lemma flushTerm_up_to:
  assumes "flushTerm mn mx term out = Inr vs" "mn \<le> mx" "\<forall>v \<in> set out. v \<le> mx"
  shows "\<forall>v \<in> set vs. v \<le> mx"
  using assms step_base_range [of mn mx]
  by (fastforce simp: flushTerm_def addRange_def dest: step_values_up_to split: if_splits option.splits prod.splits)

lemma comma_terms_up_to:
  "comma_terms mn mx tm cs out = Inr vs \<Longrightarrow> mn \<le> mx \<Longrightarrow> \<forall>v \<in> set out. v \<le> mx \<Longrightarrow> \<forall>v \<in> set vs. v \<le> mx"
proof (induction cs arbitrary: tm out)
  case Nil
  then show ?case using flushTerm_up_to by simp
next
  case (Cons c cs)
  show ?case
  proof (cases "c = CHR '',''")
    case True
    with Cons.prems(1) obtain o1 where o: "flushTerm mn mx tm out = Inr o1" "comma_terms mn mx [] cs o1 = Inr vs"
      by (auto split: sum.splits)
    from Cons.IH [OF o(2) Cons.prems(2) flushTerm_up_to [OF o(1) Cons.prems(2,3)]] show ?thesis .
  next
    case False
    with Cons show ?thesis by simp
  qed
qed

text \<open>
  The terms of a field, and the steps after which the loop cannot wrap: the bound is the last that is safe
  for every field.
\<close>

fun comma_split :: "string \<Rightarrow> string \<Rightarrow> string list" where
  "comma_split tm [] = [tm]"
| "comma_split tm (ch # cs) = (if ch = CHR '','' then tm # comma_split [] cs else comma_split (tm @ [ch]) cs)"

definition small_step :: "string \<Rightarrow> bool" where
  "small_step tm \<longleftrightarrow> (case find_char (CHR ''/'') tm of None \<Rightarrow> True
     | Some sl \<Rightarrow> (case toInt (drop (sl + 1) tm) of None \<Rightarrow> True | Some k \<Rightarrow> k \<le> int_max - 59))"

definition small_steps :: "string \<Rightarrow> bool" where
  "small_steps s \<longleftrightarrow> list_all (\<lambda>f. list_all small_step (comma_split [] f)) (stream_words s)"

lemma flushTerm_range:
  assumes f: "flushTerm mn mx term out = Inr vs" and small: "small_step term"
    and b: "mn \<le> mx" "mx \<le> 59" "0 \<le> mn" and out: "set out \<subseteq> {mn..mx}"
  shows "set vs \<subseteq> {mn..mx}"
proof (cases "find_char (CHR ''/'') term")
  case None
  have "x \<in> {mn..mx}" if "x \<in> set out" for x using that out by blast
  then show ?thesis using f b unfolding flushTerm_def None option.case
    by (fastforce simp: addRange_def split: if_splits option.splits)
next
  case (Some sl)
  then obtain k lo hi where k: "toInt (drop (sl + 1) term) = Some k" "0 < k" "step_base mn mx (take sl term) = Some (lo, hi)"
      "vs = out @ step_values lo hi k"
    using f by (auto simp: flushTerm_def split: if_splits option.splits)
  have r: "mn \<le> lo" "hi \<le> mx" using step_base_range [OF k(3) b(1)] by simp_all
  have "set (step_values lo hi k) = {v. lo \<le> v \<and> v \<le> hi \<and> (v - lo) mod k = 0}"
    using small Some k r b by (intro step_values_set) (simp_all add: small_step_def int_max_def)
  then show ?thesis using out r by (auto simp: k(4))
qed

lemma comma_terms_range:
  assumes "mn \<le> mx" "mx \<le> 59" "0 \<le> mn"
  shows "comma_terms mn mx tm cs out = Inr vs \<Longrightarrow> list_all small_step (comma_split tm cs) \<Longrightarrow> set out \<subseteq> {mn..mx} \<Longrightarrow>
    set vs \<subseteq> {mn..mx}"
proof (induction cs arbitrary: tm out)
  case Nil
  then show ?case using flushTerm_range [OF _ _ assms] by simp
next
  case (Cons c cs)
  show ?case
  proof (cases "c = CHR '',''")
    case True
    with Cons.prems(1) obtain o1 where o: "flushTerm mn mx tm out = Inr o1" "comma_terms mn mx [] cs o1 = Inr vs"
      by (auto split: sum.splits)
    from Cons.IH [OF o(2)] flushTerm_range [OF o(1) _ assms Cons.prems(3)] Cons.prems(2) True show ?thesis by simp
  next
    case False
    with Cons show ?thesis by simp
  qed
qed

lemma distinct_adj_sorted: "sorted (xs :: int list) \<Longrightarrow> distinct (remdups_adj xs)"
  by (induction xs rule: remdups_adj.induct) auto

text \<open>What holds of an accepted field with steps of any size, and what small steps add.\<close>

definition field_sound :: "int \<Rightarrow> cron_field \<Rightarrow> bool" where
  "field_sound mx f \<longleftrightarrow> field_values f \<noteq> [] \<and> sorted (field_values f) \<and> distinct (field_values f)
     \<and> (\<forall>v \<in> set (field_values f). v \<le> mx)"

definition cron_sound :: "cron_expr \<Rightarrow> bool" where
  "cron_sound c \<longleftrightarrow> field_sound 59 (cron_minute c) \<and> field_sound 23 (cron_hour c) \<and> field_sound 31 (cron_dom c)
     \<and> field_sound 12 (cron_month c) \<and> field_sound 6 (cron_dow c)"

lemma parseField_sound: "parseField s mn mx = Inr f \<Longrightarrow> mn \<le> mx \<Longrightarrow> field_sound mx f"
  using comma_terms_up_to [of mn mx "[]" s "[]"]
  by (auto simp: parseField_def field_sound_def Let_def distinct_adj_sorted split: sum.splits if_splits)

lemma parseField_ok:
  "parseField s mn mx = Inr f \<Longrightarrow> list_all small_step (comma_split [] s) \<Longrightarrow> mn \<le> mx \<Longrightarrow> mx \<le> 59 \<Longrightarrow> 0 \<le> mn \<Longrightarrow> field_ok mn mx f"
  using comma_terms_range [of mn mx "[]" s "[]"]
  by (auto simp: parseField_def field_ok_def Let_def distinct_adj_sorted split: sum.splits if_splits)

lemma need_field_parsed: "need_field w q s mn mx = Inr f \<Longrightarrow> parseField s mn mx = Inr f"
  by (auto simp: need_field_def split: sum.splits)

lemma parse_cron_fields:
  assumes "parse_cron s = Inr c"
  shows "length (stream_words s) = 5" "parseField (stream_words s ! 0) 0 59 = Inr (cron_minute c)"
    "parseField (stream_words s ! 1) 0 23 = Inr (cron_hour c)" "parseField (stream_words s ! 2) 1 31 = Inr (cron_dom c)"
    "parseField (stream_words s ! 3) 1 12 = Inr (cron_month c)" "parseField (stream_words s ! 4) 0 6 = Inr (cron_dow c)"
  using assms by (auto simp: parse_cron_def Let_def dest!: need_field_parsed split: if_splits sum.splits)

lemma parse_cron_sound: "parse_cron s = Inr c \<Longrightarrow> cron_sound c"
  by (auto simp: cron_sound_def dest: parse_cron_fields(2-) intro!: parseField_sound)

lemma parse_cron_ok:
  assumes "parse_cron s = Inr c" "small_steps s"
  shows "cron_ok c"
proof -
  note f = parse_cron_fields [OF assms(1)]
  have small: "list_all small_step (comma_split [] (stream_words s ! i))" if "i < 5" for i
    using assms(2) f(1) that by (simp add: small_steps_def list_all_length)
  show ?thesis
    using f(2-) small by (auto simp: cron_ok_def intro!: parseField_ok)
qed

subsection \<open>What a field means\<close>

text \<open>The terms, how they are written, and the values they stand for.\<close>

datatype cron_term = Any | Number int | Span int int | EveryAny int | EveryFrom int int | EverySpan int int int

definition num :: "int \<Rightarrow> string" where "num v = fmt0 1 v"

fun show_term :: "cron_term \<Rightarrow> string" where
  "show_term Any = ''*''"
| "show_term (Number v) = num v"
| "show_term (Span a b) = num a @ ''-'' @ num b"
| "show_term (EveryAny k) = ''*/'' @ num k"
| "show_term (EveryFrom a k) = num a @ ''/'' @ num k"
| "show_term (EverySpan a b k) = num a @ ''-'' @ num b @ ''/'' @ num k"

fun term_valid :: "int \<Rightarrow> int \<Rightarrow> cron_term \<Rightarrow> bool" where
  "term_valid mn mx Any = True"
| "term_valid mn mx (Number v) = (mn \<le> v \<and> v \<le> mx)"
| "term_valid mn mx (Span a b) = (mn \<le> a \<and> a \<le> b \<and> b \<le> mx)"
| "term_valid mn mx (EveryAny k) = (0 < k \<and> k \<le> 10000)"
| "term_valid mn mx (EveryFrom a k) = (mn \<le> a \<and> a \<le> mx \<and> 0 < k \<and> k \<le> 10000)"
| "term_valid mn mx (EverySpan a b k) = (mn \<le> a \<and> a \<le> b \<and> b \<le> mx \<and> 0 < k \<and> k \<le> 10000)"

definition stepped :: "int \<Rightarrow> int \<Rightarrow> int \<Rightarrow> int set" where
  "stepped lo hi k = {v. lo \<le> v \<and> v \<le> hi \<and> (v - lo) mod k = 0}"

fun term_means :: "int \<Rightarrow> int \<Rightarrow> cron_term \<Rightarrow> int set" where
  "term_means mn mx Any = {mn..mx}"
| "term_means mn mx (Number v) = {v}"
| "term_means mn mx (Span a b) = {a..b}"
| "term_means mn mx (EveryAny k) = stepped mn mx k"
| "term_means mn mx (EveryFrom a k) = stepped a mx k"
| "term_means mn mx (EverySpan a b k) = stepped a b k"

fun show_terms :: "cron_term list \<Rightarrow> string" where
  "show_terms [] = []"
| "show_terms [t] = show_term t"
| "show_terms (t # u # ts) = show_term t @ '','' @ show_terms (u # ts)"

lemma num_digits:
  assumes "0 \<le> v"
  shows "num v \<noteq> []" "list_all isdigit (num v)" "digits_value (num v) = v"
  using fmt0_digits [OF assms] by (simp_all add: num_def list_all_iff)

lemma not_in_num: "0 \<le> v \<Longrightarrow> \<not> isdigit c \<Longrightarrow> c \<notin> set (num v)"
  using num_digits(2) [of v] by (auto simp: list_all_iff)

lemma separators [simp]: "\<not> isdigit (CHR ''-'')" "\<not> isdigit (CHR ''/'')" "\<not> isdigit (CHR '','')" "\<not> isdigit (CHR ''*'')"
  "\<not> isdigit (CHR '' '')"
  by (simp_all add: isdigit_def)

lemma toInt_num:
  assumes "0 \<le> v" "v \<le> int_max"
  shows "toInt (num v) = Some v"
proof -
  have "hd (num v) \<noteq> CHR ''-''"
    using num_digits(1) [OF assms(1)] not_in_num [OF assms(1), of "CHR ''-''"] hd_in_set by fastforce
  then show ?thesis
    using num_digits [OF assms(1)] assms by (simp add: toInt_def Let_def int_max_def)
qed

lemma num_ne_star: "0 \<le> v \<Longrightarrow> num v \<noteq> ''*''" "0 \<le> v \<Longrightarrow> num v @ xs \<noteq> ''*''"
  using num_digits(1,2) [of v] by (auto simp: append_eq_Cons_conv)

lemma find_char_first: "c \<notin> set a \<Longrightarrow> find_char c (a @ c # b) = Some (length a)" "c \<notin> set a \<Longrightarrow> find_char c a = None"
  by (simp_all add: find_char_append)

text \<open>What a term has to do with the numbers in it.\<close>

fun term_numbers :: "cron_term \<Rightarrow> int list" where
  "term_numbers Any = []"
| "term_numbers (Number v) = [v]"
| "term_numbers (Span a b) = [a, b]"
| "term_numbers (EveryAny k) = [k]"
| "term_numbers (EveryFrom a k) = [a, k]"
| "term_numbers (EverySpan a b k) = [a, b, k]"

lemma term_valid_numbers:
  "term_valid mn mx t \<Longrightarrow> 0 \<le> mn \<Longrightarrow> mx \<le> 59 \<Longrightarrow> x \<in> set (term_numbers t) \<Longrightarrow> 0 \<le> x \<and> x \<le> int_max"
  by (cases t) (auto simp: int_max_def)

lemma set_show_term:
  "\<forall>x \<in> set (term_numbers t). 0 \<le> x \<Longrightarrow> c \<in> set (show_term t) \<Longrightarrow> isdigit c \<or> c \<in> {CHR ''*'', CHR ''-'', CHR ''/''}"
  by (cases t) (auto dest: not_in_num)

lemma show_term_ne: "\<forall>x \<in> set (term_numbers t). 0 \<le> x \<Longrightarrow> show_term t \<noteq> []"
  by (cases t) (auto simp: num_digits)

lemma step_base_show:
  assumes "0 \<le> mn" "mn \<le> mx" "mx \<le> 59"
  shows "step_base mn mx ''*'' = Some (mn, mx)"
    and "mn \<le> a \<Longrightarrow> a \<le> mx \<Longrightarrow> step_base mn mx (num a) = Some (a, mx)"
    and "mn \<le> a \<Longrightarrow> a \<le> b \<Longrightarrow> b \<le> mx \<Longrightarrow> step_base mn mx (num a @ CHR ''-'' # num b) = Some (a, b)"
  using assms
  by (auto simp: step_base_def num_ne_star toInt_num int_max_def find_char_first not_in_num)

lemma flush_step:
  assumes "0 \<le> k" "k \<le> int_max" "CHR ''/'' \<notin> set base"
  shows "flushTerm mn mx (base @ CHR ''/'' # num k) out =
    (if k \<le> 0 then Inl BadTerm
     else case step_base mn mx base of None \<Rightarrow> Inl BadTerm
       | Some (lo, hi) \<Rightarrow> Inr (out @ step_values lo hi k))"
  using assms by (simp add: flushTerm_def find_char_append toInt_num)

lemma flush_stepped:
  assumes "0 < k" "k \<le> 10000" "CHR ''/'' \<notin> set base" "step_base mn mx base = Some (lo, hi)" "hi \<le> 59" "0 \<le> lo"
  shows "\<exists>vs. flushTerm mn mx (base @ CHR ''/'' # num k) out = Inr (out @ vs) \<and> set vs = stepped lo hi k"
proof -
  from assms(1,2) have "0 \<le> k" "k \<le> int_max" by (simp_all add: int_max_def)
  from flush_step [OF this assms(3)] step_values_set [of k hi lo] assms(1,2,4-)
  show ?thesis by (simp add: stepped_def int_max_def)
qed

lemma flush_show_term:
  assumes "0 \<le> mn" "mn \<le> mx" "mx \<le> 59" "term_valid mn mx t"
  shows "\<exists>vs. flushTerm mn mx (show_term t) out = Inr (out @ vs) \<and> set vs = term_means mn mx t"
proof (cases t)
  case Any
  then show ?thesis by (simp add: flushTerm_def)
next
  case (Number v)
  with assms have "0 \<le> v" "v \<le> int_max" by (simp_all add: int_max_def)
  then show ?thesis using assms Number
    by (simp add: flushTerm_def num_digits num_ne_star toInt_num find_char_first not_in_num)
next
  case (Span a b)
  with assms have "0 \<le> a" "a \<le> int_max" "0 \<le> b" "b \<le> int_max" by (simp_all add: int_max_def)
  then show ?thesis using assms Span num_digits(1) [of a]
    by (simp add: flushTerm_def num_ne_star toInt_num find_char_first not_in_num addRange_def)
next
  case (EveryAny k)
  have s: "step_base mn mx ''*'' = Some (mn, mx)" using assms by (simp add: step_base_show)
  show ?thesis using flush_stepped [OF _ _ _ s, of k out] assms EveryAny by simp
next
  case (EveryFrom a k)
  with assms have s: "step_base mn mx (num a) = Some (a, mx)" "0 \<le> a" by (simp_all add: step_base_show)
  show ?thesis using flush_stepped [OF _ _ _ s(1), of k out] assms EveryFrom s(2) by (simp add: not_in_num)
next
  case (EverySpan a b k)
  with assms have s: "step_base mn mx (num a @ CHR ''-'' # num b) = Some (a, b)" "0 \<le> a" "0 \<le> b"
    by (simp_all add: step_base_show)
  show ?thesis using flush_stepped [OF _ _ _ s(1), of k out] assms EverySpan s(2,3) by (simp add: not_in_num)
qed

lemma comma_terms_scan:
  "CHR '','' \<notin> set cs \<Longrightarrow> comma_terms mn mx tm (cs @ rest) out = comma_terms mn mx (tm @ cs) rest out"
  by (induction cs arbitrary: tm) auto

lemma comma_terms_show:
  assumes "0 \<le> mn" "mn \<le> mx" "mx \<le> 59" "\<forall>t \<in> set ts. term_valid mn mx t" "ts \<noteq> []"
  shows "\<exists>vs. comma_terms mn mx [] (show_terms ts) out = Inr (out @ vs) \<and> set vs = (\<Union>t \<in> set ts. term_means mn mx t)"
  using assms(4,5)
proof (induction ts arbitrary: out rule: show_terms.induct)
  case (2 t)
  have n: "CHR '','' \<notin> set (show_term t)"
    using set_show_term [of t "CHR '',''"] term_valid_numbers [OF _ assms(1,3), of t] 2 by auto
  from flush_show_term [OF assms(1-3), of t out] 2 comma_terms_scan [OF n, of mn mx "[]" "[]" out]
  show ?case by auto
next
  case (3 t u ts)
  have n: "CHR '','' \<notin> set (show_term t)"
    using set_show_term [of t "CHR '',''"] term_valid_numbers [OF _ assms(1,3), of t] 3 by auto
  obtain vs where v: "flushTerm mn mx (show_term t) out = Inr (out @ vs)" "set vs = term_means mn mx t"
    using flush_show_term [OF assms(1-3), of t out] 3 by auto
  obtain ws where w: "comma_terms mn mx [] (show_terms (u # ts)) (out @ vs) = Inr ((out @ vs) @ ws)"
      "set ws = (\<Union>t \<in> set (u # ts). term_means mn mx t)"
    using 3 by fastforce
  have "comma_terms mn mx [] (show_terms (t # u # ts)) out = Inr (out @ vs @ ws)"
    using comma_terms_scan [OF n, of mn mx "[]" "CHR '','' # show_terms (u # ts)" out] v(1) w(1) by simp
  then show ?case using v(2) w(2) by (intro exI [of _ "vs @ ws"]) auto
qed simp

lemma sorted_adj: "remdups_adj (sort (vs :: int list)) = sorted_list_of_set (set vs)"
  by (intro sorted_distinct_set_unique) (simp_all add: distinct_adj_sorted)

lemma term_means_ne: "term_valid mn mx t \<Longrightarrow> mn \<le> mx \<Longrightarrow> term_means mn mx t \<noteq> {}"
  by (cases t) (auto simp: stepped_def)

lemma parseField_show:
  assumes "0 \<le> mn" "mn \<le> mx" "mx \<le> 59" "\<forall>t \<in> set ts. term_valid mn mx t" "ts \<noteq> []"
  shows "parseField (show_terms ts) mn mx =
    Inr \<lparr>field_values = sorted_list_of_set (\<Union>t \<in> set ts. term_means mn mx t), field_min = mn, field_max = mx\<rparr>"
proof -
  obtain vs where v: "comma_terms mn mx [] (show_terms ts) [] = Inr vs" "set vs = (\<Union>t \<in> set ts. term_means mn mx t)"
    using comma_terms_show [OF assms, of "[]"] by auto
  have "set vs \<noteq> {}" using v(2) assms(2,4,5) term_means_ne by (cases ts) auto
  then have "sorted_list_of_set (set vs) \<noteq> []" by simp
  then show ?thesis by (simp add: parseField_def v(1) sorted_adj flip: v(2))
qed
subsection \<open>What an expression means\<close>

text \<open>Five lists of terms, the expression they are written as, and the minutes they stand for.\<close>

record cron_spec =
  spec_minute :: "cron_term list"
  spec_hour :: "cron_term list"
  spec_dom :: "cron_term list"
  spec_month :: "cron_term list"
  spec_dow :: "cron_term list"

definition terms_valid :: "int \<Rightarrow> int \<Rightarrow> cron_term list \<Rightarrow> bool" where
  "terms_valid mn mx ts \<longleftrightarrow> ts \<noteq> [] \<and> (\<forall>t \<in> set ts. term_valid mn mx t)"

definition terms_mean :: "int \<Rightarrow> int \<Rightarrow> cron_term list \<Rightarrow> int set" where
  "terms_mean mn mx ts = (\<Union>t \<in> set ts. term_means mn mx t)"

definition spec_valid :: "cron_spec \<Rightarrow> bool" where
  "spec_valid c \<longleftrightarrow> terms_valid 0 59 (spec_minute c) \<and> terms_valid 0 23 (spec_hour c) \<and> terms_valid 1 31 (spec_dom c)
     \<and> terms_valid 1 12 (spec_month c) \<and> terms_valid 0 6 (spec_dow c)"

definition show_spec :: "cron_spec \<Rightarrow> string" where
  "show_spec c = show_terms (spec_minute c) @ '' '' @ show_terms (spec_hour c) @ '' '' @ show_terms (spec_dom c)
     @ '' '' @ show_terms (spec_month c) @ '' '' @ show_terms (spec_dow c)"

text \<open>The rule of cron: a day is named by its number, by its weekday, or by either when both are restricted.\<close>

definition spec_due :: "cron_spec \<Rightarrow> int \<Rightarrow> bool" where
  "spec_due c t \<longleftrightarrow>
     t div 60 mod 60 \<in> terms_mean 0 59 (spec_minute c) \<and> t div 3600 mod 24 \<in> terms_mean 0 23 (spec_hour c)
     \<and> (case daysToCivil (t div 86400) of (y, m, d) \<Rightarrow>
          let doms = terms_mean 1 31 (spec_dom c); dows = terms_mean 0 6 (spec_dow c); w = (t div 86400 + 4) mod 7 in
          m \<in> terms_mean 1 12 (spec_month c) \<and>
          (if doms = {1..31} \<or> dows = {0..6} then d \<in> doms \<and> w \<in> dows else d \<in> doms \<or> w \<in> dows))"

lemma stream_word:
  assumes "\<forall>c \<in> set w. \<not> isspace c" "w \<noteq> []"
  shows "stream_words (w @ CHR '' '' # s) = w # stream_words (CHR '' '' # s)"
    and "stream_words w = [w]" and "stream_words (CHR '' '' # s) = stream_words s"
proof -
  obtain c v where w: "w = c # v" using assms(2) by (cases w) auto
  have sp: "isspace (CHR '' '')" by (simp add: isspace_def)
  have d: "dropWhile isspace (w @ s) = w @ s" for s using assms(1) w by simp
  show "stream_words (w @ CHR '' '' # s) = w # stream_words (CHR '' '' # s)"
    using assms sp by (subst stream_words.simps) (simp add: d)
  have e: "stream_words [] = []" by (subst stream_words.simps) simp
  have "takeWhile (\<lambda>c. \<not> isspace c) w = w" and r: "dropWhile (\<lambda>c. \<not> isspace c) w = []"
    using assms(1) by simp_all
  then show "stream_words w = [w]"
    using assms d [of "[]"] by (subst stream_words.simps) (simp add: e r)
  show "stream_words (CHR '' '' # s) = stream_words s"
    using sp by (subst (1 2) stream_words.simps) simp
qed

lemma show_terms_word:
  assumes "terms_valid mn mx ts" "0 \<le> mn" "mx \<le> 59"
  shows "\<forall>c \<in> set (show_terms ts). \<not> isspace c" "show_terms ts \<noteq> []"
proof -
  have n: "\<forall>x \<in> set (term_numbers t). 0 \<le> x" if "t \<in> set ts" for t
    using assms that term_valid_numbers by (auto simp: terms_valid_def)
  have seps: "\<not> isspace (CHR ''*'')" "\<not> isspace (CHR ''-'')" "\<not> isspace (CHR ''/'')" "\<not> isspace (CHR '','')"
    by (simp_all add: isspace_def)
  have t: "\<forall>c \<in> set (show_term t). \<not> isspace c" if "t \<in> set ts" for t
    using set_show_term [OF n [OF that]] seps by fastforce
  show "\<forall>c \<in> set (show_terms ts). \<not> isspace c"
    using t by (induction ts rule: show_terms.induct) (auto simp: seps)
  show "show_terms ts \<noteq> []"
    using assms(1) n show_term_ne by (cases ts rule: show_terms.cases) (auto simp: terms_valid_def)
qed

lemma show_spec_words:
  assumes "spec_valid c"
  shows "stream_words (show_spec c) = [show_terms (spec_minute c), show_terms (spec_hour c), show_terms (spec_dom c),
    show_terms (spec_month c), show_terms (spec_dow c)]"
proof -
  have v: "terms_valid 0 59 (spec_minute c)" "terms_valid 0 23 (spec_hour c)" "terms_valid 1 31 (spec_dom c)"
      "terms_valid 1 12 (spec_month c)" "terms_valid 0 6 (spec_dow c)"
    using assms by (simp_all add: spec_valid_def)
  note w1 = show_terms_word [OF v(1), simplified] and w2 = show_terms_word [OF v(2), simplified]
    and w3 = show_terms_word [OF v(3), simplified] and w4 = show_terms_word [OF v(4), simplified]
    and w5 = show_terms_word [OF v(5), simplified]
  show ?thesis
    using stream_word(1,3) [OF w1] stream_word(1) [OF w2] stream_word(1) [OF w3] stream_word(1) [OF w4] stream_word(2) [OF w5]
    by (simp add: show_spec_def)
qed

lemma need_field_show:
  assumes "terms_valid mn mx ts" "0 \<le> mn" "mn \<le> mx" "mx \<le> 59"
  shows "need_field which q (show_terms ts) mn mx =
    Inr \<lparr>field_values = sorted_list_of_set (terms_mean mn mx ts), field_min = mn, field_max = mx\<rparr>"
  using parseField_show [of mn mx ts] assms by (simp add: need_field_def terms_valid_def terms_mean_def)

definition spec_expr :: "cron_spec \<Rightarrow> cron_expr" where
  "spec_expr c =
    (let f = \<lambda>mn mx ts. \<lparr>field_values = sorted_list_of_set (terms_mean mn mx ts), field_min = mn, field_max = mx\<rparr> in
     \<lparr>cron_minute = f 0 59 (spec_minute c), cron_hour = f 0 23 (spec_hour c), cron_dom = f 1 31 (spec_dom c),
      cron_month = f 1 12 (spec_month c), cron_dow = f 0 6 (spec_dow c), cron_source = show_spec c\<rparr>)"

lemma parse_show_spec:
  assumes "spec_valid c"
  shows "parse_cron (show_spec c) = Inr (spec_expr c)"
proof -
  have v: "terms_valid 0 59 (spec_minute c)" "terms_valid 0 23 (spec_hour c)" "terms_valid 1 31 (spec_dom c)"
      "terms_valid 1 12 (spec_month c)" "terms_valid 0 6 (spec_dow c)"
    using assms by (simp_all add: spec_valid_def)
  show ?thesis
    using need_field_show [OF v(1)] need_field_show [OF v(2)] need_field_show [OF v(3)]
      need_field_show [OF v(4)] need_field_show [OF v(5)]
    by (simp add: parse_cron_def show_spec_words [OF assms] spec_expr_def Let_def)
qed

lemma terms_mean_range: "terms_valid mn mx ts \<Longrightarrow> mn \<le> mx \<Longrightarrow> terms_mean mn mx ts \<subseteq> {mn..mx}"
proof -
  have "term_valid mn mx t \<Longrightarrow> mn \<le> mx \<Longrightarrow> term_means mn mx t \<subseteq> {mn..mx}" for t
    by (cases t) (auto simp: stepped_def)
  then show "terms_valid mn mx ts \<Longrightarrow> mn \<le> mx \<Longrightarrow> terms_mean mn mx ts \<subseteq> {mn..mx}"
    by (fastforce simp: terms_mean_def terms_valid_def)
qed

lemma whole_range:
  assumes "A \<subseteq> {a..b :: int}" "a \<le> b"
  shows "length (sorted_list_of_set A) = nat (b + 1 - a) \<longleftrightarrow> A = {a..b}"
proof
  have f: "finite A" using assms(1) by (rule finite_subset) simp
  assume "length (sorted_list_of_set A) = nat (b + 1 - a)"
  then have "card A = card {a..b}" by simp
  then show "A = {a..b}" using assms(1) card_subset_eq by blast
qed simp

lemma civil_day_range:
  assumes "daysToCivil n = (y, m, d)"
  shows "1 \<le> d \<and> d \<le> 31"
  using daysToCivil_parts [of n y m d] assms by metis
lemma mod_div_int: "0 < a \<Longrightarrow> 0 < b \<Longrightarrow> t mod (a * b) div a = t div a mod (b :: int)"
  by (simp add: zmod_zmult2_eq)

lemma gmtime_minutes:
  "tm_min (gmtime t) = t div 60 mod 60" "tm_hour (gmtime t) = t div 3600 mod 24"
proof -
  have m: "t mod 86400 div 60 = t div 60 mod 1440" "t mod 86400 div 3600 = t div 3600 mod 24"
    using mod_div_int [of 60 1440 t] mod_div_int [of 3600 24 t] by simp_all
  have "t div 60 mod 1440 mod 60 = t div 60 mod 60" by (rule mod_mod_cancel) simp
  moreover have "tm_min (gmtime t) = t mod 86400 div 60 mod 60" "tm_hour (gmtime t) = t mod 86400 div 3600"
    by (cases "daysToCivil (t div 86400)"; simp only: gmtime_def Let_def prod.case broken_time.simps)+
  ultimately show "tm_min (gmtime t) = t div 60 mod 60" "tm_hour (gmtime t) = t div 3600 mod 24"
    by (simp_all only: m)
qed

lemma gmtime_day:
  "daysToCivil (t div 86400) = (y, m, d) \<Longrightarrow>
    tm_mday (gmtime t) = d \<and> tm_mon (gmtime t) = m - 1 \<and> tm_wday (gmtime t) = (t div 86400 + 4) mod 7"
  by (simp add: gmtime_def Let_def)

lemma matches_spec:
  assumes "spec_valid c"
  shows "cron_matches (spec_expr c) t = spec_due c t"
proof -
  obtain y m d where civ: "daysToCivil (t div 86400) = (y, m, d)" by (metis prod_cases3)
  have dr: "1 \<le> d" "d \<le> 31" using civil_day_range [OF civ] by simp_all
  let ?w = "(t div 86400 + 4) mod 7"
  have wr: "0 \<le> ?w" "?w \<le> 6" using pos_mod_bound [of 7 "t div 86400 + 4"] by simp_all
  have v: "terms_valid 0 59 (spec_minute c)" "terms_valid 0 23 (spec_hour c)" "terms_valid 1 31 (spec_dom c)"
      "terms_valid 1 12 (spec_month c)" "terms_valid 0 6 (spec_dow c)"
    using assms by (simp_all add: spec_valid_def)
  note r = terms_mean_range [OF v(1)] terms_mean_range [OF v(2)] terms_mean_range [OF v(3)]
    terms_mean_range [OF v(4)] terms_mean_range [OF v(5)]
  have fin: "finite (terms_mean 0 59 (spec_minute c))" "finite (terms_mean 0 23 (spec_hour c))"
      "finite (terms_mean 1 31 (spec_dom c))" "finite (terms_mean 1 12 (spec_month c))" "finite (terms_mean 0 6 (spec_dow c))"
    using r by (auto intro: finite_subset)
  have wild: "length (sorted_list_of_set (terms_mean 1 31 (spec_dom c))) = 31 \<longleftrightarrow> terms_mean 1 31 (spec_dom c) = {1..31}"
      "length (sorted_list_of_set (terms_mean 0 6 (spec_dow c))) = 7 \<longleftrightarrow> terms_mean 0 6 (spec_dow c) = {0..6}"
    using whole_range [OF r(3)] whole_range [OF r(5)] by simp_all
  show ?thesis
    unfolding cron_matches_def spec_due_def Let_def spec_expr_def
    using fin dr wr
    by (auto simp: gmtime_minutes gmtime_day [OF civ] civ field_has_def wild simp del: length_sorted_list_of_set)
qed

subsection \<open>The scheduler fires once for every due minute it sees\<close>

lemma minute_of: "(60 * (t div 60)) div 60 = (t :: int) div 60" by simp

lemma matches_by_minute: "t div 60 = u div 60 \<Longrightarrow> cron_matches c t = cron_matches c u"
proof -
  assume m: "t div 60 = u div 60"
  have "v div 3600 = v div 60 div 60" "v div 86400 = v div 60 div 1440" for v :: int
    using zdiv_zmult2_eq [of 60 v 60] zdiv_zmult2_eq [of 1440 v 60] by simp_all
  then have d: "t div 3600 = u div 3600" "t div 86400 = u div 86400" using m by metis+
  obtain y mo dy where civ: "daysToCivil (u div 86400) = (y, mo, dy)" by (metis prod_cases3)
  have "tm_min (gmtime t) = tm_min (gmtime u)" "tm_hour (gmtime t) = tm_hour (gmtime u)"
    by (simp_all only: gmtime_minutes d m)
  moreover have "tm_mday (gmtime t) = tm_mday (gmtime u)" "tm_mon (gmtime t) = tm_mon (gmtime u)"
      "tm_wday (gmtime t) = tm_wday (gmtime u)"
    using gmtime_day [OF civ] gmtime_day [of t, unfolded d, OF civ] by simp_all
  ultimately show ?thesis by (simp only: cron_matches_def Let_def)
qed

lemma polls_once:
  assumes "sched_expr s = Some c" "sorted ts" "\<forall>t \<in> set ts. 0 \<le> t \<and> last_fired_minute s \<le> t div 60"
  shows "distinct (map (\<lambda>t. t div 60) (fst (polls ts s))) \<and>
    (\<lambda>t. t div 60) ` set (fst (polls ts s)) = {m. m \<noteq> last_fired_minute s \<and> (\<exists>t \<in> set ts. t div 60 = m \<and> cron_matches c t)}"
  using assms
proof (induction ts arbitrary: s)
  case (Cons t ts)
  have srt: "sorted ts" "\<forall>u \<in> set ts. t div 60 \<le> u div 60" "0 \<le> t"
    using Cons.prems(2,3) by (auto intro: zdiv_mono1)
  show ?case
  proof (cases "cron_matches c t")
    case False
    then have "poll t s = (False, s)" using Cons.prems(1) by (simp add: poll_def)
    with Cons.IH [of s] Cons.prems srt False show ?thesis by (auto split: prod.splits)
  next
    case True
    let ?s1 = "s\<lparr>last_fired_minute := t div 60\<rparr>"
    have p: "poll t s = (last_fired_minute s \<noteq> t div 60, ?s1)" using True Cons.prems(1) srt(3) by (simp add: poll_def Let_def)
    have IH: "distinct (map (\<lambda>t. t div 60) (fst (polls ts ?s1)))"
      "(\<lambda>t. t div 60) ` set (fst (polls ts ?s1)) = {m. m \<noteq> t div 60 \<and> (\<exists>u \<in> set ts. u div 60 = m \<and> cron_matches c u)}"
      using Cons.IH [of ?s1] Cons.prems(1,3) srt by auto
    obtain fs s2 where ps: "polls ts ?s1 = (fs, s2)" by (cases "polls ts ?s1")
    have later: "\<And>u. u \<in> set ts \<Longrightarrow> u div 60 = last_fired_minute s \<Longrightarrow> t div 60 = last_fired_minute s"
      using srt(2) Cons.prems(3) by fastforce
    show ?thesis
    proof (cases "last_fired_minute s = t div 60")
      case True
      then have "fst (polls (t # ts) s) = fs" using p ps by simp
      with IH True show ?thesis by (auto simp: ps)
    next
      case new: False
      then have "fst (polls (t # ts) s) = t # fs" using p ps by simp
      then show ?thesis using IH new later True by (auto simp: ps)
    qed
  qed
qed simp

text \<open>A step near the top of \<open>int\<close>, and the message of a bad hour, which quotes the minute.\<close>

lemma huge_step_overflows:
  "map_option (field_values \<circ> cron_dom) (case parse_cron ''0 0 */2147483647 * *'' of Inl e \<Rightarrow> None | Inr c \<Rightarrow> Some c)
    = Some [- 2147483648, - 1, 1]"
  by code_simp

lemma message_quotes_first_field: "parse_cron ''5 99 * * *'' = Inl (BadField ''hour'' ''5'')"
  by code_simp

text \<open>Every ten minutes of the working hours, Monday to Friday.\<close>

definition work_hours :: cron_spec where
  "work_hours = \<lparr>spec_minute = [EveryAny 10], spec_hour = [Span 9 16, Number 18], spec_dom = [Any],
     spec_month = [Any], spec_dow = [Span 1 5]\<rparr>"

lemma work_hours_valid: "spec_valid work_hours"
  by (simp add: spec_valid_def terms_valid_def work_hours_def)

lemma work_hours_text: "show_spec work_hours = ''*/10 9-16,18 * * 1-5''"
  by code_simp

section \<open>Properties\<close>

text \<open>C36: the text of any five lists of terms is accepted, and the parsed expression matches a time exactly
  when its minute, hour and month are among the values the terms stand for and its day is: both by number and by
  weekday if one of the two is unrestricted, else by either. (Steps are at most 10000; see \<open>huge_step_overflows\<close>.)\<close>

theorem cron_meaning:
  assumes "spec_valid c"
  shows "\<exists>e. parse_cron (show_spec c) = Inr e \<and> (\<forall>t. cron_matches e t = spec_due c t)"
  using parse_show_spec [OF assms] matches_spec [OF assms] by blast

theorem cron_meaning_witness:
  "\<exists>e. parse_cron ''*/10 9-16,18 * * 1-5'' = Inr e \<and> (\<forall>t. cron_matches e t = spec_due work_hours t)"
  using cron_meaning [OF work_hours_valid] by (simp add: work_hours_text)

text \<open>C37: over any sequence of polls at non-decreasing times the callback is called exactly once for every
  minute that is due and in which there is a poll, and never in another minute.\<close>

theorem due_minutes_fired_once:
  assumes "sched_expr s = Some c" "last_fired_minute s = - 1" "sorted ts" "\<forall>t \<in> set ts. 0 \<le> t"
  shows "distinct (map (\<lambda>t. t div 60) (fst (polls ts s))) \<and>
    (\<lambda>t. t div 60) ` set (fst (polls ts s)) = {m. \<exists>t \<in> set ts. t div 60 = m \<and> cron_matches c t}"
proof -
  have nn: "\<forall>t \<in> set ts. 0 \<le> t div 60" using assms(4) by (simp add: pos_imp_zdiv_nonneg_iff)
  then have "\<forall>t \<in> set ts. 0 \<le> t \<and> last_fired_minute s \<le> t div 60" using assms(2,4) by auto
  from polls_once [OF assms(1,3) this]
  have "distinct (map (\<lambda>t. t div 60) (fst (polls ts s))) \<and> (\<lambda>t. t div 60) ` set (fst (polls ts s)) =
    {m. m \<noteq> - 1 \<and> (\<exists>t \<in> set ts. t div 60 = m \<and> cron_matches c t)}" unfolding assms(2) .
  moreover have "m \<noteq> - 1" if "t \<in> set ts" "t div 60 = m" for t m using nn that by fastforce
  ultimately show ?thesis by auto
qed

theorem due_minutes_fired_once_witness:
  "\<exists>c. sched_expr (new_StressScheduler ''* * * * *'') = Some c \<and>
    (\<lambda>t. t div 60) ` set (fst (polls [30, 59, 61, 130] (new_StressScheduler ''* * * * *''))) =
      {m. \<exists>t \<in> set [30, 59, 61, 130]. t div 60 = m \<and> cron_matches c t}"
proof -
  have "sched_expr (new_StressScheduler ''* * * * *'') \<noteq> None" by code_simp
  then obtain c where c: "sched_expr (new_StressScheduler ''* * * * *'') = Some c" by auto
  have "last_fired_minute (new_StressScheduler ''* * * * *'') = - 1" by (simp add: new_StressScheduler_def)
  moreover have "sorted [30, 59, 61, 130 :: int]" "\<forall>t \<in> set [30, 59, 61, 130 :: int]. 0 \<le> t" by simp_all
  ultimately have "(\<lambda>t. t div 60) ` set (fst (polls [30, 59, 61, 130] (new_StressScheduler ''* * * * *''))) =
      {m. \<exists>t \<in> set [30, 59, 61, 130]. t div 60 = m \<and> cron_matches c t}"
    using due_minutes_fired_once [OF c] by blast
  with c show ?thesis by blast
qed

text \<open>C38: what the parser accepts is well formed: the values of each of the five fields are sorted, distinct,
  not empty and at most the maximum of the field; and if no step in the text is above \<open>INT_MAX - 59\<close> they are within
  both bounds, so that the binary search finds exactly the values written. (With a larger step the addition of the loop
  can wrap around, and the field gets negative values: \<open>huge_step_overflows\<close>.)\<close>

theorem cron_expr_typed:
  assumes "parse_cron s = Inr c"
  shows "cron_sound c \<and> (small_steps s \<longrightarrow> cron_ok c)"
  using parse_cron_sound [OF assms] parse_cron_ok [OF assms] by blast

theorem cron_expr_typed_witness:
  "\<exists>c. parse_cron ''*/10 9-16,18 * * 1-5'' = Inr c \<and> cron_ok c"
proof -
  obtain c where c: "parse_cron ''*/10 9-16,18 * * 1-5'' = Inr c"
    using parse_show_spec [OF work_hours_valid] by (simp add: work_hours_text)
  have "small_steps ''*/10 9-16,18 * * 1-5''" by code_simp
  with cron_expr_typed [OF c] c show ?thesis by blast
qed

end
