(* ===== verification/ClientIp.thy ===== *)
theory ClientIp
  imports Prelude CText Json
begin

text \<open>
  Who the client is behind a reverse proxy, \<open>utils/ClientIp.cpp\<close>: the parsing of the trusted
  networks, the test of an address against them, and the walk over \<open>X-Forwarded-For\<close> from the right.
  \<open>inet_pton\<close> is a parameter; of it only the length of its results is used.
\<close>

text \<open>\<open>inet_pton\<close> for the two families, on a terminated string.\<close>

record inet =
  pton4 :: "string \<Rightarrow> bytes option"
  pton6 :: "string \<Rightarrow> bytes option"

definition inet_ok :: "inet \<Rightarrow> bool" where
  "inet_ok net \<longleftrightarrow> (\<forall>s b. pton4 net s = Some b \<longrightarrow> length b = 4) \<and> (\<forall>s b. pton6 net s = Some b \<longrightarrow> length b = 16)"

record cidr =
  net_bytes :: bytes
  net_prefix :: int

definition kMaxHeaderBytes :: nat where "kMaxHeaderBytes = 2048"

definition c_str :: "string \<Rightarrow> string" where
  "c_str s = takeWhile (\<lambda>c. of_char c \<noteq> (0 :: nat)) s"

definition toBytes :: "inet \<Rightarrow> string \<Rightarrow> bytes option" where
  "toBytes net txt =
     (if txt = [] \<or> 64 < length txt then None
      else case pton4 net (c_str txt) of
        Some v4 \<Rightarrow> Some (replicate 10 0 @ [0xff, 0xff] @ v4)
      | None \<Rightarrow> pton6 net (c_str txt))"

text \<open>The loop over the sixteen bytes with the bits that are left.\<close>

fun covers_loop :: "int \<Rightarrow> bytes \<Rightarrow> bytes \<Rightarrow> bool" where
  "covers_loop bits (n # ns) (b # bs) =
     (if bits \<le> 0 then True
      else let m = (if 8 \<le> bits then 0xff else push_bit (nat (8 - bits)) 0xff) in
        if n AND m \<noteq> b AND m then False else covers_loop (bits - 8) ns bs)"
| "covers_loop bits _ _ = True"

definition covers :: "cidr \<Rightarrow> bytes \<Rightarrow> bool" where
  "covers n b = covers_loop (net_prefix n) (net_bytes n) b"

text \<open>One entry of the configuration; \<open>None\<close> is a rejected one.\<close>

definition parse_cidr :: "inet \<Rightarrow> string \<Rightarrow> cidr option" where
  "parse_cidr net raw =
     (let entry = trim raw;
          split = (case find_char (CHR ''/'') entry of
            None \<Rightarrow> Some (entry, - 1)
          | Some i \<Rightarrow>
              let p = drop (i + 1) entry in
              if p = [] \<or> 3 < length p \<or> \<not> list_all isdigit p then None else Some (take i entry, digits_value p)) in
      case split of None \<Rightarrow> None
      | Some (addr, prefix) \<Rightarrow>
        (case toBytes net addr of None \<Rightarrow> None
         | Some bs \<Rightarrow>
           let is_v4 = (CHR '':'' \<notin> set addr);
               max_prefix = (if is_v4 then 32 else 128);
               pfx = (if prefix < 0 then max_prefix else prefix) in
           if max_prefix < pfx then None
           else Some \<lparr>net_bytes = bs, net_prefix = (if is_v4 then 96 + pfx else pfx)\<rparr>))"

fun parse_cidrs :: "inet \<Rightarrow> string list \<Rightarrow> cidr list \<times> string list" where
  "parse_cidrs net [] = ([], [])"
| "parse_cidrs net (raw # rs) =
     (let (nets, bad) = parse_cidrs net rs in
      case parse_cidr net raw of None \<Rightarrow> (nets, raw # bad) | Some n \<Rightarrow> (n # nets, bad))"

definition trusts :: "inet \<Rightarrow> cidr list \<Rightarrow> string \<Rightarrow> bool" where
  "trusts net nets address =
     (case toBytes net (trim address) of None \<Rightarrow> False | Some b \<Rightarrow> list_ex (\<lambda>n. covers n b) nets)"

text \<open>The loop of \<open>resolve\<close>: the last entry, and the text before its comma.\<close>

definition last_entry :: "string \<Rightarrow> string \<times> string" where
  "last_entry xff = (case rfind_char (CHR '','') xff of
     None \<Rightarrow> (trim xff, []) | Some i \<Rightarrow> (trim (drop (i + 1) xff), take i xff))"

function resolve_loop :: "inet \<Rightarrow> cidr list \<Rightarrow> string \<Rightarrow> string \<Rightarrow> string" where
  "resolve_loop net nets peer xff =
     (if xff = [] then peer
      else let (entry, rest) = last_entry xff in
        if toBytes net entry = None then peer
        else if trusts net nets entry then resolve_loop net nets peer rest
        else entry)"
  by auto
termination
proof (relation "measure (\<lambda>(net, nets, peer, xff). length xff)", goal_cases)
  case (2 net nets peer xff e entry rest)
  then show ?case by (cases "rfind_char (CHR '','') xff") (auto simp: last_entry_def dest: rfind_char_Some)
qed simp

declare resolve_loop.simps [simp del]

definition resolve :: "inet \<Rightarrow> cidr list \<Rightarrow> string \<Rightarrow> string \<Rightarrow> string" where
  "resolve net nets peer xff =
     (if nets = [] \<or> \<not> trusts net nets peer then peer
      else let x = trim xff in
        if x = [] \<or> kMaxHeaderBytes < length x then peer else resolve_loop net nets peer x)"

subsection \<open>A network covers the addresses with its first bits\<close>

definition addr_bit :: "bytes \<Rightarrow> nat \<Rightarrow> bool" where
  "addr_bit bs k = bit (bs ! (k div 8)) (7 - k mod 8)"

lemma addr_bit_Cons: "addr_bit (b # bs) k = (if k < 8 then bit b (7 - k) else addr_bit bs (k - 8))"
  by (auto simp: addr_bit_def le_div_geq le_mod_geq)

lemma masked_eq:
  fixes n b :: u8
  assumes "k \<le> 8"
  shows "n AND push_bit (8 - k) 0xff = b AND push_bit (8 - k) 0xff \<longleftrightarrow> (\<forall>i < k. bit n (7 - i) = bit b (7 - i))"
proof -
  have m: "(0xff :: u8) = mask 8" by (simp add: mask_eq_exp_minus_1)
  have "bit (n AND push_bit (8 - k) 0xff) j = (bit n j \<and> 8 - k \<le> j \<and> j < 8)" for n :: u8 and j
    unfolding m by (auto simp: bit_simps)
  then have "n AND push_bit (8 - k) 0xff = b AND push_bit (8 - k) 0xff \<longleftrightarrow>
    (\<forall>j < 8. 8 - k \<le> j \<longrightarrow> bit n j = bit b j)"
    by (auto simp: bit_eq_iff)
  also have "\<dots> \<longleftrightarrow> (\<forall>i < k. bit n (7 - i) = bit b (7 - i))"
  proof safe
    fix i assume "\<forall>j < 8. 8 - k \<le> j \<longrightarrow> bit n j = bit b j" "i < k" "bit n (7 - i)"
    moreover have "7 - i < 8" "8 - k \<le> 7 - i" using \<open>i < k\<close> assms by auto
    ultimately show "bit b (7 - i)" by blast
  next
    fix i assume "\<forall>j < 8. 8 - k \<le> j \<longrightarrow> bit n j = bit b j" "i < k" "bit b (7 - i)"
    moreover have "7 - i < 8" "8 - k \<le> 7 - i" using \<open>i < k\<close> assms by auto
    ultimately show "bit n (7 - i)" by blast
  next
    fix j assume a: "\<forall>i < k. bit n (7 - i) = bit b (7 - i)" "j < 8" "8 - k \<le> j" "bit n j"
    then have "7 - (7 - j) = j" "7 - j < k" using assms by auto
    with a(1,4) show "bit b j" by metis
  next
    fix j assume a: "\<forall>i < k. bit n (7 - i) = bit b (7 - i)" "j < 8" "8 - k \<le> j" "bit b j"
    then have "7 - (7 - j) = j" "7 - j < k" using assms by auto
    with a(1,4) show "bit n j" by metis
  qed
  finally show ?thesis .
qed

lemma covers_loop_bits:
  assumes "length ns = length bs" "bits \<le> 8 * int (length bs)"
  shows "covers_loop bits ns bs \<longleftrightarrow> (\<forall>k < nat bits. addr_bit ns k = addr_bit bs k)"
  using assms
proof (induction bits ns bs rule: covers_loop.induct)
  case (1 bits n ns b bs)
  show ?case
  proof (cases "bits \<le> 0")
    case False
    define k where "k = (if 8 \<le> bits then 8 else nat bits)"
    have k: "k \<le> 8" "(if 8 \<le> bits then 0xff else push_bit (nat (8 - bits)) 0xff) = push_bit (8 - k) (0xff :: u8)"
      using False by (auto simp: k_def nat_diff_distrib)
    have IH: "covers_loop (bits - 8) ns bs \<longleftrightarrow> (\<forall>k < nat (bits - 8). addr_bit ns k = addr_bit bs k)"
      if "n AND push_bit (8 - k) 0xff = b AND push_bit (8 - k) 0xff"
      using 1 False that k(2) by simp
    have "covers_loop bits (n # ns) (b # bs) \<longleftrightarrow> (\<forall>i < k. bit n (7 - i) = bit b (7 - i)) \<and>
      (\<forall>i < nat (bits - 8). addr_bit ns i = addr_bit bs i)"
      using False IH masked_eq [OF k(1), of n b] by (simp add: k(2) Let_def)
    also have "\<dots> \<longleftrightarrow> (\<forall>i < nat bits. addr_bit (n # ns) i = addr_bit (b # bs) i)"
    proof
      assume a: "(\<forall>i < k. bit n (7 - i) = bit b (7 - i)) \<and> (\<forall>i < nat (bits - 8). addr_bit ns i = addr_bit bs i)"
      show "\<forall>i < nat bits. addr_bit (n # ns) i = addr_bit (b # bs) i"
      proof (intro allI impI)
        fix i assume i: "i < nat bits"
        show "addr_bit (n # ns) i = addr_bit (b # bs) i"
        proof (cases "i < 8")
          case True
          with i have "i < k" by (simp add: k_def)
          with a True show ?thesis by (simp add: addr_bit_Cons)
        next
          case False
          with i have "i - 8 < nat (bits - 8)" by linarith
          with a False show ?thesis by (simp add: addr_bit_Cons)
        qed
      qed
    next
      assume a: "\<forall>i < nat bits. addr_bit (n # ns) i = addr_bit (b # bs) i"
      have "bit n (7 - i) = bit b (7 - i)" if "i < k" for i
      proof -
        have "i < nat bits" "i < 8" using that by (auto simp: k_def split: if_splits)
        with a have "addr_bit (n # ns) i = addr_bit (b # bs) i" by blast
        with \<open>i < 8\<close> show ?thesis by (simp add: addr_bit_Cons)
      qed
      moreover have "addr_bit ns i = addr_bit bs i" if "i < nat (bits - 8)" for i
      proof -
        have "i + 8 < nat bits" using that by linarith
        with a have "addr_bit (n # ns) (i + 8) = addr_bit (b # bs) (i + 8)" by blast
        then show ?thesis by (simp add: addr_bit_Cons)
      qed
      ultimately show "(\<forall>i < k. bit n (7 - i) = bit b (7 - i)) \<and> (\<forall>i < nat (bits - 8). addr_bit ns i = addr_bit bs i)"
        by blast
    qed
    finally show ?thesis .
  qed simp
qed auto
subsection \<open>The walk over the entries\<close>

lemma isspace_comma [simp]: "\<not> isspace (CHR '','')" by (simp add: isspace_def)

text \<open>The entries of a header; space around the header is space around its outer entries.\<close>

definition entries_of :: "string \<Rightarrow> string list" where
  "entries_of s = map trim (split_on (CHR '','') s)"

lemma entries_of_trim: "entries_of (trim s) = entries_of s"
proof (rule trim_induct)
  fix c s assume c: "isspace c"
  then have n: "c \<noteq> CHR '',''" by auto
  obtain w ws where w: "split_on (CHR '','') s = w # ws" by (metis list.exhaust split_on_ne)
  show "entries_of (c # s) = entries_of s" using c n w by (simp add: entries_of_def)
  have "split_on (CHR '','') s = butlast (split_on (CHR '','') s) @ [last (split_on (CHR '','') s)]" by simp
  then have "entries_of s = map trim (butlast (split_on (CHR '','') s)) @ [trim (last (split_on (CHR '','') s))]"
    unfolding entries_of_def by (metis list.simps(8,9) map_append)
  then show "entries_of (s @ [c]) = entries_of s"
    using c n by (simp add: entries_of_def split_on_snoc)
qed

lemma entries_of_append: "entries_of (a @ CHR '','' # b) = entries_of a @ entries_of b"
  by (simp add: entries_of_def split_on_append)

lemma entries_of_ne [simp]: "entries_of s \<noteq> []" by (simp add: entries_of_def)

text \<open>What the walk is: past trusted entries, up to an unreadable one or the first foreign one.\<close>

fun walk :: "inet \<Rightarrow> cidr list \<Rightarrow> string \<Rightarrow> string list \<Rightarrow> string" where
  "walk net nets peer [] = peer"
| "walk net nets peer (e # es) =
     (if toBytes net e = None then peer else if trusts net nets e then walk net nets peer es else e)"

lemma resolve_loop_walk: "resolve_loop net nets peer xff = walk net nets peer (rev (entries_of xff))"
proof (induction net nets peer xff rule: resolve_loop.induct)
  case (1 net nets peer xff)
  show ?case
  proof (cases "xff = []")
    case True
    then show ?thesis by (subst resolve_loop.simps) (simp add: entries_of_def toBytes_def)
  next
    case False
    show ?thesis
    proof (cases "rfind_char (CHR '','') xff")
      case None
      then have e: "entries_of xff = [trim xff]" by (simp add: entries_of_def split_on_none)
      have "resolve_loop net nets peer [] = peer" by (subst resolve_loop.simps) simp
      moreover have "last_entry xff = (trim xff, [])" by (simp add: last_entry_def None)
      ultimately show ?thesis using False by (subst resolve_loop.simps) (simp add: e)
    next
      case (Some i)
      from rfind_char_Some [OF Some] have x: "xff = take i xff @ CHR '','' # drop (Suc i) xff"
        and n: "CHR '','' \<notin> set (drop (Suc i) xff)" by auto
      have e: "entries_of xff = entries_of (take i xff) @ [trim (drop (Suc i) xff)]"
        using entries_of_append [of "take i xff" "drop (Suc i) xff"] x
        by (simp add: entries_of_def [of "drop (Suc i) xff"] split_on_none n)
      have l: "last_entry xff = (trim (drop (Suc i) xff), take i xff)" using Some by (simp add: last_entry_def)
      show ?thesis using 1 [OF False l [symmetric] refl] False by (subst resolve_loop.simps) (auto simp: l e)
    qed
  qed
qed

lemma resolve_walk:
  "resolve net nets peer xff =
     (if nets = [] \<or> \<not> trusts net nets peer \<or> kMaxHeaderBytes < length (trim xff) then peer
      else walk net nets peer (rev (entries_of xff)))"
proof -
  have "walk net nets peer (rev (entries_of xff)) = peer" if "trim xff = []"
  proof -
    have "entries_of xff = entries_of []" using entries_of_trim [of xff] that by simp
    then show ?thesis by (simp add: entries_of_def toBytes_def)
  qed
  then show ?thesis by (auto simp: resolve_def Let_def resolve_loop_walk entries_of_trim)
qed

lemma walk_skips:
  "\<forall>e \<in> set es. toBytes net e \<noteq> None \<and> trusts net nets e \<Longrightarrow> walk net nets peer (es @ fs) = walk net nets peer fs"
  by (induction es) auto

lemma walk_result: "walk net nets peer es = peer \<or>
    (walk net nets peer es \<in> set es \<and> toBytes net (walk net nets peer es) \<noteq> None \<and> \<not> trusts net nets (walk net nets peer es))"
  by (induction es) auto

subsection \<open>Parsed networks\<close>

lemma toBytes_length: "inet_ok net \<Longrightarrow> toBytes net s = Some b \<Longrightarrow> length b = 16"
  by (fastforce simp: toBytes_def inet_ok_def split: if_splits option.splits)

lemma parse_cidr_ok:
  assumes "inet_ok net" "parse_cidr net raw = Some n"
  shows "length (net_bytes n) = 16 \<and> 0 \<le> net_prefix n \<and> net_prefix n \<le> 128"
  using assms digits_value_bounds
  by (auto simp: parse_cidr_def Let_def toBytes_length split: if_splits option.splits)

lemma parsed_net_covers:
  assumes "inet_ok net" "parse_cidr net raw = Some n" "toBytes net s = Some b"
  shows "covers n b \<longleftrightarrow> (\<forall>k < nat (net_prefix n). addr_bit (net_bytes n) k = addr_bit b k)"
  using parse_cidr_ok [OF assms(1,2)] toBytes_length [OF assms(1,3)]
  by (simp add: covers_def covers_loop_bits)

text \<open>A toy \<open>inet_pton\<close> that reads \<open>10.0.0.x\<close> and \<open>9.9.9.9\<close>; one trusted network.\<close>

definition toy_inet :: inet where
  "toy_inet = \<lparr>pton4 = (\<lambda>s. if s = ''10.0.0.1'' then Some [10, 0, 0, 1] else if s = ''10.0.0.2'' then Some [10, 0, 0, 2]
     else if s = ''10.0.0.0'' then Some [10, 0, 0, 0] else if s = ''9.9.9.9'' then Some [9, 9, 9, 9] else None),
     pton6 = (\<lambda>_. None)\<rparr>"

definition toy_net :: cidr where
  "toy_net = \<lparr>net_bytes = replicate 10 0 @ [0xff, 0xff, 10, 0, 0, 0], net_prefix = 120\<rparr>"

lemma toy_net_parsed: "parse_cidr toy_inet '' 10.0.0.0/24'' = Some toy_net"
  by code_simp

lemma toy_inet_ok: "inet_ok toy_inet"
  by (auto simp: inet_ok_def toy_inet_def split: if_splits)

lemma toy_facts:
  "trusts toy_inet [toy_net] ''10.0.0.1''" "trusts toy_inet [toy_net] ''10.0.0.2''" "\<not> trusts toy_inet [toy_net] ''9.9.9.9''"
  "toBytes toy_inet ''10.0.0.2'' \<noteq> None" "toBytes toy_inet ''9.9.9.9'' \<noteq> None"
  "entries_of ''9.9.9.9 , 10.0.0.2'' = [''9.9.9.9'', ''10.0.0.2'']"
  by code_simp+

section \<open>Properties\<close>

text \<open>C26: whatever the client puts in front, the resolved address is the first foreign entry from the right
  (the one its own proxy appended, behind which only trusted proxies follow), or the peer itself when the peer is
  not trusted or the header is too long: never an address of the client's choosing.\<close>

theorem forged_header_ignored:
  assumes "entries_of h = client # proxies" "toBytes net client \<noteq> None" "\<not> trusts net nets client"
    "\<forall>p \<in> set proxies. toBytes net p \<noteq> None \<and> trusts net nets p"
  shows "resolve net nets peer (forged @ CHR '','' # h) =
    (if nets = [] \<or> \<not> trusts net nets peer \<or> kMaxHeaderBytes < length (trim (forged @ CHR '','' # h)) then peer
     else client)"
proof -
  have "\<forall>p \<in> set (rev proxies). toBytes net p \<noteq> None \<and> trusts net nets p" using assms(4) by simp
  from walk_skips [OF this, of peer "client # rev (entries_of forged)"] assms(1-3)
  show ?thesis by (simp add: resolve_walk entries_of_append)
qed

theorem forged_header_ignored_witness:
  "resolve toy_inet [toy_net] ''10.0.0.1'' (''1.2.3.4, 5.6.7.8'' @ CHR '','' # ''9.9.9.9 , 10.0.0.2'') = ''9.9.9.9''"
proof -
  have p: "\<forall>p \<in> set [''10.0.0.2'']. toBytes toy_inet p \<noteq> None \<and> trusts toy_inet [toy_net] p"
    using toy_facts by simp
  have "\<not> kMaxHeaderBytes < length (trim (''1.2.3.4, 5.6.7.8'' @ CHR '','' # ''9.9.9.9 , 10.0.0.2''))" by code_simp
  with forged_header_ignored [OF toy_facts(6,5,3) p, where peer = "''10.0.0.1''" and forged = "''1.2.3.4, 5.6.7.8''"] toy_facts(1)
  show ?thesis by (simp only: list.distinct if_False simp_thms)
qed

text \<open>A network read from the configuration covers an address exactly when the two agree in their first
  bits, as many as the prefix says, most significant first; the loop over masked bytes computes that.\<close>

lemma network_covers_prefix:
  assumes "inet_ok net" "parse_cidr net raw = Some n" "toBytes net s = Some b"
  shows "covers n b \<longleftrightarrow> (\<forall>k < nat (net_prefix n). addr_bit (net_bytes n) k = addr_bit b k)"
  using assms by (rule parsed_net_covers)

end
