(* ===== verification/Access.thy ===== *)
theory Access
  imports Json "HOL-Library.Log_Nat"
begin

text \<open>
  Who may do what: the roles and rights of \<open>auth/AuthTypes\<close>, the claims of a token
  (\<open>auth/JwtIssuer.cpp\<close>), the rule table and the decision of \<open>auth/RbacMiddleware.cpp\<close>, the rights on
  screens of \<open>players/PlayerAccess.cpp\<close> and the channel scope of \<open>api/RbacScope.cpp\<close>. Signing and
  checking a token is jwt-cpp, a parameter that yields the decoded claims.
\<close>

subsection \<open>Roles, rights and names\<close>

datatype Role = Viewer | Operator | Admin

datatype AuthSource = Local | Ldap

datatype ChannelPermission = View | Operate

fun roleName :: "Role \<Rightarrow> string" where
  "roleName Viewer = ''viewer''"
| "roleName Operator = ''operator''"
| "roleName Admin = ''admin''"

definition roleFromString :: "string \<Rightarrow> Role option" where
  "roleFromString s = (if s = ''viewer'' then Some Viewer else if s = ''operator'' then Some Operator
     else if s = ''admin'' then Some Admin else None)"

fun sourceName :: "AuthSource \<Rightarrow> string" where
  "sourceName Local = ''local''"
| "sourceName Ldap = ''ldap''"

definition sourceFromString :: "string \<Rightarrow> AuthSource option" where
  "sourceFromString s = (if s = ''local'' then Some Local else if s = ''ldap'' then Some Ldap else None)"

fun channelPermissionName :: "ChannelPermission \<Rightarrow> string" where
  "channelPermissionName View = ''view''"
| "channelPermissionName Operate = ''operate''"

definition channelPermissionFromString :: "string \<Rightarrow> ChannelPermission option" where
  "channelPermissionFromString s = (if s = ''view'' then Some View else if s = ''operate'' then Some Operate else None)"

record ChannelGrant =
  grant_channel :: int
  grant_permission :: ChannelPermission

datatype ScopeKind = ObjectScope | GroupScope

record PlayerScopeGrant =
  scope :: ScopeKind
  scope_id :: int
  scope_object :: int
  can_command_group :: bool
  can_command_object :: bool
  can_move :: bool
  can_view_audit :: bool

record RequestContext =
  ctx_user_id :: int
  ctx_username :: string
  ctx_role :: Role
  ctx_must_change_password :: bool
  ctx_channel_grants :: "ChannelGrant list"
  ctx_player_grants :: "PlayerScopeGrant list"

subsection \<open>The claims of a token\<close>

record Claims =
  cl_user_id :: int
  cl_username :: string
  cl_role :: Role
  cl_must_change_password :: bool
  cl_exp :: int
  cl_jti :: string
  cl_channel_grants :: "ChannelGrant list"

text \<open>
  A JSON number of a token is a \<open>double\<close>. The cast of an integer to \<open>double\<close> rounds to the nearest value
  of 53 significant bits, ties to the even one; below, the integer that \<open>double\<close> stands for. The cast back
  truncates towards zero. Out of the range of 64 bits it is undefined in C++; the conversion of x86-64 gives
  the least integer.
\<close>

definition double_of_int :: "int \<Rightarrow> int" where
  "double_of_int v =
     (let n = nat \<bar>v\<bar>; e = floorlog 2 n - 53; q = n div 2 ^ e; r = n mod 2 ^ e;
          up = (2 ^ e < 2 * r \<or> 2 * r = 2 ^ e \<and> odd q)
      in sgn v * int ((if up then q + 1 else q) * 2 ^ e))"

definition trunc_rat :: "rat \<Rightarrow> int" where
  "trunc_rat r = (if r < 0 then \<lceil>r\<rceil> else \<lfloor>r\<rfloor>)"

definition cast_int64 :: "rat \<Rightarrow> int" where
  "cast_int64 r = (let i = trunc_rat r in if - (2 ^ 63) \<le> i \<and> i < 2 ^ 63 then i else - (2 ^ 63))"

definition json_number :: "json \<Rightarrow> int option" where
  "json_number j = (case j of JInt i \<Rightarrow> Some (cast_int64 (of_int (double_of_int i)))
     | JFloat r \<Rightarrow> Some (cast_int64 r) | _ \<Rightarrow> None)"

definition grantsToJson :: "ChannelGrant list \<Rightarrow> json" where
  "grantsToJson gs = JArr (map (\<lambda>g. JObj [(''cid'', JFloat (of_int (double_of_int (grant_channel g)))),
     (''perm'', JStr (channelPermissionName (grant_permission g)))]) gs)"

definition grant_item :: "json \<Rightarrow> ChannelGrant option" where
  "grant_item item =
     (if \<not> is_object item then None
      else case field ''cid'' item of None \<Rightarrow> None
      | Some c \<Rightarrow> (case json_number c of None \<Rightarrow> None
        | Some cid \<Rightarrow> (case field ''perm'' item of
            Some (JStr s) \<Rightarrow>
              (case channelPermissionFromString s of None \<Rightarrow> None
               | Some p \<Rightarrow> Some \<lparr>grant_channel = cid, grant_permission = p\<rparr>)
          | _ \<Rightarrow> None)))"

definition grantsFromJson :: "json \<Rightarrow> ChannelGrant list" where
  "grantsFromJson v = (case v of JArr items \<Rightarrow> List.map_filter grant_item items | _ \<Rightarrow> [])"

text \<open>\<open>std::stoll\<close>: blanks, a sign, the longest run of digits; no digit and a value out of range throw.\<close>

definition stoll :: "string \<Rightarrow> int option" where
  "stoll s =
    (let s1 = dropWhile isspace s;
         neg = (s1 \<noteq> [] \<and> hd s1 = CHR ''-'');
         s2 = (if s1 \<noteq> [] \<and> (hd s1 = CHR ''-'' \<or> hd s1 = CHR ''+'') then tl s1 else s1);
         ds = takeWhile isdigit s2;
         v = (if neg then - digits_value ds else digits_value ds)
     in if ds = [] \<or> v < - (2 ^ 63) \<or> 2 ^ 63 \<le> v then None else Some v)"

text \<open>What jwt-cpp hands over of a token whose signature, issuer and expiry it has accepted.\<close>

record decoded_token =
  tok_subject :: string
  tok_id :: string
  tok_expires_at :: int
  tok_claims :: json

type_synonym jwt_lib = "string \<Rightarrow> decoded_token option"

text \<open>A claim that is missing, or not of the type that is asked for, throws.\<close>

definition verify_claims :: "decoded_token \<Rightarrow> Claims option" where
  "verify_claims d =
     (case stoll (tok_subject d) of None \<Rightarrow> None
      | Some uid \<Rightarrow>
        (case field ''username'' (tok_claims d) of
          Some (JStr name) \<Rightarrow>
            (case field ''role'' (tok_claims d) of
              Some (JStr r) \<Rightarrow>
                (case roleFromString r of None \<Rightarrow> None
                 | Some ro \<Rightarrow>
                   (case field ''mcp'' (tok_claims d) of
                     Some (JBool mcp) \<Rightarrow>
                       (case field ''grants'' (tok_claims d) of None \<Rightarrow> None
                        | Some gs \<Rightarrow> Some \<lparr>cl_user_id = uid, cl_username = name, cl_role = ro,
                            cl_must_change_password = mcp, cl_exp = tok_expires_at d, cl_jti = tok_id d,
                            cl_channel_grants = grantsFromJson gs\<rparr>)
                   | _ \<Rightarrow> None))
            | _ \<Rightarrow> None)
        | _ \<Rightarrow> None))"

definition jwt_verify :: "jwt_lib \<Rightarrow> string \<Rightarrow> Claims option" where
  "jwt_verify jwt token = (if token = [] then None else Option.bind (jwt token) verify_claims)"

text \<open>The claims \<open>issue\<close> has signed.\<close>

definition issued :: "int \<Rightarrow> string \<Rightarrow> Role \<Rightarrow> bool \<Rightarrow> ChannelGrant list \<Rightarrow> string \<Rightarrow> int \<Rightarrow> decoded_token" where
  "issued uid name r mcp grants jti now =
     \<lparr>tok_subject = std_to_string uid, tok_id = jti,
      tok_expires_at = now + 3600,
      tok_claims = JObj [(''username'', JStr name), (''role'', JStr (roleName r)), (''mcp'', JBool mcp),
        (''grants'', grantsToJson grants)]\<rparr>"

subsection \<open>The rule table\<close>

record EndpointRule =
  min_role :: Role
  needs_channel_acl :: bool
  channel_perm :: ChannelPermission
  open_rule :: bool

record PatternRule =
  pat_method :: string
  pat_segments :: "string list"
  pat_rule :: EndpointRule

record rbac =
  literal_rules :: "string \<rightharpoonup> EndpointRule"
  pattern_rules :: "PatternRule list"

datatype rbac_decision = Allow | Unauthorized | Forbidden | PasswordChangeRequired | NotConfigured

definition kSelfPasswordKey :: string where "kSelfPasswordKey = ''POST /api/auth/me/password''"

fun roleRank :: "Role \<Rightarrow> nat" where
  "roleRank Viewer = 1"
| "roleRank Operator = 2"
| "roleRank Admin = 3"

definition splitSegments :: "string \<Rightarrow> string list" where
  "splitSegments path = split_on (CHR ''/'') path"

definition isPattern :: "string \<Rightarrow> bool" where
  "isPattern path \<longleftrightarrow> find_char (CHR ''{'') path \<noteq> None"

definition segmentMatches :: "string \<Rightarrow> string \<Rightarrow> bool" where
  "segmentMatches pattern actual =
     (if pattern \<noteq> [] \<and> hd pattern = CHR ''{'' \<and> last pattern = CHR ''}'' then actual \<noteq> [] else pattern = actual)"

definition clearRules :: rbac where
  "clearRules = \<lparr>literal_rules = Map.empty, pattern_rules = []\<rparr>"

definition registerEndpoint :: "string \<Rightarrow> EndpointRule \<Rightarrow> rbac \<Rightarrow> rbac" where
  "registerEndpoint key rule r =
     (case find_char (CHR '' '') key of None \<Rightarrow> r
      | Some sp \<Rightarrow>
        let method = take sp key; path = drop (sp + 1) key in
        if isPattern path
        then r\<lparr>pattern_rules := pattern_rules r @
               [\<lparr>pat_method = method, pat_segments = splitSegments path, pat_rule = rule\<rparr>]\<rparr>
        else r\<lparr>literal_rules := (literal_rules r)(key \<mapsto> rule)\<rparr>)"

definition patternMatches :: "string \<Rightarrow> string list \<Rightarrow> PatternRule \<Rightarrow> bool" where
  "patternMatches method segs pr \<longleftrightarrow> pat_method pr = method \<and> list_all2 segmentMatches (pat_segments pr) segs"

definition endpoint_key :: "string \<Rightarrow> string \<Rightarrow> string" where
  "endpoint_key method path = method @ '' '' @ path"

definition findRule :: "rbac \<Rightarrow> string \<Rightarrow> string \<Rightarrow> EndpointRule option" where
  "findRule r method path =
     (case literal_rules r (endpoint_key method path) of
        Some rule \<Rightarrow> Some rule
      | None \<Rightarrow> map_option pat_rule (find (patternMatches method (splitSegments path)) (pattern_rules r)))"

subsection \<open>The decision\<close>

text \<open>What the tables say of a session and of a user's flag.\<close>

record auth_tables =
  session_revoked :: "string \<rightharpoonup> int option"
  user_must_change :: "int \<rightharpoonup> bool"

definition grants_cover :: "ChannelPermission \<Rightarrow> int \<Rightarrow> ChannelGrant list \<Rightarrow> bool" where
  "grants_cover perm channel gs =
     list_ex (\<lambda>g. grant_channel g = channel \<and> (perm = Operate \<longrightarrow> grant_permission g = Operate)) gs"

definition authorize ::
  "rbac \<Rightarrow> jwt_lib \<Rightarrow> auth_tables \<Rightarrow> string \<Rightarrow> string \<Rightarrow> string \<Rightarrow> int \<Rightarrow> rbac_decision \<times> RequestContext option" where
  "authorize r jwt tabs method path token channel =
     (case findRule r method path of None \<Rightarrow> (NotConfigured, None)
      | Some rule \<Rightarrow>
        if open_rule rule then (Allow, None)
        else if token = [] then (Unauthorized, None)
        else case jwt_verify jwt token of None \<Rightarrow> (Unauthorized, None)
        | Some c \<Rightarrow>
          if session_revoked tabs (cl_jti c) \<noteq> Some None then (Unauthorized, None)
          else
            let must_change = (if cl_must_change_password c
                  then (case user_must_change tabs (cl_user_id c) of Some m \<Rightarrow> m | None \<Rightarrow> True) else False) in
            if must_change \<and> endpoint_key method path \<noteq> kSelfPasswordKey then (PasswordChangeRequired, None)
            else if roleRank (cl_role c) < roleRank (min_role rule) then (Forbidden, None)
            else if needs_channel_acl rule \<and> 0 \<le> channel \<and> cl_role c \<noteq> Admin
                \<and> \<not> grants_cover (channel_perm rule) channel (cl_channel_grants c) then (Forbidden, None)
            else (Allow, Some \<lparr>ctx_user_id = cl_user_id c, ctx_username = cl_username c, ctx_role = cl_role c,
                 ctx_must_change_password = must_change, ctx_channel_grants = cl_channel_grants c,
                 ctx_player_grants = []\<rparr>))"

subsection \<open>Rights on screens\<close>

record Place =
  place_group :: "int option"
  place_object :: "int option"

definition place_known :: "Place \<Rightarrow> bool" where
  "place_known p \<longleftrightarrow> place_group p \<noteq> None \<and> place_object p \<noteq> None"

record PlayerAccess =
  acc_role :: Role
  acc_grants :: "PlayerScopeGrant list"

definition unrestricted :: PlayerAccess where
  "unrestricted = \<lparr>acc_role = Admin, acc_grants = []\<rparr>"

definition isAdmin :: "PlayerAccess \<Rightarrow> bool" where "isAdmin a \<longleftrightarrow> acc_role a = Admin"
definition hasAnyGrant :: "PlayerAccess \<Rightarrow> bool" where "hasAnyGrant a \<longleftrightarrow> acc_grants a \<noteq> []"
definition operatorOrAbove :: "PlayerAccess \<Rightarrow> bool" where
  "operatorOrAbove a \<longleftrightarrow> acc_role a = Operator \<or> acc_role a = Admin"

definition groupGrant :: "PlayerAccess \<Rightarrow> int \<Rightarrow> PlayerScopeGrant option" where
  "groupGrant a gid = find (\<lambda>g. scope g = GroupScope \<and> scope_id g = gid) (acc_grants a)"

definition objectGrant :: "PlayerAccess \<Rightarrow> int \<Rightarrow> PlayerScopeGrant option" where
  "objectGrant a oid = find (\<lambda>g. scope g = ObjectScope \<and> scope_id g = oid) (acc_grants a)"

definition canViewWith :: "Role \<Rightarrow> PlayerScopeGrant list \<Rightarrow> Place \<Rightarrow> bool" where
  "canViewWith r grants p =
     (if r = Admin then True
      else if \<not> place_known p then False
      else list_ex (\<lambda>g. scope g = GroupScope \<and> scope_id g = the (place_group p)
             \<or> scope g = ObjectScope \<and> scope_id g = the (place_object p)) grants)"

definition canView :: "PlayerAccess \<Rightarrow> Place \<Rightarrow> bool" where
  "canView a p = canViewWith (acc_role a) (acc_grants a) p"

definition canCommandPlayer :: "PlayerAccess \<Rightarrow> Place \<Rightarrow> bool" where
  "canCommandPlayer a p = (if isAdmin a then True else operatorOrAbove a \<and> canView a p)"

text \<open>A mark of the group's right, or of the object's.\<close>

definition marked :: "(PlayerScopeGrant \<Rightarrow> bool) \<Rightarrow> PlayerScopeGrant option \<Rightarrow> bool" where
  "marked m g = (case g of None \<Rightarrow> False | Some x \<Rightarrow> m x)"

definition canCommandGroup :: "PlayerAccess \<Rightarrow> Place \<Rightarrow> bool" where
  "canCommandGroup a p =
     (if isAdmin a then True
      else if \<not> operatorOrAbove a \<or> \<not> place_known p then False
      else if marked can_command_group (groupGrant a (the (place_group p))) then True
      else marked (\<lambda>g. can_command_group g \<or> can_command_object g) (objectGrant a (the (place_object p))))"

definition canCommandObject :: "PlayerAccess \<Rightarrow> int \<Rightarrow> bool" where
  "canCommandObject a oid =
     (if isAdmin a then True else if \<not> operatorOrAbove a then False
      else marked can_command_object (objectGrant a oid))"

definition canCommandAll :: "PlayerAccess \<Rightarrow> bool" where "canCommandAll a = isAdmin a"

definition canMoveFrom :: "PlayerAccess \<Rightarrow> Place \<Rightarrow> bool" where
  "canMoveFrom a p =
     (if isAdmin a then True
      else if \<not> operatorOrAbove a \<or> \<not> place_known p then False
      else if marked can_move (groupGrant a (the (place_group p))) then True
      else marked can_move (objectGrant a (the (place_object p))))"

definition canMove :: "PlayerAccess \<Rightarrow> Place \<Rightarrow> Place \<Rightarrow> bool" where
  "canMove a from_place to_place =
     (if isAdmin a then True
      else if \<not> place_known from_place \<or> \<not> place_known to_place then False
      else if place_object from_place \<noteq> place_object to_place then False
      else canMoveFrom a from_place \<and> canMoveFrom a to_place)"

definition canViewAudit :: "PlayerAccess \<Rightarrow> Place \<Rightarrow> bool" where
  "canViewAudit a p =
     (if isAdmin a then True
      else if \<not> place_known p then False
      else if marked can_view_audit (groupGrant a (the (place_group p))) then True
      else marked can_view_audit (objectGrant a (the (place_object p))))"

definition canViewAuditObject :: "PlayerAccess \<Rightarrow> int \<Rightarrow> bool" where
  "canViewAuditObject a oid = (if isAdmin a then True else marked can_view_audit (objectGrant a oid))"

definition canSeeGroup :: "PlayerAccess \<Rightarrow> int \<Rightarrow> int \<Rightarrow> bool" where
  "canSeeGroup a gid oid = (if isAdmin a then True else groupGrant a gid \<noteq> None \<or> objectGrant a oid \<noteq> None)"

definition canSeeObject :: "PlayerAccess \<Rightarrow> int \<Rightarrow> bool" where
  "canSeeObject a oid \<longleftrightarrow> isAdmin a \<or> objectGrant a oid \<noteq> None"

definition seesObjectContaining :: "PlayerAccess \<Rightarrow> int \<Rightarrow> bool" where
  "seesObjectContaining a oid =
     (if canSeeObject a oid then True
      else list_ex (\<lambda>g. scope g = GroupScope \<and> scope_object g = oid) (acc_grants a))"

subsection \<open>The channel scope\<close>

record ChannelScope =
  show_all :: bool
  allowed_channels :: "int list"

definition allows :: "ChannelScope \<Rightarrow> int \<Rightarrow> bool" where
  "allows s channel = (if show_all s then True else channel \<in> set (allowed_channels s))"

definition makeChannelScope :: "RequestContext \<Rightarrow> ChannelScope" where
  "makeChannelScope ctx =
     (if ctx_role ctx = Admin \<or> ctx_role ctx = Operator then \<lparr>show_all = True, allowed_channels = []\<rparr>
      else \<lparr>show_all = False, allowed_channels = remdups_adj (sort (map grant_channel (ctx_channel_grants ctx)))\<rparr>)"
subsection \<open>Names and claims are read back\<close>

lemma names_roundtrip [simp]:
  "roleFromString (roleName r) = Some r" "sourceFromString (sourceName src) = Some src"
  "channelPermissionFromString (channelPermissionName p) = Some p"
  by (cases r; simp add: roleFromString_def) (cases src; simp add: sourceFromString_def; fail | cases p; simp add: channelPermissionFromString_def)+

lemma floorlog_2_eq:
  assumes "2 ^ k \<le> n" "n < 2 ^ Suc k"
  shows "floorlog 2 n = Suc k"
  using floorlog_ge_SucI [of 2 k n] floorlog_leI [of n 2 "Suc k"] assms by simp

lemma double_of_int_exact: "floorlog 2 (nat \<bar>v\<bar>) \<le> 53 \<Longrightarrow> double_of_int v = v"
  by (simp add: double_of_int_def Let_def sgn_if)

lemma double_of_int_small:
  assumes "\<bar>v\<bar> \<le> 2 ^ 53"
  shows "double_of_int v = v"
proof (cases "\<bar>v\<bar> = 2 ^ 53")
  case True
  then have n: "nat \<bar>v\<bar> = 9007199254740992" by simp
  have f: "floorlog 2 9007199254740992 = 54" using floorlog_2_eq [of 53 9007199254740992] by simp
  have "double_of_int v = sgn v * 9007199254740992"
    unfolding double_of_int_def n f Let_def by simp
  then show ?thesis using True by (auto simp: sgn_if split: if_splits)
next
  case False
  then have "nat \<bar>v\<bar> < 2 ^ 53" using assms by simp
  then show ?thesis using floorlog_leI [of "nat \<bar>v\<bar>" 2 53] by (intro double_of_int_exact) simp
qed

lemma cast_int64_of_int: "- (2 ^ 63) \<le> i \<Longrightarrow> i < 2 ^ 63 \<Longrightarrow> cast_int64 (of_int i) = i"
  by (simp add: cast_int64_def trunc_rat_def)

text \<open>The channel a grant is read back with, and that it is the channel granted up to \<open>2 ^ 53\<close>.\<close>

definition read_channel :: "int \<Rightarrow> int" where
  "read_channel cid = cast_int64 (of_int (double_of_int cid))"

lemma read_channel_small: "\<bar>cid\<bar> \<le> 2 ^ 53 \<Longrightarrow> read_channel cid = cid"
  by (simp add: read_channel_def double_of_int_small cast_int64_of_int abs_le_iff)

lemma read_channel_large: "read_channel (2 ^ 53 + 1) = 2 ^ 53" "read_channel (2 ^ 53 + 3) = 2 ^ 53 + 4"
  "read_channel (2 ^ 63 - 1) = - (2 ^ 63)"
proof -
  have f: "floorlog 2 9007199254740993 = 54" "floorlog 2 9007199254740995 = 54"
    "floorlog 2 9223372036854775807 = 63"
    using floorlog_2_eq [of 53 9007199254740993] floorlog_2_eq [of 53 9007199254740995]
      floorlog_2_eq [of 62 9223372036854775807] by simp_all
  show "read_channel (2 ^ 53 + 1) = 2 ^ 53" "read_channel (2 ^ 53 + 3) = 2 ^ 53 + 4"
    "read_channel (2 ^ 63 - 1) = - (2 ^ 63)"
    by (simp_all add: read_channel_def double_of_int_def cast_int64_def trunc_rat_def f)
qed

lemma grants_read_back:
  "grantsFromJson (grantsToJson gs) = map (\<lambda>g. g\<lparr>grant_channel := read_channel (grant_channel g)\<rparr>) gs"
proof -
  have "grant_item (JObj [(''cid'', JFloat (of_int (double_of_int (grant_channel g)))),
      (''perm'', JStr (channelPermissionName (grant_permission g)))])
    = Some (g\<lparr>grant_channel := read_channel (grant_channel g)\<rparr>)"
    for g by (cases g) (simp add: grant_item_def json_number_def read_channel_def)
  then show ?thesis
    by (induction gs) (simp_all add: grantsFromJson_def grantsToJson_def)
qed

lemma stoll_to_string:
  assumes "- (2 ^ 63) \<le> v" "v < 2 ^ 63"
  shows "stoll (std_to_string v) = Some v"
proof (cases "v < 0")
  case True
  note f = fmt0_digits [of "- v"]
  have m: "\<not> isspace (CHR ''-'')" by (simp add: isspace_def)
  define ds where "ds = fmt0 1 (- v)"
  have d: "ds \<noteq> []" "takeWhile isdigit ds = ds" "digits_value ds = - v" using f True by (simp_all add: ds_def)
  have "stoll (CHR ''-'' # ds) = Some v" using assms True m by (simp add: stoll_def Let_def d del: takeWhile_eq_all_conv)
  then show ?thesis using True by (simp add: ds_def std_to_string_def)
next
  case False
  note f = fmt0_digits [of v]
  obtain c cs where c: "fmt0 1 v = c # cs" using f(1) False by (cases "fmt0 1 v") auto
  with f(2) False have d: "isdigit c" "\<forall>x \<in> set cs. isdigit x" by auto
  have "c \<noteq> CHR ''+''" using d(1) by (auto simp: isdigit_def)
  moreover have "takeWhile isdigit cs = cs" using d(2) by simp
  moreover have "digits_value (c # cs) = v" "fmt0 1 v = c # cs" using f(3) False c by simp_all
  ultimately show ?thesis using False d(1) assms by (simp add: stoll_def std_to_string_def Let_def del: takeWhile_eq_all_conv One_nat_def)
qed

lemma issued_verified:
  assumes "- (2 ^ 63) \<le> uid" "uid < 2 ^ 63"
  shows "verify_claims (issued uid name r mcp gs jti now) =
    Some \<lparr>cl_user_id = uid, cl_username = name, cl_role = r, cl_must_change_password = mcp, cl_exp = now + 3600,
      cl_jti = jti, cl_channel_grants = map (\<lambda>g. g\<lparr>grant_channel := read_channel (grant_channel g)\<rparr>) gs\<rparr>"
  using stoll_to_string [OF assms] by (simp add: verify_claims_def issued_def grants_read_back)

subsection \<open>The decision\<close>

text \<open>Nothing is allowed without a rule, and beyond an open rule nothing without a live session.\<close>

lemma authorize_Allow:
  "fst (authorize r jwt tabs method path token channel) = Allow \<longleftrightarrow>
    (\<exists>rule. findRule r method path = Some rule \<and> (open_rule rule \<or>
      (token \<noteq> [] \<and> (\<exists>c. jwt_verify jwt token = Some c \<and> session_revoked tabs (cl_jti c) = Some None
        \<and> (cl_must_change_password c \<and> user_must_change tabs (cl_user_id c) \<noteq> Some False
             \<longrightarrow> endpoint_key method path = kSelfPasswordKey)
        \<and> roleRank (min_role rule) \<le> roleRank (cl_role c)
        \<and> (needs_channel_acl rule \<and> 0 \<le> channel \<and> cl_role c \<noteq> Admin
             \<longrightarrow> grants_cover (channel_perm rule) channel (cl_channel_grants c))))))"
  by (auto simp: authorize_def Let_def split: option.splits)

lemma authorize_context:
  assumes "authorize r jwt tabs method path token channel = (d, Some ctx)"
  shows "d = Allow \<and> (\<exists>c. jwt_verify jwt token = Some c \<and> ctx_user_id ctx = cl_user_id c \<and> ctx_role ctx = cl_role c
    \<and> ctx_channel_grants ctx = cl_channel_grants c)"
  using assms by (auto simp: authorize_def Let_def split: option.splits if_splits)

lemma revoked_session_rejected:
  assumes "jwt_verify jwt token = Some c" "session_revoked tabs (cl_jti c) = Some (Some when)"
    "findRule r method path = Some rule" "\<not> open_rule rule"
  shows "authorize r jwt tabs method path token channel = (Unauthorized, None)"
  using assms by (auto simp: authorize_def)

text \<open>A rule with parameters is kept beside an earlier one of the same key, which wins.\<close>

lemma find_snoc: "find p (xs @ ys) = (case find p xs of None \<Rightarrow> find p ys | Some x \<Rightarrow> Some x)"
  by (induction xs) auto

lemma second_pattern_ignored:
  assumes "find_char (CHR '' '') key = Some sp" "isPattern (drop (sp + 1) key)"
    "literal_rules r (endpoint_key method path) = None"
    "findRule (registerEndpoint key rule1 r) method path = Some rule"
  shows "findRule (registerEndpoint key rule2 (registerEndpoint key rule1 r)) method path = Some rule"
  using assms by (auto simp: registerEndpoint_def Let_def findRule_def find_snoc split: option.splits if_splits)

lemma second_literal_wins:
  assumes "find_char (CHR '' '') (endpoint_key method path) = Some (length method)" "\<not> isPattern path"
  shows "findRule (registerEndpoint (endpoint_key method path) rule r) method path = Some rule"
  using assms by (simp add: registerEndpoint_def findRule_def endpoint_key_def Let_def)

subsection \<open>Rights on screens\<close>

lemma marked_grant:
  "marked m (groupGrant a gid) \<Longrightarrow> \<exists>g \<in> set (acc_grants a). scope g = GroupScope \<and> scope_id g = gid \<and> m g"
  "marked m (objectGrant a gid) \<Longrightarrow> \<exists>g \<in> set (acc_grants a). scope g = ObjectScope \<and> scope_id g = gid \<and> m g"
  by (auto simp: marked_def groupGrant_def objectGrant_def find_Some_iff set_conv_nth split: option.splits)

lemma canView_iff:
  "canView a p \<longleftrightarrow> isAdmin a \<or> (place_known p \<and> (groupGrant a (the (place_group p)) \<noteq> None \<or> objectGrant a (the (place_object p)) \<noteq> None))"
  by (auto simp: canView_def canViewWith_def isAdmin_def groupGrant_def objectGrant_def find_None_iff list_ex_iff)

lemma marked_view:
  assumes "place_known p"
  shows "marked m (groupGrant a (the (place_group p))) \<Longrightarrow> canView a p"
    and "marked m (objectGrant a (the (place_object p))) \<Longrightarrow> canView a p"
  using assms by (auto simp: canView_iff marked_def split: option.splits)

lemma rights_view:
  "canCommandPlayer a p \<Longrightarrow> canView a p" "canCommandGroup a p \<Longrightarrow> canCommandPlayer a p"
  "canMoveFrom a p \<Longrightarrow> canCommandPlayer a p" "canViewAudit a p \<Longrightarrow> canView a p"
  by (auto simp: canCommandPlayer_def canCommandGroup_def canMoveFrom_def canViewAudit_def split: if_splits
      dest: marked_view) (auto simp: canView_iff)

lemma object_right_commands_groups:
  assumes "canCommandObject a oid" "place_object p = Some oid" "place_known p"
  shows "canCommandGroup a p"
  using assms by (auto simp: canCommandObject_def canCommandGroup_def marked_def split: if_splits option.splits)

lemma canMove_places: "canMove a p q \<Longrightarrow> canMoveFrom a p \<and> canMoveFrom a q \<and> (isAdmin a \<or> place_object p = place_object q)"
  by (auto simp: canMove_def canMoveFrom_def split: if_splits)

text \<open>With no right, and an unknown place: nothing, whatever the role below the administrator.\<close>

lemma no_grant_nothing:
  assumes "acc_role a \<noteq> Admin" "acc_grants a = []"
  shows "\<not> canView a p" "\<not> canCommandObject a oid" "\<not> canViewAuditObject a oid" "\<not> seesObjectContaining a oid"
    "\<not> canSeeGroup a gid oid" "\<not> canCommandAll a"
  using assms
  by (auto simp: canView_def canViewWith_def canCommandObject_def canViewAuditObject_def seesObjectContaining_def
      canSeeObject_def canSeeGroup_def canCommandAll_def isAdmin_def groupGrant_def objectGrant_def marked_def)

lemma unknown_place_nothing: "\<not> isAdmin a \<Longrightarrow> \<not> place_known p \<Longrightarrow> \<not> canView a p"
  by (simp add: canView_iff)

text \<open>One right for each scope: then the first right found is the right.\<close>

definition one_grant_each :: "PlayerScopeGrant list \<Rightarrow> bool" where
  "one_grant_each gs \<longleftrightarrow> distinct (map (\<lambda>g. (scope g, scope_id g)) gs)"

lemma find_unique:
  assumes "distinct (map k gs)" "g \<in> set gs"
  shows "find (\<lambda>x. k x = k g) gs = Some g"
  using assms by (induction gs) (auto simp: image_iff)

lemma marked_unique:
  assumes "one_grant_each (acc_grants a)"
  shows "marked m (groupGrant a gid) \<longleftrightarrow> (\<exists>g \<in> set (acc_grants a). scope g = GroupScope \<and> scope_id g = gid \<and> m g)"
    and "marked m (objectGrant a gid) \<longleftrightarrow> (\<exists>g \<in> set (acc_grants a). scope g = ObjectScope \<and> scope_id g = gid \<and> m g)"
proof -
  note u = find_unique [OF assms [unfolded one_grant_each_def]]
  have "marked m (groupGrant a gid)" if "g \<in> set (acc_grants a)" "scope g = GroupScope" "scope_id g = gid" "m g" for g
    using u [OF that(1)] that by (simp add: marked_def groupGrant_def)
  moreover have "marked m (objectGrant a gid)" if "g \<in> set (acc_grants a)" "scope g = ObjectScope" "scope_id g = gid" "m g" for g
    using u [OF that(1)] that by (simp add: marked_def objectGrant_def)
  ultimately show "marked m (groupGrant a gid) \<longleftrightarrow> (\<exists>g \<in> set (acc_grants a). scope g = GroupScope \<and> scope_id g = gid \<and> m g)"
    and "marked m (objectGrant a gid) \<longleftrightarrow> (\<exists>g \<in> set (acc_grants a). scope g = ObjectScope \<and> scope_id g = gid \<and> m g)"
    using marked_grant by blast+
qed

lemma scope_allows:
  "allows (makeChannelScope ctx) ch \<longleftrightarrow> ctx_role ctx \<noteq> Viewer \<or> (\<exists>g \<in> set (ctx_channel_grants ctx). grant_channel g = ch)"
  by (cases "ctx_role ctx") (auto simp: allows_def makeChannelScope_def)

section \<open>Properties\<close>

text \<open>C27: a request with a token as it was issued, whose session is not revoked, passes a rule that is not open
  exactly when no change of password is due or the request is that change (a change is due when the token says so
  and the user's row does not say otherwise), the role reaches the rule's and, where the rule is about a channel,
  the person is an administrator or holds a grant that covers the permission and is read back as that channel. The
  number of a channel is a \<open>double\<close> in the token, so a grant is read back as the channel granted when that is at
  most \<open>2 ^ 53\<close> in magnitude, and then holders of such grants reach exactly the channels granted to them; a larger
  number is rounded (lemma \<open>read_channel_large\<close>).\<close>

theorem issued_token_grants_exactly:
  assumes "findRule r method path = Some rule" "\<not> open_rule rule" "token \<noteq> []"
    "jwt token = Some (issued uid name ro mcp gs jti now)" "- (2 ^ 63) \<le> uid" "uid < 2 ^ 63"
    "session_revoked tabs jti = Some None"
  shows "(fst (authorize r jwt tabs method path token channel) = Allow \<longleftrightarrow>
      (mcp \<and> user_must_change tabs uid \<noteq> Some False \<longrightarrow> endpoint_key method path = kSelfPasswordKey) \<and>
      roleRank (min_role rule) \<le> roleRank ro \<and>
      (needs_channel_acl rule \<and> 0 \<le> channel \<and> ro \<noteq> Admin \<longrightarrow>
        (\<exists>g \<in> set gs. cast_int64 (of_int (double_of_int (grant_channel g))) = channel
          \<and> (channel_perm rule = Operate \<longrightarrow> grant_permission g = Operate))))
    \<and> ((\<forall>g \<in> set gs. \<bar>grant_channel g\<bar> \<le> 2 ^ 53) \<longrightarrow>
      (fst (authorize r jwt tabs method path token channel) = Allow \<longleftrightarrow>
        (mcp \<and> user_must_change tabs uid \<noteq> Some False \<longrightarrow> endpoint_key method path = kSelfPasswordKey) \<and>
        roleRank (min_role rule) \<le> roleRank ro \<and>
        (needs_channel_acl rule \<and> 0 \<le> channel \<and> ro \<noteq> Admin \<longrightarrow>
          (\<exists>g \<in> set gs. grant_channel g = channel
            \<and> (channel_perm rule = Operate \<longrightarrow> grant_permission g = Operate)))))"
proof -
  have "jwt_verify jwt token = verify_claims (issued uid name ro mcp gs jti now)"
    using assms(3,4) by (simp add: jwt_verify_def)
  with issued_verified [OF assms(5,6)] assms(1,2,3,7)
  have "fst (authorize r jwt tabs method path token channel) = Allow \<longleftrightarrow>
      (mcp \<and> user_must_change tabs uid \<noteq> Some False \<longrightarrow> endpoint_key method path = kSelfPasswordKey) \<and>
      roleRank (min_role rule) \<le> roleRank ro \<and>
      (needs_channel_acl rule \<and> 0 \<le> channel \<and> ro \<noteq> Admin \<longrightarrow>
        (\<exists>g \<in> set gs. read_channel (grant_channel g) = channel
          \<and> (channel_perm rule = Operate \<longrightarrow> grant_permission g = Operate)))"
    by (simp add: authorize_Allow grants_cover_def list_ex_iff)
  then show ?thesis
    by (auto simp: read_channel_def [symmetric] read_channel_small)
qed

theorem issued_token_grants_exactly_witness:
  "let r = registerEndpoint ''POST /api/channels/{id}/play''
        \<lparr>min_role = Operator, needs_channel_acl = True, channel_perm = Operate, open_rule = False\<rparr> clearRules;
      jwt = (\<lambda>_. Some (issued 5 ''op'' Operator False [\<lparr>grant_channel = 3, grant_permission = View\<rparr>, \<lparr>grant_channel = 4, grant_permission = Operate\<rparr>] ''j'' 100));
      tabs = \<lparr>session_revoked = [''j'' \<mapsto> None], user_must_change = Map.empty\<rparr> in
    fst (authorize r jwt tabs ''POST'' ''/api/channels/3/play'' ''t'' 3) \<noteq> Allow
    \<and> fst (authorize r jwt tabs ''POST'' ''/api/channels/4/play'' ''t'' 4) = Allow"
proof -
  let ?rule = "\<lparr>min_role = Operator, needs_channel_acl = True, channel_perm = Operate, open_rule = False\<rparr>"
  let ?r = "registerEndpoint ''POST /api/channels/{id}/play'' ?rule clearRules"
  have f: "findRule ?r ''POST'' ''/api/channels/3/play'' = Some ?rule"
    "findRule ?r ''POST'' ''/api/channels/4/play'' = Some ?rule" by code_simp+
  note granted = issued_token_grants_exactly [where jwt = "\<lambda>_. Some (issued 5 ''op'' Operator False [\<lparr>grant_channel = 3, grant_permission = View\<rparr>, \<lparr>grant_channel = 4, grant_permission = Operate\<rparr>] ''j'' 100)" and uid = 5
      and name = "''op''" and ro = Operator and mcp = False and jti = "''j''" and now = 100 and token = "''t''"
      and gs = "[\<lparr>grant_channel = 3, grant_permission = View\<rparr>, \<lparr>grant_channel = 4, grant_permission = Operate\<rparr>]"
      and tabs = "\<lparr>session_revoked = [''j'' \<mapsto> None], user_must_change = Map.empty\<rparr>"]
  show ?thesis
    using granted [OF f(1), of 3] granted [OF f(2), of 4] by (simp add: double_of_int_small cast_int64_def trunc_rat_def)
qed

text \<open>The rights on screens are ordered: commanding a group implies commanding the screen, that and moving
  it imply seeing it, reading its audit implies seeing it, commanding an object implies commanding each of its
  groups, and a move needs both ends and, below the administrator, one object; who is not an administrator sees
  nothing without a right or at a place that is not fully known.\<close>

lemma rights_hierarchy:
"(canCommandGroup a p \<longrightarrow> canCommandPlayer a p) \<and> (canMoveFrom a p \<longrightarrow> canCommandPlayer a p)
    \<and> (canCommandPlayer a p \<longrightarrow> canView a p) \<and> (canViewAudit a p \<longrightarrow> canView a p)
    \<and> (canCommandObject a oid \<and> place_object p = Some oid \<and> place_known p \<longrightarrow> canCommandGroup a p)
    \<and> (canMove a p q \<longrightarrow> canMoveFrom a p \<and> canMoveFrom a q \<and> (isAdmin a \<or> place_object p = place_object q))
    \<and> (canView a p \<longrightarrow> isAdmin a \<or> hasAnyGrant a \<and> place_known p)"
  using rights_view object_right_commands_groups canMove_places no_grant_nothing(1) unknown_place_nothing
  unfolding hasAnyGrant_def isAdmin_def by blast

end
