(* ===== verification/EventBus.thy ===== *)
theory EventBus
  imports Json "HOL-Library.Sublist"
begin

text \<open>
  The event bus, \<open>events/EventBus.cpp\<close>: publishing to bounded queues, one for each subscriber, and
  the ring of the last events that a reconnecting subscriber is given again. Subscriptions live in a
  store under their handle; a handle that is not in the store is an expired \<open>weak_ptr\<close>. Event ids are
  mathematical naturals and the clock is an argument. A publish is given whole (\<open>publish_event\<close>) and as
  the three steps of its thread, which interleave with everything else (\<open>act_step\<close>).
\<close>

datatype EventType = ChannelStateChange | OutputStateChange | ClipChange | HealthChange | ScheduleActive
  | PluginStatusChange | StressRunStarted | StressRunFinished | GatewayStateChange | PlayerRegistered
  | PlayerOnline | PlayerOffline | PlayerHeartbeat | PlayerVersionChanged | PlayerCommand | PlayerCertStage
  | PlayerCommandJob | PlayersBrokerStatus | PlayersServerCert | PlayersRenewAlarm | AuditEvent

fun eventTypeName :: "EventType \<Rightarrow> string" where
  "eventTypeName ChannelStateChange = ''channel_state_change''"
| "eventTypeName OutputStateChange = ''output_state_change''"
| "eventTypeName ClipChange = ''clip_change''"
| "eventTypeName HealthChange = ''health_change''"
| "eventTypeName ScheduleActive = ''schedule_active''"
| "eventTypeName PluginStatusChange = ''plugin_status_change''"
| "eventTypeName StressRunStarted = ''stress_run_started''"
| "eventTypeName StressRunFinished = ''stress_run_finished''"
| "eventTypeName GatewayStateChange = ''gateway_state_change''"
| "eventTypeName PlayerRegistered = ''player_registered''"
| "eventTypeName PlayerOnline = ''player_online''"
| "eventTypeName PlayerOffline = ''player_offline''"
| "eventTypeName PlayerHeartbeat = ''player_heartbeat''"
| "eventTypeName PlayerVersionChanged = ''player_version_changed''"
| "eventTypeName PlayerCommand = ''player_command''"
| "eventTypeName PlayerCertStage = ''player_cert_stage''"
| "eventTypeName PlayerCommandJob = ''player_command_job''"
| "eventTypeName PlayersBrokerStatus = ''players_broker_status''"
| "eventTypeName PlayersServerCert = ''players_server_cert''"
| "eventTypeName PlayersRenewAlarm = ''players_renew_alarm''"
| "eventTypeName AuditEvent = ''audit_event''"

definition parseEventType :: "string \<Rightarrow> EventType option" where
  "parseEventType s =
     (if s = ''channel_state_change'' then Some ChannelStateChange
      else if s = ''output_state_change'' then Some OutputStateChange
      else if s = ''clip_change'' then Some ClipChange
      else if s = ''health_change'' then Some HealthChange
      else if s = ''schedule_active'' then Some ScheduleActive
      else if s = ''plugin_status_change'' then Some PluginStatusChange
      else if s = ''stress_run_started'' then Some StressRunStarted
      else if s = ''stress_run_finished'' then Some StressRunFinished
      else if s = ''gateway_state_change'' then Some GatewayStateChange
      else if s = ''player_registered'' then Some PlayerRegistered
      else if s = ''player_online'' then Some PlayerOnline
      else if s = ''player_offline'' then Some PlayerOffline
      else if s = ''player_heartbeat'' then Some PlayerHeartbeat
      else if s = ''player_version_changed'' then Some PlayerVersionChanged
      else if s = ''player_command'' then Some PlayerCommand
      else if s = ''player_cert_stage'' then Some PlayerCertStage
      else if s = ''player_command_job'' then Some PlayerCommandJob
      else if s = ''players_broker_status'' then Some PlayersBrokerStatus
      else if s = ''players_server_cert'' then Some PlayersServerCert
      else if s = ''players_renew_alarm'' then Some PlayersRenewAlarm
      else if s = ''audit_event'' then Some AuditEvent
      else None)"

lemma eventType_roundtrip: "parseEventType (eventTypeName t) = Some t"
  by (cases t) (simp_all add: parseEventType_def)

record Event =
  ev_id :: nat
  ev_ts :: int
  ev_type :: EventType
  ev_channel :: int
  ev_payload :: json

subsection \<open>A subscription\<close>

record Subscription =
  sub_queue :: "Event list"
  sub_capacity :: nat
  sub_overflowed :: bool
  sub_closed :: bool
  sub_last_id :: nat

definition new_Subscription :: "nat \<Rightarrow> Subscription" where
  "new_Subscription cap = \<lparr>sub_queue = [], sub_capacity = cap, sub_overflowed = False, sub_closed = False,
     sub_last_id = 0\<rparr>"

text \<open>\<open>pop_front\<close> of an empty queue is undefined: \<open>None\<close>.\<close>

definition enqueue :: "Event \<Rightarrow> Subscription \<Rightarrow> Subscription option" where
  "enqueue e s =
     (if sub_closed s then Some s
      else if sub_capacity s \<le> length (sub_queue s) then
        (case sub_queue s of [] \<Rightarrow> None
         | _ # q \<Rightarrow> Some (s\<lparr>sub_overflowed := True, sub_queue := q @ [e], sub_last_id := ev_id e\<rparr>))
      else Some (s\<lparr>sub_queue := sub_queue s @ [e], sub_last_id := ev_id e\<rparr>))"

text \<open>What \<open>drain\<close> returns when it does, after any wait.\<close>

definition drain :: "Subscription \<Rightarrow> Event list \<times> Subscription" where
  "drain s = (sub_queue s, s\<lparr>sub_queue := []\<rparr>)"

definition wakeUp :: "Subscription \<Rightarrow> Subscription" where
  "wakeUp s = s\<lparr>sub_closed := True\<rparr>"

subsection \<open>The bus\<close>

record bus =
  bus_subs :: "nat list"
  replay :: "Event list"
  replay_size :: nat
  per_sub_capacity :: nat
  next_event_id :: nat
  bus_heap :: "nat \<rightharpoonup> Subscription"
  next_handle :: nat

definition new_EventBus :: "nat \<Rightarrow> nat \<Rightarrow> bus" where
  "new_EventBus rsize cap = \<lparr>bus_subs = [], replay = [], replay_size = rsize, per_sub_capacity = cap,
     next_event_id = 1, bus_heap = Map.empty, next_handle = 0\<rparr>"

definition last_n :: "nat \<Rightarrow> 'a list \<Rightarrow> 'a list" where
  "last_n n xs = drop (length xs - n) xs"

fun enqueue_all :: "Event \<Rightarrow> nat list \<Rightarrow> (nat \<rightharpoonup> Subscription) \<Rightarrow> (nat \<rightharpoonup> Subscription) option" where
  "enqueue_all e [] h = Some h"
| "enqueue_all e (x # xs) h =
     (case h x of None \<Rightarrow> enqueue_all e xs h
      | Some s \<Rightarrow> (case enqueue e s of None \<Rightarrow> None | Some s1 \<Rightarrow> enqueue_all e xs (h(x \<mapsto> s1))))"

text \<open>
  \<open>publish\<close> is three steps of its thread. It takes the next id and the time, with no lock; then, under
  the lock, it appends the event to the ring, prunes the subscriptions that are gone and takes the list
  of the others; then, without the lock, it hands the event to each of these. \<open>publish_event\<close> is the
  three with nobody in between; \<open>act_step\<close> below interleaves them.
\<close>

definition take_event :: "EventType \<Rightarrow> int \<Rightarrow> json \<Rightarrow> int \<Rightarrow> bus \<Rightarrow> Event \<times> bus" where
  "take_event ty ch payload now b =
     (\<lparr>ev_id = next_event_id b, ev_ts = now, ev_type = ty, ev_channel = ch, ev_payload = payload\<rparr>,
      b\<lparr>next_event_id := next_event_id b + 1\<rparr>)"

definition append_event :: "Event \<Rightarrow> bus \<Rightarrow> nat list \<times> bus" where
  "append_event e b =
     (let live = filter (\<lambda>x. bus_heap b x \<noteq> None) (bus_subs b) in
      (live, b\<lparr>replay := last_n (replay_size b) (replay b @ [e]), bus_subs := live\<rparr>))"

definition publish_event :: "EventType \<Rightarrow> int \<Rightarrow> json \<Rightarrow> int \<Rightarrow> bus \<Rightarrow> (Event \<times> bus) option" where
  "publish_event ty ch payload now b =
     (let (e, b1) = take_event ty ch payload now b; (live, b2) = append_event e b1 in
      case enqueue_all e live (bus_heap b2) of None \<Rightarrow> None
      | Some h \<Rightarrow> Some (e, b2\<lparr>bus_heap := h\<rparr>))"

lemma publish_event_alt:
  "publish_event ty ch payload now b =
     (let e = \<lparr>ev_id = next_event_id b, ev_ts = now, ev_type = ty, ev_channel = ch, ev_payload = payload\<rparr>;
          live = filter (\<lambda>x. bus_heap b x \<noteq> None) (bus_subs b) in
      case enqueue_all e live (bus_heap b) of None \<Rightarrow> None
      | Some h \<Rightarrow> Some (e, b\<lparr>next_event_id := next_event_id b + 1,
          replay := last_n (replay_size b) (replay b @ [e]), bus_subs := live, bus_heap := h\<rparr>))"
  by (simp add: publish_event_def take_event_def append_event_def Let_def split: option.splits)

fun replay_into :: "nat \<Rightarrow> Event list \<Rightarrow> Subscription \<Rightarrow> Subscription option" where
  "replay_into since [] s = Some s"
| "replay_into since (e # es) s =
     (if since < ev_id e then (case enqueue e s of None \<Rightarrow> None | Some s1 \<Rightarrow> replay_into since es s1)
      else replay_into since es s)"

definition subscribe :: "nat option \<Rightarrow> nat option \<Rightarrow> bus \<Rightarrow> (nat \<times> bus) option" where
  "subscribe since cap b =
     (let s0 = new_Subscription (case cap of None \<Rightarrow> per_sub_capacity b | Some c \<Rightarrow> c) in
      case (case since of None \<Rightarrow> Some s0 | Some k \<Rightarrow> replay_into k (replay b) s0) of
        None \<Rightarrow> None
      | Some s \<Rightarrow> Some (next_handle b, b\<lparr>bus_heap := (bus_heap b)(next_handle b \<mapsto> s),
          bus_subs := bus_subs b @ [next_handle b], next_handle := next_handle b + 1\<rparr>))"

definition subscriberCount :: "bus \<Rightarrow> nat" where
  "subscriberCount b = length (filter (\<lambda>x. bus_heap b x \<noteq> None) (bus_subs b))"

definition lastEventId :: "bus \<Rightarrow> nat" where "lastEventId b = next_event_id b - 1"

subsection \<open>Histories\<close>

text \<open>What happens on the bus, and what comes of it: the events published, and what \<open>Drain\<close> returned.\<close>

datatype bus_op = Publish EventType int json int | Subscribe "nat option" "nat option" | Drain nat | WakeUp nat
  | DropSub nat

fun bus_step :: "bus_op \<Rightarrow> bus \<Rightarrow> (Event list \<times> Event list \<times> bus) option" where
  "bus_step (Publish ty ch pl now) b = map_option (\<lambda>(e, b1). ([e], [], b1)) (publish_event ty ch pl now b)"
| "bus_step (Subscribe since cap) b = map_option (\<lambda>(h, b1). ([], [], b1)) (subscribe since cap b)"
| "bus_step (Drain h) b =
     (case bus_heap b h of None \<Rightarrow> None
      | Some s \<Rightarrow> Some ([], fst (drain s), b\<lparr>bus_heap := (bus_heap b)(h \<mapsto> snd (drain s))\<rparr>))"
| "bus_step (WakeUp h) b =
     (case bus_heap b h of None \<Rightarrow> None | Some s \<Rightarrow> Some ([], [], b\<lparr>bus_heap := (bus_heap b)(h \<mapsto> wakeUp s)\<rparr>))"
| "bus_step (DropSub h) b = Some ([], [], b\<lparr>bus_heap := (bus_heap b)(h := None)\<rparr>)"

text \<open>The events published, and the events the subscriber \<open>h\<close> has drained.\<close>

fun bus_run :: "nat \<Rightarrow> bus_op list \<Rightarrow> bus \<Rightarrow> (Event list \<times> Event list \<times> bus) option" where
  "bus_run h [] b = Some ([], [], b)"
| "bus_run h (x # xs) b =
     (case bus_step x b of None \<Rightarrow> None
      | Some (ps, ds, b1) \<Rightarrow>
        (case bus_run h xs b1 of None \<Rightarrow> None
         | Some (ps1, ds1, b2) \<Rightarrow> Some (ps @ ps1, (if x = Drain h then ds else []) @ ds1, b2)))"

definition bus_ok :: "bus \<Rightarrow> bool" where
  "bus_ok b \<longleftrightarrow> distinct (bus_subs b) \<and> (\<forall>x \<in> set (bus_subs b). x < next_handle b)
     \<and> (\<forall>x. next_handle b \<le> x \<longrightarrow> bus_heap b x = None)
     \<and> length (replay b) \<le> replay_size b \<and> sorted_wrt (\<lambda>d e. ev_id d < ev_id e) (replay b)
     \<and> (\<forall>e \<in> set (replay b). ev_id e < next_event_id b)"

subsection \<open>Queues are bounded\<close>

lemma enqueue_fields:
  assumes "enqueue e s = Some s1"
  shows "sub_capacity s1 = sub_capacity s" "sub_closed s1 = sub_closed s"
    "length (sub_queue s) \<le> sub_capacity s \<Longrightarrow> length (sub_queue s1) \<le> sub_capacity s"
    "sub_overflowed s \<Longrightarrow> sub_overflowed s1"
    "\<not> sub_closed s \<Longrightarrow> \<not> sub_overflowed s1 \<Longrightarrow> sub_queue s1 = sub_queue s @ [e] \<and> \<not> sub_overflowed s"
    "\<not> sub_closed s \<Longrightarrow> sub_queue s1 = last_n (sub_capacity s) (sub_queue s @ [e]) \<or> sub_capacity s < length (sub_queue s)"
  using assms by (auto simp: enqueue_def last_n_def split: if_splits list.splits)

lemma enqueue_defined: "0 < sub_capacity s \<Longrightarrow> \<exists>s1. enqueue e s = Some s1"
  by (auto simp: enqueue_def split: list.splits)

lemma capacity_zero_undefined: "enqueue e (new_Subscription 0) = None"
  by (simp add: enqueue_def new_Subscription_def)

lemma enqueue_all_at:
  assumes "enqueue_all e xs h = Some h1" "distinct xs"
  shows "h1 x = (if x \<in> set xs then Option.bind (h x) (enqueue e) else h x)"
  using assms
proof (induction xs arbitrary: h)
  case (Cons y ys)
  show ?case
  proof (cases "h y")
    case None
    with Cons show ?thesis by auto
  next
    case (Some s)
    with Cons.prems obtain s1 where s1: "enqueue e s = Some s1" "enqueue_all e ys (h(y \<mapsto> s1)) = Some h1"
      by (auto split: option.splits)
    from Cons.IH [OF s1(2)] Cons.prems(2) s1(1) Some show ?thesis by auto
  qed
qed simp

lemma last_n_simps [simp]: "length (last_n n xs) = min n (length xs)" "last_n n [] = []"
  by (auto simp: last_n_def min_def)

lemma set_last_n: "set (last_n n xs) \<subseteq> set xs"
  by (simp add: last_n_def set_drop_subset)

lemma sorted_last_n: "sorted_wrt P xs \<Longrightarrow> sorted_wrt P (last_n n xs)"
  by (simp add: last_n_def)

lemma publish_ok:
  assumes "bus_ok b" "publish_event ty ch pl now b = Some (e, b1)"
  shows "bus_ok b1"
proof -
  obtain h where h: "enqueue_all e (filter (\<lambda>x. bus_heap b x \<noteq> None) (bus_subs b)) (bus_heap b) = Some h"
    and b1: "b1 = b\<lparr>next_event_id := next_event_id b + 1, replay := last_n (replay_size b) (replay b @ [e]),
      bus_subs := filter (\<lambda>x. bus_heap b x \<noteq> None) (bus_subs b), bus_heap := h\<rparr>" and e: "ev_id e = next_event_id b"
    using assms(2) by (auto simp: publish_event_alt Let_def split: option.splits)
  have d: "distinct (filter (\<lambda>x. bus_heap b x \<noteq> None) (bus_subs b))" using assms(1) by (simp add: bus_ok_def)
  have "h x = None" if "next_handle b \<le> x" for x
    using enqueue_all_at [OF h d, of x] assms(1) that by (auto simp: bus_ok_def)
  moreover have "sorted_wrt (\<lambda>d e. ev_id d < ev_id e) (last_n (replay_size b) (replay b @ [e]))"
    using assms(1) e by (intro sorted_last_n) (auto simp: bus_ok_def sorted_wrt_append)
  moreover have "\<forall>x \<in> set (last_n (replay_size b) (replay b @ [e])). ev_id x < next_event_id b + 1"
    using set_last_n assms(1) e by (fastforce simp: bus_ok_def)
  ultimately show ?thesis using assms(1) d by (simp add: bus_ok_def b1)
qed

lemma bus_step_ok: "bus_ok b \<Longrightarrow> bus_step x b = Some (ps, ds, b1) \<Longrightarrow> bus_ok b1"
proof (cases x)
  case (Publish ty ch pl now)
  then show "bus_ok b \<Longrightarrow> bus_step x b = Some (ps, ds, b1) \<Longrightarrow> bus_ok b1" by (auto dest: publish_ok)
next
  case (Subscribe since cap)
  then show "bus_ok b \<Longrightarrow> bus_step x b = Some (ps, ds, b1) \<Longrightarrow> bus_ok b1"
    by (fastforce simp: subscribe_def bus_ok_def Let_def split: option.splits)
qed (auto simp: bus_ok_def drain_def split: option.splits if_splits)

subsection \<open>What a subscriber receives\<close>

text \<open>One step, for a subscriber that stays.\<close>

lemma enqueue_received:
  assumes "enqueue e s = Some s1" "\<not> sub_closed s" "length (sub_queue s) \<le> sub_capacity s"
  shows "\<not> sub_closed s1 \<and> sub_capacity s1 = sub_capacity s \<and> length (sub_queue s1) \<le> sub_capacity s
    \<and> (sub_overflowed s \<longrightarrow> sub_overflowed s1) \<and> subseq (sub_queue s1) (sub_queue s @ [e])
    \<and> (\<not> sub_overflowed s1 \<longrightarrow> sub_queue s1 = sub_queue s @ [e])"
  using assms by (auto simp: enqueue_def split: if_splits list.splits intro: subseq_Cons')

lemma enqueue_all_defined:
  "enqueue_all e xs hh = Some hp \<Longrightarrow> distinct xs \<Longrightarrow> x \<in> set xs \<Longrightarrow> hh x = Some s \<Longrightarrow> enqueue e s \<noteq> None"
proof (induction xs arbitrary: hh)
  case (Cons y ys)
  show ?case
  proof (cases "x = y")
    case False
    from Cons.prems(1) obtain h1 where "enqueue_all e ys h1 = Some hp" "h1 x = hh x"
      using False by (auto split: option.splits)
    with Cons.IH [of h1] Cons.prems False show ?thesis by auto
  qed (use Cons.prems in \<open>auto split: option.splits\<close>)
qed simp

lemma bus_step_received:
  assumes "bus_step x b = Some (ps, ds, b1)" "bus_ok b" "bus_heap b h = Some s" "h \<in> set (bus_subs b)"
    "\<not> sub_closed s" "length (sub_queue s) \<le> sub_capacity s" "x \<noteq> DropSub h" "x \<noteq> WakeUp h"
  shows "\<exists>s1. bus_heap b1 h = Some s1 \<and> h \<in> set (bus_subs b1) \<and> \<not> sub_closed s1
    \<and> sub_capacity s1 = sub_capacity s \<and> length (sub_queue s1) \<le> sub_capacity s
    \<and> (sub_overflowed s \<longrightarrow> sub_overflowed s1)
    \<and> subseq ((if x = Drain h then ds else []) @ sub_queue s1) (sub_queue s @ ps)
    \<and> (\<not> sub_overflowed s1 \<longrightarrow> (if x = Drain h then ds else []) @ sub_queue s1 = sub_queue s @ ps)"
proof (cases x)
  case (Publish ty ch pl now)
  then obtain e hp where hp: "enqueue_all e (filter (\<lambda>x. bus_heap b x \<noteq> None) (bus_subs b)) (bus_heap b) = Some hp"
    and r: "ps = [e]" "bus_heap b1 = hp" "bus_subs b1 = filter (\<lambda>x. bus_heap b x \<noteq> None) (bus_subs b)"
    using assms(1) by (auto simp: publish_event_alt Let_def split: option.splits)
  have d: "distinct (filter (\<lambda>x. bus_heap b x \<noteq> None) (bus_subs b))" using assms(2) by (simp add: bus_ok_def)
  have at: "hp h = enqueue e s" using enqueue_all_at [OF hp d, of h] assms(3,4) by simp
  show ?thesis
  proof (cases "enqueue e s")
    case None
    then show ?thesis using enqueue_all_defined [OF hp d, of h s] assms(3,4) by simp
  next
    case (Some s1)
    from enqueue_received [OF this assms(5,6)] Some at r Publish assms(3,4) show ?thesis by simp
  qed
next
  case (Subscribe since cap)
  moreover have "h \<noteq> next_handle b" using assms(2,4) by (auto simp: bus_ok_def)
  ultimately show ?thesis using assms by (auto simp: subscribe_def Let_def split: option.splits)
next
  case (Drain k)
  then show ?thesis using assms by (auto simp: drain_def split: option.splits)
next
  case (WakeUp k)
  then show ?thesis using assms by (auto split: option.splits)
next
  case (DropSub k)
  then show ?thesis using assms by auto
qed

lemma bus_run_received:
  assumes "bus_run h ops b = Some (ps, ds, b1)" "bus_ok b" "bus_heap b h = Some s" "h \<in> set (bus_subs b)"
    "\<not> sub_closed s" "length (sub_queue s) \<le> sub_capacity s" "DropSub h \<notin> set ops" "WakeUp h \<notin> set ops"
  shows "\<exists>s1. bus_heap b1 h = Some s1 \<and> length (sub_queue s1) \<le> sub_capacity s
    \<and> (sub_overflowed s \<longrightarrow> sub_overflowed s1) \<and> subseq (ds @ sub_queue s1) (sub_queue s @ ps)
    \<and> (\<not> sub_overflowed s1 \<longrightarrow> ds @ sub_queue s1 = sub_queue s @ ps)"
  using assms
proof (induction ops arbitrary: b s ps ds)
  case (Cons x ops)
  from Cons.prems(1) obtain p1 d1 bb p2 d2 where
    st: "bus_step x b = Some (p1, d1, bb)" and rn: "bus_run h ops bb = Some (p2, d2, b1)"
    and e: "ps = p1 @ p2" "ds = (if x = Drain h then d1 else []) @ d2"
    by (auto split: option.splits prod.splits)
  have ne: "x \<noteq> DropSub h" "x \<noteq> WakeUp h" "DropSub h \<notin> set ops" "WakeUp h \<notin> set ops" using Cons.prems(7,8) by auto
  let ?d = "if x = Drain h then d1 else []"
  obtain s1 where s1: "bus_heap bb h = Some s1" "h \<in> set (bus_subs bb)" "\<not> sub_closed s1"
      "sub_capacity s1 = sub_capacity s" "length (sub_queue s1) \<le> sub_capacity s1"
      "sub_overflowed s \<longrightarrow> sub_overflowed s1" "subseq (?d @ sub_queue s1) (sub_queue s @ p1)"
      "\<not> sub_overflowed s1 \<longrightarrow> ?d @ sub_queue s1 = sub_queue s @ p1"
    using bus_step_received [OF st Cons.prems(2-6) ne(1,2)] by metis
  have ok: "bus_ok bb" by (rule bus_step_ok [OF Cons.prems(2) st])
  obtain s2 where s2: "bus_heap b1 h = Some s2" "length (sub_queue s2) \<le> sub_capacity s1"
      "sub_overflowed s1 \<longrightarrow> sub_overflowed s2" "subseq (d2 @ sub_queue s2) (sub_queue s1 @ p2)"
      "\<not> sub_overflowed s2 \<longrightarrow> d2 @ sub_queue s2 = sub_queue s1 @ p2"
    using Cons.IH [OF rn ok s1(1,2,3,5) ne(3,4)] by blast
  have "subseq (?d @ (d2 @ sub_queue s2)) (?d @ (sub_queue s1 @ p2))"
    using s2(4) by (simp only: subseq_append')
  also have "subseq (?d @ (sub_queue s1 @ p2)) (sub_queue s @ p1 @ p2)"
    using list_emb_append_mono [OF s1(7) subseq_order.refl [of p2]] by (simp only: append_assoc)
  finally have sub: "subseq (?d @ d2 @ sub_queue s2) (sub_queue s @ p1 @ p2)" .
  have "?d @ d2 @ sub_queue s2 = sub_queue s @ p1 @ p2" if "\<not> sub_overflowed s2"
  proof -
    have "d2 @ sub_queue s2 = sub_queue s1 @ p2" using s2(5) that by simp
    then have "?d @ d2 @ sub_queue s2 = (?d @ sub_queue s1) @ p2" by (simp only: append_assoc)
    also have "\<dots> = sub_queue s @ p1 @ p2" using s1(8) s2(3) that by (metis append_assoc)
    finally show ?thesis .
  qed
  with sub s1(4,6) s2(1-3) show ?case unfolding e append_assoc by auto
qed simp

subsection \<open>Reconnecting\<close>

text \<open>The bus after a history: its ring holds the last of it, and ids count from one.\<close>

definition follows :: "Event list \<Rightarrow> bus \<Rightarrow> bool" where
  "follows hist b \<longleftrightarrow> replay b = last_n (replay_size b) hist \<and> next_event_id b = length hist + 1
     \<and> map ev_id hist = [1..<length hist + 1]"







subsection \<open>Publishing from several threads\<close>

text \<open>
  Threads in the middle of \<open>publish\<close>: one that has its id and waits for the lock, one that has appended
  and has subscriptions left to serve. An action is a step of such a thread, or a whole operation of
  another one. A subscription its owner has dropped is served without effect. The run answers the
  events in the order they entered the ring.
\<close>

datatype publisher = Took Event | Serves Event "nat list"

datatype bus_act = TakeId nat EventType int json int | AppendRing nat | ServeNext nat | Whole bus_op

fun act_step :: "bus_act \<Rightarrow> bus \<Rightarrow> (nat \<rightharpoonup> publisher) \<Rightarrow> (Event list \<times> bus \<times> (nat \<rightharpoonup> publisher)) option" where
  "act_step (TakeId t ty ch pl now) b pubs =
     (if pubs t \<noteq> None then None
      else let (e, b1) = take_event ty ch pl now b in Some ([], b1, pubs(t \<mapsto> Took e)))"
| "act_step (AppendRing t) b pubs =
     (case pubs t of Some (Took e) \<Rightarrow>
        (let (live, b1) = append_event e b in Some ([e], b1, pubs(t \<mapsto> Serves e live)))
      | _ \<Rightarrow> None)"
| "act_step (ServeNext t) b pubs =
     (case pubs t of Some (Serves e xs) \<Rightarrow>
        (case xs of [] \<Rightarrow> Some ([], b, pubs(t := None))
         | x # ys \<Rightarrow> (case bus_heap b x of None \<Rightarrow> Some ([], b, pubs(t \<mapsto> Serves e ys))
           | Some s \<Rightarrow> map_option (\<lambda>s1. ([], b\<lparr>bus_heap := (bus_heap b)(x \<mapsto> s1)\<rparr>, pubs(t \<mapsto> Serves e ys)))
               (enqueue e s)))
      | _ \<Rightarrow> None)"
| "act_step (Whole x) b pubs = map_option (\<lambda>(ps, ds, b1). (ps, b1, pubs)) (bus_step x b)"

fun act_run :: "bus_act list \<Rightarrow> bus \<Rightarrow> (nat \<rightharpoonup> publisher) \<Rightarrow> (Event list \<times> bus \<times> (nat \<rightharpoonup> publisher)) option" where
  "act_run [] b pubs = Some ([], b, pubs)"
| "act_run (x # xs) b pubs =
     (case act_step x b pubs of None \<Rightarrow> None
      | Some (ps, b1, pubs1) \<Rightarrow> map_option (\<lambda>(ps1, r). (ps @ ps1, r)) (act_run xs b1 pubs1))"


















text \<open>
  Two threads that have taken the ids \<open>1\<close> and \<open>2\<close> may append in the other order: then the ring and the
  queues hold \<open>2\<close> before \<open>1\<close>, and a client that reconnects with the last id it has seen, \<open>2\<close>, is not
  given \<open>1\<close>.
\<close>

lemma late_append_lost:
  "\<exists>ps b pubs. act_run [TakeId 0 ClipChange 1 (JObj []) 0, TakeId 1 ClipChange 1 (JObj []) 0, AppendRing 1, AppendRing 0]
      (new_EventBus 256 1024) Map.empty = Some (ps, b, pubs)
    \<and> map ev_id ps = [2, 1]
    \<and> (\<exists>h b1 s. subscribe (Some 2) None b = Some (h, b1) \<and> bus_heap b1 h = Some s \<and> sub_queue s = [])"
  by (simp add: take_event_def append_event_def new_EventBus_def last_n_def subscribe_def new_Subscription_def)

text \<open>The overflow flag is not cleared by a drain, and \<open>lastId\<close> moves before one.\<close>

lemma drain_keeps_flag: "sub_overflowed (snd (drain s)) = sub_overflowed s"
  by (simp add: drain_def)

lemma last_id_before_drain:
  "enqueue e s = Some s1 \<Longrightarrow> \<not> sub_closed s \<Longrightarrow> sub_last_id s1 = ev_id e"
  by (auto simp: enqueue_def split: if_splits list.splits)

text \<open>A bus with one subscriber that holds two events.\<close>

definition two_places :: bus where
  "two_places = (new_EventBus 4 2)\<lparr>bus_subs := [0], bus_heap := [0 \<mapsto> new_Subscription 2], next_handle := 1\<rparr>"

lemma two_places_ok: "bus_ok two_places" "follows [] two_places"
  by (auto simp: bus_ok_def two_places_def new_EventBus_def follows_def)

definition some_publish :: "int \<Rightarrow> bus_op" where
  "some_publish t = Publish ClipChange 1 (JObj []) t"

section \<open>Properties\<close>

text \<open>C29: for a subscriber that stays, over any history of publishing, subscribing and draining: what it has
  drained, followed by what is queued, is in order a part of what was queued and everything published since, and
  all of it unless its overflow flag is set; the queue never exceeds its capacity.\<close>

theorem subscriber_receives_all:
  assumes "bus_run h ops b = Some (ps, ds, b1)" "bus_ok b" "bus_heap b h = Some s" "h \<in> set (bus_subs b)"
    "\<not> sub_closed s" "length (sub_queue s) \<le> sub_capacity s" "DropSub h \<notin> set ops" "WakeUp h \<notin> set ops"
  shows "\<exists>s1. bus_heap b1 h = Some s1 \<and> length (sub_queue s1) \<le> sub_capacity s
    \<and> subseq (ds @ sub_queue s1) (sub_queue s @ ps)
    \<and> (\<not> sub_overflowed s1 \<longrightarrow> ds @ sub_queue s1 = sub_queue s @ ps)"
  using bus_run_received [OF assms] by blast

theorem subscriber_receives_all_witness:
  "\<exists>ps ds b1. bus_run 0 [some_publish 1, some_publish 2, Drain 0, some_publish 3] two_places = Some (ps, ds, b1)
    \<and> (\<exists>s1. bus_heap b1 0 = Some s1 \<and> subseq (ds @ sub_queue s1) ps)"
proof -
  have "bus_run 0 [some_publish 1, some_publish 2, Drain 0, some_publish 3] two_places \<noteq> None" by code_simp
  then obtain ps ds b1 where r: "bus_run 0 [some_publish 1, some_publish 2, Drain 0, some_publish 3] two_places = Some (ps, ds, b1)"
    by auto
  have h: "bus_heap two_places 0 = Some (new_Subscription 2)" "0 \<in> set (bus_subs two_places)"
    by (simp_all add: two_places_def)
  have n: "\<not> sub_closed (new_Subscription 2)" "length (sub_queue (new_Subscription 2)) \<le> sub_capacity (new_Subscription 2)"
    "sub_queue (new_Subscription 2) = []" by (simp_all add: new_Subscription_def)
  have "DropSub 0 \<notin> set [some_publish 1, some_publish 2, Drain 0, some_publish 3]"
    "WakeUp 0 \<notin> set [some_publish 1, some_publish 2, Drain 0, some_publish 3]" by (simp_all add: some_publish_def)
  from subscriber_receives_all [OF r two_places_ok(1) h n(1,2) this] obtain s1 where
    "bus_heap b1 0 = Some s1" "subseq (ds @ sub_queue s1) ps" unfolding n(3) append_Nil by blast
  with r show ?thesis by blast
qed



end
