(* ===== verification/SseFilter.thy ===== *)
theory SseFilter
  imports Access EventBus
begin

text \<open>
  Which events a person sees on the event stream, \<open>api/SseFilter.cpp\<close>, and how that agrees with what
  the same person may read through the interface: the channel scope of \<open>api/RbacScope.cpp\<close> and the
  rights of \<open>players/PlayerAccess.cpp\<close>.
\<close>

definition int_field :: "string \<Rightarrow> json \<Rightarrow> int option" where
  "int_field k pl = (case field k pl of Some (JInt i) \<Rightarrow> Some (to_i64 i) | _ \<Rightarrow> None)"

definition playerEventVisible :: "RequestContext \<Rightarrow> Event \<Rightarrow> bool" where
  "playerEventVisible ctx e =
     (if ctx_role ctx = Admin then True
      else canViewWith (ctx_role ctx) (ctx_player_grants ctx)
        \<lparr>place_group = int_field ''group_id'' (ev_payload e), place_object = int_field ''object_id'' (ev_payload e)\<rparr>)"

text \<open>The ids of the keys that are there.\<close>

definition ids_of :: "string list \<Rightarrow> json \<Rightarrow> int list" where
  "ids_of ks pl = List.map_filter (\<lambda>k. int_field k pl) ks"

definition auditEventVisible :: "RequestContext \<Rightarrow> Event \<Rightarrow> bool" where
  "auditEventVisible ctx e =
     (if ctx_role ctx = Admin then True
      else if \<not> is_object (ev_payload e) then False
      else if field ''category'' (ev_payload e) \<noteq> Some (JStr ''player'') then False
      else
        let objects = ids_of [''scope_object_id'', ''scope_from_object_id''] (ev_payload e);
            groups = ids_of [''scope_group_id'', ''scope_from_group_id''] (ev_payload e) in
        list_ex (\<lambda>g. can_view_audit g \<and>
          (scope g = ObjectScope \<and> scope_id g \<in> set objects \<or> scope g = GroupScope \<and> scope_id g \<in> set groups))
          (ctx_player_grants ctx))"

definition sseEventVisibleTo :: "RequestContext \<Rightarrow> Event \<Rightarrow> bool" where
  "sseEventVisibleTo ctx e =
     (case ev_type e of
        AuditEvent \<Rightarrow> auditEventVisible ctx e
      | PlayerCommandJob \<Rightarrow>
          (if ctx_role ctx = Admin then True
           else if ctx_role ctx \<noteq> Operator then False
           else int_field ''created_by'' (ev_payload e) = Some (ctx_user_id ctx))
      | PlayersBrokerStatus \<Rightarrow> ctx_role ctx = Admin
      | PlayersRenewAlarm \<Rightarrow> ctx_role ctx = Admin
      | PlayersServerCert \<Rightarrow> ctx_role ctx = Admin
      | PluginStatusChange \<Rightarrow> ctx_role ctx = Admin \<or> ctx_role ctx = Operator
      | StressRunStarted \<Rightarrow> ctx_role ctx = Admin \<or> ctx_role ctx = Operator
      | StressRunFinished \<Rightarrow> ctx_role ctx = Admin \<or> ctx_role ctx = Operator
      | GatewayStateChange \<Rightarrow> ctx_role ctx = Admin \<or> ctx_role ctx = Operator
      | PlayerRegistered \<Rightarrow> playerEventVisible ctx e
      | PlayerOnline \<Rightarrow> playerEventVisible ctx e
      | PlayerOffline \<Rightarrow> playerEventVisible ctx e
      | PlayerHeartbeat \<Rightarrow> playerEventVisible ctx e
      | PlayerVersionChanged \<Rightarrow> playerEventVisible ctx e
      | PlayerCommand \<Rightarrow> playerEventVisible ctx e
      | PlayerCertStage \<Rightarrow> playerEventVisible ctx e
      | _ \<Rightarrow>
          (if ctx_role ctx = Admin \<or> ctx_role ctx = Operator then True
           else if ev_channel e < 0 then False
           else list_ex (\<lambda>g. grant_channel g = ev_channel e) (ctx_channel_grants ctx)))"

definition sseEventInDefaultSubscription :: "EventType \<Rightarrow> bool" where
  "sseEventInDefaultSubscription t = (case t of ClipChange \<Rightarrow> False | PlayerHeartbeat \<Rightarrow> False | _ \<Rightarrow> True)"

subsection \<open>The stream agrees with the interface\<close>

definition is_channel_event :: "EventType \<Rightarrow> bool" where
  "is_channel_event t \<longleftrightarrow> t \<in> {ChannelStateChange, OutputStateChange, ClipChange, HealthChange, ScheduleActive}"

definition is_player_event :: "EventType \<Rightarrow> bool" where
  "is_player_event t \<longleftrightarrow> t \<in> {PlayerRegistered, PlayerOnline, PlayerOffline, PlayerHeartbeat, PlayerVersionChanged,
     PlayerCommand, PlayerCertStage}"

definition access_of :: "RequestContext \<Rightarrow> PlayerAccess" where
  "access_of ctx = \<lparr>acc_role = ctx_role ctx, acc_grants = ctx_player_grants ctx\<rparr>"

definition event_place :: "string \<Rightarrow> string \<Rightarrow> Event \<Rightarrow> Place" where
  "event_place gk ok e = \<lparr>place_group = int_field gk (ev_payload e), place_object = int_field ok (ev_payload e)\<rparr>"

lemma channel_event_visible:
  assumes "is_channel_event (ev_type e)"
  shows "sseEventVisibleTo ctx e
    \<longleftrightarrow> allows (makeChannelScope ctx) (ev_channel e) \<and> (ctx_role ctx = Viewer \<longrightarrow> 0 \<le> ev_channel e)"
  using assms unfolding scope_allows
  by (cases "ctx_role ctx") (auto simp: sseEventVisibleTo_def is_channel_event_def list_ex_iff)

lemma player_event_visible:
  assumes "is_player_event (ev_type e)"
  shows "sseEventVisibleTo ctx e \<longleftrightarrow> canView (access_of ctx) (event_place ''group_id'' ''object_id'' e)"
  using assms
  by (auto simp: sseEventVisibleTo_def is_player_event_def playerEventVisible_def canView_def access_of_def
      event_place_def canViewWith_def)

lemma set_ids_of [simp]: "set (ids_of [] pl) = {}"
  "set (ids_of (k # ks) pl) = (case int_field k pl of None \<Rightarrow> {} | Some i \<Rightarrow> {i}) \<union> set (ids_of ks pl)"
  by (auto simp: ids_of_def split: option.splits)

text \<open>The place an audit event happened in and, for a move, the place the screen came from.\<close>

definition audit_ends :: "Event \<Rightarrow> Place list" where
  "audit_ends e = [event_place ''scope_group_id'' ''scope_object_id'' e,
     event_place ''scope_from_group_id'' ''scope_from_object_id'' e]"

lemma audit_event_visible:
  assumes "ev_type e = AuditEvent"
  shows "sseEventVisibleTo ctx e \<longleftrightarrow> ctx_role ctx = Admin
    \<or> field ''category'' (ev_payload e) = Some (JStr ''player'')
      \<and> (\<exists>p \<in> set (audit_ends e). \<exists>g \<in> set (ctx_player_grants ctx). can_view_audit g
        \<and> (scope g = ObjectScope \<and> place_object p = Some (scope_id g)
          \<or> scope g = GroupScope \<and> place_group p = Some (scope_id g)))"
proof -
  have "field ''category'' (ev_payload e) = Some (JStr ''player'') \<Longrightarrow> is_object (ev_payload e)"
    by (cases "ev_payload e") (auto simp: field_def)
  then show ?thesis
    using assms
    by (auto simp: sseEventVisibleTo_def auditEventVisible_def list_ex_iff audit_ends_def event_place_def
        Let_def split: option.splits)
qed

text \<open>What the interface says of such a place: of a group in an object, or of an object as a whole.\<close>

definition may_read_audit :: "PlayerAccess \<Rightarrow> Place \<Rightarrow> bool" where
  "may_read_audit a p =
     (case place_object p of None \<Rightarrow> False
      | Some oid \<Rightarrow> if place_known p then canViewAudit a p else canViewAuditObject a oid)"

lemma may_read_audit_grant:
  assumes "one_grant_each (acc_grants a)" "acc_role a \<noteq> Admin" "place_group p \<noteq> None \<longrightarrow> place_object p \<noteq> None"
  shows "may_read_audit a p \<longleftrightarrow> (\<exists>g \<in> set (acc_grants a). can_view_audit g
    \<and> (scope g = ObjectScope \<and> place_object p = Some (scope_id g)
      \<or> scope g = GroupScope \<and> place_group p = Some (scope_id g)))"
  using assms(2,3) marked_unique [OF assms(1), of can_view_audit]
  by (auto simp: may_read_audit_def canViewAudit_def canViewAuditObject_def isAdmin_def place_known_def
      split: option.splits)

lemma audit_event_reader:
  assumes "ev_type e = AuditEvent" "one_grant_each (ctx_player_grants ctx)"
    "\<forall>p \<in> set (audit_ends e). place_group p \<noteq> None \<longrightarrow> place_object p \<noteq> None"
  shows "sseEventVisibleTo ctx e \<longleftrightarrow> ctx_role ctx = Admin
    \<or> field ''category'' (ev_payload e) = Some (JStr ''player'')
      \<and> (\<exists>p \<in> set (audit_ends e). may_read_audit (access_of ctx) p)"
proof (cases "ctx_role ctx = Admin")
  case False
  have "may_read_audit (access_of ctx) p \<longleftrightarrow> (\<exists>g \<in> set (ctx_player_grants ctx). can_view_audit g
      \<and> (scope g = ObjectScope \<and> place_object p = Some (scope_id g)
        \<or> scope g = GroupScope \<and> place_group p = Some (scope_id g)))"
    if "p \<in> set (audit_ends e)" for p
    using may_read_audit_grant [of "access_of ctx" p] assms(2,3) that False by (simp add: access_of_def)
  then show ?thesis using False by (simp add: audit_event_visible [OF assms(1)] cong: bex_cong)
qed (simp add: audit_event_visible [OF assms(1)])

lemma other_event_visible:
  "ev_type e = PlayerCommandJob \<Longrightarrow> sseEventVisibleTo ctx e \<longleftrightarrow> ctx_role ctx = Admin
    \<or> ctx_role ctx = Operator \<and> int_field ''created_by'' (ev_payload e) = Some (ctx_user_id ctx)"
  "ev_type e \<in> {PlayersBrokerStatus, PlayersRenewAlarm, PlayersServerCert}
    \<Longrightarrow> sseEventVisibleTo ctx e \<longleftrightarrow> ctx_role ctx = Admin"
  "ev_type e \<in> {PluginStatusChange, StressRunStarted, StressRunFinished, GatewayStateChange}
    \<Longrightarrow> sseEventVisibleTo ctx e \<longleftrightarrow> ctx_role ctx \<noteq> Viewer"
  by (cases "ctx_role ctx"; auto simp: sseEventVisibleTo_def)+

text \<open>The comment of the header says that audit events are for administrators only.\<close>

definition audit_viewer :: RequestContext where
  "audit_viewer = \<lparr>ctx_user_id = 2, ctx_username = ''v'', ctx_role = Viewer, ctx_must_change_password = False,
     ctx_channel_grants = [\<lparr>grant_channel = 3, grant_permission = View\<rparr>],
     ctx_player_grants = [\<lparr>scope = GroupScope, scope_id = 7, scope_object = 1, can_command_group = False,
       can_command_object = False, can_move = False, can_view_audit = True\<rparr>]\<rparr>"

lemma audit_shown_to_viewer:
  "sseEventVisibleTo audit_viewer \<lparr>ev_id = 1, ev_ts = 0, ev_type = AuditEvent, ev_channel = - 1,
     ev_payload = JObj [(''category'', JStr ''player''), (''scope_group_id'', JInt 7), (''scope_object_id'', JInt 1)]\<rparr>"
  by code_simp

section \<open>Properties\<close>

text \<open>C28: the event stream and the interface agree, for every type of event. An event of a channel is shown
  exactly when the channel is in the person's scope (to a viewer only when it names a channel), an event of a screen
  exactly when the person may see the screen at the place it names. An audit event is shown to administrators and,
  when its category is \<open>player\<close>, to whoever holds a right with the audit mark on a group or object it names, at
  either end of a move; when it names no group without its object and the person has one right for each scope, as
  the key of the table of rights has it, that is to whoever may read the audit of an end through the interface. (The
  comment of \<open>SseFilter.h\<close> still says administrators only; the one in \<open>SseFilter.cpp\<close> says what is proved here.) News
  of a bulk command goes to administrators and to the operator who started it, news of the broker and of
  certificates to administrators, the rest to administrators and operators.\<close>

theorem stream_agrees_with_interface:
"(is_channel_event (ev_type e) \<longrightarrow> (sseEventVisibleTo ctx e \<longleftrightarrow>
      allows (makeChannelScope ctx) (ev_channel e) \<and> (ctx_role ctx = Viewer \<longrightarrow> 0 \<le> ev_channel e)))
    \<and> (is_player_event (ev_type e) \<longrightarrow>
      (sseEventVisibleTo ctx e \<longleftrightarrow> canView (access_of ctx) (event_place ''group_id'' ''object_id'' e)))
    \<and> (ev_type e = AuditEvent \<longrightarrow> (sseEventVisibleTo ctx e \<longleftrightarrow> ctx_role ctx = Admin
      \<or> field ''category'' (ev_payload e) = Some (JStr ''player'')
        \<and> (\<exists>p \<in> set (audit_ends e). \<exists>g \<in> set (ctx_player_grants ctx). can_view_audit g
          \<and> (scope g = ObjectScope \<and> place_object p = Some (scope_id g)
            \<or> scope g = GroupScope \<and> place_group p = Some (scope_id g)))))
    \<and> (ev_type e = AuditEvent \<and> one_grant_each (ctx_player_grants ctx)
        \<and> (\<forall>p \<in> set (audit_ends e). place_group p \<noteq> None \<longrightarrow> place_object p \<noteq> None) \<longrightarrow>
      (sseEventVisibleTo ctx e \<longleftrightarrow> ctx_role ctx = Admin
        \<or> field ''category'' (ev_payload e) = Some (JStr ''player'')
          \<and> (\<exists>p \<in> set (audit_ends e). may_read_audit (access_of ctx) p)))
    \<and> (ev_type e = PlayerCommandJob \<longrightarrow> (sseEventVisibleTo ctx e \<longleftrightarrow> ctx_role ctx = Admin
      \<or> ctx_role ctx = Operator \<and> int_field ''created_by'' (ev_payload e) = Some (ctx_user_id ctx)))
    \<and> (ev_type e \<in> {PlayersBrokerStatus, PlayersRenewAlarm, PlayersServerCert} \<longrightarrow>
      (sseEventVisibleTo ctx e \<longleftrightarrow> ctx_role ctx = Admin))
    \<and> (ev_type e \<in> {PluginStatusChange, StressRunStarted, StressRunFinished, GatewayStateChange} \<longrightarrow>
      (sseEventVisibleTo ctx e \<longleftrightarrow> ctx_role ctx \<noteq> Viewer))"
  by (intro conjI impI; (elim conjE)?)
    (rule channel_event_visible player_event_visible audit_event_visible audit_event_reader other_event_visible;
      assumption)+

theorem stream_agrees_with_interface_witness:
  "(sseEventVisibleTo audit_viewer \<lparr>ev_id = 1, ev_ts = 0, ev_type = AuditEvent, ev_channel = - 1, ev_payload = JObj [(''category'', JStr ''player''), (''scope_group_id'', JInt 7), (''scope_object_id'', JInt 1)]\<rparr> \<longleftrightarrow>
    may_read_audit (access_of audit_viewer) \<lparr>place_group = Some 7, place_object = Some 1\<rparr>)"
proof -
  let ?e = "\<lparr>ev_id = 1, ev_ts = 0, ev_type = AuditEvent, ev_channel = - 1, ev_payload = JObj [(''category'', JStr ''player''), (''scope_group_id'', JInt 7), (''scope_object_id'', JInt 1)]\<rparr>"
  have ends: "audit_ends ?e = [\<lparr>place_group = Some 7, place_object = Some 1\<rparr>, \<lparr>place_group = None, place_object = None\<rparr>]"
    by code_simp
  have one: "one_grant_each (ctx_player_grants audit_viewer)" by (simp add: one_grant_each_def audit_viewer_def)
  have e: "ev_type ?e = AuditEvent" "field ''category'' (ev_payload ?e) = Some (JStr ''player'')"
    "ctx_role audit_viewer \<noteq> Admin" by (simp_all add: field_def audit_viewer_def)
  have "\<forall>p \<in> set (audit_ends ?e). place_group p \<noteq> None \<longrightarrow> place_object p \<noteq> None"
    unfolding ends by simp
  with stream_agrees_with_interface [of ?e audit_viewer] one e(1)
  have "sseEventVisibleTo audit_viewer ?e \<longleftrightarrow> ctx_role audit_viewer = Admin
      \<or> field ''category'' (ev_payload ?e) = Some (JStr ''player'')
        \<and> (\<exists>p \<in> set (audit_ends ?e). may_read_audit (access_of audit_viewer) p)"
    by blast
  then show ?thesis
    unfolding ends using e(2,3)
    by (simp add: may_read_audit_def [of _ "\<lparr>place_group = None, place_object = None\<rparr>"])
qed

end
