(* ===== verification/Limiters.thy ===== *)
theory Limiters
  imports Json "HOL-Library.Multiset"
begin

text \<open>
  The two limiters of the interface: the token bucket for each actor (\<open>audit/AuditRateLimiter.cpp\<close>)
  and the cap on open streams (\<open>api/StreamLimiter.h\<close>). Time is nanoseconds of the steady clock, an
  argument; the token counts, \<open>double\<close> in the source, are rationals.
\<close>

subsection \<open>The token bucket\<close>

record RateLimitConfig =
  tokens_per_minute :: int
  burst_capacity :: int
  eviction_after :: int

definition default_limits :: RateLimitConfig where
  "default_limits = \<lparr>tokens_per_minute = 300, burst_capacity = 300, eviction_after = 600 * 10 ^ 9\<rparr>"

record Bucket =
  tokens :: rat
  last_refill :: int
  last_used :: int

record rate_limiter =
  buckets :: "string \<rightharpoonup> Bucket"
  next_gc_at :: int
  stat_allowed :: nat
  stat_rejected :: nat

definition new_AuditRateLimiter :: rate_limiter where
  "new_AuditRateLimiter = \<lparr>buckets = Map.empty, next_gc_at = 0, stat_allowed = 0, stat_rejected = 0\<rparr>"

definition refill :: "RateLimitConfig \<Rightarrow> int \<Rightarrow> Bucket \<Rightarrow> Bucket" where
  "refill cfg t b =
     (if t \<le> last_refill b then b
      else let elapsed = (t - last_refill b) div 10 ^ 6;
               add = of_int (tokens_per_minute cfg) * of_int elapsed / 60000 in
        b\<lparr>tokens := min (of_int (burst_capacity cfg)) (tokens b + add), last_refill := t\<rparr>)"

definition evictable :: "RateLimitConfig \<Rightarrow> int \<Rightarrow> Bucket \<Rightarrow> bool" where
  "evictable cfg t b \<longleftrightarrow> eviction_after cfg < t - last_used b \<and> of_int (burst_capacity cfg) \<le> tokens b"

definition evictIdle :: "RateLimitConfig \<Rightarrow> int \<Rightarrow> rate_limiter \<Rightarrow> rate_limiter" where
  "evictIdle cfg t s =
     (if t < next_gc_at s then s
      else s\<lparr>buckets := (\<lambda>k. case buckets s k of None \<Rightarrow> None | Some b \<Rightarrow> if evictable cfg t b then None else Some b),
             next_gc_at := t + 60 * 10 ^ 9\<rparr>)"

definition tryAcquire :: "RateLimitConfig \<Rightarrow> string \<Rightarrow> int \<Rightarrow> rate_limiter \<Rightarrow> bool \<times> rate_limiter" where
  "tryAcquire cfg key t s =
     (let s1 = evictIdle cfg t s;
          b0 = (case buckets s1 key of Some b \<Rightarrow> b
                | None \<Rightarrow> \<lparr>tokens = of_int (burst_capacity cfg), last_refill = t, last_used = t\<rparr>);
          b = (refill cfg t b0)\<lparr>last_used := t\<rparr> in
      if tokens b < 1
      then (False, s1\<lparr>buckets := (buckets s1)(key \<mapsto> b), stat_rejected := stat_rejected s1 + 1\<rparr>)
      else (True, s1\<lparr>buckets := (buckets s1)(key \<mapsto> b\<lparr>tokens := tokens b - 1\<rparr>), stat_allowed := stat_allowed s1 + 1\<rparr>))"

definition tryAcquireForUser :: "RateLimitConfig \<Rightarrow> int \<Rightarrow> int \<Rightarrow> rate_limiter \<Rightarrow> bool \<times> rate_limiter" where
  "tryAcquireForUser cfg uid = tryAcquire cfg (''u:'' @ std_to_string uid)"

definition tryAcquireForIp :: "RateLimitConfig \<Rightarrow> string \<Rightarrow> int \<Rightarrow> rate_limiter \<Rightarrow> bool \<times> rate_limiter" where
  "tryAcquireForIp cfg ip = tryAcquire cfg (''i:'' @ ip)"

text \<open>A history of calls, and how many of those of one actor went through.\<close>

fun acquire_run :: "RateLimitConfig \<Rightarrow> string \<Rightarrow> (string \<times> int) list \<Rightarrow> rate_limiter \<Rightarrow> nat \<times> rate_limiter" where
  "acquire_run cfg k [] s = (0, s)"
| "acquire_run cfg k ((key, t) # cs) s =
     (let (ok, s1) = tryAcquire cfg key t s; (n, s2) = acquire_run cfg k cs s1 in
      ((if ok \<and> key = k then 1 else 0) + n, s2))"

definition cfg_ok :: "RateLimitConfig \<Rightarrow> bool" where
  "cfg_ok cfg \<longleftrightarrow> 0 \<le> tokens_per_minute cfg \<and> 1 \<le> burst_capacity cfg"

text \<open>Every bucket has just been used: it is never full.\<close>

definition limiter_ok :: "RateLimitConfig \<Rightarrow> rate_limiter \<Rightarrow> bool" where
  "limiter_ok cfg s \<longleftrightarrow> (\<forall>k b. buckets s k = Some b \<longrightarrow> 0 \<le> tokens b \<and> tokens b < of_int (burst_capacity cfg))"

lemma refill_tokens:
  assumes "cfg_ok cfg" "0 \<le> tokens b" "tokens b \<le> of_int (burst_capacity cfg)"
  shows "0 \<le> tokens (refill cfg t b)" "tokens (refill cfg t b) \<le> of_int (burst_capacity cfg)"
    "last_refill (refill cfg t b) = max t (last_refill b)"
    "tokens (refill cfg t b) \<le> tokens b + of_int (tokens_per_minute cfg) * of_int (max 0 (t - last_refill b)) / (60000 * 10 ^ 6)"
proof -
  have e: "(of_int ((t - last_refill b) div 10 ^ 6) :: rat) \<le> of_int (t - last_refill b) / 10 ^ 6"
  proof -
    have "0 \<le> (t - last_refill b) mod 10 ^ 6" by simp
    then have "(t - last_refill b) div 10 ^ 6 * 10 ^ 6 \<le> t - last_refill b"
      using div_mult_mod_eq [of "t - last_refill b" "10 ^ 6"] by linarith
    then have "(of_int ((t - last_refill b) div 10 ^ 6 * 10 ^ 6) :: rat) \<le> of_int (t - last_refill b)"
      by (simp only: of_int_le_iff)
    then show ?thesis by (simp add: pos_le_divide_eq)
  qed
  have p: "(0 :: rat) \<le> of_int (tokens_per_minute cfg)" using assms(1) by (simp add: cfg_ok_def)
  from mult_left_mono [OF e p]
  have add: "of_int (tokens_per_minute cfg) * of_int ((t - last_refill b) div 10 ^ 6) / (60000 :: rat)
      \<le> of_int (tokens_per_minute cfg) * of_int (t - last_refill b) / (60000 * 10 ^ 6)"
    by (simp add: field_simps)
  have nn: "0 \<le> of_int (tokens_per_minute cfg) * of_int ((t - last_refill b) div 10 ^ 6) / (60000 :: rat)"
    if "last_refill b < t"
    using that p by (intro divide_nonneg_pos mult_nonneg_nonneg) (simp_all add: pos_imp_zdiv_nonneg_iff)
  have b1: "(0 :: rat) \<le> of_int (burst_capacity cfg)" using assms(1) by (simp add: cfg_ok_def)
  show "0 \<le> tokens (refill cfg t b)" "tokens (refill cfg t b) \<le> of_int (burst_capacity cfg)"
    "last_refill (refill cfg t b) = max t (last_refill b)"
    "tokens (refill cfg t b) \<le> tokens b + of_int (tokens_per_minute cfg) * of_int (max 0 (t - last_refill b)) / (60000 * 10 ^ 6)"
    using assms nn add b1 by (auto simp: refill_def Let_def)
qed

lemma evictIdle_id:
  assumes "limiter_ok cfg s"
  shows "buckets (evictIdle cfg t s) = buckets s"
proof
  fix k show "buckets (evictIdle cfg t s) k = buckets s k"
    using assms by (fastforce simp: evictIdle_def limiter_ok_def evictable_def split: option.splits)
qed

text \<open>The bucket a call works on, before and after it.\<close>

lemma tryAcquire_bucket:
  assumes "limiter_ok cfg s" "cfg_ok cfg"
  obtains b0 where "b0 = (case buckets s key of Some b \<Rightarrow> b
        | None \<Rightarrow> \<lparr>tokens = of_int (burst_capacity cfg), last_refill = t, last_used = t\<rparr>)"
    "0 \<le> tokens b0" "tokens b0 \<le> of_int (burst_capacity cfg)"
    "fst (tryAcquire cfg key t s) \<longleftrightarrow> 1 \<le> tokens (refill cfg t b0)"
    "buckets (snd (tryAcquire cfg key t s)) = (buckets s)(key \<mapsto> (refill cfg t b0)\<lparr>last_used := t,
       tokens := tokens (refill cfg t b0) - (if 1 \<le> tokens (refill cfg t b0) then 1 else 0)\<rparr>)"
proof -
  define b0 where "b0 = (case buckets s key of Some b \<Rightarrow> b
        | None \<Rightarrow> \<lparr>tokens = of_int (burst_capacity cfg), last_refill = t, last_used = t\<rparr>)"
  have "0 \<le> tokens b0" "tokens b0 \<le> of_int (burst_capacity cfg)"
    using assms by (auto simp: b0_def limiter_ok_def cfg_ok_def less_imp_le split: option.splits)
  moreover have "fst (tryAcquire cfg key t s) \<longleftrightarrow> 1 \<le> tokens (refill cfg t b0)"
    by (simp add: tryAcquire_def Let_def evictIdle_id [OF assms(1)] b0_def [symmetric] not_less)
  moreover have "buckets (snd (tryAcquire cfg key t s)) = (buckets s)(key \<mapsto> (refill cfg t b0)\<lparr>last_used := t,
       tokens := tokens (refill cfg t b0) - (if 1 \<le> tokens (refill cfg t b0) then 1 else 0)\<rparr>)"
    by (simp add: tryAcquire_def Let_def evictIdle_id [OF assms(1)] b0_def [symmetric])
  ultimately show ?thesis using that [OF b0_def] by blast
qed

lemma tryAcquire_ok:
  assumes "limiter_ok cfg s" "cfg_ok cfg"
  shows "limiter_ok cfg (snd (tryAcquire cfg key t s))"
    and "dom (buckets (snd (tryAcquire cfg key t s))) = insert key (dom (buckets s))"
proof -
  obtain b0 where b0: "0 \<le> tokens b0" "tokens b0 \<le> of_int (burst_capacity cfg)"
    "buckets (snd (tryAcquire cfg key t s)) = (buckets s)(key \<mapsto> (refill cfg t b0)\<lparr>last_used := t,
       tokens := tokens (refill cfg t b0) - (if 1 \<le> tokens (refill cfg t b0) then 1 else 0)\<rparr>)"
    using tryAcquire_bucket [OF assms, where key = key and t = t] by metis
  have "(1 :: rat) \<le> of_int (burst_capacity cfg)" using assms(2) by (simp add: cfg_ok_def)
  with refill_tokens [OF assms(2) b0(1,2), of t] assms(1)
  show "limiter_ok cfg (snd (tryAcquire cfg key t s))" unfolding limiter_ok_def b0(3) by auto
  show "dom (buckets (snd (tryAcquire cfg key t s))) = insert key (dom (buckets s))" by (simp add: b0(3))
qed

subsection \<open>No actor gets more than the burst and the rate\<close>

definition rate_ns :: "RateLimitConfig \<Rightarrow> rat" where
  "rate_ns cfg = of_int (tokens_per_minute cfg) / (60000 * 10 ^ 6)"

text \<open>What calls between \<open>t0\<close> and \<open>t1\<close> can still get from a bucket.\<close>

definition allowance :: "RateLimitConfig \<Rightarrow> int \<Rightarrow> int \<Rightarrow> Bucket option \<Rightarrow> rat" where
  "allowance cfg t0 t1 b =
     (case b of None \<Rightarrow> of_int (burst_capacity cfg) + rate_ns cfg * of_int (t1 - t0)
      | Some b \<Rightarrow> if last_refill b < t0 then of_int (burst_capacity cfg) + rate_ns cfg * of_int (t1 - t0)
                  else tokens b + rate_ns cfg * of_int (max 0 (t1 - last_refill b)))"

lemma rate_nonneg: "cfg_ok cfg \<Longrightarrow> 0 \<le> rate_ns cfg"
  by (simp add: rate_ns_def cfg_ok_def)

lemma allowance_nonneg:
  "cfg_ok cfg \<Longrightarrow> t0 \<le> t1 \<Longrightarrow> (\<And>x. b = Some x \<Longrightarrow> 0 \<le> tokens x) \<Longrightarrow> 0 \<le> allowance cfg t0 t1 b"
  using rate_nonneg [of cfg] by (auto simp: allowance_def cfg_ok_def split: option.splits)

lemma allowance_bound:
  assumes "cfg_ok cfg" "limiter_ok cfg s" "t0 \<le> t1"
  shows "allowance cfg t0 t1 (buckets s k) \<le> of_int (burst_capacity cfg) + rate_ns cfg * of_int (t1 - t0)"
proof (cases "buckets s k")
  case (Some b)
  then have b: "tokens b \<le> of_int (burst_capacity cfg)" using assms(2) by (auto simp: limiter_ok_def less_imp_le)
  show ?thesis
  proof (cases "last_refill b < t0")
    case False
    then have "max 0 (t1 - last_refill b) \<le> t1 - t0" using assms(3) by simp
    then have "(of_int (max 0 (t1 - last_refill b)) :: rat) \<le> of_int (t1 - t0)" by (simp only: of_int_le_iff)
    from add_mono [OF b mult_left_mono [OF this rate_nonneg [OF assms(1)]]]
    show ?thesis using Some False by (simp add: allowance_def)
  qed (use Some in \<open>simp add: allowance_def\<close>)
qed (simp add: allowance_def)

lemma acquire_uses_allowance:
  assumes "cfg_ok cfg" "limiter_ok cfg s" "t0 \<le> t" "t \<le> t1"
  shows "(if fst (tryAcquire cfg k t s) then 1 else 0) + allowance cfg t0 t1 (buckets (snd (tryAcquire cfg k t s)) k)
    \<le> allowance cfg t0 t1 (buckets s k)"
proof -
  obtain b0 where b0: "b0 = (case buckets s k of Some b \<Rightarrow> b
        | None \<Rightarrow> \<lparr>tokens = of_int (burst_capacity cfg), last_refill = t, last_used = t\<rparr>)"
    and r: "0 \<le> tokens b0" "tokens b0 \<le> of_int (burst_capacity cfg)"
    and ok: "fst (tryAcquire cfg k t s) \<longleftrightarrow> 1 \<le> tokens (refill cfg t b0)"
    and bs: "buckets (snd (tryAcquire cfg k t s)) = (buckets s)(k \<mapsto> (refill cfg t b0)\<lparr>last_used := t,
       tokens := tokens (refill cfg t b0) - (if 1 \<le> tokens (refill cfg t b0) then 1 else 0)\<rparr>)"
    using tryAcquire_bucket [OF assms(2,1), where key = k and t = t] by metis
  note rf = refill_tokens [OF assms(1) r, of t]
  let ?R = "rate_ns cfg"
  have mono: "?R * of_int a \<le> ?R * of_int b" if "a \<le> b" for a b :: int
    using that rate_nonneg [OF assms(1)] by (simp add: mult_left_mono)
  have "(if fst (tryAcquire cfg k t s) then 1 else 0) + allowance cfg t0 t1 (buckets (snd (tryAcquire cfg k t s)) k)
      = tokens (refill cfg t b0) + ?R * of_int (max 0 (t1 - max t (last_refill b0)))"
    using assms(3) rf(3) by (simp add: ok bs allowance_def)
  also have "\<dots> \<le> allowance cfg t0 t1 (buckets s k)"
  proof (cases "buckets s k = None \<or> last_refill b0 < t0")
    case True
    then have "last_refill b0 \<le> t" using b0 assms(3) by (auto split: option.splits)
    then have "max t (last_refill b0) = t" by simp
    moreover have "?R * of_int (max 0 (t1 - t)) \<le> ?R * of_int (t1 - t0)" using assms(3,4) by (intro mono) simp
    ultimately show ?thesis using True rf(2) b0 by (auto simp: allowance_def split: option.splits)
  next
    case False
    then have s: "buckets s k = Some b0" "t0 \<le> last_refill b0" using b0 by auto
    have "tokens (refill cfg t b0) \<le> tokens b0 + ?R * of_int (max 0 (t - last_refill b0))"
      using rf(4) by (simp add: rate_ns_def)
    moreover have "?R * of_int (max 0 (t - last_refill b0)) + ?R * of_int (max 0 (t1 - max t (last_refill b0)))
        = ?R * of_int (max 0 (t1 - last_refill b0))"
      using assms(4) by (simp only: flip: distrib_left of_int_add) (auto simp: max_def)
    ultimately show ?thesis using s by (simp add: allowance_def)
  qed
  finally show ?thesis .
qed

lemma acquire_run_bound:
  assumes "cfg_ok cfg" "limiter_ok cfg s" "\<forall>(key, t) \<in> set cs. t0 \<le> t \<and> t \<le> t1" "t0 \<le> t1"
  shows "of_nat (fst (acquire_run cfg k cs s)) \<le> allowance cfg t0 t1 (buckets s k)"
  using assms(2,3)
proof (induction cs arbitrary: s)
  case Nil
  have "0 \<le> tokens x" if "buckets s k = Some x" for x using Nil(1) that by (auto simp: limiter_ok_def)
  with allowance_nonneg [OF assms(1,4)] show ?case by simp
next
  case (Cons c cs)
  obtain key t where c: "c = (key, t)" by (cases c)
  obtain ok s1 where a: "tryAcquire cfg key t s = (ok, s1)" by fastforce
  have ok1: "limiter_ok cfg s1" using tryAcquire_ok(1) [OF Cons.prems(1) assms(1), of key t] a by simp
  have IH: "of_nat (fst (acquire_run cfg k cs s1)) \<le> allowance cfg t0 t1 (buckets s1 k)"
    using Cons.IH [OF ok1] Cons.prems(2) by simp
  have t: "t0 \<le> t" "t \<le> t1" using Cons.prems(2) c by auto
  have "(if ok \<and> key = k then 1 else 0) + allowance cfg t0 t1 (buckets s1 k) \<le> allowance cfg t0 t1 (buckets s k)"
  proof (cases "key = k")
    case True
    then show ?thesis using acquire_uses_allowance [OF assms(1) Cons.prems(1) t, of k] a by simp
  next
    case False
    obtain b0 where "buckets s1 = (buckets s)(key \<mapsto> b0)"
      using tryAcquire_bucket [OF Cons.prems(1) assms(1), where key = key and t = t] a by (metis snd_conv)
    then show ?thesis using False by simp
  qed
  with IH show ?case by (auto simp: c a split: prod.splits if_splits)
qed

subsection \<open>Buckets are never given up\<close>

text \<open>
  A bucket is evicted only when it is full, and what is stored is the count after the last call, which
  is below the burst: the idle ones stay. (The refill would come first only if the actor called again.)
\<close>

lemma acquire_run_dom:
  "cfg_ok cfg \<Longrightarrow> limiter_ok cfg s \<Longrightarrow> dom (buckets (snd (acquire_run cfg k cs s))) = dom (buckets s) \<union> fst ` set cs"
proof (induction cs arbitrary: s)
  case (Cons c cs)
  obtain key t where c: "c = (key, t)" by (cases c)
  obtain ok s1 where a: "tryAcquire cfg key t s = (ok, s1)" by fastforce
  obtain n s2 where r: "acquire_run cfg k cs s1 = (n, s2)" by fastforce
  have "dom (buckets s2) = dom (buckets s1) \<union> fst ` set cs"
    using tryAcquire_ok(1) [OF Cons.prems(2,1), of key t] Cons.IH [OF Cons.prems(1), of s1] a r by simp
  then show ?case using tryAcquire_ok(2) [OF Cons.prems(2,1), of key t] a r by (simp add: c)
qed simp

lemma acquire_run_ok: "cfg_ok cfg \<Longrightarrow> limiter_ok cfg s \<Longrightarrow> limiter_ok cfg (snd (acquire_run cfg k cs s))"
proof (induction cs arbitrary: s)
  case (Cons c cs)
  obtain key t where c: "c = (key, t)" by (cases c)
  obtain ok s1 where a: "tryAcquire cfg key t s = (ok, s1)" by fastforce
  with tryAcquire_ok(1) [OF Cons.prems(2,1), of key t] Cons.IH [OF Cons.prems(1), of s1]
  show ?case by (simp add: c case_prod_unfold Let_def)
qed simp

lemma new_limiter_ok: "limiter_ok cfg new_AuditRateLimiter"
  by (simp add: limiter_ok_def new_AuditRateLimiter_def)

text \<open>Calls less than a millisecond apart move \<open>last_refill\<close> and add nothing.\<close>

lemma hammering_adds_nothing:
  assumes "last_refill b < t" "t < last_refill b + 10 ^ 6" "tokens b \<le> of_int (burst_capacity cfg)"
  shows "refill cfg t b = b\<lparr>last_refill := t\<rparr>"
proof -
  have "(t - last_refill b) div 10 ^ 6 = 0" using assms(1,2) by simp
  then show ?thesis using assms by (simp add: refill_def Let_def)
qed

subsection \<open>Open streams\<close>

record stream_limiter =
  max_total :: int
  max_user :: int
  total_streams :: int
  per_user :: "int \<rightharpoonup> int"

definition configure :: "int \<Rightarrow> int \<Rightarrow> stream_limiter \<Rightarrow> stream_limiter" where
  "configure mt mu s = s\<lparr>max_total := (if mt < 1 then 1 else mt), max_user := (if mu < 1 then 1 else mu)\<rparr>"

definition new_StreamLimiter :: "int \<Rightarrow> int \<Rightarrow> stream_limiter" where
  "new_StreamLimiter mt mu =
     configure mt mu \<lparr>max_total = 24, max_user = 6, total_streams = 0, per_user = Map.empty\<rparr>"

text \<open>\<open>per_user[user]\<close> makes the entry when it is not there.\<close>

definition acquire_stream :: "int \<Rightarrow> stream_limiter \<Rightarrow> bool \<times> stream_limiter" where
  "acquire_stream u s =
     (if max_total s \<le> total_streams s then (False, s)
      else
        let mine = (case per_user s u of Some n \<Rightarrow> n | None \<Rightarrow> 0); m = (per_user s)(u \<mapsto> mine) in
        if max_user s \<le> mine then (False, s\<lparr>per_user := m\<rparr>)
        else (True, s\<lparr>per_user := m(u \<mapsto> mine + 1), total_streams := total_streams s + 1\<rparr>))"

text \<open>The deleter of the place that was handed out.\<close>

definition release_stream :: "int \<Rightarrow> stream_limiter \<Rightarrow> stream_limiter" where
  "release_stream u s =
     (let s1 = s\<lparr>total_streams := total_streams s - 1\<rparr> in
      case per_user s u of None \<Rightarrow> s1
      | Some n \<Rightarrow> s1\<lparr>per_user := (if n - 1 \<le> 0 then (per_user s)(u := None) else (per_user s)(u \<mapsto> n - 1))\<rparr>)"

text \<open>The abstract limiter: the multiset of the users that hold a place.\<close>

definition holds_places :: "int multiset \<Rightarrow> stream_limiter \<Rightarrow> bool" where
  "holds_places M s \<longleftrightarrow> total_streams s = int (size M) \<and> 1 \<le> max_user s \<and> 1 \<le> max_total s
     \<and> (\<forall>u. per_user s u = (if u \<in># M then Some (int (count M u)) else None))"

lemma new_limiter_empty: "holds_places {#} (new_StreamLimiter mt mu)"
  by (simp add: holds_places_def new_StreamLimiter_def configure_def)

lemma configure_places: "holds_places M s \<Longrightarrow> holds_places M (configure mt mu s)"
  by (simp add: holds_places_def configure_def)

lemma acquire_places:
  assumes "holds_places M s"
  shows "fst (acquire_stream u s) \<longleftrightarrow> int (size M) < max_total s \<and> int (count M u) < max_user s"
    and "holds_places (if fst (acquire_stream u s) then add_mset u M else M) (snd (acquire_stream u s))"
proof -
  have n: "count M u = 0 \<longleftrightarrow> u \<notin># M" by (simp add: count_eq_zero_iff)
  show "fst (acquire_stream u s) \<longleftrightarrow> int (size M) < max_total s \<and> int (count M u) < max_user s"
    using assms n by (auto simp: holds_places_def acquire_stream_def Let_def split: option.splits)
  have "per_user (snd (acquire_stream u s)) v =
      (if v \<in># (if fst (acquire_stream u s) then add_mset u M else M)
       then Some (int (count (if fst (acquire_stream u s) then add_mset u M else M) v)) else None)" for v
    using assms n by (auto simp: holds_places_def acquire_stream_def Let_def split: option.splits if_splits)
  then show "holds_places (if fst (acquire_stream u s) then add_mset u M else M) (snd (acquire_stream u s))"
    using assms by (auto simp: holds_places_def acquire_stream_def Let_def)
qed

lemma release_places:
  assumes "holds_places M s" "u \<in># M"
  shows "holds_places (M - {#u#}) (release_stream u s)"
proof -
  have c: "1 \<le> count M u" using assms(2) by simp
  have "u \<in># M - {#u#} \<longleftrightarrow> 2 \<le> count M u" by (metis Suc_1 Suc_le_eq count_diff count_greater_zero_iff count_single zero_less_diff One_nat_def)
  moreover have "v \<in># M - {#u#} \<longleftrightarrow> v \<in># M" if "v \<noteq> u" for v using that by (simp add: in_diff_count)
  moreover have "size (M - {#u#}) = size M - 1" "0 < size M" using assms(2) by (auto simp: size_Diff_singleton simp flip: nonempty_has_size)
  ultimately show ?thesis using assms c
    by (auto simp: holds_places_def release_stream_def Let_def split: option.splits)
qed

text \<open>Histories of the limiter and of the multiset side by side.\<close>

datatype stream_op = Open int | Close int | Configure int int

fun stream_step :: "stream_op \<Rightarrow> int multiset \<times> stream_limiter \<Rightarrow> int multiset \<times> stream_limiter" where
  "stream_step (Open u) (M, s) = (if fst (acquire_stream u s) then add_mset u M else M, snd (acquire_stream u s))"
| "stream_step (Close u) (M, s) = (if u \<in># M then (M - {#u#}, release_stream u s) else (M, s))"
| "stream_step (Configure mt mu) (M, s) = (M, configure mt mu s)"

lemma stream_step_places:
  assumes "holds_places M s" "stream_step x (M, s) = (M1, s1)"
  shows "holds_places M1 s1"
proof (cases x)
  case (Open u)
  then show ?thesis using assms acquire_places(2) [OF assms(1), of u] by auto
qed (use assms in \<open>auto simp: release_places configure_places split: if_splits\<close>)

lemma stream_history_places:
  "holds_places M s \<Longrightarrow> foldl (\<lambda>st x. stream_step x st) (M, s) xs = (M1, s1) \<Longrightarrow> holds_places M1 s1"
proof (induction xs arbitrary: M s)
  case (Cons x xs)
  obtain M2 s2 where st: "stream_step x (M, s) = (M2, s2)" by fastforce
  with Cons.IH [OF stream_step_places [OF Cons.prems(1) st]] Cons.prems(2) show ?case by simp
qed simp

section \<open>Properties\<close>

text \<open>Of the calls made between two times, one actor gets through at most the burst plus what the rate
  adds in between, whatever came before, whatever the other actors do, and even if the times arrive out of order.\<close>

lemma actor_rate_bounded:
  assumes "cfg_ok cfg" "acquire_run cfg k before new_AuditRateLimiter = (n, s)"
    "\<forall>(key, t) \<in> set cs. t0 \<le> t \<and> t \<le> t1" "t0 \<le> t1"
  shows "of_nat (fst (acquire_run cfg k cs s)) \<le>
    of_int (burst_capacity cfg) + of_int (tokens_per_minute cfg) * of_int (t1 - t0) / (60 * 10 ^ 9 :: rat)"
proof -
  have "limiter_ok cfg s" using acquire_run_ok [OF assms(1) new_limiter_ok] assms(2) by (metis snd_conv)
  from order_trans [OF acquire_run_bound [OF assms(1) this assms(3,4)] allowance_bound [OF assms(1) this assms(4)]]
  show ?thesis by (simp add: rate_ns_def)
qed

text \<open>The two counters of the stream limiter stand for the multiset of the users that hold a place: after
  any history of opening, closing and reconfiguring, a stream is admitted exactly when the places held in all and by
  its user are below the caps, and no place is lost or kept.\<close>

lemma streams_counted:
  assumes "foldl (\<lambda>st x. stream_step x st) ({#}, new_StreamLimiter mt mu) ops = (M, s)"
  shows "(fst (acquire_stream u s) \<longleftrightarrow> int (size M) < max_total s \<and> int (count M u) < max_user s)
    \<and> total_streams s = int (size M) \<and> (\<forall>v. per_user s v = (if v \<in># M then Some (int (count M v)) else None))"
proof -
  have "holds_places M s" by (rule stream_history_places [OF new_limiter_empty assms])
  with acquire_places(1) [OF this, of u] show ?thesis by (simp add: holds_places_def)
qed

end
