(* ===== verification/Mounts.thy ===== *)
theory Mounts
  imports Json
begin

text \<open>
  Network mounts: the specification of a mount, its checks and its JSON form (\<open>mounts/MountSpec.cpp\<close>),
  and the systemd units generated from it (\<open>mounts/UnitGenerator.cpp\<close>). Strings are byte strings.
\<close>

subsection \<open>Specifications\<close>

datatype FsType = Cifs | Nfs

fun fsTypeName :: "FsType \<Rightarrow> string" where
  "fsTypeName Cifs = ''cifs''"
| "fsTypeName Nfs = ''nfs''"

definition fsTypeFromString :: "string \<Rightarrow> FsType option" where
  "fsTypeFromString s = (if s = ''cifs'' then Some Cifs else if s = ''nfs'' then Some Nfs else None)"

record CifsCreds =
  cred_username :: string
  cred_password :: string
  cred_domain :: string

record MountSpec =
  mount_id :: int
  fs_type :: FsType
  mount_source :: string
  mount_target :: string
  mount_options :: string
  mount_ro :: bool
  cifs_creds :: "CifsCreds option"

datatype mount_error = BadSource | BadTarget | BadOptions | BadCifsSource | NoUsername | BadPassword | BadDomain
  | BadNfsSource | NfsWithCreds | NotAnObject | BadFsType | CifsNotObject

definition kForbiddenBytes :: string where
  "kForbiddenBytes = [CHR 0x00, CHR 0x0D, CHR 0x0A, CHR '';'', CHR 0x7C, CHR 0x60]"

definition hasForbidden :: "string \<Rightarrow> bool" where
  "hasForbidden s = list_ex (\<lambda>c. c \<in> set kForbiddenBytes) s"

definition nonEmpty :: "string \<Rightarrow> nat \<Rightarrow> bool" where
  "nonEmpty s max_len \<longleftrightarrow> s \<noteq> [] \<and> length s \<le> max_len \<and> \<not> hasForbidden s"

text \<open>\<open>std::string::find\<close> of a text of two characters.\<close>

fun has_pair :: "char \<Rightarrow> string \<Rightarrow> bool" where
  "has_pair c (x # y # s) = (x = c \<and> y = c \<or> has_pair c (y # s))"
| "has_pair c _ = False"

definition isAbsoluteSafe :: "string \<Rightarrow> bool" where
  "isAbsoluteSafe path =
     (if path = [] \<or> hd path \<noteq> CHR ''/'' then False
      else if hasForbidden path then False
      else if has_pair (CHR ''.'') path then False
      else if has_pair (CHR ''/'') path then False
      else True)"

definition validate_creds :: "CifsCreds \<Rightarrow> mount_error option" where
  "validate_creds c =
     (if \<not> nonEmpty (cred_username c) 256 then Some NoUsername
      else if 256 < length (cred_password c) \<or> hasForbidden (cred_password c) then Some BadPassword
      else if 64 < length (cred_domain c) \<or> hasForbidden (cred_domain c) then Some BadDomain
      else None)"

definition validate_fs :: "MountSpec \<Rightarrow> mount_error option" where
  "validate_fs s =
     (case fs_type s of
        Cifs \<Rightarrow>
          (if length (mount_source s) < 5 \<or> mount_source s ! 0 \<noteq> CHR ''/'' \<or> mount_source s ! 1 \<noteq> CHR ''/''
           then Some BadCifsSource
           else case cifs_creds s of None \<Rightarrow> None | Some c \<Rightarrow> validate_creds c)
      | Nfs \<Rightarrow>
          (case find_char (CHR '':'') (mount_source s) of None \<Rightarrow> Some BadNfsSource
           | Some colon \<Rightarrow>
             if colon = 0 \<or> length (mount_source s) \<le> colon + 1 \<or> mount_source s ! (colon + 1) \<noteq> CHR ''/''
             then Some BadNfsSource
             else if cifs_creds s \<noteq> None then Some NfsWithCreds else None))"

text \<open>\<open>None\<close> is acceptance.\<close>

definition validate :: "MountSpec \<Rightarrow> mount_error option" where
  "validate s =
     (if \<not> nonEmpty (mount_source s) 512 then Some BadSource
      else if \<not> isAbsoluteSafe (mount_target s) then Some BadTarget
      else if 2048 < length (mount_options s) \<or> hasForbidden (mount_options s) then Some BadOptions
      else validate_fs s)"

definition creds_json :: "bool \<Rightarrow> CifsCreds \<Rightarrow> json" where
  "creds_json include_password c = JObj ([(''username'', JStr (cred_username c))]
     @ (if cred_domain c \<noteq> [] then [(''domain'', JStr (cred_domain c))] else [])
     @ (if include_password then [(''password'', JStr (cred_password c))] else []))"

definition mount_toJson :: "bool \<Rightarrow> MountSpec \<Rightarrow> json" where
  "mount_toJson include_password s = JObj ([(''id'', JInt (mount_id s)), (''fs_type'', JStr (fsTypeName (fs_type s))),
     (''source'', JStr (mount_source s)), (''target'', JStr (mount_target s)),
     (''options'', JStr (mount_options s)), (''ro'', JBool (mount_ro s))]
     @ (case cifs_creds s of None \<Rightarrow> [] | Some c \<Rightarrow> [(''cifs'', creds_json include_password c)]))"

text \<open>\<open>json::value\<close>: the default when the key is missing, an exception when the type is another.\<close>

definition value_string :: "string \<Rightarrow> json \<Rightarrow> string result" where
  "value_string k j = (case field k j of None \<Rightarrow> Inr [] | Some v \<Rightarrow> getString v)"

definition value_bool :: "string \<Rightarrow> bool \<Rightarrow> json \<Rightarrow> bool result" where
  "value_bool k d j = (case field k j of None \<Rightarrow> Inr d | Some (JBool b) \<Rightarrow> Inr b | Some _ \<Rightarrow> Inl TypeError)"

definition creds_fromJson :: "json \<Rightarrow> CifsCreds result" where
  "creds_fromJson c =
     bindE (value_string ''username'' c) (\<lambda>u. bindE (value_string ''password'' c) (\<lambda>p.
     bindE (value_string ''domain'' c) (\<lambda>d. Inr \<lparr>cred_username = u, cred_password = p, cred_domain = d\<rparr>)))"

definition mount_id_of :: "json \<Rightarrow> int" where
  "mount_id_of j = (case field ''id'' j of Some (JInt i) \<Rightarrow> to_i64 i | _ \<Rightarrow> 0)"

definition checked :: "MountSpec \<Rightarrow> (mount_error + MountSpec) result" where
  "checked s = Inr (case validate s of Some e \<Rightarrow> Inl e | None \<Rightarrow> Inr s)"

definition mount_fromJson :: "json \<Rightarrow> (mount_error + MountSpec) result" where
  "mount_fromJson j =
     (if \<not> is_object j then Inr (Inl NotAnObject)
      else bindE (value_string ''fs_type'' j) (\<lambda>fs.
        case fsTypeFromString fs of None \<Rightarrow> Inr (Inl BadFsType)
        | Some ft \<Rightarrow>
          bindE (value_string ''source'' j) (\<lambda>src. bindE (value_string ''target'' j) (\<lambda>tgt.
          bindE (value_string ''options'' j) (\<lambda>opts. bindE (value_bool ''ro'' True j) (\<lambda>ro.
            let s = \<lparr>mount_id = mount_id_of j, fs_type = ft, mount_source = src, mount_target = tgt,
                     mount_options = opts, mount_ro = ro, cifs_creds = None\<rparr> in
            case field ''cifs'' j of None \<Rightarrow> checked s
            | Some c \<Rightarrow>
              if \<not> is_object c then Inr (Inl CifsNotObject)
              else bindE (creds_fromJson c) (\<lambda>cc. checked (s\<lparr>cifs_creds := Some cc\<rparr>))))))))"

subsection \<open>Unit names\<close>

definition stripTrailingSlash :: "string \<Rightarrow> string" where
  "stripTrailingSlash s = (if 1 < length s \<and> last s = CHR ''/'' then butlast s else s)"

definition normalizedTargetPath :: "string \<Rightarrow> string" where
  "normalizedTargetPath target =
     (let t = stripTrailingSlash target in
      if t = [] then ''/'' else if hd t \<noteq> CHR ''/'' then CHR ''/'' # t else t)"

definition isUnreservedSystemdChar :: "char \<Rightarrow> bool" where
  "isUnreservedSystemdChar c \<longleftrightarrow>
     97 \<le> (of_char c :: nat) \<and> (of_char c :: nat) \<le> 122 \<or> 65 \<le> (of_char c :: nat) \<and> (of_char c :: nat) \<le> 90
     \<or> 48 \<le> (of_char c :: nat) \<and> (of_char c :: nat) \<le> 57 \<or> c = CHR ''_'' \<or> c = CHR ''.''"

definition hex_digit :: "nat \<Rightarrow> char" where
  "hex_digit n = ''0123456789abcdef'' ! n"

definition escapedByte :: "char \<Rightarrow> string" where
  "escapedByte c = [CHR 0x5C, CHR ''x'', hex_digit (of_char c div 16 mod 16), hex_digit (of_char c mod 16)]"

fun escape_loop :: "bool \<Rightarrow> string \<Rightarrow> string" where
  "escape_loop first_char [] = []"
| "escape_loop first_char (c # s) =
     (if c = CHR ''/'' then CHR ''-'' # escape_loop False s
      else if first_char \<and> c = CHR ''.'' then escapedByte c @ escape_loop False s
      else if isUnreservedSystemdChar c then c # escape_loop False s
      else escapedByte c @ escape_loop False s)"

definition systemdEscapePath :: "string \<Rightarrow> string" where
  "systemdEscapePath target_in =
     (let target = stripTrailingSlash target_in in
      if target = [] \<or> target = ''/'' then ''-''
      else escape_loop True (if hd target = CHR ''/'' then tl target else target))"

definition unitBasenameByTarget :: "string \<Rightarrow> string" where
  "unitBasenameByTarget target = systemdEscapePath target"

definition credFilename :: "int \<Rightarrow> string" where
  "credFilename i = ''liveqx-mnt-'' @ std_to_string i"

definition legacyUnitBasename :: "int \<Rightarrow> string" where
  "legacyUnitBasename i = ''liveqx-mnt-'' @ std_to_string i"

subsection \<open>Units\<close>

record UnitGenContext =
  cred_dir :: string
  generate_automount :: bool
  automount_idle_seconds :: int
  cifs_uid :: int
  cifs_gid :: int
  cifs_file_mode :: string
  cifs_dir_mode :: string

definition default_context :: UnitGenContext where
  "default_context = \<lparr>cred_dir = ''/run/liveqx/creds'', generate_automount = True, automount_idle_seconds = 600,
     cifs_uid = 0, cifs_gid = 0, cifs_file_mode = ''0644'', cifs_dir_mode = ''0755''\<rparr>"

record GeneratedUnits =
  mount_unit :: string
  automount_unit :: string
  cred_payload :: string
  unit_basename :: string
  cred_path :: string

definition joinOpts :: "string \<Rightarrow> string \<Rightarrow> string" where
  "joinOpts a b = (if a = [] then b else if b = [] then a
     else (if last a \<noteq> CHR '','' then a @ '','' else a) @ b)"

text \<open>An occurrence of the token between commas, the ends, or before \<open>=\<close>.\<close>

definition token_at :: "string \<Rightarrow> string \<Rightarrow> nat \<Rightarrow> bool" where
  "token_at opts token pos \<longleftrightarrow> take (length token) (drop pos opts) = token
     \<and> (pos = 0 \<or> opts ! (pos - 1) = CHR '','')
     \<and> (let e = pos + length token in e = length opts \<or> opts ! e = CHR '','' \<or> opts ! e = CHR ''='')"

definition containsToken :: "string \<Rightarrow> string \<Rightarrow> bool" where
  "containsToken opts token = list_ex (token_at opts token) [0..<length opts]"

definition access_option :: "MountSpec \<Rightarrow> string \<Rightarrow> string" where
  "access_option spec opts =
     (if mount_ro spec \<and> \<not> containsToken opts ''ro'' \<and> \<not> containsToken opts ''rw'' then joinOpts opts ''ro''
      else if \<not> mount_ro spec \<and> \<not> containsToken opts ''rw'' \<and> \<not> containsToken opts ''ro'' then joinOpts opts ''rw''
      else opts)"

definition add_option :: "bool \<Rightarrow> string \<Rightarrow> string \<Rightarrow> string \<Rightarrow> string" where
  "add_option wanted name val opts =
     (if wanted \<and> \<not> containsToken opts name then joinOpts opts (name @ ''='' @ val) else opts)"

definition buildOptionsLine :: "MountSpec \<Rightarrow> bool \<Rightarrow> string \<Rightarrow> UnitGenContext \<Rightarrow> string" where
  "buildOptionsLine spec with_credentials path ctx =
     (let cifs = (fs_type spec = Cifs);
          o1 = access_option spec (mount_options spec);
          o2 = add_option (cifs \<and> with_credentials) ''credentials'' path o1;
          owner = (cifs \<and> cifs_uid ctx \<noteq> 0);
          o3 = add_option owner ''uid'' (std_to_string (cifs_uid ctx)) o2;
          o4 = add_option (owner \<and> cifs_gid ctx \<noteq> 0) ''gid'' (std_to_string (cifs_gid ctx)) o3;
          o5 = add_option (owner \<and> cifs_file_mode ctx \<noteq> []) ''file_mode'' (cifs_file_mode ctx) o4 in
      add_option (owner \<and> cifs_dir_mode ctx \<noteq> []) ''dir_mode'' (cifs_dir_mode ctx) o5)"

definition nl :: string where "nl = [CHR 0x0A]"

definition makeMountUnit :: "MountSpec \<Rightarrow> string \<Rightarrow> string \<Rightarrow> string" where
  "makeMountUnit spec target options =
     ''[Unit]'' @ nl
     @ ''Description=Streaming Core mount: '' @ mount_source spec @ '' -> '' @ target @ nl
     @ ''Documentation=file:/usr/share/doc/liveqx/MOUNTS.md'' @ nl
     @ ''After=network-online.target'' @ nl
     @ ''Wants=network-online.target'' @ nl
     @ nl
     @ ''[Mount]'' @ nl
     @ ''What='' @ mount_source spec @ nl
     @ ''Where='' @ target @ nl
     @ ''Type='' @ fsTypeName (fs_type spec) @ nl
     @ (if options \<noteq> [] then ''Options='' @ options @ nl else [])
     @ ''TimeoutSec=20'' @ nl
     @ nl @ ''[Install]'' @ nl @ ''WantedBy=multi-user.target'' @ nl"

definition makeAutomountUnit :: "string \<Rightarrow> int \<Rightarrow> string" where
  "makeAutomountUnit target idle_seconds =
     ''[Unit]'' @ nl
     @ ''Description=Streaming Core automount: '' @ target @ nl
     @ ''After=network-online.target'' @ nl
     @ nl
     @ ''[Automount]'' @ nl
     @ ''Where='' @ target @ nl
     @ (if 0 < idle_seconds then ''TimeoutIdleSec='' @ std_to_string idle_seconds @ nl else [])
     @ nl @ ''[Install]'' @ nl @ ''WantedBy=multi-user.target'' @ nl"

definition makeCifsCredPayload :: "CifsCreds \<Rightarrow> string" where
  "makeCifsCredPayload c =
     ''username='' @ cred_username c @ nl @ ''password='' @ cred_password c @ nl
     @ (if cred_domain c \<noteq> [] then ''domain='' @ cred_domain c @ nl else [])"

text \<open>\<open>operator/\<close> of a path with a plain file name.\<close>

definition path_join :: "string \<Rightarrow> string \<Rightarrow> string" where
  "path_join dir name = (if dir = [] \<or> last dir = CHR ''/'' then dir @ name else dir @ ''/'' @ name)"

definition needs_creds :: "MountSpec \<Rightarrow> bool" where
  "needs_creds spec \<longleftrightarrow> fs_type spec = Cifs \<and> (case cifs_creds spec of None \<Rightarrow> False | Some c \<Rightarrow> cred_password c \<noteq> [])"

definition generateUnits :: "MountSpec \<Rightarrow> UnitGenContext \<Rightarrow> GeneratedUnits" where
  "generateUnits spec ctx =
     (let target = normalizedTargetPath (mount_target spec);
          nc = needs_creds spec;
          path = (if nc then path_join (cred_dir ctx) (credFilename (mount_id spec) @ ''.cred'') else []) in
      \<lparr>mount_unit = makeMountUnit spec target (buildOptionsLine spec nc path ctx),
       automount_unit = (if generate_automount ctx then makeAutomountUnit target (automount_idle_seconds ctx) else []),
       cred_payload = (case cifs_creds spec of Some c \<Rightarrow> if nc then makeCifsCredPayload c else [] | None \<Rightarrow> []),
       unit_basename = unitBasenameByTarget target,
       cred_path = path\<rparr>)"

subsection \<open>The JSON form is read back\<close>

lemma fsType_roundtrip [simp]: "fsTypeFromString (fsTypeName t) = Some t"
  by (cases t) (simp_all add: fsTypeFromString_def)

lemma mount_fromJson_valid: "mount_fromJson j = Inr (Inr s) \<Longrightarrow> validate s = None"
  by (auto simp: mount_fromJson_def checked_def bindE_Inr_iff Let_def split: if_splits option.splits)

lemma creds_roundtrip: "creds_fromJson (creds_json True c) = Inr c"
  by (simp add: creds_fromJson_def creds_json_def value_string_def)

lemma mount_roundtrip:
  assumes "validate s = None" "- (2 ^ 63) \<le> mount_id s" "mount_id s < 2 ^ 63"
  shows "mount_fromJson (mount_toJson True s) = Inr (Inr s)"
proof -
  have i: "mount_id_of (mount_toJson True s) = mount_id s"
    using assms(2,3) by (simp add: mount_id_of_def mount_toJson_def)
  have o: "is_object (creds_json b c)" for b c by (simp add: creds_json_def)
  have e: "s\<lparr>cifs_creds := cifs_creds s\<rparr> = s" by simp
  have v: "checked s = Inr (Inr s)" using assms(1) by (simp add: checked_def)
  show ?thesis
  proof (cases "cifs_creds s")
    case None
    with v i show ?thesis
      by (cases s) (simp add: mount_fromJson_def mount_toJson_def value_string_def value_bool_def Let_def)
  next
    case (Some c)
    with v i o creds_roundtrip [of c] show ?thesis
      by (cases s) (simp add: mount_fromJson_def mount_toJson_def value_string_def value_bool_def Let_def)
  qed
qed

text \<open>A field of another type is not a rejection: the exception of the getter leaves \<open>fromJson\<close>.\<close>

lemma wrong_type_throws: "mount_fromJson (JObj [(''fs_type'', JInt 1)]) = Inl TypeError"
  by (simp add: mount_fromJson_def value_string_def getString_def)

lemma password_not_in_json: "field ''password'' (creds_json False c) = None"
  by (auto simp: creds_json_def field_def)

subsection \<open>Unit names are distinct\<close>

lemma escape_first: "s \<noteq> [] \<Longrightarrow> escape_loop f s \<noteq> []"
  by (cases s) (auto simp: escapedByte_def)

lemma not_unreserved: "\<not> isUnreservedSystemdChar (CHR ''-'')" "\<not> isUnreservedSystemdChar (CHR 0x5C)"
  "\<not> isUnreservedSystemdChar (CHR ''/'')"
  by (simp_all add: isUnreservedSystemdChar_def)

lemma hex_digit_inj: "hex_digit a = hex_digit b \<Longrightarrow> a < 16 \<Longrightarrow> b < 16 \<Longrightarrow> a = b"
proof -
  have d: "distinct ''0123456789abcdef''" "length ''0123456789abcdef'' = 16" by simp_all
  then show "hex_digit a = hex_digit b \<Longrightarrow> a < 16 \<Longrightarrow> b < 16 \<Longrightarrow> a = b"
    unfolding hex_digit_def by (metis nth_eq_iff_index_eq)
qed

lemma escapedByte_inj:
  assumes "escapedByte c @ s = escapedByte d @ t"
  shows "c = d \<and> s = t"
proof -
  have h: "hex_digit (of_char c div 16 mod 16) = hex_digit (of_char d div 16 mod 16)"
    "hex_digit (of_char c mod 16) = hex_digit (of_char d mod 16)" "s = t"
    using assms by (simp_all add: escapedByte_def)
  have l: "of_char c < (256 :: nat)" "of_char d < (256 :: nat)" by simp_all
  have "of_char c div 16 mod 16 = (of_char d div 16 mod 16 :: nat)" "of_char c mod 16 = (of_char d mod 16 :: nat)"
    using hex_digit_inj [OF h(1)] hex_digit_inj [OF h(2)] by simp_all
  moreover have "of_char c div 16 < (16 :: nat)" "of_char d div 16 < (16 :: nat)" using l by (simp_all add: less_mult_imp_div_less)
  ultimately have "(of_char c :: nat) = of_char d" by (metis div_mult_mod_eq mod_less)
  then show ?thesis using h(3) by simp
qed

lemma escape_loop_inj: "escape_loop f s = escape_loop f t \<Longrightarrow> s = t"
proof (induction s arbitrary: f t)
  case Nil
  then show ?case using escape_first [of t f] by auto
next
  case (Cons c s)
  then have "t \<noteq> []" using escape_first [of "c # s" f] by auto
  then obtain d t' where t: "t = d # t'" by (cases t) auto
  have esc: "hd (escapedByte x @ z) = CHR 0x5C" for x z by (simp add: escapedByte_def)
  have out: "escape_loop f (x # z) = CHR ''-'' # escape_loop False z \<and> x = CHR ''/''
      \<or> escape_loop f (x # z) = escapedByte x @ escape_loop False z
      \<or> escape_loop f (x # z) = x # escape_loop False z \<and> isUnreservedSystemdChar x" for x z
    unfolding escape_loop.simps by presburger
  have eq: "escape_loop f (c # s) = escape_loop f (d # t')" using Cons.prems t by simp
  have nu: "\<not> isUnreservedSystemdChar (CHR 0x5C)" "\<not> isUnreservedSystemdChar (CHR ''-'')" by (rule not_unreserved)+
  have "c = d \<and> escape_loop False s = escape_loop False t'"
    using out [of c s] out [of d t']
  proof (elim disjE conjE)
    assume "escape_loop f (c # s) = escapedByte c @ escape_loop False s" "escape_loop f (d # t') = escapedByte d @ escape_loop False t'"
    with eq have "escapedByte c @ escape_loop False s = escapedByte d @ escape_loop False t'" by metis
    then show ?thesis by (rule escapedByte_inj)
  next
    assume a: "escape_loop f (c # s) = CHR ''-'' # escape_loop False s" "escape_loop f (d # t') = escapedByte d @ escape_loop False t'"
    have "hd (escape_loop f (c # s)) = CHR 0x5C" using a(2) eq esc by metis
    with a(1) show ?thesis by (simp del: escape_loop.simps)
  next
    assume a: "escape_loop f (c # s) = escapedByte c @ escape_loop False s" "escape_loop f (d # t') = CHR ''-'' # escape_loop False t'"
    have "hd (escape_loop f (d # t')) = CHR 0x5C" using a(1) eq esc by metis
    with a(2) show ?thesis by (simp del: escape_loop.simps)
  next
    assume a: "escape_loop f (c # s) = escapedByte c @ escape_loop False s" "escape_loop f (d # t') = d # escape_loop False t'"
      "isUnreservedSystemdChar d"
    have "hd (escape_loop f (d # t')) = CHR 0x5C" using a(1) eq esc by metis
    with a(2,3) nu show ?thesis by (simp del: escape_loop.simps)
  next
    assume a: "escape_loop f (c # s) = c # escape_loop False s" "isUnreservedSystemdChar c"
      "escape_loop f (d # t') = escapedByte d @ escape_loop False t'"
    have "hd (escape_loop f (c # s)) = CHR 0x5C" using a(3) eq esc by metis
    with a(1,2) nu show ?thesis by (simp del: escape_loop.simps)
  qed (use eq nu in \<open>auto simp del: escape_loop.simps\<close>)
  with Cons.IH t show ?case by auto
qed

lemma escape_chars: "x \<in> set (escape_loop f s) \<Longrightarrow> isUnreservedSystemdChar x \<or> x = CHR ''-'' \<or> x = CHR 0x5C"
proof -
  have h: "list_all (\<lambda>n. isUnreservedSystemdChar (hex_digit n)) [0..<16]" by code_simp
  then have "isUnreservedSystemdChar (hex_digit n)" if "n < 16" for n using that by (simp add: list_all_iff)
  moreover have "isUnreservedSystemdChar (CHR ''x'')" by (simp add: isUnreservedSystemdChar_def)
  ultimately have "x \<in> set (escapedByte c) \<Longrightarrow> isUnreservedSystemdChar x \<or> x = CHR 0x5C" for c
    by (auto simp: escapedByte_def)
  then show "x \<in> set (escape_loop f s) \<Longrightarrow> isUnreservedSystemdChar x \<or> x = CHR ''-'' \<or> x = CHR 0x5C"
    by (induction f s rule: escape_loop.induct) (auto split: if_splits)
qed

text \<open>The target of a valid specification, normalised: a slash and a body without one at its ends.\<close>

lemma has_pair_append: "has_pair c (a @ c # c # b)"
proof (induction a)
  case (Cons x a)
  then show ?case by (cases a) auto
qed simp

lemma normalized_target:
  assumes "isAbsoluteSafe t"
  obtains body where "normalizedTargetPath t = CHR ''/'' # body" "body = [] \<or> hd body \<noteq> CHR ''/'' \<and> last body \<noteq> CHR ''/''"
    "set body \<subseteq> set t"
proof -
  from assms obtain s where t: "t = CHR ''/'' # s" and np: "\<not> has_pair (CHR ''/'') t"
    by (cases t) (auto simp: isAbsoluteSafe_def split: if_splits)
  have h: "s = [] \<or> hd s \<noteq> CHR ''/''" using np by (cases s) (auto simp: t)
  show ?thesis
  proof (cases "s \<noteq> [] \<and> last s = CHR ''/''")
    case True
    then obtain u where u: "s = u @ [CHR ''/'']" by (metis append_butlast_last_id)
    then have "u \<noteq> []" using h by (cases u) auto
    moreover have "last u \<noteq> CHR ''/''"
    proof
      assume "last u = CHR ''/''"
      then obtain w where "u = w @ [CHR ''/'']" using \<open>u \<noteq> []\<close> by (metis append_butlast_last_id)
      then have "t = (CHR ''/'' # w) @ CHR ''/'' # CHR ''/'' # []" by (simp add: t u)
      with np has_pair_append show False by metis
    qed
    ultimately show ?thesis
      using h by (intro that [of u]) (auto simp: normalizedTargetPath_def stripTrailingSlash_def t u)
  next
    case False
    then show ?thesis using h
      by (intro that [of s]) (auto simp: normalizedTargetPath_def stripTrailingSlash_def t)
  qed
qed

lemma basename_normalized:
  assumes "body = [] \<or> hd body \<noteq> CHR ''/'' \<and> last body \<noteq> CHR ''/''"
  shows "unitBasenameByTarget (CHR ''/'' # body) = (if body = [] then ''-'' else escape_loop True body)"
  using assms by (auto simp: unitBasenameByTarget_def systemdEscapePath_def stripTrailingSlash_def)

lemma basenames_differ:
  assumes "isAbsoluteSafe t" "isAbsoluteSafe u" "normalizedTargetPath t \<noteq> normalizedTargetPath u"
  shows "unitBasenameByTarget (normalizedTargetPath t) \<noteq> unitBasenameByTarget (normalizedTargetPath u)"
proof
  assume eq: "unitBasenameByTarget (normalizedTargetPath t) = unitBasenameByTarget (normalizedTargetPath u)"
  obtain a where a: "normalizedTargetPath t = CHR ''/'' # a" "a = [] \<or> hd a \<noteq> CHR ''/'' \<and> last a \<noteq> CHR ''/''"
    using normalized_target [OF assms(1)] by metis
  obtain b where b: "normalizedTargetPath u = CHR ''/'' # b" "b = [] \<or> hd b \<noteq> CHR ''/'' \<and> last b \<noteq> CHR ''/''"
    using normalized_target [OF assms(2)] by metis
  have ne: "escape_loop True x \<noteq> ''-''" if "x \<noteq> []" "hd x \<noteq> CHR ''/''" for x
    using that not_unreserved by (cases x) (auto simp: escapedByte_def)
  from eq a b have "(if a = [] then ''-'' else escape_loop True a) = (if b = [] then ''-'' else escape_loop True b)"
    by (simp add: basename_normalized)
  then have "a = b" using ne [of a] ne [of b] a(2) b(2) escape_loop_inj [of True a b] by (auto split: if_splits)
  with a(1) b(1) assms(3) show False by simp
qed

lemma basename_chars:
  assumes "x \<in> set (unitBasenameByTarget t)"
  shows "isUnreservedSystemdChar x \<or> x = CHR ''-'' \<or> x = CHR 0x5C"
  using assms escape_chars by (auto simp: unitBasenameByTarget_def systemdEscapePath_def Let_def split: if_splits)

subsection \<open>No line is injected\<close>

definition newline :: char where "newline = CHR 0x0A"

lemma nl_newline: "nl = [newline]" by (simp add: nl_def newline_def)

definition as_lines :: "string list \<Rightarrow> string" where
  "as_lines ls = concat (map (\<lambda>l. l @ nl) ls)"

lemma split_lines:
  assumes "\<forall>l \<in> set ls. newline \<notin> set l"
  shows "split_on newline (as_lines ls) = ls @ [[]]"
  using assms
proof (induction ls)
  case (Cons l ls)
  then show ?case
    using split_on_append [of newline l "as_lines ls"] by (simp add: as_lines_def nl_newline split_on_none)
qed (simp add: as_lines_def)

definition mount_lines :: "MountSpec \<Rightarrow> string \<Rightarrow> string \<Rightarrow> string list" where
  "mount_lines spec target options =
     [''[Unit]'', ''Description=Streaming Core mount: '' @ mount_source spec @ '' -> '' @ target,
      ''Documentation=file:/usr/share/doc/liveqx/MOUNTS.md'', ''After=network-online.target'',
      ''Wants=network-online.target'', [], ''[Mount]'', ''What='' @ mount_source spec, ''Where='' @ target,
      ''Type='' @ fsTypeName (fs_type spec)]
     @ (if options \<noteq> [] then [''Options='' @ options] else [])
     @ [''TimeoutSec=20'', [], ''[Install]'', ''WantedBy=multi-user.target'']"

lemma mount_unit_lines: "makeMountUnit spec target options = as_lines (mount_lines spec target options)"
  by (simp add: makeMountUnit_def mount_lines_def as_lines_def)

lemma no_newline_options:
  "newline \<notin> set opts \<Longrightarrow> newline \<notin> set val \<Longrightarrow> newline \<notin> set name \<Longrightarrow> newline \<notin> set (add_option w name val opts)"
  "newline \<notin> set opts \<Longrightarrow> newline \<notin> set (access_option spec opts)"
  by (auto simp: add_option_def access_option_def joinOpts_def newline_def split: if_splits)

lemma newline_not_digit: "newline \<notin> set (std_to_string v)"
  using std_to_string_chars [of newline v] by (auto simp: newline_def isdigit_def)

definition context_ok :: "UnitGenContext \<Rightarrow> bool" where
  "context_ok ctx \<longleftrightarrow> newline \<notin> set (cred_dir ctx) \<and> newline \<notin> set (cifs_file_mode ctx) \<and> newline \<notin> set (cifs_dir_mode ctx)"

lemma built_options_line:
  assumes "newline \<notin> set (mount_options spec)" "newline \<notin> set path" "context_ok ctx"
  shows "newline \<notin> set (buildOptionsLine spec w path ctx)"
proof -
  have n: "newline \<notin> set ''credentials''" "newline \<notin> set ''uid''" "newline \<notin> set ''gid''" "newline \<notin> set ''file_mode''"
    "newline \<notin> set ''dir_mode''" by (simp_all add: newline_def)
  show ?thesis
    unfolding buildOptionsLine_def Let_def using assms
    by (intro no_newline_options n newline_not_digit) (simp_all add: context_ok_def)
qed

lemma forbidden_newline: "\<not> hasForbidden s \<Longrightarrow> newline \<notin> set s"
  by (auto simp: hasForbidden_def kForbiddenBytes_def newline_def list_ex_iff)

lemma valid_strings:
  assumes "validate s = None"
  shows "\<not> hasForbidden (mount_source s)" "isAbsoluteSafe (mount_target s)" "\<not> hasForbidden (mount_options s)"
    "fs_type s = Cifs \<Longrightarrow> cifs_creds s = Some c \<Longrightarrow> validate_creds c = None"
  using assms by (auto simp: validate_def nonEmpty_def validate_fs_def split: if_splits option.splits FsType.splits)

lemma mount_unit_no_injection:
  assumes "validate s = None" "context_ok ctx"
  shows "split_on newline (mount_unit (generateUnits s ctx)) =
    mount_lines s (normalizedTargetPath (mount_target s))
      (buildOptionsLine s (needs_creds s) (cred_path (generateUnits s ctx)) ctx) @ [[]]"
proof -
  note v = valid_strings [OF assms(1)]
  have tgt: "newline \<notin> set (normalizedTargetPath (mount_target s))"
  proof -
    have "newline \<notin> set (mount_target s)" using v(2) forbidden_newline by (auto simp: isAbsoluteSafe_def split: if_splits)
    moreover obtain body where "normalizedTargetPath (mount_target s) = CHR ''/'' # body" "set body \<subseteq> set (mount_target s)"
      using normalized_target [OF v(2)] by metis
    ultimately show ?thesis by (auto simp: newline_def)
  qed
  have "newline \<notin> set (cred_path (generateUnits s ctx))"
    using assms(2) newline_not_digit
    by (auto simp: generateUnits_def Let_def context_ok_def path_join_def credFilename_def newline_def)
  then have opts: "newline \<notin> set (buildOptionsLine s (needs_creds s) (cred_path (generateUnits s ctx)) ctx)"
    using built_options_line forbidden_newline [OF v(3)] assms(2) by blast
  have "\<forall>l \<in> set (mount_lines s (normalizedTargetPath (mount_target s))
      (buildOptionsLine s (needs_creds s) (cred_path (generateUnits s ctx)) ctx)). newline \<notin> set l"
    using tgt opts forbidden_newline [OF v(1)] by (cases "fs_type s") (auto simp: mount_lines_def newline_def)
  from split_lines [OF this] show ?thesis
    by (simp add: mount_unit_lines generateUnits_def Let_def)
qed

text \<open>Three things the comments promise otherwise.\<close>

definition root_spec :: MountSpec where
  "root_spec = \<lparr>mount_id = 1, fs_type = Nfs, mount_source = ''nas:/export'', mount_target = ''/'', mount_options = [],
     mount_ro = True, cifs_creds = None\<rparr>"

lemma root_target_accepted: "validate root_spec = None"
  by code_simp

definition share_spec :: "string \<Rightarrow> MountSpec" where
  "share_spec pw = \<lparr>mount_id = 7, fs_type = Cifs, mount_source = ''//nas/media'', mount_target = ''/mnt/liveqx/lib-1/'',
     mount_options = ''vers=3.0'', mount_ro = True,
     cifs_creds = Some \<lparr>cred_username = ''tv'', cred_password = pw, cred_domain = []\<rparr>\<rparr>"

lemma user_without_password_dropped:
  "validate (share_spec []) = None" "cred_payload (generateUnits (share_spec []) default_context) = []"
  "buildOptionsLine (share_spec []) (needs_creds (share_spec [])) [] default_context = ''vers=3.0,ro''"
  by code_simp+

lemma credentials_end_with_newline: "last (makeCifsCredPayload c) = newline"
  by (simp add: makeCifsCredPayload_def nl_newline)

lemma backslash_accepted: "validate (root_spec\<lparr>mount_source := ''nas:/export'' @ [CHR 0x5C]\<rparr>) = None"
  by code_simp

lemma share_spec_valid: "validate (share_spec ''secret'') = None"
  by code_simp

lemma share_name: "unit_basename (generateUnits (share_spec ''secret'') default_context) = ''mnt-liveqx-lib'' @ [CHR 0x5C] @ ''x2d1''"
  by code_simp

section \<open>Properties\<close>

text \<open>A valid specification that is written with its password is read back unchanged, and a specification
  that comes out of the reader has passed the checks.\<close>

lemma mount_json_roundtrip:
"(validate s = None \<and> - (2 ^ 63) \<le> mount_id s \<and> mount_id s < 2 ^ 63 \<longrightarrow>
      mount_fromJson (mount_toJson True s) = Inr (Inr s))
    \<and> (mount_fromJson j = Inr (Inr s) \<longrightarrow> validate s = None)"
  using mount_roundtrip mount_fromJson_valid by blast

text \<open>The mount unit of a valid specification has exactly the intended lines, each text of the operator
  within its own line, so that no directive can be injected; and two specifications with different targets have
  different unit names, in which there is no slash.\<close>

lemma unit_has_no_other_lines:
  assumes "validate s = None" "context_ok ctx" "validate s2 = None"
  shows "split_on newline (mount_unit (generateUnits s ctx)) =
      mount_lines s (normalizedTargetPath (mount_target s))
        (buildOptionsLine s (needs_creds s) (cred_path (generateUnits s ctx)) ctx) @ [[]]
    \<and> CHR ''/'' \<notin> set (unit_basename (generateUnits s ctx))
    \<and> (normalizedTargetPath (mount_target s) \<noteq> normalizedTargetPath (mount_target s2) \<longrightarrow>
        unit_basename (generateUnits s ctx) \<noteq> unit_basename (generateUnits s2 ctx))"
proof -
  have "CHR ''/'' \<notin> set (unitBasenameByTarget t)" for t
    using basename_chars not_unreserved(3) by fastforce
  moreover have "unit_basename (generateUnits x ctx) = unitBasenameByTarget (normalizedTargetPath (mount_target x))" for x
    by (simp add: generateUnits_def Let_def)
  ultimately show ?thesis
    using mount_unit_no_injection [OF assms(1,2)] basenames_differ [OF valid_strings(2) [OF assms(1)] valid_strings(2) [OF assms(3)]]
    by simp
qed

end
