(* ===== verification/AuthTables.thy ===== *)
theory AuthTables
  imports Access "HOL-Library.List_Lexorder" "HOL-Library.Char_ord"
begin

text \<open>
  The tables of \<open>auth/AuthDb.cpp\<close> and its operations. A table is the list of its rows in the order of
  their row ids, an SQL statement is the list operation it denotes, the constraints of the schema
  (\<open>UNIQUE\<close> on user names and token ids, the primary keys, the foreign keys that \<open>PRAGMA foreign_keys\<close>
  switches on) are tests of the writing operations. Any write may be refused by the storage (a full
  disk, a lock held elsewhere): \<open>faults\<close> says which of the coming writes are, one entry for each.
  Reads succeed. Texts hold no NUL, an empty text and SQL's \<open>NULL\<close> read back the same and are one value.
  A clock read inside an operation that is given a time of zero is not modelled: callers pass the time.

  Results: every operation keeps the keys, and the rows of a user who is gone are gone with him.
\<close>

subsection \<open>Rows\<close>

record User =
  u_id :: int
  u_name :: string
  u_email :: string
  u_hash :: string
  u_source :: AuthSource
  u_role :: Role
  u_must_change :: bool
  u_initial_expires :: "int option"
  u_changed_at :: "int option"
  u_last_login_at :: "int option"
  u_last_login_ip :: string
  u_disabled :: bool
  u_created_at :: int
  u_created_by :: "int option"
  u_failed :: int
  u_locked_until :: "int option"
  u_ldap_groups :: string
  u_ldap_cached_at :: "int option"

text \<open>The values a \<open>User\<close> starts with.\<close>

definition blank_user :: User where
  "blank_user = \<lparr>u_id = 0, u_name = [], u_email = [], u_hash = [], u_source = Local, u_role = Viewer,
     u_must_change = False, u_initial_expires = None, u_changed_at = None, u_last_login_at = None,
     u_last_login_ip = [], u_disabled = False, u_created_at = 0, u_created_by = None, u_failed = 0,
     u_locked_until = None, u_ldap_groups = [], u_ldap_cached_at = None\<rparr>"

record Session =
  s_id :: int
  s_user :: int
  s_jti :: string
  s_hash :: string
  s_ip :: string
  s_agent :: string
  s_created_at :: int
  s_expires_at :: int
  s_revoked_at :: "int option"
  s_last_seen_at :: "int option"

record ChannelPermissionRow =
  cp_user :: int
  cp_channel :: int
  cp_permission :: ChannelPermission
  cp_granted_at :: int
  cp_granted_by :: "int option"

record PlayerGrantRow =
  pg_user :: int
  pg_grant :: PlayerScopeGrant
  pg_granted_at :: int
  pg_granted_by :: "int option"

record LdapConfigRow =
  lc_enabled :: bool
  lc_server :: string
  lc_tls_mode :: string
  lc_base_dn :: string
  lc_bind_dn :: string
  lc_bind_password_encrypted :: "nat list"
  lc_user_filter :: string
  lc_group_attribute :: string
  lc_group_role_map_json :: string
  lc_channel_acl_json :: string
  lc_recheck_groups_on_refresh :: bool
  lc_network_timeout_sec :: int
  lc_updated_at :: "int option"
  lc_updated_by :: "int option"

record SmtpConfigRow =
  sc_enabled :: bool
  sc_server :: string
  sc_port :: int
  sc_security :: string
  sc_username :: string
  sc_password_encrypted :: "nat list"
  sc_from_email :: string
  sc_from_name :: string
  sc_timeout_sec :: int
  sc_updated_at :: "int option"
  sc_updated_by :: "int option"

record SystemTimeConfigRow =
  tc_source :: string
  tc_server_timezone :: string
  tc_ntp_enabled :: bool
  tc_ntp_servers_json :: string
  tc_ntp_poll_interval_s :: int
  tc_ntp_last_offset_ms :: "int option"
  tc_ntp_last_sync_at :: "int option"
  tc_manual_offset_ms :: int
  tc_manual_set_at :: "int option"
  tc_updated_at :: "int option"

record auth_db =
  users :: "User list"
  sessions :: "Session list"
  channel_permissions :: "ChannelPermissionRow list"
  player_grants :: "PlayerGrantRow list"
  ldap_config :: "LdapConfigRow option"
  smtp_config :: "SmtpConfigRow option"
  system_time_config :: "SystemTimeConfigRow option"
  jwt_secret :: "nat list option"
  faults :: "bool list"

definition empty_auth_db :: auth_db where
  "empty_auth_db = \<lparr>users = [], sessions = [], channel_permissions = [], player_grants = [], ldap_config = None,
     smtp_config = None, system_time_config = None, jwt_secret = None, faults = []\<rparr>"

subsection \<open>Writing\<close>

text \<open>Whether the storage refuses the next write, and the store once that write has been tried.\<close>

definition write_refused :: "auth_db \<Rightarrow> bool" where
  "write_refused d = (case faults d of [] \<Rightarrow> False | b # _ \<Rightarrow> b)"

definition tried :: "auth_db \<Rightarrow> auth_db" where
  "tried d = d\<lparr>faults := tl (faults d)\<rparr>"

text \<open>An \<open>UPDATE\<close>: the number of rows it matched, nothing when it was refused.\<close>

definition update_users :: "(User \<Rightarrow> bool) \<Rightarrow> (User \<Rightarrow> User) \<Rightarrow> auth_db \<Rightarrow> nat option \<times> auth_db" where
  "update_users P f d =
     (if write_refused d then (None, tried d)
      else (Some (length (filter P (users d))),
            (tried d)\<lparr>users := map (\<lambda>u. if P u then f u else u) (users d)\<rparr>))"

definition update_sessions :: "(Session \<Rightarrow> bool) \<Rightarrow> (Session \<Rightarrow> Session) \<Rightarrow> auth_db \<Rightarrow> nat option \<times> auth_db" where
  "update_sessions P f d =
     (if write_refused d then (None, tried d)
      else (Some (length (filter P (sessions d))),
            (tried d)\<lparr>sessions := map (\<lambda>s. if P s then f s else s) (sessions d)\<rparr>))"

text \<open>The answers the operations make of it: done and exactly one row, done at all, how many.\<close>

definition one_row :: "nat option \<times> auth_db \<Rightarrow> bool \<times> auth_db" where
  "one_row r = (fst r = Some 1, snd r)"

definition was_done :: "nat option \<times> auth_db \<Rightarrow> bool \<times> auth_db" where
  "was_done r = (fst r \<noteq> None, snd r)"

definition row_count :: "nat option \<times> auth_db \<Rightarrow> nat \<times> auth_db" where
  "row_count r = (case fst r of None \<Rightarrow> 0 | Some n \<Rightarrow> n, snd r)"

text \<open>The row id SQLite gives to a new row: one more than the largest there is.\<close>

definition next_rowid :: "int list \<Rightarrow> int" where
  "next_rowid ids = (if ids = [] then 1 else Max (set ids) + 1)"

definition user_exists :: "auth_db \<Rightarrow> int \<Rightarrow> bool" where
  "user_exists d i \<longleftrightarrow> list_ex (\<lambda>u. u_id u = i) (users d)"

text \<open>A foreign key into \<open>users\<close>: absent, or a user there is.\<close>

definition fk_users :: "auth_db \<Rightarrow> int option \<Rightarrow> bool" where
  "fk_users d r = (case r of None \<Rightarrow> True | Some i \<Rightarrow> user_exists d i)"

subsection \<open>Users\<close>

definition enabled_admin :: "User \<Rightarrow> bool" where
  "enabled_admin u \<longleftrightarrow> u_role u = Admin \<and> \<not> u_disabled u"

definition hasAdminUser :: "auth_db \<Rightarrow> bool" where
  "hasAdminUser d = list_ex enabled_admin (users d)"

definition countEnabledAdmins :: "auth_db \<Rightarrow> nat" where
  "countEnabledAdmins d = length (filter enabled_admin (users d))"

text \<open>The counters of failed logins and the cached groups are no columns of the \<open>INSERT\<close>: they start blank.\<close>

definition insertUser :: "User \<Rightarrow> auth_db \<Rightarrow> int option \<times> auth_db" where
  "insertUser u d =
     (let i = next_rowid (map u_id (users d)) in
      if write_refused d \<or> list_ex (\<lambda>v. u_name v = u_name u) (users d) \<or> \<not> (u_created_by u = Some i \<or> fk_users d (u_created_by u))
      then (None, tried d)
      else (Some i, (tried d)\<lparr>users := users d @ [u\<lparr>u_id := i, u_failed := 0, u_locked_until := None,
              u_ldap_groups := [], u_ldap_cached_at := None\<rparr>]\<rparr>))"

definition findUserByUsername :: "auth_db \<Rightarrow> string \<Rightarrow> User option" where
  "findUserByUsername d name = find (\<lambda>u. u_name u = name) (users d)"

definition findUserById :: "auth_db \<Rightarrow> int \<Rightarrow> User option" where
  "findUserById d i = find (\<lambda>u. u_id u = i) (users d)"

definition listUsers :: "auth_db \<Rightarrow> User list" where
  "listUsers d = sort_key u_id (users d)"

definition updatePasswordHash :: "int \<Rightarrow> string \<Rightarrow> int \<Rightarrow> bool \<Rightarrow> auth_db \<Rightarrow> bool \<times> auth_db" where
  "updatePasswordHash i h ts clear d = one_row (update_users (\<lambda>u. u_id u = i)
     (\<lambda>u. u\<lparr>u_hash := h, u_changed_at := Some ts,
        u_must_change := (if clear then False else u_must_change u),
        u_initial_expires := (if clear then None else u_initial_expires u)\<rparr>) d)"

definition setLastLogin :: "int \<Rightarrow> int \<Rightarrow> string \<Rightarrow> auth_db \<Rightarrow> bool \<times> auth_db" where
  "setLastLogin i ts ip d = was_done (update_users (\<lambda>u. u_id u = i)
     (\<lambda>u. u\<lparr>u_last_login_at := Some ts, u_last_login_ip := ip\<rparr>) d)"

definition setDisabled :: "int \<Rightarrow> bool \<Rightarrow> auth_db \<Rightarrow> bool \<times> auth_db" where
  "setDisabled i v d = one_row (update_users (\<lambda>u. u_id u = i) (\<lambda>u. u\<lparr>u_disabled := v\<rparr>) d)"

definition updateUser :: "int \<Rightarrow> string \<Rightarrow> Role \<Rightarrow> AuthSource \<Rightarrow> auth_db \<Rightarrow> bool \<times> auth_db" where
  "updateUser i email r src d = one_row (update_users (\<lambda>u. u_id u = i)
     (\<lambda>u. u\<lparr>u_email := email, u_role := r, u_source := src\<rparr>) d)"

definition setMustChangePassword :: "int \<Rightarrow> bool \<Rightarrow> auth_db \<Rightarrow> bool \<times> auth_db" where
  "setMustChangePassword i v d = one_row (update_users (\<lambda>u. u_id u = i) (\<lambda>u. u\<lparr>u_must_change := v\<rparr>) d)"

definition clearInitialPasswordExpiry :: "int \<Rightarrow> auth_db \<Rightarrow> bool \<times> auth_db" where
  "clearInitialPasswordExpiry i d = was_done (update_users (\<lambda>u. u_id u = i) (\<lambda>u. u\<lparr>u_initial_expires := None\<rparr>) d)"

definition setInitialPasswordExpiry :: "int \<Rightarrow> int \<Rightarrow> auth_db \<Rightarrow> bool \<times> auth_db" where
  "setInitialPasswordExpiry i ts d = one_row (update_users (\<lambda>u. u_id u = i) (\<lambda>u. u\<lparr>u_initial_expires := Some ts\<rparr>) d)"

definition recordFailedLogin :: "int \<Rightarrow> int \<Rightarrow> int option \<Rightarrow> auth_db \<Rightarrow> bool \<times> auth_db" where
  "recordFailedLogin i n lock d = one_row (update_users (\<lambda>u. u_id u = i)
     (\<lambda>u. u\<lparr>u_failed := n, u_locked_until := lock\<rparr>) d)"

definition clearFailedLogin :: "int \<Rightarrow> auth_db \<Rightarrow> bool \<times> auth_db" where
  "clearFailedLogin i d = was_done (update_users (\<lambda>u. u_id u = i) (\<lambda>u. u\<lparr>u_failed := 0, u_locked_until := None\<rparr>) d)"

definition updateLdapGroupsCache :: "int \<Rightarrow> string \<Rightarrow> int \<Rightarrow> auth_db \<Rightarrow> bool \<times> auth_db" where
  "updateLdapGroupsCache i gs ts d = one_row (update_users (\<lambda>u. u_id u = i)
     (\<lambda>u. u\<lparr>u_ldap_groups := gs, u_ldap_cached_at := Some ts\<rparr>) d)"

text \<open>
  \<open>purgeUser\<close>: one transaction. What the statements make of the tables, and the foreign keys the last
  of them meets: \<open>channel_permissions.granted_by\<close> is one of those, and no statement clears it.
\<close>

definition purged :: "int \<Rightarrow> auth_db \<Rightarrow> auth_db" where
  "purged i d = d\<lparr>
     sessions := filter (\<lambda>s. s_user s \<noteq> i) (sessions d),
     channel_permissions := filter (\<lambda>c. cp_user c \<noteq> i) (channel_permissions d),
     player_grants := filter (\<lambda>g. pg_user g \<noteq> i) (player_grants d),
     ldap_config := map_option (\<lambda>c. if lc_updated_by c = Some i then c\<lparr>lc_updated_by := None\<rparr> else c) (ldap_config d),
     smtp_config := map_option (\<lambda>c. if sc_updated_by c = Some i then c\<lparr>sc_updated_by := None\<rparr> else c) (smtp_config d),
     users := filter (\<lambda>u. u_id u \<noteq> i)
       (map (\<lambda>u. if u_created_by u = Some i then u\<lparr>u_created_by := None\<rparr> else u) (users d))\<rparr>"

definition grants_of_others :: "int \<Rightarrow> auth_db \<Rightarrow> bool" where
  "grants_of_others i d = list_ex (\<lambda>c. cp_user c \<noteq> i \<and> cp_granted_by c = Some i) (channel_permissions d)"

definition purgeUser :: "int \<Rightarrow> auth_db \<Rightarrow> bool \<times> auth_db" where
  "purgeUser i d =
     (if write_refused d \<or> grants_of_others i d \<or> length (filter (\<lambda>u. u_id u = i) (users d)) \<noteq> 1 then (False, tried d)
      else (True, purged i (tried d)))"

subsection \<open>Sessions\<close>

text \<open>On success the session carries its new id as well; no caller reads it.\<close>

definition insertSession :: "Session \<Rightarrow> auth_db \<Rightarrow> bool \<times> auth_db" where
  "insertSession s d =
     (if write_refused d \<or> list_ex (\<lambda>t. s_jti t = s_jti s) (sessions d) \<or> \<not> user_exists d (s_user s) then (False, tried d)
      else (True, (tried d)\<lparr>sessions := sessions d
              @ [s\<lparr>s_id := next_rowid (map s_id (sessions d)), s_last_seen_at := None\<rparr>]\<rparr>))"

definition findSessionByJwtId :: "auth_db \<Rightarrow> string \<Rightarrow> Session option" where
  "findSessionByJwtId d j = find (\<lambda>s. s_jti s = j) (sessions d)"

definition findSessionByRefreshTokenHash :: "auth_db \<Rightarrow> string \<Rightarrow> Session option" where
  "findSessionByRefreshTokenHash d h = find (\<lambda>s. s_hash s = h) (sessions d)"

text \<open>\<open>COALESCE(revoked_at, ?)\<close>: a time that is there stays.\<close>

definition revoke_at :: "int \<Rightarrow> Session \<Rightarrow> Session" where
  "revoke_at now s = s\<lparr>s_revoked_at := Some (case s_revoked_at s of None \<Rightarrow> now | Some t \<Rightarrow> t)\<rparr>"

definition revokeSessionByJwtId :: "string \<Rightarrow> int \<Rightarrow> auth_db \<Rightarrow> bool \<times> auth_db" where
  "revokeSessionByJwtId j now d = one_row (update_sessions (\<lambda>s. s_jti s = j) (revoke_at now) d)"

definition revokeAllSessionsForUser :: "int \<Rightarrow> int \<Rightarrow> auth_db \<Rightarrow> nat \<times> auth_db" where
  "revokeAllSessionsForUser i now d =
     row_count (update_sessions (\<lambda>s. s_user s = i \<and> s_revoked_at s = None) (revoke_at now) d)"

definition revokeOtherSessionsForUser :: "int \<Rightarrow> string \<Rightarrow> int \<Rightarrow> auth_db \<Rightarrow> nat \<times> auth_db" where
  "revokeOtherSessionsForUser i keep now d =
     row_count (update_sessions (\<lambda>s. s_user s = i \<and> s_jti s \<noteq> keep \<and> s_revoked_at s = None) (revoke_at now) d)"

text \<open>\<open>ORDER BY (last_seen_at IS NULL), last_seen_at DESC, created_at DESC\<close>, the last key first.\<close>

definition listActiveSessionsForUser :: "auth_db \<Rightarrow> int \<Rightarrow> int \<Rightarrow> Session list" where
  "listActiveSessionsForUser d i now =
     sort_key (\<lambda>s. if s_last_seen_at s = None then 1 else 0 :: nat)
       (sort_key (\<lambda>s. case s_last_seen_at s of None \<Rightarrow> 0 | Some t \<Rightarrow> - t)
         (sort_key (\<lambda>s. - s_created_at s)
           (filter (\<lambda>s. s_user s = i \<and> s_revoked_at s = None \<and> now < s_expires_at s) (sessions d))))"

definition revokeSessionByJwtIdForUser :: "string \<Rightarrow> int \<Rightarrow> int \<Rightarrow> auth_db \<Rightarrow> bool \<times> auth_db" where
  "revokeSessionByJwtIdForUser j i now d =
     one_row (update_sessions (\<lambda>s. s_jti s = j \<and> s_user s = i \<and> s_revoked_at s = None)
       (\<lambda>s. s\<lparr>s_revoked_at := Some now\<rparr>) d)"

definition touchSession :: "string \<Rightarrow> int \<Rightarrow> int \<Rightarrow> auth_db \<Rightarrow> bool \<times> auth_db" where
  "touchSession j now throttle d =
     one_row (update_sessions (\<lambda>s. s_jti s = j \<and> s_revoked_at s = None \<and>
         (case s_last_seen_at s of None \<Rightarrow> True | Some t \<Rightarrow> t \<le> now - throttle))
       (\<lambda>s. s\<lparr>s_last_seen_at := Some now\<rparr>) d)"

subsection \<open>Rights on channels and screens\<close>

definition setChannelPermission :: "int \<Rightarrow> int \<Rightarrow> ChannelPermission \<Rightarrow> int \<Rightarrow> int \<Rightarrow> auth_db \<Rightarrow> bool \<times> auth_db" where
  "setChannelPermission i ch p by_user ts d =
     (let by_opt = (if 0 < by_user then Some by_user else None);
          row = \<lparr>cp_user = i, cp_channel = ch, cp_permission = p, cp_granted_at = ts, cp_granted_by = by_opt\<rparr>
      in if write_refused d \<or> \<not> user_exists d i \<or> \<not> fk_users d by_opt then (False, tried d)
         else if list_ex (\<lambda>c. cp_user c = i \<and> cp_channel c = ch) (channel_permissions d)
         then (True, (tried d)\<lparr>channel_permissions :=
                map (\<lambda>c. if cp_user c = i \<and> cp_channel c = ch then row else c) (channel_permissions d)\<rparr>)
         else (True, (tried d)\<lparr>channel_permissions := channel_permissions d @ [row]\<rparr>))"

definition delete_permissions :: "(ChannelPermissionRow \<Rightarrow> bool) \<Rightarrow> auth_db \<Rightarrow> nat option \<times> auth_db" where
  "delete_permissions P d =
     (if write_refused d then (None, tried d)
      else (Some (length (filter P (channel_permissions d))),
            (tried d)\<lparr>channel_permissions := filter (\<lambda>c. \<not> P c) (channel_permissions d)\<rparr>))"

definition removeChannelPermission :: "int \<Rightarrow> int \<Rightarrow> auth_db \<Rightarrow> bool \<times> auth_db" where
  "removeChannelPermission i ch d =
     (let r = row_count (delete_permissions (\<lambda>c. cp_user c = i \<and> cp_channel c = ch) d) in (0 < fst r, snd r))"

definition removeAllChannelPermissionsForUser :: "int \<Rightarrow> auth_db \<Rightarrow> nat \<times> auth_db" where
  "removeAllChannelPermissionsForUser i d = row_count (delete_permissions (\<lambda>c. cp_user c = i) d)"

definition listChannelGrantsForUser :: "auth_db \<Rightarrow> int \<Rightarrow> ChannelGrant list" where
  "listChannelGrantsForUser d i =
     map (\<lambda>c. \<lparr>grant_channel = cp_channel c, grant_permission = cp_permission c\<rparr>)
       (sort_key cp_channel (filter (\<lambda>c. cp_user c = i) (channel_permissions d)))"

text \<open>The rows joined with the user's name; the name of a user who is missing reads as empty.\<close>

definition name_of_user :: "auth_db \<Rightarrow> int \<Rightarrow> string" where
  "name_of_user d i = (case findUserById d i of None \<Rightarrow> [] | Some u \<Rightarrow> u_name u)"

definition listChannelPermissionsForUser :: "auth_db \<Rightarrow> int \<Rightarrow> (ChannelPermissionRow \<times> string) list" where
  "listChannelPermissionsForUser d i =
     map (\<lambda>c. (c, name_of_user d (cp_user c))) (sort_key cp_channel (filter (\<lambda>c. cp_user c = i) (channel_permissions d)))"

definition listChannelPermissionsForChannel :: "auth_db \<Rightarrow> int \<Rightarrow> (ChannelPermissionRow \<times> string) list" where
  "listChannelPermissionsForChannel d ch =
     sort_key snd (map (\<lambda>c. (c, name_of_user d (cp_user c)))
       (filter (\<lambda>c. cp_channel c = ch) (channel_permissions d)))"

definition scope_rank :: "ScopeKind \<Rightarrow> nat" where
  "scope_rank s = (if s = ObjectScope then 1 else 0)"

text \<open>\<open>'group'\<close> sorts before \<open>'object'\<close>; the object of a group right is not stored and reads as 0.\<close>

definition listPlayerGrantsForUser :: "auth_db \<Rightarrow> int \<Rightarrow> PlayerScopeGrant list" where
  "listPlayerGrantsForUser d i =
     sort_key (\<lambda>g. scope_rank (scope g)) (sort_key scope_id
       (map (\<lambda>r. (pg_grant r)\<lparr>scope_object := 0\<rparr>) (filter (\<lambda>r. pg_user r = i) (player_grants d))))"

definition scope_key :: "PlayerScopeGrant \<Rightarrow> ScopeKind \<times> int" where
  "scope_key g = (scope g, scope_id g)"

definition replacePlayerGrantsForUser ::
    "int \<Rightarrow> PlayerScopeGrant list \<Rightarrow> int option \<Rightarrow> int \<Rightarrow> auth_db \<Rightarrow> bool \<times> auth_db" where
  "replacePlayerGrantsForUser i gs by_user ts d =
     (if \<not> distinct (map scope_key gs) then (False, d)
      else if write_refused d \<or> \<not> user_exists d i then (False, tried d)
      else (True, (tried d)\<lparr>player_grants := filter (\<lambda>r. pg_user r \<noteq> i) (player_grants d)
              @ map (\<lambda>g. \<lparr>pg_user = i, pg_grant = g, pg_granted_at = ts, pg_granted_by = by_user\<rparr>) gs\<rparr>))"

definition removePlayerGrantsForScope :: "ScopeKind \<Rightarrow> int \<Rightarrow> auth_db \<Rightarrow> nat \<times> auth_db" where
  "removePlayerGrantsForScope sc i d =
     (if write_refused d then (0, tried d)
      else (length (filter (\<lambda>r. scope_key (pg_grant r) = (sc, i)) (player_grants d)),
            (tried d)\<lparr>player_grants := filter (\<lambda>r. scope_key (pg_grant r) \<noteq> (sc, i)) (player_grants d)\<rparr>))"

subsection \<open>The single rows\<close>

definition storeJwtSecret :: "nat list \<Rightarrow> auth_db \<Rightarrow> bool \<times> auth_db" where
  "storeJwtSecret c d =
     (if c = [] then (False, d) else if write_refused d then (False, tried d) else (True, (tried d)\<lparr>jwt_secret := Some c\<rparr>))"

definition hasJwtSecret :: "auth_db \<Rightarrow> bool" where
  "hasJwtSecret d \<longleftrightarrow> jwt_secret d \<noteq> None"

definition readJwtSecret :: "auth_db \<Rightarrow> nat list option" where
  "readJwtSecret d = (case jwt_secret d of None \<Rightarrow> None | Some c \<Rightarrow> if c = [] then None else Some c)"

definition writeLdapConfigRow :: "LdapConfigRow \<Rightarrow> auth_db \<Rightarrow> bool \<times> auth_db" where
  "writeLdapConfigRow r d =
     (if write_refused d \<or> \<not> fk_users d (lc_updated_by r) then (False, tried d) else (True, (tried d)\<lparr>ldap_config := Some r\<rparr>))"

definition writeSmtpConfigRow :: "SmtpConfigRow \<Rightarrow> auth_db \<Rightarrow> bool \<times> auth_db" where
  "writeSmtpConfigRow r d =
     (if write_refused d \<or> \<not> fk_users d (sc_updated_by r) then (False, tried d) else (True, (tried d)\<lparr>smtp_config := Some r\<rparr>))"

definition writeSystemTimeConfigRow :: "SystemTimeConfigRow \<Rightarrow> auth_db \<Rightarrow> bool \<times> auth_db" where
  "writeSystemTimeConfigRow r d =
     (if write_refused d then (False, tried d) else (True, (tried d)\<lparr>system_time_config := Some r\<rparr>))"

text \<open>The poller's update: nothing to do, and no failure, when there is no row yet.\<close>

definition updateSystemTimeNtpSync :: "int \<Rightarrow> int \<Rightarrow> auth_db \<Rightarrow> bool \<times> auth_db" where
  "updateSystemTimeNtpSync off ts d =
     (if write_refused d then (False, tried d)
      else (True, (tried d)\<lparr>system_time_config := map_option
              (\<lambda>r. r\<lparr>tc_ntp_last_offset_ms := Some off, tc_ntp_last_sync_at := Some ts\<rparr>) (system_time_config d)\<rparr>))"
subsection \<open>The constraints of the schema\<close>

definition user_ids :: "auth_db \<Rightarrow> int set" where
  "user_ids d = u_id ` set (users d)"

definition cp_key :: "ChannelPermissionRow \<Rightarrow> int \<times> int" where
  "cp_key c = (cp_user c, cp_channel c)"

definition pg_key :: "PlayerGrantRow \<Rightarrow> int \<times> ScopeKind \<times> int" where
  "pg_key r = (pg_user r, scope_key (pg_grant r))"

definition keys_ok :: "auth_db \<Rightarrow> bool" where
  "keys_ok d \<longleftrightarrow> distinct (map u_id (users d)) \<and> distinct (map u_name (users d)) \<and>
     distinct (map s_id (sessions d)) \<and> distinct (map s_jti (sessions d)) \<and>
     distinct (map cp_key (channel_permissions d)) \<and> distinct (map pg_key (player_grants d))"

definition refs_ok :: "auth_db \<Rightarrow> bool" where
  "refs_ok d \<longleftrightarrow> (\<forall>u\<in>set (users d). set_option (u_created_by u) \<subseteq> user_ids d) \<and>
     s_user ` set (sessions d) \<subseteq> user_ids d \<and>
     (\<forall>c\<in>set (channel_permissions d). cp_user c \<in> user_ids d \<and> set_option (cp_granted_by c) \<subseteq> user_ids d) \<and>
     pg_user ` set (player_grants d) \<subseteq> user_ids d \<and>
     (\<forall>c\<in>set_option (ldap_config d). set_option (lc_updated_by c) \<subseteq> user_ids d) \<and>
     (\<forall>c\<in>set_option (smtp_config d). set_option (sc_updated_by c) \<subseteq> user_ids d)"

definition auth_ok :: "auth_db \<Rightarrow> bool" where
  "auth_ok d \<longleftrightarrow> keys_ok d \<and> refs_ok d"

lemma user_exists_iff: "user_exists d i \<longleftrightarrow> i \<in> user_ids d"
  by (auto simp: user_exists_def user_ids_def list_ex_iff)

lemma fk_users_iff: "fk_users d r \<longleftrightarrow> set_option r \<subseteq> user_ids d"
  by (cases r) (simp_all add: fk_users_def user_exists_iff)

lemma tried_simps [simp]:
  "users (tried d) = users d" "sessions (tried d) = sessions d" "channel_permissions (tried d) = channel_permissions d"
  "player_grants (tried d) = player_grants d" "ldap_config (tried d) = ldap_config d"
  "smtp_config (tried d) = smtp_config d" "user_ids (tried d) = user_ids d"
  by (simp_all add: tried_def user_ids_def)

lemma next_rowid_fresh: "next_rowid ids \<notin> set ids"
proof (cases "ids = []")
  case False
  show ?thesis
  proof
    assume "next_rowid ids \<in> set ids"
    then have "Max (set ids) + 1 \<in> set ids" using False by (simp add: next_rowid_def)
    then have "Max (set ids) + 1 \<le> Max (set ids)" by (intro Max_ge) simp_all
    then show False by simp
  qed
qed (simp add: next_rowid_def)

lemma empty_auth_ok: "auth_ok empty_auth_db"
  by (simp add: auth_ok_def keys_ok_def refs_ok_def empty_auth_db_def)

lemma tried_ok [simp]: "auth_ok (tried d) = auth_ok d"
  by (simp add: auth_ok_def keys_ok_def refs_ok_def)

text \<open>What an \<open>UPDATE\<close> that leaves the key columns alone does to a column.\<close>

lemma map_update_same: "(\<And>x. k (f x) = k x) \<Longrightarrow> map k (map (\<lambda>x. if P x then f x else x) xs) = map k xs"
  by (induction xs) auto

lemma image_update_same: "(\<And>x. k (f x) = k x) \<Longrightarrow> k ` (\<lambda>x. if P x then f x else x) ` S = k ` S"
  unfolding image_image by (rule image_cong) simp_all

lemma update_users_ok:
  assumes f: "\<And>u. u_id (f u) = u_id u" "\<And>u. u_name (f u) = u_name u" "\<And>u. u_created_by (f u) = u_created_by u"
    and ok: "auth_ok d"
  shows "auth_ok (snd (update_users P f d))"
proof (cases "write_refused d")
  case True
  then show ?thesis using ok by (simp add: update_users_def)
next
  case False
  let ?d = "(tried d)\<lparr>users := map (\<lambda>u. if P u then f u else u) (users d)\<rparr>"
  have ids: "user_ids ?d = user_ids d" using image_update_same [of u_id f P] f by (simp add: user_ids_def)
  have "keys_ok ?d" using ok by (simp add: auth_ok_def keys_ok_def map_update_same f del: map_map)
  moreover have "refs_ok ?d"
    using ok by (auto simp: auth_ok_def refs_ok_def ids f)
  ultimately show ?thesis using False by (simp add: update_users_def auth_ok_def)
qed

lemma update_sessions_ok:
  assumes f: "\<And>s. s_id (f s) = s_id s" "\<And>s. s_jti (f s) = s_jti s" "\<And>s. s_user (f s) = s_user s"
    and ok: "auth_ok d"
  shows "auth_ok (snd (update_sessions P f d))"
proof (cases "write_refused d")
  case True
  then show ?thesis using ok by (simp add: update_sessions_def)
next
  case False
  let ?d = "(tried d)\<lparr>sessions := map (\<lambda>s. if P s then f s else s) (sessions d)\<rparr>"
  have ids: "user_ids ?d = user_ids d" by (simp add: user_ids_def)
  have "keys_ok ?d" using ok by (simp add: auth_ok_def keys_ok_def map_update_same f del: map_map)
  moreover have "refs_ok ?d"
    using ok image_update_same [of s_user f P "set (sessions d)"] f
    by (simp add: auth_ok_def refs_ok_def ids)
  ultimately show ?thesis using False by (simp add: update_sessions_def auth_ok_def)
qed

lemma revoke_at_simps [simp]:
  "s_id (revoke_at t s) = s_id s" "s_jti (revoke_at t s) = s_jti s" "s_user (revoke_at t s) = s_user s"
  "s_hash (revoke_at t s) = s_hash s" "s_revoked_at (revoke_at t s) \<noteq> None" "s_expires_at (revoke_at t s) = s_expires_at s"
  by (simp_all add: revoke_at_def)

lemmas answer_defs = one_row_def was_done_def row_count_def

lemma user_updates_ok:
  assumes "auth_ok d"
  shows "auth_ok (snd (updatePasswordHash i h t c d))" "auth_ok (snd (setLastLogin i t ip d))"
    "auth_ok (snd (setDisabled i v d))" "auth_ok (snd (updateUser i e r src d))"
    "auth_ok (snd (setMustChangePassword i v d))" "auth_ok (snd (clearInitialPasswordExpiry i d))"
    "auth_ok (snd (setInitialPasswordExpiry i t d))" "auth_ok (snd (recordFailedLogin i n lock d))"
    "auth_ok (snd (clearFailedLogin i d))" "auth_ok (snd (updateLdapGroupsCache i gs t d))"
  using assms by (simp_all add: answer_defs update_users_ok updatePasswordHash_def setLastLogin_def setDisabled_def
      updateUser_def setMustChangePassword_def clearInitialPasswordExpiry_def setInitialPasswordExpiry_def
      recordFailedLogin_def clearFailedLogin_def updateLdapGroupsCache_def)

lemma session_updates_ok:
  assumes "auth_ok d"
  shows "auth_ok (snd (revokeSessionByJwtId j t d))" "auth_ok (snd (revokeAllSessionsForUser i t d))"
    "auth_ok (snd (revokeOtherSessionsForUser i j t d))" "auth_ok (snd (revokeSessionByJwtIdForUser j i t d))"
    "auth_ok (snd (touchSession j t n d))"
  using assms by (simp_all add: answer_defs update_sessions_ok revokeSessionByJwtId_def revokeAllSessionsForUser_def
      revokeOtherSessionsForUser_def revokeSessionByJwtIdForUser_def touchSession_def)
lemma insertUser_ok:
  assumes ok: "auth_ok d"
  shows "auth_ok (snd (insertUser u d))"
proof -
  define i where "i = next_rowid (map u_id (users d))"
  define row where "row = u\<lparr>u_id := i, u_failed := 0, u_locked_until := None, u_ldap_groups := [], u_ldap_cached_at := None\<rparr>"
  show ?thesis
  proof (cases "write_refused d \<or> list_ex (\<lambda>v. u_name v = u_name u) (users d) \<or> \<not> (u_created_by u = Some i \<or> fk_users d (u_created_by u))")
    case True
    then show ?thesis using ok by (simp add: insertUser_def Let_def i_def [symmetric])
  next
    case False
    let ?d = "(tried d)\<lparr>users := users d @ [row]\<rparr>"
    have fresh: "i \<notin> u_id ` set (users d)" using next_rowid_fresh [of "map u_id (users d)"] by (simp add: i_def)
    have name: "u_name u \<notin> u_name ` set (users d)" using False by (auto simp: list_ex_iff)
    have by_ok: "set_option (u_created_by u) \<subseteq> insert i (user_ids d)" using False by (auto simp: fk_users_iff)
    have row: "u_id row = i" "u_name row = u_name u" "u_created_by row = u_created_by u" by (simp_all add: row_def)
    have ids: "user_ids ?d = insert i (user_ids d)" by (simp add: user_ids_def row)
    have "keys_ok ?d" using ok fresh name by (simp add: auth_ok_def keys_ok_def row)
    moreover have "refs_ok ?d" using ok by_ok unfolding auth_ok_def refs_ok_def ids by (auto simp: row)
    ultimately have "auth_ok ?d" by (simp add: auth_ok_def)
    moreover have "insertUser u d = (Some i, ?d)"
      using False by (simp add: insertUser_def Let_def i_def [symmetric] row_def)
    ultimately show ?thesis by simp
  qed
qed

lemma insertSession_ok:
  assumes ok: "auth_ok d"
  shows "auth_ok (snd (insertSession s d))"
proof (cases "write_refused d \<or> list_ex (\<lambda>t. s_jti t = s_jti s) (sessions d) \<or> \<not> user_exists d (s_user s)")
  case True
  then show ?thesis using ok by (simp add: insertSession_def)
next
  case False
  define row where "row = s\<lparr>s_id := next_rowid (map s_id (sessions d)), s_last_seen_at := None\<rparr>"
  let ?d = "(tried d)\<lparr>sessions := sessions d @ [row]\<rparr>"
  have fresh: "s_id row \<notin> s_id ` set (sessions d)" using next_rowid_fresh [of "map s_id (sessions d)"] by (simp add: row_def)
  have jti: "s_jti s \<notin> s_jti ` set (sessions d)" using False by (auto simp: list_ex_iff)
  have row: "s_jti row = s_jti s" "s_user row = s_user s" by (simp_all add: row_def)
  have ids: "user_ids ?d = user_ids d" by (simp add: user_ids_def)
  have "keys_ok ?d" using ok fresh jti by (simp add: auth_ok_def keys_ok_def row)
  moreover have "refs_ok ?d" using ok False by (simp add: auth_ok_def refs_ok_def ids row user_exists_iff)
  ultimately have "auth_ok ?d" by (simp add: auth_ok_def)
  then show ?thesis using False by (simp add: insertSession_def row_def)
qed

text \<open>A table of which some rows go.\<close>

lemma distinct_map_sub: "distinct (map k xs) \<Longrightarrow> distinct (map k (filter P xs))"
  by (simp add: distinct_map_filter)

lemma permissions_ok:
  assumes ok: "auth_ok d" and keys: "distinct (map cp_key rows)"
    and refs: "\<And>c. c \<in> set rows \<Longrightarrow> cp_user c \<in> user_ids d \<and> set_option (cp_granted_by c) \<subseteq> user_ids d"
  shows "auth_ok ((tried d)\<lparr>channel_permissions := rows\<rparr>)"
proof -
  let ?d = "(tried d)\<lparr>channel_permissions := rows\<rparr>"
  have ids: "user_ids ?d = user_ids d" by (simp add: user_ids_def)
  have "keys_ok ?d" using ok keys by (simp add: auth_ok_def keys_ok_def)
  moreover have "refs_ok ?d" using ok refs unfolding auth_ok_def refs_ok_def ids by simp
  ultimately show ?thesis by (simp add: auth_ok_def)
qed

lemma setChannelPermission_ok:
  assumes ok: "auth_ok d"
  shows "auth_ok (snd (setChannelPermission i ch p by_user t d))"
proof -
  define by_opt where "by_opt = (if 0 < by_user then Some by_user else None)"
  define row where "row = \<lparr>cp_user = i, cp_channel = ch, cp_permission = p, cp_granted_at = t, cp_granted_by = by_opt\<rparr>"
  let ?here = "\<lambda>c. cp_user c = i \<and> cp_channel c = ch"
  have row: "cp_user row = i" "cp_channel row = ch" "cp_key row = (i, ch)" "cp_granted_by row = by_opt"
    by (simp_all add: row_def cp_key_def)
  have old: "distinct (map cp_key (channel_permissions d))"
    "\<And>c. c \<in> set (channel_permissions d) \<Longrightarrow> cp_user c \<in> user_ids d \<and> set_option (cp_granted_by c) \<subseteq> user_ids d"
    using ok by (simp_all add: auth_ok_def keys_ok_def refs_ok_def)
  show ?thesis
  proof (cases "write_refused d \<or> \<not> user_exists d i \<or> \<not> fk_users d by_opt")
    case True
    then show ?thesis using ok by (simp add: setChannelPermission_def Let_def by_opt_def)
  next
    case False
    then have new: "i \<in> user_ids d" "set_option by_opt \<subseteq> user_ids d" by (simp_all add: user_exists_iff fk_users_iff)
    have "map cp_key (map (\<lambda>c. if ?here c then row else c) (channel_permissions d)) = map cp_key (channel_permissions d)"
      by (auto simp: cp_key_def row)
    then have "distinct (map cp_key (map (\<lambda>c. if ?here c then row else c) (channel_permissions d)))"
      using old(1) by (simp only:)
    then have "auth_ok ((tried d)\<lparr>channel_permissions := map (\<lambda>c. if ?here c then row else c) (channel_permissions d)\<rparr>)"
      using old(2) new by (intro permissions_ok ok) (auto simp: row split: if_splits)
    moreover have "\<not> list_ex ?here (channel_permissions d) \<Longrightarrow>
        auth_ok ((tried d)\<lparr>channel_permissions := channel_permissions d @ [row]\<rparr>)"
      using old new by (intro permissions_ok ok) (auto simp: row cp_key_def list_ex_iff)
    moreover have "snd (setChannelPermission i ch p by_user t d) =
        (if list_ex ?here (channel_permissions d)
         then (tried d)\<lparr>channel_permissions := map (\<lambda>c. if ?here c then row else c) (channel_permissions d)\<rparr>
         else (tried d)\<lparr>channel_permissions := channel_permissions d @ [row]\<rparr>)"
      using False by (simp add: setChannelPermission_def Let_def by_opt_def row_def)
    ultimately show ?thesis by simp
  qed
qed

lemma delete_permissions_ok: "auth_ok d \<Longrightarrow> auth_ok (snd (delete_permissions P d))"
  using permissions_ok [of d "filter (\<lambda>c. \<not> P c) (channel_permissions d)"]
  by (auto simp: delete_permissions_def auth_ok_def keys_ok_def refs_ok_def distinct_map_filter)

lemma removeChannelPermission_ok: "auth_ok d \<Longrightarrow> auth_ok (snd (removeChannelPermission i ch d))"
  by (simp add: removeChannelPermission_def Let_def row_count_def delete_permissions_ok)

lemma removeAllChannelPermissionsForUser_ok: "auth_ok d \<Longrightarrow> auth_ok (snd (removeAllChannelPermissionsForUser i d))"
  by (simp add: removeAllChannelPermissionsForUser_def row_count_def delete_permissions_ok)

lemma player_grants_ok:
  assumes ok: "auth_ok d" and keys: "distinct (map pg_key rows)" and refs: "pg_user ` set rows \<subseteq> user_ids d"
  shows "auth_ok ((tried d)\<lparr>player_grants := rows\<rparr>)"
proof -
  let ?d = "(tried d)\<lparr>player_grants := rows\<rparr>"
  have ids: "user_ids ?d = user_ids d" by (simp add: user_ids_def)
  have "keys_ok ?d" using ok keys by (simp add: auth_ok_def keys_ok_def)
  moreover have "refs_ok ?d" using ok refs unfolding auth_ok_def refs_ok_def ids by simp
  ultimately show ?thesis by (simp add: auth_ok_def)
qed

lemma replacePlayerGrantsForUser_ok:
  assumes ok: "auth_ok d"
  shows "auth_ok (snd (replacePlayerGrantsForUser i gs by_user t d))"
proof -
  let ?new = "map (\<lambda>g. \<lparr>pg_user = i, pg_grant = g, pg_granted_at = t, pg_granted_by = by_user\<rparr>) gs"
  have "distinct (map scope_key gs) \<Longrightarrow> user_exists d i \<Longrightarrow>
      auth_ok ((tried d)\<lparr>player_grants := filter (\<lambda>r. pg_user r \<noteq> i) (player_grants d) @ ?new\<rparr>)"
    using ok by (intro player_grants_ok)
      (auto simp: auth_ok_def keys_ok_def refs_ok_def user_exists_iff pg_key_def distinct_map inj_on_def)
  then show ?thesis using ok by (auto simp: replacePlayerGrantsForUser_def)
qed

lemma removePlayerGrantsForScope_ok:
  assumes ok: "auth_ok d"
  shows "auth_ok (snd (removePlayerGrantsForScope sc i d))"
proof -
  have "auth_ok ((tried d)\<lparr>player_grants := filter (\<lambda>r. scope_key (pg_grant r) \<noteq> (sc, i)) (player_grants d)\<rparr>)"
    using ok by (intro player_grants_ok) (auto simp: auth_ok_def keys_ok_def refs_ok_def distinct_map_filter)
  then show ?thesis using ok by (simp add: removePlayerGrantsForScope_def)
qed
text \<open>A purge: what refers to the user is gone before the row is, save the rights on channels he gave to others.\<close>

lemma distinct_map_map: "(\<And>x. k (f x) = k x) \<Longrightarrow> distinct (map k (map f xs)) = distinct (map k xs)"
  by (simp add: comp_def)

lemma purged_ids: "user_ids (purged i d) = user_ids d - {i}"
proof -
  let ?f = "\<lambda>u. if u_created_by u = Some i then u\<lparr>u_created_by := None\<rparr> else u"
  have "u_id ` ?f ` set (users d) = u_id ` set (users d)" by (rule image_update_same) simp
  moreover have "u_id ` {u \<in> ?f ` set (users d). u_id u \<noteq> i} = u_id ` ?f ` set (users d) - {i}" by blast
  ultimately have "u_id ` {u \<in> ?f ` set (users d). u_id u \<noteq> i} = u_id ` set (users d) - {i}" by (simp only:)
  moreover have "users (purged i d) = filter (\<lambda>u. u_id u \<noteq> i) (map ?f (users d))" by (simp add: purged_def)
  ultimately show ?thesis by (simp only: user_ids_def set_filter set_map)
qed

lemma purged_refs:
  assumes refs: "refs_ok d" and free: "\<not> grants_of_others i d"
  shows "refs_ok (purged i d)"
proof -
  have "\<forall>u\<in>set (users (purged i d)). set_option (u_created_by u) \<subseteq> user_ids d - {i}"
    using refs by (auto simp: refs_ok_def purged_def)
  moreover have "s_user ` set (sessions (purged i d)) \<subseteq> user_ids d - {i}"
    using refs by (auto simp: refs_ok_def purged_def)
  moreover have "\<forall>c\<in>set (channel_permissions (purged i d)). cp_user c \<in> user_ids d - {i} \<and> set_option (cp_granted_by c) \<subseteq> user_ids d - {i}"
    using refs free by (auto simp: refs_ok_def purged_def grants_of_others_def list_ex_iff)
  moreover have "pg_user ` set (player_grants (purged i d)) \<subseteq> user_ids d - {i}"
    using refs by (auto simp: refs_ok_def purged_def)
  moreover have "\<forall>c\<in>set_option (ldap_config (purged i d)). set_option (lc_updated_by c) \<subseteq> user_ids d - {i}"
    using refs by (cases "ldap_config d") (auto simp: refs_ok_def purged_def)
  moreover have "\<forall>c\<in>set_option (smtp_config (purged i d)). set_option (sc_updated_by c) \<subseteq> user_ids d - {i}"
    using refs by (cases "smtp_config d") (auto simp: refs_ok_def purged_def)
  ultimately show ?thesis unfolding refs_ok_def purged_ids by blast
qed

lemma purged_ok:
  assumes ok: "auth_ok d" and free: "\<not> grants_of_others i d"
  shows "auth_ok (purged i d)"
proof -
  have keys: "keys_ok d" and refs: "refs_ok d" using ok by (simp_all add: auth_ok_def)
  let ?f = "\<lambda>u. if u_created_by u = Some i then u\<lparr>u_created_by := None\<rparr> else u"
  have f: "\<And>u. u_id (?f u) = u_id u" "\<And>u. u_name (?f u) = u_name u" by simp_all
  have "distinct (map u_id (filter (\<lambda>u. u_id u \<noteq> i) (map ?f (users d))))"
    "distinct (map u_name (filter (\<lambda>u. u_id u \<noteq> i) (map ?f (users d))))"
    using keys distinct_map_sub [of u_id "map ?f (users d)"] distinct_map_sub [of u_name "map ?f (users d)"]
      distinct_map_map [of u_id ?f, OF f(1)] distinct_map_map [of u_name ?f, OF f(2)]
    unfolding keys_ok_def by blast+
  then have "keys_ok (purged i d)"
    using keys by (simp add: keys_ok_def purged_def distinct_map_sub del: map_map)
  moreover have "refs_ok (purged i d)" using refs free by (rule purged_refs)
  ultimately show ?thesis by (simp add: auth_ok_def)
qed

lemma purgeUser_ok: "auth_ok d \<Longrightarrow> auth_ok (snd (purgeUser i d))"
  by (simp add: purgeUser_def purged_ok grants_of_others_def)

end
