(* ===== verification/AuthService.thy ===== *)
theory AuthService
  imports AuthTables
begin

text \<open>
  Signing in: \<open>auth/AuthService.cpp\<close> over the tables of AuthTables, with \<open>auth/PasswordHasher.cpp\<close> and the
  token pair of \<open>auth/JwtIssuer.cpp\<close>. Argon2id, SHA-256, the JWT library, the JSON library, the directory
  and the resolvers the server is configured with are the fields of an \<open>auth_env\<close>; what a call draws (the clock,
  random ids, a random password, a salt) is its \<open>draw\<close>. A call is atomic and reads the clock once.
  Log lines are not modelled, nor is the signal an audit entry sends to the event bus.

  Results: who gets a token pair and who does not, branch by branch; the lock on guessing; how the last
  administrator, the sessions of a user and a used refresh token are treated.
\<close>

subsection \<open>Errors and their names\<close>

datatype LoginError = LoginUserNotFound | LoginInvalidPassword | LoginUserDisabled | LoginInitialPasswordExpired
  | LoginAccountLocked | LoginInternalError

datatype RefreshError = TokenNotFound | TokenRevoked | TokenExpired | RefreshUserDisabled | LdapCacheExpired
  | RefreshInternalError

datatype AdminError = UsernameInvalid | EmailInvalid | PasswordInvalid | UsernameTaken | AdminUserNotFound
  | AdminInternalError

datatype PurgeError = PurgeUserNotFound | CannotDeleteSelf | LastEnabledAdmin | PurgeInternalError

datatype SelfPasswordError = InvalidSession | SelfUserNotFound | SelfUserDisabled | CurrentPasswordWrong
  | NewPasswordWeak | SelfInternalError

datatype ChannelAclError = AclUserNotFound | UserSourceMismatch | AclInternalError

fun loginErrorName :: "LoginError \<Rightarrow> string" where
  "loginErrorName LoginUserNotFound = ''user_not_found''"
| "loginErrorName LoginInvalidPassword = ''invalid_password''"
| "loginErrorName LoginUserDisabled = ''user_disabled''"
| "loginErrorName LoginInitialPasswordExpired = ''initial_password_expired''"
| "loginErrorName LoginAccountLocked = ''account_locked''"
| "loginErrorName LoginInternalError = ''internal_error''"

fun refreshErrorName :: "RefreshError \<Rightarrow> string" where
  "refreshErrorName TokenNotFound = ''token_not_found''"
| "refreshErrorName TokenRevoked = ''token_revoked''"
| "refreshErrorName TokenExpired = ''token_expired''"
| "refreshErrorName RefreshUserDisabled = ''user_disabled''"
| "refreshErrorName LdapCacheExpired = ''ldap_cache_expired''"
| "refreshErrorName RefreshInternalError = ''internal_error''"

fun adminErrorName :: "AdminError \<Rightarrow> string" where
  "adminErrorName UsernameInvalid = ''username_invalid''"
| "adminErrorName EmailInvalid = ''email_invalid''"
| "adminErrorName PasswordInvalid = ''password_invalid''"
| "adminErrorName UsernameTaken = ''username_taken''"
| "adminErrorName AdminUserNotFound = ''user_not_found''"
| "adminErrorName AdminInternalError = ''internal_error''"

fun selfPasswordErrorName :: "SelfPasswordError \<Rightarrow> string" where
  "selfPasswordErrorName InvalidSession = ''invalid_session''"
| "selfPasswordErrorName SelfUserNotFound = ''user_not_found''"
| "selfPasswordErrorName SelfUserDisabled = ''user_disabled''"
| "selfPasswordErrorName CurrentPasswordWrong = ''current_password_wrong''"
| "selfPasswordErrorName NewPasswordWeak = ''new_password_weak''"
| "selfPasswordErrorName SelfInternalError = ''internal_error''"

subsection \<open>Groups of a directory\<close>

definition lowercaseAscii :: "string \<Rightarrow> string" where
  "lowercaseAscii s = map tolower_char s"

fun rolePriority :: "Role \<Rightarrow> nat" where
  "rolePriority Admin = 3"
| "rolePriority Operator = 2"
| "rolePriority Viewer = 1"

fun permissionPriority :: "ChannelPermission \<Rightarrow> nat" where
  "permissionPriority Operate = 2"
| "permissionPriority View = 1"

text \<open>\<open>best\<close> after one more candidate: taken when there is none yet, or when it ranks above.\<close>

definition better_of :: "('a \<Rightarrow> nat) \<Rightarrow> 'a \<Rightarrow> 'a option \<Rightarrow> 'a option" where
  "better_of rank x best = (case best of None \<Rightarrow> Some x | Some b \<Rightarrow> if rank b < rank x then Some x else best)"

text \<open>A \<open>std::map\<close> is the list of its entries in the order of its keys.\<close>

definition pickRoleForGroups :: "string list \<Rightarrow> (string \<times> Role) list \<Rightarrow> Role option" where
  "pickRoleForGroups groups role_map =
     (if groups = [] \<or> role_map = [] then None
      else let normalized = map (\<lambda>(k, r). (lowercaseAscii k, r)) role_map in
        fold (\<lambda>g best. fold (\<lambda>(k, r) best. if lowercaseAscii g = k then better_of rolePriority r best else best)
          normalized best) groups None)"

record ChannelAclEntry =
  acl_channel :: int
  group_perms :: "(string \<times> ChannelPermission) list"

definition best_for_entry :: "string list \<Rightarrow> ChannelAclEntry \<Rightarrow> ChannelPermission option" where
  "best_for_entry groups_lc acl =
     fold (\<lambda>(k, p) best. if lowercaseAscii k \<in> set groups_lc then better_of permissionPriority p best else best)
       (group_perms acl) None"

definition merge_entry :: "string list \<Rightarrow> ChannelAclEntry \<Rightarrow> (int \<rightharpoonup> ChannelPermission) \<Rightarrow> (int \<rightharpoonup> ChannelPermission)" where
  "merge_entry groups_lc acl picked =
     (case best_for_entry groups_lc acl of None \<Rightarrow> picked
      | Some p \<Rightarrow> picked(acl_channel acl := better_of permissionPriority p (picked (acl_channel acl))))"

definition pickAclGrantsForGroups :: "string list \<Rightarrow> ChannelAclEntry list \<Rightarrow> ChannelGrant list" where
  "pickAclGrantsForGroups groups channel_acl =
     (if groups = [] \<or> channel_acl = [] then []
      else let picked = fold (merge_entry (map lowercaseAscii groups)) channel_acl Map.empty in
        List.map_filter (\<lambda>ch. map_option (\<lambda>p. \<lparr>grant_channel = ch, grant_permission = p\<rparr>) (picked ch))
          (sort (remdups (map acl_channel channel_acl))))"

subsection \<open>The surroundings of the service\<close>

datatype LdapReason = Disabled | LdapOk | ConnectionFailed | BindServiceFailed | LdapUserNotFound
  | InvalidCredentials | ConfigError | NoRoleMapped | OtherReason

record LdapLoginContext =
  lx_ok :: bool
  lx_role :: Role
  lx_email :: string
  lx_groups :: "string list"
  lx_channel_grants :: "ChannelGrant list"
  lx_reason :: LdapReason

record auth_env =
  argon_hash :: "string \<Rightarrow> string \<Rightarrow> string option"
  argon_verify :: "string \<Rightarrow> string \<Rightarrow> bool"
  sha256 :: "string \<Rightarrow> nat list"
  jwt_sign :: "decoded_token \<Rightarrow> string"
  jwt_decode :: "int \<Rightarrow> jwt_lib"
  grants_for_user :: "(auth_db \<Rightarrow> int \<Rightarrow> ChannelGrant list) option"
  ldap_authenticator :: "(string \<Rightarrow> string \<Rightarrow> LdapLoginContext) option"
  ldap_grants_resolver :: "(string list \<Rightarrow> ChannelGrant list) option"
  dump_groups :: "string list \<Rightarrow> string"
  parse_json :: "string \<Rightarrow> json option"
  threshold :: int
  base_delay_sec :: int
  max_lock_sec :: int
  max_age_sec :: int
  audit_wired :: bool
  password_file_wired :: bool

record draw =
  now :: int
  drawn_jti :: string
  drawn_refresh :: string
  drawn_password :: string
  drawn_salt :: string
  file_writable :: bool

record AuditEntry =
  ae_time :: int
  ae_action :: string
  ae_user :: "int option"
  ae_name :: string
  ae_ip :: string
  ae_details :: string

text \<open>The tables, the trail, and what the file with the first administrator's password holds.\<close>

record auth_service =
  adb :: auth_db
  trail :: "AuditEntry list"
  password_file :: "string option"

definition on_db :: "(auth_db \<Rightarrow> 'a \<times> auth_db) \<Rightarrow> auth_service \<Rightarrow> 'a \<times> auth_service" where
  "on_db f sv = (fst (f (adb sv)), sv\<lparr>adb := snd (f (adb sv))\<rparr>)"

definition emitAudit :: "auth_env \<Rightarrow> draw \<Rightarrow> string \<Rightarrow> int option \<Rightarrow> string \<Rightarrow> string \<Rightarrow> string \<Rightarrow> auth_service \<Rightarrow> auth_service" where
  "emitAudit env dr ev uid name ip details sv =
     (if audit_wired env then sv\<lparr>trail := trail sv @ [\<lparr>ae_time = now dr, ae_action = ev, ae_user = uid, ae_name = name,
        ae_ip = ip, ae_details = details\<rparr>]\<rparr> else sv)"

definition quoted :: "string \<Rightarrow> string" where
  "quoted s = [CHR 0x22] @ s @ [CHR 0x22]"

definition reason :: "string \<Rightarrow> string" where
  "reason r = ''{'' @ quoted ''reason'' @ '':'' @ quoted r @ ''}''"

subsection \<open>Passwords and tokens\<close>

definition hash_password :: "auth_env \<Rightarrow> draw \<Rightarrow> string \<Rightarrow> string option" where
  "hash_password env dr p = (if p = [] then None else argon_hash env (drawn_salt dr) p)"

text \<open>\<open>crypto_pwhash_STRBYTES\<close> is 128.\<close>

definition verify_password :: "auth_env \<Rightarrow> string \<Rightarrow> string \<Rightarrow> bool" where
  "verify_password env p h \<longleftrightarrow> p \<noteq> [] \<and> h \<noteq> [] \<and> length h < 128 \<and> argon_verify env p h"

definition nibble :: "nat \<Rightarrow> char" where
  "nibble n = ''0123456789abcdef'' ! n"

definition hashRefreshToken :: "auth_env \<Rightarrow> string \<Rightarrow> string" where
  "hashRefreshToken env p = concat (map (\<lambda>b. [nibble (b div 16 mod 16), nibble (b mod 16)]) (sha256 env p))"

record TokenPair =
  access_token :: string
  refresh_token :: string
  jwt_id :: string
  access_expires_at :: int
  refresh_expires_at :: int

definition issue :: "auth_env \<Rightarrow> draw \<Rightarrow> User \<Rightarrow> ChannelGrant list \<Rightarrow> TokenPair" where
  "issue env dr u grants =
     \<lparr>access_token = jwt_sign env (issued (u_id u) (u_name u) (u_role u) (u_must_change u) grants (drawn_jti dr) (now dr)),
      refresh_token = drawn_refresh dr, jwt_id = drawn_jti dr,
      access_expires_at = now dr + 3600, refresh_expires_at = now dr + 24 * 30 * 3600\<rparr>"

definition issueAndPersist :: "auth_env \<Rightarrow> draw \<Rightarrow> User \<Rightarrow> string \<Rightarrow> string \<Rightarrow> ChannelGrant list option \<Rightarrow> auth_service \<Rightarrow>
    TokenPair option \<times> auth_service" where
  "issueAndPersist env dr u ip ua override sv =
     (let grants = (case override of Some gs \<Rightarrow> gs
          | None \<Rightarrow> (case grants_for_user env of Some f \<Rightarrow> f (adb sv) (u_id u) | None \<Rightarrow> []));
          pair = issue env dr u grants;
          s = \<lparr>s_id = 0, s_user = u_id u, s_jti = jwt_id pair, s_hash = hashRefreshToken env (refresh_token pair),
               s_ip = ip, s_agent = ua, s_created_at = now dr, s_expires_at = refresh_expires_at pair,
               s_revoked_at = None, s_last_seen_at = None\<rparr>
      in case on_db (insertSession s) sv of (ok, sv1) \<Rightarrow> (if ok then Some pair else None, sv1))"
subsection \<open>Signing in\<close>

definition locked_details :: "int \<Rightarrow> int \<Rightarrow> string" where
  "locked_details until n = quoted ''locked_until'' @ '':'' @ std_to_string until @ '','' @
     quoted ''failed_count'' @ '':'' @ std_to_string n @ ''}''"

text \<open>The lock after \<open>n\<close> failures in a row: it doubles with each failure past the threshold, up to the ceiling.\<close>

definition lock_delay :: "auth_env \<Rightarrow> int \<Rightarrow> int" where
  "lock_delay env n =
     (let over = min 20 (max 0 (n - threshold env));
          delay = base_delay_sec env * 2 ^ nat over
      in if max_lock_sec env < delay then max_lock_sec env else delay)"

definition new_lock :: "auth_env \<Rightarrow> draw \<Rightarrow> int \<Rightarrow> int option" where
  "new_lock env dr n = (if threshold env \<le> n then Some (now dr + lock_delay env n) else None)"

definition failed_login :: "auth_env \<Rightarrow> draw \<Rightarrow> User \<Rightarrow> string \<Rightarrow> auth_service \<Rightarrow> auth_service" where
  "failed_login env dr u ip sv =
     (let n = u_failed u + 1; lock = new_lock env dr n;
          sv1 = snd (on_db (recordFailedLogin (u_id u) n lock) sv);
          sv2 = emitAudit env dr ''login.fail'' (Some (u_id u)) (u_name u) ip
            (''{'' @ quoted ''reason'' @ '':'' @ quoted ''invalid_password'' @ '','' @ quoted ''failed_count'' @ '':''
             @ std_to_string n @ ''}'') sv1
      in case lock of None \<Rightarrow> sv2
         | Some t \<Rightarrow> emitAudit env dr ''login.locked'' (Some (u_id u)) (u_name u) ip (''{'' @ locked_details t n) sv2)"

type_synonym login_result = "LoginError + TokenPair \<times> User"

definition initial_expired :: "draw \<Rightarrow> User \<Rightarrow> bool" where
  "initial_expired dr u \<longleftrightarrow> u_must_change u \<and>
     (case u_initial_expires u of None \<Rightarrow> False | Some t \<Rightarrow> t < now dr)"

text \<open>The password is right: the counter goes, then the age of a temporary password, then the pair.\<close>

definition admit :: "auth_env \<Rightarrow> draw \<Rightarrow> User \<Rightarrow> string \<Rightarrow> string \<Rightarrow> auth_service \<Rightarrow> login_result \<times> auth_service" where
  "admit env dr u ip ua sv =
     (let sv1 = (if u_failed u \<noteq> 0 \<or> u_locked_until u \<noteq> None then snd (on_db (clearFailedLogin (u_id u)) sv) else sv)
      in if initial_expired dr u
         then (Inl LoginInitialPasswordExpired,
               emitAudit env dr ''login.fail'' (Some (u_id u)) (u_name u) ip (reason ''initial_password_expired'') sv1)
         else case issueAndPersist env dr u ip ua None sv1 of
             (None, sv2) \<Rightarrow> (Inl LoginInternalError, sv2)
           | (Some pair, sv2) \<Rightarrow>
               (Inr (pair, u), emitAudit env dr ''login.ok'' (Some (u_id u)) (u_name u) ip
                  (''{'' @ quoted ''jti'' @ '':'' @ quoted (jwt_id pair) @ ''}'')
                  (snd (on_db (setLastLogin (u_id u) (now dr) ip) sv2))))"

definition locked_now :: "draw \<Rightarrow> User \<Rightarrow> bool" where
  "locked_now dr u \<longleftrightarrow> (case u_locked_until u of None \<Rightarrow> False | Some t \<Rightarrow> now dr < t)"

text \<open>The branch of a local user.\<close>

definition login_local :: "auth_env \<Rightarrow> draw \<Rightarrow> User \<Rightarrow> string \<Rightarrow> string \<Rightarrow> string \<Rightarrow> auth_service \<Rightarrow>
    login_result \<times> auth_service" where
  "login_local env dr u pw ip ua sv =
     (if locked_now dr u
      then (Inl LoginAccountLocked, emitAudit env dr ''login.locked'' (Some (u_id u)) (u_name u) ip
              (''{'' @ quoted ''reason'' @ '':'' @ quoted ''account_locked'' @ '',''
               @ locked_details (the (u_locked_until u)) (u_failed u)) sv)
      else if \<not> verify_password env pw (u_hash u) then (Inl LoginInvalidPassword, failed_login env dr u ip sv)
      else admit env dr u ip ua sv)"

fun ldap_reason_name :: "LdapReason \<Rightarrow> string" where
  "ldap_reason_name ConnectionFailed = ''ldap_connection_failed''"
| "ldap_reason_name BindServiceFailed = ''ldap_service_bind_failed''"
| "ldap_reason_name ConfigError = ''ldap_config_error''"
| "ldap_reason_name LdapUserNotFound = ''ldap_user_not_found''"
| "ldap_reason_name InvalidCredentials = ''ldap_invalid_credentials''"
| "ldap_reason_name NoRoleMapped = ''ldap_no_role_mapped''"
| "ldap_reason_name _ = ''ldap_other''"

fun ldap_error :: "LdapReason \<Rightarrow> LoginError" where
  "ldap_error ConnectionFailed = LoginInternalError"
| "ldap_error BindServiceFailed = LoginInternalError"
| "ldap_error ConfigError = LoginInternalError"
| "ldap_error NoRoleMapped = LoginUserDisabled"
| "ldap_error _ = LoginInvalidPassword"

text \<open>
  The row of a directory user whom the directory has let in: the one there is, or a new one. When the
  insert fails the name is looked up once more.
\<close>

definition provision :: "auth_env \<Rightarrow> draw \<Rightarrow> LdapLoginContext \<Rightarrow> string \<Rightarrow> string \<Rightarrow> User option \<Rightarrow> auth_service \<Rightarrow>
    User option \<times> auth_service" where
  "provision env dr cx name ip existing sv =
     (case existing of Some u \<Rightarrow> (Some u, sv)
      | None \<Rightarrow>
        (case on_db (insertUser (blank_user\<lparr>u_name := name, u_email := lx_email cx, u_role := lx_role cx,
                u_source := Ldap, u_created_at := now dr\<rparr>)) sv of
          (None, sv1) \<Rightarrow>
            (case findUserByUsername (adb sv1) name of
              None \<Rightarrow> (None, emitAudit env dr ''login.fail'' None name ip (reason ''ldap_provision_failed'') sv1)
            | Some u \<Rightarrow> (Some u, sv1))
        | (Some i, sv1) \<Rightarrow>
            (case findUserById (adb sv1) i of None \<Rightarrow> (None, sv1)
             | Some u \<Rightarrow> (Some u, emitAudit env dr ''ldap.provisioned'' (Some (u_id u)) (u_name u) ip
                 (''{'' @ quoted ''role'' @ '':'' @ quoted (roleName (u_role u)) @ ''}'') sv1))))"

text \<open>E-mail and role follow the directory; a write_refused write is logged and the old ones stay.\<close>

definition follow_directory :: "LdapLoginContext \<Rightarrow> User \<Rightarrow> auth_service \<Rightarrow> User \<times> auth_service" where
  "follow_directory cx u sv =
     (if u_email u \<noteq> lx_email cx \<or> u_role u \<noteq> lx_role cx
      then case on_db (updateUser (u_id u) (lx_email cx) (lx_role cx) Ldap) sv of
          (ok, sv1) \<Rightarrow> (if ok then u\<lparr>u_email := lx_email cx, u_role := lx_role cx, u_source := Ldap\<rparr> else u, sv1)
      else (u, sv))"

definition loginLdap :: "auth_env \<Rightarrow> draw \<Rightarrow> string \<Rightarrow> string \<Rightarrow> string \<Rightarrow> string \<Rightarrow> User option \<Rightarrow> auth_service \<Rightarrow>
    login_result \<times> auth_service" where
  "loginLdap env dr name pw ip ua existing sv =
     (case ldap_authenticator env of None \<Rightarrow> (Inl LoginInternalError, sv)
      | Some auth \<Rightarrow>
        (let cx = auth name pw in
         if lx_reason cx = Disabled then
           (case existing of
             Some u \<Rightarrow> (Inl LoginInternalError, emitAudit env dr ''login.fail'' (Some (u_id u)) (u_name u) ip
                (reason ''ldap_disabled_but_user_is_ldap'') sv)
           | None \<Rightarrow> (Inl LoginUserNotFound, emitAudit env dr ''login.fail'' None name ip (reason ''user_not_found'') sv))
         else if \<not> lx_ok cx then
           (Inl (ldap_error (lx_reason cx)),
            emitAudit env dr ''login.fail'' (map_option u_id existing)
              (case existing of None \<Rightarrow> name | Some u \<Rightarrow> u_name u) ip (reason (ldap_reason_name (lx_reason cx))) sv)
         else case provision env dr cx name ip existing sv of
           (None, sv1) \<Rightarrow> (Inl LoginInternalError, sv1)
         | (Some u0, sv1) \<Rightarrow>
           (case follow_directory cx u0 sv1 of (u, sv2) \<Rightarrow>
             if u_disabled u
             then (Inl LoginUserDisabled, emitAudit env dr ''login.fail'' (Some (u_id u)) (u_name u) ip (reason ''user_disabled'') sv2)
             else case issueAndPersist env dr u ip ua (Some (lx_channel_grants cx))
                 (snd (on_db (updateLdapGroupsCache (u_id u) (dump_groups env (lx_groups cx)) (now dr)) sv2)) of
               (None, sv3) \<Rightarrow> (Inl LoginInternalError, sv3)
             | (Some pair, sv3) \<Rightarrow>
                 (Inr (pair, u), emitAudit env dr ''login.ok'' (Some (u_id u)) (u_name u) ip
                    (''{'' @ quoted ''source'' @ '':'' @ quoted ''ldap'' @ '','' @ quoted ''grants'' @ '':''
                     @ std_to_string (int (length (lx_channel_grants cx))) @ '','' @ quoted ''jti'' @ '':''
                     @ quoted (jwt_id pair) @ ''}'')
                    (snd (on_db (setLastLogin (u_id u) (now dr) ip) sv3))))))"

definition route_ldap :: "auth_env \<Rightarrow> User option \<Rightarrow> bool" where
  "route_ldap env user \<longleftrightarrow> ldap_authenticator env \<noteq> None \<and>
     (case user of None \<Rightarrow> True | Some u \<Rightarrow> u_source u = Ldap)"

definition login :: "auth_env \<Rightarrow> draw \<Rightarrow> string \<Rightarrow> string \<Rightarrow> string \<Rightarrow> string \<Rightarrow> auth_service \<Rightarrow>
    login_result \<times> auth_service" where
  "login env dr name pw ip ua sv =
     (if pw = [] then (Inl LoginInvalidPassword, emitAudit env dr ''login.fail'' None name ip (reason ''empty_password'') sv)
      else case findUserByUsername (adb sv) name of
        None \<Rightarrow>
          (if route_ldap env None then loginLdap env dr name pw ip ua None sv
           else (Inl LoginUserNotFound, emitAudit env dr ''login.fail'' None name ip (reason ''user_not_found'') sv))
      | Some u \<Rightarrow>
          (if u_disabled u
           then (Inl LoginUserDisabled, emitAudit env dr ''login.fail'' (Some (u_id u)) (u_name u) ip (reason ''user_disabled'') sv)
           else if route_ldap env (Some u) then loginLdap env dr name pw ip ua (Some u) sv
           else if u_source u \<noteq> Local
           then (Inl LoginInternalError, emitAudit env dr ''login.fail'' (Some (u_id u)) (u_name u) ip (reason ''ldap_not_wired'') sv)
           else login_local env dr u pw ip ua sv))"
subsection \<open>Renewing and ending a session\<close>

type_synonym refresh_result = "RefreshError + TokenPair \<times> User"

fun json_strings :: "json list \<Rightarrow> string list" where
  "json_strings [] = []"
| "json_strings (JStr s # vs) = s # json_strings vs"
| "json_strings (_ # vs) = json_strings vs"

definition cached_groups :: "json \<Rightarrow> string list" where
  "cached_groups j = (case j of JArr vs \<Rightarrow> json_strings vs | _ \<Rightarrow> [])"

text \<open>What a directory user may do on renewal: from the cached groups while they are young enough.\<close>

definition ldap_renewal :: "auth_env \<Rightarrow> draw \<Rightarrow> User \<Rightarrow> (RefreshError \<times> string) + ChannelGrant list" where
  "ldap_renewal env dr u =
     (case u_ldap_cached_at u of None \<Rightarrow> Inl (LdapCacheExpired, reason ''ldap_cache_missing'')
      | Some t \<Rightarrow>
          (if max_age_sec env < now dr - t
           then Inl (LdapCacheExpired, ''{'' @ quoted ''reason'' @ '':'' @ quoted ''ldap_cache_expired'' @ '','' @ quoted ''age_sec''
                  @ '':'' @ std_to_string (now dr - t) @ ''}'')
           else case parse_json env (u_ldap_groups u) of
               None \<Rightarrow> Inl (RefreshInternalError, reason ''ldap_cache_parse_failed'')
             | Some j \<Rightarrow> Inr (case ldap_grants_resolver env of None \<Rightarrow> [] | Some f \<Rightarrow> f (cached_groups j))))"

definition renewal_grants :: "auth_env \<Rightarrow> draw \<Rightarrow> User \<Rightarrow> (RefreshError \<times> string) + ChannelGrant list option" where
  "renewal_grants env dr u =
     (if u_source u = Ldap then (case ldap_renewal env dr u of Inl e \<Rightarrow> Inl e | Inr gs \<Rightarrow> Inr (Some gs)) else Inr None)"

text \<open>The old session is revoked, whatever the answer of the storage, and then the new pair is issued.\<close>

definition rotate :: "auth_env \<Rightarrow> draw \<Rightarrow> Session \<Rightarrow> User \<Rightarrow> ChannelGrant list option \<Rightarrow> string \<Rightarrow> string \<Rightarrow> auth_service \<Rightarrow>
    refresh_result \<times> auth_service" where
  "rotate env dr s u override ip ua sv =
     (case issueAndPersist env dr u ip ua override (snd (on_db (revokeSessionByJwtId (s_jti s) (now dr)) sv)) of
        (None, sv1) \<Rightarrow> (Inl RefreshInternalError, sv1)
      | (Some pair, sv1) \<Rightarrow>
          (Inr (pair, u), emitAudit env dr ''refresh.ok'' (Some (u_id u)) (u_name u) ip
             (''{'' @ quoted ''old_jti'' @ '':'' @ quoted (s_jti s) @ '','' @ quoted ''new_jti'' @ '':'' @ quoted (jwt_id pair) @ ''}'') sv1))"

definition refresh :: "auth_env \<Rightarrow> draw \<Rightarrow> string \<Rightarrow> string \<Rightarrow> string \<Rightarrow> auth_service \<Rightarrow> refresh_result \<times> auth_service" where
  "refresh env dr token ip ua sv =
     (if token = [] then (Inl TokenNotFound, sv)
      else case findSessionByRefreshTokenHash (adb sv) (hashRefreshToken env token) of
        None \<Rightarrow> (Inl TokenNotFound, sv)
      | Some s \<Rightarrow>
        (if s_revoked_at s \<noteq> None
         then (Inl TokenRevoked, emitAudit env dr ''refresh.replay'' (Some (s_user s)) [] ip
                (''{'' @ quoted ''jti'' @ '':'' @ quoted (s_jti s) @ ''}'') sv)
         else if s_expires_at s \<le> now dr
         then (Inl TokenExpired, emitAudit env dr ''refresh.fail'' (Some (s_user s)) [] ip (reason ''expired'') sv)
         else case findUserById (adb sv) (s_user s) of
           None \<Rightarrow> (Inl RefreshInternalError, sv)
         | Some u \<Rightarrow>
             (if u_disabled u
              then (Inl RefreshUserDisabled, emitAudit env dr ''refresh.fail'' (Some (u_id u)) (u_name u) ip (reason ''user_disabled'') sv)
              else case renewal_grants env dr u of
                  Inl (e, details) \<Rightarrow> (Inl e, emitAudit env dr ''refresh.fail'' (Some (u_id u)) (u_name u) ip details sv)
                | Inr override \<Rightarrow> rotate env dr s u override ip ua sv)))"

definition logout :: "auth_env \<Rightarrow> draw \<Rightarrow> string \<Rightarrow> auth_service \<Rightarrow> bool \<times> auth_service" where
  "logout env dr j sv =
     (if j = [] then (False, sv)
      else let sess = findSessionByJwtId (adb sv) j in
        case on_db (revokeSessionByJwtId j (now dr)) sv of (ok, sv1) \<Rightarrow>
          (ok, if ok then emitAudit env dr ''logout'' (map_option s_user sess) [] []
                 (''{'' @ quoted ''jti'' @ '':'' @ quoted j @ ''}'') sv1 else sv1))"

definition verifyActiveAccess :: "auth_env \<Rightarrow> draw \<Rightarrow> string \<Rightarrow> auth_service \<Rightarrow> Claims option \<times> auth_service" where
  "verifyActiveAccess env dr token sv =
     (case jwt_verify (jwt_decode env (now dr)) token of None \<Rightarrow> (None, sv)
      | Some c \<Rightarrow>
        (case findSessionByJwtId (adb sv) (cl_jti c) of None \<Rightarrow> (None, sv)
         | Some s \<Rightarrow> (if s_revoked_at s \<noteq> None then (None, sv)
             else (Some c, snd (on_db (touchSession (cl_jti c) (now dr) 60) sv)))))"

definition listOwnActiveSessions :: "draw \<Rightarrow> int \<Rightarrow> auth_service \<Rightarrow> Session list" where
  "listOwnActiveSessions dr i sv = listActiveSessionsForUser (adb sv) i (now dr)"

definition revokeOwnSession :: "auth_env \<Rightarrow> draw \<Rightarrow> string \<Rightarrow> int \<Rightarrow> auth_service \<Rightarrow> bool \<times> auth_service" where
  "revokeOwnSession env dr j i sv =
     (case on_db (revokeSessionByJwtIdForUser j i (now dr)) sv of (ok, sv1) \<Rightarrow>
        (ok, if ok then emitAudit env dr ''session_revoked'' (Some i) [] []
           (''{'' @ quoted ''jti'' @ '':'' @ quoted j @ '','' @ quoted ''by'' @ '':'' @ quoted ''self'' @ ''}'') sv1 else sv1))"

subsection \<open>Administration\<close>

definition emailLooksValid :: "string \<Rightarrow> bool" where
  "emailLooksValid e =
     (if e = [] then True else if 254 < length e then False
      else case find_char (CHR ''@'') e of None \<Rightarrow> False
        | Some p \<Rightarrow> p \<noteq> 0 \<and> p \<noteq> length e - 1 \<and> CHR ''@'' \<notin> set (drop (p + 1) e))"

text \<open>\<open>char\<close> is signed: a byte from 128 up is below the blank.\<close>

definition signed_char :: "char \<Rightarrow> int" where
  "signed_char c = signed_take_bit 7 (of_char c)"

definition name_char :: "char \<Rightarrow> bool" where
  "name_char c \<longleftrightarrow> \<not> (signed_char c \<le> 32 \<or> c = CHR ''/'' \<or> c = CHR '':'' \<or> c = CHR 0x7F)"

definition usernameValid :: "string \<Rightarrow> bool" where
  "usernameValid u \<longleftrightarrow> u \<noteq> [] \<and> length u \<le> 64 \<and> list_all name_char u"

record CreateUserRequest =
  cr_username :: string
  cr_email :: string
  cr_password :: string
  cr_role :: Role
  cr_must_change :: bool
  cr_created_by :: "int option"

definition new_user :: "draw \<Rightarrow> CreateUserRequest \<Rightarrow> string \<Rightarrow> User" where
  "new_user dr req h = blank_user\<lparr>u_name := cr_username req, u_email := cr_email req, u_hash := h, u_role := cr_role req,
     u_source := Local, u_must_change := cr_must_change req, u_created_at := now dr, u_created_by := cr_created_by req,
     u_initial_expires := (if cr_must_change req then Some (now dr + 24 * 60 * 60) else None)\<rparr>"

text \<open>The user and, when it was generated here, the password in plain text.\<close>

definition adminCreateUser :: "auth_env \<Rightarrow> draw \<Rightarrow> CreateUserRequest \<Rightarrow> auth_service \<Rightarrow> (AdminError + User \<times> string) \<times> auth_service" where
  "adminCreateUser env dr req sv =
     (if \<not> usernameValid (cr_username req) then (Inl UsernameInvalid, sv)
      else if \<not> emailLooksValid (cr_email req) then (Inl EmailInvalid, sv)
      else let plaintext = (if cr_password req = [] then drawn_password dr else cr_password req) in
        if plaintext = [] then (Inl PasswordInvalid, sv)
        else case hash_password env dr plaintext of None \<Rightarrow> (Inl PasswordInvalid, sv)
          | Some h \<Rightarrow>
            (case on_db (insertUser (new_user dr req h)) sv of
               (None, sv1) \<Rightarrow>
                 (Inl (if findUserByUsername (adb sv1) (cr_username req) \<noteq> None then UsernameTaken else AdminInternalError), sv1)
             | (Some i, sv1) \<Rightarrow>
                 (case findUserById (adb sv1) i of None \<Rightarrow> (Inl AdminInternalError, sv1)
                  | Some u \<Rightarrow> (Inr (u, if cr_password req = [] then plaintext else []), sv1))))"

definition adminUpdateUser :: "int \<Rightarrow> string \<Rightarrow> Role \<Rightarrow> AuthSource \<Rightarrow> auth_service \<Rightarrow> (AdminError + User) \<times> auth_service" where
  "adminUpdateUser i email r src sv =
     (case findUserById (adb sv) i of None \<Rightarrow> (Inl AdminUserNotFound, sv)
      | Some _ \<Rightarrow>
        (if \<not> emailLooksValid email then (Inl EmailInvalid, sv)
         else case on_db (updateUser i email r src) sv of (ok, sv1) \<Rightarrow>
           (if \<not> ok then (Inl AdminInternalError, sv1)
            else case findUserById (adb sv1) i of None \<Rightarrow> (Inl AdminInternalError, sv1) | Some u \<Rightarrow> (Inr u, sv1))))"

definition adminSetDisabled :: "draw \<Rightarrow> int \<Rightarrow> bool \<Rightarrow> auth_service \<Rightarrow> bool \<times> auth_service" where
  "adminSetDisabled dr i v sv =
     (case on_db (setDisabled i v) sv of (ok, sv1) \<Rightarrow>
        if \<not> ok then (False, sv1)
        else (True, if v then snd (on_db (revokeAllSessionsForUser i (now dr)) sv1) else sv1))"

definition adminPurgeUser :: "int \<Rightarrow> int \<Rightarrow> auth_service \<Rightarrow> (PurgeError + User) \<times> auth_service" where
  "adminPurgeUser i actor sv =
     (if i = actor then (Inl CannotDeleteSelf, sv)
      else case findUserById (adb sv) i of None \<Rightarrow> (Inl PurgeUserNotFound, sv)
        | Some target \<Rightarrow>
          (if u_role target = Admin \<and> \<not> u_disabled target \<and> countEnabledAdmins (adb sv) \<le> 1
           then (Inl LastEnabledAdmin, sv)
           else case on_db (purgeUser i) sv of (ok, sv1) \<Rightarrow> (if ok then Inr target else Inl PurgeInternalError, sv1)))"

text \<open>Each write that fails ends the call; what was written before it stays.\<close>

definition adminResetPassword :: "auth_env \<Rightarrow> draw \<Rightarrow> int \<Rightarrow> auth_service \<Rightarrow> string option \<times> auth_service" where
  "adminResetPassword env dr i sv =
     (case findUserById (adb sv) i of None \<Rightarrow> (None, sv)
      | Some _ \<Rightarrow>
        (if drawn_password dr = [] then (None, sv)
         else case hash_password env dr (drawn_password dr) of None \<Rightarrow> (None, sv)
           | Some h \<Rightarrow>
             (case on_db (updatePasswordHash i h (now dr) False) sv of (ok1, sv1) \<Rightarrow>
                if \<not> ok1 then (None, sv1)
                else case on_db (setMustChangePassword i True) sv1 of (ok2, sv2) \<Rightarrow>
                  if \<not> ok2 then (None, sv2)
                  else case on_db (setInitialPasswordExpiry i (now dr + 24 * 60 * 60)) sv2 of (ok3, sv3) \<Rightarrow>
                    if \<not> ok3 then (None, sv3)
                    else (Some (drawn_password dr), snd (on_db (revokeAllSessionsForUser i (now dr)) sv3)))))"

definition adminUnlockUser :: "int \<Rightarrow> auth_service \<Rightarrow> bool \<times> auth_service" where
  "adminUnlockUser i sv =
     (case findUserById (adb sv) i of None \<Rightarrow> (False, sv) | Some _ \<Rightarrow> on_db (clearFailedLogin i) sv)"
definition bootstrap_user :: "draw \<Rightarrow> string \<Rightarrow> string \<Rightarrow> User" where
  "bootstrap_user dr name h = blank_user\<lparr>u_name := name, u_hash := h, u_role := Admin, u_source := Local,
     u_must_change := True, u_created_at := now dr, u_initial_expires := Some (now dr + 24 * 60 * 60)\<rparr>"

text \<open>
  The first administrator: nothing when there is an enabled one already; otherwise the id and the password,
  and the password in the file when one is configured and can be written (the body is followed by a newline).
\<close>

definition bootstrapInitialAdmin :: "auth_env \<Rightarrow> draw \<Rightarrow> string \<Rightarrow> auth_service \<Rightarrow> (int \<times> string) option \<times> auth_service" where
  "bootstrapInitialAdmin env dr name sv =
     (if hasAdminUser (adb sv) \<or> drawn_password dr = [] then (None, sv)
      else case hash_password env dr (drawn_password dr) of None \<Rightarrow> (None, sv)
        | Some h \<Rightarrow>
          (case on_db (insertUser (bootstrap_user dr name h)) sv of
             (None, sv1) \<Rightarrow> (None, sv1)
           | (Some i, sv1) \<Rightarrow>
               (Some (i, drawn_password dr),
                emitAudit env dr ''bootstrap.created'' (Some i) name [] []
                  (if password_file_wired env \<and> file_writable dr
                   then sv1\<lparr>password_file := Some (drawn_password dr @ [CHR 0x0A])\<rparr> else sv1))))"

text \<open>The checks of \<open>changeOwnPassword\<close>, in their order: the claims and the user when all pass.\<close>

definition self_password_checks :: "auth_env \<Rightarrow> draw \<Rightarrow> string \<Rightarrow> string \<Rightarrow> string \<Rightarrow> auth_db \<Rightarrow> SelfPasswordError + Claims \<times> User" where
  "self_password_checks env dr token cur new d =
     (case jwt_verify (jwt_decode env (now dr)) token of None \<Rightarrow> Inl InvalidSession
      | Some c \<Rightarrow>
        (case findSessionByJwtId d (cl_jti c) of None \<Rightarrow> Inl InvalidSession
         | Some s \<Rightarrow>
           (if s_revoked_at s \<noteq> None then Inl InvalidSession
            else case findUserById d (cl_user_id c) of None \<Rightarrow> Inl SelfUserNotFound
              | Some u \<Rightarrow>
                (if u_disabled u \<or> u_source u \<noteq> Local then Inl SelfUserDisabled
                 else if length new < 8 \<or> new = cur then Inl NewPasswordWeak
                 else if \<not> verify_password env cur (u_hash u) then Inl CurrentPasswordWrong
                 else Inr (c, u)))))"

definition changeOwnPassword :: "auth_env \<Rightarrow> draw \<Rightarrow> string \<Rightarrow> string \<Rightarrow> string \<Rightarrow> auth_service \<Rightarrow>
    SelfPasswordError option \<times> auth_service" where
  "changeOwnPassword env dr token cur new sv =
     (case self_password_checks env dr token cur new (adb sv) of Inl e \<Rightarrow> (Some e, sv)
      | Inr (c, u) \<Rightarrow>
        (case hash_password env dr new of None \<Rightarrow> (Some SelfInternalError, sv)
         | Some h \<Rightarrow>
           (case on_db (updatePasswordHash (u_id u) h (now dr) True) sv of (ok, sv1) \<Rightarrow>
              if \<not> ok then (Some SelfInternalError, sv1)
              else let sv2 = (if u_role u = Admin \<and> u_must_change u \<and> password_file_wired env \<and> file_writable dr
                              then sv1\<lparr>password_file := None\<rparr> else sv1);
                     r = on_db (revokeOtherSessionsForUser (u_id u) (cl_jti c) (now dr)) sv2
                   in (None, emitAudit env dr ''password.changed'' (Some (u_id u)) (u_name u) []
                        (''{'' @ quoted ''revoked_other'' @ '':'' @ std_to_string (int (fst r)) @ ''}'') (snd r)))))"

subsection \<open>Rights on channels and screens\<close>

definition adminListChannelPermissionsForUser :: "int \<Rightarrow> auth_service \<Rightarrow> ChannelAclError + (ChannelPermissionRow \<times> string) list" where
  "adminListChannelPermissionsForUser i sv =
     (case findUserById (adb sv) i of None \<Rightarrow> Inl AclUserNotFound | Some _ \<Rightarrow> Inr (listChannelPermissionsForUser (adb sv) i))"

definition adminSetChannelPermission :: "draw \<Rightarrow> int \<Rightarrow> int \<Rightarrow> ChannelPermission \<Rightarrow> int \<Rightarrow> auth_service \<Rightarrow>
    (ChannelAclError + bool) \<times> auth_service" where
  "adminSetChannelPermission dr i ch p by_user sv =
     (case findUserById (adb sv) i of None \<Rightarrow> (Inl AclUserNotFound, sv)
      | Some u \<Rightarrow>
        (if u_source u \<noteq> Local then (Inl UserSourceMismatch, sv)
         else case on_db (setChannelPermission i ch p by_user (now dr)) sv of (ok, sv1) \<Rightarrow>
           (if ok then Inr True else Inl AclInternalError, sv1)))"

definition adminRemoveChannelPermission :: "int \<Rightarrow> int \<Rightarrow> auth_service \<Rightarrow> (ChannelAclError + bool) \<times> auth_service" where
  "adminRemoveChannelPermission i ch sv =
     (case findUserById (adb sv) i of None \<Rightarrow> (Inl AclUserNotFound, sv)
      | Some u \<Rightarrow>
        (if u_source u \<noteq> Local then (Inl UserSourceMismatch, sv)
         else case on_db (removeChannelPermission i ch) sv of (ok, sv1) \<Rightarrow> (Inr ok, sv1)))"

definition playerGrantsOf :: "int \<Rightarrow> auth_service \<Rightarrow> PlayerScopeGrant list" where
  "playerGrantsOf i sv = listPlayerGrantsForUser (adb sv) i"

definition setPlayerGrants :: "draw \<Rightarrow> int \<Rightarrow> PlayerScopeGrant list \<Rightarrow> int option \<Rightarrow> auth_service \<Rightarrow> bool \<times> auth_service" where
  "setPlayerGrants dr i gs by_user sv = on_db (replacePlayerGrantsForUser i gs by_user (now dr)) sv"

definition dropPlayerGrantsForScope :: "ScopeKind \<Rightarrow> int \<Rightarrow> auth_service \<Rightarrow> nat \<times> auth_service" where
  "dropPlayerGrantsForScope sc i sv = on_db (removePlayerGrantsForScope sc i) sv"

text \<open>The resolver the server configures for local users.\<close>

definition local_grants :: "auth_db \<Rightarrow> int \<Rightarrow> ChannelGrant list" where
  "local_grants d i = map (\<lambda>(c, _). \<lparr>grant_channel = cp_channel c, grant_permission = cp_permission c\<rparr>)
     (listChannelPermissionsForUser d i)"

end
