(* ===== verification/AuthSessions.thy ===== *)
theory AuthSessions
  imports AuthService
begin

text \<open>
  The life of the sign-in service: its calls as a datatype, the state after a list of them, and the
  table operations a call is made of as a step relation. An invariant of the tables is proved once for each
  table operation (the locale \<open>table_invariant\<close>) and then holds after any calls. It is interpreted
  for the constraints of the schema, and for sessions that are dead: revoked, and never coming back.
\<close>

subsection \<open>Table operations\<close>

text \<open>\<open>fresh\<close> says what token id and what token hash a new session may have.\<close>

inductive table_op :: "(string \<Rightarrow> string \<Rightarrow> bool) \<Rightarrow> auth_db \<Rightarrow> auth_db \<Rightarrow> bool" for fresh where
  op_insert_session: "fresh (s_jti s) (s_hash s) \<Longrightarrow> table_op fresh d (snd (insertSession s d))"
| op_revoke: "table_op fresh d (snd (revokeSessionByJwtId j t d))"
| op_revoke_all: "table_op fresh d (snd (revokeAllSessionsForUser i t d))"
| op_revoke_others: "table_op fresh d (snd (revokeOtherSessionsForUser i j t d))"
| op_revoke_own: "table_op fresh d (snd (revokeSessionByJwtIdForUser j i t d))"
| op_touch: "table_op fresh d (snd (touchSession j t n d))"
| op_insert_user: "table_op fresh d (snd (insertUser u d))"
| op_password: "table_op fresh d (snd (updatePasswordHash i h t c d))"
| op_last_login: "table_op fresh d (snd (setLastLogin i t ip d))"
| op_disabled: "table_op fresh d (snd (setDisabled i v d))"
| op_update: "table_op fresh d (snd (updateUser i e r src d))"
| op_must_change: "table_op fresh d (snd (setMustChangePassword i v d))"
| op_expiry: "table_op fresh d (snd (setInitialPasswordExpiry i t d))"
| op_failed: "table_op fresh d (snd (recordFailedLogin i k lock d))"
| op_clear_failed: "table_op fresh d (snd (clearFailedLogin i d))"
| op_groups: "table_op fresh d (snd (updateLdapGroupsCache i gs t d))"
| op_purge: "table_op fresh d (snd (purgeUser i d))"
| op_set_permission: "table_op fresh d (snd (setChannelPermission i ch p b t d))"
| op_remove_permission: "table_op fresh d (snd (removeChannelPermission i ch d))"
| op_replace_grants: "table_op fresh d (snd (replacePlayerGrantsForUser i gs' b' t d))"
| op_remove_grants: "table_op fresh d (snd (removePlayerGrantsForScope sc i d))"

abbreviation table_ops :: "(string \<Rightarrow> string \<Rightarrow> bool) \<Rightarrow> auth_db \<Rightarrow> auth_db \<Rightarrow> bool" where
  "table_ops fresh \<equiv> (table_op fresh)\<^sup>*\<^sup>*"

lemma op_then: "table_ops fresh a d \<Longrightarrow> table_op fresh d d' \<Longrightarrow> table_ops fresh a d'"
  by (rule rtranclp.rtrancl_into_rtrancl)

lemmas one_more = table_op.intros [THEN op_then [rotated]]

lemma adb_on_db [simp]: "adb (snd (on_db f sv)) = snd (f (adb sv))" "fst (on_db f sv) = fst (f (adb sv))"
  by (simp_all add: on_db_def)

lemma adb_emit [simp]: "adb (emitAudit env dr ev uid name ip details sv) = adb sv"
  by (simp add: emitAudit_def)

lemma adb_file [simp]: "adb (sv\<lparr>password_file := f\<rparr>) = adb sv"
  by simp

definition draw_fresh :: "(string \<Rightarrow> string \<Rightarrow> bool) \<Rightarrow> auth_env \<Rightarrow> draw \<Rightarrow> bool" where
  "draw_fresh fresh env dr \<longleftrightarrow> fresh (drawn_jti dr) (hashRefreshToken env (drawn_refresh dr))"

text \<open>The session a pair is stored as.\<close>

definition pair_session :: "auth_env \<Rightarrow> draw \<Rightarrow> User \<Rightarrow> string \<Rightarrow> string \<Rightarrow> Session" where
  "pair_session env dr u ip ua = \<lparr>s_id = 0, s_user = u_id u, s_jti = drawn_jti dr,
     s_hash = hashRefreshToken env (drawn_refresh dr), s_ip = ip, s_agent = ua, s_created_at = now dr,
     s_expires_at = now dr + 24 * 30 * 3600, s_revoked_at = None, s_last_seen_at = None\<rparr>"

lemma issue_simps [simp]: "jwt_id (issue env dr u gs) = drawn_jti dr" "refresh_token (issue env dr u gs) = drawn_refresh dr"
  "refresh_expires_at (issue env dr u gs) = now dr + 24 * 30 * 3600"
  by (simp_all add: issue_def)

lemma adb_issue: "adb (snd (issueAndPersist env dr u ip ua ov sv)) = snd (insertSession (pair_session env dr u ip ua) (adb sv))"
  by (simp add: issueAndPersist_def Let_def case_prod_beta pair_session_def)

lemma issue_result: "fst (issueAndPersist env dr u ip ua ov sv) \<noteq> None \<longleftrightarrow> fst (insertSession (pair_session env dr u ip ua) (adb sv))"
  by (simp add: issueAndPersist_def Let_def case_prod_beta pair_session_def)

lemma issue_ops:
  assumes "draw_fresh fresh env dr" "table_ops fresh d (adb sv)"
  shows "table_ops fresh d (adb (snd (issueAndPersist env dr u ip ua ov sv)))"
  unfolding adb_issue using assms by (intro one_more) (simp_all add: pair_session_def draw_fresh_def)

lemmas op_rules = one_more issue_ops

lemma failed_login_ops: "table_ops fresh d (adb sv) \<Longrightarrow> table_ops fresh d (adb (failed_login env dr u ip sv))"
  by (simp add: failed_login_def Let_def op_rules split: option.split)

lemma admit_ops: "draw_fresh fresh env dr \<Longrightarrow> table_ops fresh d (adb sv) \<Longrightarrow> table_ops fresh d (adb (snd (admit env dr u ip ua sv)))"
  by (simp add: admit_def Let_def case_prod_beta op_rules split: option.split)

lemma login_local_ops:
  "draw_fresh fresh env dr \<Longrightarrow> table_ops fresh d (adb sv) \<Longrightarrow> table_ops fresh d (adb (snd (login_local env dr u pw ip ua sv)))"
  by (simp add: login_local_def failed_login_ops admit_ops)

lemma provision_ops: "table_ops fresh d (adb sv) \<Longrightarrow> table_ops fresh d (adb (snd (provision env dr cx name ip ex sv)))"
  by (simp add: provision_def case_prod_beta op_rules split: option.split)

lemma follow_directory_ops: "table_ops fresh d (adb sv) \<Longrightarrow> table_ops fresh d (adb (snd (follow_directory cx u sv)))"
  by (simp add: follow_directory_def case_prod_beta op_rules)

lemma loginLdap_ops:
  "draw_fresh fresh env dr \<Longrightarrow> table_ops fresh d (adb sv) \<Longrightarrow> table_ops fresh d (adb (snd (loginLdap env dr name pw ip ua ex sv)))"
  by (simp add: loginLdap_def Let_def case_prod_beta op_rules provision_ops follow_directory_ops split: option.split)

lemma login_ops:
  "draw_fresh fresh env dr \<Longrightarrow> table_ops fresh d (adb sv) \<Longrightarrow> table_ops fresh d (adb (snd (login env dr name pw ip ua sv)))"
  by (simp add: login_def loginLdap_ops login_local_ops split: option.split)

lemma rotate_ops:
  "draw_fresh fresh env dr \<Longrightarrow> table_ops fresh d (adb sv) \<Longrightarrow> table_ops fresh d (adb (snd (rotate env dr s u ov ip ua sv)))"
  by (simp add: rotate_def case_prod_beta op_rules split: option.split)

lemma refresh_ops:
  "draw_fresh fresh env dr \<Longrightarrow> table_ops fresh d (adb sv) \<Longrightarrow> table_ops fresh d (adb (snd (refresh env dr tok ip ua sv)))"
  by (simp add: refresh_def case_prod_beta rotate_ops split: option.split sum.split)

lemma reset_ops: "table_ops fresh d (adb sv) \<Longrightarrow> table_ops fresh d (adb (snd (adminResetPassword env dr i sv)))"
  by (simp add: adminResetPassword_def case_prod_beta op_rules split: option.split)

lemma change_ops: "table_ops fresh d (adb sv) \<Longrightarrow> table_ops fresh d (adb (snd (changeOwnPassword env dr tok cur new sv)))"
  by (simp add: changeOwnPassword_def Let_def case_prod_beta op_rules split: option.split sum.split)
subsection \<open>Calls\<close>

datatype auth_call =
    CallLogin string string string string
  | CallRefresh string string string
  | CallLogout string
  | CallVerify string
  | CallRevokeOwn string int
  | CallCreateUser CreateUserRequest
  | CallUpdateUser int string Role AuthSource
  | CallSetDisabled int bool
  | CallPurge int int
  | CallReset int
  | CallUnlock int
  | CallBootstrap string
  | CallChangePassword string string string
  | CallSetPermission int int ChannelPermission int
  | CallRemovePermission int int
  | CallSetPlayerGrants int "PlayerScopeGrant list" "int option"
  | CallDropScope ScopeKind int

fun auth_step :: "auth_env \<Rightarrow> draw \<times> auth_call \<Rightarrow> auth_service \<Rightarrow> auth_service" where
  "auth_step env (dr, CallLogin name pw ip ua) sv = snd (login env dr name pw ip ua sv)"
| "auth_step env (dr, CallRefresh tok ip ua) sv = snd (refresh env dr tok ip ua sv)"
| "auth_step env (dr, CallLogout j) sv = snd (logout env dr j sv)"
| "auth_step env (dr, CallVerify tok) sv = snd (verifyActiveAccess env dr tok sv)"
| "auth_step env (dr, CallRevokeOwn j i) sv = snd (revokeOwnSession env dr j i sv)"
| "auth_step env (dr, CallCreateUser req) sv = snd (adminCreateUser env dr req sv)"
| "auth_step env (dr, CallUpdateUser i e r src) sv = snd (adminUpdateUser i e r src sv)"
| "auth_step env (dr, CallSetDisabled i v) sv = snd (adminSetDisabled dr i v sv)"
| "auth_step env (dr, CallPurge i actor) sv = snd (adminPurgeUser i actor sv)"
| "auth_step env (dr, CallReset i) sv = snd (adminResetPassword env dr i sv)"
| "auth_step env (dr, CallUnlock i) sv = snd (adminUnlockUser i sv)"
| "auth_step env (dr, CallBootstrap name) sv = snd (bootstrapInitialAdmin env dr name sv)"
| "auth_step env (dr, CallChangePassword tok cur new) sv = snd (changeOwnPassword env dr tok cur new sv)"
| "auth_step env (dr, CallSetPermission i ch p b) sv = snd (adminSetChannelPermission dr i ch p b sv)"
| "auth_step env (dr, CallRemovePermission i ch) sv = snd (adminRemoveChannelPermission i ch sv)"
| "auth_step env (dr, CallSetPlayerGrants i gs b) sv = snd (setPlayerGrants dr i gs b sv)"
| "auth_step env (dr, CallDropScope sc i) sv = snd (dropPlayerGrantsForScope sc i sv)"

definition auth_run :: "auth_env \<Rightarrow> (draw \<times> auth_call) list \<Rightarrow> auth_service \<Rightarrow> auth_service" where
  "auth_run env cs sv = fold (auth_step env) cs sv"

lemma step_ops:
  assumes "draw_fresh fresh env (fst c)"
  shows "table_ops fresh (adb sv) (adb (auth_step env c sv))"
proof (cases c)
  case (Pair dr k)
  show ?thesis
  proof (cases k)
    case CallLogin
    then show ?thesis using assms Pair by (simp add: login_ops)
  next
    case CallRefresh
    then show ?thesis using assms Pair by (simp add: refresh_ops)
  next
    case CallReset
    then show ?thesis using Pair by (simp add: reset_ops)
  next
    case CallChangePassword
    then show ?thesis using Pair by (simp add: change_ops)
  qed (simp_all add: Pair op_rules logout_def verifyActiveAccess_def revokeOwnSession_def adminCreateUser_def adminUpdateUser_def
      adminSetDisabled_def adminPurgeUser_def adminUnlockUser_def bootstrapInitialAdmin_def adminSetChannelPermission_def
      adminRemoveChannelPermission_def setPlayerGrants_def dropPlayerGrantsForScope_def Let_def case_prod_beta
      split: option.split)
qed

lemma run_ops:
  assumes "\<And>c. c \<in> set cs \<Longrightarrow> draw_fresh fresh env (fst c)"
  shows "table_ops fresh (adb sv) (adb (auth_run env cs sv))"
  using assms
proof (induction cs arbitrary: sv)
  case (Cons c cs)
  have "table_ops fresh (adb sv) (adb (auth_step env c sv))" using Cons.prems by (intro step_ops) simp
  moreover have "table_ops fresh (adb (auth_step env c sv)) (adb (auth_run env cs (auth_step env c sv)))"
    using Cons.prems by (intro Cons.IH) simp
  ultimately show ?case by (simp add: auth_run_def)
qed (simp add: auth_run_def)

subsection \<open>Invariants of the tables\<close>

locale table_invariant =
  fixes inv :: "auth_db \<Rightarrow> bool" and fresh :: "string \<Rightarrow> string \<Rightarrow> bool"
  assumes op_keeps: "table_op fresh d d' \<Longrightarrow> inv d \<Longrightarrow> inv d'"
begin

lemma ops_keep: "table_ops fresh d d' \<Longrightarrow> inv d \<Longrightarrow> inv d'"
  by (induction rule: rtranclp_induct) (auto intro: op_keeps)

lemma step_keeps: "draw_fresh fresh env (fst c) \<Longrightarrow> inv (adb sv) \<Longrightarrow> inv (adb (auth_step env c sv))"
  by (rule ops_keep [OF step_ops])

lemma run_keeps:
  "(\<And>c. c \<in> set cs \<Longrightarrow> draw_fresh fresh env (fst c)) \<Longrightarrow> inv (adb sv) \<Longrightarrow> inv (adb (auth_run env cs sv))"
  by (rule ops_keep [OF run_ops])

end

interpretation schema: table_invariant auth_ok "\<lambda>_ _. True"
proof
  show "table_op (\<lambda>_ _. True) d d' \<Longrightarrow> auth_ok d \<Longrightarrow> auth_ok d'" for d d'
    by (induction rule: table_op.induct)
      (simp_all add: user_updates_ok session_updates_ok insertUser_ok insertSession_ok purgeUser_ok setChannelPermission_ok
        removeChannelPermission_ok replacePlayerGrantsForUser_ok removePlayerGrantsForScope_ok)
qed

text \<open>Every session whose token id and token hash are among those of \<open>P\<close> is revoked.\<close>

definition dead :: "(string \<Rightarrow> string \<Rightarrow> bool) \<Rightarrow> auth_db \<Rightarrow> bool" where
  "dead P d \<longleftrightarrow> (\<forall>s\<in>set (sessions d). P (s_jti s) (s_hash s) \<longrightarrow> s_revoked_at s \<noteq> None)"

lemma dead_update:
  assumes "dead P d"
    and "\<And>s. s_jti (f s) = s_jti s" "\<And>s. s_hash (f s) = s_hash s"
    and "\<And>s. s_revoked_at s \<noteq> None \<Longrightarrow> s_revoked_at (f s) \<noteq> None"
  shows "dead P (snd (update_sessions Q f d))"
  using assms by (auto simp: dead_def update_sessions_def)

lemma user_writes_keep_sessions [simp]:
  "sessions (snd (update_users Q f d)) = sessions d" "sessions (snd (insertUser u d)) = sessions d"
  "sessions (snd (setChannelPermission i ch p b t d)) = sessions d"
  "sessions (snd (removeChannelPermission i ch d)) = sessions d"
  "sessions (snd (replacePlayerGrantsForUser i gs b' t d)) = sessions d"
  "sessions (snd (removePlayerGrantsForScope sc i d)) = sessions d"
  by (simp_all add: update_users_def insertUser_def setChannelPermission_def removeChannelPermission_def Let_def row_count_def
      delete_permissions_def replacePlayerGrantsForUser_def removePlayerGrantsForScope_def)

lemmas user_write_defs = updatePasswordHash_def setLastLogin_def setDisabled_def updateUser_def setMustChangePassword_def
  setInitialPasswordExpiry_def recordFailedLogin_def clearFailedLogin_def updateLdapGroupsCache_def

lemmas session_write_defs = revokeSessionByJwtId_def revokeAllSessionsForUser_def revokeOtherSessionsForUser_def
  revokeSessionByJwtIdForUser_def touchSession_def

lemma dead_purge: "dead P d \<Longrightarrow> dead P (snd (purgeUser i d))"
  by (auto simp: dead_def purgeUser_def purged_def)

lemma dead_insert: "dead P d \<Longrightarrow> \<not> P (s_jti s) (s_hash s) \<Longrightarrow> dead P (snd (insertSession s d))"
  by (auto simp: dead_def insertSession_def)

interpretation dead_session: table_invariant "dead P" "\<lambda>j h. \<not> P j h" for P
proof
  show "table_op (\<lambda>j h. \<not> P j h) d d' \<Longrightarrow> dead P d \<Longrightarrow> dead P d'" for d d'
  proof (induction rule: table_op.induct)
    case (op_insert_session s d)
    then show ?case by (simp add: dead_insert)
  next
    case (op_purge d i)
    then show ?case by (simp add: dead_purge)
  qed (simp_all add: answer_defs user_write_defs session_write_defs dead_update,
       simp_all add: dead_def)
qed

text \<open>What a dead session can still do: nothing.\<close>

lemma dead_refresh:
  assumes "dead (\<lambda>_ h. h = hashRefreshToken env tok) (adb sv)"
  shows "fst (refresh env dr tok ip ua sv) \<in> {Inl TokenNotFound, Inl TokenRevoked}"
proof (cases "findSessionByRefreshTokenHash (adb sv) (hashRefreshToken env tok)")
  case (Some s)
  then have "s \<in> set (sessions (adb sv))" "s_hash s = hashRefreshToken env tok"
    by (auto simp: findSessionByRefreshTokenHash_def find_Some_iff)
  then have "s_revoked_at s \<noteq> None" using assms by (simp add: dead_def)
  then show ?thesis using Some by (auto simp: refresh_def)
qed (simp add: refresh_def)

lemma dead_access:
  assumes "dead (\<lambda>j _. j = cl_jti c) (adb sv)" and "jwt_verify (jwt_decode env (now dr)) tok = Some c"
  shows "verifyActiveAccess env dr tok sv = (None, sv)"
    and "fst (changeOwnPassword env dr tok cur new sv) = Some InvalidSession"
proof -
  have "\<And>s. findSessionByJwtId (adb sv) (cl_jti c) = Some s \<Longrightarrow> s_revoked_at s \<noteq> None"
    using assms(1) by (auto simp: findSessionByJwtId_def find_Some_iff dead_def)
  then show "verifyActiveAccess env dr tok sv = (None, sv)" "fst (changeOwnPassword env dr tok cur new sv) = Some InvalidSession"
    using assms(2) by (auto simp: verifyActiveAccess_def changeOwnPassword_def self_password_checks_def split: option.split)
qed

text \<open>What a successful renewal has done to the old session.\<close>

lemma rotate_user: "rotate env dr s v ov ip ua sv = (Inr (pair, u), sv1) \<Longrightarrow> v = u"
  by (auto simp: rotate_def case_prod_beta split: option.splits)

lemma refresh_success_ex:
  assumes "refresh env dr tok ip ua sv = (Inr (pair, u), sv1)"
  shows "\<exists>s ov. findSessionByRefreshTokenHash (adb sv) (hashRefreshToken env tok) = Some s \<and>
    s_revoked_at s = None \<and> now dr < s_expires_at s \<and> findUserById (adb sv) (s_user s) = Some u \<and> \<not> u_disabled u \<and>
    rotate env dr s u ov ip ua sv = (Inr (pair, u), sv1)"
  using assms unfolding refresh_def
  by (simp add: case_prod_beta not_le rotate_user split: option.splits if_splits sum.splits) (use rotate_user in blast)

lemma rotate_adb: "adb (snd (rotate env dr s u ov ip ua sv)) =
    snd (insertSession (pair_session env dr u ip ua) (snd (revokeSessionByJwtId (s_jti s) (now dr) (adb sv))))"
  unfolding rotate_def case_prod_beta by (cases "fst (issueAndPersist env dr u ip ua ov (snd (on_db (revokeSessionByJwtId (s_jti s) (now dr)) sv)))")
    (simp_all add: adb_issue)

lemma revoked_dead:
  assumes "\<not> write_refused d" "\<And>s. s \<in> set (sessions d) \<Longrightarrow> P (s_jti s) (s_hash s) \<Longrightarrow> s_jti s = j"
  shows "dead P (snd (revokeSessionByJwtId j t d))"
proof -
  have "s_revoked_at (if s_jti s = j then revoke_at t s else s) \<noteq> None"
    if "s \<in> set (sessions d)" "P (s_jti s) (s_hash s)" for s
    using assms(2) [OF that] by simp
  moreover have "s_jti (if s_jti s = j then revoke_at t s else s) = s_jti s"
    "s_hash (if s_jti s = j then revoke_at t s else s) = s_hash s" for s by simp_all
  ultimately show ?thesis
    using assms(1) by (simp add: dead_def revokeSessionByJwtId_def one_row_def update_sessions_def del: if_image_distrib)
qed

lemma refresh_kills_token:
  assumes r: "refresh env dr tok ip ua sv = (Inr (pair, u), sv1)"
    and uniq: "distinct (map s_hash (sessions (adb sv)))" and ok: "\<not> write_refused (adb sv)"
    and new: "hashRefreshToken env (drawn_refresh dr) \<noteq> hashRefreshToken env tok"
  shows "dead (\<lambda>_ h. h = hashRefreshToken env tok) (adb sv1)"
proof -
  obtain s ov where s: "findSessionByRefreshTokenHash (adb sv) (hashRefreshToken env tok) = Some s"
    and rot: "rotate env dr s u ov ip ua sv = (Inr (pair, u), sv1)"
    using refresh_success_ex [OF r] by blast
  have "s \<in> set (sessions (adb sv))" "s_hash s = hashRefreshToken env tok"
    using s by (auto simp: findSessionByRefreshTokenHash_def find_Some_iff)
  then have "t = s" if "t \<in> set (sessions (adb sv))" "s_hash t = hashRefreshToken env tok" for t
    using inj_onD [of s_hash "set (sessions (adb sv))" t s] uniq that by (simp add: distinct_map)
  then have "dead (\<lambda>_ h. h = hashRefreshToken env tok) (snd (revokeSessionByJwtId (s_jti s) (now dr) (adb sv)))"
    using ok by (intro revoked_dead) auto
  then have "dead (\<lambda>_ h. h = hashRefreshToken env tok) (adb (snd (rotate env dr s u ov ip ua sv)))"
    unfolding rotate_adb using new by (intro dead_insert) (simp_all add: pair_session_def)
  then show ?thesis using rot by simp
qed

lemma used_token_is_spent:
  assumes r: "refresh env dr tok ip ua sv = (Inr (pair, u), sv1)"
    and uniq: "distinct (map s_hash (sessions (adb sv)))" and ok: "\<not> write_refused (adb sv)"
    and new: "hashRefreshToken env (drawn_refresh dr) \<noteq> hashRefreshToken env tok"
    and later: "\<And>c. c \<in> set cs \<Longrightarrow> hashRefreshToken env (drawn_refresh (fst c)) \<noteq> hashRefreshToken env tok"
  shows "fst (refresh env dr' tok ip' ua' (auth_run env cs sv1)) \<in> {Inl TokenNotFound, Inl TokenRevoked}"
  by (intro dead_refresh dead_session.run_keeps refresh_kills_token [OF r uniq ok new])
    (simp add: draw_fresh_def later)
subsection \<open>Shutting a user out\<close>

lemma no_faults [simp]: "faults d = [] \<Longrightarrow> \<not> write_refused d" "faults d = [] \<Longrightarrow> tried d = d"
  by (simp_all add: write_refused_def tried_def)

lemma update_users_no_faults: "faults d = [] \<Longrightarrow> faults (snd (update_users P f d)) = []"
  by (simp add: update_users_def)

lemma revoke_all_dead:
  assumes ok: "faults d = []"
    and P: "\<And>t. t \<in> set (sessions d) \<Longrightarrow> P (s_jti t) (s_hash t) \<Longrightarrow> s_user t = i"
  shows "dead P (snd (revokeAllSessionsForUser i n d))"
proof -
  let ?g = "\<lambda>t. if s_user t = i \<and> s_revoked_at t = None then revoke_at n t else t"
  have g: "s_jti (?g t) = s_jti t" "s_hash (?g t) = s_hash t" for t by simp_all
  have "s_revoked_at (?g t) \<noteq> None" if "t \<in> set (sessions d)" "P (s_jti t) (s_hash t)" for t
    using P [OF that] revoke_at_simps(5) [of n t] by (simp del: not_None_eq)
  moreover have "sessions (snd (revokeAllSessionsForUser i n d)) = map ?g (sessions d)"
    using ok by (simp add: revokeAllSessionsForUser_def row_count_def update_sessions_def)
  ultimately show ?thesis unfolding dead_def using g by (metis (no_types, lifting) imageE list.set_map)
qed

lemma disabled_user_dead:
  assumes d: "adminSetDisabled dr i True sv = (True, sv1)" and ok: "auth_ok (adb sv)"
    and uniq: "distinct (map s_hash (sessions (adb sv)))" and faults: "faults (adb sv) = []"
    and s: "s \<in> set (sessions (adb sv))" "s_user s = i"
  shows "dead (\<lambda>j h. j = s_jti s \<or> h = s_hash s) (adb sv1)"
proof -
  let ?d = "snd (setDisabled i True (adb sv))"
  have same: "sessions ?d = sessions (adb sv)" "faults ?d = []"
    using faults by (simp_all add: setDisabled_def one_row_def update_users_no_faults)
  have "distinct (map s_jti (sessions (adb sv)))" using ok by (simp add: auth_ok_def keys_ok_def)
  then have "t = s" if "t \<in> set (sessions (adb sv))" "s_jti t = s_jti s \<or> s_hash t = s_hash s" for t
    using that s(1) uniq inj_onD [of s_jti "set (sessions (adb sv))" t s] inj_onD [of s_hash "set (sessions (adb sv))" t s]
    by (auto simp: distinct_map)
  then have "dead (\<lambda>j h. j = s_jti s \<or> h = s_hash s) (snd (revokeAllSessionsForUser i (now dr) ?d))"
    using s(2) same by (intro revoke_all_dead) auto
  moreover have "adb sv1 = snd (revokeAllSessionsForUser i (now dr) ?d)"
    using d by (auto simp: adminSetDisabled_def case_prod_beta split: if_splits)
  ultimately show ?thesis by simp
qed

lemma shut_out:
  assumes "dead (\<lambda>j h. j = s_jti s \<or> h = s_hash s) (adb sv1)"
    and "\<And>c. c \<in> set cs \<Longrightarrow> drawn_jti (fst c) \<noteq> s_jti s \<and> hashRefreshToken env (drawn_refresh (fst c)) \<noteq> s_hash s"
  shows "hashRefreshToken env tok = s_hash s \<Longrightarrow>
      fst (refresh env dr tok ip ua (auth_run env cs sv1)) \<in> {Inl TokenNotFound, Inl TokenRevoked}"
    and "jwt_verify (jwt_decode env (now dr)) acc = Some c \<Longrightarrow> cl_jti c = s_jti s \<Longrightarrow>
      verifyActiveAccess env dr acc (auth_run env cs sv1) = (None, auth_run env cs sv1)"
proof -
  have "draw_fresh (\<lambda>j h. \<not> (j = s_jti s \<or> h = s_hash s)) env (fst c)" if "c \<in> set cs" for c
    using assms(2) [OF that] by (simp add: draw_fresh_def)
  then have gone: "dead (\<lambda>j h. j = s_jti s \<or> h = s_hash s) (adb (auth_run env cs sv1))"
    using assms(1) by (intro dead_session.run_keeps)
  then show "hashRefreshToken env tok = s_hash s \<Longrightarrow>
      fst (refresh env dr tok ip ua (auth_run env cs sv1)) \<in> {Inl TokenNotFound, Inl TokenRevoked}"
    by (intro dead_refresh) (simp add: dead_def)
  show "verifyActiveAccess env dr acc (auth_run env cs sv1) = (None, auth_run env cs sv1)"
    if "jwt_verify (jwt_decode env (now dr)) acc = Some c" "cl_jti c = s_jti s"
    using gone that by (intro dead_access) (simp_all add: dead_def)
qed

subsection \<open>The last administrator\<close>

lemma hasAdminUser_iff: "hasAdminUser d \<longleftrightarrow> (\<exists>u\<in>set (users d). enabled_admin u)"
  by (simp add: hasAdminUser_def list_ex_iff)

lemma two_in_filter:
  assumes "2 \<le> length (filter P xs)" "distinct (map k xs)"
  shows "\<exists>x\<in>set xs. P x \<and> k x \<noteq> a"
proof (rule ccontr)
  assume "\<not> (\<exists>x\<in>set xs. P x \<and> k x \<noteq> a)"
  then have "k ` set (filter P xs) \<subseteq> {a}" by auto
  then have "card (k ` set (filter P xs)) \<le> 1" using card_mono [of "{a}"] by simp
  moreover have "distinct (map k (filter P xs))" using assms(2) by (rule distinct_map_filter)
  then have "card (k ` set (filter P xs)) = length (filter P xs)"
    using distinct_card [of "map k (filter P xs)"] by simp
  ultimately show False using assms(1) by simp
qed

lemma purged_keeps_admin:
  assumes "u \<in> set (users d)" "enabled_admin u" "u_id u \<noteq> i"
  shows "hasAdminUser (purged i d)"
proof -
  let ?f = "\<lambda>u. if u_created_by u = Some i then u\<lparr>u_created_by := None\<rparr> else u"
  have "?f u \<in> set (users (purged i d))" using assms by (auto simp: purged_def)
  moreover have "enabled_admin (?f u)" using assms by (simp add: enabled_admin_def)
  ultimately show ?thesis by (auto simp: hasAdminUser_iff)
qed

lemma purge_keeps_an_admin:
  assumes ok: "auth_ok (adb sv)" and admin: "hasAdminUser (adb sv)"
  shows "hasAdminUser (adb (snd (adminPurgeUser i actor sv)))"
proof -
  have "hasAdminUser (purged i (tried (adb sv)))"
    if t: "findUserById (adb sv) i = Some t" and more: "\<not> (u_role t = Admin \<and> \<not> u_disabled t \<and> countEnabledAdmins (adb sv) \<le> 1)" for t
  proof (cases "enabled_admin t")
    case True
    then have "2 \<le> length (filter enabled_admin (users (adb sv)))"
      using more by (simp add: enabled_admin_def countEnabledAdmins_def)
    then obtain u where "u \<in> set (users (adb sv))" "enabled_admin u" "u_id u \<noteq> i"
      using two_in_filter [of enabled_admin "users (adb sv)" u_id i] ok by (auto simp: auth_ok_def keys_ok_def)
    then show ?thesis by (intro purged_keeps_admin) simp_all
  next
    case False
    obtain u where u: "u \<in> set (users (adb sv))" "enabled_admin u" using admin by (auto simp: hasAdminUser_iff)
    have t: "t \<in> set (users (adb sv))" "u_id t = i" using t by (auto simp: findUserById_def find_Some_iff)
    have "u_id u \<noteq> i"
      using u t False ok inj_onD [of u_id "set (users (adb sv))" u t] by (auto simp: auth_ok_def keys_ok_def distinct_map)
    then show ?thesis using u by (intro purged_keeps_admin) simp_all
  qed
  then show ?thesis
    using admin by (auto simp: adminPurgeUser_def case_prod_beta purgeUser_def hasAdminUser_def split: option.split)
qed

end
