(* ===== verification/AuthLogin.thy ===== *)
theory AuthLogin
  imports AuthSessions
begin

text \<open>
  What the calls of the sign-in service do for the one who calls: who is let in, how guessing is slowed
  down, what a change of password leaves, which rights the groups of a directory give.
\<close>

subsection \<open>Looking a user up after an update\<close>



subsection \<open>Guessing passwords\<close>











text \<open>The guesses whose password was looked at.\<close>

definition looked_at :: "login_result list \<Rightarrow> int" where
  "looked_at as = int (length (filter (\<lambda>a. a = Inl LoginInvalidPassword) as))"

lemma looked_at_Cons [simp]: "looked_at (a # as) = (if a = Inl LoginInvalidPassword then 1 else 0) + looked_at as"
  by (simp add: looked_at_def)

lemma looked_at_Nil [simp]: "looked_at [] = 0"
  by (simp add: looked_at_def)




subsection \<open>Who is let in\<close>








subsection \<open>Changing the password\<close>








subsection \<open>The rights of groups\<close>

definition is_best :: "('a \<Rightarrow> nat) \<Rightarrow> 'a set \<Rightarrow> 'a option \<Rightarrow> bool" where
  "is_best rank S best \<longleftrightarrow> (case best of None \<Rightarrow> S = {} | Some b \<Rightarrow> b \<in> S \<and> (\<forall>x\<in>S. rank x \<le> rank b))"

lemma better_of_best: "is_best rank S best \<Longrightarrow> is_best rank (insert x S) (better_of rank x best)"
  by (auto simp: is_best_def better_of_def split: option.splits)

lemma better_merge:
  assumes "is_best rank S (Some p)" "is_best rank T best"
  shows "is_best rank (S \<union> T) (better_of rank p best)"
proof -
  have p: "p \<in> S" "\<forall>x\<in>S. rank x \<le> rank p" using assms(1) by (simp_all add: is_best_def)
  have "is_best rank (insert p T) (better_of rank p best)" using assms(2) by (rule better_of_best)
  then obtain b where b: "better_of rank p best = Some b" "b \<in> insert p T" "\<forall>x\<in>insert p T. rank x \<le> rank b"
    by (cases "better_of rank p best") (auto simp: is_best_def)
  then have "\<forall>x\<in>S. rank x \<le> rank b" using p(2) le_trans by blast
  then show ?thesis using b p(1) by (auto simp: is_best_def)
qed

lemma fold_best:
  "is_best rank S best \<Longrightarrow> is_best rank ({r. \<exists>k. (k, r) \<in> set xs \<and> P k} \<union> S)
     (fold (\<lambda>(k, r) best. if P k then better_of rank r best else best) xs best)"
proof (induction xs arbitrary: S best)
  case (Cons x xs)
  obtain k r where x: "x = (k, r)" by (cases x)
  have "is_best rank ({r. \<exists>k. (k, r) \<in> set xs \<and> P k} \<union> (if P k then insert r S else S))
      (fold (\<lambda>(k, r) best. if P k then better_of rank r best else best) (x # xs) best)"
    using Cons.IH [OF better_of_best [OF Cons.prems, of r]] Cons.IH [OF Cons.prems] by (simp add: x)
  moreover have "{r. \<exists>k. (k, r) \<in> set xs \<and> P k} \<union> (if P k then insert r S else S)
      = {r. \<exists>k. (k, r) \<in> set (x # xs) \<and> P k} \<union> S" by (auto simp: x)
  ultimately show ?case by (simp only:)
qed (simp)

definition offered_roles :: "string list \<Rightarrow> (string \<times> Role) list \<Rightarrow> Role set" where
  "offered_roles groups m = {r. \<exists>g\<in>set groups. \<exists>k. (k, r) \<in> set m \<and> lowercaseAscii g = lowercaseAscii k}"

lemma role_fold_best:
  "is_best rolePriority S best \<Longrightarrow> is_best rolePriority (offered_roles groups m \<union> S)
     (fold (\<lambda>g best. fold (\<lambda>(k, r) best. if lowercaseAscii g = k then better_of rolePriority r best else best)
        (map (\<lambda>(k, r). (lowercaseAscii k, r)) m) best) groups best)"
proof (induction groups arbitrary: S best)
  case (Cons g groups)
  let ?m = "map (\<lambda>(k, r). (lowercaseAscii k, r)) m"
  let ?step = "\<lambda>g best. fold (\<lambda>(k, r) best. if lowercaseAscii g = k then better_of rolePriority r best else best) ?m best"
  let ?new = "{r. \<exists>k. (k, r) \<in> set ?m \<and> lowercaseAscii g = k}"
  have "is_best rolePriority (offered_roles groups m \<union> (?new \<union> S)) (fold ?step groups (?step g best))"
    by (intro Cons.IH fold_best Cons.prems)
  moreover have "offered_roles groups m \<union> (?new \<union> S) = offered_roles (g # groups) m \<union> S"
    by (auto simp: offered_roles_def image_iff split: prod.splits)
  ultimately show ?case by simp
qed (simp add: offered_roles_def)

lemma pickRole_best: "is_best rolePriority (offered_roles groups m) (pickRoleForGroups groups m)"
proof (cases "groups = [] \<or> m = []")
  case True
  then show ?thesis by (auto simp: pickRoleForGroups_def is_best_def offered_roles_def)
next
  case False
  have "is_best rolePriority {} None" by (simp add: is_best_def)
  from role_fold_best [OF this, of groups m] show ?thesis using False by (simp add: pickRoleForGroups_def Let_def)
qed

definition offered_rights :: "string list \<Rightarrow> ChannelAclEntry list \<Rightarrow> int \<Rightarrow> ChannelPermission set" where
  "offered_rights groups acl ch = {p. \<exists>e\<in>set acl. acl_channel e = ch \<and>
     (\<exists>k. (k, p) \<in> set (group_perms e) \<and> lowercaseAscii k \<in> lowercaseAscii ` set groups)}"

lemma entry_best: "is_best permissionPriority {p. \<exists>k. (k, p) \<in> set (group_perms e) \<and> lowercaseAscii k \<in> set gs} (best_for_entry gs e)"
proof -
  have "is_best permissionPriority {} None" by (simp add: is_best_def)
  from fold_best [OF this, of "group_perms e" "\<lambda>k. lowercaseAscii k \<in> set gs"] show ?thesis by (simp add: best_for_entry_def)
qed

lemma acl_fold_best:
  "is_best permissionPriority S (picked ch) \<Longrightarrow>
   is_best permissionPriority (offered_rights groups acl ch \<union> S) (fold (merge_entry (map lowercaseAscii groups)) acl picked ch)"
proof (induction acl arbitrary: S picked)
  case (Cons e acl)
  let ?gs = "map lowercaseAscii groups"
  let ?new = "{p. \<exists>k. (k, p) \<in> set (group_perms e) \<and> lowercaseAscii k \<in> set ?gs}"
  let ?T = "if acl_channel e = ch then ?new \<union> S else S"
  have "is_best permissionPriority ?T (merge_entry ?gs e picked ch)"
  proof (cases "best_for_entry ?gs e")
    case None
    then have "?new = {}" using entry_best [of e ?gs] by (simp add: is_best_def)
    then have "?T = S" by (simp only: Un_empty_left if_cancel)
    then show ?thesis using Cons.prems None by (simp only: merge_entry_def option.case)
  next
    case (Some p)
    then have "is_best permissionPriority ?new (Some p)" using entry_best [of e ?gs] by simp
    then have "acl_channel e = ch \<Longrightarrow> is_best permissionPriority (?new \<union> S) (better_of permissionPriority p (picked ch))"
      using Cons.prems by (intro better_merge)
    then show ?thesis using Cons.prems Some by (cases "acl_channel e = ch") (auto simp: merge_entry_def)
  qed
  then have "is_best permissionPriority (offered_rights groups acl ch \<union> ?T) (fold (merge_entry ?gs) acl (merge_entry ?gs e picked) ch)"
    by (rule Cons.IH)
  moreover have "offered_rights groups acl ch \<union> ?T = offered_rights groups (e # acl) ch \<union> S"
    by (auto simp: offered_rights_def)
  ultimately show ?case by simp
qed (simp add: offered_rights_def)
lemma best_unique:
  assumes "is_best rank S best" "inj rank"
  shows "best = Some x \<longleftrightarrow> x \<in> S \<and> (\<forall>y\<in>S. rank y \<le> rank x)"
proof (cases best)
  case (Some a)
  have "a = x" if "x \<in> S" "\<forall>y\<in>S. rank y \<le> rank x"
    using assms(1) that Some by (intro injD [OF assms(2)] antisym) (simp_all add: is_best_def)
  then show ?thesis using assms(1) Some by (auto simp: is_best_def)
qed (use assms in \<open>simp add: is_best_def\<close>)

lemma inj_priorities: "inj rolePriority" "inj permissionPriority"
proof -
  show "inj rolePriority" by (intro injI) (rename_tac x y, case_tac x; case_tac y; simp)
  show "inj permissionPriority" by (intro injI) (rename_tac x y, case_tac x; case_tac y; simp)
qed

lemma picked_channels:
  "fold (merge_entry gs) acl picked ch \<noteq> None \<Longrightarrow> picked ch \<noteq> None \<or> ch \<in> acl_channel ` set acl"
proof (induction acl arbitrary: picked)
  case (Cons e acl)
  from Cons.IH [of "merge_entry gs e picked"] Cons.prems
  show ?case by (auto simp: merge_entry_def split: option.splits if_splits)
qed simp

lemma acl_grants:
  "\<lparr>grant_channel = ch, grant_permission = p\<rparr> \<in> set (pickAclGrantsForGroups groups acl) \<longleftrightarrow>
   p \<in> offered_rights groups acl ch \<and> (\<forall>q\<in>offered_rights groups acl ch. permissionPriority q \<le> permissionPriority p)"
proof (cases "groups = [] \<or> acl = []")
  case True
  then show ?thesis by (auto simp: pickAclGrantsForGroups_def offered_rights_def)
next
  case False
  let ?picked = "fold (merge_entry (map lowercaseAscii groups)) acl Map.empty"
  have "is_best permissionPriority {} (Map.empty ch)" by (simp add: is_best_def)
  then have best: "is_best permissionPriority (offered_rights groups acl ch) (?picked ch)"
    using acl_fold_best [of "{}" Map.empty ch groups acl] by simp
  have "\<lparr>grant_channel = ch, grant_permission = p\<rparr> \<in> set (pickAclGrantsForGroups groups acl) \<longleftrightarrow>
      ch \<in> acl_channel ` set acl \<and> ?picked ch = Some p"
    using False by (auto simp: pickAclGrantsForGroups_def Let_def List.map_filter_def image_iff)
  also have "\<dots> \<longleftrightarrow> ?picked ch = Some p"
    using picked_channels [of "map lowercaseAscii groups" acl Map.empty ch] by auto
  also have "\<dots> \<longleftrightarrow> p \<in> offered_rights groups acl ch \<and> (\<forall>q\<in>offered_rights groups acl ch. permissionPriority q \<le> permissionPriority p)"
    by (rule best_unique [OF best inj_priorities(2)])
  finally show ?thesis .
qed

lemma acl_channels_sorted: "sorted (map grant_channel (pickAclGrantsForGroups groups acl)) \<and>
  distinct (map grant_channel (pickAclGrantsForGroups groups acl))"
proof -
  have "map grant_channel (List.map_filter (\<lambda>ch. map_option (\<lambda>p. \<lparr>grant_channel = ch, grant_permission = p\<rparr>) (f ch)) xs)
      = filter (\<lambda>ch. f ch \<noteq> None) xs" for f :: "int \<rightharpoonup> ChannelPermission" and xs
    by (induction xs) (auto simp: List.map_filter_def)
  then show ?thesis by (simp add: pickAclGrantsForGroups_def Let_def sorted_filter [of id, simplified])
qed
subsection \<open>A small server\<close>

text \<open>
  Stand-ins for what is not under the sources: a hash that is the password behind a mark, a digest that is the
  text itself, tokens that are their own ids.
\<close>

definition demo_env :: auth_env where
  "demo_env = \<lparr>argon_hash = (\<lambda>_ p. if length p < 100 then Some (CHR ''#'' # p) else None),
     argon_verify = (\<lambda>p h. h = CHR ''#'' # p), sha256 = map (\<lambda>c. of_char c), jwt_sign = tok_id,
     jwt_decode = (\<lambda>_ tok. if tok = ''j1'' then Some (issued 1 ''root'' Admin True [] ''j1'' 1000) else None),
     grants_for_user = Some local_grants, ldap_authenticator = None, ldap_grants_resolver = None,
     dump_groups = (\<lambda>_. ''[]''), parse_json = (\<lambda>_. None), threshold = 5, base_delay_sec = 30, max_lock_sec = 3600,
     max_age_sec = 604800, audit_wired = True, password_file_wired = True\<rparr>"

definition demo_draw :: "int \<Rightarrow> string \<Rightarrow> string \<Rightarrow> draw" where
  "demo_draw t j r = \<lparr>now = t, drawn_jti = j, drawn_refresh = r, drawn_password = ''first-secret'', drawn_salt = [],
     file_writable = True\<rparr>"

definition demo_start :: auth_service where
  "demo_start = \<lparr>adb = empty_auth_db, trail = [], password_file = None\<rparr>"

text \<open>The first administrator is made and signs in.\<close>

definition demo_booted :: auth_service where
  "demo_booted = auth_run demo_env [(demo_draw 1000 ''j0'' ''r0'', CallBootstrap ''root'')] demo_start"

definition demo_signed_in :: auth_service where
  "demo_signed_in = snd (login demo_env (demo_draw 1001 ''j1'' ''r1'') ''root'' ''first-secret'' ''ip'' ''ua'' demo_booted)"

lemma demo_ok: "auth_ok (adb demo_booted)" "auth_ok (adb demo_signed_in)"
proof -
  show booted: "auth_ok (adb demo_booted)"
    unfolding demo_booted_def
    by (rule schema.run_keeps) (simp_all add: draw_fresh_def demo_start_def empty_auth_ok)
  have "auth_ok (adb (auth_run demo_env [(demo_draw 1001 ''j1'' ''r1'', CallLogin ''root'' ''first-secret'' ''ip'' ''ua'')] demo_booted))"
    using booted by (intro schema.run_keeps) (simp_all add: draw_fresh_def)
  then show "auth_ok (adb demo_signed_in)" by (simp add: auth_run_def demo_signed_in_def)
qed


subsection \<open>What the calls leave open\<close>

text \<open>The guard on the last administrator stands before a purge only.\<close>

lemma last_admin_can_be_disabled:
  "hasAdminUser (adb demo_booted)" "\<not> hasAdminUser (adb (snd (adminSetDisabled (demo_draw 1001 [] []) 1 True demo_booted)))"
  "\<not> hasAdminUser (adb (snd (adminUpdateUser 1 [] Viewer Local demo_booted)))"
  "fst (adminPurgeUser 1 2 demo_booted) = Inl LastEnabledAdmin"
  by code_simp+

text \<open>Who has given another user a right on a channel cannot be purged: \<open>granted_by\<close> still refers to him.\<close>

lemma grantor_cannot_be_purged:
  assumes "write_refused (adb sv) = False" "findUserById (adb sv) i = Some t" "grants_of_others i (adb sv)" "i \<noteq> actor"
  shows "fst (adminPurgeUser i actor sv) \<in> {Inl LastEnabledAdmin, Inl PurgeInternalError}"
    and "users (adb (snd (adminPurgeUser i actor sv))) = users (adb sv)"
  using assms by (simp_all add: adminPurgeUser_def purgeUser_def case_prod_beta)

definition demo_user_request :: CreateUserRequest where
  "demo_user_request = \<lparr>cr_username = ''ann'', cr_email = [], cr_password = ''ann-secret'', cr_role = Operator,
     cr_must_change = False, cr_created_by = Some 1\<rparr>"

lemma grantor_run:
  "let dr = demo_draw 1001 [] [];
       sv = auth_run demo_env [(dr, CallCreateUser demo_user_request), (dr, CallCreateUser (demo_user_request\<lparr>cr_username := ''bob''\<rparr>)),
         (dr, CallSetPermission 3 7 View 2)] demo_booted
   in map u_name (users (adb sv)) = [''root'', ''ann'', ''bob''] \<and> fst (adminPurgeUser 2 1 sv) = Inl PurgeInternalError"
  by code_simp

text \<open>
  The answer to the revocation is not looked at: when that write alone is refused the new pair is issued, and the
  token that was used keeps working.
\<close>

definition demo_flaky :: auth_service where
  "demo_flaky = demo_signed_in\<lparr>adb := (adb demo_signed_in)\<lparr>faults := [True]\<rparr>\<rparr>"

lemma failed_revocation_leaves_two:
  "\<exists>pair sv1. refresh demo_env (demo_draw 1002 ''j2'' ''r2'') ''r1'' ''ip'' ''ua'' demo_flaky = (Inr (pair, hd (users (adb demo_signed_in))), sv1) \<and>
    (\<exists>q sv2. refresh demo_env (demo_draw 1003 ''j3'' ''r3'') ''r1'' ''ip'' ''ua'' sv1 = (Inr q, sv2))"
proof -
  let ?r1 = "refresh demo_env (demo_draw 1002 ''j2'' ''r2'') ''r1'' ''ip'' ''ua'' demo_flaky"
  let ?r2 = "refresh demo_env (demo_draw 1003 ''j3'' ''r3'') ''r1'' ''ip'' ''ua'' (snd ?r1)"
  have a: "(case fst ?r1 of Inr p \<Rightarrow> snd p = hd (users (adb demo_signed_in)) | Inl _ \<Rightarrow> False)" by code_simp
  have b: "(case fst ?r2 of Inr p \<Rightarrow> True | Inl _ \<Rightarrow> False)" by code_simp
  obtain p where p: "fst ?r1 = Inr p" "snd p = hd (users (adb demo_signed_in))" using a by (cases "fst ?r1") auto
  obtain q where q: "fst ?r2 = Inr q" using b by (cases "fst ?r2") auto
  have "?r1 = (Inr (fst p, hd (users (adb demo_signed_in))), snd ?r1)" using p by (metis prod.collapse)
  moreover have "?r2 = (Inr q, snd ?r2)" using q by (metis prod.collapse)
  ultimately show ?thesis by blast
qed

text \<open>
  A reset that fails at its second write has already replaced the password, and gives the new one to nobody.
\<close>

lemma reset_half_done:
  "let sv = snd (adminResetPassword demo_env (demo_draw 2000 [] []\<lparr>drawn_password := ''second-secret''\<rparr>) 1
         (demo_booted\<lparr>adb := (adb demo_booted)\<lparr>faults := [False, True]\<rparr>\<rparr>))
   in fst (adminResetPassword demo_env (demo_draw 2000 [] []\<lparr>drawn_password := ''second-secret''\<rparr>) 1
         (demo_booted\<lparr>adb := (adb demo_booted)\<lparr>faults := [False, True]\<rparr>\<rparr>)) = None \<and>
      fst (login demo_env (demo_draw 2001 ''j5'' ''r5'') ''root'' ''first-secret'' ''ip'' ''ua'' sv) = Inl LoginInvalidPassword"
  by code_simp

text \<open>A byte from 128 up, so any letter outside ASCII, is taken for a control character.\<close>

lemma only_ascii_names: "\<not> usernameValid [CHR 0xD0, CHR 0x90]" "usernameValid ''root''"
  by code_simp+

section \<open>Properties\<close>

text \<open>C7: a refresh token that gave a pair is spent: after it, and after any further calls of the service (none of
  which happens to draw a token with the same hash), it is refused as unknown or revoked. The one condition
  on the storage is that it did not refuse the revocation; see \<open>failed_revocation_leaves_two\<close>.\<close>

theorem spent_refresh_token:
  assumes "refresh env dr tok ip ua sv = (Inr (pair, u), sv1)"
    and "distinct (map s_hash (sessions (adb sv)))" "\<not> write_refused (adb sv)"
    and "hashRefreshToken env (drawn_refresh dr) \<noteq> hashRefreshToken env tok"
    and "\<forall>c\<in>set cs. hashRefreshToken env (drawn_refresh (fst c)) \<noteq> hashRefreshToken env tok"
  shows "fst (refresh env dr' tok ip' ua' (auth_run env cs sv1)) \<in> {Inl TokenNotFound, Inl TokenRevoked}"
  using used_token_is_spent [OF assms(1-4)] assms(5) by blast

theorem spent_refresh_token_witness:
  "\<exists>pair u sv1. refresh demo_env (demo_draw 1002 ''j2'' ''r2'') ''r1'' ''ip'' ''ua'' demo_signed_in = (Inr (pair, u), sv1) \<and>
    fst (refresh demo_env (demo_draw 1004 ''j4'' ''r4'') ''r1'' ''ip'' ''ua''
      (auth_run demo_env [(demo_draw 1003 ''j3'' ''r3'', CallRefresh ''r2'' ''ip'' ''ua'')] sv1)) \<in> {Inl TokenNotFound, Inl TokenRevoked}"
proof -
  let ?r1 = "refresh demo_env (demo_draw 1002 ''j2'' ''r2'') ''r1'' ''ip'' ''ua'' demo_signed_in"
  have "(case fst ?r1 of Inr p \<Rightarrow> True | Inl _ \<Rightarrow> False)" by code_simp
  then obtain pair u where "fst ?r1 = Inr (pair, u)" by (cases "fst ?r1") auto
  then have r: "?r1 = (Inr (pair, u), snd ?r1)" by (metis prod.collapse)
  have h: "distinct (map s_hash (sessions (adb demo_signed_in)))" "\<not> write_refused (adb demo_signed_in)"
    "hashRefreshToken demo_env (drawn_refresh (demo_draw 1002 ''j2'' ''r2'')) \<noteq> hashRefreshToken demo_env ''r1''"
    "hashRefreshToken demo_env (drawn_refresh (demo_draw 1003 ''j3'' ''r3'')) \<noteq> hashRefreshToken demo_env ''r1''" by code_simp+
  have "\<forall>c\<in>set [(demo_draw 1003 ''j3'' ''r3'', CallRefresh ''r2'' ''ip'' ''ua'')].
      hashRefreshToken demo_env (drawn_refresh (fst c)) \<noteq> hashRefreshToken demo_env ''r1''" using h(4) by simp
  from spent_refresh_token [OF r h(1-3) this] r show ?thesis by blast
qed



text \<open>C9: once a user is disabled (the storage taking both writes), no session he had is of use again, whatever calls
  follow and even if he is enabled later: its refresh token is refused and its access token does not verify.\<close>

theorem disabled_user_shut_out:
  assumes "adminSetDisabled dr i True sv = (True, sv1)" "auth_ok (adb sv)" "distinct (map s_hash (sessions (adb sv)))"
    and "faults (adb sv) = []" "s \<in> set (sessions (adb sv))" "s_user s = i"
    and "\<forall>c\<in>set cs. drawn_jti (fst c) \<noteq> s_jti s \<and> hashRefreshToken env (drawn_refresh (fst c)) \<noteq> s_hash s"
  shows "(hashRefreshToken env tok = s_hash s \<longrightarrow>
      fst (refresh env dr' tok ip ua (auth_run env cs sv1)) \<in> {Inl TokenNotFound, Inl TokenRevoked}) \<and>
    (\<forall>c. jwt_verify (jwt_decode env (now dr')) acc = Some c \<and> cl_jti c = s_jti s \<longrightarrow>
      verifyActiveAccess env dr' acc (auth_run env cs sv1) = (None, auth_run env cs sv1))"
proof -
  have gone: "dead (\<lambda>j h. j = s_jti s \<or> h = s_hash s) (adb sv1)" using assms(1-6) by (rule disabled_user_dead)
  have later: "drawn_jti (fst c) \<noteq> s_jti s \<and> hashRefreshToken env (drawn_refresh (fst c)) \<noteq> s_hash s" if "c \<in> set cs" for c
    using assms(7) that by blast
  show ?thesis using shut_out [where env = env and cs = cs, OF gone later] by blast
qed

theorem disabled_user_shut_out_witness:
  "\<exists>sv1. adminSetDisabled (demo_draw 1002 [] []) 1 True demo_signed_in = (True, sv1) \<and>
    fst (refresh demo_env (demo_draw 1003 ''j3'' ''r3'') ''r1'' ''ip'' ''ua''
      (auth_run demo_env [(demo_draw 1003 [] [], CallSetDisabled 1 False)] sv1)) \<in> {Inl TokenNotFound, Inl TokenRevoked}"
proof -
  let ?r = "adminSetDisabled (demo_draw 1002 [] []) 1 True demo_signed_in"
  have "fst ?r" by code_simp
  then have r: "?r = (True, snd ?r)" by (metis (full_types) prod.collapse)
  let ?s = "hd (sessions (adb demo_signed_in))"
  have h: "distinct (map s_hash (sessions (adb demo_signed_in)))" "faults (adb demo_signed_in) = []"
    "sessions (adb demo_signed_in) \<noteq> []" "s_user ?s = 1" by code_simp+
  have k: "drawn_jti (demo_draw 1003 [] []) \<noteq> s_jti ?s \<and> hashRefreshToken demo_env (drawn_refresh (demo_draw 1003 [] [])) \<noteq> s_hash ?s"
    "hashRefreshToken demo_env ''r1'' = s_hash ?s" by code_simp+
  have "\<forall>c\<in>set [(demo_draw 1003 [] [], CallSetDisabled 1 False)]. drawn_jti (fst c) \<noteq> s_jti ?s \<and>
      hashRefreshToken demo_env (drawn_refresh (fst c)) \<noteq> s_hash ?s" using k(1) by simp
  from disabled_user_shut_out [OF r demo_ok(2) h(1,2) hd_in_set [OF h(3)] h(4) this] k(2) r show ?thesis by blast
qed





text \<open>C12: every sequence of calls, whichever of their writes the storage refuses, keeps the constraints of the
  schema: user ids and names, session ids and token ids, rights on channels and on screens are unique, and every
  row refers to users there are.\<close>

theorem tables_stay_consistent:
  assumes "auth_ok (adb sv)"
  shows "auth_ok (adb (auth_run env cs sv))"
  by (rule schema.run_keeps) (simp_all add: draw_fresh_def assms)

theorem tables_stay_consistent_witness:
  "auth_ok (adb (auth_run demo_env [(demo_draw 1000 ''j0'' ''r0'', CallBootstrap ''root''),
      (demo_draw 1001 ''j1'' ''r1'', CallLogin ''root'' ''first-secret'' [] [])] demo_start)) \<and>
    length (sessions (adb (auth_run demo_env [(demo_draw 1000 ''j0'' ''r0'', CallBootstrap ''root''),
      (demo_draw 1001 ''j1'' ''r1'', CallLogin ''root'' ''first-secret'' [] [])] demo_start))) = 1"
proof -
  have "auth_ok (adb demo_start)" by (simp add: demo_start_def empty_auth_ok)
  moreover have "length (sessions (adb (auth_run demo_env [(demo_draw 1000 ''j0'' ''r0'', CallBootstrap ''root''),
      (demo_draw 1001 ''j1'' ''r1'', CallLogin ''root'' ''first-secret'' [] [])] demo_start))) = 1" by code_simp
  ultimately show ?thesis using tables_stay_consistent by blast
qed

text \<open>C13: a purge leaves an enabled administrator when there was one, whoever is purged and whatever comes of it.
  (Disabling and demoting have no such guard: \<open>last_admin_can_be_disabled\<close>.)\<close>

theorem an_admin_remains:
  assumes "auth_ok (adb sv)" "hasAdminUser (adb sv)"
  shows "hasAdminUser (adb (snd (adminPurgeUser i actor sv)))"
  using assms by (rule purge_keeps_an_admin)

theorem an_admin_remains_witness:
  "hasAdminUser (adb (snd (adminPurgeUser 1 2 demo_booted)))"
proof -
  have "hasAdminUser (adb demo_booted)" by code_simp
  with demo_ok(1) show ?thesis by (rule an_admin_remains)
qed



text \<open>C15: the role picked for the groups of a directory user is the highest of the roles the configuration gives to
  one of them, ignoring case, and there is none exactly when it gives none; the right on a channel is the highest
  that any entry for the channel gives to one of them; every channel occurs once, in ascending order.\<close>

theorem directory_rights_are_the_highest:
  "(pickRoleForGroups groups m = Some r \<longleftrightarrow>
      r \<in> offered_roles groups m \<and> (\<forall>q\<in>offered_roles groups m. rolePriority q \<le> rolePriority r)) \<and>
   (pickRoleForGroups groups m = None \<longleftrightarrow> offered_roles groups m = {}) \<and>
   (\<lparr>grant_channel = ch, grant_permission = p\<rparr> \<in> set (pickAclGrantsForGroups groups acl) \<longleftrightarrow>
      p \<in> offered_rights groups acl ch \<and> (\<forall>q\<in>offered_rights groups acl ch. permissionPriority q \<le> permissionPriority p)) \<and>
   sorted (map grant_channel (pickAclGrantsForGroups groups acl)) \<and>
   distinct (map grant_channel (pickAclGrantsForGroups groups acl))"
proof -
  have "pickRoleForGroups groups m = None \<longleftrightarrow> offered_roles groups m = {}"
    using pickRole_best [of groups m] by (cases "pickRoleForGroups groups m") (auto simp: is_best_def)
  then show ?thesis
    using best_unique [OF pickRole_best inj_priorities(1)] acl_grants acl_channels_sorted by blast
qed

theorem directory_rights_are_the_highest_witness:
  "pickRoleForGroups [''cn=OPS'', ''cn=all''] [(''CN=all'', Viewer), (''cn=ops'', Operator)] = Some Operator"
proof -
  have "Operator \<in> offered_roles [''cn=OPS'', ''cn=all''] [(''CN=all'', Viewer), (''cn=ops'', Operator)]"
    by (simp add: offered_roles_def) code_simp
  moreover have "\<forall>q\<in>offered_roles [''cn=OPS'', ''cn=all''] [(''CN=all'', Viewer), (''cn=ops'', Operator)]. rolePriority q \<le> rolePriority Operator"
    by (auto simp: offered_roles_def)
  ultimately show ?thesis using directory_rights_are_the_highest by blast
qed

end
