(* ===== verification/EnrollDb.thy ===== *)
theory EnrollDb
  imports PlayersDb Json "HOL-Library.AList"
begin

text \<open>
  The rest of the tables of \<open>players/PlayersDb.cpp\<close>: screens with their full rows, pairing tokens,
  certificates, last known states, the journal, CRL numbers, settings, objects and groups. A table is
  the list of its rows in the order of their row ids, an SQL statement is the list operation it
  denotes, and the constraints of the schema are tests of the writing operations. A transaction can
  be refused when it begins, at one of its writes or at its commit: \<open>db_faults\<close> says what befalls the
  coming ones, one entry for each; a refused transaction leaves every table as it was. Reads succeed.
  Times are unbounded integers, a \<open>now\<close> of zero, which reads the clock, is taken as read.

  Results: every operation keeps the keys, the foreign keys, and the rules that bind certificates and
  tokens to the state of their screen.
\<close>

subsection \<open>Rows\<close>

record Screen =
  pl_id :: string
  pl_name :: string
  pl_state :: PlayerState
  pl_clock_policy :: string
  pl_created_at :: int
  pl_created_by :: "int option"
  pl_activated_at :: "int option"
  pl_revoked_at :: "int option"
  pl_revoke_reason :: string
  pl_group :: "int option"

record EnrollToken =
  tk_id :: int
  tk_player :: string
  tk_hash :: string
  tk_created_at :: int
  tk_expires_at :: int
  tk_used_at :: "int option"

record CertRow =
  serial_hex :: string
  generation :: int
  crt_player :: string
  crt_issued_at :: int
  not_before :: int
  not_after :: int
  crt_revoked_at :: "int option"
  crt_revoke_reason :: string

record ScreenStatus =
  st_player :: string
  st_updated_at :: int
  st_online :: bool
  st_version :: string
  st_payload :: string

text \<open>What a line of the journal says: a text, or what a JSON value dumps to.\<close>

datatype details = Plain string | Dumped json

record EventRow =
  ev_id :: int
  ev_player :: string
  ev_ts :: int
  ev_kind :: string
  ev_details :: details

record ObjectEntry =
  ob_id :: int
  ob_name :: string
  ob_created_at :: int

record GroupEntry =
  gr_id :: int
  gr_object :: int
  gr_name :: string
  gr_created_at :: int

datatype fault = Fine | AtBegin | AtWrite | AtCommit

text \<open>The \<open>_seq\<close> fields are the \<open>AUTOINCREMENT\<close> counters: the largest id a table has ever given out.\<close>

record players_db =
  screens :: "Screen list"
  tokens :: "EnrollToken list"
  token_seq :: int
  certs :: "CertRow list"
  screen_statuses :: "ScreenStatus list"
  journal :: "EventRow list"
  event_seq :: int
  crl_numbers :: "(int \<times> int) list"
  stored_settings :: "(string \<times> string) list"
  object_entries :: "ObjectEntry list"
  object_seq :: int
  group_entries :: "GroupEntry list"
  group_seq :: int
  command_log :: "CommandRow list"
  db_faults :: "fault list"

definition empty_players_db :: players_db where
  "empty_players_db = \<lparr>screens = [], tokens = [], token_seq = 0, certs = [], screen_statuses = [], journal = [],
     event_seq = 0, crl_numbers = [], stored_settings = [], object_entries = [], object_seq = 0,
     group_entries = [], group_seq = 0, command_log = [], db_faults = []\<rparr>"

subsection \<open>Transactions\<close>

definition next_fault :: "players_db \<Rightarrow> fault" where
  "next_fault d = (case db_faults d of [] \<Rightarrow> Fine | f # _ \<Rightarrow> f)"

definition after_fault :: "players_db \<Rightarrow> players_db" where
  "after_fault d = d\<lparr>db_faults := tl (db_faults d)\<rparr>"

text \<open>
  What the code inside \<open>BEGIN IMMEDIATE\<close> comes to: it leaves with an answer and nothing written, it
  commits without having written, or it writes and commits.
\<close>

datatype 'a tx_end = Leave 'a | CommitAsIs 'a | CommitWrites players_db 'a

definition transaction :: "'a \<Rightarrow> 'a \<Rightarrow> 'a \<Rightarrow> (players_db \<Rightarrow> 'a tx_end) \<Rightarrow> players_db \<Rightarrow> 'a \<times> players_db" where
  "transaction no_begin no_write no_commit body d =
     (let f = next_fault d; d0 = after_fault d in
      if f = AtBegin then (no_begin, d0)
      else case body d0 of
        Leave a \<Rightarrow> (a, d0)
      | CommitAsIs a \<Rightarrow> (if f = AtCommit then no_commit else a, d0)
      | CommitWrites d1 a \<Rightarrow>
          if f = AtWrite then (no_write, d0) else if f = AtCommit then (no_commit, d0) else (a, d1))"

text \<open>A single statement is its own transaction.\<close>

definition statement :: "'a \<Rightarrow> (players_db \<Rightarrow> players_db \<times> 'a) \<Rightarrow> players_db \<Rightarrow> 'a \<times> players_db" where
  "statement no body d =
     (let d0 = after_fault d in
      if next_fault d = Fine then (snd (body d0), fst (body d0)) else (no, d0))"

subsection \<open>Identifiers, tokens, names\<close>

definition hex_char :: "u8 \<Rightarrow> char" where
  "hex_char b = ''0123456789abcdef'' ! (unat b mod 16)"

definition hex_byte :: "u8 \<Rightarrow> string" where
  "hex_byte b = [hex_char (drop_bit 4 b), hex_char (b AND 15)]"

text \<open>From sixteen random bytes.\<close>

definition newUuidV4 :: "bytes \<Rightarrow> string" where
  "newUuidV4 b =
     (let c = b[6 := (b ! 6 AND 0x0F) OR 0x40, 8 := (b ! 8 AND 0x3F) OR 0x80]
      in concat (map (\<lambda>i. (if i \<in> {4, 6, 8, 10} then ''-'' else []) @ hex_byte (c ! i)) [0..<16]))"

text \<open>From thirty-two.\<close>

definition newTokenHex :: "bytes \<Rightarrow> string" where
  "newTokenHex b = concat (map hex_byte b)"

definition is_hex_digit :: "char \<Rightarrow> bool" where
  "is_hex_digit c \<longleftrightarrow> (CHR ''0'' \<le> c \<and> c \<le> CHR ''9'') \<or> (CHR ''a'' \<le> c \<and> c \<le> CHR ''f'') \<or> (CHR ''A'' \<le> c \<and> c \<le> CHR ''F'')"

definition isHexToken :: "string \<Rightarrow> bool" where
  "isHexToken t \<longleftrightarrow> length t = 64 \<and> list_all is_hex_digit t"

definition kMaxNameBytes :: nat where "kMaxNameBytes = 120"
definition kMaxTokenTtlSeconds :: int where "kMaxTokenTtlSeconds = 365 * 86400"

definition trimmed :: "string \<Rightarrow> string" where
  "trimmed s = rev (dropWhile (\<lambda>c. c = CHR '' '') (rev (dropWhile (\<lambda>c. c = CHR '' '') s)))"

definition cleanName :: "string \<Rightarrow> string option" where
  "cleanName raw = (let s = trimmed raw in
     if s = [] \<or> kMaxNameBytes < length s \<or> list_ex (\<lambda>c. of_char c < (0x20 :: nat) \<or> of_char c = (0x7F :: nat)) s
     then None else Some s)"

definition valid_ttl :: "int \<Rightarrow> bool" where
  "valid_ttl t \<longleftrightarrow> 1 \<le> t \<and> t \<le> kMaxTokenTtlSeconds"

subsection \<open>Looking up\<close>

definition screen_of :: "players_db \<Rightarrow> string \<Rightarrow> Screen option" where
  "screen_of d i = find (\<lambda>p. pl_id p = i) (screens d)"

definition group_of :: "players_db \<Rightarrow> int \<Rightarrow> GroupEntry option" where
  "group_of d i = find (\<lambda>g. gr_id g = i) (group_entries d)"

definition object_of :: "players_db \<Rightarrow> int \<Rightarrow> ObjectEntry option" where
  "object_of d i = find (\<lambda>q. ob_id q = i) (object_entries d)"

definition with_event :: "string \<Rightarrow> int \<Rightarrow> string \<Rightarrow> details \<Rightarrow> players_db \<Rightarrow> players_db" where
  "with_event i t kind what d = d\<lparr>event_seq := event_seq d + 1,
     journal := journal d @ [\<lparr>ev_id = event_seq d + 1, ev_player = i, ev_ts = t, ev_kind = kind, ev_details = what\<rparr>]\<rparr>"

definition with_token :: "string \<Rightarrow> string \<Rightarrow> int \<Rightarrow> int \<Rightarrow> players_db \<Rightarrow> players_db" where
  "with_token i h t expires d = d\<lparr>token_seq := token_seq d + 1,
     tokens := tokens d @ [\<lparr>tk_id = token_seq d + 1, tk_player = i, tk_hash = h, tk_created_at = t,
        tk_expires_at = expires, tk_used_at = None\<rparr>]\<rparr>"

definition set_screen :: "string \<Rightarrow> (Screen \<Rightarrow> Screen) \<Rightarrow> players_db \<Rightarrow> players_db" where
  "set_screen i f d = d\<lparr>screens := map (\<lambda>p. if pl_id p = i then f p else p) (screens d)\<rparr>"

text \<open>The certificates of a screen that still work, and what revoking them makes of the table.\<close>

definition live_of :: "string \<Rightarrow> CertRow \<Rightarrow> bool" where
  "live_of i c \<longleftrightarrow> crt_player c = i \<and> crt_revoked_at c = None"

definition revoke_cert_row :: "int \<Rightarrow> string \<Rightarrow> CertRow \<Rightarrow> CertRow" where
  "revoke_cert_row t reason c = c\<lparr>crt_revoked_at := Some t, crt_revoke_reason := reason\<rparr>"

definition revoke_live :: "string \<Rightarrow> int \<Rightarrow> string \<Rightarrow> players_db \<Rightarrow> players_db" where
  "revoke_live i t reason d = d\<lparr>certs := map (\<lambda>c. if live_of i c then revoke_cert_row t reason c else c) (certs d)\<rparr>"

definition by_issue :: "CertRow list \<Rightarrow> CertRow list" where
  "by_issue cs = sort_key crt_issued_at (sort_key serial_hex cs)"

text \<open>The rows the code reads before the \<open>UPDATE\<close>, as it hands them on.\<close>

definition live_revoked :: "string \<Rightarrow> int \<Rightarrow> string \<Rightarrow> players_db \<Rightarrow> CertRow list" where
  "live_revoked i t reason d = map (revoke_cert_row t reason) (by_issue (filter (live_of i) (certs d)))"

subsection \<open>Screens\<close>

record CreatedPlayer =
  new_screen :: Screen
  new_token :: string
  new_token_expires :: int

definition blank_screen :: "string \<Rightarrow> string \<Rightarrow> string \<Rightarrow> int \<Rightarrow> int option \<Rightarrow> int option \<Rightarrow> Screen" where
  "blank_screen i name policy t by_user g = \<lparr>pl_id = i, pl_name = name, pl_state = Pending, pl_clock_policy = policy,
     pl_created_at = t, pl_created_by = by_user, pl_activated_at = None, pl_revoked_at = None,
     pl_revoke_reason = [], pl_group = g\<rparr>"

text \<open>\<open>h\<close> is the hash of tokens, \<open>ub\<close> and \<open>tb\<close> the random bytes drawn for the id and the token.\<close>

definition createPlayer :: "(string \<Rightarrow> string) \<Rightarrow> bytes \<Rightarrow> bytes \<Rightarrow> string \<Rightarrow> int option \<Rightarrow> string \<Rightarrow> int \<Rightarrow> int \<Rightarrow> int option
    \<Rightarrow> players_db \<Rightarrow> CreatedPlayer option \<times> players_db" where
  "createPlayer h ub tb name by_user policy ttl t g d =
     (case cleanName name of
        None \<Rightarrow> (None, d)
      | Some clean \<Rightarrow>
          if policy \<notin> {''strict'', ''relaxed''} \<or> \<not> valid_ttl ttl then (None, d)
          else
            let i = newUuidV4 ub; tok = newTokenHex tb; row = blank_screen i clean policy t by_user g in
            transaction None None None (\<lambda>d0.
              if (case g of None \<Rightarrow> False | Some gi \<Rightarrow> group_of d0 gi = None) \<or> screen_of d0 i \<noteq> None then Leave None
              else CommitWrites (with_token i (h tok) t (t + ttl) (d0\<lparr>screens := screens d0 @ [row]\<rparr>))
                     (Some \<lparr>new_screen = row, new_token = tok, new_token_expires = t + ttl\<rparr>)) d)"

text \<open>The tokens and the last state go with the row (\<open>ON DELETE CASCADE\<close>).\<close>

definition drop_screen :: "string \<Rightarrow> players_db \<Rightarrow> players_db" where
  "drop_screen i d = d\<lparr>screens := filter (\<lambda>p. pl_id p \<noteq> i) (screens d),
     tokens := filter (\<lambda>k. tk_player k \<noteq> i) (tokens d),
     screen_statuses := filter (\<lambda>s. st_player s \<noteq> i) (screen_statuses d)\<rparr>"

definition deletePlayer :: "string \<Rightarrow> string \<Rightarrow> int \<Rightarrow> players_db \<Rightarrow> bool \<times> players_db" where
  "deletePlayer i reason t = transaction False False False (\<lambda>d0.
     if screen_of d0 i = None then Leave False
     else CommitWrites (with_event i t ''deleted'' (Plain reason) (drop_screen i (revoke_live i t reason d0))) True)"

definition revoke_screen_row :: "int \<Rightarrow> string \<Rightarrow> Screen \<Rightarrow> Screen" where
  "revoke_screen_row t reason p = p\<lparr>pl_state := Revoked, pl_revoked_at := Some t, pl_revoke_reason := reason\<rparr>"

definition revokePlayer :: "string \<Rightarrow> string \<Rightarrow> int \<Rightarrow> players_db \<Rightarrow> CertRow list option \<times> players_db" where
  "revokePlayer i reason t = transaction None None None (\<lambda>d0.
     case screen_of d0 i of
       None \<Rightarrow> Leave None
     | Some p \<Rightarrow>
         if pl_state p = Revoked then CommitAsIs (Some [])
         else CommitWrites
           (with_event i t ''revoked'' (Plain reason)
             ((set_screen i (revoke_screen_row t reason) (revoke_live i t reason d0))
               \<lparr>tokens := filter (\<lambda>k. \<not> (tk_player k = i \<and> tk_used_at k = None)) (tokens d0)\<rparr>))
           (Some (live_revoked i t reason d0)))"

subsection \<open>Pairing\<close>

record ReEnrollment =
  re_token :: string
  re_token_expires :: int
  re_revoked :: "CertRow list"
  re_previous :: PlayerState

definition state_name :: "PlayerState \<Rightarrow> string" where
  "state_name s = (case s of Pending \<Rightarrow> ''pending'' | Active \<Rightarrow> ''active'' | Revoked \<Rightarrow> ''revoked'')"

definition parsePlayerState :: "string \<Rightarrow> PlayerState option" where
  "parsePlayerState s = (if s = ''pending'' then Some Pending else if s = ''active'' then Some Active
     else if s = ''revoked'' then Some Revoked else None)"

definition pending_again :: "Screen \<Rightarrow> Screen" where
  "pending_again p = p\<lparr>pl_state := Pending, pl_activated_at := None, pl_revoked_at := None, pl_revoke_reason := []\<rparr>"

definition release_waiting :: "string \<Rightarrow> int \<Rightarrow> CommandRow \<Rightarrow> CommandRow" where
  "release_waiting i t c = (if cmd_player c = i \<and> cmd_state c = ''pending''
     then c\<lparr>cmd_state := ''released'', cmd_result := ''re_enrolled'', finished_at := Some t\<rparr> else c)"

definition forget_device :: "string \<Rightarrow> int \<Rightarrow> players_db \<Rightarrow> players_db" where
  "forget_device i t d = d\<lparr>screen_statuses := filter (\<lambda>s. st_player s \<noteq> i) (screen_statuses d),
     command_log := map (release_waiting i t) (command_log d),
     tokens := filter (\<lambda>k. tk_player k \<noteq> i) (tokens d)\<rparr>"

definition reEnrollPlayer :: "(string \<Rightarrow> string) \<Rightarrow> bytes \<Rightarrow> string \<Rightarrow> string \<Rightarrow> int \<Rightarrow> int \<Rightarrow> players_db
    \<Rightarrow> ReEnrollment option \<times> players_db" where
  "reEnrollPlayer h tb i reason ttl t d =
     (if \<not> valid_ttl ttl then (None, d)
      else transaction None None None (\<lambda>d0.
        case screen_of d0 i of
          None \<Rightarrow> Leave None
        | Some p \<Rightarrow>
            if pl_state p = Pending then Leave None
            else let tok = newTokenHex tb; revoked = live_revoked i t reason d0 in
              CommitWrites
                (with_event i t ''re_enrolled'' (Dumped (JObj [(''reason'', JStr reason),
                     (''previous_state'', JStr (state_name (pl_state p))),
                     (''revoked_certs'', JInt (int (length revoked)))]))
                  (with_token i (h tok) t (t + ttl)
                    (forget_device i t (set_screen i pending_again (revoke_live i t reason d0)))))
                (Some \<lparr>re_token = tok, re_token_expires = t + ttl, re_revoked = revoked, re_previous = pl_state p\<rparr>)) d)"

definition reissueToken :: "(string \<Rightarrow> string) \<Rightarrow> bytes \<Rightarrow> string \<Rightarrow> int \<Rightarrow> int \<Rightarrow> players_db \<Rightarrow> (string \<times> int) option \<times> players_db" where
  "reissueToken h tb i ttl t d =
     (if \<not> valid_ttl ttl then (None, d)
      else transaction None None None (\<lambda>d0.
        case screen_of d0 i of
          None \<Rightarrow> Leave None
        | Some p \<Rightarrow>
            if pl_state p \<noteq> Pending then Leave None
            else let tok = newTokenHex tb in
              CommitWrites (with_token i (h tok) t (t + ttl) (d0\<lparr>tokens := filter (\<lambda>k. tk_player k \<noteq> i) (tokens d0)\<rparr>))
                (Some (tok, t + ttl))) d)"

datatype ClaimFailure = NoMatch | Expired | AlreadyUsed | UnknownPlayer | WrongState

text \<open>
  The search goes over all tokens of the screen and keeps the last that matches. The answer is the id
  of the claimed token, or the reason.
\<close>

definition matching_token :: "(string \<Rightarrow> string) \<Rightarrow> string \<Rightarrow> string \<Rightarrow> players_db \<Rightarrow> EnrollToken option" where
  "matching_token h i tok d = find (\<lambda>k. tk_player k = i \<and> isHexToken tok \<and> tk_hash k = h tok) (rev (tokens d))"

definition use_token :: "int \<Rightarrow> int \<Rightarrow> EnrollToken \<Rightarrow> EnrollToken" where
  "use_token n t k = (if tk_id k = n \<and> tk_used_at k = None then k\<lparr>tk_used_at := Some t\<rparr> else k)"

definition claimToken :: "(string \<Rightarrow> string) \<Rightarrow> string \<Rightarrow> string \<Rightarrow> int \<Rightarrow> players_db \<Rightarrow> (ClaimFailure + int) \<times> players_db" where
  "claimToken h i tok t = transaction (Inl NoMatch) (Inl AlreadyUsed) (Inl NoMatch) (\<lambda>d0.
     case screen_of d0 i of
       None \<Rightarrow> Leave (Inl UnknownPlayer)
     | Some p \<Rightarrow> (case matching_token h i tok d0 of
         None \<Rightarrow> Leave (Inl NoMatch)
       | Some k \<Rightarrow>
           if tk_used_at k \<noteq> None then Leave (Inl AlreadyUsed)
           else if tk_expires_at k < t then Leave (Inl Expired)
           else if pl_state p \<noteq> Pending then Leave (Inl WrongState)
           else CommitWrites (d0\<lparr>tokens := map (use_token (tk_id k) t) (tokens d0)\<rparr>) (Inr (tk_id k))))"

definition held_of_pending :: "players_db \<Rightarrow> int \<Rightarrow> EnrollToken \<Rightarrow> bool" where
  "held_of_pending d n k \<longleftrightarrow> tk_id k = n \<and> tk_used_at k \<noteq> None \<and>
     (case screen_of d (tk_player k) of None \<Rightarrow> False | Some p \<Rightarrow> pl_state p = Pending)"

definition releaseClaim :: "int \<Rightarrow> players_db \<Rightarrow> bool \<times> players_db" where
  "releaseClaim n = statement False (\<lambda>d0.
     (d0\<lparr>tokens := map (\<lambda>k. if held_of_pending d0 n k then k\<lparr>tk_used_at := None\<rparr> else k) (tokens d0)\<rparr>,
      length (filter (held_of_pending d0 n) (tokens d0)) = 1))"

definition cert_key :: "CertRow \<Rightarrow> int \<times> string" where
  "cert_key c = (generation c, serial_hex c)"

text \<open>The row the \<open>INSERT\<close> makes: it names no revocation, and a certificate without a time of issue gets the clock's.\<close>

definition recorded :: "CertRow \<Rightarrow> int \<Rightarrow> CertRow" where
  "recorded c t = c\<lparr>crt_issued_at := (if crt_issued_at c \<noteq> 0 then crt_issued_at c else t),
     crt_revoked_at := None, crt_revoke_reason := []\<rparr>"

definition cert_known :: "players_db \<Rightarrow> CertRow \<Rightarrow> bool" where
  "cert_known d c \<longleftrightarrow> list_ex (\<lambda>c'. cert_key c' = cert_key c) (certs d)"

definition generation_text :: "int \<Rightarrow> details" where
  "generation_text g = Plain (''generation '' @ std_to_string g)"

definition activated :: "int \<Rightarrow> Screen \<Rightarrow> Screen" where
  "activated t p = p\<lparr>pl_state := Active, pl_activated_at := Some t\<rparr>"

definition finishEnrollment :: "int \<Rightarrow> CertRow \<Rightarrow> int \<Rightarrow> players_db \<Rightarrow> bool \<times> players_db" where
  "finishEnrollment n cert t = transaction False False False (\<lambda>d0.
     case find (\<lambda>k. tk_id k = n \<and> tk_used_at k \<noteq> None) (tokens d0) of
       None \<Rightarrow> Leave False
     | Some k \<Rightarrow> (case screen_of d0 (tk_player k) of
         None \<Rightarrow> Leave False
       | Some p \<Rightarrow>
           if tk_player k \<noteq> crt_player cert \<or> pl_state p \<noteq> Pending \<or> cert_known d0 cert then Leave False
           else CommitWrites (with_event (crt_player cert) t ''enrolled'' (generation_text (generation cert))
             (set_screen (crt_player cert) (activated t) (d0\<lparr>certs := certs d0 @ [recorded cert t]\<rparr>))) True))"

definition recordRenewal :: "CertRow \<Rightarrow> int \<Rightarrow> players_db \<Rightarrow> bool \<times> players_db" where
  "recordRenewal cert t = transaction False False False (\<lambda>d0.
     case screen_of d0 (crt_player cert) of
       None \<Rightarrow> Leave False
     | Some p \<Rightarrow>
         if pl_state p \<noteq> Active \<or> cert_known d0 cert then Leave False
         else CommitWrites (with_event (crt_player cert) t ''renewed'' (generation_text (generation cert))
           (d0\<lparr>certs := certs d0 @ [recorded cert t]\<rparr>)) True)"

subsection \<open>Certificates and revocation lists\<close>

definition certsOf :: "players_db \<Rightarrow> string \<Rightarrow> CertRow list" where
  "certsOf d i = by_issue (filter (\<lambda>c. crt_player c = i) (certs d))"

text \<open>The map the code builds, at one screen: the end of the latest certificate that still works.\<close>

definition liveCertEnds :: "players_db \<Rightarrow> string \<Rightarrow> int option" where
  "liveCertEnds d i = (case map not_after (filter (live_of i) (certs d)) of [] \<Rightarrow> None | e # es \<Rightarrow> Some (fold max es e))"

definition stage_line :: "string \<Rightarrow> EventRow \<Rightarrow> bool" where
  "stage_line i e \<longleftrightarrow> ev_player e = i \<and> ev_kind e = ''cert_stage''"

definition newest_stage_line :: "EventRow list \<Rightarrow> string \<Rightarrow> EventRow option" where
  "newest_stage_line es i = fold (\<lambda>e m. case m of None \<Rightarrow> Some e | Some b \<Rightarrow> if ev_id b < ev_id e then Some e else m)
     (filter (stage_line i) es) None"

definition stage_word :: "details \<Rightarrow> string option" where
  "stage_word w = (case w of Plain _ \<Rightarrow> None
     | Dumped j \<Rightarrow> (case field ''stage'' j of Some (JStr s) \<Rightarrow> Some s | _ \<Rightarrow> None))"

definition lastCertStages :: "players_db \<Rightarrow> string \<Rightarrow> string option" where
  "lastCertStages d i = (case newest_stage_line (journal d) i of None \<Rightarrow> None | Some e \<Rightarrow> stage_word (ev_details e))"

definition revokeCert :: "int \<Rightarrow> string \<Rightarrow> string \<Rightarrow> int \<Rightarrow> players_db \<Rightarrow> bool \<times> players_db" where
  "revokeCert g s reason t = statement False (\<lambda>d0.
     let hit = \<lambda>c. cert_key c = (g, s) \<and> crt_revoked_at c = None in
     (d0\<lparr>certs := map (\<lambda>c. if hit c then revoke_cert_row t reason c else c) (certs d0)\<rparr>,
      length (filter hit (certs d0)) = 1))"

definition still_listed :: "int \<Rightarrow> CertRow \<Rightarrow> bool" where
  "still_listed t c \<longleftrightarrow> crt_revoked_at c \<noteq> None \<and> t \<le> not_after c"

definition revokedSerials :: "players_db \<Rightarrow> int \<Rightarrow> int \<Rightarrow> CertRow list" where
  "revokedSerials d g t =
     sort_key (\<lambda>c. case crt_revoked_at c of None \<Rightarrow> 0 | Some r \<Rightarrow> r)
       (sort_key serial_hex (filter (\<lambda>c. generation c = g \<and> still_listed t c) (certs d)))"

definition revokedCerts :: "players_db \<Rightarrow> int \<Rightarrow> CertRow list" where
  "revokedCerts d t = sort_key generation (sort_key serial_hex (filter (still_listed t) (certs d)))"

definition crl_number :: "players_db \<Rightarrow> int \<Rightarrow> int" where
  "crl_number d g = (case map_of (crl_numbers d) g of None \<Rightarrow> 0 | Some n \<Rightarrow> n)"

definition nextCrlNumber :: "int \<Rightarrow> players_db \<Rightarrow> int \<times> players_db" where
  "nextCrlNumber g = transaction 0 0 0 (\<lambda>d0.
     CommitWrites (d0\<lparr>crl_numbers := AList.update g (crl_number d0 g + 1) (crl_numbers d0)\<rparr>) (crl_number d0 g + 1))"

definition purgeExpiredCerts :: "int \<Rightarrow> players_db \<Rightarrow> nat \<times> players_db" where
  "purgeExpiredCerts t = statement 0 (\<lambda>d0.
     (d0\<lparr>certs := filter (\<lambda>c. \<not> not_after c < t) (certs d0)\<rparr>, length (filter (\<lambda>c. not_after c < t) (certs d0))))"

definition dead_token :: "int \<Rightarrow> EnrollToken \<Rightarrow> bool" where
  "dead_token t k \<longleftrightarrow> (case tk_used_at k of Some u \<Rightarrow> u < t | None \<Rightarrow> tk_expires_at k < t)"

definition purgeDeadTokens :: "int \<Rightarrow> players_db \<Rightarrow> nat \<times> players_db" where
  "purgeDeadTokens t = statement 0 (\<lambda>d0.
     (d0\<lparr>tokens := filter (\<lambda>k. \<not> dead_token t k) (tokens d0)\<rparr>, length (filter (dead_token t) (tokens d0))))"

subsection \<open>Objects and groups\<close>

datatype GroupResult = GroupOk | NotFound | NameTaken | InvalidName | NotEmpty | Storage

definition createObject :: "string \<Rightarrow> int \<Rightarrow> players_db \<Rightarrow> (GroupResult + ObjectEntry) \<times> players_db" where
  "createObject name t d =
     (case cleanName name of
        None \<Rightarrow> (Inl InvalidName, d)
      | Some clean \<Rightarrow> transaction (Inl Storage) (Inl Storage) (Inl Storage) (\<lambda>d0.
          if list_ex (\<lambda>q. ob_name q = clean) (object_entries d0) then Leave (Inl NameTaken)
          else let row = \<lparr>ob_id = object_seq d0 + 1, ob_name = clean, ob_created_at = t\<rparr> in
            CommitWrites (d0\<lparr>object_seq := object_seq d0 + 1, object_entries := object_entries d0 @ [row]\<rparr>) (Inr row)) d)"

definition renameObject :: "int \<Rightarrow> string \<Rightarrow> players_db \<Rightarrow> GroupResult \<times> players_db" where
  "renameObject i name d =
     (case cleanName name of
        None \<Rightarrow> (InvalidName, d)
      | Some clean \<Rightarrow> transaction Storage Storage Storage (\<lambda>d0.
          if object_of d0 i = None then Leave NotFound
          else if list_ex (\<lambda>q. ob_name q = clean \<and> ob_id q \<noteq> i) (object_entries d0) then Leave NameTaken
          else CommitWrites (d0\<lparr>object_entries := map (\<lambda>q. if ob_id q = i then q\<lparr>ob_name := clean\<rparr> else q) (object_entries d0)\<rparr>)
                 GroupOk) d)"

definition deleteObject :: "int \<Rightarrow> players_db \<Rightarrow> GroupResult \<times> players_db" where
  "deleteObject i = transaction Storage Storage Storage (\<lambda>d0.
     if object_of d0 i = None then Leave NotFound
     else if list_ex (\<lambda>g. gr_object g = i) (group_entries d0) then Leave NotEmpty
     else CommitWrites (d0\<lparr>object_entries := filter (\<lambda>q. ob_id q \<noteq> i) (object_entries d0)\<rparr>) GroupOk)"

definition createGroup :: "int \<Rightarrow> string \<Rightarrow> int \<Rightarrow> players_db \<Rightarrow> (GroupResult + GroupEntry) \<times> players_db" where
  "createGroup q name t d =
     (case cleanName name of
        None \<Rightarrow> (Inl InvalidName, d)
      | Some clean \<Rightarrow> transaction (Inl Storage) (Inl Storage) (Inl Storage) (\<lambda>d0.
          if object_of d0 q = None then Leave (Inl NotFound)
          else if list_ex (\<lambda>g. gr_object g = q \<and> gr_name g = clean) (group_entries d0) then Leave (Inl NameTaken)
          else let row = \<lparr>gr_id = group_seq d0 + 1, gr_object = q, gr_name = clean, gr_created_at = t\<rparr> in
            CommitWrites (d0\<lparr>group_seq := group_seq d0 + 1, group_entries := group_entries d0 @ [row]\<rparr>) (Inr row)) d)"

definition renameGroup :: "int \<Rightarrow> string \<Rightarrow> players_db \<Rightarrow> GroupResult \<times> players_db" where
  "renameGroup i name d =
     (case cleanName name of
        None \<Rightarrow> (InvalidName, d)
      | Some clean \<Rightarrow> transaction Storage Storage Storage (\<lambda>d0.
          case group_of d0 i of
            None \<Rightarrow> Leave NotFound
          | Some row \<Rightarrow>
              if list_ex (\<lambda>g. gr_object g = gr_object row \<and> gr_name g = clean \<and> gr_id g \<noteq> i) (group_entries d0) then Leave NameTaken
              else CommitWrites (d0\<lparr>group_entries := map (\<lambda>g. if gr_id g = i then g\<lparr>gr_name := clean\<rparr> else g) (group_entries d0)\<rparr>)
                     GroupOk) d)"

definition deleteGroup :: "int \<Rightarrow> players_db \<Rightarrow> GroupResult \<times> players_db" where
  "deleteGroup i = transaction Storage Storage Storage (\<lambda>d0.
     if group_of d0 i = None then Leave NotFound
     else if list_ex (\<lambda>p. pl_group p = Some i) (screens d0) then Leave NotEmpty
     else CommitWrites (d0\<lparr>group_entries := filter (\<lambda>g. gr_id g \<noteq> i) (group_entries d0)\<rparr>) GroupOk)"

text \<open>A group that was none is written as \<open>null\<close>.\<close>

definition movePlayer :: "string \<Rightarrow> int \<Rightarrow> int \<Rightarrow> players_db \<Rightarrow> GroupResult \<times> players_db" where
  "movePlayer i g t = transaction Storage Storage Storage (\<lambda>d0.
     case screen_of d0 i of
       None \<Rightarrow> Leave NotFound
     | Some p \<Rightarrow>
         if group_of d0 g = None then Leave NotFound
         else if pl_group p = Some g then Leave GroupOk
         else CommitWrites (with_event i t ''moved'' (Dumped (JObj
             [(''from'', case pl_group p of None \<Rightarrow> JNull | Some f \<Rightarrow> JInt f), (''to'', JInt g)]))
           (set_screen i (\<lambda>p. p\<lparr>pl_group := Some g\<rparr>) d0)) GroupOk)"

definition playerCountByGroup :: "players_db \<Rightarrow> int \<Rightarrow> nat" where
  "playerCountByGroup d g = length (filter (\<lambda>p. pl_group p = Some g) (screens d))"

definition listObjects :: "players_db \<Rightarrow> ObjectEntry list" where
  "listObjects d = sort_key ob_name (sort_key ob_id (object_entries d))"

definition listGroups :: "players_db \<Rightarrow> int option \<Rightarrow> GroupEntry list" where
  "listGroups d q = (case q of
     Some i \<Rightarrow> sort_key gr_name (sort_key gr_id (filter (\<lambda>g. gr_object g = i) (group_entries d)))
   | None \<Rightarrow> sort_key gr_object (sort_key gr_name (sort_key gr_id (group_entries d))))"

subsection \<open>Settings\<close>

definition kMaxSettingBytes :: nat where "kMaxSettingBytes = 32 * 1024"

definition store_setting :: "string \<times> string \<Rightarrow> (string \<times> string) list \<Rightarrow> (string \<times> string) list" where
  "store_setting kv m = (if snd kv = [] then AList.delete (fst kv) m else AList.update (fst kv) (snd kv) m)"

definition setSettings :: "(string \<times> string) list \<Rightarrow> players_db \<Rightarrow> bool \<times> players_db" where
  "setSettings kvs d =
     (if list_ex (\<lambda>(k, v). k = [] \<or> 128 < length k \<or> kMaxSettingBytes < length v) kvs then (False, d)
      else transaction False False False (\<lambda>d0.
        if kvs = [] then CommitAsIs True
        else CommitWrites (d0\<lparr>stored_settings := fold store_setting kvs (stored_settings d0)\<rparr>) True) d)"

subsection \<open>Last known states and the journal\<close>

definition kMaxPayloadBytes :: nat where "kMaxPayloadBytes = 64 * 1024"

text \<open>One row: skipped for a screen that is gone, else written over the row there is, or added.\<close>

definition upsert_status :: "players_db \<Rightarrow> ScreenStatus \<Rightarrow> ScreenStatus list \<Rightarrow> ScreenStatus list" where
  "upsert_status d r rows =
     (if screen_of d (st_player r) = None then rows
      else if list_ex (\<lambda>s. st_player s = st_player r) rows
      then map (\<lambda>s. if st_player s = st_player r then r else s) rows
      else rows @ [r])"

definition applyStatuses :: "ScreenStatus list \<Rightarrow> players_db \<Rightarrow> bool \<times> players_db" where
  "applyStatuses rows d =
     (if list_ex (\<lambda>r. kMaxPayloadBytes < length (st_payload r)) rows then (False, d)
      else transaction False False False (\<lambda>d0.
        if rows = [] then CommitAsIs True
        else CommitWrites (d0\<lparr>screen_statuses := fold (upsert_status d0) rows (screen_statuses d0)\<rparr>) True) d)"

definition status_of :: "players_db \<Rightarrow> string \<Rightarrow> ScreenStatus option" where
  "status_of d i = find (\<lambda>s. st_player s = i) (screen_statuses d)"

definition addEvent :: "string \<Rightarrow> string \<Rightarrow> details \<Rightarrow> int \<Rightarrow> players_db \<Rightarrow> bool \<times> players_db" where
  "addEvent i kind what t = statement False (\<lambda>d0. (with_event i t kind what d0, True))"

text \<open>\<open>ORDER BY ts DESC, id DESC LIMIT\<close>.\<close>

definition events_of :: "players_db \<Rightarrow> string \<Rightarrow> nat \<Rightarrow> EventRow list" where
  "events_of d i n = take n (sort_key (\<lambda>e. - ev_ts e) (sort_key (\<lambda>e. - ev_id e) (filter (\<lambda>e. ev_player e = i) (journal d))))"

text \<open>The newest line about a screen's certificate stays, whatever its age, for as long as the screen does.\<close>

definition remembered_line :: "players_db \<Rightarrow> EventRow \<Rightarrow> bool" where
  "remembered_line d e \<longleftrightarrow> ev_kind e = ''cert_stage'' \<and> screen_of d (ev_player e) \<noteq> None \<and>
     \<not> list_ex (\<lambda>e'. stage_line (ev_player e) e' \<and> ev_id e < ev_id e') (journal d)"

definition aged_line :: "players_db \<Rightarrow> int \<Rightarrow> EventRow \<Rightarrow> bool" where
  "aged_line d ts e \<longleftrightarrow> ev_ts e < ts \<and> \<not> remembered_line d e"

definition purgeEventsOlderThan :: "int \<Rightarrow> players_db \<Rightarrow> nat \<times> players_db" where
  "purgeEventsOlderThan ts = statement 0 (\<lambda>d0.
     (d0\<lparr>journal := filter (\<lambda>e. \<not> aged_line d0 ts e) (journal d0)\<rparr>, length (filter (aged_line d0 ts) (journal d0))))"

end
