(* ===== verification/EnrollRules.thy ===== *)
theory EnrollRules
  imports EnrollDb
begin

text \<open>
  What the operations of \<open>EnrollDb\<close> write, as one relation \<open>writes\<close>: each operation, whatever the
  storage refuses, does one of these writes completely or nothing at all (\<open>effect\<close>). An invariant of
  the tables is proved once for each write (the locale \<open>kept_by_writes\<close>) and then holds after any list of
  operations (\<open>run_ops\<close>). The locale is interpreted for the constraints of the schema with the rules that bind tokens
  and certificates to screens, for tokens that are spent, and for certificates that are revoked.
\<close>

subsection \<open>The writes\<close>

definition claimed :: "int \<Rightarrow> int \<Rightarrow> players_db \<Rightarrow> players_db" where
  "claimed n t d = d\<lparr>tokens := map (use_token n t) (tokens d)\<rparr>"

definition released :: "int \<Rightarrow> players_db \<Rightarrow> players_db" where
  "released n d = d\<lparr>tokens := map (\<lambda>k. if held_of_pending d n k then k\<lparr>tk_used_at := None\<rparr> else k) (tokens d)\<rparr>"

definition certified :: "CertRow \<Rightarrow> int \<Rightarrow> players_db \<Rightarrow> players_db" where
  "certified c t d = d\<lparr>certs := certs d @ [recorded c t]\<rparr>"

definition without_tokens :: "(EnrollToken \<Rightarrow> bool) \<Rightarrow> players_db \<Rightarrow> players_db" where
  "without_tokens P d = d\<lparr>tokens := filter (\<lambda>k. \<not> P k) (tokens d)\<rparr>"

text \<open>\<open>T\<close> bounds the times expired certificates are purged at.\<close>

inductive writes :: "(string \<Rightarrow> string) \<Rightarrow> int \<Rightarrow> players_db \<Rightarrow> players_db \<Rightarrow> bool" for h T where
  w_create: "screen_of d i = None \<Longrightarrow> \<forall>gi. g = Some gi \<longrightarrow> group_of d gi \<noteq> None \<Longrightarrow>
    writes h T d (with_token i k t e (d\<lparr>screens := screens d @ [blank_screen i nm po t u g]\<rparr>))"
| w_delete: "writes h T d (with_event i t kd w (drop_screen i (revoke_live i t r d)))"
| w_revoke: "screen_of d i = Some p \<Longrightarrow> pl_state p \<noteq> Revoked \<Longrightarrow>
    writes h T d (with_event i t kd w
      (without_tokens (\<lambda>k. tk_player k = i \<and> tk_used_at k = None) (set_screen i (revoke_screen_row t r) (revoke_live i t r d))))"
| w_reenroll: "screen_of d i = Some p \<Longrightarrow> pl_state p \<noteq> Pending \<Longrightarrow>
    writes h T d (with_event i t kd w (with_token i k t e (forget_device i t (set_screen i pending_again (revoke_live i t r d)))))"
| w_reissue: "screen_of d i = Some p \<Longrightarrow> pl_state p = Pending \<Longrightarrow>
    writes h T d (with_token i k t e (without_tokens (\<lambda>k. tk_player k = i) d))"
| w_claim: "k \<in> set (tokens d) \<Longrightarrow> tk_used_at k = None \<Longrightarrow> t \<le> tk_expires_at k \<Longrightarrow> tk_id k = n \<Longrightarrow> writes h T d (claimed n t d)"
| w_release: "writes h T d (released n d)"
| w_finish: "k \<in> set (tokens d) \<Longrightarrow> tk_used_at k \<noteq> None \<Longrightarrow> tk_player k = crt_player c \<Longrightarrow> screen_of d (crt_player c) = Some p \<Longrightarrow>
    pl_state p = Pending \<Longrightarrow> \<not> cert_known d c \<Longrightarrow>
    writes h T d (with_event (crt_player c) t kd w (set_screen (crt_player c) (activated t) (certified c t d)))"
| w_renew: "screen_of d (crt_player c) = Some p \<Longrightarrow> pl_state p = Active \<Longrightarrow> \<not> cert_known d c \<Longrightarrow>
    writes h T d (with_event (crt_player c) t kd w (certified c t d))"
| w_revoke_cert: "writes h T d
    (d\<lparr>certs := map (\<lambda>c. if cert_key c = key \<and> crt_revoked_at c = None then revoke_cert_row t r c else c) (certs d)\<rparr>)"
| w_crl: "writes h T d (d\<lparr>crl_numbers := AList.update g (crl_number d g + 1) (crl_numbers d)\<rparr>)"
| w_purge_certs: "t \<le> T \<Longrightarrow> writes h T d (d\<lparr>certs := filter (\<lambda>c. \<not> not_after c < t) (certs d)\<rparr>)"
| w_purge_tokens: "writes h T d (without_tokens (dead_token t) d)"
| w_new_object: "\<not> list_ex (\<lambda>q. ob_name q = nm) (object_entries d) \<Longrightarrow>
    writes h T d (d\<lparr>object_seq := object_seq d + 1,
      object_entries := object_entries d @ [\<lparr>ob_id = object_seq d + 1, ob_name = nm, ob_created_at = t\<rparr>]\<rparr>)"
| w_rename_object: "\<not> list_ex (\<lambda>q. ob_name q = nm \<and> ob_id q \<noteq> i) (object_entries d) \<Longrightarrow>
    writes h T d (d\<lparr>object_entries := map (\<lambda>q. if ob_id q = i then q\<lparr>ob_name := nm\<rparr> else q) (object_entries d)\<rparr>)"
| w_delete_object: "\<not> list_ex (\<lambda>g. gr_object g = i) (group_entries d) \<Longrightarrow>
    writes h T d (d\<lparr>object_entries := filter (\<lambda>q. ob_id q \<noteq> i) (object_entries d)\<rparr>)"
| w_new_group: "object_of d q \<noteq> None \<Longrightarrow> \<not> list_ex (\<lambda>g. gr_object g = q \<and> gr_name g = nm) (group_entries d) \<Longrightarrow>
    writes h T d (d\<lparr>group_seq := group_seq d + 1,
      group_entries := group_entries d @ [\<lparr>gr_id = group_seq d + 1, gr_object = q, gr_name = nm, gr_created_at = t\<rparr>]\<rparr>)"
| w_rename_group: "group_of d i = Some row \<Longrightarrow>
    \<not> list_ex (\<lambda>g. gr_object g = gr_object row \<and> gr_name g = nm \<and> gr_id g \<noteq> i) (group_entries d) \<Longrightarrow>
    writes h T d (d\<lparr>group_entries := map (\<lambda>g. if gr_id g = i then g\<lparr>gr_name := nm\<rparr> else g) (group_entries d)\<rparr>)"
| w_delete_group: "\<not> list_ex (\<lambda>p. pl_group p = Some i) (screens d) \<Longrightarrow>
    writes h T d (d\<lparr>group_entries := filter (\<lambda>g. gr_id g \<noteq> i) (group_entries d)\<rparr>)"
| w_move: "group_of d g \<noteq> None \<Longrightarrow> writes h T d (with_event i t kd w (set_screen i (\<lambda>p. p\<lparr>pl_group := Some g\<rparr>) d))"
| w_settings: "writes h T d (d\<lparr>stored_settings := fold store_setting kvs (stored_settings d)\<rparr>)"
| w_statuses: "writes h T d (d\<lparr>screen_statuses := fold (upsert_status d) rows (screen_statuses d)\<rparr>)"
| w_event: "writes h T d (with_event i t kd w d)"
| w_purge_events: "writes h T d (d\<lparr>journal := filter (\<lambda>e. \<not> aged_line d ts e) (journal d)\<rparr>)"
| w_commands: "writes h T d (d\<lparr>command_log := cs\<rparr>)"

text \<open>What an operation may do: nothing but use up its turn, or one of the writes.\<close>

definition effect :: "(string \<Rightarrow> string) \<Rightarrow> int \<Rightarrow> players_db \<Rightarrow> players_db \<Rightarrow> bool" where
  "effect h T d d' \<longleftrightarrow> d' = d \<or> d' = after_fault d \<or> writes h T (after_fault d) d'"

lemma effect_refl [simp, intro]: "effect h T d d" "effect h T d (after_fault d)"
  by (simp_all add: effect_def)

lemma effect_transaction:
  assumes "\<And>d1 a. body (after_fault d) = CommitWrites d1 a \<Longrightarrow> writes h T (after_fault d) d1"
  shows "effect h T d (snd (transaction x y z body d))"
  using assms by (auto simp: transaction_def Let_def effect_def split: tx_end.split)

lemma effect_statement:
  assumes "writes h T (after_fault d) (fst (body (after_fault d)))"
  shows "effect h T d (snd (statement x body d))"
  using assms by (auto simp: statement_def Let_def effect_def)

lemma matching_token_in: "matching_token h i tok d = Some k \<Longrightarrow> k \<in> set (tokens d) \<and> tk_player k = i \<and> isHexToken tok \<and> tk_hash k = h tok"
  by (auto simp: matching_token_def find_Some_iff2 dest: find_SomeD)

subsection \<open>Every operation does one write, or none\<close>

lemma create_effect: "effect h T d (snd (createPlayer h ub tb name u po ttl t g d))"
  by (auto simp: createPlayer_def Let_def split: option.split
      intro!: effect_transaction w_create split: if_splits)

lemma delete_effect: "effect h T d (snd (deletePlayer i r t d))"
  by (auto simp: deletePlayer_def intro!: effect_transaction w_delete split: if_splits)

lemma revoke_effect: "effect h T d (snd (revokePlayer i r t d))"
proof -
  have e: "(set_screen i f (revoke_live i t r x))\<lparr>tokens := filter (\<lambda>k. \<not> (tk_player k = i \<and> tk_used_at k = None)) (tokens x)\<rparr>
    = without_tokens (\<lambda>k. tk_player k = i \<and> tk_used_at k = None) (set_screen i f (revoke_live i t r x))" for f x
    by (simp add: without_tokens_def set_screen_def revoke_live_def)
  show ?thesis unfolding revokePlayer_def e
    by (rule effect_transaction) (auto intro: w_revoke split: option.splits if_splits)
qed

lemma re_enroll_effect: "effect h T d (snd (reEnrollPlayer h tb i r ttl t d))"
  by (auto simp: reEnrollPlayer_def Let_def intro!: effect_transaction intro: w_reenroll split: option.splits if_splits)

lemma reissue_effect: "effect h T d (snd (reissueToken h tb i ttl t d))"
  by (auto simp: reissueToken_def Let_def without_tokens_def [symmetric]
      intro!: effect_transaction intro: w_reissue split: option.splits if_splits)

lemma claim_effect: "effect h T d (snd (claimToken h i tok t d))"
  by (auto simp: claimToken_def claimed_def [symmetric] dest: matching_token_in
      intro!: effect_transaction w_claim split: option.splits if_splits)

lemma release_effect: "effect h T d (snd (releaseClaim n d))"
  by (auto simp: releaseClaim_def released_def [symmetric] intro!: effect_statement simp del: One_nat_def) (simp add: w_release)

lemma finish_effect: "effect h T d (snd (finishEnrollment n c t d))"
  unfolding finishEnrollment_def certified_def [symmetric]
  by (rule effect_transaction) (auto split: option.splits if_splits dest!: find_SomeD intro!: w_finish)

lemma renewal_effect: "effect h T d (snd (recordRenewal c t d))"
  unfolding recordRenewal_def certified_def [symmetric]
  by (rule effect_transaction) (auto split: option.splits if_splits intro!: w_renew)

lemma revoke_cert_effect: "effect h T d (snd (revokeCert g s r t d))"
  by (auto simp: revokeCert_def intro!: effect_statement w_revoke_cert)

lemma crl_effect: "effect h T d (snd (nextCrlNumber g d))"
  by (auto simp: nextCrlNumber_def intro!: effect_transaction w_crl)

lemma purge_certs_effect: "t \<le> T \<Longrightarrow> effect h T d (snd (purgeExpiredCerts t d))"
  by (auto simp: purgeExpiredCerts_def intro!: effect_statement w_purge_certs)

lemma purge_tokens_effect: "effect h T d (snd (purgeDeadTokens t d))"
  by (auto simp: purgeDeadTokens_def without_tokens_def [symmetric] intro!: effect_statement w_purge_tokens)

lemma object_effects:
  "effect h T d (snd (createObject nm t d))" "effect h T d (snd (renameObject i nm d))" "effect h T d (snd (deleteObject i d))"
  by (auto simp: createObject_def renameObject_def deleteObject_def Let_def intro!: effect_transaction
      intro: w_new_object w_rename_object w_delete_object split: option.splits if_splits)

lemma group_effects:
  "effect h T d (snd (createGroup q nm t d))" "effect h T d (snd (renameGroup i nm d))" "effect h T d (snd (deleteGroup i d))"
  by (auto simp: createGroup_def renameGroup_def deleteGroup_def Let_def intro!: effect_transaction
      w_new_group w_delete_group intro: w_rename_group split: option.splits if_splits)

lemma move_effect: "effect h T d (snd (movePlayer i g t d))"
  by (auto simp: movePlayer_def intro!: effect_transaction w_move split: option.splits if_splits)

lemma settings_effect: "effect h T d (snd (setSettings kvs d))"
  by (auto simp: setSettings_def intro!: effect_transaction w_settings split: if_splits)

lemma statuses_effect: "effect h T d (snd (applyStatuses rows d))"
  by (auto simp: applyStatuses_def intro!: effect_transaction w_statuses split: if_splits)

lemma event_effects: "effect h T d (snd (addEvent i kd w t d))" "effect h T d (snd (purgeEventsOlderThan ts d))"
  by (auto simp: addEvent_def purgeEventsOlderThan_def intro!: effect_statement intro: w_event w_purge_events)

lemmas op_effects = create_effect delete_effect revoke_effect re_enroll_effect reissue_effect claim_effect release_effect
  finish_effect renewal_effect revoke_cert_effect crl_effect purge_certs_effect purge_tokens_effect object_effects
  group_effects move_effect settings_effect statuses_effect event_effects

subsection \<open>Histories\<close>

text \<open>
  The writing operations with their arguments (random bytes and the time included), and what running one does
  to the tables. \<open>OpCommands\<close> stands for the command service, which writes a table of its own in the same file.
\<close>

datatype operation =
    OpCreate bytes bytes string "int option" string int int "int option"
  | OpDelete string string int
  | OpRevoke string string int
  | OpReEnroll bytes string string int int
  | OpReissue bytes string int int
  | OpClaim string string int
  | OpRelease int
  | OpFinish int CertRow int
  | OpRenewal CertRow int
  | OpRevokeCert int string string int
  | OpCrlNumber int
  | OpPurgeCerts int
  | OpPurgeTokens int
  | OpCreateObject string int
  | OpRenameObject int string
  | OpDeleteObject int
  | OpCreateGroup int string int
  | OpRenameGroup int string
  | OpDeleteGroup int
  | OpMove string int int
  | OpSettings "(string \<times> string) list"
  | OpStatuses "ScreenStatus list"
  | OpEvent string string details int
  | OpPurgeEvents int
  | OpCommands "CommandRow list"

fun run_op :: "(string \<Rightarrow> string) \<Rightarrow> operation \<Rightarrow> players_db \<Rightarrow> players_db" where
  "run_op h (OpCreate ub tb name u po ttl t g) d = snd (createPlayer h ub tb name u po ttl t g d)"
| "run_op h (OpDelete i r t) d = snd (deletePlayer i r t d)"
| "run_op h (OpRevoke i r t) d = snd (revokePlayer i r t d)"
| "run_op h (OpReEnroll tb i r ttl t) d = snd (reEnrollPlayer h tb i r ttl t d)"
| "run_op h (OpReissue tb i ttl t) d = snd (reissueToken h tb i ttl t d)"
| "run_op h (OpClaim i tok t) d = snd (claimToken h i tok t d)"
| "run_op h (OpRelease n) d = snd (releaseClaim n d)"
| "run_op h (OpFinish n c t) d = snd (finishEnrollment n c t d)"
| "run_op h (OpRenewal c t) d = snd (recordRenewal c t d)"
| "run_op h (OpRevokeCert g ser r t) d = snd (revokeCert g ser r t d)"
| "run_op h (OpCrlNumber g) d = snd (nextCrlNumber g d)"
| "run_op h (OpPurgeCerts t) d = snd (purgeExpiredCerts t d)"
| "run_op h (OpPurgeTokens t) d = snd (purgeDeadTokens t d)"
| "run_op h (OpCreateObject nm t) d = snd (createObject nm t d)"
| "run_op h (OpRenameObject i nm) d = snd (renameObject i nm d)"
| "run_op h (OpDeleteObject i) d = snd (deleteObject i d)"
| "run_op h (OpCreateGroup q nm t) d = snd (createGroup q nm t d)"
| "run_op h (OpRenameGroup i nm) d = snd (renameGroup i nm d)"
| "run_op h (OpDeleteGroup i) d = snd (deleteGroup i d)"
| "run_op h (OpMove i g t) d = snd (movePlayer i g t d)"
| "run_op h (OpSettings kvs) d = snd (setSettings kvs d)"
| "run_op h (OpStatuses rows) d = snd (applyStatuses rows d)"
| "run_op h (OpEvent i kd w t) d = snd (addEvent i kd w t d)"
| "run_op h (OpPurgeEvents ts) d = snd (purgeEventsOlderThan ts d)"
| "run_op h (OpCommands cs) d = (after_fault d)\<lparr>command_log := cs\<rparr>"

definition run_ops :: "(string \<Rightarrow> string) \<Rightarrow> operation list \<Rightarrow> players_db \<Rightarrow> players_db" where
  "run_ops h ops d = fold (run_op h) ops d"

text \<open>Expired certificates are purged at no time after \<open>T\<close>.\<close>

fun timely :: "int \<Rightarrow> operation \<Rightarrow> bool" where
  "timely T (OpPurgeCerts t) \<longleftrightarrow> t \<le> T"
| "timely T _ \<longleftrightarrow> True"

lemma run_effect: "timely T op \<Longrightarrow> effect h T d (run_op h op d)"
  by (cases op) (simp_all add: op_effects, simp add: effect_def w_commands)

lemma timely_somewhere: "\<exists>T. list_all (timely T) ops"
proof (induction ops)
  case (Cons op ops)
  then obtain T where "list_all (timely T) ops" by blast
  moreover have "\<exists>U. timely U op" by (cases op) auto
  then obtain U where "timely U op" ..
  moreover have "timely A x \<Longrightarrow> A \<le> B \<Longrightarrow> timely B x" for A B x by (cases x) auto
  ultimately have "list_all (timely (max T U)) (op # ops)" by (auto simp: list_all_iff)
  then show ?case ..
qed simp

locale kept_by_writes =
  fixes P :: "players_db \<Rightarrow> bool" and h :: "string \<Rightarrow> string" and T :: int
  assumes keeps: "P d \<Longrightarrow> writes h T d d' \<Longrightarrow> P d'"
    and faults: "P (d\<lparr>db_faults := fs\<rparr>) \<longleftrightarrow> P d"
begin

lemma after_effect: "effect h T d d' \<Longrightarrow> P d \<Longrightarrow> P d'"
  using keeps [of "after_fault d" d'] by (auto simp: effect_def after_fault_def faults)

lemma after_ops: "list_all (timely T) ops \<Longrightarrow> P d \<Longrightarrow> P (run_ops h ops d)"
  by (induction ops arbitrary: d) (auto simp: run_ops_def intro: after_effect [OF run_effect])

end

subsection \<open>Which write touches what\<close>

lemmas write_defs = with_event_def with_token_def set_screen_def revoke_live_def drop_screen_def forget_device_def
  claimed_def released_def certified_def without_tokens_def

lemma screens_frame [simp]:
  "screens (with_event i t kd w d) = screens d" "screens (with_token i k t e d) = screens d"
  "screens (revoke_live i t r d) = screens d" "screens (forget_device i t d) = screens d" "screens (claimed n t d) = screens d"
  "screens (released n d) = screens d" "screens (certified c t d) = screens d" "screens (without_tokens Q d) = screens d"
  "screens (set_screen i f d) = map (\<lambda>p. if pl_id p = i then f p else p) (screens d)"
  "screens (drop_screen i d) = filter (\<lambda>p. pl_id p \<noteq> i) (screens d)"
  by (simp_all add: write_defs)

lemma tokens_frame [simp]:
  "tokens (with_event i t kd w d) = tokens d" "tokens (revoke_live i t r d) = tokens d" "tokens (certified c t d) = tokens d"
  "tokens (set_screen i f d) = tokens d" "token_seq (with_event i t kd w d) = token_seq d"
  "token_seq (revoke_live i t r d) = token_seq d" "token_seq (certified c t d) = token_seq d" "token_seq (set_screen i f d) = token_seq d"
  "token_seq (drop_screen i d) = token_seq d" "token_seq (forget_device i t d) = token_seq d" "token_seq (claimed n t d) = token_seq d"
  "token_seq (released n d) = token_seq d" "token_seq (without_tokens Q d) = token_seq d" "token_seq (with_token i k t e d) = token_seq d + 1"
  "tokens (with_token i k t e d) = tokens d @ [\<lparr>tk_id = token_seq d + 1, tk_player = i, tk_hash = k, tk_created_at = t,
     tk_expires_at = e, tk_used_at = None\<rparr>]"
  "tokens (drop_screen i d) = filter (\<lambda>k. tk_player k \<noteq> i) (tokens d)"
  "tokens (forget_device i t d) = filter (\<lambda>k. tk_player k \<noteq> i) (tokens d)"
  "tokens (without_tokens Q d) = filter (\<lambda>k. \<not> Q k) (tokens d)"
  "tokens (claimed n t d) = map (use_token n t) (tokens d)"
  "tokens (released n d) = map (\<lambda>k. if held_of_pending d n k then k\<lparr>tk_used_at := None\<rparr> else k) (tokens d)"
  by (simp_all add: write_defs)

lemma certs_frame [simp]:
  "certs (with_event i t kd w d) = certs d" "certs (with_token i k t e d) = certs d" "certs (set_screen i f d) = certs d"
  "certs (forget_device i t d) = certs d" "certs (claimed n t d) = certs d" "certs (released n d) = certs d"
  "certs (without_tokens Q d) = certs d" "certs (drop_screen i d) = certs d"
  "certs (certified c t d) = certs d @ [recorded c t]"
  "certs (revoke_live i t r d) = map (\<lambda>c. if live_of i c then revoke_cert_row t r c else c) (certs d)"
  by (simp_all add: write_defs)

lemma tree_frame [simp]:
  "group_entries (with_event i t kd w d) = group_entries d" "group_entries (with_token i k t e d) = group_entries d"
  "group_entries (set_screen i f d) = group_entries d" "group_entries (revoke_live i t r d) = group_entries d"
  "group_entries (forget_device i t d) = group_entries d" "group_entries (claimed n t d) = group_entries d"
  "group_entries (released n d) = group_entries d" "group_entries (without_tokens Q d) = group_entries d"
  "group_entries (drop_screen i d) = group_entries d" "group_entries (certified c t d) = group_entries d"
  "object_entries (with_event i t kd w d) = object_entries d" "object_entries (with_token i k t e d) = object_entries d"
  "object_entries (set_screen i f d) = object_entries d" "object_entries (revoke_live i t r d) = object_entries d"
  "object_entries (forget_device i t d) = object_entries d" "object_entries (claimed n t d) = object_entries d"
  "object_entries (released n d) = object_entries d" "object_entries (without_tokens Q d) = object_entries d"
  "object_entries (drop_screen i d) = object_entries d" "object_entries (certified c t d) = object_entries d"
  by (simp_all add: write_defs)

lemma seq_frame [simp]:
  "group_seq (with_event i t kd w d) = group_seq d" "group_seq (with_token i k t e d) = group_seq d"
  "group_seq (set_screen i f d) = group_seq d" "group_seq (revoke_live i t r d) = group_seq d"
  "group_seq (forget_device i t d) = group_seq d" "group_seq (claimed n t d) = group_seq d"
  "group_seq (released n d) = group_seq d" "group_seq (without_tokens Q d) = group_seq d"
  "group_seq (drop_screen i d) = group_seq d" "group_seq (certified c t d) = group_seq d"
  "object_seq (with_event i t kd w d) = object_seq d" "object_seq (with_token i k t e d) = object_seq d"
  "object_seq (set_screen i f d) = object_seq d" "object_seq (revoke_live i t r d) = object_seq d"
  "object_seq (forget_device i t d) = object_seq d" "object_seq (claimed n t d) = object_seq d"
  "object_seq (released n d) = object_seq d" "object_seq (without_tokens Q d) = object_seq d"
  "object_seq (drop_screen i d) = object_seq d" "object_seq (certified c t d) = object_seq d"
  by (simp_all add: write_defs)

lemma crl_frame [simp]:
  "crl_numbers (with_event i t kd w d) = crl_numbers d" "crl_numbers (with_token i k t e d) = crl_numbers d"
  "crl_numbers (set_screen i f d) = crl_numbers d" "crl_numbers (revoke_live i t r d) = crl_numbers d"
  "crl_numbers (forget_device i t d) = crl_numbers d" "crl_numbers (claimed n t d) = crl_numbers d"
  "crl_numbers (released n d) = crl_numbers d" "crl_numbers (without_tokens Q d) = crl_numbers d"
  "crl_numbers (drop_screen i d) = crl_numbers d" "crl_numbers (certified c t d) = crl_numbers d"
  by (simp_all add: write_defs)

lemma rest_frame [simp]:

  "journal (with_event i t kd w d) = journal d @ [\<lparr>ev_id = event_seq d + 1, ev_player = i, ev_ts = t, ev_kind = kd, ev_details = w\<rparr>]"
  "journal (with_token i k t e d) = journal d" "journal (set_screen i f d) = journal d"
  "journal (revoke_live i t r d) = journal d" "journal (forget_device i t d) = journal d"
  "journal (claimed n t d) = journal d" "journal (released n d) = journal d" "journal (without_tokens Q d) = journal d"
  "journal (drop_screen i d) = journal d" "journal (certified c t d) = journal d"
  "event_seq (with_event i t kd w d) = event_seq d + 1" "event_seq (with_token i k t e d) = event_seq d"
  "event_seq (set_screen i f d) = event_seq d" "event_seq (revoke_live i t r d) = event_seq d"
  "event_seq (forget_device i t d) = event_seq d" "event_seq (claimed n t d) = event_seq d"
  "event_seq (released n d) = event_seq d" "event_seq (without_tokens Q d) = event_seq d"
  "event_seq (drop_screen i d) = event_seq d" "event_seq (certified c t d) = event_seq d"
  "screen_statuses (with_event i t kd w d) = screen_statuses d"
  "screen_statuses (with_token i k t e d) = screen_statuses d" "screen_statuses (set_screen i f d) = screen_statuses d"
  "screen_statuses (revoke_live i t r d) = screen_statuses d"
  "screen_statuses (forget_device i t d) = filter (\<lambda>s. st_player s \<noteq> i) (screen_statuses d)"
  "screen_statuses (claimed n t d) = screen_statuses d" "screen_statuses (released n d) = screen_statuses d"
  "screen_statuses (without_tokens Q d) = screen_statuses d"
  "screen_statuses (drop_screen i d) = filter (\<lambda>s. st_player s \<noteq> i) (screen_statuses d)"
  "screen_statuses (certified c t d) = screen_statuses d" "stored_settings (with_event i t kd w d) = stored_settings d"
  "stored_settings (with_token i k t e d) = stored_settings d" "stored_settings (set_screen i f d) = stored_settings d"
  "stored_settings (revoke_live i t r d) = stored_settings d"
  "stored_settings (forget_device i t d) = stored_settings d" "stored_settings (claimed n t d) = stored_settings d"
  "stored_settings (released n d) = stored_settings d" "stored_settings (without_tokens Q d) = stored_settings d"
  "stored_settings (drop_screen i d) = stored_settings d" "stored_settings (certified c t d) = stored_settings d"
  by (simp_all add: write_defs)

lemma group_of_frames [simp]:
  "group_of (with_event i t kd w d) = group_of d" "group_of (with_token i k t e d) = group_of d"
  "group_of (revoke_live i t r d) = group_of d" "group_of (forget_device i t d) = group_of d"
  "group_of (claimed n t d) = group_of d" "group_of (released n d) = group_of d"
  "group_of (certified c t d) = group_of d" "group_of (without_tokens Q d) = group_of d"
  "group_of (set_screen i f d) = group_of d" "group_of (drop_screen i d) = group_of d"
  by (simp_all add: group_of_def fun_eq_iff)

lemma group_of_updates [simp]:
  "group_of (d\<lparr>screens := a0\<rparr>) = group_of d" "group_of (d\<lparr>tokens := a1\<rparr>) = group_of d" "group_of (d\<lparr>certs := a2\<rparr>) = group_of d"
  "group_of (d\<lparr>screen_statuses := a3\<rparr>) = group_of d" "group_of (d\<lparr>journal := a4\<rparr>) = group_of d"
  "group_of (d\<lparr>crl_numbers := a5\<rparr>) = group_of d" "group_of (d\<lparr>stored_settings := a6\<rparr>) = group_of d"
  "group_of (d\<lparr>object_entries := a7\<rparr>) = group_of d" "group_of (d\<lparr>object_seq := a9\<rparr>) = group_of d"
  "group_of (d\<lparr>command_log := b4\<rparr>) = group_of d" "group_of (d\<lparr>db_faults := b5\<rparr>) = group_of d"
  by (simp_all add: group_of_def fun_eq_iff)

lemma object_of_frames [simp]:
  "object_of (with_event i t kd w d) = object_of d" "object_of (with_token i k t e d) = object_of d"
  "object_of (revoke_live i t r d) = object_of d" "object_of (forget_device i t d) = object_of d"
  "object_of (claimed n t d) = object_of d" "object_of (released n d) = object_of d"
  "object_of (certified c t d) = object_of d" "object_of (without_tokens Q d) = object_of d"
  "object_of (set_screen i f d) = object_of d" "object_of (drop_screen i d) = object_of d"
  by (simp_all add: object_of_def fun_eq_iff)

lemma object_of_updates [simp]:
  "object_of (d\<lparr>screens := a0\<rparr>) = object_of d" "object_of (d\<lparr>tokens := a1\<rparr>) = object_of d" "object_of (d\<lparr>certs := a2\<rparr>) = object_of d"
  "object_of (d\<lparr>screen_statuses := a3\<rparr>) = object_of d" "object_of (d\<lparr>journal := a4\<rparr>) = object_of d"
  "object_of (d\<lparr>crl_numbers := a5\<rparr>) = object_of d" "object_of (d\<lparr>stored_settings := a6\<rparr>) = object_of d"
  "object_of (d\<lparr>group_entries := a7\<rparr>) = object_of d" "object_of (d\<lparr>group_seq := a9\<rparr>) = object_of d"
  "object_of (d\<lparr>command_log := b4\<rparr>) = object_of d" "object_of (d\<lparr>db_faults := b5\<rparr>) = object_of d"
  by (simp_all add: object_of_def fun_eq_iff)

lemma screen_of_frame: "screens d' = screens d \<Longrightarrow> screen_of d' = screen_of d"
  by (simp add: screen_of_def fun_eq_iff)

lemma screen_of_set [simp]:
  "(\<And>p. pl_id (f p) = pl_id p) \<Longrightarrow> screen_of (set_screen i f d) j = map_option (\<lambda>p. if j = i then f p else p) (screen_of d j)"
  unfolding screen_of_def screens_frame
  by (subst find_map_same) (auto intro!: option.map_cong0 simp: find_Some_iff dest: find_SomeD split: option.split)

lemma find_dropped: "find (\<lambda>p. pl_id p = j) (filter (\<lambda>p. pl_id p \<noteq> i) ps) = (if j = i then None else find (\<lambda>p. pl_id p = j) ps)"
  by (induction ps) auto

lemma screen_of_drop [simp]: "screen_of (drop_screen i d) j = (if j = i then None else screen_of d j)"
  by (simp add: screen_of_def find_dropped)

lemma find_extended: "find P (xs @ ys) = (case find P xs of None \<Rightarrow> find P ys | Some x \<Rightarrow> Some x)"
  by (induction xs) auto

lemma screen_of_new: "screens d' = screens d @ [row] \<Longrightarrow> screen_of d' j =
    (case screen_of d j of None \<Rightarrow> if pl_id row = j then Some row else None | Some p \<Rightarrow> Some p)"
  by (auto simp: screen_of_def find_extended split: option.split)

lemma screen_of_frames [simp]:
  "screen_of (with_event i t kd w d) = screen_of d" "screen_of (with_token i k t e d) = screen_of d"
  "screen_of (revoke_live i t r d) = screen_of d" "screen_of (forget_device i t d) = screen_of d"
  "screen_of (claimed n t d) = screen_of d" "screen_of (released n d) = screen_of d"
  "screen_of (certified c t d) = screen_of d" "screen_of (without_tokens Q d) = screen_of d"
  by (simp_all add: screen_of_def fun_eq_iff)

lemma screen_of_updates [simp]:
  "screen_of (d\<lparr>tokens := a1\<rparr>) = screen_of d" "screen_of (d\<lparr>certs := a2\<rparr>) = screen_of d"
  "screen_of (d\<lparr>screen_statuses := a3\<rparr>) = screen_of d" "screen_of (d\<lparr>journal := a4\<rparr>) = screen_of d"
  "screen_of (d\<lparr>crl_numbers := a5\<rparr>) = screen_of d" "screen_of (d\<lparr>stored_settings := a6\<rparr>) = screen_of d"
  "screen_of (d\<lparr>object_entries := a7\<rparr>) = screen_of d" "screen_of (d\<lparr>group_entries := a8\<rparr>) = screen_of d"
  "screen_of (d\<lparr>object_seq := a9, object_entries := b1\<rparr>) = screen_of d"
  "screen_of (d\<lparr>group_seq := b2, group_entries := b3\<rparr>) = screen_of d"
  "screen_of (d\<lparr>command_log := b4\<rparr>) = screen_of d" "screen_of (d\<lparr>db_faults := b5\<rparr>) = screen_of d"
  by (simp_all add: screen_of_def fun_eq_iff)

lemma screen_of_id: "screen_of d i = Some p \<Longrightarrow> pl_id p = i \<and> p \<in> set (screens d)"
  by (auto simp: screen_of_def dest: find_SomeD)

text \<open>The updates of a row keep its id; a new one has the id it was asked for.\<close>

lemma row_ids [simp]:
  "pl_id (revoke_screen_row t r p) = pl_id p" "pl_id (pending_again p) = pl_id p" "pl_id (activated t p) = pl_id p"
  "pl_id (blank_screen i nm po t u g) = i" "pl_state (blank_screen i nm po t u g) = Pending"
  "pl_state (revoke_screen_row t r p) = Revoked" "pl_state (pending_again p) = Pending" "pl_state (activated t p) = Active"
  by (simp_all add: revoke_screen_row_def pending_again_def activated_def blank_screen_def)

lemma token_rows [simp]:
  "tk_id (use_token n t k) = tk_id k" "tk_player (use_token n t k) = tk_player k" "tk_hash (use_token n t k) = tk_hash k"
  "tk_used_at (use_token n t k) = None \<longleftrightarrow> tk_used_at k = None \<and> tk_id k \<noteq> n"
  by (auto simp: use_token_def)

lemma cert_rows [simp]:
  "cert_key (revoke_cert_row t r c) = cert_key c" "crt_player (revoke_cert_row t r c) = crt_player c"
  "crt_revoked_at (revoke_cert_row t r c) = Some t" "not_after (revoke_cert_row t r c) = not_after c"
  "cert_key (recorded c t) = cert_key c" "crt_player (recorded c t) = crt_player c" "crt_revoked_at (recorded c t) = None"
  "not_after (recorded c t) = not_after c"
  by (simp_all add: revoke_cert_row_def recorded_def cert_key_def)

text \<open>The state of a screen, if there is one.\<close>

definition screen_state :: "players_db \<Rightarrow> string \<Rightarrow> PlayerState option" where
  "screen_state d i = map_option pl_state (screen_of d i)"

lemma state_of_row: "screen_of d i = Some p \<Longrightarrow> screen_state d i = Some (pl_state p)"
  by (simp add: screen_state_def)

lemma no_state: "screen_state d i = None \<longleftrightarrow> screen_of d i = None"
  by (simp add: screen_state_def)

lemma state_set: "(\<And>p. pl_id (f p) = pl_id p) \<Longrightarrow> (\<And>p. pl_state (f p) = st) \<Longrightarrow>
    screen_state (set_screen i f d) j = (if j = i \<and> screen_state d j \<noteq> None then Some st else screen_state d j)"
  by (cases "screen_of d j") (simp_all add: screen_state_def)

lemma states_after [simp]:
  "screen_state (with_event i t kd w d) = screen_state d" "screen_state (with_token i k t e d) = screen_state d"
  "screen_state (revoke_live i t r d) = screen_state d" "screen_state (forget_device i t d) = screen_state d"
  "screen_state (claimed n t d) = screen_state d" "screen_state (released n d) = screen_state d"
  "screen_state (certified c t d) = screen_state d" "screen_state (without_tokens Q d) = screen_state d"
  by (simp_all add: screen_state_def fun_eq_iff)

lemma states_after_changes [simp]:
  "screen_state (drop_screen i d) j = (if j = i then None else screen_state d j)"
  "screen_state (set_screen i (revoke_screen_row t r) d) j = (if j = i \<and> screen_state d j \<noteq> None then Some Revoked else screen_state d j)"
  "screen_state (set_screen i pending_again d) j = (if j = i \<and> screen_state d j \<noteq> None then Some Pending else screen_state d j)"
  "screen_state (set_screen i (activated t) d) j = (if j = i \<and> screen_state d j \<noteq> None then Some Active else screen_state d j)"
  by (simp_all add: state_set) (simp add: screen_state_def)

lemma state_after_move [simp]: "screen_state (set_screen i (pl_group_update G) d) = screen_state d"
proof
  show "screen_state (set_screen i (pl_group_update G) d) j = screen_state d j" for j
    by (cases "screen_of d j") (simp_all add: screen_state_def)
qed

lemma states_after_updates [simp]:
  "screen_state (d\<lparr>tokens := a1\<rparr>) = screen_state d" "screen_state (d\<lparr>certs := a2\<rparr>) = screen_state d"
  "screen_state (d\<lparr>screen_statuses := a3\<rparr>) = screen_state d" "screen_state (d\<lparr>journal := a4\<rparr>) = screen_state d"
  "screen_state (d\<lparr>crl_numbers := a5\<rparr>) = screen_state d" "screen_state (d\<lparr>stored_settings := a6\<rparr>) = screen_state d"
  "screen_state (d\<lparr>object_entries := a7\<rparr>) = screen_state d" "screen_state (d\<lparr>group_entries := a8\<rparr>) = screen_state d"
  "screen_state (d\<lparr>object_seq := a9\<rparr>) = screen_state d" "screen_state (d\<lparr>group_seq := b2\<rparr>) = screen_state d"
  "screen_state (d\<lparr>command_log := b4\<rparr>) = screen_state d" "screen_state (d\<lparr>db_faults := b5\<rparr>) = screen_state d"
  by (simp_all add: screen_state_def screen_of_def fun_eq_iff)

lemma state_of_new [simp]: "screen_state (d\<lparr>screens := screens d @ [blank_screen i nm po t u g]\<rparr>) j =
    (if j = i \<and> screen_state d j = None then Some Pending else screen_state d j)"
  by (auto simp: screen_state_def screen_of_new split: option.split)

subsection \<open>The constraints of the schema, and the rules beside them\<close>

definition states_ok :: "Screen \<Rightarrow> bool" where
  "states_ok p \<longleftrightarrow> (pl_state p = Revoked \<longleftrightarrow> pl_revoked_at p \<noteq> None) \<and> (pl_state p = Active \<longrightarrow> pl_activated_at p \<noteq> None)
     \<and> (pl_state p = Pending \<longrightarrow> pl_activated_at p = None)"

definition screens_ok :: "players_db \<Rightarrow> bool" where
  "screens_ok d \<longleftrightarrow> distinct (map pl_id (screens d)) \<and> (\<forall>p \<in> set (screens d). states_ok p
     \<and> (\<forall>g. pl_group p = Some g \<longrightarrow> group_of d g \<noteq> None))"

text \<open>A screen has one token at most, and one that is not used waits for a pending screen.\<close>

definition tokens_ok :: "players_db \<Rightarrow> bool" where
  "tokens_ok d \<longleftrightarrow> 0 \<le> token_seq d \<and> distinct (map tk_id (tokens d)) \<and> distinct (map tk_player (tokens d)) \<and>
     (\<forall>k \<in> set (tokens d). 1 \<le> tk_id k \<and> tk_id k \<le> token_seq d \<and>
        screen_state d (tk_player k) \<noteq> None \<and> (tk_used_at k = None \<longrightarrow> screen_state d (tk_player k) = Some Pending))"

text \<open>A certificate that works is one of an active screen.\<close>

definition certs_ok :: "players_db \<Rightarrow> bool" where
  "certs_ok d \<longleftrightarrow> distinct (map cert_key (certs d)) \<and>
     (\<forall>c \<in> set (certs d). crt_revoked_at c = None \<longrightarrow> screen_state d (crt_player c) = Some Active)"

definition tree_ok :: "players_db \<Rightarrow> bool" where
  "tree_ok d \<longleftrightarrow> distinct (map ob_id (object_entries d)) \<and> distinct (map ob_name (object_entries d)) \<and>
     distinct (map gr_id (group_entries d)) \<and> distinct (map (\<lambda>g. (gr_object g, gr_name g)) (group_entries d)) \<and>
     (\<forall>q \<in> set (object_entries d). ob_id q \<le> object_seq d) \<and>
     (\<forall>g \<in> set (group_entries d). gr_id g \<le> group_seq d \<and> object_of d (gr_object g) \<noteq> None)"

definition rest_ok :: "players_db \<Rightarrow> bool" where
  "rest_ok d \<longleftrightarrow> distinct (map ev_id (journal d)) \<and> (\<forall>e \<in> set (journal d). ev_id e \<le> event_seq d) \<and>
     distinct (map st_player (screen_statuses d)) \<and> (\<forall>s \<in> set (screen_statuses d). screen_state d (st_player s) \<noteq> None) \<and>
     distinct (map fst (crl_numbers d)) \<and> distinct (map fst (stored_settings d))"

definition players_ok :: "players_db \<Rightarrow> bool" where
  "players_ok d \<longleftrightarrow> screens_ok d \<and> tokens_ok d \<and> certs_ok d \<and> tree_ok d \<and> rest_ok d"

lemma distinct_filter_map: "distinct (map f xs) \<Longrightarrow> distinct (map f (filter P xs))"
  by (induction xs) auto

lemma distinct_map_same: "(\<And>x. f (g x) = f x) \<Longrightarrow> distinct (map f (map g xs)) = distinct (map f xs)"
  by (simp add: comp_def)

lemma keys_after_update [simp]: "(\<And>x. f (g x) = f x) \<Longrightarrow> map f (map (\<lambda>x. if P x then g x else x) xs) = map f xs"
  by simp

lemma certs_kept: "certs_ok d \<Longrightarrow> writes h T d d' \<Longrightarrow> certs_ok d'"
  by (erule writes.cases) (auto simp: certs_ok_def cert_known_def list_ex_iff live_of_def distinct_filter_map no_state
      simp del: map_map dest!: state_of_row split: if_splits)

lemma one_token: "tokens_ok d \<Longrightarrow> k \<in> set (tokens d) \<Longrightarrow> k' \<in> set (tokens d) \<Longrightarrow> tk_player k = tk_player k' \<Longrightarrow> k = k'"
  by (auto simp: tokens_ok_def distinct_map dest: inj_onD)

lemma token_by_id: "tokens_ok d \<Longrightarrow> k \<in> set (tokens d) \<Longrightarrow> k' \<in> set (tokens d) \<Longrightarrow> tk_id k = tk_id k' \<Longrightarrow> k = k'"
  by (auto simp: tokens_ok_def distinct_map dest: inj_onD)

lemma held_state: "held_of_pending d n k \<Longrightarrow> tk_id k = n \<and> screen_state d (tk_player k) = Some Pending"
  by (auto simp: held_of_pending_def screen_state_def split: option.splits)

lemma finish_tokens:
  assumes "tokens_ok d" "k \<in> set (tokens d)" "tk_used_at k \<noteq> None" "tk_player k = i"
  shows "\<forall>k' \<in> set (tokens d). tk_player k' = i \<longrightarrow> tk_used_at k' \<noteq> None"
  using assms one_token by blast

lemma tokens_finish:
  assumes "tokens_ok d" "k \<in> set (tokens d)" "tk_used_at k \<noteq> None" "tk_player k = crt_player c"
  shows "tokens_ok (with_event (crt_player c) t kd w (set_screen (crt_player c) (activated t) (certified c t d)))"
  using assms finish_tokens [OF assms] by (auto simp: tokens_ok_def)

lemma release_keys [simp]:
  "tk_id (if b then k\<lparr>tk_used_at := u\<rparr> else k) = tk_id k" "tk_player (if b then k\<lparr>tk_used_at := u\<rparr> else k) = tk_player k"
  by simp_all

lemma tokens_kept: "tokens_ok d \<Longrightarrow> writes h T d d' \<Longrightarrow> tokens_ok d'"
proof (erule writes.cases, goal_cases)
  case 8
  then show ?thesis using tokens_finish by blast
qed (auto simp: tokens_ok_def distinct_filter_map no_state held_state comp_def simp del: not_None_eq dest!: state_of_row split: if_splits)

lemma states_ok_rows:
  "states_ok (revoke_screen_row t r p)" "states_ok (pending_again p)" "states_ok (blank_screen i nm po t u g)"
  "states_ok p \<Longrightarrow> pl_state p = Pending \<Longrightarrow> states_ok (activated t p)" "states_ok (p\<lparr>pl_group := g\<rparr>) = states_ok p"
  by (auto simp: states_ok_def revoke_screen_row_def pending_again_def blank_screen_def activated_def)

lemma group_rows [simp]:
  "pl_group (revoke_screen_row t r p) = pl_group p" "pl_group (pending_again p) = pl_group p" "pl_group (activated t p) = pl_group p"
  "pl_group (blank_screen i nm po t u g) = g"
  by (simp_all add: revoke_screen_row_def pending_again_def blank_screen_def activated_def)

lemma find_by_key: "distinct (map f xs) \<Longrightarrow> x \<in> set xs \<Longrightarrow> find (\<lambda>y. f y = f x) xs = Some x"
  by (induction xs) auto

lemma screen_by_id: "screens_ok d \<Longrightarrow> p \<in> set (screens d) \<Longrightarrow> screen_of d (pl_id p) = Some p"
  by (simp add: screens_ok_def screen_of_def find_by_key)

lemma fresh_id: "screen_of d i = None \<Longrightarrow> p \<in> set (screens d) \<Longrightarrow> pl_id p \<noteq> i"
  by (auto simp: screen_of_def find_None_iff)

lemma group_of_new: "group_of d g \<noteq> None \<Longrightarrow> group_entries d' = group_entries d @ [row] \<Longrightarrow> group_of d' g \<noteq> None"
  by (auto simp: group_of_def find_extended)

lemma group_of_rename: "group_of d g \<noteq> None \<Longrightarrow>
    group_of (d\<lparr>group_entries := map (\<lambda>r. if gr_id r = i then r\<lparr>gr_name := nm\<rparr> else r) (group_entries d)\<rparr>) g \<noteq> None"
  unfolding group_of_def by (simp add: find_map_same)

lemma group_of_delete: "group_of d g \<noteq> None \<Longrightarrow> g \<noteq> i \<Longrightarrow>
    group_of (d\<lparr>group_entries := filter (\<lambda>r. gr_id r \<noteq> i) (group_entries d)\<rparr>) g \<noteq> None"
  by (auto simp: group_of_def find_None_iff)

lemma screens_finish:
  assumes "screens_ok d" "screen_of d (crt_player c) = Some p" "pl_state p = Pending"
  shows "screens_ok (with_event (crt_player c) t kd w (set_screen (crt_player c) (activated t) (certified c t d)))"
proof -
  have "x = p" if "x \<in> set (screens d)" "pl_id x = crt_player c" for x
    using screen_by_id [OF assms(1) that(1)] that(2) assms(2) by simp
  then show ?thesis using assms by (auto simp: screens_ok_def states_ok_rows simp del: map_map)
qed

lemma screens_kept: "screens_ok d \<Longrightarrow> writes h T d d' \<Longrightarrow> screens_ok d'"
proof (erule writes.cases, goal_cases)
  case 8
  then show ?thesis using screens_finish by blast
next
  case 17
  then show ?thesis using group_of_new [of d] by (simp add: screens_ok_def)
next
  case 18
  then show ?thesis using group_of_rename [of d] by (simp add: screens_ok_def)
next
  case 19
  then show ?thesis using group_of_delete [of d] by (auto simp: screens_ok_def list_ex_iff)
qed (auto simp: screens_ok_def distinct_filter_map states_ok_rows simp del: map_map not_None_eq dest: fresh_id split: if_splits)

lemma object_of_new: "object_of d q \<noteq> None \<Longrightarrow> object_entries d' = object_entries d @ [row] \<Longrightarrow> object_of d' q \<noteq> None"
  by (auto simp: object_of_def find_extended)

lemma object_of_rename: "object_of d q \<noteq> None \<Longrightarrow>
    object_of (d\<lparr>object_entries := map (\<lambda>r. if ob_id r = i then r\<lparr>ob_name := nm\<rparr> else r) (object_entries d)\<rparr>) q \<noteq> None"
  unfolding object_of_def by (simp add: find_map_same)

lemma object_of_delete: "object_of d q \<noteq> None \<Longrightarrow> q \<noteq> i \<Longrightarrow>
    object_of (d\<lparr>object_entries := filter (\<lambda>r. ob_id r \<noteq> i) (object_entries d)\<rparr>) q \<noteq> None"
  by (auto simp: object_of_def find_None_iff)

text \<open>Renaming the one row that has an id keeps another column free of doubles.\<close>

lemma distinct_rename:
  assumes "distinct (map f xs)" "distinct (map n xs)" "\<forall>x \<in> set xs. f x \<noteq> i \<longrightarrow> n x \<noteq> m" "\<forall>x \<in> set xs. f x = i \<longrightarrow> n (g x) = m"
  shows "distinct (map n (map (\<lambda>x. if f x = i then g x else x) xs))"
  using assms
proof (induction xs)
  case (Cons y ys)
  show ?case
  proof (cases "f y = i")
    case True
    then have others: "\<forall>x \<in> set ys. f x \<noteq> i" using Cons.prems(1) by (auto simp: image_iff)
    then have "map (\<lambda>x. if f x = i then g x else x) ys = ys" by (intro map_idI) auto
    then show ?thesis using Cons.prems True others by (auto simp del: map_map)
  next
    case False
    then have "n y \<notin> n ` (\<lambda>x. if f x = i then g x else x) ` set ys"
      using Cons.prems(2,3,4) by auto
    then show ?thesis using Cons False by (simp del: map_map)
  qed
qed simp

lemma tree_rename_object:
  assumes "tree_ok d" "\<not> list_ex (\<lambda>q. ob_name q = nm \<and> ob_id q \<noteq> i) (object_entries d)"
  shows "tree_ok (d\<lparr>object_entries := map (\<lambda>q. if ob_id q = i then q\<lparr>ob_name := nm\<rparr> else q) (object_entries d)\<rparr>)"
proof -
  have "distinct (map ob_name (map (\<lambda>q. if ob_id q = i then q\<lparr>ob_name := nm\<rparr> else q) (object_entries d)))"
    using assms by (intro distinct_rename [where f = ob_id and m = nm]) (auto simp: tree_ok_def list_ex_iff)
  then show ?thesis using assms object_of_rename [of d] by (auto simp: tree_ok_def simp del: map_map not_None_eq)
qed

lemma tree_rename_group:
  assumes "tree_ok d" "group_of d i = Some row"
    "\<not> list_ex (\<lambda>g. gr_object g = gr_object row \<and> gr_name g = nm \<and> gr_id g \<noteq> i) (group_entries d)"
  shows "tree_ok (d\<lparr>group_entries := map (\<lambda>g. if gr_id g = i then g\<lparr>gr_name := nm\<rparr> else g) (group_entries d)\<rparr>)"
proof -
  have row: "row \<in> set (group_entries d)" "gr_id row = i" using assms(2) by (auto simp: group_of_def dest: find_SomeD)
  have one: "g = row" if "g \<in> set (group_entries d)" "gr_id g = i" for g
    using assms(1) row that by (auto simp: tree_ok_def distinct_map dest: inj_onD)
  have "distinct (map (\<lambda>g. (gr_object g, gr_name g)) (map (\<lambda>g. if gr_id g = i then g\<lparr>gr_name := nm\<rparr> else g) (group_entries d)))"
    using assms one by (intro distinct_rename [where f = gr_id and m = "(gr_object row, nm)"]) (auto simp: tree_ok_def list_ex_iff)
  then show ?thesis using assms(1) by (auto simp: tree_ok_def simp del: map_map not_None_eq)
qed

lemma tree_kept: "tree_ok d \<Longrightarrow> writes h T d d' \<Longrightarrow> tree_ok d'"
proof (erule writes.cases, goal_cases)
  case 14
  then show ?thesis using object_of_new [of d] by (fastforce simp: tree_ok_def list_ex_iff simp del: not_None_eq)
next
  case 15
  then show ?thesis using tree_rename_object by blast
next
  case 16
  then show ?thesis using object_of_delete [of d] by (auto simp: tree_ok_def list_ex_iff distinct_filter_map simp del: not_None_eq)
next
  case 17
  then show ?thesis by (fastforce simp: tree_ok_def list_ex_iff simp del: not_None_eq)
next
  case 18
  then show ?thesis using tree_rename_group by blast
qed (auto simp: tree_ok_def distinct_filter_map simp del: not_None_eq)

lemma statuses_upserted:
  assumes "distinct (map st_player rows)" "\<forall>s \<in> set rows. screen_state d (st_player s) \<noteq> None"
  shows "distinct (map st_player (fold (upsert_status d) rs rows)) \<and>
    (\<forall>s \<in> set (fold (upsert_status d) rs rows). screen_state d (st_player s) \<noteq> None)"
  using assms
proof (induction rs arbitrary: rows)
  case (Cons r rs)
  have "distinct (map st_player (upsert_status d r rows)) \<and> (\<forall>s \<in> set (upsert_status d r rows). screen_state d (st_player s) \<noteq> None)"
  proof (cases "list_ex (\<lambda>s. st_player s = st_player r) rows")
    case True
    have "map st_player (map (\<lambda>s. if st_player s = st_player r then r else s) rows) = map st_player rows"
      by (simp add: map_idI)
    then show ?thesis using Cons.prems True by (auto simp: upsert_status_def no_state simp del: map_map not_None_eq)
  next
    case False
    then show ?thesis using Cons.prems by (auto simp: upsert_status_def no_state list_ex_iff simp del: not_None_eq)
  qed
  then show ?case using Cons.IH [of "upsert_status d r rows"] by simp
qed simp

lemma settings_distinct: "distinct (map fst m) \<Longrightarrow> distinct (map fst (fold store_setting kvs m))"
  by (induction kvs arbitrary: m) (auto simp: store_setting_def distinct_update distinct_delete)

lemma rest_kept: "rest_ok d \<Longrightarrow> writes h T d d' \<Longrightarrow> rest_ok d'"
proof (erule writes.cases, goal_cases)
  case 22
  then show ?thesis using statuses_upserted [of "screen_statuses d" d] by (simp add: rest_ok_def)
qed (auto simp: rest_ok_def settings_distinct distinct_update distinct_filter_map comp_def simp del: not_None_eq)

subsection \<open>The invariant\<close>

lemma writes_keep: "players_ok d \<Longrightarrow> writes h T d d' \<Longrightarrow> players_ok d'"
  unfolding players_ok_def by (intro conjI) (blast intro: screens_kept tokens_kept certs_kept tree_kept rest_kept)+

lemma ok_faults: "players_ok (d\<lparr>db_faults := fs\<rparr>) \<longleftrightarrow> players_ok d"
  by (simp add: players_ok_def screens_ok_def tokens_ok_def certs_ok_def tree_ok_def rest_ok_def)

interpretation rules: kept_by_writes players_ok h T for h T
  by unfold_locales (auto simp: ok_faults intro: writes_keep)


subsection \<open>A token that has done its work\<close>

text \<open>No token of this number is left, or it is used and its screen is no longer waiting for it.\<close>

definition spent :: "int \<Rightarrow> players_db \<Rightarrow> bool" where
  "spent n d \<longleftrightarrow> players_ok d \<and> n \<le> token_seq d \<and>
     (\<forall>k \<in> set (tokens d). tk_id k = n \<longrightarrow> tk_used_at k \<noteq> None \<and> screen_state d (tk_player k) \<noteq> Some Pending)"

lemma token_has_screen: "players_ok d \<Longrightarrow> k \<in> set (tokens d) \<Longrightarrow> screen_of d (tk_player k) \<noteq> None"
  by (simp add: players_ok_def tokens_ok_def no_state del: not_None_eq)

lemma spent_kept: "spent n d \<Longrightarrow> writes h T d d' \<Longrightarrow> spent n d'"
proof -
  assume a: "spent n d" "writes h T d d'"
  then have ok: "players_ok d'" by (auto simp: spent_def intro: writes_keep)
  from a(2,1) show ?thesis using ok
    by (cases rule: writes.cases) (auto simp: spent_def no_state simp del: not_None_eq
        dest!: state_of_row dest: held_state token_has_screen split: if_splits)
qed

interpretation spent: kept_by_writes "spent n" h T for n h T
  by (unfold_locales, erule (1) spent_kept, simp add: spent_def ok_faults)

subsection \<open>A certificate that is revoked\<close>

text \<open>It keeps its row, with the time and the reason it was revoked first, until it has run out.\<close>

definition revoked_for_good :: "int \<Rightarrow> CertRow \<Rightarrow> players_db \<Rightarrow> bool" where
  "revoked_for_good T c d \<longleftrightarrow> c \<in> set (certs d) \<and> crt_revoked_at c \<noteq> None \<and> T \<le> not_after c"

lemma revoked_kept: "revoked_for_good T c d \<Longrightarrow> writes h T d d' \<Longrightarrow> revoked_for_good T c d'"
  by (erule writes.cases) (auto simp: revoked_for_good_def live_of_def image_iff simp del: not_None_eq)

interpretation revoked: kept_by_writes "revoked_for_good T c" h T for T c h
  by (unfold_locales, erule (1) revoked_kept, simp add: revoked_for_good_def)

subsection \<open>Numbers of revocation lists\<close>

definition numbered_from :: "int \<Rightarrow> int \<Rightarrow> players_db \<Rightarrow> bool" where
  "numbered_from g n d \<longleftrightarrow> n \<le> crl_number d g"

lemma crl_number_frame: "crl_numbers d' = crl_numbers d \<Longrightarrow> crl_number d' g = crl_number d g"
  by (simp add: crl_number_def)

lemma crl_number_next [simp]: "crl_number (d\<lparr>crl_numbers := AList.update g' v (crl_numbers d)\<rparr>) g = (if g = g' then v else crl_number d g)"
  by (auto simp: crl_number_def update_conv' split: option.split)

lemma numbered_kept: "numbered_from g n d \<Longrightarrow> writes h T d d' \<Longrightarrow> numbered_from g n d'"
  by (erule writes.cases) (auto simp: numbered_from_def crl_number_def update_conv' split: option.split)

interpretation numbered: kept_by_writes "numbered_from g n" h T for g n h T
  by (unfold_locales, erule (1) numbered_kept, simp add: numbered_from_def crl_number_def)

lemma rules_throughout: "players_ok d \<Longrightarrow> players_ok (run_ops h ops d)"
  using timely_somewhere [of ops] rules.after_ops by blast

lemma crl_numbers_grow:
  assumes "nextCrlNumber g d = (n, d1)" "0 < n" "nextCrlNumber g (run_ops h ops d1) = (m, d3)" "0 < m"
  shows "n < m"
proof -
  obtain T where T: "list_all (timely T) ops" using timely_somewhere by blast
  have "crl_number d1 g = n" "m = crl_number (run_ops h ops d1) g + 1"
    using assms by (auto simp: nextCrlNumber_def transaction_def Let_def after_fault_def crl_number_def update_conv' split: if_splits)
  then show ?thesis using numbered.after_ops [OF T, of g n d1 h] by (simp add: numbered_from_def)
qed

lemma listed_while_valid:
  assumes "list_all (timely T) ops" "c \<in> set (certs d)" "crt_revoked_at c \<noteq> None" "T \<le> not_after c"
  shows "c \<in> set (certs (run_ops h ops d))"
  using revoked.after_ops [OF assms(1), of c d h] assms(2-4) by (simp add: revoked_for_good_def)

subsection \<open>A screen to look at\<close>

text \<open>One screen that waits for its device, with its token.\<close>

definition lobby :: string where "lobby = newUuidV4 (replicate 16 0)"
definition lobby_token :: string where "lobby_token = newTokenHex (replicate 32 0)"

definition lobby_cert :: "int option \<Rightarrow> CertRow" where
  "lobby_cert r = \<lparr>serial_hex = ''0A1B'', generation = 1, crt_player = lobby, crt_issued_at = 5, not_before = 0,
     not_after = 1000, crt_revoked_at = r, crt_revoke_reason = []\<rparr>"

definition one_pending :: players_db where
  "one_pending = empty_players_db\<lparr>screens := [blank_screen lobby ''lobby'' ''strict'' 1 None None], token_seq := 1,
     tokens := [\<lparr>tk_id = 1, tk_player = lobby, tk_hash = lobby_token, tk_created_at = 1, tk_expires_at = 100, tk_used_at = None\<rparr>]\<rparr>"

definition one_active :: "int option \<Rightarrow> players_db" where
  "one_active r = empty_players_db\<lparr>screens := [activated 5 (blank_screen lobby ''lobby'' ''strict'' 1 None None)], token_seq := 1,
     certs := [lobby_cert r]\<rparr>"

lemmas demo_defs = lobby_cert_def empty_players_db_def players_ok_def screens_ok_def tokens_ok_def
  certs_ok_def tree_ok_def rest_ok_def states_ok_def blank_screen_def activated_def screen_state_def screen_of_def

lemma empty_players_ok: "players_ok empty_players_db"
  by (simp add: demo_defs)

lemma one_pending_ok: "players_ok one_pending"
  by (simp add: one_pending_def demo_defs)

lemma one_active_ok: "players_ok (one_active r)"
  by (simp add: one_active_def demo_defs)

section \<open>Properties\<close>

text \<open>C19: after any operations in any order, whatever the storage refuses on the way, a certificate that is not revoked
  belongs to a screen that is there and active, a token that is not used to a screen that is pending, a screen
  has one token at most, no certificate is recorded twice, and groups and objects that are referred to are there.\<close>

theorem certificates_follow_screens:
  assumes "players_ok d" "d' = run_ops h ops d"
  shows "(\<forall>c \<in> set (certs d'). crt_revoked_at c = None \<longrightarrow> screen_state d' (crt_player c) = Some Active) \<and>
    (\<forall>k \<in> set (tokens d'). tk_used_at k = None \<longrightarrow> screen_state d' (tk_player k) = Some Pending) \<and>
    distinct (map tk_player (tokens d')) \<and> distinct (map cert_key (certs d')) \<and>
    (\<forall>p \<in> set (screens d'). \<forall>g. pl_group p = Some g \<longrightarrow> group_of d' g \<noteq> None) \<and>
    (\<forall>g \<in> set (group_entries d'). object_of d' (gr_object g) \<noteq> None)"
  using rules_throughout [OF assms(1)] assms(2)
  by (simp add: players_ok_def screens_ok_def tokens_ok_def certs_ok_def tree_ok_def)

theorem certificates_follow_screens_witness:
  "\<exists>c. certs (snd (revokePlayer lobby ''lost'' 9 (one_active None))) = [c] \<and> crt_revoked_at c \<noteq> None"
proof -
  let ?d = "snd (revokePlayer lobby ''lost'' 9 (one_active None))"
  have c: "certs ?d = [revoke_cert_row 9 ''lost'' (lobby_cert None)]" and s: "screen_state ?d lobby = Some Revoked" by code_simp+
  have "?d = run_ops id [OpRevoke lobby ''lost'' 9] (one_active None)" by (simp add: run_ops_def)
  from certificates_follow_screens [OF one_active_ok this]
  have "\<forall>c \<in> set (certs ?d). crt_revoked_at c = None \<longrightarrow> screen_state ?d (crt_player c) = Some Active" by (rule conjunct1)
  then have "crt_revoked_at (revoke_cert_row 9 ''lost'' (lobby_cert None)) \<noteq> None" using s by (auto simp: c lobby_cert_def)
  then show ?thesis by (simp add: c)
qed

text \<open>C20: once a certificate is revoked it stays so: through any operations (renewals, new enrolments, a second
  revocation, removal of the screen, the purge of what has run out by the time \<open>T\<close>) its row keeps the time and
  the reason, and it is on both revocation lists made before its end.\<close>

theorem revocation_is_for_good:
  assumes "list_all (timely T) ops" "c \<in> set (certs d)" "crt_revoked_at c \<noteq> None" "T \<le> not_after c" "u \<le> not_after c"
  shows "c \<in> set (revokedCerts (run_ops h ops d) u) \<and> c \<in> set (revokedSerials (run_ops h ops d) (generation c) u)"
  using listed_while_valid [OF assms(1-4)] assms(3,5) by (simp add: revokedCerts_def revokedSerials_def still_listed_def)

theorem revocation_is_for_good_witness:
  "lobby_cert (Some 9) \<in> set (revokedCerts (snd (revokeCert 1 ''0A1B'' ''again'' 20 (snd (deletePlayer lobby ''gone'' 15 (one_active (Some 9)))))) 30)"
proof -
  let ?ops = "[OpDelete lobby ''gone'' 15, OpRevokeCert 1 ''0A1B'' ''again'' 20]"
  have "list_all (timely 0) ?ops" by simp
  from revocation_is_for_good [OF this, of "lobby_cert (Some 9)" "one_active (Some 9)" 30 id] show ?thesis
    by (simp add: one_active_def lobby_cert_def run_ops_def)
qed

end
