(* ===== verification/Enrolment.thy ===== *)
theory Enrolment
  imports EnrollRules CText
begin

text \<open>
  Pairing and renewal: the attempt limiter of \<open>auth/SealedServer.cpp\<close>, \<open>players/EnrollService.cpp\<close>,
  \<open>players/RevocationList.cpp\<close> and \<open>players/RenewService.cpp\<close>. The device CA (\<open>utils/DeviceCa.cpp\<close>, OpenSSL)
  is an argument: what it answers to a signing request. A request takes the lock of the database once
  for each operation, and other requests come in between; so \<open>enroll\<close> and \<open>renew\<close> are the composition of
  the part up to the signature and the part after it, and the interleaving of many requests is a step
  relation over those parts.

  Results (the step relation is in \<open>Pairing\<close>): a pairing token is held by one request at a time and enrols one
  device at most; where the storage takes every write, a refused
  request gives the token back; every refusal of a token reads the same.
\<close>

subsection \<open>The attempt limiter\<close>

record Entry =
  failures :: int
  locked_until :: int
  last_failure :: int

text \<open>A \<open>std::map\<close>: the entries in the order of their addresses.\<close>

type_synonym limiter = "(string \<times> Entry) list"

definition kMaxTrackedAddresses :: nat where "kMaxTrackedAddresses = 1024"
definition free_attempts :: int where "free_attempts = 3"
definition max_delay_s :: int where "max_delay_s = 300"
definition forget_after_s :: int where "forget_after_s = 3600"

fun oldest :: "(string \<times> Entry) \<Rightarrow> limiter \<Rightarrow> string" where
  "oldest b [] = fst b"
| "oldest b (x # xs) = oldest (if last_failure (snd x) < last_failure (snd b) then x else b) xs"

definition drop_oldest_entry :: "limiter \<Rightarrow> limiter" where
  "drop_oldest_entry m = (case m of [] \<Rightarrow> [] | b # xs \<Rightarrow> filter (\<lambda>x. fst x \<noteq> oldest b xs) m)"

definition idle_entry :: "int \<Rightarrow> Entry \<Rightarrow> bool" where
  "idle_entry t e \<longleftrightarrow> forget_after_s < t - last_failure e \<and> locked_until e \<le> t"

definition forgetIdle :: "int \<Rightarrow> limiter \<Rightarrow> limiter" where
  "forgetIdle t m = (let m1 = filter (\<lambda>x. \<not> idle_entry t (snd x)) m in
     (drop_oldest_entry ^^ (length m1 - kMaxTrackedAddresses)) m1)"

definition retryAfter :: "int \<Rightarrow> string \<Rightarrow> limiter \<Rightarrow> int \<times> limiter" where
  "retryAfter t a m = (let m1 = forgetIdle t m in
     (case map_of m1 a of None \<Rightarrow> 0 | Some e \<Rightarrow> if t < locked_until e then locked_until e - t else 0, m1))"

definition delay_after :: "int \<Rightarrow> int" where
  "delay_after n = min max_delay_s (2 ^ nat (min (n - free_attempts + 1) 30))"

definition failed_once_more :: "int \<Rightarrow> Entry \<Rightarrow> Entry" where
  "failed_once_more t e = (let n = failures e + 1 in
     e\<lparr>failures := n, last_failure := t,
       locked_until := (if free_attempts \<le> n then t + delay_after n else locked_until e)\<rparr>)"

fun put_entry :: "string \<Rightarrow> Entry \<Rightarrow> limiter \<Rightarrow> limiter" where
  "put_entry a e [] = [(a, e)]"
| "put_entry a e (x # xs) = (if fst x = a then (a, e) # xs else if a < fst x then (a, e) # x # xs else x # put_entry a e xs)"

definition limitFailure :: "int \<Rightarrow> string \<Rightarrow> limiter \<Rightarrow> limiter" where
  "limitFailure t a m = (let m1 = forgetIdle t m;
       e = (case map_of m1 a of None \<Rightarrow> \<lparr>failures = 0, locked_until = 0, last_failure = 0\<rparr> | Some e \<Rightarrow> e)
     in put_entry a (failed_once_more t e) m1)"

definition limitSuccess :: "string \<Rightarrow> limiter \<Rightarrow> limiter" where
  "limitSuccess a m = filter (\<lambda>x. fst x \<noteq> a) m"

subsection \<open>The device CA\<close>

record IssuedClientCert =
  cert_pem :: string
  chain_pem :: string
  issued_serial :: string
  issued_generation :: int
  not_before_unix :: int
  not_after_unix :: int

text \<open>What \<open>signClientCsr\<close> answers for a request, a common name, a validity in days and a time.\<close>

type_synonym device_ca = "string \<Rightarrow> string \<Rightarrow> int \<Rightarrow> int \<Rightarrow> string + IssuedClientCert"

definition cert_row :: "string \<Rightarrow> int \<Rightarrow> IssuedClientCert \<Rightarrow> CertRow" where
  "cert_row i t c = \<lparr>serial_hex = issued_serial c, generation = issued_generation c, crt_player = i, crt_issued_at = t,
     not_before = not_before_unix c, not_after = not_after_unix c, crt_revoked_at = None, crt_revoke_reason = []\<rparr>"

text \<open>
  What a service is told and what the world around one request is like: the CA if there is one, the
  offset of the server's clock if it is known, the time, and the times at which the limiter looks at the clock.
\<close>

record device_env =
  token_hash :: "string \<Rightarrow> string"
  device_ca :: "device_ca option"
  clock_offset :: "int option"
  max_clock_skew_s :: int
  validity_days :: int
  window_days :: int
  root_pem :: string
  clock :: int
  clock_at_limit :: int
  clock_at_failure :: int

definition clock_unsynced :: "device_env \<Rightarrow> bool" where
  "clock_unsynced env \<longleftrightarrow> (case clock_offset env of None \<Rightarrow> False | Some off \<Rightarrow> max_clock_skew_s env < \<bar>off\<bar>)"

definition kMaxCsrBytes :: nat where "kMaxCsrBytes = 4096"

definition csr_size_ok :: "string \<Rightarrow> bool" where
  "csr_size_ok csr \<longleftrightarrow> csr \<noteq> [] \<and> length csr \<le> kMaxCsrBytes"

subsection \<open>Pairing\<close>

record EnrollRequest =
  req_player :: string
  req_token :: string
  req_csr :: string
  req_ip :: string

text \<open>
  The answer of either service. A \<open>RenewOutcome\<close> has no waiting time and names no screen: there \<open>retry_after_s\<close> is zero
  and \<open>out_player\<close> is the screen of the request, which the device port puts into the audit row.
\<close>

record Outcome =
  out_status :: int
  out_body :: json
  retry_after_s :: int
  audit_action :: string
  audit_reason :: string
  out_player :: string

record enroll_service =
  pdb :: players_db
  limits :: limiter

definition hyphen_at :: "nat \<Rightarrow> bool" where "hyphen_at i \<longleftrightarrow> i \<in> {8, 13, 18, 23}"

definition lower_hex :: "char \<Rightarrow> bool" where
  "lower_hex c \<longleftrightarrow> (CHR ''0'' \<le> c \<and> c \<le> CHR ''9'') \<or> (CHR ''a'' \<le> c \<and> c \<le> CHR ''f'')"

definition looksLikeUuid :: "string \<Rightarrow> bool" where
  "looksLikeUuid s \<longleftrightarrow> length s = 36 \<and>
     list_all (\<lambda>i. if hyphen_at i then s ! i = CHR ''-'' else lower_hex (s ! i)) [0..<36]"

definition fail :: "int \<Rightarrow> string \<Rightarrow> string \<Rightarrow> string \<Rightarrow> string \<Rightarrow> Outcome" where
  "fail st code action reason i = \<lparr>out_status = st, out_body = JObj [(''error'', JStr code)], retry_after_s = 0,
     audit_action = action, audit_reason = reason, out_player = i\<rparr>"

definition reasonName :: "ClaimFailure \<Rightarrow> string" where
  "reasonName f = (case f of NoMatch \<Rightarrow> ''token_mismatch'' | Expired \<Rightarrow> ''token_expired'' | AlreadyUsed \<Rightarrow> ''token_used''
     | UnknownPlayer \<Rightarrow> ''unknown_player'' | WrongState \<Rightarrow> ''player_not_pending'')"

definition ip_key :: "EnrollRequest \<Rightarrow> string" where
  "ip_key r = ''ip:'' @ (if req_ip r = [] then ''unknown'' else req_ip r)"

definition shown_id :: "EnrollRequest \<Rightarrow> string" where
  "shown_id r = (if looksLikeUuid (req_player r) then req_player r else [])"

text \<open>Everything up to the claim of the token: an answer, or the CA and the id of the token that is now held.\<close>

definition enroll_claim :: "device_env \<Rightarrow> EnrollRequest \<Rightarrow> enroll_service \<Rightarrow> (Outcome + device_ca \<times> int) \<times> enroll_service" where
  "enroll_claim env r s =
     (let (wait, lim) = retryAfter (clock_at_limit env) (ip_key r) (limits s); s1 = s\<lparr>limits := lim\<rparr> in
      if 0 < wait then
        (Inl ((fail 429 ''rate_limited'' ''player.enroll_denied'' ''rate_limited'' (shown_id r))\<lparr>retry_after_s := wait\<rparr>), s1)
      else if \<not> csr_size_ok (req_csr r) then
        (Inl (fail 400 ''invalid_csr'' ''player.enroll_denied'' ''csr_size'' (shown_id r)), s1)
      else case device_ca env of
        None \<Rightarrow> (Inl (fail 503 ''ca_unavailable'' ''player.enroll_failed'' ''ca_unavailable'' (shown_id r)), s1)
      | Some ca \<Rightarrow>
          if clock_unsynced env then
            (Inl (fail 503 ''server_clock_unsynced'' ''player.enroll_failed''
               (''clock_offset_s='' @ std_to_string (the (clock_offset env))) (shown_id r)), s1)
          else if looksLikeUuid (req_player r) then
            (let (claim, d) = claimToken (token_hash env) (req_player r) (req_token r) (clock env) (pdb s1) in
             case claim of
               Inl why \<Rightarrow> (Inl (fail 401 ''invalid_token'' ''player.enroll_denied'' (reasonName why) (shown_id r)),
                 s1\<lparr>pdb := d, limits := limitFailure (clock_at_failure env) (ip_key r) (limits s1)\<rparr>)
             | Inr n \<Rightarrow> (Inr (ca, n), s1\<lparr>pdb := d\<rparr>))
          else
            (Inl (fail 401 ''invalid_token'' ''player.enroll_denied'' ''malformed_player_id'' []),
             s1\<lparr>limits := limitFailure (clock_at_failure env) (ip_key r) (limits s1)\<rparr>))"

definition enroll_granted :: "IssuedClientCert \<Rightarrow> string \<Rightarrow> Outcome" where
  "enroll_granted c i = \<lparr>out_status = 200,
     out_body = JObj ([(''schema'', JInt 1), (''client_cert_pem'', JStr (cert_pem c))] @
       (if chain_pem c = [] then [] else [(''client_chain_pem'', JStr (chain_pem c))])),
     retry_after_s = 0, audit_action = ''player.enroll'', audit_reason = ''serial='' @ issued_serial c, out_player = i\<rparr>"

text \<open>From the signature on.\<close>

definition enroll_sign :: "device_env \<Rightarrow> EnrollRequest \<Rightarrow> device_ca \<Rightarrow> int \<Rightarrow> enroll_service \<Rightarrow> Outcome \<times> enroll_service" where
  "enroll_sign env r ca n s =
     (case ca (req_csr r) (req_player r) (validity_days env) (clock env) of
        Inl err \<Rightarrow> (fail 400 ''invalid_csr'' ''player.enroll_denied'' (''csr_rejected: '' @ err) (req_player r),
          s\<lparr>pdb := snd (releaseClaim n (pdb s))\<rparr>)
      | Inr c \<Rightarrow>
          (let (ok, d) = finishEnrollment n (cert_row (req_player r) (clock env) c) (clock env) (pdb s) in
           if \<not> ok then (fail 500 ''internal_error'' ''player.enroll_failed'' ''storage_error'' (req_player r),
             s\<lparr>pdb := snd (releaseClaim n d)\<rparr>)
           else (enroll_granted c (req_player r), s\<lparr>pdb := d, limits := limitSuccess (ip_key r) (limits s)\<rparr>)))"

definition enroll :: "device_env \<Rightarrow> EnrollRequest \<Rightarrow> enroll_service \<Rightarrow> Outcome \<times> enroll_service" where
  "enroll env r s = (case enroll_claim env r s of
     (Inl out, s1) \<Rightarrow> (out, s1)
   | (Inr (ca, n), s1) \<Rightarrow> enroll_sign env r ca n s1)"

subsection \<open>Revoked serial numbers\<close>

definition toupper_char :: "char \<Rightarrow> char" where
  "toupper_char c = (if 97 \<le> (of_char c :: nat) \<and> (of_char c :: nat) \<le> 122 then char_of ((of_char c :: nat) - 32) else c)"

text \<open>Upper case, no leading zeros.\<close>

definition normalise_serial :: "string \<Rightarrow> string" where
  "normalise_serial s = dropWhile (\<lambda>c. c = CHR ''0'') (map toupper_char s)"

type_synonym revocation_list = "string list"

definition isRevoked :: "revocation_list \<Rightarrow> string \<Rightarrow> bool" where
  "isRevoked rl s = (let k = normalise_serial s in k \<noteq> [] \<and> k \<in> set rl)"

definition add_serial :: "CertRow \<Rightarrow> revocation_list \<Rightarrow> revocation_list" where
  "add_serial c rl = (let k = normalise_serial (serial_hex c) in if k = [] then rl else List.insert k rl)"

definition add_revoked :: "CertRow list \<Rightarrow> revocation_list \<Rightarrow> revocation_list" where
  "add_revoked cs rl = fold add_serial cs rl"

definition replaceAll :: "CertRow list \<Rightarrow> revocation_list" where
  "replaceAll cs = fold add_serial cs []"

definition rebuildFrom :: "players_db \<Rightarrow> int \<Rightarrow> revocation_list" where
  "rebuildFrom d t = replaceAll (revokedCerts d t)"

subsection \<open>Renewal\<close>

record RenewRequest =
  rn_player :: string
  rn_serial :: string
  rn_csr :: string

definition presented_cert :: "players_db \<Rightarrow> string \<Rightarrow> string \<Rightarrow> CertRow option" where
  "presented_cert d i s = find (\<lambda>c. normalise_serial (serial_hex c) = normalise_serial s) (certsOf d i)"

text \<open>
  The checks: an answer, or the CA to sign with. \<open>d1\<close> and \<open>d2\<close> are the database as the two queries see it.
\<close>

definition renew_check :: "device_env \<Rightarrow> RenewRequest \<Rightarrow> players_db \<Rightarrow> players_db \<Rightarrow> Outcome + device_ca" where
  "renew_check env r d1 d2 =
     (if \<not> csr_size_ok (rn_csr r) then Inl (fail 400 ''invalid_csr'' ''player.renew_denied'' ''csr_size'' (rn_player r))
      else case device_ca env of
        None \<Rightarrow> Inl (fail 503 ''ca_unavailable'' ''player.renew_failed'' ''ca_unavailable'' (rn_player r))
      | Some ca \<Rightarrow>
          if clock_unsynced env then Inl (fail 503 ''server_clock_unsynced'' ''player.renew_failed''
               (''clock_offset_s='' @ std_to_string (the (clock_offset env))) (rn_player r))
          else case presented_cert d1 (rn_player r) (rn_serial r) of
            None \<Rightarrow> Inl (fail 401 ''cert_untrusted'' ''player.renew_denied'' ''presented_certificate_unknown'' (rn_player r))
          | Some cur \<Rightarrow>
              if crt_revoked_at cur \<noteq> None
              then Inl (fail 401 ''cert_untrusted'' ''player.renew_denied'' ''presented_certificate_unknown'' (rn_player r))
              else if (case screen_of d2 (rn_player r) of None \<Rightarrow> True | Some p \<Rightarrow> pl_state p \<noteq> Active)
              then Inl (fail 409 ''player_not_active'' ''player.renew_denied'' ''player_not_active'' (rn_player r))
              else if window_days env * 86400 < not_after cur - clock env
              then Inl (fail 409 ''renew_too_early'' ''player.renew_denied'' (''not_after='' @ std_to_string (not_after cur)) (rn_player r))
              else Inr ca)"

definition renew_granted :: "device_env \<Rightarrow> IssuedClientCert \<Rightarrow> string \<Rightarrow> Outcome" where
  "renew_granted env c i = \<lparr>out_status = 200,
     out_body = JObj ([(''schema'', JInt 1), (''client_cert_pem'', JStr (cert_pem c)), (''ca_cert_pem'', JStr (root_pem env))] @
       (if chain_pem c = [] then [] else [(''client_chain_pem'', JStr (chain_pem c))])),
     retry_after_s = 0, audit_action = ''player.renew'', audit_reason = ''serial='' @ issued_serial c, out_player = i\<rparr>"

definition renew_sign :: "device_env \<Rightarrow> RenewRequest \<Rightarrow> device_ca \<Rightarrow> players_db \<Rightarrow> Outcome \<times> players_db" where
  "renew_sign env r ca d =
     (case ca (rn_csr r) (rn_player r) (validity_days env) (clock env) of
        Inl err \<Rightarrow> (fail 400 ''invalid_csr'' ''player.renew_denied'' (''csr_rejected: '' @ err) (rn_player r), d)
      | Inr c \<Rightarrow>
          (let (ok, d') = recordRenewal (cert_row (rn_player r) (clock env) c) (clock env) d in
           if \<not> ok then (fail 500 ''internal_error'' ''player.renew_failed'' ''storage_error'' (rn_player r), d')
           else (renew_granted env c (rn_player r), d')))"

definition renew :: "device_env \<Rightarrow> RenewRequest \<Rightarrow> players_db \<Rightarrow> Outcome \<times> players_db" where
  "renew env r d = (case renew_check env r d d of Inl out \<Rightarrow> (out, d) | Inr ca \<Rightarrow> renew_sign env r ca d)"

end
