(* ===== verification/Pairing.thy ===== *)
theory Pairing
  imports Enrolment
begin

text \<open>
  Requests side by side. Each request of \<open>EnrollService\<close> is a claim, then either a recorded certificate
  or a release; between those the other operations of the database come, and other requests. The step
  relation \<open>pairing\<close> keeps beside the tables the tokens that requests hold and the tokens that have enrolled
  a device. With it: no token is held twice, and none enrols two devices.
\<close>

subsection \<open>Operations that leave claims alone\<close>

text \<open>The tokens that are left are as they were; new ones have new numbers.\<close>

definition leaves_claims :: "players_db \<Rightarrow> players_db \<Rightarrow> bool" where
  "leaves_claims d d' \<longleftrightarrow> token_seq d \<le> token_seq d' \<and>
     (\<forall>k \<in> set (tokens d'). k \<in> set (tokens d) \<or> token_seq d < tk_id k \<and> tk_id k \<le> token_seq d')"

lemma leaves_refl [simp]: "leaves_claims d d" "leaves_claims d (after_fault d)"
  by (simp_all add: leaves_claims_def after_fault_def)

lemma leaves_transaction:
  assumes "\<And>d1 a. job (after_fault d) = CommitWrites d1 a \<Longrightarrow> leaves_claims (after_fault d) d1"
  shows "leaves_claims d (snd (transaction x y z job d))"
  using assms by (auto simp: transaction_def Let_def leaves_claims_def after_fault_def split: tx_end.split)

lemma leaves_statement: "leaves_claims (after_fault d) (fst (job (after_fault d))) \<Longrightarrow> leaves_claims d (snd (statement x job d))"
  by (auto simp: statement_def Let_def leaves_claims_def after_fault_def)

lemma admin_leaves_claims:
  "leaves_claims d (snd (createPlayer h ub tb name u po ttl t g d))"
  "leaves_claims d (snd (deletePlayer i r t d))"
  "leaves_claims d (snd (revokePlayer i r t d))"
  "leaves_claims d (snd (reEnrollPlayer h tb i r ttl t d))"
  "leaves_claims d (snd (reissueToken h tb i ttl t d))"
  "leaves_claims d (snd (recordRenewal c t d))"
  "leaves_claims d (snd (revokeCert gen ser r t d))"
  "leaves_claims d (snd (nextCrlNumber gen d))"
  "leaves_claims d (snd (purgeExpiredCerts t d))"
  "leaves_claims d (snd (purgeDeadTokens t d))"
  "leaves_claims d (snd (createObject nm t d))"
  "leaves_claims d (snd (renameObject ob nm d))"
  "leaves_claims d (snd (deleteObject ob d))"
  "leaves_claims d (snd (createGroup ob nm t d))"
  "leaves_claims d (snd (renameGroup gi nm d))"
  "leaves_claims d (snd (deleteGroup gi d))"
  "leaves_claims d (snd (movePlayer i gi t d))"
  "leaves_claims d (snd (setSettings kvs d))"
  "leaves_claims d (snd (applyStatuses rows d))"
  "leaves_claims d (snd (addEvent i kd w t d))"
  "leaves_claims d (snd (purgeEventsOlderThan ts d))"
  by (auto simp: createPlayer_def deletePlayer_def revokePlayer_def reEnrollPlayer_def reissueToken_def recordRenewal_def
      revokeCert_def nextCrlNumber_def purgeExpiredCerts_def purgeDeadTokens_def createObject_def renameObject_def deleteObject_def
      createGroup_def renameGroup_def deleteGroup_def movePlayer_def setSettings_def
      applyStatuses_def addEvent_def purgeEventsOlderThan_def Let_def
      intro!: leaves_transaction leaves_statement split: option.splits if_splits)
    (auto simp: leaves_claims_def)

text \<open>The operations of a request on its token; every other operation leaves claims alone.\<close>

fun on_claims :: "operation \<Rightarrow> bool" where
  "on_claims (OpClaim i tok t) \<longleftrightarrow> True"
| "on_claims (OpRelease n) \<longleftrightarrow> True"
| "on_claims (OpFinish n c t) \<longleftrightarrow> True"
| "on_claims _ \<longleftrightarrow> False"

lemma others_leave_claims: "\<not> on_claims op \<Longrightarrow> leaves_claims d (run_op h op d)"
  by (cases op) (simp_all add: admin_leaves_claims, simp add: leaves_claims_def after_fault_def)

subsection \<open>The requests\<close>

record pairing_world =
  wdb :: players_db
  held :: "int list"
  enrolled :: "int list"

text \<open>
  \<open>p_other\<close> is any other operation of the database, in any order and with any refusals by the storage.
  A request that could not record its certificate releases its token later, in a step of its own.
\<close>

inductive pairing :: "(string \<Rightarrow> string) \<Rightarrow> pairing_world \<Rightarrow> pairing_world \<Rightarrow> bool" for h where
  p_claimed: "claimToken h i tok t (wdb w) = (Inr n, d) \<Longrightarrow> pairing h w (w\<lparr>wdb := d, held := n # held w\<rparr>)"
| p_refused: "claimToken h i tok t (wdb w) = (Inl why, d) \<Longrightarrow> pairing h w (w\<lparr>wdb := d\<rparr>)"
| p_enrolled: "n \<in> set (held w) \<Longrightarrow> finishEnrollment n c t (wdb w) = (True, d) \<Longrightarrow>
    pairing h w (w\<lparr>wdb := d, held := remove1 n (held w), enrolled := n # enrolled w\<rparr>)"
| p_not_recorded: "n \<in> set (held w) \<Longrightarrow> finishEnrollment n c t (wdb w) = (False, d) \<Longrightarrow> pairing h w (w\<lparr>wdb := d\<rparr>)"
| p_given_back: "n \<in> set (held w) \<Longrightarrow> pairing h w (w\<lparr>wdb := snd (releaseClaim n (wdb w)), held := remove1 n (held w)\<rparr>)"
| p_other: "\<not> on_claims op \<Longrightarrow> pairing h w (w\<lparr>wdb := run_op h op (wdb w)\<rparr>)"

definition holds :: "int \<Rightarrow> players_db \<Rightarrow> bool" where
  "holds n d \<longleftrightarrow> n \<le> token_seq d \<and> (\<forall>k \<in> set (tokens d). tk_id k = n \<longrightarrow> tk_used_at k \<noteq> None)"

definition pairing_ok :: "pairing_world \<Rightarrow> bool" where
  "pairing_ok w \<longleftrightarrow> players_ok (wdb w) \<and> distinct (held w @ enrolled w) \<and> (\<forall>n \<in> set (held w). holds n (wdb w))
     \<and> (\<forall>n \<in> set (enrolled w). spent n (wdb w))"

lemma holds_leaves: "holds n d \<Longrightarrow> leaves_claims d d' \<Longrightarrow> holds n d'"
  by (auto simp: holds_def leaves_claims_def)

lemma spent_holds: "spent n d \<Longrightarrow> holds n d"
  by (simp add: spent_def holds_def)

lemma claim_result:
  assumes "claimToken h i tok t d = (Inr n, d')" "tokens_ok d"
  shows "\<exists>k \<in> set (tokens d). tk_id k = n \<and> tk_used_at k = None \<and> tk_player k = i \<and> tk_hash k = h tok \<and> isHexToken tok \<and>
    t \<le> tk_expires_at k \<and> screen_state d i = Some Pending \<and> d' = claimed n t (after_fault d)"
  using assms(1) by (auto simp: claimToken_def transaction_def Let_def claimed_def screen_state_def after_fault_def screen_of_def matching_token_def
      dest!: find_SomeD split: if_splits option.splits tx_end.splits)

lemma fault_tokens [simp]: "tokens (after_fault d) = tokens d" "token_seq (after_fault d) = token_seq d"
  "screen_state (after_fault d) = screen_state d" "certs (after_fault d) = certs d" "screen_of (after_fault d) = screen_of d"
  by (simp_all add: after_fault_def)

lemma ok_after_fault [simp]: "players_ok (after_fault d) = players_ok d"
  by (simp add: after_fault_def ok_faults)

lemma refused_claim: "claimToken h i tok t d = (Inl why, d') \<Longrightarrow> d' = after_fault d"
  by (auto simp: claimToken_def transaction_def Let_def split: if_splits option.splits tx_end.splits)

lemma finish_result:
  assumes "finishEnrollment n c t d = (ok, d')"
  shows "\<not> ok \<Longrightarrow> d' = after_fault d"
    "ok \<Longrightarrow> (\<exists>k \<in> set (tokens d). tk_id k = n \<and> tk_used_at k \<noteq> None \<and> tk_player k = crt_player c)
      \<and> screen_state d (crt_player c) = Some Pending \<and> \<not> cert_known d c
      \<and> d' = with_event (crt_player c) t ''enrolled'' (generation_text (generation c))
          (set_screen (crt_player c) (activated t) (certified c t (after_fault d)))"
  using assms by (auto simp: finishEnrollment_def transaction_def Let_def certified_def screen_state_def cert_known_def
      dest!: find_SomeD split: if_splits option.splits tx_end.splits)

lemma release_result: "snd (releaseClaim n d) = after_fault d \<or> snd (releaseClaim n d) = released n (after_fault d)"
  by (auto simp: releaseClaim_def statement_def Let_def released_def)

lemma token_by_number: "players_ok d \<Longrightarrow> k \<in> set (tokens d) \<Longrightarrow> k' \<in> set (tokens d) \<Longrightarrow> tk_id k = tk_id k' \<Longrightarrow> k = k'"
  unfolding players_ok_def by (blast intro: token_by_id)

lemma used_after_claim [simp]: "(\<exists>y. tk_used_at (use_token n t k) = Some y) \<longleftrightarrow> tk_used_at k \<noteq> None \<or> tk_id k = n"
  by (auto simp: use_token_def)

lemma claim_not_held:
  assumes "claimToken h i tok t d = (Inr n, d')" "players_ok d" "holds m d"
  shows "n \<noteq> m"
  using claim_result [OF assms(1)] assms(2,3) by (auto simp: players_ok_def holds_def)

lemma holds_claim:
  assumes "claimToken h i tok t d = (Inr n, d')" "players_ok d"
  shows "holds n d'" "holds m d \<Longrightarrow> holds m d'"
  using claim_result [OF assms(1)] assms(2) by (auto simp: players_ok_def tokens_ok_def holds_def simp del: not_None_eq)

lemma holds_finish: "finishEnrollment n c t d = (ok, d') \<Longrightarrow> holds m d \<Longrightarrow> holds m d'"
  using finish_result [of n c t d ok d'] by (cases ok) (auto simp: holds_def)

lemma holds_release:
  assumes "holds m d" "m \<noteq> n"
  shows "holds m (snd (releaseClaim n d))"
  using release_result [of n d] assms by (auto simp: holds_def simp del: not_None_eq dest!: held_state split: if_splits)

lemma claim_keeps: "claimToken h i tok t d = (r, d') \<Longrightarrow> effect h T d d'"
  using claim_effect [of h T d i tok t] by simp

lemma finish_keeps: "finishEnrollment n c t d = (r, d') \<Longrightarrow> effect h T d d'"
  using finish_effect [of h T d n c t] by simp

lemma spent_after_finish:
  assumes "finishEnrollment n c t d = (True, d')" "players_ok d"
  shows "spent n d'"
proof -
  note f = finish_result(2) [OF assms(1) TrueI]
  have ok: "players_ok d'" by (rule rules.after_effect [OF finish_keeps [OF assms(1)] assms(2)])
  obtain k where k: "k \<in> set (tokens d)" "tk_id k = n" "tk_used_at k \<noteq> None" "tk_player k = crt_player c" using f by blast
  have only: "k' = k" if "k' \<in> set (tokens d)" "tk_id k' = n" for k' using token_by_number [OF assms(2) that(1) k(1)] that(2) k(2) by simp
  have "n \<le> token_seq d" using k assms(2) by (auto simp: players_ok_def tokens_ok_def)
  then show ?thesis using ok f k(3,4) only by (auto simp: spent_def simp del: not_None_eq)
qed

lemmas keep_ok = rules.after_effect
lemmas keep_spent = spent.after_effect

lemma pairing_kept: "pairing h w w' \<Longrightarrow> pairing_ok w \<Longrightarrow> pairing_ok w'"
proof (induction rule: pairing.induct)
  case (p_claimed i tok t w n d)
  have e: "effect h T (wdb w) d" using claim_keeps [OF p_claimed(1)] .
  have ok: "players_ok (wdb w)" using p_claimed by (simp add: pairing_ok_def)
  have "n \<notin> set (held w)" "n \<notin> set (enrolled w)"
    using p_claimed(2) claim_not_held [OF p_claimed(1) ok] spent_holds unfolding pairing_ok_def by blast+
  then show ?case using p_claimed holds_claim [OF p_claimed(1) ok] keep_ok [OF e] keep_spent [OF e]
    by (auto simp: pairing_ok_def)
next
  case (p_refused i tok t w why d)
  then have e: "effect h T (wdb w) d" and d: "d = after_fault (wdb w)" using claim_keeps refused_claim by blast+
  show ?case using p_refused keep_ok [OF e] keep_spent [OF e] by (auto simp: pairing_ok_def d holds_def)
next
  case (p_enrolled n w c t d)
  have e: "effect h T (wdb w) d" using finish_keeps [OF p_enrolled(2)] .
  have "spent n d" using p_enrolled spent_after_finish by (auto simp: pairing_ok_def)
  then show ?case using p_enrolled keep_ok [OF e] keep_spent [OF e] holds_finish [OF p_enrolled(2)]
    by (auto simp: pairing_ok_def)
next
  case (p_not_recorded n w c t d)
  have e: "effect h T (wdb w) d" using finish_keeps [OF p_not_recorded(2)] .
  show ?case using p_not_recorded keep_ok [OF e] keep_spent [OF e] holds_finish [OF p_not_recorded(2)]
    by (auto simp: pairing_ok_def)
next
  case (p_given_back n w)
  have e: "effect h T (wdb w) (snd (releaseClaim n (wdb w)))" by (rule release_effect)
  show ?case using p_given_back keep_ok [OF e] keep_spent [OF e] holds_release [of _ "wdb w" n]
    by (auto simp: pairing_ok_def)
next
  case (p_other op w)
  obtain T where "timely T op" using timely_somewhere [of "[op]"] by auto
  then have e: "effect h T (wdb w) (run_op h op (wdb w))" by (rule run_effect)
  show ?case using p_other keep_ok [OF e] keep_spent [OF e] holds_leaves [OF _ others_leave_claims]
    by (auto simp: pairing_ok_def)
qed

lemma pairing_throughout: "(pairing h)\<^sup>*\<^sup>* w w' \<Longrightarrow> pairing_ok w \<Longrightarrow> pairing_ok w'"
  by (induction rule: rtranclp.induct) (auto intro: pairing_kept)

subsection \<open>One request when the storage takes every write\<close>

lemma no_fault_ahead [simp]: "db_faults d = [] \<Longrightarrow> after_fault d = d" "db_faults d = [] \<Longrightarrow> next_fault d = Fine"
  by (simp_all add: after_fault_def next_fault_def)

lemma faults_frame [simp]:
  "db_faults (with_event i t kd w d) = db_faults d" "db_faults (set_screen i f d) = db_faults d"
  "db_faults (certified c t d) = db_faults d" "db_faults (claimed n t d) = db_faults d" "db_faults (released n d) = db_faults d"
  by (simp_all add: write_defs)

lemma release_undoes_claim:
  assumes "players_ok d" "db_faults d = []" "claimToken h i tok t d = (Inr n, d1)"
  shows "snd (releaseClaim n d1) = d"
proof -
  obtain k where k: "k \<in> set (tokens d)" "tk_id k = n" "tk_used_at k = None" "tk_player k = i" "screen_state d i = Some Pending"
    and d1: "d1 = claimed n t d"
    using claim_result [OF assms(3)] assms(1,2) by (auto simp: players_ok_def)
  have only: "k' = k" if "k' \<in> set (tokens d)" "tk_id k' = n" for k'
    using token_by_number [OF assms(1) that(1) k(1)] that(2) k(2) by simp
  have "held_of_pending d1 n (use_token n t k') \<longleftrightarrow> tk_id k' = n" if "k' \<in> set (tokens d)" for k'
    using only [OF that] k by (auto simp: d1 held_of_pending_def use_token_def screen_state_def)
  then have "map (\<lambda>k'. if held_of_pending d1 n k' then k'\<lparr>tk_used_at := None\<rparr> else k') (tokens d1) = tokens d"
    using only k(3) by (auto simp: d1 use_token_def intro!: map_idI)
  then have "released n d1 = d" by (simp add: released_def d1 claimed_def)
  then show ?thesis using release_result [of n d1] assms(2)
    by (auto simp: releaseClaim_def statement_def Let_def released_def d1)
qed

lemma finish_refused:
  "db_faults d = [] \<Longrightarrow> finishEnrollment n c t d = (False, d') \<Longrightarrow> d' = d"
  using finish_result(1) [of n c t d False d'] by simp

lemma fail_fields [simp]: "out_status (fail st code ac re i) = st" "out_body (fail st code ac re i) = JObj [(''error'', JStr code)]"
  "retry_after_s (fail st code ac re i) = 0"
  by (simp_all add: fail_def)

lemma granted_status [simp]: "out_status (enroll_granted c i) = 200"
  by (simp add: enroll_granted_def)

lemma claim_phase:
  assumes "enroll_claim env r s = (res, s1)" "db_faults (pdb s) = []"
  shows "(\<exists>out. res = Inl out \<and> out_status out \<in> {400, 401, 429, 503} \<and> pdb s1 = pdb s \<and>
      (out_status out = 401 \<longrightarrow> out_body out = JObj [(''error'', JStr ''invalid_token'')] \<and> retry_after_s out = 0)) \<or>
    (\<exists>ca n. res = Inr (ca, n) \<and> device_ca env = Some ca \<and>
      claimToken (token_hash env) (req_player r) (req_token r) (clock env) (pdb s) = (Inr n, pdb s1))"
  using assms by (auto simp: enroll_claim_def Let_def split: if_splits option.splits sum.splits prod.splits dest: refused_claim)

lemma enroll_outcome:
  assumes ok: "players_ok (pdb s)" and fine: "db_faults (pdb s) = []" and run: "enroll env r s = (out, s')"
  shows "(out_status out \<in> {400, 401, 429, 500, 503} \<and> pdb s' = pdb s \<and>
      (out_status out = 401 \<longrightarrow> out_body out = JObj [(''error'', JStr ''invalid_token'')] \<and> retry_after_s out = 0)) \<or>
    (out_status out = 200 \<and> (\<exists>ca n c d1. device_ca env = Some ca \<and>
      claimToken (token_hash env) (req_player r) (req_token r) (clock env) (pdb s) = (Inr n, d1) \<and>
      ca (req_csr r) (req_player r) (validity_days env) (clock env) = Inr c \<and> out = enroll_granted c (req_player r) \<and>
      finishEnrollment n (cert_row (req_player r) (clock env) c) (clock env) d1 = (True, pdb s')))"
proof -
  obtain res s1 where first: "enroll_claim env r s = (res, s1)" by fastforce
  show ?thesis
  proof (cases res)
    case (Inl o1)
    then show ?thesis using claim_phase [OF first fine] first run by (auto simp: enroll_def)
  next
    case (Inr p)
    then obtain ca n where res: "res = Inr (ca, n)" by (cases p) auto
    then have ca: "device_ca env = Some ca"
      and cl: "claimToken (token_hash env) (req_player r) (req_token r) (clock env) (pdb s) = (Inr n, pdb s1)"
      using claim_phase [OF first fine] by auto
    have fine1: "db_faults (pdb s1) = []" using claim_result [OF cl] ok fine by (auto simp: players_ok_def)
    note given = release_undoes_claim [OF ok fine cl]
    have run: "enroll_sign env r ca n s1 = (out, s')" using run first res by (simp add: enroll_def)
    show ?thesis
      using run ca cl given
      by (auto simp: enroll_sign_def Let_def dest!: finish_refused [OF fine1] split: sum.splits prod.splits if_splits)
  qed
qed

lemma spent_refuses:
  assumes "spent n d"
  shows "fst (claimToken h i tok t d) \<noteq> Inr n" "\<not> fst (finishEnrollment n c t d)"
proof -
  have ok: "tokens_ok d" using assms by (simp add: spent_def players_ok_def)
  show "fst (claimToken h i tok t d) \<noteq> Inr n"
    using claim_result [of h i tok t d n "snd (claimToken h i tok t d)"] ok assms
    by (cases "claimToken h i tok t d") (auto simp: spent_def)
  show "\<not> fst (finishEnrollment n c t d)"
  proof
    assume "fst (finishEnrollment n c t d)"
    then have "finishEnrollment n c t d = (True, snd (finishEnrollment n c t d))" by (simp add: prod_eq_iff)
    from finish_result(2) [OF this TrueI] obtain k where "k \<in> set (tokens d)" "tk_id k = n" "tk_player k = crt_player c"
      "screen_state d (crt_player c) = Some Pending" by blast
    then show False using assms by (auto simp: spent_def)
  qed
qed

lemma finish_makes_active:
  assumes "finishEnrollment n c t d = (True, d')"
  shows "screen_state d' (crt_player c) = Some Active \<and> recorded c t \<in> set (certs d') \<and> recorded c t \<notin> set (certs d)"
proof -
  note f = finish_result(2) [OF assms TrueI]
  have "recorded c t \<notin> set (certs d)" using f by (auto simp: cert_known_def list_ex_iff cert_key_def recorded_def)
  then show ?thesis using f by auto
qed

lemma enroll_grants:
  assumes "players_ok (pdb s)" "db_faults (pdb s) = []" "enroll env r s = (out, s')" "out_status out = 200"
  shows "(\<exists>n. fst (claimToken (token_hash env) (req_player r) (req_token r) (clock env) (pdb s)) = Inr n \<and>
      spent n (pdb s')) \<and> screen_state (pdb s') (req_player r) = Some Active \<and>
      (\<exists>c \<in> set (certs (pdb s')). live_of (req_player r) c \<and> c \<notin> set (certs (pdb s)))"
proof -
  obtain n c d1 where cl: "claimToken (token_hash env) (req_player r) (req_token r) (clock env) (pdb s) = (Inr n, d1)"
    and f: "finishEnrollment n (cert_row (req_player r) (clock env) c) (clock env) d1 = (True, pdb s')"
    using enroll_outcome [OF assms(1-3)] assms(4) by auto
  have ok: "players_ok d1" by (rule keep_ok [OF claim_keeps [OF cl] assms(1)])
  have "certs d1 = certs (pdb s)" using claim_result [OF cl] assms(1,2) by (auto simp: players_ok_def)
  then have "\<exists>c \<in> set (certs (pdb s')). live_of (req_player r) c \<and> c \<notin> set (certs (pdb s))"
    using finish_makes_active [OF f] by (intro bexI [of _ "recorded (cert_row (req_player r) (clock env) c) (clock env)"])
      (auto simp: live_of_def cert_row_def)
  then show ?thesis using cl spent_after_finish [OF f ok] finish_makes_active [OF f] by (auto simp: cert_row_def)
qed

text \<open>Which requests are answered 401, with any storage.\<close>

lemma sign_status: "enroll_sign env r ca n s = (out, s') \<Longrightarrow> out_status out \<in> {200, 400, 500}"
  by (auto simp: enroll_sign_def Let_def split: sum.splits prod.splits if_splits)

lemma token_refusals:
  assumes "enroll env r s = (out, s')"
  shows "(fst (retryAfter (clock_at_limit env) (ip_key r) (limits s)) \<le> 0 \<and> csr_size_ok (req_csr r) \<and> device_ca env \<noteq> None \<and>
        \<not> clock_unsynced env \<and>
        (\<not> looksLikeUuid (req_player r) \<or>
          (\<exists>why. fst (claimToken (token_hash env) (req_player r) (req_token r) (clock env) (pdb s)) = Inl why)) \<longleftrightarrow>
      out_status out = 401) \<and>
    (out_status out = 401 \<longrightarrow> out_body out = JObj [(''error'', JStr ''invalid_token'')] \<and> retry_after_s out = 0)"
proof (cases "fst (enroll_claim env r s)")
  case (Inl o1)
  with assms have "enroll_claim env r s = (Inl out, s')" by (cases "enroll_claim env r s") (simp add: enroll_def)
  then show ?thesis
    by (auto simp: enroll_claim_def Let_def split: if_splits option.splits sum.splits prod.splits)
next
  case (Inr p)
  then obtain ca n s1 where c: "enroll_claim env r s = (Inr (ca, n), s1)" by (cases p; cases "enroll_claim env r s") auto
  then have "enroll_sign env r ca n s1 = (out, s')" using assms by (simp add: enroll_def)
  from sign_status [OF this] c show ?thesis
    by (auto simp: enroll_claim_def Let_def split: if_splits option.splits sum.splits prod.splits)
qed

subsection \<open>What the code does not guard against\<close>

text \<open>
  The check of the presented certificate and the record of the new one are two turns of the database. A
  screen that is bound to another device between them is active again when the old device's request goes
  on, and its new certificate is recorded: it works, though the one it was renewed from is revoked.
\<close>

definition demo_device_env :: device_env where
  "demo_device_env = \<lparr>token_hash = (\<lambda>x. x),
     device_ca = Some (\<lambda>csr cn days t. if csr = ''bad'' then Inl ''no'' else
       Inr \<lparr>cert_pem = csr, chain_pem = [], issued_serial = csr, issued_generation = 1, not_before_unix = t, not_after_unix = t + days * 86400\<rparr>),
     clock_offset = None, max_clock_skew_s = 86400, validity_days = 365, window_days = 90, root_pem = ''root'',
     clock = 10, clock_at_limit = 10, clock_at_failure = 10\<rparr>"

definition demo_enroll :: "string \<Rightarrow> string \<Rightarrow> EnrollRequest" where
  "demo_enroll tok csr = \<lparr>req_player = lobby, req_token = tok, req_csr = csr, req_ip = ''10.0.0.1''\<rparr>"

definition rebound :: players_db where
  "rebound = pdb (snd (enroll demo_device_env (demo_enroll lobby_token ''NEW'')
     \<lparr>pdb = snd (reEnrollPlayer (\<lambda>x. x) (replicate 32 0) lobby ''stolen'' 3600 8 (one_active None)), limits = []\<rparr>))"

definition old_device :: RenewRequest where
  "old_device = \<lparr>rn_player = lobby, rn_serial = ''a1b'', rn_csr = ''OLD''\<rparr>"

lemma renewal_outlives_re_enrolment:
  "case renew_check demo_device_env old_device (one_active None) (one_active None) of
     Inl out \<Rightarrow> False
   | Inr ca \<Rightarrow> (case renew_sign demo_device_env old_device ca rebound of (out, d) \<Rightarrow>
       out_status out = 200 \<and> map (\<lambda>c. (serial_hex c, crt_revoked_at c = None)) (certs d) = [(''0A1B'', False), (''NEW'', True), (''OLD'', True)])"
  by code_simp

text \<open>A release the storage refuses is not asked for again: the token is burnt by a request that failed.\<close>

lemma refused_release_burns_token:
  "case enroll demo_device_env (demo_enroll lobby_token ''bad'') \<lparr>pdb = one_pending\<lparr>db_faults := [Fine, AtWrite]\<rparr>, limits = []\<rparr> of
     (out, s) \<Rightarrow> out_status out = 400 \<and>
       fst (claimToken (\<lambda>x. x) lobby lobby_token 11 (pdb s)) = Inl AlreadyUsed"
  by code_simp

section \<open>Properties\<close>

text \<open>C16: many requests at once, with any other operations in between and any refusals by the storage: no token is held
  by two requests, none enrols two devices, and a token that has enrolled one can neither be claimed nor be
  finished again.\<close>

theorem one_device_per_token:
  assumes "(pairing h)\<^sup>*\<^sup>* \<lparr>wdb = d, held = [], enrolled = []\<rparr> w" "players_ok d"
  shows "distinct (held w @ enrolled w) \<and> (\<forall>n \<in> set (enrolled w).
    (\<forall>h i tok t. fst (claimToken h i tok t (wdb w)) \<noteq> Inr n) \<and> (\<forall>c t. \<not> fst (finishEnrollment n c t (wdb w))))"
proof -
  have ok: "pairing_ok w" by (rule pairing_throughout [OF assms(1)]) (simp add: pairing_ok_def assms(2))
  then have s: "spent n (wdb w)" if "n \<in> set (enrolled w)" for n using that by (simp add: pairing_ok_def)
  have "distinct (held w @ enrolled w)" using ok by (simp add: pairing_ok_def)
  then show ?thesis using spent_refuses [OF s] by blast
qed

theorem one_device_per_token_witness:
  "\<not> fst (finishEnrollment 1 (lobby_cert None) 9
    (snd (finishEnrollment 1 (lobby_cert None) 5 (snd (claimToken id lobby lobby_token 5 one_pending)))))"
proof -
  let ?d1 = "snd (claimToken id lobby lobby_token 5 one_pending)"
  let ?d2 = "snd (finishEnrollment 1 (lobby_cert None) 5 ?d1)"
  have "fst (claimToken id lobby lobby_token 5 one_pending) = Inr 1" "fst (finishEnrollment 1 (lobby_cert None) 5 ?d1)" by code_simp+
  then have c: "claimToken id lobby lobby_token 5 one_pending = (Inr 1, ?d1)"
    and f: "finishEnrollment 1 (lobby_cert None) 5 ?d1 = (True, ?d2)" by (simp_all add: prod_eq_iff)
  let ?w0 = "\<lparr>wdb = one_pending, held = [], enrolled = []\<rparr>" and ?w1 = "\<lparr>wdb = ?d1, held = [1], enrolled = []\<rparr>"
  have "pairing id ?w0 ?w1" using p_claimed [of id lobby lobby_token 5 ?w0 1 ?d1] c by simp
  moreover have "pairing id ?w1 \<lparr>wdb = ?d2, held = [], enrolled = [1]\<rparr>"
    using p_enrolled [of 1 ?w1 "lobby_cert None" 5 ?d2 id] f by simp
  ultimately have "(pairing id)\<^sup>*\<^sup>* ?w0 \<lparr>wdb = ?d2, held = [], enrolled = [1]\<rparr>" by (meson r_into_rtranclp rtranclp.rtrancl_into_rtrancl)
  from one_device_per_token [OF this one_pending_ok] show ?thesis by simp
qed

text \<open>C18: with a storage that takes every write, a pairing request that is refused, for whatever reason, leaves every
  table as it was, the token included, and one that is granted had a claim on a token, which is spent, and leaves
  the screen active with a new certificate. With any storage, a request that is neither held back by the limiter nor
  refused before the token is looked at is answered 401 \<open>invalid_token\<close>, with no waiting time, exactly if the token
  is refused, and the answer is the same whichever reason there is. (What a storage that fails can do to the
  token of a refused request: \<open>refused_release_burns_token\<close>.)\<close>

theorem refused_pairing_changes_nothing:
  assumes "players_ok (pdb s)" "enroll env r s = (out, s')"
  shows "(db_faults (pdb s) = [] \<and> out_status out \<noteq> 200 \<longrightarrow> out_status out \<in> {400, 401, 429, 500, 503} \<and> pdb s' = pdb s) \<and>
    (db_faults (pdb s) = [] \<and> out_status out = 200 \<longrightarrow>
      (\<exists>n. fst (claimToken (token_hash env) (req_player r) (req_token r) (clock env) (pdb s)) = Inr n \<and>
      spent n (pdb s')) \<and> screen_state (pdb s') (req_player r) = Some Active \<and>
      (\<exists>c \<in> set (certs (pdb s')). live_of (req_player r) c \<and> c \<notin> set (certs (pdb s)))) \<and>
    (fst (retryAfter (clock_at_limit env) (ip_key r) (limits s)) \<le> 0 \<and> csr_size_ok (req_csr r) \<and> device_ca env \<noteq> None \<and>
        \<not> clock_unsynced env \<and>
        (\<not> looksLikeUuid (req_player r) \<or>
          (\<exists>why. fst (claimToken (token_hash env) (req_player r) (req_token r) (clock env) (pdb s)) = Inl why)) \<longleftrightarrow>
      out_status out = 401) \<and>
    (out_status out = 401 \<longrightarrow> out_body out = JObj [(''error'', JStr ''invalid_token'')] \<and> retry_after_s out = 0)"
proof -
  have same: "(fst (retryAfter (clock_at_limit env) (ip_key r) (limits s)) \<le> 0 \<and> csr_size_ok (req_csr r) \<and> device_ca env \<noteq> None \<and>
        \<not> clock_unsynced env \<and>
        (\<not> looksLikeUuid (req_player r) \<or>
          (\<exists>why. fst (claimToken (token_hash env) (req_player r) (req_token r) (clock env) (pdb s)) = Inl why)) \<longleftrightarrow>
      out_status out = 401) \<and>
    (out_status out = 401 \<longrightarrow> out_body out = JObj [(''error'', JStr ''invalid_token'')] \<and> retry_after_s out = 0)"
    using token_refusals [OF assms(2)] .
  have refused: "out_status out \<in> {400, 401, 429, 500, 503} \<and> pdb s' = pdb s"
    if "db_faults (pdb s) = []" "out_status out \<noteq> 200"
    using enroll_outcome [OF assms(1) that(1) assms(2)] that(2) by blast
  have granted: "(\<exists>n. fst (claimToken (token_hash env) (req_player r) (req_token r) (clock env) (pdb s)) = Inr n \<and>
      spent n (pdb s')) \<and> screen_state (pdb s') (req_player r) = Some Active \<and>
      (\<exists>c \<in> set (certs (pdb s')). live_of (req_player r) c \<and> c \<notin> set (certs (pdb s)))"
    if "db_faults (pdb s) = []" "out_status out = 200"
    using enroll_grants [OF assms(1) that(1) assms(2) that(2)] .
  show ?thesis using same refused granted by blast
qed

theorem refused_pairing_changes_nothing_witness:
  "pdb (snd (enroll demo_device_env (demo_enroll lobby_token ''bad'') \<lparr>pdb = one_pending, limits = []\<rparr>)) = one_pending \<and>
    out_status (fst (enroll demo_device_env (demo_enroll ''guess'' ''csr'') \<lparr>pdb = one_pending, limits = []\<rparr>)) = 401"
proof -
  let ?s = "\<lparr>pdb = one_pending, limits = []\<rparr>"
  let ?r = "enroll demo_device_env (demo_enroll lobby_token ''bad'') ?s"
  let ?q = "enroll demo_device_env (demo_enroll ''guess'' ''csr'') ?s"
  have "out_status (fst ?r) = 400" by code_simp
  moreover have "db_faults one_pending = []" by (simp add: one_pending_def empty_players_db_def)
  ultimately have one: "pdb (snd ?r) = one_pending"
    using refused_pairing_changes_nothing [of ?s demo_device_env "demo_enroll lobby_token ''bad''" "fst ?r" "snd ?r"]
    by (simp add: one_pending_ok)
  have "fst (retryAfter (clock_at_limit demo_device_env) (ip_key (demo_enroll ''guess'' ''csr'')) []) \<le> 0"
    "csr_size_ok (req_csr (demo_enroll ''guess'' ''csr''))" "\<not> Option.is_none (device_ca demo_device_env)"
    "\<not> clock_unsynced demo_device_env"
    "fst (claimToken (token_hash demo_device_env) (req_player (demo_enroll ''guess'' ''csr''))
       (req_token (demo_enroll ''guess'' ''csr'')) (clock demo_device_env) one_pending) = Inl NoMatch" by code_simp+
  then have "out_status (fst ?q) = 401"
    using refused_pairing_changes_nothing [of ?s demo_device_env "demo_enroll ''guess'' ''csr''" "fst ?q" "snd ?q"]
    by (simp add: one_pending_ok Option.is_none_def)
  with one show ?thesis by simp
qed

end
