(* ===== verification/DeviceGate.thy ===== *)
theory DeviceGate
  imports Pairing
begin

text \<open>
  The device port, \<open>players/DeviceApi.cpp\<close>: the gate every request passes, the heartbeat and renewal
  handlers and their limits, the cleaning of what a heartbeat says, and the audit rows that are merged.
  TLS (OpenSSL) and HTTP (httplib) are arguments: what the handshake verified, the names in the
  certificate, the path, the parsed body. The maps are association lists; the order of their entries is
  not looked at.
\<close>

subsection \<open>The gate\<close>

datatype verify_result = VerifyOk | VerifyExpired | VerifyFailed

record Peer =
  verified :: verify_result
  peer_cn :: string
  peer_serial :: string

definition kPrefix :: string where "kPrefix = ''/api/players/''"

definition idInPath :: "string \<Rightarrow> string" where
  "idInPath path = (if take (length kPrefix) path \<noteq> kPrefix then []
     else takeWhile (\<lambda>c. c \<noteq> CHR ''/'') (drop (length kPrefix) path))"

text \<open>The answer of a refusal, or \<open>None\<close>: the request goes on. \<open>d1\<close> and \<open>d2\<close> are the database at the two queries.\<close>

definition gate :: "players_db \<Rightarrow> players_db \<Rightarrow> revocation_list \<Rightarrow> string \<Rightarrow> Peer option \<Rightarrow> (int \<times> string) option" where
  "gate d1 d2 rl path peer =
     (case peer of
        None \<Rightarrow> Some (401, ''cert_untrusted'')
      | Some p \<Rightarrow>
          if verified p = VerifyExpired then Some (401, ''cert_expired'')
          else if verified p \<noteq> VerifyOk then Some (401, ''cert_untrusted'')
          else if peer_cn p = [] \<or> peer_serial p = [] then Some (401, ''cert_untrusted'')
          else if idInPath path \<noteq> [] \<and> idInPath path \<noteq> peer_cn p then Some (403, ''cn_mismatch'')
          else case screen_of d1 (peer_cn p) of
            None \<Rightarrow> Some (404, ''player_not_found'')
          | Some s \<Rightarrow>
              if pl_state s = Revoked \<or> isRevoked rl (peer_serial p) then Some (401, ''cert_revoked'')
              else case presented_cert d2 (peer_cn p) (peer_serial p) of
                None \<Rightarrow> Some (401, ''cert_untrusted'')
              | Some c \<Rightarrow> if crt_revoked_at c \<noteq> None then Some (401, ''cert_revoked'') else None)"

subsection \<open>What a heartbeat says\<close>

definition printable :: "char \<Rightarrow> bool" where
  "printable c \<longleftrightarrow> 0x20 \<le> (of_char c :: nat) \<and> (of_char c :: nat) \<noteq> 0x7F"

definition cleanText :: "string \<Rightarrow> nat \<Rightarrow> string" where
  "cleanText s m = take m (filter printable s)"

definition keep_text :: "json \<Rightarrow> string \<Rightarrow> nat \<Rightarrow> (string \<times> json) list" where
  "keep_text j k m = (case field k j of Some (JStr s) \<Rightarrow> [(k, JStr (cleanText s m))] | _ \<Rightarrow> [])"

definition keep_word :: "json \<Rightarrow> string \<Rightarrow> string list \<Rightarrow> (string \<times> json) list" where
  "keep_word j k allowed = (case field k j of Some (JStr s) \<Rightarrow> if s \<in> set allowed then [(k, JStr s)] else [] | _ \<Rightarrow> [])"

definition keep_integer :: "json \<Rightarrow> string \<Rightarrow> (string \<times> json) list" where
  "keep_integer j k = (case field k j of Some (JInt v) \<Rightarrow> if 0 \<le> v \<and> v < 2 ^ 53 then [(k, JInt v)] else [] | _ \<Rightarrow> [])"

definition known_results :: "string list" where
  "known_results = [''executed'', ''expired'', ''duplicate'', ''unsupported'', ''failed'']"

definition keep_result :: "json \<Rightarrow> (string \<times> json) list" where
  "keep_result j = (case field ''last_command_result'' j of
     Some (JObj kv) \<Rightarrow> (case (field ''id'' (JObj kv), field ''status'' (JObj kv)) of
        (Some (JStr i), Some (JStr st)) \<Rightarrow>
          if looksLikeUuid i \<and> st \<in> set known_results
          then [(''last_command_result'', JObj [(''id'', JStr i), (''status'', JStr st)])] else []
      | _ \<Rightarrow> [])
   | _ \<Rightarrow> [])"

definition unit_interval :: "rat \<Rightarrow> rat" where
  "unit_interval x = (if x < 0 then 0 else if 1 < x then 1 else x)"

definition keep_share :: "json \<Rightarrow> string \<Rightarrow> (string \<times> json) list" where
  "keep_share j k = (case field k j of
     Some (JInt v) \<Rightarrow> [(k, JFloat (unit_interval (of_int v)))]
   | Some (JFloat x) \<Rightarrow> [(k, JFloat (unit_interval x))]
   | _ \<Rightarrow> [])"

definition sanitiseHeartbeat :: "json \<Rightarrow> json" where
  "sanitiseHeartbeat j = JObj (keep_integer j ''uptime_seconds'' @ keep_integer j ''os_uptime_seconds'' @ keep_integer j ''position_ms''
     @ keep_result j
     @ keep_word j ''watchdog_state'' [''ok'', ''stale'', ''not_running''] @ keep_word j ''health'' [''ok'', ''warning'', ''critical'']
     @ keep_text j ''current_source'' 256 @ keep_text j ''media_status'' 64 @ keep_text j ''last_error'' 512
     @ keep_text j ''last_renew_error'' 512 @ keep_text j ''last_command_id'' 64 @ keep_share j ''buffer_progress'')"

subsection \<open>How often\<close>

record device_limits =
  last_heartbeat :: "(string \<times> int) list"
  last_startup :: "(string \<times> int) list"
  last_renew :: "(string \<times> int) list"

record device_options =
  min_heartbeat_interval_s :: int
  min_startup_interval_s :: int
  min_renew_interval_s :: int
  audit_throttle_s :: int

definition forget_times :: "int \<Rightarrow> (string \<times> int) list \<Rightarrow> (string \<times> int) list" where
  "forget_times t m = filter (\<lambda>x. \<not> 3600 < t - snd x) m"

definition trim_limits :: "int \<Rightarrow> device_limits \<Rightarrow> device_limits" where
  "trim_limits t l = (if 20000 < length (last_heartbeat l)
     then l\<lparr>last_heartbeat := forget_times t (last_heartbeat l), last_startup := forget_times t (last_startup l)\<rparr> else l)"

text \<open>The seconds to wait, or the limits with this heartbeat counted.\<close>

definition too_soon :: "(string \<times> int) list \<Rightarrow> string \<Rightarrow> int \<Rightarrow> int \<Rightarrow> int option" where
  "too_soon m i spacing t = (case map_of m i of None \<Rightarrow> None
     | Some u \<Rightarrow> if t - u < spacing then Some (spacing - (t - u)) else None)"

definition admit_heartbeat :: "device_options \<Rightarrow> string \<Rightarrow> bool \<Rightarrow> int \<Rightarrow> device_limits \<Rightarrow> int option \<times> device_limits" where
  "admit_heartbeat opt i startup t l =
     (let l1 = trim_limits t l in
      case (if startup then too_soon (last_startup l1) i (min_startup_interval_s opt) t
            else too_soon (last_heartbeat l1) i (min_heartbeat_interval_s opt) t) of
        Some wait \<Rightarrow> (Some wait, l1)
      | None \<Rightarrow> (None, l1\<lparr>last_startup := (if startup then AList.update i t (last_startup l1) else last_startup l1),
          last_heartbeat := AList.update i t (last_heartbeat l1)\<rparr>))"

definition admit_renewal :: "device_options \<Rightarrow> string \<Rightarrow> int \<Rightarrow> device_limits \<Rightarrow> int option \<times> device_limits" where
  "admit_renewal opt i t l = (case too_soon (last_renew l) i (min_renew_interval_s opt) t of
     Some wait \<Rightarrow> (Some wait, l)
   | None \<Rightarrow> (None, l\<lparr>last_renew := AList.update i t (last_renew l)\<rparr>))"

subsection \<open>The handlers\<close>

text \<open>What a heartbeat that is taken hands on: the version, the cleaned body, whether the player just started.\<close>

record Heartbeat =
  hb_player :: string
  hb_version :: string
  hb_payload :: json
  hb_startup :: bool
  hb_result :: "(string \<times> string \<times> int option) option"

datatype hb_answer = BadHeartbeat | HeartbeatLimited int | HeartbeatTaken Heartbeat

definition is_startup :: "json \<Rightarrow> bool" where
  "is_startup j \<longleftrightarrow> field ''startup'' j = Some (JBool True)"

definition result_of :: "json \<Rightarrow> (string \<times> string \<times> int option) option" where
  "result_of j = (case field ''last_command_result'' j of
     Some r \<Rightarrow> (case (field ''id'' r, field ''status'' r) of
        (Some (JStr i), Some (JStr st)) \<Rightarrow>
          Some (i, st, case field ''os_uptime_seconds'' j of Some (JInt v) \<Rightarrow> Some v | _ \<Rightarrow> None)
      | _ \<Rightarrow> None)
   | None \<Rightarrow> None)"

text \<open>\<open>parsed\<close> is the body as JSON, if it is any.\<close>

definition heartbeat :: "device_options \<Rightarrow> string \<Rightarrow> json option \<Rightarrow> int \<Rightarrow> device_limits \<Rightarrow> hb_answer \<times> device_limits" where
  "heartbeat opt i parsed t l =
     (case parsed of
        Some (JObj kv) \<Rightarrow>
          (case admit_heartbeat opt i (is_startup (JObj kv)) t l of
             (Some wait, l1) \<Rightarrow> (HeartbeatLimited wait, l1)
           | (None, l1) \<Rightarrow>
               (let clean = sanitiseHeartbeat (JObj kv) in
                (HeartbeatTaken \<lparr>hb_player = i,
                   hb_version = (case field ''version'' (JObj kv) of Some (JStr v) \<Rightarrow> cleanText v 64 | _ \<Rightarrow> []),
                   hb_payload = clean, hb_startup = is_startup (JObj kv), hb_result = result_of clean\<rparr>, l1)))
      | _ \<Rightarrow> (BadHeartbeat, l))"

definition csr_of :: "json option \<Rightarrow> string" where
  "csr_of parsed = (case parsed of Some j \<Rightarrow> (case field ''csr_pem'' j of Some (JStr s) \<Rightarrow> s | _ \<Rightarrow> []) | None \<Rightarrow> [])"

text \<open>\<open>Inl\<close>: to be asked again in so many seconds.\<close>

definition renew_request :: "device_options \<Rightarrow> string \<Rightarrow> string \<Rightarrow> json option \<Rightarrow> int \<Rightarrow> device_limits
    \<Rightarrow> (int + RenewRequest) \<times> device_limits" where
  "renew_request opt i serial parsed t l = (case admit_renewal opt i t l of
     (Some wait, l1) \<Rightarrow> (Inl wait, l1)
   | (None, l1) \<Rightarrow> (Inr \<lparr>rn_player = i, rn_serial = serial, rn_csr = csr_of parsed\<rparr>, l1))"

subsection \<open>Audit rows that are merged\<close>

record Throttle =
  since :: int
  suppressed :: nat

record DeviceAudit =
  da_action :: string
  da_access_denial :: bool
  da_player :: string
  da_ip :: string
  da_method :: string
  da_path :: string
  da_status :: int
  da_reason :: string
  da_suppressed :: nat

definition audit_key :: "DeviceAudit \<Rightarrow> string" where
  "audit_key ev = da_action ev @ ''|'' @ (if da_player ev = [] then da_ip ev else da_player ev) @ ''|'' @ da_reason ev"

definition emit_device_audit :: "device_options \<Rightarrow> int \<Rightarrow> DeviceAudit \<Rightarrow> (string \<times> Throttle) list
    \<Rightarrow> DeviceAudit option \<times> (string \<times> Throttle) list" where
  "emit_device_audit opt t ev m =
     (if da_action ev = ''player.renew'' then (Some ev, m)
      else
        let m1 = (if 5000 < length m then filter (\<lambda>x. \<not> audit_throttle_s opt < t - since (snd x)) m else m);
            th = (case map_of m1 (audit_key ev) of None \<Rightarrow> \<lparr>since = 0, suppressed = 0\<rparr> | Some th \<Rightarrow> th)
        in if since th \<noteq> 0 \<and> t - since th < audit_throttle_s opt
           then (None, AList.update (audit_key ev) (th\<lparr>suppressed := suppressed th + 1\<rparr>) m1)
           else (Some (ev\<lparr>da_suppressed := suppressed th\<rparr>), AList.update (audit_key ev) \<lparr>since = t, suppressed = 0\<rparr> m1))"

subsection \<open>The routes\<close>

text \<open>What a request shows before its body: the address, the method and the path, and the device in the handshake.\<close>

record Request =
  rq_ip :: string
  rq_method :: string
  rq_path :: string
  rq_peer :: "Peer option"

definition denied_who :: "Request \<Rightarrow> string" where
  "denied_who rq = (case rq_peer rq of
     None \<Rightarrow> idInPath (rq_path rq)
   | Some p \<Rightarrow> if verified p = VerifyOk \<and> peer_cn p \<noteq> [] \<and> peer_serial p \<noteq> [] then peer_cn p else idInPath (rq_path rq))"

definition denied_row :: "Request \<Rightarrow> int \<Rightarrow> string \<Rightarrow> DeviceAudit" where
  "denied_row rq st code = \<lparr>da_action = ''player.device_denied'', da_access_denial = True, da_player = denied_who rq, da_ip = rq_ip rq,
     da_method = rq_method rq, da_path = rq_path rq, da_status = st, da_reason = code, da_suppressed = 0\<rparr>"

text \<open>The gate with its audit row: the refusal if there is one, the row if it is reported, and the rows held back.\<close>

definition gate_handler :: "device_options \<Rightarrow> int \<Rightarrow> players_db \<Rightarrow> players_db \<Rightarrow> revocation_list \<Rightarrow> Request \<Rightarrow> (string \<times> Throttle) list
    \<Rightarrow> (int \<times> string) option \<times> DeviceAudit option \<times> (string \<times> Throttle) list" where
  "gate_handler opt t d1 d2 rl rq m = (case gate d1 d2 rl (rq_path rq) (rq_peer rq) of
     None \<Rightarrow> (None, None, m)
   | Some (st, code) \<Rightarrow> (Some (st, code), emit_device_audit opt t (denied_row rq st code) m))"

definition denial_action :: "string \<Rightarrow> bool" where
  "denial_action a \<longleftrightarrow> 7 < length a \<and> drop (length a - 7) a = ''_denied''"

definition renewal_row :: "Request \<Rightarrow> string \<Rightarrow> Outcome \<Rightarrow> DeviceAudit" where
  "renewal_row rq i out = \<lparr>da_action = audit_action out, da_access_denial = denial_action (audit_action out), da_player = i,
     da_ip = rq_ip rq, da_method = rq_method rq, da_path = rq_path rq, da_status = out_status out, da_reason = audit_reason out,
     da_suppressed = 0\<rparr>"

record device_port =
  port_limits :: device_limits
  port_rows :: "(string \<times> Throttle) list"

datatype renew_answer = RenewUnavailable | RenewLimited int | RenewAnswer Outcome "DeviceAudit option"

text \<open>Renewal, behind the gate: without a renewal service 503, too early 429, else what the service answers.\<close>

definition renew_route :: "device_options \<Rightarrow> device_env option \<Rightarrow> Request \<Rightarrow> string \<Rightarrow> json option \<Rightarrow> int \<Rightarrow> int \<Rightarrow> players_db \<Rightarrow> device_port
    \<Rightarrow> renew_answer \<times> players_db \<times> device_port" where
  "renew_route opt env rq i parsed t u d p = (case env of
     None \<Rightarrow> (RenewUnavailable, d, p)
   | Some e \<Rightarrow>
       (let serial = (case rq_peer rq of None \<Rightarrow> [] | Some q \<Rightarrow> peer_serial q) in
        case renew_request opt i serial parsed t (port_limits p) of
          (Inl wait, l) \<Rightarrow> (RenewLimited wait, d, p\<lparr>port_limits := l\<rparr>)
        | (Inr r, l) \<Rightarrow>
            (let (out, d') = renew e r d; (row, m) = emit_device_audit opt u (renewal_row rq i out) (port_rows p)
             in (RenewAnswer out row, d', \<lparr>port_limits = l, port_rows = m\<rparr>))))"

subsection \<open>No refusal goes uncounted\<close>

text \<open>
  While the table of merged rows is not swept, every event is in a row that is reported or among the
  suppressed ones that the next row of its kind will name.
\<close>

definition uncounted :: "string \<Rightarrow> (string \<times> Throttle) list \<Rightarrow> nat" where
  "uncounted k m = (case map_of m k of None \<Rightarrow> 0 | Some th \<Rightarrow> suppressed th)"

lemma emit_accounts:
  assumes "length m \<le> 5000" "da_action ev \<noteq> ''player.renew''" "emit_device_audit opt t ev m = (row, m')"
  shows "uncounted (audit_key ev) m + 1 = (case row of None \<Rightarrow> 0 | Some r \<Rightarrow> da_suppressed r + 1) + uncounted (audit_key ev) m'"
    "k \<noteq> audit_key ev \<Longrightarrow> uncounted k m' = uncounted k m"
  using assms by (auto simp: emit_device_audit_def uncounted_def Let_def update_conv split: if_splits option.splits)

lemma gate_denials_counted:
  assumes "length m \<le> 5000" "gate_handler opt t d1 d2 rl rq m = (Some (st, code), row, m')"
  shows "uncounted (audit_key (denied_row rq st code)) m + 1
    = (case row of None \<Rightarrow> 0 | Some r \<Rightarrow> da_suppressed r + 1) + uncounted (audit_key (denied_row rq st code)) m'"
  using assms(2) by (intro emit_accounts(1) [OF assms(1)])
    (auto simp: gate_handler_def denied_row_def split: option.splits)

lemma renewal_without_loss:
  assumes "renew_route opt env rq i parsed t u d p = (RenewAnswer out row, d', p')"
  shows "out_status out = 200 \<Longrightarrow> row = Some (renewal_row rq i out)"
    "audit_action out = ''player.renew_denied'' \<Longrightarrow> da_access_denial (renewal_row rq i out)"
proof -
  obtain e r s where o: "renew e r d = (out, s)" and em: "emit_device_audit opt u (renewal_row rq i out) (port_rows p) = (row, port_rows p')"
    using assms by (auto simp: renew_route_def Let_def split: option.splits prod.splits sum.splits)
  show "row = Some (renewal_row rq i out)" if "out_status out = 200"
  proof -
    have "audit_action out = ''player.renew''"
      using o that by (auto simp: renew_def renew_sign_def renew_check_def fail_def renew_granted_def Let_def
        split: if_splits option.splits sum.splits prod.splits)
    then show ?thesis using em by (simp add: emit_device_audit_def renewal_row_def)
  qed
  show "audit_action out = ''player.renew_denied'' \<Longrightarrow> da_access_denial (renewal_row rq i out)"
    by (simp add: renewal_row_def denial_action_def)
qed

subsection \<open>Who gets through\<close>

lemma by_issue_set [simp]: "set (by_issue cs) = set cs"
  by (simp add: by_issue_def)

lemma presented_of: "presented_cert d i s = Some c \<Longrightarrow>
    c \<in> set (certs d) \<and> crt_player c = i \<and> normalise_serial (serial_hex c) = normalise_serial s"
  by (auto simp: presented_cert_def certsOf_def dest: find_SomeD)

lemma gate_passes:
  assumes "gate d1 d2 rl path peer = None"
  shows "\<exists>p c s. peer = Some p \<and> verified p = VerifyOk \<and> idInPath path \<in> {[], peer_cn p} \<and>
    screen_of d1 (peer_cn p) = Some s \<and> pl_state s \<noteq> Revoked \<and> \<not> isRevoked rl (peer_serial p) \<and>
    c \<in> set (certs d2) \<and> crt_player c = peer_cn p \<and> crt_revoked_at c = None \<and>
    normalise_serial (serial_hex c) = normalise_serial (peer_serial p)"
  using assms by (auto simp: gate_def split: option.splits if_splits dest!: presented_of)

subsection \<open>The list of revoked serials\<close>

lemma set_add: "set (add_revoked cs rl) = set rl \<union> {normalise_serial (serial_hex c) |c. c \<in> set cs \<and> normalise_serial (serial_hex c) \<noteq> []}"
  unfolding add_revoked_def by (induction cs arbitrary: rl) (auto simp: add_serial_def Let_def)

lemma set_replace: "set (replaceAll cs) = {normalise_serial (serial_hex c) |c. c \<in> set cs \<and> normalise_serial (serial_hex c) \<noteq> []}"
  using set_add [of cs "[]"] by (simp add: replaceAll_def add_revoked_def)

lemma revoked_rows [simp]: "serial_hex (revoke_cert_row t r c) = serial_hex c"
  by (simp add: revoke_cert_row_def)

lemma is_revoked_added: "c \<in> set cs \<Longrightarrow> normalise_serial (serial_hex c) = normalise_serial s \<Longrightarrow> normalise_serial s \<noteq> [] \<Longrightarrow>
    isRevoked (add_revoked cs rl) s"
  by (auto simp: isRevoked_def Let_def set_add intro: exI [of _ c])

lemma is_revoked_rebuilt: "isRevoked (rebuildFrom d t) s \<longleftrightarrow> normalise_serial s \<noteq> [] \<and>
    (\<exists>c \<in> set (certs d). still_listed t c \<and> normalise_serial (serial_hex c) = normalise_serial s)"
  unfolding isRevoked_def Let_def rebuildFrom_def set_replace by (auto simp: revokedCerts_def intro: sym)

text \<open>What a revocation answers, and leaves: every certificate that worked is in both.\<close>

lemma revoke_result:
  assumes "revokePlayer i r t d = (Some cs, d')" "c \<in> set (certs d)" "live_of i c" "players_ok d"
  shows "revoke_cert_row t r c \<in> set cs" "revoke_cert_row t r c \<in> set (certs d')"
proof -
  have "screen_state d i = Some Active" using assms(2,3,4) by (auto simp: players_ok_def certs_ok_def live_of_def)
  then have "(revoke_cert_row t r c \<in> set cs) \<and> (revoke_cert_row t r c \<in> set (certs d'))"
    using assms(1-3) by (auto simp: revokePlayer_def transaction_def Let_def live_revoked_def screen_state_def
        split: if_splits option.splits)
  then show "revoke_cert_row t r c \<in> set cs" "revoke_cert_row t r c \<in> set (certs d')" by simp_all
qed

lemma gate_revoked: "isRevoked rl (peer_serial p) \<Longrightarrow> gate d1 d2 rl path (Some p) \<noteq> None"
  using gate_passes [of d1 d2 rl path "Some p"] by (cases "gate d1 d2 rl path (Some p)") auto

subsection \<open>Heartbeats in a row\<close>

fun beats :: "device_options \<Rightarrow> (string \<times> bool \<times> int) list \<Rightarrow> device_limits \<Rightarrow> bool list" where
  "beats opt [] l = []"
| "beats opt ((i, b, t) # xs) l =
     (let (wait, l1) = admit_heartbeat opt i b t l in (wait = None) # beats opt xs l1)"

lemma map_of_trim: "map_of m i = Some v \<Longrightarrow> t - v \<le> 3600 \<Longrightarrow> map_of (forget_times t m) i = Some v"
  by (induction m) (auto simp: forget_times_def split: if_splits)

lemma trimmed_beat: "map_of (last_heartbeat l) i = Some v \<Longrightarrow> t - v \<le> 3600 \<Longrightarrow> map_of (last_heartbeat (trim_limits t l)) i = Some v"
  by (simp add: trim_limits_def map_of_trim)

lemma admitted_beat: "admit_heartbeat opt i b t l = (None, l1) \<Longrightarrow> map_of (last_heartbeat l1) i = Some t"
  by (auto simp: admit_heartbeat_def Let_def update_conv' split: option.splits if_splits)

lemma one_more_beat:
  assumes "map_of (last_heartbeat l) i = Some v" "u \<le> v" "v \<le> t" "t - v \<le> 3600"
  shows "\<exists>v'. map_of (last_heartbeat (snd (admit_heartbeat opt j b t l))) i = Some v' \<and> u \<le> v' \<and> v' \<le> t"
  using trimmed_beat [OF assms(1,4)] assms(2,3)
  by (auto simp: admit_heartbeat_def Let_def update_conv' split: option.splits if_splits)

lemma early_beat:
  assumes "map_of (last_heartbeat l) i = Some v" "t - v < min_heartbeat_interval_s opt" "t - v \<le> 3600"
  shows "fst (admit_heartbeat opt i False t l) \<noteq> None"
  using trimmed_beat [OF assms(1,3)] assms(2) by (simp add: admit_heartbeat_def Let_def too_soon_def)

lemma beats_spaced:
  assumes "map_of (last_heartbeat l) i = Some v" "u \<le> v" "\<forall>x \<in> set xs. v \<le> snd (snd x) \<and> snd (snd x) < u + min_heartbeat_interval_s opt"
    "sorted (map (\<lambda>x. snd (snd x)) xs)" "min_heartbeat_interval_s opt \<le> 3600" "k < length xs" "fst (xs ! k) = i" "\<not> fst (snd (xs ! k))"
  shows "\<not> beats opt xs l ! k"
  using assms
proof (induction xs arbitrary: k l v)
  case (Cons x xs)
  obtain j b t where x: "x = (j, b, t)" by (cases x) auto
  have t: "v \<le> t" "t < u + min_heartbeat_interval_s opt" using Cons.prems(3) by (simp_all add: x)
  show ?case
  proof (cases k)
    case 0
    then show ?thesis using Cons.prems t early_beat [of l i v t opt] by (simp add: x case_prod_beta)
  next
    case (Suc m)
    obtain v' where v': "map_of (last_heartbeat (snd (admit_heartbeat opt j b t l))) i = Some v'" "u \<le> v'" "v' \<le> t"
      using one_more_beat [OF Cons.prems(1,2) t(1)] Cons.prems(2,5) t by force
    have "\<forall>y \<in> set xs. v' \<le> snd (snd y) \<and> snd (snd y) < u + min_heartbeat_interval_s opt"
      using Cons.prems(3,4) v'(3) by (force simp: x)
    then have "\<not> beats opt xs (snd (admit_heartbeat opt j b t l)) ! m"
      using Cons.prems Suc by (intro Cons.IH [OF v'(1,2)]) (auto simp: x)
    then show ?thesis by (simp add: x Suc case_prod_beta)
  qed
qed simp

subsection \<open>The cleaned body\<close>

lemma cleanText_idem [simp]: "cleanText (cleanText s m) m = cleanText s m"
proof -
  have "filter printable (take m (filter printable s)) = take m (filter printable s)"
    by (rule filter_True) (auto dest: in_set_takeD)
  then show ?thesis by (simp add: cleanText_def)
qed

lemma unit_interval_idem [simp]: "unit_interval (unit_interval x) = unit_interval x"
  by (simp add: unit_interval_def)

text \<open>Each part looks at its own field only, and makes no other.\<close>

lemma keep_other [simp]:
  "k \<noteq> n \<Longrightarrow> field k (JObj (keep_text j n m)) = None" "k \<noteq> n \<Longrightarrow> field k (JObj (keep_word j n ws)) = None"
  "k \<noteq> n \<Longrightarrow> field k (JObj (keep_integer j n)) = None" "k \<noteq> n \<Longrightarrow> field k (JObj (keep_share j n)) = None"
  "k \<noteq> ''last_command_result'' \<Longrightarrow> field k (JObj (keep_result j)) = None"
  by (auto simp: keep_text_def keep_word_def keep_integer_def keep_share_def keep_result_def field_def split: option.split json.split)

lemma keep_same:
  "field n j' = field n (JObj (keep_text j n m)) \<Longrightarrow> keep_text j' n m = keep_text j n m"
  "field n j' = field n (JObj (keep_word j n ws)) \<Longrightarrow> keep_word j' n ws = keep_word j n ws"
  "field n j' = field n (JObj (keep_integer j n)) \<Longrightarrow> keep_integer j' n = keep_integer j n"
  "field n j' = field n (JObj (keep_share j n)) \<Longrightarrow> keep_share j' n = keep_share j n"
  by (auto simp: keep_text_def keep_word_def keep_integer_def keep_share_def split: option.splits json.splits if_splits)

lemma keep_same_result:
  "field ''last_command_result'' j' = field ''last_command_result'' (JObj (keep_result j)) \<Longrightarrow> keep_result j' = keep_result j"
  by (auto simp: keep_result_def split: option.splits json.splits if_splits)

lemma field_here: "(case field k (JObj xs) of None \<Rightarrow> None | Some v \<Rightarrow> Some v) = field k (JObj xs)"
  by (simp split: option.split)

lemma cleaned_fields:
  "field ''uptime_seconds'' (sanitiseHeartbeat j) = field ''uptime_seconds'' (JObj (keep_integer j ''uptime_seconds''))"
  "field ''os_uptime_seconds'' (sanitiseHeartbeat j) = field ''os_uptime_seconds'' (JObj (keep_integer j ''os_uptime_seconds''))"
  "field ''position_ms'' (sanitiseHeartbeat j) = field ''position_ms'' (JObj (keep_integer j ''position_ms''))"
  "field ''last_command_result'' (sanitiseHeartbeat j) = field ''last_command_result'' (JObj (keep_result j))"
  "field ''watchdog_state'' (sanitiseHeartbeat j) = field ''watchdog_state'' (JObj (keep_word j ''watchdog_state'' [''ok'', ''stale'', ''not_running'']))"
  "field ''health'' (sanitiseHeartbeat j) = field ''health'' (JObj (keep_word j ''health'' [''ok'', ''warning'', ''critical'']))"
  "field ''current_source'' (sanitiseHeartbeat j) = field ''current_source'' (JObj (keep_text j ''current_source'' 256))"
  "field ''media_status'' (sanitiseHeartbeat j) = field ''media_status'' (JObj (keep_text j ''media_status'' 64))"
  "field ''last_error'' (sanitiseHeartbeat j) = field ''last_error'' (JObj (keep_text j ''last_error'' 512))"
  "field ''last_renew_error'' (sanitiseHeartbeat j) = field ''last_renew_error'' (JObj (keep_text j ''last_renew_error'' 512))"
  "field ''last_command_id'' (sanitiseHeartbeat j) = field ''last_command_id'' (JObj (keep_text j ''last_command_id'' 64))"
  "field ''buffer_progress'' (sanitiseHeartbeat j) = field ''buffer_progress'' (JObj (keep_share j ''buffer_progress''))"
  by (simp_all add: sanitiseHeartbeat_def split: option.split)

lemmas cleaned_parts = keep_same(3) [OF cleaned_fields(1)] keep_same(3) [OF cleaned_fields(2)] keep_same(3) [OF cleaned_fields(3)] keep_same_result [OF cleaned_fields(4)]
  keep_same(2) [OF cleaned_fields(5)] keep_same(2) [OF cleaned_fields(6)] keep_same(1) [OF cleaned_fields(7)] keep_same(1) [OF cleaned_fields(8)]
  keep_same(1) [OF cleaned_fields(9)] keep_same(1) [OF cleaned_fields(10)] keep_same(1) [OF cleaned_fields(11)] keep_same(4) [OF cleaned_fields(12)]

lemma sanitise_idem: "sanitiseHeartbeat (sanitiseHeartbeat j) = sanitiseHeartbeat j"
  unfolding sanitiseHeartbeat_def [of "sanitiseHeartbeat j"] cleaned_parts by (simp only: sanitiseHeartbeat_def [symmetric])

lemma cleanText_short: "length (cleanText s m) \<le> m" "list_all printable (cleanText s m)"
  by (auto simp: cleanText_def list_all_iff dest: in_set_takeD)

text \<open>
  What a cleaned body may hold, field by field, and all the texts of a value, at any depth. \<open>text_limits\<close> and
  \<open>word_fields\<close> are the tables of the specification.
\<close>

definition text_limits :: "(string \<times> nat) list" where
  "text_limits = [(''current_source'', 256), (''media_status'', 64), (''last_error'', 512), (''last_renew_error'', 512),
     (''last_command_id'', 64)]"

definition word_fields :: "(string \<times> string list) list" where
  "word_fields = [(''watchdog_state'', [''ok'', ''stale'', ''not_running'']), (''health'', [''ok'', ''warning'', ''critical''])]"

fun result_ok :: "json \<Rightarrow> bool" where
  "result_ok (JObj [(k1, JStr i), (k2, JStr st)]) \<longleftrightarrow> k1 = ''id'' \<and> looksLikeUuid i \<and> k2 = ''status'' \<and> st \<in> set known_results"
| "result_ok _ \<longleftrightarrow> False"

fun allowed_field :: "string \<times> json \<Rightarrow> bool" where
  "allowed_field (k, JInt n) \<longleftrightarrow> k \<in> {''uptime_seconds'', ''os_uptime_seconds'', ''position_ms''} \<and> 0 \<le> n \<and> n < 2 ^ 53"
| "allowed_field (k, JStr s) \<longleftrightarrow> (case map_of text_limits k of
     Some m \<Rightarrow> length s \<le> m \<and> list_all printable s
   | None \<Rightarrow> (case map_of word_fields k of Some ws \<Rightarrow> s \<in> set ws | None \<Rightarrow> False))"
| "allowed_field (k, JFloat x) \<longleftrightarrow> k = ''buffer_progress'' \<and> 0 \<le> x \<and> x \<le> 1"
| "allowed_field (k, JObj kv) \<longleftrightarrow> k = ''last_command_result'' \<and> result_ok (JObj kv)"
| "allowed_field _ \<longleftrightarrow> False"

fun texts :: "json \<Rightarrow> string list" where
  "texts (JStr s) = [s]"
| "texts (JArr vs) = concat (map texts vs)"
| "texts (JObj kv) = concat (map (\<lambda>x. texts (snd x)) kv)"
| "texts _ = []"

definition tidy :: "string \<Rightarrow> bool" where
  "tidy s \<longleftrightarrow> length s \<le> 512 \<and> list_all printable s"

lemma allowed_text: "map_of text_limits n = Some m \<Longrightarrow> list_all allowed_field (keep_text j n m)"
  by (simp add: keep_text_def cleanText_short split: option.split json.split)

lemma allowed_word: "map_of text_limits n = None \<Longrightarrow> map_of word_fields n = Some ws \<Longrightarrow> list_all allowed_field (keep_word j n ws)"
  by (simp add: keep_word_def split: option.split json.split)

lemma allowed_integer:
  "n \<in> {''uptime_seconds'', ''os_uptime_seconds'', ''position_ms''} \<Longrightarrow> list_all allowed_field (keep_integer j n)"
  by (simp add: keep_integer_def split: option.split json.split)

lemma allowed_share: "list_all allowed_field (keep_share j ''buffer_progress'')"
  by (simp add: keep_share_def unit_interval_def split: option.split json.split)

lemma allowed_result: "list_all allowed_field (keep_result j)"
  by (simp add: keep_result_def split: option.split json.split)

lemma cleaned_fields_allowed: "\<exists>kvs. sanitiseHeartbeat j = JObj kvs \<and> list_all allowed_field kvs"
proof -
  note integers = allowed_integer [of "''uptime_seconds''"] allowed_integer [of "''os_uptime_seconds''"] allowed_integer [of "''position_ms''"]
  have words: "list_all allowed_field (keep_word j ''watchdog_state'' [''ok'', ''stale'', ''not_running''])"
    "list_all allowed_field (keep_word j ''health'' [''ok'', ''warning'', ''critical''])"
    by (rule allowed_word; simp add: text_limits_def word_fields_def)+
  have limited: "list_all allowed_field (keep_text j ''current_source'' 256)" "list_all allowed_field (keep_text j ''media_status'' 64)"
    "list_all allowed_field (keep_text j ''last_error'' 512)" "list_all allowed_field (keep_text j ''last_renew_error'' 512)"
    "list_all allowed_field (keep_text j ''last_command_id'' 64)"
    by (rule allowed_text; simp add: text_limits_def)+
  have "list_all allowed_field kvs" if "sanitiseHeartbeat j = JObj kvs" for kvs
    using that integers words limited allowed_share [of j] allowed_result [of j] by (auto simp: sanitiseHeartbeat_def)
  then show ?thesis by (simp add: sanitiseHeartbeat_def)
qed

lemma uuid_tidy:
  assumes "looksLikeUuid s"
  shows "tidy s"
proof -
  have "printable c" if "c \<in> set s" for c
  proof -
    obtain i where "i < length s" "c = s ! i" using \<open>c \<in> set s\<close> by (auto simp: in_set_conv_nth)
    then have "c = CHR ''-'' \<or> lower_hex c" using assms by (auto simp: looksLikeUuid_def list_all_iff split: if_splits)
    then show ?thesis by (auto simp: lower_hex_def printable_def less_eq_char_def)
  qed
  then show ?thesis using assms by (simp add: tidy_def looksLikeUuid_def list_all_iff)
qed

lemma result_tidy: "result_ok v \<Longrightarrow> s \<in> set (texts v) \<Longrightarrow> tidy s"
  by (cases v rule: result_ok.cases) (auto simp: uuid_tidy known_results_def, auto simp: tidy_def printable_def)

lemma allowed_tidy:
  assumes "allowed_field kv" "s \<in> set (texts (snd kv))"
  shows "tidy s"
proof (cases kv rule: allowed_field.cases)
  case (2 k t)
  then show ?thesis using assms
    by (auto simp: tidy_def text_limits_def word_fields_def printable_def split: if_splits)
next
  case (4 k kv')
  then show ?thesis using assms result_tidy [of "JObj kv'" s] by simp
qed (use assms in auto)

lemma cleaned_texts_tidy:
  assumes "s \<in> set (texts (sanitiseHeartbeat j))"
  shows "tidy s"
proof -
  obtain kvs where k: "sanitiseHeartbeat j = JObj kvs" "list_all allowed_field kvs" using cleaned_fields_allowed by blast
  then obtain kv where "kv \<in> set kvs" "s \<in> set (texts (snd kv))" using assms by auto
  then show ?thesis using k(2) allowed_tidy [of kv s] by (auto simp: list_all_iff)
qed

section \<open>Properties\<close>

text \<open>C17: revoking a screen shuts its device out: every certificate that worked is put on the list in memory, and the
  gate refuses it on the next request whatever the tables hold by then; and it is on the list that a restart
  rebuilds after any further operations, for as long as the certificate lasts.\<close>

theorem revoked_device_shut_out:
  assumes "revokePlayer i r t d = (Some cs, d')" "players_ok d" "c \<in> set (certs d)" "live_of i c"
    and "normalise_serial (serial_hex c) \<noteq> []" "normalise_serial (peer_serial p) = normalise_serial (serial_hex c)"
    and "list_all (timely T) ops" "T \<le> not_after c" "u \<le> not_after c"
  shows "gate a b (add_revoked cs rl) path (Some p) \<noteq> None \<and> gate a b (rebuildFrom (run_ops h ops d') u) path (Some p) \<noteq> None"
proof -
  note both = revoke_result [OF assms(1,3,4,2)]
  have "isRevoked (add_revoked cs rl) (peer_serial p)"
    using is_revoked_added [OF both(1)] assms(5,6) by simp
  moreover have "revoke_cert_row t r c \<in> set (certs (run_ops h ops d'))"
    using listed_while_valid [OF assms(7) both(2)] assms(8) by simp
  then have "isRevoked (rebuildFrom (run_ops h ops d') u) (peer_serial p)"
    using assms(5,6,9) by (auto simp: is_revoked_rebuilt still_listed_def intro: bexI [of _ "revoke_cert_row t r c"])
  ultimately show ?thesis by (simp add: gate_revoked del: not_None_eq)
qed

theorem revoked_device_shut_out_witness:
  "gate (one_active None) (one_active None) (add_revoked [revoke_cert_row 9 ''lost'' (lobby_cert None)] [])
    (kPrefix @ lobby) (Some \<lparr>verified = VerifyOk, peer_cn = lobby, peer_serial = ''a1b''\<rparr>) \<noteq> None"
proof -
  let ?r = "revokePlayer lobby ''lost'' 9 (one_active None)"
  have "fst ?r = Some [revoke_cert_row 9 ''lost'' (lobby_cert None)]" by code_simp
  then have r: "?r = (Some [revoke_cert_row 9 ''lost'' (lobby_cert None)], snd ?r)" by (simp add: prod_eq_iff)
  have n: "normalise_serial (serial_hex (lobby_cert None)) = ''A1B''" "normalise_serial ''a1b'' = ''A1B''" by code_simp+
  have c: "lobby_cert None \<in> set (certs (one_active None))" "live_of lobby (lobby_cert None)"
    by (simp_all add: one_active_def live_of_def lobby_cert_def)
  show ?thesis
    using revoked_device_shut_out [OF r one_active_ok c, of "\<lparr>verified = VerifyOk, peer_cn = lobby, peer_serial = ''a1b''\<rparr>" 0 "[]" 0] n
    by (simp add: lobby_cert_def del: not_None_eq)
qed

text \<open>C21: what the gate lets through: whatever the first query saw, if the second sees a state that operations can reach, the
  handshake was verified, the screen of the certificate's name is active there, the path names that screen or none, the serial is not on the list, and the
  tables hold a certificate of that serial for that screen which is not revoked.\<close>

theorem gate_needs_live_certificate:
  assumes "players_ok d0" "d2 = run_ops h ops d0" "gate d1 d2 rl path (Some p) = None"
  shows "verified p = VerifyOk \<and> screen_state d2 (peer_cn p) = Some Active \<and> idInPath path \<in> {[], peer_cn p} \<and>
    \<not> isRevoked rl (peer_serial p) \<and>
    (\<exists>c \<in> set (certs d2). live_of (peer_cn p) c \<and> normalise_serial (serial_hex c) = normalise_serial (peer_serial p))"
proof -
  have "certs_ok d2" using rules_throughout [OF assms(1)] assms(2) by (simp add: players_ok_def)
  then show ?thesis using gate_passes [OF assms(3)] by (auto simp: certs_ok_def live_of_def)
qed

theorem gate_needs_live_certificate_witness:
  "screen_state (one_active None) lobby = Some Active \<and>
    gate (one_active None) (one_active None) [] (kPrefix @ lobby @ ''/renew'') (Some \<lparr>verified = VerifyOk, peer_cn = lobby, peer_serial = ''a1b''\<rparr>) = None"
proof -
  have g: "gate (one_active None) (one_active None) [] (kPrefix @ lobby @ ''/renew'')
      (Some \<lparr>verified = VerifyOk, peer_cn = lobby, peer_serial = ''a1b''\<rparr>) = None" by code_simp
  have "one_active None = run_ops id [] (one_active None)" by (simp add: run_ops_def)
  from gate_needs_live_certificate [OF one_active_ok this g] g show ?thesis by simp
qed

text \<open>C22: the body of a heartbeat, cleaned: every field is a known one and within its limits, the nested result of the last
  command included, whose id is a UUID and whose status is a known one; every text in it, at any depth, is at most 512 bytes
  long and has no control characters; and cleaning it again changes nothing.\<close>

theorem cleaned_body_is_clean:
  "(\<exists>kvs. sanitiseHeartbeat j = JObj kvs \<and> list_all allowed_field kvs) \<and>
    list_all (\<lambda>s. length s \<le> 512 \<and> list_all printable s) (texts (sanitiseHeartbeat j)) \<and>
    sanitiseHeartbeat (sanitiseHeartbeat j) = sanitiseHeartbeat j"
  using cleaned_fields_allowed [of j] cleaned_texts_tidy [of _ j] by (simp add: sanitise_idem list_all_iff tidy_def)

end
