(* ===== verification/Spec2Isabelle.thy ===== *)
theory Spec2Isabelle
  imports Prelude Crc32 TsPacket RingCore SpscQueue TsRing PcrRestamper Descriptors
    DvbTime DvbText PsiSection PsiTables ServiceTables PsiAssembler PsiPackets Pes
    ProgramTable Rtp Fec FecEncoder Timeline TimelineCursor Json Schedule
    Scheduler ScheduleController LiveClip CText PlayersDb CommandService CommandJobs Preloader
    CronExpr ClientIp Access EventBus SseFilter Limiters Mounts AuthTables
    AuthService AuthSessions AuthLogin EnrollDb EnrollRules Enrolment Pairing DeviceGate
begin

text \<open>
  A verification library for LiveQX, a playout server: it renders channels from playlists of clips, moves
  them on by a weekly schedule, sends them out as MPEG transport streams, commands a fleet of player devices, and
  is run over HTTP by users with roles. The model is a shallow embedding of the parts of \<open>src/src\<close> that decide
  something; the names of definitions are those of the code.

  The parts and their theories.

  Transport streams (\<open>gateway/ts\<close>). Crc32 (\<open>PsiParser.cpp\<close>, \<open>PsiBuilder.cpp\<close>: the table driven CRC is
  the shift register), TsPacket (\<open>TsPacket.h\<close>), RingCore, SpscQueue and TsRing (the lock-free ring, its two threads as a
  step relation, the drop-oldest push), PcrRestamper, Descriptors, DvbText, DvbTime, PsiSection, PsiTables and ServiceTables
  (PAT, PMT, SDT, EIT built and parsed), PsiAssembler and PsiPackets (sections cut into packets and put together again), Pes,
  ProgramTable. Rtp, Fec and FecEncoder are \<open>gateway/fec\<close>. Tables flow from the builders through PsiPackets and PsiAssembler
  to the parsers; this theory states that composition.

  Playout (\<open>core\<close>, \<open>clips\<close>). Timeline and TimelineCursor (playlist, cursor, the stateless reference), Json, Schedule,
  Scheduler and ScheduleController (entries, decisions, the state machine that moves a channel between its regular
  playlist and a scheduled one, and what \<open>ChannelInstance.cpp\<close> does with its actions: the playlist and transition on
  air and the events published), Preloader (which clips are warm), LiveClip (the life of a live entry).

  Players (\<open>players\<close>). PlayersDb (the tables as the commands see them), CommandService and CommandJobs (commands for one
  player and for many, and the loop that moves bulk jobs on). EnrollDb (all the other tables and operations of \<open>PlayersDb.cpp\<close>:
  screens, pairing tokens, certificates, revocation numbers, journal, hierarchy, settings), EnrollRules (each operation is one
  write or none, and the invariants of any list of operations), Enrolment (\<open>EnrollService.cpp\<close>, \<open>RenewService.cpp\<close>,
  \<open>RevocationList.cpp\<close> and the \<open>UnlockLimiter\<close> of \<open>auth/SealedServer.cpp\<close>), Pairing (requests side by side, as a step
  relation), DeviceGate (\<open>DeviceApi.cpp\<close>: the gate of the device port, heartbeats, renewals). A device is paired
  by Enrolment, which writes EnrollDb; DeviceGate lets it in by the certificate recorded there.

  Access (\<open>auth\<close>, \<open>api\<close>, \<open>utils\<close>, \<open>events\<close>, \<open>audit\<close>). Access (roles, rights, the rule table, token claims), AuthTables,
  AuthService, AuthSessions and AuthLogin (the sign-in tables and service), ClientIp (whose address a request has), EventBus (a publish whole and as
  the three steps of its thread, interleaved) and SseFilter (events and who may see them), Limiters (rate of audit entries, number of open streams).

  Host (\<open>mounts\<close>, \<open>stress\<close>). Mounts (specifications of network mounts and the systemd units made of them), CronExpr.

  Prelude and CText hold what they share: lemmas on lists and words, and the C character and string functions.

  How state and operations correspond. A class is a record with the members of the class, an operation a function from the
  record and its arguments to its answer and the new record; an enum is a datatype; errors, empty optionals and
  exceptions are values of a sum or option type. Loops are structural recursion, or recursion with a measure: the walk of
  the schedule over days stops after 400 of them as in the code, rolling a cursor forward takes one turn more than there are
  clips, as in the code (TimelineCursor proves it enough), and the loop over bulk jobs ends because every turn leaves fewer queued
  screens (CommandJobs); where the storage refuses writes it does not, which is a partial function and a theorem of its own. Threads are a step relation (SpscQueue, Pairing), a step function over
  the threads under way (EventBus) or the order in which calls come. Interfaces are locales (\<open>bounded_fifo\<close> for rings, \<open>parity\<close> for
  the XOR of FEC, \<open>constant_offset\<close> for time zones, \<open>table_invariant\<close> for the sign-in tables, \<open>kept_by_writes\<close> for those of the screens), each interpreted on the definitions
  of the component that provides it.

  What the lemmas show, by group: round trips of every codec (tables, PES, RTP, FEC, text, time, JSON, mount specifications);
  agreement of optimised code with a reference (CRC, cursor, decision, rights, networks); invariants over all sequences of calls
  (warm set, commands settle once, sign-in tables, dead sessions, subscribers, certificates and
  tokens of screens, revocation); bounds (rates, bulk sends, guesses at a password);
  termination and progress of the job loop. The numbered claims are in the last section of each theory.

  Idealisations. \<open>double\<close> is \<open>rat\<close>, except for the channel numbers in a token, which Access rounds to 53 bits; 64-bit integers that hold times, counters and ids are \<open>int\<close> (overflow is modelled where the
  code can meet it: words of packets, the time parser, the wrapping steps of a cron field); SQL tables are lists of rows, their constraints
  tests of the writing operations; a storage that refuses writes is a flag (\<open>writable\<close>) or a list of answers (\<open>faults\<close>, \<open>db_faults\<close>), reads succeed;
  a call under a lock is one step (a publish takes its id before the lock and delivers after it: three steps); the clock is an argument. Libraries (the time-zone database, jwt-cpp, Argon2id, SHA-256, inet_pton,
  the directory, the broker, the device authority with its signatures, what TLS shows of a peer) are parameters.

  Not modelled, and why. The HTTP handlers are glue around the operations modelled here. The rest of a channel instance, the render
  loop, gateways and outputs are threads, sockets and deadlines around the modelled parts. Decoding, encoding, scaling, mixing and
  previews are FFmpeg and pixel or sample loops. The audit trail, logging, metrics, persistence, content, the making of certificates and CRL
  files, presence, the opening and migration of databases, the listeners and the broker are I/O. The browser client, tests, packaging and third-party code are not part of the server.
\<close>

section \<open>Tables over transport packets\<close>

text \<open>Built sections announce their own length, up to 4093 bytes after the header.\<close>

lemma feed_all_append: "feed_all (xs @ ys) a =
    (let (o1, a1) = feed_all xs a; (o2, a2) = feed_all ys a1 in (o1 @ o2, a2))"
  by (induction xs arbitrary: a) (auto simp: Let_def split: prod.splits)

lemma framed_finished:
  assumes "length bd + 9 \<le> 4093"
  shows "framed (finishSection (writeShortSyntaxHeader t ext ver cn @ bd))"
  unfolding framed_def header_buffer by (rule header_length_finished [OF refl]) (use assms in simp)

lemma length_pat_entry: "length (pat_entry_bytes pn ppid) = 4"
  by (simp add: pat_entry_bytes_def)

lemma framed_pat: "length (pat_programs t) \<le> 1017 \<Longrightarrow> framed (buildPatSection t)"
  unfolding buildPatSection_def by (rule framed_finished) (auto simp: length_pat_entries length_pat_entry)

lemma framed_pmt: "length (pmt_body t) \<le> 4078 \<Longrightarrow> framed (buildPmtSection t)"
  unfolding buildPmtSection_def Let_def by (rule framed_finished) (simp add: pmt_body_def)

section \<open>Properties\<close>

text \<open>C1: a PAT and a PMT built by the PSI builder, cut into transport packets and fed to the section
  assembler arrive as exactly two sections, in order and on their PIDs, and the parsers read back the
  two tables with every field cut to its width on the wire.\<close>

theorem tables_over_packets:
  assumes pat: "length (pat_programs pat) \<le> 1017" "list_all (\<lambda>x. program_number x \<noteq> 0) (pat_programs pat)"
    and pmt: "length (pmt_body pmt) \<le> 4078"
  shows "\<exists>s1 s2. fst (feed_all (fst (packetizeSection 0 (buildPatSection pat) cc)
           @ fst (packetizeSection p (buildPmtSection pmt) cc')) a) = [(0, s1), (p AND 0x1FFF, s2)] \<and>
         parsePat s1 = Inr (mask_pat pat) \<and> parsePmt s2 = Inr (mask_pmt pmt)"
proof -
  obtain c where 1: "feed_all (fst (packetizeSection 0 (buildPatSection pat) cc)) a =
      ([(0, buildPatSection pat)], a(0 \<mapsto> done_state c))"
    using packetize_feed [OF framed_pat [OF pat(1)], of 0 cc a] by auto
  obtain c' where 2: "feed_all (fst (packetizeSection p (buildPmtSection pmt) cc')) (a(0 \<mapsto> done_state c)) =
      ([(p AND 0x1FFF, buildPmtSection pmt)], a(0 \<mapsto> done_state c, p AND 0x1FFF \<mapsto> done_state c'))"
    using packetize_feed [OF framed_pmt [OF pmt], of p cc' "a(0 \<mapsto> done_state c)"] by blast
  have "parsePat (buildPatSection pat) = Inr (mask_pat pat)" by (rule parse_build_pat) (use pat in simp_all)
  moreover have "parsePmt (buildPmtSection pmt) = Inr (mask_pmt pmt)" by (rule parse_build_pmt) (use pmt in simp)
  ultimately show ?thesis by (simp add: feed_all_append 1 2)
qed

theorem tables_over_packets_witness:
  "\<exists>s1 s2. fst (feed_all (fst (packetizeSection 0 (buildPatSection \<lparr>pat_transport_stream_id = 7,
        pat_version_number = 3, pat_current_next_indicator = True, pat_network_pid = 0x10,
        pat_programs = [\<lparr>program_number = 1, pmt_pid = 0x100\<rparr>]\<rparr>) 0)
      @ fst (packetizeSection 0x100 (buildPmtSection \<lparr>pmt_program_number = 1, pmt_version_number = 2,
        pmt_current_next_indicator = True, pcr_pid = 0x101, program_descriptors = [],
        streams = [\<lparr>stream_type = 0x1B, elementary_pid = 0x101, es_descriptors = []\<rparr>]\<rparr>) 0)) Map.empty) =
      [(0, s1), (0x100, s2)] \<and>
    parsePat s1 = Inr \<lparr>pat_transport_stream_id = 7, pat_version_number = 3, pat_current_next_indicator = True,
      pat_network_pid = 0x10, pat_programs = [\<lparr>program_number = 1, pmt_pid = 0x100\<rparr>]\<rparr>"
  using tables_over_packets [of "\<lparr>pat_transport_stream_id = 7,
        pat_version_number = 3, pat_current_next_indicator = True, pat_network_pid = 0x10,
        pat_programs = [\<lparr>program_number = 1, pmt_pid = 0x100\<rparr>]\<rparr>"
      "\<lparr>pmt_program_number = 1, pmt_version_number = 2,
        pmt_current_next_indicator = True, pcr_pid = 0x101, program_descriptors = [],
        streams = [\<lparr>stream_type = 0x1B, elementary_pid = 0x101, es_descriptors = []\<rparr>]\<rparr>" 0 "0x100" 0 Map.empty]
  by (auto simp: pmt_body_def stream_bytes_def mask_pat_def)

end
